(* ===== verification/Prelude.thy ===== *)
theory Prelude
  imports Main "HOL-Library.Word"
begin

text \<open>
  Shared vocabulary of the development: bytes, C strings and the functions of the C
  library the client calls on them, together with the generic facts the component theories
  rest on.

  A byte is an \<^typ>\<open>8 word\<close>. A C string is a HOL \<^typ>\<open>string\<close> (a list of
  8-bit \<^typ>\<open>char\<close>s) without the terminator; \<open>cstr\<close> is the string a C function
  sees when it is handed a byte buffer, i.e. everything before the first NUL byte.
\<close>

unbundle bit_operations_syntax

section \<open>Collections of facts\<close>

named_theorems wire_simps \<open>lengths and shapes of encoded wire data\<close>
named_theorems frame_simps \<open>fields an operation leaves unchanged\<close>

section \<open>Bytes and characters\<close>

type_synonym byte = "8 word"
type_synonym bytes = "byte list"

definition byteOfChar :: "char \<Rightarrow> byte" where
  "byteOfChar c = word_of_nat (of_char c)"

definition charOfByte :: "byte \<Rightarrow> char" where
  "charOfByte b = char_of (unat b)"

lemma charOfByte_inverse [simp]: "charOfByte (byteOfChar c) = c"
proof -
  have "of_char c < (256 :: nat)" by simp
  then have "unat (word_of_nat (of_char c) :: byte) = of_char c"
    by (simp add: unat_of_nat)
  then show ?thesis by (simp add: charOfByte_def byteOfChar_def)
qed

lemma byteOfChar_inverse [simp]: "byteOfChar (charOfByte b) = b"
proof -
  have "unat b < 256" using unsigned_less [of b] by simp
  then show ?thesis by (simp add: charOfByte_def byteOfChar_def)
qed

lemma byteOfChar_eq_iff [simp]: "byteOfChar c = byteOfChar d \<longleftrightarrow> c = d"
  by (metis charOfByte_inverse)

lemma charOfByte_comp [simp]: "charOfByte \<circ> byteOfChar = id"
  by (simp add: fun_eq_iff)

definition NUL :: char where "NUL = CHR 0x00"

text \<open>The bytes of a string, and the C string at the start of a byte buffer.\<close>

definition strBytes :: "string \<Rightarrow> bytes" where
  "strBytes s = map byteOfChar s"

definition cstr :: "bytes \<Rightarrow> string" where
  "cstr bs = takeWhile (\<lambda>c. c \<noteq> NUL) (map charOfByte bs)"

definition isCStr :: "string \<Rightarrow> bool" where
  "isCStr s \<longleftrightarrow> list_all (\<lambda>c. c \<noteq> NUL) s"

lemma length_strBytes [simp, wire_simps]: "length (strBytes s) = length s"
  by (simp add: strBytes_def)

lemma strBytes_simps [simp]:
  "strBytes [] = []"
  "strBytes (c # s) = byteOfChar c # strBytes s"
  "strBytes (s @ t) = strBytes s @ strBytes t"
  by (simp_all add: strBytes_def)

lemma cstr_strBytes: "isCStr s \<Longrightarrow> cstr (strBytes s) = s"
  by (induction s) (auto simp: cstr_def strBytes_def isCStr_def)

lemma isCStr_cstr [simp, intro]: "isCStr (cstr bs)"
  by (simp add: isCStr_def cstr_def list_all_iff) (metis set_takeWhileD)

lemma isCStr_simps [simp]:
  "isCStr []"
  "isCStr (c # s) \<longleftrightarrow> c \<noteq> NUL \<and> isCStr s"
  "isCStr (s @ t) \<longleftrightarrow> isCStr s \<and> isCStr t"
  by (simp_all add: isCStr_def)

section \<open>The C library's string functions\<close>

text \<open>\<open>tolower\<close> in the C locale, and \<open>strcasecmp\<close>/\<open>strncasecmp\<close> as equality tests.\<close>

definition toLower :: "char \<Rightarrow> char" where
  "toLower c = (if 65 \<le> (of_char c :: nat) \<and> of_char c \<le> (90 :: nat)
                then char_of (of_char c + 32 :: nat) else c)"

definition strcaseeq :: "string \<Rightarrow> string \<Rightarrow> bool" where
  "strcaseeq a b \<longleftrightarrow> map toLower a = map toLower b"

lemma strcaseeq_refl [simp]: "strcaseeq a a"
  by (simp add: strcaseeq_def)

lemma strcaseeq_sym: "strcaseeq a b \<Longrightarrow> strcaseeq b a"
  by (simp add: strcaseeq_def)

lemma strcaseeq_trans: "strcaseeq a b \<Longrightarrow> strcaseeq b c \<Longrightarrow> strcaseeq a c"
  by (simp add: strcaseeq_def)

text \<open>\<open>strstr\<close>: the suffix of the haystack that starts with the first occurrence.\<close>

fun isPrefixOf :: "'a list \<Rightarrow> 'a list \<Rightarrow> bool" where
  "isPrefixOf [] ys = True"
| "isPrefixOf (x # xs) [] = False"
| "isPrefixOf (x # xs) (y # ys) = (x = y \<and> isPrefixOf xs ys)"

fun strstr :: "string \<Rightarrow> string \<Rightarrow> string option" where
  "strstr [] pat = (if pat = [] then Some [] else None)"
| "strstr (c # s) pat = (if isPrefixOf pat (c # s) then Some (c # s) else strstr s pat)"

lemma isPrefixOf_iff: "isPrefixOf xs ys \<longleftrightarrow> (\<exists>zs. ys = xs @ zs)"
  by (induction xs ys rule: isPrefixOf.induct) auto

lemma isPrefixOf_append [simp]: "isPrefixOf xs (xs @ ys)"
  by (auto simp: isPrefixOf_iff)

lemma strstr_Some: "strstr s pat = Some r \<Longrightarrow> \<exists>pre. s = pre @ r \<and> isPrefixOf pat r"
  by (induction s pat rule: strstr.induct) (auto split: if_splits intro: exI [of _ "_ # _"])

text \<open>\<open>strchr\<close>: the prefix before the first occurrence and the rest that starts with it.\<close>

definition strchr :: "string \<Rightarrow> char \<Rightarrow> (string \<times> string) option" where
  "strchr s c = (if c \<in> set s then Some (takeWhile (\<lambda>x. x \<noteq> c) s, dropWhile (\<lambda>x. x \<noteq> c) s)
                 else None)"

lemma strchr_Some:
  assumes "strchr s c = Some (a, b)"
  shows "s = a @ b \<and> b \<noteq> [] \<and> hd b = c \<and> c \<notin> set a"
proof -
  from assms have c: "c \<in> set s" and ab: "a = takeWhile (\<lambda>x. x \<noteq> c) s" "b = dropWhile (\<lambda>x. x \<noteq> c) s"
    by (auto simp: strchr_def split: if_splits)
  then have "b \<noteq> []" by auto
  moreover have "s = a @ b" by (simp add: ab)
  moreover have "hd b = c" using \<open>b \<noteq> []\<close> hd_dropWhile [of "\<lambda>x. x \<noteq> c" s] by (simp add: ab)
  moreover have "c \<notin> set a" by (auto simp: ab dest: set_takeWhileD)
  ultimately show ?thesis by simp
qed

lemma strchr_append: "c \<notin> set a \<Longrightarrow> strchr (a @ c # b) c = Some (a, c # b)"
proof -
  assume "c \<notin> set a"
  then have "takeWhile (\<lambda>x. x \<noteq> c) (a @ c # b) = a" and "dropWhile (\<lambda>x. x \<noteq> c) (a @ c # b) = c # b"
    by (induction a) auto
  then show ?thesis by (simp add: strchr_def)
qed

lemma strchr_None: "strchr s c = None \<longleftrightarrow> c \<notin> set s"
  by (simp add: strchr_def)

text \<open>
  The idiom \<open>strncpy(dst, src, sizeof(dst) - 1); dst[sizeof(dst) - 1] = 0\<close> on a field of
  \<open>n\<close> bytes keeps the first \<open>n - 1\<close> characters.
\<close>

definition strncpyField :: "nat \<Rightarrow> string \<Rightarrow> string" where
  "strncpyField n s = take (n - 1) s"

lemma strncpyField_id: "length s < n \<Longrightarrow> strncpyField n s = s"
  by (simp add: strncpyField_def)

lemma length_strncpyField: "0 < n \<Longrightarrow> length (strncpyField n s) < n"
  by (simp add: strncpyField_def)

text \<open>\<open>isspace\<close>, \<open>isdigit\<close> and \<open>isalnum\<close> of the C locale.\<close>

definition isSpace :: "char \<Rightarrow> bool" where
  "isSpace c \<longleftrightarrow> c = CHR '' '' \<or> (9 \<le> (of_char c :: nat) \<and> of_char c \<le> (13 :: nat))"

definition isDigit :: "char \<Rightarrow> bool" where
  "isDigit c \<longleftrightarrow> 48 \<le> (of_char c :: nat) \<and> of_char c \<le> (57 :: nat)"

definition isAlnum :: "char \<Rightarrow> bool" where
  "isAlnum c \<longleftrightarrow> isDigit c \<or> (65 \<le> (of_char c :: nat) \<and> of_char c \<le> (90 :: nat))
                 \<or> (97 \<le> (of_char c :: nat) \<and> of_char c \<le> (122 :: nat))"

section \<open>Numbers in text\<close>

text \<open>
  \<open>strtol\<close>/\<open>strtoll\<close> on 64-bit values: leading white space, an optional sign, an optional
  \<open>0x\<close> in base 16, then as many digits as there are; no digit gives 0. Out-of-range values
  saturate at \<open>LONG_MAX\<close>/\<open>LONG_MIN\<close>. The result is the value and the unread suffix
  (\<open>*endptr\<close>); when there is no digit the whole input is unread.
\<close>

definition digitValue :: "char \<Rightarrow> nat option" where
  "digitValue c =
     (let n = of_char (toLower c) :: nat in
      if 48 \<le> n \<and> n \<le> 57 then Some (n - 48)
      else if 97 \<le> n \<and> n \<le> 122 then Some (n - 87) else None)"

fun scanDigits :: "nat \<Rightarrow> nat \<Rightarrow> string \<Rightarrow> nat \<times> string" where
  "scanDigits base acc [] = (acc, [])"
| "scanDigits base acc (c # s) =
     (case digitValue c of
        Some d \<Rightarrow> if d < base then scanDigits base (acc * base + d) s else (acc, c # s)
      | None \<Rightarrow> (acc, c # s))"

definition isBaseDigit :: "nat \<Rightarrow> char \<Rightarrow> bool" where
  "isBaseDigit base c = (case digitValue c of Some d \<Rightarrow> d < base | None \<Rightarrow> False)"

definition saturate64 :: "bool \<Rightarrow> nat \<Rightarrow> int" where
  "saturate64 neg n = (if neg then max (- int n) (- (2 ^ 63)) else min (int n) (2 ^ 63 - 1))"

definition skipHexPrefix :: "nat \<Rightarrow> string \<Rightarrow> string" where
  "skipHexPrefix base s =
     (case s of
        z # x # d # r \<Rightarrow>
          if base = 16 \<and> z = CHR ''0'' \<and> toLower x = CHR ''x'' \<and> isBaseDigit 16 d then d # r else s
      | _ \<Rightarrow> s)"

definition strtol :: "nat \<Rightarrow> string \<Rightarrow> int \<times> string" where
  "strtol base s =
     (let t = dropWhile isSpace s;
          neg = (case t of c # _ \<Rightarrow> c = CHR ''-'' | [] \<Rightarrow> False);
          u = (case t of c # r \<Rightarrow> if c = CHR ''-'' \<or> c = CHR ''+'' then r else t | [] \<Rightarrow> t);
          v = skipHexPrefix base u
      in case v of
           c # _ \<Rightarrow> if isBaseDigit base c
                     then (let (n, r) = scanDigits base 0 v in (saturate64 neg n, r))
                     else (0, s)
         | [] \<Rightarrow> (0, s))"

text \<open>\<open>printf("%d")\<close> of a number: its decimal digits.\<close>

fun natToDec :: "nat \<Rightarrow> string" where
  "natToDec n = (if n < 10 then [char_of (48 + n)] else natToDec (n div 10) @ [char_of (48 + n mod 10)])"

declare natToDec.simps [simp del]

definition intToDec :: "int \<Rightarrow> string" where
  "intToDec i = (if i < 0 then CHR ''-'' # natToDec (nat (- i)) else natToDec (nat i))"

lemma digitValue_dec: "d < 10 \<Longrightarrow> digitValue (char_of (48 + d :: nat)) = Some d"
  by (simp add: digitValue_def toLower_def Let_def)

lemma scanDigits_append:
  "scanDigits base acc (s @ [c]) =
     (case scanDigits base acc s of
        (n, []) \<Rightarrow> scanDigits base n [c]
      | (n, r) \<Rightarrow> (n, r @ [c]))"
  by (induction base acc s rule: scanDigits.induct) (auto split: option.splits)

lemma scanDigits_natToDec: "scanDigits 10 0 (natToDec n) = (n, [])"
proof (induction n rule: natToDec.induct)
  case (1 n)
  show ?case
  proof (cases "n < 10")
    case True
    then show ?thesis by (subst natToDec.simps) (simp add: digitValue_dec)
  next
    case False
    then show ?thesis using 1 by (subst natToDec.simps) (simp add: scanDigits_append digitValue_dec)
  qed
qed

lemma natToDec_nonempty [simp]: "natToDec n \<noteq> []"
  by (subst natToDec.simps) simp

lemma natToDec_hd: "\<exists>d<10. hd (natToDec n) = char_of (48 + d :: nat)"
proof (induction n rule: natToDec.induct)
  case (1 n)
  show ?case
  proof (cases "n < 10")
    case True
    then show ?thesis by (subst natToDec.simps) auto
  next
    case False
    then show ?thesis using 1 by (subst natToDec.simps) simp
  qed
qed

lemma decDigit_facts:
  assumes "d < 10"
  shows "\<not> isSpace (char_of (48 + d :: nat))" "char_of (48 + d :: nat) \<noteq> CHR ''-''"
    "char_of (48 + d :: nat) \<noteq> CHR ''+''"
proof -
  have "d \<in> {0,1,2,3,4,5,6,7,8,9}" using assms by auto
  then show "\<not> isSpace (char_of (48 + d :: nat))" "char_of (48 + d :: nat) \<noteq> CHR ''-''"
    "char_of (48 + d :: nat) \<noteq> CHR ''+''"
    by (auto simp: isSpace_def char_of_def)
qed

lemma skipHexPrefix_10 [simp]: "skipHexPrefix 10 s = s"
  by (auto simp: skipHexPrefix_def split: list.splits)

text \<open>\<open>strtol\<close> reads back what \<open>printf\<close> wrote, for every value that fits a \<open>long\<close>.\<close>

lemma strtol_natToDec:
  assumes "n < 2 ^ 63"
  shows "strtol 10 (natToDec n) = (int n, [])"
proof -
  obtain d r where d: "d < 10" and s: "natToDec n = char_of (48 + d :: nat) # r"
    using natToDec_hd [of n] natToDec_nonempty [of n] by (metis list.collapse)
  have "scanDigits 10 0 (char_of (48 + d :: nat) # r) = (n, [])"
    using scanDigits_natToDec [of n] by (simp only: s)
  moreover have "saturate64 False n = int n"
    using assms by (simp add: saturate64_def)
  ultimately show ?thesis
    by (simp add: s strtol_def decDigit_facts [OF d] digitValue_dec [OF d] isBaseDigit_def Let_def
        d del: scanDigits.simps)
qed

section \<open>Words\<close>

lemma bit_unat_bound: "unat (w :: 'a::len word) < 2 ^ k \<Longrightarrow> bit w i \<Longrightarrow> i < k"
proof -
  assume "unat w < 2 ^ k" and b: "bit w i"
  then have "take_bit k (unat w) = unat w" by (simp add: take_bit_nat_eq_self)
  moreover have "bit (unat w) i" using b by (simp add: bit_unsigned_iff bit_imp_possible_bit)
  ultimately show "i < k" by (metis bit_take_bit_iff)
qed

section \<open>Lists\<close>

lemma takeWhile_replicate_append:
  "\<not> P x \<Longrightarrow> list_all P ys \<Longrightarrow> takeWhile P (ys @ x # zs) = ys"
  by (induction ys) auto

text \<open>The index of the first element with a property, as the C loops search arrays.\<close>

fun findIndex :: "('a \<Rightarrow> bool) \<Rightarrow> 'a list \<Rightarrow> nat option" where
  "findIndex P [] = None"
| "findIndex P (x # xs) = (if P x then Some 0 else map_option Suc (findIndex P xs))"

lemma findIndex_SomeD: "findIndex P xs = Some i \<Longrightarrow> i < length xs \<and> P (xs ! i) \<and> (\<forall>j<i. \<not> P (xs ! j))"
proof (induction xs arbitrary: i)
  case Nil
  then show ?case by simp
next
  case (Cons x xs)
  show ?case
  proof (cases "P x")
    case True
    with Cons.prems show ?thesis by auto
  next
    case False
    with Cons.prems obtain k where k: "findIndex P xs = Some k" "i = Suc k" by auto
    with Cons.IH [OF k(1)] False show ?thesis
      by (auto simp: nth_Cons split: nat.splits)
  qed
qed

lemma findIndex_None: "findIndex P xs = None \<longleftrightarrow> (\<forall>x\<in>set xs. \<not> P x)"
  by (induction xs) auto

lemma findIndex_exists: "x \<in> set xs \<Longrightarrow> P x \<Longrightarrow> \<exists>i. findIndex P xs = Some i"
  by (cases "findIndex P xs") (auto simp: findIndex_None)

lemma findIndex_iff: "findIndex P xs = Some i \<longleftrightarrow> i < length xs \<and> P (xs ! i) \<and> (\<forall>j<i. \<not> P (xs ! j))"
proof
  assume a: "i < length xs \<and> P (xs ! i) \<and> (\<forall>j<i. \<not> P (xs ! j))"
  then obtain k where k: "findIndex P xs = Some k" using findIndex_exists [of "xs ! i" xs P] by auto
  then have "k < length xs \<and> P (xs ! k) \<and> (\<forall>j<k. \<not> P (xs ! j))" by (rule findIndex_SomeD)
  then show "findIndex P xs = Some i" using a k by (metis linorder_neqE_nat)
qed (rule findIndex_SomeD)

end
