(* ===== verification/Errors.thy ===== *)
theory Errors
  imports Prelude
begin

text \<open>
  The error values of \<open>src/utils/Error.c\<close>: a code and a message, both null in
  \<open>ERR_NONE\<close>. The client tests \<open>error.code != NULL\<close>, which is \<open>failed\<close>. The messages of the
  model are those of the source.
\<close>

type_synonym error = "string option \<times> string option"

definition failed :: "error \<Rightarrow> bool" where
  "failed e \<longleftrightarrow> fst e \<noteq> None"

definition ERR_NONE :: error where "ERR_NONE = (None, None)"

definition ERR_SYSTEM_MEMORY_ALLOCATION_FAILED :: error where
  "ERR_SYSTEM_MEMORY_ALLOCATION_FAILED = (Some ''0-0000'', Some ''System memory allocation failed.'')"

definition ERR_SYSTEM_SHARED_MEMORY_NOT_EXIT :: error where
  "ERR_SYSTEM_SHARED_MEMORY_NOT_EXIT = (Some ''0-0001'', Some ''Shared memory may not exist (Daemon).'')"

definition ERR_SYSTEM_SHARED_MEMORY_MMAP_FAILED :: error where
  "ERR_SYSTEM_SHARED_MEMORY_MMAP_FAILED = (Some ''0-0002'', Some ''Shared memory mmap failed.'')"

definition ERR_SESSION_SSL_CONNECT_FAILED :: error where
  "ERR_SESSION_SSL_CONNECT_FAILED = (Some ''1-0001'', Some ''SSL_connect failed.'')"

definition ERR_SESSION_SSL_ALPN_NEGOTIATION_FAILED :: error where
  "ERR_SESSION_SSL_ALPN_NEGOTIATION_FAILED = (Some ''1-0002'', Some ''SSL ALPN negotiation failed.'')"

definition ERR_SESSION_MAGIC_INCORRECT :: error where
  "ERR_SESSION_MAGIC_INCORRECT = (Some ''1-0003'', Some ''Session magic incorrect.'')"

definition ERR_SESSION_INACTIVE :: error where
  "ERR_SESSION_INACTIVE = (Some ''1-0004'', Some ''Session is inactive.'')"

definition ERR_SESSION_HOST_RESOLVE_FAILED :: error where
  "ERR_SESSION_HOST_RESOLVE_FAILED = (Some ''1-0005'', Some ''Session host resolve failed.'')"

definition ERR_SESSION_SOCKET_CREATION_FAILED :: error where
  "ERR_SESSION_SOCKET_CREATION_FAILED = (Some ''1-0006'', Some ''Session socket creation failed.'')"

definition ERR_SESSION_SOCKET_NONBLOCK_SETTING_FAILED :: error where
  "ERR_SESSION_SOCKET_NONBLOCK_SETTING_FAILED = (Some ''1-0007'', Some ''Failed to set session socket non-block.'')"

definition ERR_SESSION_SOCKET_CONNECTING_FAILED :: error where
  "ERR_SESSION_SOCKET_CONNECTING_FAILED = (Some ''1-0008'', Some ''Session socket connecting failed.'')"

definition ERR_SESSION_SOCKET_INVALID_FILE_DESCRIPTOR :: error where
  "ERR_SESSION_SOCKET_INVALID_FILE_DESCRIPTOR = (Some ''1-0009'', Some ''Session socket invalid file descriptor.'')"

definition ERR_SESSION_SOCKET_CONNECTING_TIMEOUT :: error where
  "ERR_SESSION_SOCKET_CONNECTING_TIMEOUT = (Some ''1-0010'', Some ''Session socket connecting timeout.'')"

definition ERR_SESSION_SOCKET_NO_AVAILABLE_ADDRESS :: error where
  "ERR_SESSION_SOCKET_NO_AVAILABLE_ADDRESS = (Some ''1-0011'', Some ''Session socket no available address.'')"

definition ERR_SESSION_SOCKET_CONNECTING_UNKNOWN_ERROR :: error where
  "ERR_SESSION_SOCKET_CONNECTING_UNKNOWN_ERROR = (Some ''1-0012'', Some ''Session socket connecting unknown error.'')"

definition ERR_SESSION_SSL_CTX_CREATION_FAILED :: error where
  "ERR_SESSION_SSL_CTX_CREATION_FAILED = (Some ''1-0013'', Some ''Ssl context creation failed.'')"

definition ERR_SESSION_SSL_OBJECT_CREATION_FAILED :: error where
  "ERR_SESSION_SSL_OBJECT_CREATION_FAILED = (Some ''1-0014'', Some ''Ssl object creation failed.'')"

definition ERR_SESSION_SSL_FAILED_TO_ASSOCIATE_SOCKET :: error where
  "ERR_SESSION_SSL_FAILED_TO_ASSOCIATE_SOCKET = (Some ''1-0015'', Some ''Ssl failed to associate with a socket.'')"

definition ERR_SESSION_FAILED_TO_CONNECT_TO_SHARED_MEMORY_POOL :: error where
  "ERR_SESSION_FAILED_TO_CONNECT_TO_SHARED_MEMORY_POOL = (Some ''1-0016'', Some ''Failed to connect to shared session memory pool.'')"

definition ERR_SESSION_SOCKET_CONNECTING_REFUSED :: error where
  "ERR_SESSION_SOCKET_CONNECTING_REFUSED = (Some ''1-0017'', Some ''Session socket connection refused.'')"

definition ERR_SESSION_SETTINGS_TIMEOUT :: error where
  "ERR_SESSION_SETTINGS_TIMEOUT = (Some ''1-0018'', Some ''Session settings timeout.'')"

definition ERR_SESSION_GO_AWAY :: error where
  "ERR_SESSION_GO_AWAY = (Some ''1-0019'', Some ''Session goes away without error.'')"

definition ERR_SESSION_SSL_ALPN_HTTP2_NOT_SELECTED :: error where
  "ERR_SESSION_SSL_ALPN_HTTP2_NOT_SELECTED = (Some ''1-0020'', Some ''ALPN negotiation did not select h2; server likely only supports http/1.1.'')"

definition ERR_SESSION_HTTP_1_1_REQUIRED :: error where
  "ERR_SESSION_HTTP_1_1_REQUIRED = (Some ''1-0021'', Some ''Server requires HTTP/1.1 (HTTP_1_1_REQUIRED); downgrade and retry.'')"

definition ERR_REQUEST_PARSING_STRING_TO_JSON_FAILED :: error where
  "ERR_REQUEST_PARSING_STRING_TO_JSON_FAILED = (Some ''2-0001'', Some ''Parsing request string to json failed.'')"

definition ERR_REQUEST_MISSING_HEADERS :: error where
  "ERR_REQUEST_MISSING_HEADERS = (Some ''2-0002'', Some ''Missing request headers.'')"

definition ERR_REQUEST_PARSING_URL_FAILED :: error where
  "ERR_REQUEST_PARSING_URL_FAILED = (Some ''2-0003'', Some ''Parsing request URL failed.'')"

definition ERR_REQUEST_PARSING_METHOD_FAILED :: error where
  "ERR_REQUEST_PARSING_METHOD_FAILED = (Some ''2-0004'', Some ''Parsing request method failed.'')"

definition ERR_REQUEST_PARSING_USERAGENT_FAILED :: error where
  "ERR_REQUEST_PARSING_USERAGENT_FAILED = (Some ''2-0005'', Some ''Parsing request header user-agent failed.'')"

definition ERR_REQUEST_PARSING_CONTENTLENGTH_FAILED :: error where
  "ERR_REQUEST_PARSING_CONTENTLENGTH_FAILED = (Some ''2-0006'', Some ''Parsing request header content-length failed.'')"

definition ERR_REQUEST_INCORRECT_CONTENTLENGTH_TYPE :: error where
  "ERR_REQUEST_INCORRECT_CONTENTLENGTH_TYPE = (Some ''2-0007'', Some ''The value type of request header content-length must be string.'')"

definition ERR_REQUEST_INCORRECT_CONTENTLENGTH_MISMATCH :: error where
  "ERR_REQUEST_INCORRECT_CONTENTLENGTH_MISMATCH = (Some ''2-0017'', Some ''The value of request header content-length does not match the actual payload byte length.'')"

definition ERR_REQUEST_UNSUPPORTED_METHOD :: error where
  "ERR_REQUEST_UNSUPPORTED_METHOD = (Some ''2-0008'', Some ''Unsupported method, GET, POST, PUT, PATCH and DELETE supported only.'')"

definition ERR_REQUEST_UNSUPPORTED_USERAGENT :: error where
  "ERR_REQUEST_UNSUPPORTED_USERAGENT = (Some ''2-0009'', Some ''Unsupported user-agent, Google Chrome supported only.'')"

definition ERR_REQUEST_SENDING_HTTP2_HEADERS_FRAME_FAILED :: error where
  "ERR_REQUEST_SENDING_HTTP2_HEADERS_FRAME_FAILED = (Some ''2-0010'', Some ''Sending http/2 headers frame failed.'')"

definition ERR_REQUEST_SENDING_HTTP2_DATA_FRAME_FAILED :: error where
  "ERR_REQUEST_SENDING_HTTP2_DATA_FRAME_FAILED = (Some ''2-0011'', Some ''Sending http/2 data frame failed.'')"

definition ERR_REQUEST_SENDING_HTTP2_PREFACE_FRAME_FAILED :: error where
  "ERR_REQUEST_SENDING_HTTP2_PREFACE_FRAME_FAILED = (Some ''2-0012'', Some ''Sending http/2 preface frame failed.'')"

definition ERR_REQUEST_SENDING_HTTP2_SETTINGS_FRAME_FAILED :: error where
  "ERR_REQUEST_SENDING_HTTP2_SETTINGS_FRAME_FAILED = (Some ''2-0013'', Some ''Sending http/2 settings frame failed.'')"

definition ERR_REQUEST_SENDING_HTTP2_WINDOW_UPDATE_FRAME_FAILED :: error where
  "ERR_REQUEST_SENDING_HTTP2_WINDOW_UPDATE_FRAME_FAILED = (Some ''2-0014'', Some ''Sending http/2 window update frame failed.'')"

definition ERR_REQUEST_UNKNOWN_PSEUDO_HEADER :: error where
  "ERR_REQUEST_UNKNOWN_PSEUDO_HEADER = (Some ''2-0015'', Some ''Unknown pseudo header name.'')"

definition ERR_REQUEST_UNSUPPORTED_CLIENTHELLOID :: error where
  "ERR_REQUEST_UNSUPPORTED_CLIENTHELLOID = (Some ''2-0016'', Some ''Unsupported clientHelloId, e.g. hellochrome_auto / hellochrome_150 / hellocrios_auto.'')"

definition ERR_REQUEST_HEADER_ORDER_KEY_MISSING_HEADER :: error where
  "ERR_REQUEST_HEADER_ORDER_KEY_MISSING_HEADER = (Some ''2-0017'', Some ''A request header is not listed in the X-HeaderOrderKey ordered list.'')"

definition ERR_REQUEST_UNSUPPORTED_PROTOCOL :: error where
  "ERR_REQUEST_UNSUPPORTED_PROTOCOL = (Some ''2-0018'', Some ''Unsupported session protocol, h2 (default) and http/1.1 supported only.'')"

definition ERR_REQUEST_SENDING_HTTP11_REQUEST_FAILED :: error where
  "ERR_REQUEST_SENDING_HTTP11_REQUEST_FAILED = (Some ''2-0019'', Some ''Sending http/1.1 request failed.'')"

definition ERR_RESPONSE_READING_CONNECTION_ERROR :: error where
  "ERR_RESPONSE_READING_CONNECTION_ERROR = (Some ''3-0001'', Some ''Response reading connection error.'')"

definition ERR_RESPONSE_READING_UNKNOWN_ERROR :: error where
  "ERR_RESPONSE_READING_UNKNOWN_ERROR = (Some ''3-0002'', Some ''Response reading unknown error.'')"

definition ERR_RESPONSE_NO_CONTENT_AFTER_READING_TIMEOUT :: error where
  "ERR_RESPONSE_NO_CONTENT_AFTER_READING_TIMEOUT = (Some ''3-0003'', Some ''Response reading timeout, no content received.'')"

definition ERR_RESPONSE_PARTIAL_CONTENT_AFTER_READING_TIMEOUT :: error where
  "ERR_RESPONSE_PARTIAL_CONTENT_AFTER_READING_TIMEOUT = (Some ''3-0004'', Some ''Response reading timeout, partial content received.'')"

definition ERR_RESPONSE_DECODING_HEADERS_FRAME_FAILED :: error where
  "ERR_RESPONSE_DECODING_HEADERS_FRAME_FAILED = (Some ''3-0005'', Some ''Decoding response HEADERS frame failed.'')"

definition ERR_RESPONSE_DECODING_GOAWAY_FRAME_FAILED :: error where
  "ERR_RESPONSE_DECODING_GOAWAY_FRAME_FAILED = (Some ''3-0006'', Some ''Decoding response GOAWAY frame failed.'')"

definition ERR_RESPONSE_GZIP_INFLATE_FAILED :: error where
  "ERR_RESPONSE_GZIP_INFLATE_FAILED = (Some ''3-0007'', Some ''Response (gzip) Inflate failed.'')"

definition ERR_RESPONSE_BROTLI_INFLATE_FAILED :: error where
  "ERR_RESPONSE_BROTLI_INFLATE_FAILED = (Some ''3-0008'', Some ''Response (brotli) Inflate failed.'')"

definition ERR_RESPONSE_DEFLATE_INFLATE_FAILED :: error where
  "ERR_RESPONSE_DEFLATE_INFLATE_FAILED = (Some ''3-0009'', Some ''Response (deflate) Inflate failed.'')"

definition ERR_RESPONSE_ZSTD_INFLATE_FAILED :: error where
  "ERR_RESPONSE_ZSTD_INFLATE_FAILED = (Some ''3-0010'', Some ''Response (zstd) Inflate failed.'')"

definition ERR_RESPONSE_INFLATE_UNKNOWN_ERROR :: error where
  "ERR_RESPONSE_INFLATE_UNKNOWN_ERROR = (Some ''3-0011'', Some ''Response inflate unknown error.'')"

definition ERR_RESPONSE_RST_STREAM_ERROR :: error where
  "ERR_RESPONSE_RST_STREAM_ERROR = (Some ''3-0012'', Some ''Response RST_STREAM unknown error.'')"

definition ERR_RESPONSE_READING_HTTP11_FAILED :: error where
  "ERR_RESPONSE_READING_HTTP11_FAILED = (Some ''3-0013'', Some ''Reading/parsing http/1.1 response failed.'')"

definition ERR_RESPONSE_STREAM_ABORTED_BY_CONSUMER :: error where
  "ERR_RESPONSE_STREAM_ABORTED_BY_CONSUMER = (Some ''3-0014'', Some ''Response streaming aborted by the consumer.'')"

definition ERR_RESPONSE_STREAM_INCOMPLETE_CONTRACT :: error where
  "ERR_RESPONSE_STREAM_INCOMPLETE_CONTRACT = (Some ''3-0015'', Some ''Response streaming contract requires onHeaders, onData and onComplete.'')"

definition ERR_PROXY_HOST_RESOLVE_FAILED :: error where
  "ERR_PROXY_HOST_RESOLVE_FAILED = (Some ''4-0001'', Some ''Proxy host resolve failed.'')"

definition ERR_PROXY_SOCKET_CREATION_FAILED :: error where
  "ERR_PROXY_SOCKET_CREATION_FAILED = (Some ''4-0002'', Some ''Proxy socket creation failed.'')"

definition ERR_PROXY_SOCKET_NONBLOCK_SETTING_FAILED :: error where
  "ERR_PROXY_SOCKET_NONBLOCK_SETTING_FAILED = (Some ''4-0003'', Some ''Failed to set proxy socket non-block.'')"

definition ERR_PROXY_SOCKET_CONNECTING_FAILED :: error where
  "ERR_PROXY_SOCKET_CONNECTING_FAILED = (Some ''4-0004'', Some ''Proxy socket connecting failed.'')"

definition ERR_PROXY_SOCKET_INVALID_FILE_DESCRIPTOR :: error where
  "ERR_PROXY_SOCKET_INVALID_FILE_DESCRIPTOR = (Some ''4-0005'', Some ''Proxy socket invalid file descriptor.'')"

definition ERR_PROXY_SOCKET_CONNECTING_TIMEOUT :: error where
  "ERR_PROXY_SOCKET_CONNECTING_TIMEOUT = (Some ''4-0006'', Some ''Proxy socket connecting timeout.'')"

definition ERR_PROXY_SOCKET_CONNECTING_UNKNOWN_ERROR :: error where
  "ERR_PROXY_SOCKET_CONNECTING_UNKNOWN_ERROR = (Some ''4-0007'', Some ''Proxy socket connecting unknown error.'')"

definition ERR_PROXY_SEND_CONNECT_REQUEST_FAILED :: error where
  "ERR_PROXY_SEND_CONNECT_REQUEST_FAILED = (Some ''4-0008'', Some ''Proxy send connect request failed.'')"

definition ERR_PROXY_AUTHORIZATION_FAILED :: error where
  "ERR_PROXY_AUTHORIZATION_FAILED = (Some ''4-0009'', Some ''Proxy authorization failed (407).'')"

definition ERR_PROXY_UNEXPECTED_RESPONSE :: error where
  "ERR_PROXY_UNEXPECTED_RESPONSE = (Some ''4-0010'', Some ''Proxy unexpected CONNECT response.'')"

definition ERR_PROXY_SOCKET_CONNECTING_REFUSED :: error where
  "ERR_PROXY_SOCKET_CONNECTING_REFUSED = (Some ''4-0011'', Some ''Proxy socket connection refused.'')"

definition ERR_PROXY_EMPTY_RESPONSE :: error where
  "ERR_PROXY_EMPTY_RESPONSE = (Some ''4-0012'', Some ''Proxy response is empty.'')"

text \<open>Every named error other than \<open>ERR_NONE\<close> counts as a failure.\<close>

lemma failed_errors [simp]:
  "\<not> failed ERR_NONE"
  "failed ERR_SYSTEM_MEMORY_ALLOCATION_FAILED"
  "failed ERR_SYSTEM_SHARED_MEMORY_NOT_EXIT"
  "failed ERR_SYSTEM_SHARED_MEMORY_MMAP_FAILED"
  "failed ERR_SESSION_SSL_CONNECT_FAILED"
  "failed ERR_SESSION_SSL_ALPN_NEGOTIATION_FAILED"
  "failed ERR_SESSION_MAGIC_INCORRECT"
  "failed ERR_SESSION_INACTIVE"
  "failed ERR_SESSION_HOST_RESOLVE_FAILED"
  "failed ERR_SESSION_SOCKET_CREATION_FAILED"
  "failed ERR_SESSION_SOCKET_NONBLOCK_SETTING_FAILED"
  "failed ERR_SESSION_SOCKET_CONNECTING_FAILED"
  "failed ERR_SESSION_SOCKET_INVALID_FILE_DESCRIPTOR"
  "failed ERR_SESSION_SOCKET_CONNECTING_TIMEOUT"
  "failed ERR_SESSION_SOCKET_NO_AVAILABLE_ADDRESS"
  "failed ERR_SESSION_SOCKET_CONNECTING_UNKNOWN_ERROR"
  "failed ERR_SESSION_SSL_CTX_CREATION_FAILED"
  "failed ERR_SESSION_SSL_OBJECT_CREATION_FAILED"
  "failed ERR_SESSION_SSL_FAILED_TO_ASSOCIATE_SOCKET"
  "failed ERR_SESSION_FAILED_TO_CONNECT_TO_SHARED_MEMORY_POOL"
  "failed ERR_SESSION_SOCKET_CONNECTING_REFUSED"
  "failed ERR_SESSION_SETTINGS_TIMEOUT"
  "failed ERR_SESSION_GO_AWAY"
  "failed ERR_SESSION_SSL_ALPN_HTTP2_NOT_SELECTED"
  "failed ERR_SESSION_HTTP_1_1_REQUIRED"
  "failed ERR_REQUEST_PARSING_STRING_TO_JSON_FAILED"
  "failed ERR_REQUEST_MISSING_HEADERS"
  "failed ERR_REQUEST_PARSING_URL_FAILED"
  "failed ERR_REQUEST_PARSING_METHOD_FAILED"
  "failed ERR_REQUEST_PARSING_USERAGENT_FAILED"
  "failed ERR_REQUEST_PARSING_CONTENTLENGTH_FAILED"
  "failed ERR_REQUEST_INCORRECT_CONTENTLENGTH_TYPE"
  "failed ERR_REQUEST_INCORRECT_CONTENTLENGTH_MISMATCH"
  "failed ERR_REQUEST_UNSUPPORTED_METHOD"
  "failed ERR_REQUEST_UNSUPPORTED_USERAGENT"
  "failed ERR_REQUEST_SENDING_HTTP2_HEADERS_FRAME_FAILED"
  "failed ERR_REQUEST_SENDING_HTTP2_DATA_FRAME_FAILED"
  "failed ERR_REQUEST_SENDING_HTTP2_PREFACE_FRAME_FAILED"
  "failed ERR_REQUEST_SENDING_HTTP2_SETTINGS_FRAME_FAILED"
  "failed ERR_REQUEST_SENDING_HTTP2_WINDOW_UPDATE_FRAME_FAILED"
  "failed ERR_REQUEST_UNKNOWN_PSEUDO_HEADER"
  "failed ERR_REQUEST_UNSUPPORTED_CLIENTHELLOID"
  "failed ERR_REQUEST_HEADER_ORDER_KEY_MISSING_HEADER"
  "failed ERR_REQUEST_UNSUPPORTED_PROTOCOL"
  "failed ERR_REQUEST_SENDING_HTTP11_REQUEST_FAILED"
  "failed ERR_RESPONSE_READING_CONNECTION_ERROR"
  "failed ERR_RESPONSE_READING_UNKNOWN_ERROR"
  "failed ERR_RESPONSE_NO_CONTENT_AFTER_READING_TIMEOUT"
  "failed ERR_RESPONSE_PARTIAL_CONTENT_AFTER_READING_TIMEOUT"
  "failed ERR_RESPONSE_DECODING_HEADERS_FRAME_FAILED"
  "failed ERR_RESPONSE_DECODING_GOAWAY_FRAME_FAILED"
  "failed ERR_RESPONSE_GZIP_INFLATE_FAILED"
  "failed ERR_RESPONSE_BROTLI_INFLATE_FAILED"
  "failed ERR_RESPONSE_DEFLATE_INFLATE_FAILED"
  "failed ERR_RESPONSE_ZSTD_INFLATE_FAILED"
  "failed ERR_RESPONSE_INFLATE_UNKNOWN_ERROR"
  "failed ERR_RESPONSE_RST_STREAM_ERROR"
  "failed ERR_RESPONSE_READING_HTTP11_FAILED"
  "failed ERR_RESPONSE_STREAM_ABORTED_BY_CONSUMER"
  "failed ERR_RESPONSE_STREAM_INCOMPLETE_CONTRACT"
  "failed ERR_PROXY_HOST_RESOLVE_FAILED"
  "failed ERR_PROXY_SOCKET_CREATION_FAILED"
  "failed ERR_PROXY_SOCKET_NONBLOCK_SETTING_FAILED"
  "failed ERR_PROXY_SOCKET_CONNECTING_FAILED"
  "failed ERR_PROXY_SOCKET_INVALID_FILE_DESCRIPTOR"
  "failed ERR_PROXY_SOCKET_CONNECTING_TIMEOUT"
  "failed ERR_PROXY_SOCKET_CONNECTING_UNKNOWN_ERROR"
  "failed ERR_PROXY_SEND_CONNECT_REQUEST_FAILED"
  "failed ERR_PROXY_AUTHORIZATION_FAILED"
  "failed ERR_PROXY_UNEXPECTED_RESPONSE"
  "failed ERR_PROXY_SOCKET_CONNECTING_REFUSED"
  "failed ERR_PROXY_EMPTY_RESPONSE"
  by (simp_all add: failed_def
      ERR_NONE_def
      ERR_SYSTEM_MEMORY_ALLOCATION_FAILED_def
      ERR_SYSTEM_SHARED_MEMORY_NOT_EXIT_def
      ERR_SYSTEM_SHARED_MEMORY_MMAP_FAILED_def
      ERR_SESSION_SSL_CONNECT_FAILED_def
      ERR_SESSION_SSL_ALPN_NEGOTIATION_FAILED_def
      ERR_SESSION_MAGIC_INCORRECT_def
      ERR_SESSION_INACTIVE_def
      ERR_SESSION_HOST_RESOLVE_FAILED_def
      ERR_SESSION_SOCKET_CREATION_FAILED_def
      ERR_SESSION_SOCKET_NONBLOCK_SETTING_FAILED_def
      ERR_SESSION_SOCKET_CONNECTING_FAILED_def
      ERR_SESSION_SOCKET_INVALID_FILE_DESCRIPTOR_def
      ERR_SESSION_SOCKET_CONNECTING_TIMEOUT_def
      ERR_SESSION_SOCKET_NO_AVAILABLE_ADDRESS_def
      ERR_SESSION_SOCKET_CONNECTING_UNKNOWN_ERROR_def
      ERR_SESSION_SSL_CTX_CREATION_FAILED_def
      ERR_SESSION_SSL_OBJECT_CREATION_FAILED_def
      ERR_SESSION_SSL_FAILED_TO_ASSOCIATE_SOCKET_def
      ERR_SESSION_FAILED_TO_CONNECT_TO_SHARED_MEMORY_POOL_def
      ERR_SESSION_SOCKET_CONNECTING_REFUSED_def
      ERR_SESSION_SETTINGS_TIMEOUT_def
      ERR_SESSION_GO_AWAY_def
      ERR_SESSION_SSL_ALPN_HTTP2_NOT_SELECTED_def
      ERR_SESSION_HTTP_1_1_REQUIRED_def
      ERR_REQUEST_PARSING_STRING_TO_JSON_FAILED_def
      ERR_REQUEST_MISSING_HEADERS_def
      ERR_REQUEST_PARSING_URL_FAILED_def
      ERR_REQUEST_PARSING_METHOD_FAILED_def
      ERR_REQUEST_PARSING_USERAGENT_FAILED_def
      ERR_REQUEST_PARSING_CONTENTLENGTH_FAILED_def
      ERR_REQUEST_INCORRECT_CONTENTLENGTH_TYPE_def
      ERR_REQUEST_INCORRECT_CONTENTLENGTH_MISMATCH_def
      ERR_REQUEST_UNSUPPORTED_METHOD_def
      ERR_REQUEST_UNSUPPORTED_USERAGENT_def
      ERR_REQUEST_SENDING_HTTP2_HEADERS_FRAME_FAILED_def
      ERR_REQUEST_SENDING_HTTP2_DATA_FRAME_FAILED_def
      ERR_REQUEST_SENDING_HTTP2_PREFACE_FRAME_FAILED_def
      ERR_REQUEST_SENDING_HTTP2_SETTINGS_FRAME_FAILED_def
      ERR_REQUEST_SENDING_HTTP2_WINDOW_UPDATE_FRAME_FAILED_def
      ERR_REQUEST_UNKNOWN_PSEUDO_HEADER_def
      ERR_REQUEST_UNSUPPORTED_CLIENTHELLOID_def
      ERR_REQUEST_HEADER_ORDER_KEY_MISSING_HEADER_def
      ERR_REQUEST_UNSUPPORTED_PROTOCOL_def
      ERR_REQUEST_SENDING_HTTP11_REQUEST_FAILED_def
      ERR_RESPONSE_READING_CONNECTION_ERROR_def
      ERR_RESPONSE_READING_UNKNOWN_ERROR_def
      ERR_RESPONSE_NO_CONTENT_AFTER_READING_TIMEOUT_def
      ERR_RESPONSE_PARTIAL_CONTENT_AFTER_READING_TIMEOUT_def
      ERR_RESPONSE_DECODING_HEADERS_FRAME_FAILED_def
      ERR_RESPONSE_DECODING_GOAWAY_FRAME_FAILED_def
      ERR_RESPONSE_GZIP_INFLATE_FAILED_def
      ERR_RESPONSE_BROTLI_INFLATE_FAILED_def
      ERR_RESPONSE_DEFLATE_INFLATE_FAILED_def
      ERR_RESPONSE_ZSTD_INFLATE_FAILED_def
      ERR_RESPONSE_INFLATE_UNKNOWN_ERROR_def
      ERR_RESPONSE_RST_STREAM_ERROR_def
      ERR_RESPONSE_READING_HTTP11_FAILED_def
      ERR_RESPONSE_STREAM_ABORTED_BY_CONSUMER_def
      ERR_RESPONSE_STREAM_INCOMPLETE_CONTRACT_def
      ERR_PROXY_HOST_RESOLVE_FAILED_def
      ERR_PROXY_SOCKET_CREATION_FAILED_def
      ERR_PROXY_SOCKET_NONBLOCK_SETTING_FAILED_def
      ERR_PROXY_SOCKET_CONNECTING_FAILED_def
      ERR_PROXY_SOCKET_INVALID_FILE_DESCRIPTOR_def
      ERR_PROXY_SOCKET_CONNECTING_TIMEOUT_def
      ERR_PROXY_SOCKET_CONNECTING_UNKNOWN_ERROR_def
      ERR_PROXY_SEND_CONNECT_REQUEST_FAILED_def
      ERR_PROXY_AUTHORIZATION_FAILED_def
      ERR_PROXY_UNEXPECTED_RESPONSE_def
      ERR_PROXY_SOCKET_CONNECTING_REFUSED_def
      ERR_PROXY_EMPTY_RESPONSE_def)

end
