(* ===== verification/Huffman.thy ===== *)
theory Huffman
  imports Prelude
begin

text \<open>
  The Huffman coder of HPACK, \<open>src/CompressHandler.c\<close>: the code table
  \<open>huffmanTable\<close>, the tree \<open>buildHuffmanTree\<close> grows from its first 257 entries in the
  static node array, the bit-level encoder \<open>hpackHuffmanEncode\<close> with its 32-bit accumulator,
  and the tree walk \<open>hpackHuffmanDecode\<close>.

  The table is the one of the source, digit for digit: its initializer has 290 entries and
  departs from RFC 7541 from entry 246 on, so the codes of some bytes above 191 are extensions
  of shorter ones; the theorems say for which bytes decoding inverts encoding and for which it
  does not.
\<close>

section \<open>The table\<close>

definition huffmanTable :: "(32 word \<times> nat) list" where
  "huffmanTable =
    [(0x1ff8, 13), (0x7fffd8, 23), (0xfffffe2, 28), (0xfffffe3, 28), (0xfffffe4, 28), (0xfffffe5, 28),
     (0xfffffe6, 28), (0xfffffe7, 28), (0xfffffe8, 28), (0xffffea, 24), (0x3ffffffc, 30), (0xfffffe9, 28),
     (0xfffffea, 28), (0x3ffffffd, 30), (0xfffffeb, 28), (0xfffffec, 28), (0xfffffed, 28), (0xfffffee, 28),
     (0xfffffef, 28), (0xffffff0, 28), (0xffffff1, 28), (0xffffff2, 28), (0x3ffffffe, 30), (0xffffff3, 28),
     (0xffffff4, 28), (0xffffff5, 28), (0xffffff6, 28), (0xffffff7, 28), (0xffffff8, 28), (0xffffff9, 28),
     (0xffffffa, 28), (0xffffffb, 28), (0x14, 6), (0x3f8, 10), (0x3f9, 10), (0xffa, 12),
     (0x1ff9, 13), (0x15, 6), (0xf8, 8), (0x7fa, 11), (0x3fa, 10), (0x3fb, 10),
     (0xf9, 8), (0x7fb, 11), (0xfa, 8), (0x16, 6), (0x17, 6), (0x18, 6),
     (0x0, 5), (0x1, 5), (0x2, 5), (0x19, 6), (0x1a, 6), (0x1b, 6),
     (0x1c, 6), (0x1d, 6), (0x1e, 6), (0x1f, 6), (0x5c, 7), (0xfb, 8),
     (0x7ffc, 15), (0x20, 6), (0xffb, 12), (0x3fc, 10), (0x1ffa, 13), (0x21, 6),
     (0x5d, 7), (0x5e, 7), (0x5f, 7), (0x60, 7), (0x61, 7), (0x62, 7),
     (0x63, 7), (0x64, 7), (0x65, 7), (0x66, 7), (0x67, 7), (0x68, 7),
     (0x69, 7), (0x6a, 7), (0x6b, 7), (0x6c, 7), (0x6d, 7), (0x6e, 7),
     (0x6f, 7), (0x70, 7), (0x71, 7), (0x72, 7), (0xfc, 8), (0x73, 7),
     (0xfd, 8), (0x1ffb, 13), (0x7fff0, 19), (0x1ffc, 13), (0x3ffc, 14), (0x22, 6),
     (0x7ffd, 15), (0x3, 5), (0x23, 6), (0x4, 5), (0x24, 6), (0x5, 5),
     (0x25, 6), (0x26, 6), (0x27, 6), (0x6, 5), (0x74, 7), (0x75, 7),
     (0x28, 6), (0x29, 6), (0x2a, 6), (0x7, 5), (0x2b, 6), (0x76, 7),
     (0x2c, 6), (0x8, 5), (0x9, 5), (0x2d, 6), (0x77, 7), (0x78, 7),
     (0x79, 7), (0x7a, 7), (0x7b, 7), (0x7ffe, 15), (0x7fc, 11), (0x3ffd, 14),
     (0x1ffd, 13), (0xffffffc, 28), (0xfffe6, 20), (0x3fffd2, 22), (0xfffe7, 20), (0xfffe8, 20),
     (0x3fffd3, 22), (0x3fffd4, 22), (0x3fffd5, 22), (0x7fffd9, 23), (0x3fffd6, 22), (0x7fffda, 23),
     (0x7fffdb, 23), (0x7fffdc, 23), (0x7fffdd, 23), (0x7fffde, 23), (0xffffeb, 24), (0x7fffdf, 23),
     (0xffffec, 24), (0xffffed, 24), (0x3fffd7, 22), (0x7fffe0, 23), (0xffffee, 24), (0x7fffe1, 23),
     (0x7fffe2, 23), (0x7fffe3, 23), (0x7fffe4, 23), (0x1fffdc, 21), (0x3fffd8, 22), (0x7fffe5, 23),
     (0x3fffd9, 22), (0x7fffe6, 23), (0x7fffe7, 23), (0xffffef, 24), (0x3fffda, 22), (0x1fffdd, 21),
     (0xfffe9, 20), (0x3fffdb, 22), (0x3fffdc, 22), (0x7fffe8, 23), (0x7fffe9, 23), (0x1fffde, 21),
     (0x7fffea, 23), (0x3fffdd, 22), (0x3fffde, 22), (0xfffff0, 24), (0x1fffdf, 21), (0x3fffdf, 22),
     (0x7fffeb, 23), (0x7fffec, 23), (0x1fffe0, 21), (0x1fffe1, 21), (0x3fffe0, 22), (0x1fffe2, 21),
     (0x7fffed, 23), (0x3fffe1, 22), (0x7fffee, 23), (0x7fffef, 23), (0xfffea, 20), (0x3fffe2, 22),
     (0x3fffe3, 22), (0x3fffe4, 22), (0x7ffff0, 23), (0x3fffe5, 22), (0x3fffe6, 22), (0x7ffff1, 23),
     (0x3ffffe0, 26), (0x3ffffe1, 26), (0xfffeb, 20), (0x7fff1, 19), (0x3fffe7, 22), (0x7ffff2, 23),
     (0x3fffe8, 22), (0x1ffffec, 25), (0x3ffffe2, 26), (0x3ffffe3, 26), (0x3ffffe4, 26), (0x7ffffde, 27),
     (0x7ffffdf, 27), (0x3ffffe5, 26), (0xfffff1, 24), (0x1ffffed, 25), (0x7fff2, 19), (0x1fffe3, 21),
     (0x3ffffe6, 26), (0x7ffffe0, 27), (0x7ffffe1, 27), (0x3ffffe7, 26), (0x7ffffe2, 27), (0xfffff2, 24),
     (0x1fffe4, 21), (0x1fffe5, 21), (0x3ffffe8, 26), (0x3ffffe9, 26), (0xffffffd, 28), (0x7ffffe3, 27),
     (0x7ffffe4, 27), (0x7ffffe5, 27), (0xfffec, 20), (0xfffff3, 24), (0xfffed, 20), (0x1fffe6, 21),
     (0x3fffe9, 22), (0x1fffe7, 21), (0x1fffe8, 21), (0x7ffff3, 23), (0x3fffea, 22), (0x3fffeb, 22),
     (0x1ffffee, 25), (0x1ffffef, 25), (0xfffff4, 24), (0xfffff5, 24), (0x3ffffea, 26), (0x7ffff4, 23),
     (0x3ffffeb, 26), (0x7ffffe6, 27), (0x3ffffec, 26), (0x3ffffed, 26), (0x7ffffe7, 27), (0x7ffffe8, 27),
     (0x1fffff0, 25), (0x1fffff1, 25), (0x3ffffee, 26), (0x1fffff2, 25), (0x7ffffe9, 27), (0x1fffff3, 25),
     (0x3ffffef, 26), (0x1fffff4, 25), (0x1fffff5, 25), (0x3fffff0, 26), (0x1fffff6, 25), (0x3fffff1, 26),
     (0x3fffff2, 26), (0x7ffffea, 27), (0x3fffff3, 26), (0x3fffff4, 26), (0x7ffffeb, 27), (0x7ffffec, 27),
     (0x1fffff7, 25), (0x3fffff5, 26), (0x3fffff6, 26), (0x7ffffed, 27), (0x7ffffee, 27), (0x1fffff8, 25),
     (0x1fffff9, 25), (0x3fffff7, 26), (0x3fffff8, 26), (0x3fffff9, 26), (0x7ffffef, 27), (0x3fffffa, 26),
     (0x3fffffb, 26), (0x7fffff0, 27), (0x3fffffc, 26), (0x3fffffd, 26), (0x7fffff1, 27), (0x3fffffe, 26),
     (0x7fffff2, 27), (0x3ffffff, 26), (0x7fffff3, 27), (0x7fffff4, 27), (0x7fffff5, 27), (0xfffee, 20),
     (0x7fffff6, 27), (0x3fffffff, 28)]"


text \<open>The \<open>n\<close> low bits of a code word, highest first: \<open>(code >> b) & 1\<close> for \<open>b = n - 1 .. 0\<close>.\<close>

definition bitsOf :: "'a::len word \<Rightarrow> nat \<Rightarrow> bool list" where
  "bitsOf w n = map (bit w) (rev [0..<n])"

section \<open>The tree\<close>

text \<open>
  \<open>HNull\<close> is the null pointer; a node carries \<open>symbol\<close> (\<open>-1\<close> for an inner node) and its
  children. The source takes nodes from an array of 513 by a running index, and gives up when
  the index reaches 513: the index is threaded through the insertion.
\<close>

datatype hnode = HNull | HNode (symbol: int) (left: hnode) (right: hnode)

definition getHuffmanNode :: "nat \<Rightarrow> hnode option" where
  "getHuffmanNode index = (if index \<ge> 513 then None else Some (HNode (-1) HNull HNull))"

fun withLeft :: "int \<Rightarrow> hnode \<Rightarrow> (hnode \<times> nat) option \<Rightarrow> (hnode \<times> nat) option" where
  "withLeft s r None = None"
| "withLeft s r (Some (l, index)) = Some (HNode s l r, index)"

fun withRight :: "int \<Rightarrow> hnode \<Rightarrow> (hnode \<times> nat) option \<Rightarrow> (hnode \<times> nat) option" where
  "withRight s l None = None"
| "withRight s l (Some (r, index)) = Some (HNode s l r, index)"

text \<open>One code of the table: walk its bits from the root, taking a node where one is missing.\<close>

fun insertCode :: "bool list \<Rightarrow> int \<Rightarrow> hnode option \<Rightarrow> nat \<Rightarrow> (hnode \<times> nat) option" where
  "insertCode bs i None index = None"
| "insertCode bs i (Some HNull) index = None"
| "insertCode [] i (Some (HNode s l r)) index = Some (HNode i l r, index)"
| "insertCode (False # bs) i (Some (HNode s HNull r)) index =
     withLeft s r (insertCode bs i (getHuffmanNode index) (index + 1))"
| "insertCode (False # bs) i (Some (HNode s (HNode s' l' r') r)) index =
     withLeft s r (insertCode bs i (Some (HNode s' l' r')) index)"
| "insertCode (True # bs) i (Some (HNode s l HNull)) index =
     withRight s l (insertCode bs i (getHuffmanNode index) (index + 1))"
| "insertCode (True # bs) i (Some (HNode s l (HNode s' l' r'))) index =
     withRight s l (insertCode bs i (Some (HNode s' l' r')) index)"

fun insertCodes :: "bool list list \<Rightarrow> int \<Rightarrow> (hnode \<times> nat) option \<Rightarrow> (hnode \<times> nat) option" where
  "insertCodes cs i None = None"
| "insertCodes [] i (Some (t, index)) = Some (t, index)"
| "insertCodes (c # cs) i (Some (t, index)) = insertCodes cs (i + 1) (insertCode c i (Some t) index)"

definition tableCodes :: "bool list list" where
  "tableCodes = map (\<lambda>(code, bits). bitsOf code bits) (take 257 huffmanTable)"

definition buildHuffmanTree :: "(hnode \<times> nat) option" where
  "buildHuffmanTree =
     (case getHuffmanNode 0 of None \<Rightarrow> None | Some root \<Rightarrow> insertCodes tableCodes 0 (Some (root, 1)))"

text \<open>The global \<open>huffmanRoot\<close> after \<open>initialiseEnv\<close> has built the tree.\<close>

definition huffmanRoot :: hnode where
  "huffmanRoot = (case buildHuffmanTree of Some (t, _) \<Rightarrow> t | None \<Rightarrow> HNull)"

section \<open>Encoding\<close>

text \<open>The inner loop: write complete bytes while at least eight bits are pending.\<close>

function drainBytes :: "32 word \<Rightarrow> nat \<Rightarrow> bytes \<times> 32 word \<times> nat" where
  "drainBytes currentByte bitsUsed =
     (if bitsUsed \<ge> 8
      then (let out = ucast (drop_bit (bitsUsed - 8) currentByte AND 0xFF) :: byte;
                rest = bitsUsed - 8;
                (outs, cur, used) = drainBytes (currentByte AND (push_bit rest 1 - 1)) rest
            in (out # outs, cur, used))
      else ([], currentByte, bitsUsed))"
  by pat_completeness auto
termination by (relation "measure snd") auto

declare drainBytes.simps [simp del]

definition padByte :: "32 word \<Rightarrow> nat \<Rightarrow> bytes" where
  "padByte currentByte bitsUsed =
     (if bitsUsed > 0
      then [ucast ((push_bit (8 - bitsUsed) currentByte OR (push_bit (8 - bitsUsed) 1 - 1)) AND 0xFF)]
      else [])"

fun encodeLoop :: "bytes \<Rightarrow> 32 word \<Rightarrow> nat \<Rightarrow> bytes" where
  "encodeLoop [] currentByte bitsUsed = padByte currentByte bitsUsed"
| "encodeLoop (c # input) currentByte bitsUsed =
     (let (code, bits) = huffmanTable ! unat c;
          (outs, cur, used) = drainBytes (push_bit bits currentByte OR code) (bitsUsed + bits)
      in outs @ encodeLoop input cur used)"

definition hpackHuffmanEncode :: "bytes \<Rightarrow> bytes" where
  "hpackHuffmanEncode input = encodeLoop input 0 0"

section \<open>Decoding\<close>

fun child :: "bool \<Rightarrow> hnode \<Rightarrow> hnode" where
  "child b HNull = HNull"
| "child b (HNode s l r) = (if b then r else l)"

text \<open>
  The walk over the bits. A null child ends it (\<open>goto done\<close>), as does the EOS symbol 256; any
  other leaf yields its symbol and restarts at the root.
\<close>

fun decodeBits :: "hnode \<Rightarrow> hnode \<Rightarrow> bool list \<Rightarrow> bytes" where
  "decodeBits root node [] = []"
| "decodeBits root node (b # bs) =
     (case child b node of
        HNull \<Rightarrow> []
      | HNode s l r \<Rightarrow>
          if s \<ge> 0 then (if s = 256 then [] else word_of_int s # decodeBits root root bs)
          else decodeBits root (HNode s l r) bs)"

definition bitsOfBytes :: "bytes \<Rightarrow> bool list" where
  "bitsOfBytes bs = concat (map (\<lambda>b. bitsOf b 8) bs)"

definition huffmanDecodeTree :: "bytes \<Rightarrow> hnode \<Rightarrow> bytes" where
  "huffmanDecodeTree src root = decodeBits root root (bitsOfBytes src)"

definition hpackHuffmanDecode :: "bytes \<Rightarrow> bytes" where
  "hpackHuffmanDecode src = huffmanDecodeTree src huffmanRoot"

section \<open>Evaluating the table\<close>

fun nbits :: "nat \<Rightarrow> nat \<Rightarrow> bool list \<Rightarrow> bool list" where
  "nbits v 0 acc = acc"
| "nbits v (Suc n) acc = nbits (v div 2) n (odd v # acc)"

lemma nbits_numeral: "nbits v (numeral k) acc = nbits (v div 2) (pred_numeral k) (odd v # acc)"
  by (simp add: numeral_eq_Suc)

lemma nbits_bit: "nbits v n acc = map (bit v) (rev [0..<n]) @ acc"
proof (induction v n acc rule: nbits.induct)
  case (1 v acc)
  show ?case by simp
next
  case (2 v n acc)
  have "map (bit (v div 2)) (rev [0..<n]) = map (bit v) (rev (map Suc [0..<n]))"
    by (simp add: rev_map bit_Suc comp_def)
  then show ?case using 2 by (simp add: map_Suc_upt upt_conv_Cons bit_0 del: upt_Suc)
qed

lemma bitsOf_numeral:
  assumes k: "numeral k \<le> (32::nat)"
  shows "bitsOf (numeral w :: 32 word) (numeral k) = nbits (numeral w) (numeral k) []"
proof -
  have "x < 32" if "x < numeral k" for x :: nat using that k by (rule less_le_trans)
  moreover have "bit (numeral w :: nat) x = bit (numeral w :: int) x" for x
    using bit_of_nat_iff_bit [of "numeral w" x, where ?'a = int] by simp
  ultimately show ?thesis unfolding bitsOf_def nbits_bit by (auto simp: bit_simps)
qed

lemma bitsOf_zero_one:
  "bitsOf (0 :: 32 word) (numeral k) = nbits 0 (numeral k) []"
  "bitsOf (1 :: 32 word) (numeral k) = nbits 1 (numeral k) []"
  by (auto simp: bitsOf_def nbits_bit bit_simps)

lemma nbits_step:
  "nbits (numeral (num.Bit0 w)) (numeral k) acc = nbits (numeral w) (pred_numeral k) (False # acc)"
  "nbits (numeral (num.Bit1 w)) (numeral k) acc = nbits (numeral w) (pred_numeral k) (True # acc)"
  "nbits 1 (numeral k) acc = nbits 0 (pred_numeral k) (True # acc)"
  "nbits (numeral num.One) (numeral k) acc = nbits 0 (pred_numeral k) (True # acc)"
  "nbits 0 (numeral k) acc = nbits 0 (pred_numeral k) (False # acc)"
  by (simp_all add: nbits_numeral numeral_Bit0_div_2 numeral_Bit1_div_2)

lemma take_numeral: "take (numeral k) (x # xs) = x # take (pred_numeral k) xs"
  by (simp add: numeral_eq_Suc)

text \<open>Filtering with unconditional equations: no branch is evaluated that is not taken.\<close>

fun consIf :: "bool \<Rightarrow> 'a \<Rightarrow> 'a list \<Rightarrow> 'a list" where
  "consIf True x xs = x # xs"
| "consIf False x xs = xs"

lemma filter_consIf:
  "filter P [] = []"
  "filter P (x # xs) = consIf (P x) x (filter P xs)"
  by (cases "P x"; simp)+

text \<open>
  The rewrite rules that evaluate the table: its first entries, its codes as bit lists.
\<close>

lemmas table_eval = take_numeral take_0 list.map filter_consIf consIf.simps prod.case pred_numeral_simps
  BitM.simps numeral_le_iff le_num_simps less_num_simps
lemmas code_eval = bitsOf_numeral bitsOf_zero_one numeral_le_iff le_num_simps less_num_simps
lemmas bits_eval = nbits_step nbits.simps pred_numeral_simps BitM.simps

text \<open>
  Prefix-freeness, decided by splitting a set of codes on the first bit. The equations are
  unconditional so that rewriting evaluates them on the whole table in one pass.
\<close>

fun splitCodes :: "bool list list \<Rightarrow> bool list list \<Rightarrow> bool list list \<Rightarrow> (bool list list \<times> bool list list) option" where
  "splitCodes [] f t = Some (f, t)"
| "splitCodes ([] # xs) f t = None"
| "splitCodes ((True # x) # xs) f t = splitCodes xs f (x # t)"
| "splitCodes ((False # x) # xs) f t = splitCodes xs (x # f) t"

fun prefixFree :: "nat \<Rightarrow> bool list list \<Rightarrow> bool" and prefixFree2 :: "nat \<Rightarrow> (bool list list \<times> bool list list) option \<Rightarrow> bool" where
  "prefixFree n [] = True"
| "prefixFree n [x] = True"
| "prefixFree 0 (x # y # xs) = False"
| "prefixFree (Suc n) (x # y # xs) = prefixFree2 n (splitCodes (x # y # xs) [] [])"
| "prefixFree2 n None = False"
| "prefixFree2 n (Some (f, t)) = (prefixFree n f \<and> prefixFree n t)"

lemma prefixFree_numeral:
  "prefixFree (numeral k) (x # y # xs) = prefixFree2 (pred_numeral k) (splitCodes (x # y # xs) [] [])"
  by (simp add: numeral_eq_Suc)

lemma splitCodes_Some:
  "splitCodes xs f t = Some (f', t') \<Longrightarrow>
     [] \<notin> set xs \<and> f' = rev (map tl (filter (\<lambda>x. \<not> hd x) xs)) @ f \<and> t' = rev (map tl (filter hd xs)) @ t"
  by (induction xs f t rule: splitCodes.induct) auto

definition codesOk :: "bool list list \<Rightarrow> bool" where
  "codesOk xs \<longleftrightarrow> distinct xs \<and> (\<forall>a\<in>set xs. \<forall>b\<in>set xs. isPrefixOf a b \<longrightarrow> a = b)"

lemma codesOk_split:
  assumes nil: "[] \<notin> set xs"
    and f: "codesOk (rev (map tl (filter (\<lambda>x. \<not> hd x) xs)))"
    and t: "codesOk (rev (map tl (filter hd xs)))"
  shows "codesOk xs"
proof -
  have "distinct (filter hd xs)" "distinct (filter (\<lambda>x. \<not> hd x) xs)"
    using f t by (auto simp: distinct_map codesOk_def)
  then have d: "distinct xs"
    by (induction xs) (auto split: if_splits)
  have mem: "\<lbrakk>x # y \<in> set xs; P x\<rbrakk> \<Longrightarrow> y \<in> set (rev (map tl (filter (\<lambda>x. P (hd x)) xs)))" for x y P
    by force
  have "a = b" if ab: "a \<in> set xs" "b \<in> set xs" "isPrefixOf a b" for a b
  proof -
    obtain h a' k b' where ab': "a = h # a'" "b = k # b'"
      using ab nil by (metis list.exhaust)
    then have hk: "h = k" "isPrefixOf a' b'" using ab(3) by simp_all
    show ?thesis
    proof (cases h)
      case True
      then have "a' \<in> set (rev (map tl (filter hd xs)))" "b' \<in> set (rev (map tl (filter hd xs)))"
        using ab ab' hk mem [where P = "\<lambda>x. x"] by auto
      then show ?thesis using t hk ab' unfolding codesOk_def by blast
    next
      case False
      then have "a' \<in> set (rev (map tl (filter (\<lambda>x. \<not> hd x) xs)))"
        "b' \<in> set (rev (map tl (filter (\<lambda>x. \<not> hd x) xs)))"
        using ab ab' hk mem [where P = Not] by auto
      then show ?thesis using f hk ab' unfolding codesOk_def by blast
    qed
  qed
  with d show ?thesis by (auto simp: codesOk_def)
qed

lemma prefixFree_codesOk:
  "prefixFree n xs \<longrightarrow> codesOk xs"
  "prefixFree2 n p \<longrightarrow> (case p of None \<Rightarrow> True | Some (f, t) \<Rightarrow> codesOk f \<and> codesOk t)"
proof (induction n xs and n p rule: prefixFree_prefixFree2.induct)
  case (4 n x y xs)
  show ?case
  proof
    assume "prefixFree (Suc n) (x # y # xs)"
    then have pf: "prefixFree2 n (splitCodes (x # y # xs) [] [])" by simp
    then obtain f t where ft: "splitCodes (x # y # xs) [] [] = Some (f, t)"
      by (cases "splitCodes (x # y # xs) [] []") auto
    with pf 4 have "codesOk f" "codesOk t" by auto
    with splitCodes_Some [OF ft] show "codesOk (x # y # xs)"
      by (metis codesOk_split append_Nil2)
  qed
qed (auto simp: codesOk_def)

text \<open>The codes of at most 25 bits, evaluated and checked.\<close>

definition shortCodes :: "bool list list" where
  "shortCodes = map (\<lambda>(code, bits). bitsOf code bits) (filter (\<lambda>(code, bits). bits \<le> 25) (take 257 huffmanTable))"

lemma shortCodes_prefixFree: "prefixFree 31 shortCodes"
  apply (unfold shortCodes_def huffmanTable_def)
  apply (simp only: table_eval)
  apply (simp only: code_eval)
  apply (simp only: bits_eval)
  apply (simp only: prefixFree.simps prefixFree2.simps prefixFree_numeral splitCodes.simps
      pred_numeral_simps BitM.simps HOL.simp_thms)
  done

text \<open>The source's node array is large enough: building takes 500 of its 513 nodes.\<close>

lemma getHuffmanNode_numeral:
  "getHuffmanNode 0 = Some (HNode (-1) HNull HNull)"
  "getHuffmanNode 1 = Some (HNode (-1) HNull HNull)"
  "numeral k < (513::nat) \<Longrightarrow> getHuffmanNode (numeral k) = Some (HNode (-1) HNull HNull)"
  by (simp_all add: getHuffmanNode_def)

lemma buildHuffmanTree_nodes: "map_option snd buildHuffmanTree = Some 500"
  apply (unfold buildHuffmanTree_def getHuffmanNode_numeral option.case tableCodes_def huffmanTable_def)
  apply (simp only: table_eval)
  apply (simp only: code_eval)
  apply (simp only: bits_eval)
  apply (simp only: insertCodes.simps insertCode.simps withLeft.simps withRight.simps
      getHuffmanNode_numeral numeral_less_iff le_num_simps less_num_simps add_num_simps one_add_one numeral_plus_one add_0
      option.map snd_conv)
  done

section \<open>What building the tree does\<close>

text \<open>\<open>symAt t p\<close>: the symbol of the node the path \<open>p\<close> leads to, if there is a node.\<close>

fun symAt :: "hnode \<Rightarrow> bool list \<Rightarrow> int option" where
  "symAt HNull p = None"
| "symAt (HNode s l r) [] = Some s"
| "symAt (HNode s l r) (b # p) = symAt (if b then r else l) p"

lemma symAt_child: "symAt t (b # p) = symAt (child b t) p"
  by (cases t) auto

lemma symAt_leaf: "symAt (HNode s HNull HNull) p = (if p = [] then Some s else None)"
  by (cases p) auto

lemma insertCode_Some: "insertCode bs i t index = Some (t', index') \<Longrightarrow> \<exists>s l r. t = Some (HNode s l r)"
  by (cases "(bs, i, t, index)" rule: insertCode.cases) auto

lemma with_Some:
  "withLeft s r q = Some (t, n) \<longleftrightarrow> (\<exists>l. q = Some (l, n) \<and> t = HNode s l r)"
  "withRight s l q = Some (t, n) \<longleftrightarrow> (\<exists>r. q = Some (r, n) \<and> t = HNode s l r)"
  by (cases q; force)+

lemma getHuffmanNode_Some: "getHuffmanNode n = Some t \<Longrightarrow> t = HNode (-1) HNull HNull"
  by (auto simp: getHuffmanNode_def split: if_splits)

definition orInner :: "int option \<Rightarrow> int" where
  "orInner q = (case q of None \<Rightarrow> -1 | Some s \<Rightarrow> s)"

lemma isPrefixOf_Nil2 [simp]: "isPrefixOf p [] \<longleftrightarrow> p = []"
  by (cases p) auto

lemma isPrefixOf_refl [simp]: "isPrefixOf p p"
  by (simp add: isPrefixOf_iff)

text \<open>Inserting one code sets the symbol at its end and creates the inner nodes on the way.\<close>

lemma insertCode_symAt:
  "insertCode bs i (Some t) index = Some (t', index') \<Longrightarrow>
     symAt t' p = (if p = bs then Some i
                   else if isPrefixOf p bs then Some (orInner (symAt t p)) else symAt t p)"
proof (induction bs i "Some t" index arbitrary: t t' p index' rule: insertCode.induct)
  case (3 i s l r index)
  then show ?case by (cases p) auto
next
  case (4 bs i s r index)
  from 4(2) obtain l where l: "insertCode bs i (getHuffmanNode index) (index + 1) = Some (l, index')"
    "t' = HNode s l r" by (auto simp: with_Some)
  from insertCode_Some [OF l(1)] getHuffmanNode_Some have g: "getHuffmanNode index = Some (HNode (-1) HNull HNull)"
    by metis
  show ?case using 4(1) [OF g l(1) [unfolded g]]
    by (cases p) (auto simp: l(2) orInner_def symAt_leaf)
next
  case (5 bs i s s' l' r' r index)
  from 5(2) obtain l where l: "insertCode bs i (Some (HNode s' l' r')) index = Some (l, index')"
    "t' = HNode s l r" by (auto simp: with_Some)
  show ?case using 5(1) [OF l(1)] by (cases p) (auto simp: l(2) orInner_def)
next
  case (6 bs i s l index)
  from 6(2) obtain r where r: "insertCode bs i (getHuffmanNode index) (index + 1) = Some (r, index')"
    "t' = HNode s l r" by (auto simp: with_Some)
  from insertCode_Some [OF r(1)] getHuffmanNode_Some have g: "getHuffmanNode index = Some (HNode (-1) HNull HNull)"
    by metis
  show ?case using 6(1) [OF g r(1) [unfolded g]]
    by (cases p) (auto simp: r(2) orInner_def symAt_leaf)
next
  case (7 bs i s l s' l' r' index)
  from 7(2) obtain r where r: "insertCode bs i (Some (HNode s' l' r')) index = Some (r, index')"
    "t' = HNode s l r" by (auto simp: with_Some)
  show ?case using 7(1) [OF r(1)] by (cases p) (auto simp: r(2) orInner_def)
qed auto

lemma insertCodes_Some:
  assumes "insertCodes (c # cs) i (Some (t, index)) = Some (t', index')"
  obtains t1 index1 where "insertCode c i (Some t) index = Some (t1, index1)"
    "insertCodes cs (i + 1) (Some (t1, index1)) = Some (t', index')"
  using assms by (cases "insertCode c i (Some t) index") auto

lemma insertCodes_other:
  "\<lbrakk>insertCodes cs i (Some (t, index)) = Some (t', index'); p \<notin> set cs\<rbrakk> \<Longrightarrow>
     symAt t' p = (if \<exists>c\<in>set cs. isPrefixOf p c then Some (orInner (symAt t p)) else symAt t p)"
proof (induction cs arbitrary: i t index)
  case (Cons c cs)
  obtain t1 index1 where 1: "insertCode c i (Some t) index = Some (t1, index1)"
    "insertCodes cs (i + 1) (Some (t1, index1)) = Some (t', index')"
    using insertCodes_Some [OF Cons.prems(1)] .
  from Cons.IH [OF 1(2)] insertCode_symAt [OF 1(1), of p] Cons.prems(2) show ?case
    by (auto simp: orInner_def)
qed auto

lemma insertCodes_at:
  "\<lbrakk>insertCodes cs i (Some (t, index)) = Some (t', index'); k < length cs;
    \<And>j. \<lbrakk>k < j; j < length cs\<rbrakk> \<Longrightarrow> cs ! j \<noteq> cs ! k\<rbrakk> \<Longrightarrow> symAt t' (cs ! k) = Some (i + int k)"
proof (induction cs arbitrary: i t index k)
  case (Cons c cs)
  obtain t1 index1 where 1: "insertCode c i (Some t) index = Some (t1, index1)"
    "insertCodes cs (i + 1) (Some (t1, index1)) = Some (t', index')"
    using insertCodes_Some [OF Cons.prems(1)] .
  show ?case
  proof (cases k)
    case 0
    have "c \<notin> set cs"
      using Cons.prems(3) 0 by (force simp: in_set_conv_nth)
    then show ?thesis
      using insertCodes_other [OF 1(2)] insertCode_symAt [OF 1(1), of c] 0 by (auto simp: orInner_def)
  next
    case (Suc k')
    have "cs ! j \<noteq> cs ! k'" if "k' < j" "j < length cs" for j
      using Cons.prems(3) [of "Suc j"] that Suc by simp
    then show ?thesis using Cons.IH [OF 1(2), of k'] Cons.prems(2) Suc by auto
  qed
qed auto

section \<open>The tree of the table\<close>

definition codeOf :: "byte \<Rightarrow> bool list" where
  "codeOf c = (case huffmanTable ! unat c of (code, bits) \<Rightarrow> bitsOf code bits)"

definition codeLen :: "byte \<Rightarrow> nat" where
  "codeLen c = snd (huffmanTable ! unat c)"

lemma length_bitsOf [simp]: "length (bitsOf w n) = n"
  by (simp add: bitsOf_def)

lemma length_codeOf [simp]: "length (codeOf c) = codeLen c"
  by (simp add: codeOf_def codeLen_def split: prod.split)

lemma length_huffmanTable: "length huffmanTable = 290"
  by (simp add: huffmanTable_def)

lemma codeOf_nth: "codeOf c = tableCodes ! unat c" "unat c < length tableCodes"
proof -
  have "unat c < 256" using unsigned_less [of c] by simp
  then show "codeOf c = tableCodes ! unat c" "unat c < length tableCodes"
    by (simp_all add: codeOf_def tableCodes_def length_huffmanTable)
qed

lemma distinct_filter_nth:
  "\<lbrakk>distinct (filter P xs); i < length xs; j < length xs; P (xs ! i); xs ! i = xs ! j\<rbrakk> \<Longrightarrow> i = j"
proof (induction xs arbitrary: i j)
  case (Cons x xs)
  then show ?case
    by (cases i; cases j) (auto split: if_splits dest: nth_mem)
qed simp

lemma shortCodes_filter: "shortCodes = filter (\<lambda>c. length c \<le> 25) tableCodes"
  by (simp add: shortCodes_def tableCodes_def filter_map comp_def case_prod_unfold)

lemma short_unique:
  assumes "length (codeOf c) \<le> 25" "p \<in> set tableCodes" "isPrefixOf p (codeOf c)"
  shows "p = codeOf c"
proof -
  have "codesOk shortCodes" using prefixFree_codesOk(1) shortCodes_prefixFree by blast
  moreover have "p \<in> set shortCodes" "codeOf c \<in> set shortCodes"
    using assms codeOf_nth [of c] by (auto simp: shortCodes_filter isPrefixOf_iff)
  ultimately show ?thesis using assms(3) unfolding codesOk_def by blast
qed

lemma huffmanRoot_built: "\<exists>n. insertCodes tableCodes 0 (Some (HNode (-1) HNull HNull, 1)) = Some (huffmanRoot, n)"
  using buildHuffmanTree_nodes
  by (auto simp: huffmanRoot_def buildHuffmanTree_def getHuffmanNode_def)

lemma huffmanRoot_code:
  assumes "codeLen c \<le> 25"
  shows "symAt huffmanRoot (codeOf c) = Some (uint c)"
proof -
  obtain n where n: "insertCodes tableCodes 0 (Some (HNode (-1) HNull HNull, 1)) = Some (huffmanRoot, n)"
    using huffmanRoot_built by auto
  have "codesOk shortCodes" using prefixFree_codesOk(1) shortCodes_prefixFree by blast
  then have "distinct (filter (\<lambda>c. length c \<le> 25) tableCodes)" by (simp add: codesOk_def shortCodes_filter)
  from distinct_filter_nth [OF this codeOf_nth(2)] assms
  have "tableCodes ! j \<noteq> tableCodes ! unat c" if "unat c < j" "j < length tableCodes" for j
    using that codeOf_nth [of c] by (metis length_codeOf less_irrefl)
  from insertCodes_at [OF n codeOf_nth(2) this] show ?thesis by (simp add: codeOf_nth)
qed

lemma huffmanRoot_prefix:
  assumes "codeLen c \<le> 25" "isPrefixOf p (codeOf c)" "p \<noteq> codeOf c"
  shows "symAt huffmanRoot p = Some (-1)"
proof -
  obtain n where n: "insertCodes tableCodes 0 (Some (HNode (-1) HNull HNull, 1)) = Some (huffmanRoot, n)"
    using huffmanRoot_built by auto
  have "p \<notin> set tableCodes" using assms short_unique by auto
  from insertCodes_other [OF n this] assms(2) codeOf_nth [of c] show ?thesis
    by (cases p) (auto simp: orInner_def)
qed


section \<open>Decoding what was encoded\<close>

lemma child_symAt: "symAt n (b # p) = Some s \<Longrightarrow> \<exists>s' l r. child b n = HNode s' l r"
  by (cases n; cases "child b n") (auto split: if_splits)

lemma decodeBits_code:
  "\<lbrakk>c \<noteq> []; symAt n c = Some s; 0 \<le> s; s \<noteq> 256;
    \<And>p. \<lbrakk>p \<noteq> []; isPrefixOf p c; p \<noteq> c\<rbrakk> \<Longrightarrow> symAt n p = Some (-1)\<rbrakk> \<Longrightarrow>
   decodeBits root n (c @ rest) = word_of_int s # decodeBits root root rest"
proof (induction c arbitrary: n)
  case (Cons b c)
  obtain s' l r where ch: "child b n = HNode s' l r" using child_symAt [OF Cons.prems(2)] by auto
  show ?case
  proof (cases "c = []")
    case True
    then show ?thesis using Cons.prems(2-4) ch by (simp add: symAt_child)
  next
    case False
    have s': "s' = -1" using Cons.prems(5) [of "[b]"] False ch by (simp add: symAt_child)
    have "symAt (HNode s' l r) p = Some (-1)" if "p \<noteq> []" "isPrefixOf p c" "p \<noteq> c" for p
      using Cons.prems(5) [of "b # p"] that ch by (simp add: symAt_child)
    with Cons.IH [OF False, of "HNode s' l r"] Cons.prems(2-4) ch s' show ?thesis
      by (simp add: symAt_child)
  qed
qed simp

text \<open>Padding stays on inner nodes, so it decodes to nothing.\<close>

lemma decodeBits_inner:
  "(\<And>p. \<lbrakk>p \<noteq> []; isPrefixOf p c\<rbrakk> \<Longrightarrow> symAt n p = Some (-1)) \<Longrightarrow> decodeBits root n c = []"
proof (induction c arbitrary: n)
  case (Cons b c)
  have 1: "symAt n [b] = Some (-1)" using Cons.prems [of "[b]"] by simp
  obtain s' l r where ch: "child b n = HNode s' l r" using child_symAt [OF 1] by auto
  have "s' = -1" using 1 ch by (simp add: symAt_child)
  moreover have "symAt (HNode s' l r) p = Some (-1)" if "p \<noteq> []" "isPrefixOf p c" for p
    using Cons.prems [of "b # p"] that ch by (simp add: symAt_child)
  ultimately show ?case using Cons.IH [of "HNode s' l r"] ch by simp
qed simp

lemma list_all_nth: "list_all P xs \<Longrightarrow> i < length xs \<Longrightarrow> P (xs ! i)"
  by (simp add: list_all_length)

lemma unat_byte: "unat (c :: byte) < 256"
  using unsigned_less [of c, where ?'a = nat] by simp

lemma codeLen_pos: "0 < codeLen c"
proof -
  have "list_all (\<lambda>(code, bits). 0 < bits) huffmanTable"
    by (simp add: huffmanTable_def)
  moreover have "unat c < length huffmanTable"
    using unat_byte [of c] by (simp add: length_huffmanTable)
  ultimately show ?thesis
    by (cases "huffmanTable ! unat c") (auto simp: codeLen_def dest!: list_all_nth)
qed

lemma codeOf_35: "codeOf 35 = replicate 9 True @ [False, True, False]"
proof -
  have "codeOf 35 = [True, True, True, True, True, True, True, True, True, False, True, False]"
    by (simp add: codeOf_def huffmanTable_def bitsOf_numeral nbits_step)
  then show ?thesis by (simp add: eval_nat_numeral)
qed

lemma padding_inner:
  assumes "k < 8" shows "decodeBits huffmanRoot huffmanRoot (replicate k True) = []"
proof (rule decodeBits_inner)
  fix p :: "bool list" assume p: "p \<noteq> []" "isPrefixOf p (replicate k True)"
  have len: "length p \<le> k" using p by (auto simp: isPrefixOf_iff dest: arg_cong [where f = length])
  have "replicate 9 True = replicate k True @ replicate (9 - k) True"
    using assms by (simp flip: replicate_add)
  then have "isPrefixOf p (codeOf 35)"
    using p(2) by (auto simp: codeOf_35 isPrefixOf_iff)
  moreover have "codeLen 35 = 12"
    using length_codeOf [of 35] codeOf_35 by simp
  ultimately show "symAt huffmanRoot p = Some (-1)"
    using len assms length_codeOf [of 35] by (intro huffmanRoot_prefix [of 35]) auto
qed

section \<open>The bits the encoder writes\<close>

lemma bitsOf_Suc: "bitsOf w (Suc n) = bit w n # bitsOf w n"
  by (simp add: bitsOf_def)

lemma bitsOf_cong: "(\<And>i. i < n \<Longrightarrow> bit v i = bit w i) \<Longrightarrow> bitsOf v n = bitsOf w n"
  by (simp add: bitsOf_def)

lemma bitsOf_replicate: "(\<And>i. i < n \<Longrightarrow> bit w i) \<Longrightarrow> bitsOf w n = replicate n True"
  by (induction n) (simp_all add: bitsOf_Suc, simp add: bitsOf_def)

lemma bitsOf_split: "bitsOf w (m + n) = bitsOf (drop_bit n w) m @ bitsOf w n"
  by (induction m) (simp_all add: bitsOf_Suc bit_drop_bit_eq add.commute, simp add: bitsOf_def)

lemma bitsOfBytes_simps [simp]:
  "bitsOfBytes [] = []"
  "bitsOfBytes (b # bs) = bitsOf b 8 @ bitsOfBytes bs"
  "bitsOfBytes (bs @ cs) = bitsOfBytes bs @ bitsOfBytes cs"
  by (simp_all add: bitsOfBytes_def)

lemma mask_facts:
  "push_bit n (1 :: 32 word) - 1 = mask n"
  "(2 ^ n :: 32 word) - 1 = mask n"
  "(255 :: 32 word) = mask 8"
  by (simp_all add: mask_eq_exp_minus_1)

lemma drainBytes_bits:
  "\<lbrakk>drainBytes cur used = (outs, cur', used'); used \<le> 32\<rbrakk> \<Longrightarrow>
     used' < 8 \<and> bitsOf cur used = bitsOfBytes outs @ bitsOf cur' used'"
proof (induction cur used arbitrary: outs cur' used' rule: drainBytes.induct)
  case (1 cur used)
  show ?case
  proof (cases "8 \<le> used")
    case False
    then show ?thesis using "1.prems" by (subst (asm) drainBytes.simps) simp
  next
    case True
    define out :: byte where "out = ucast (drop_bit (used - 8) cur AND 0xFF)"
    define rest where "rest = used - 8"
    obtain outs1 where 2: "drainBytes (cur AND (push_bit rest 1 - 1)) rest = (outs1, cur', used')"
      "outs = out # outs1"
      using "1.prems"(1) True by (subst (asm) drainBytes.simps) (auto simp: Let_def out_def rest_def split: prod.splits)
    have IH: "used' < 8 \<and> bitsOf (cur AND (push_bit rest 1 - 1)) rest = bitsOfBytes outs1 @ bitsOf cur' used'"
      using "1.IH" [OF True refl refl] 2(1) "1.prems"(2) by (simp add: rest_def)
    have "bitsOf cur used = bitsOf (drop_bit rest cur) 8 @ bitsOf cur rest"
      using bitsOf_split [of cur 8 rest] True by (simp add: rest_def)
    moreover have "bitsOf (drop_bit rest cur) 8 = bitsOf out 8"
      using "1.prems"(2) True by (intro bitsOf_cong) (auto simp: out_def rest_def mask_facts bit_simps)
    moreover have "bitsOf (cur AND (push_bit rest 1 - 1)) rest = bitsOf cur rest"
      using "1.prems"(2) by (intro bitsOf_cong) (auto simp: mask_facts bit_simps rest_def)
    ultimately show ?thesis using IH 2 by simp
  qed
qed

lemma bitsOf_push:
  assumes "u + n \<le> 32" "\<And>i. n \<le> i \<Longrightarrow> \<not> bit code i"
  shows "bitsOf (push_bit n cur OR code :: 32 word) (u + n) = bitsOf cur u @ bitsOf code n"
proof -
  have "bitsOf (drop_bit n (push_bit n cur OR code)) u = bitsOf cur u"
    using assms by (intro bitsOf_cong) (auto simp: bit_simps)
  moreover have "bitsOf (push_bit n cur OR code) n = bitsOf code n"
    by (intro bitsOf_cong) (auto simp: bit_simps)
  ultimately show ?thesis by (simp add: bitsOf_split)
qed

lemma padByte_bits:
  assumes "u < 8"
  shows "\<exists>k<8. bitsOfBytes (padByte cur u) = bitsOf cur u @ replicate k True"
proof (cases "u = 0")
  case True
  then show ?thesis by (simp add: padByte_def bitsOf_def)
next
  case False
  define w :: byte where "w = ucast ((push_bit (8 - u) cur OR (push_bit (8 - u) 1 - 1)) AND 0xFF)"
  have "bitsOf w 8 = bitsOf (drop_bit (8 - u) w) u @ bitsOf w (8 - u)"
    using bitsOf_split [of w u "8 - u"] assms by simp
  moreover have "bitsOf (drop_bit (8 - u) w) u = bitsOf cur u"
    using assms by (intro bitsOf_cong) (auto simp: w_def mask_facts bit_simps)
  moreover have "bitsOf w (8 - u) = replicate (8 - u) True"
    using assms by (intro bitsOf_replicate) (auto simp: w_def mask_facts bit_simps)
  ultimately show ?thesis using False assms
    by (intro exI [of _ "8 - u"]) (simp add: padByte_def w_def)
qed

lemma table_code_bound: "\<not> bit (fst (huffmanTable ! unat (c :: byte))) i" if "codeLen c \<le> i"
proof -
  have "list_all (\<lambda>(code, bits). unat code < 2 ^ bits) (take 256 huffmanTable)"
    apply (unfold huffmanTable_def)
    apply (simp only: table_eval list.pred_inject HOL.simp_thms)
    by simp
  then have "unat (fst (huffmanTable ! unat c)) < 2 ^ codeLen c"
    using unat_byte [of c]
    by (cases "huffmanTable ! unat c") (auto simp: codeLen_def length_huffmanTable dest!: list_all_nth [of _ _ "unat c"])
  then have "take_bit (codeLen c) (unat (fst (huffmanTable ! unat c))) = unat (fst (huffmanTable ! unat c))"
    by (simp add: take_bit_nat_eq_self)
  then have "\<not> bit (unat (fst (huffmanTable ! unat c))) i" using that by (metis bit_take_bit_iff not_le)
  then show ?thesis by (auto simp: bit_unsigned_iff)
qed

lemma encodeLoop_bits:
  "\<lbrakk>list_all (\<lambda>c. codeLen c \<le> 25) s; u < 8\<rbrakk> \<Longrightarrow>
     \<exists>k<8. bitsOfBytes (encodeLoop s cur u) = bitsOf cur u @ concat (map codeOf s) @ replicate k True"
proof (induction s arbitrary: cur u)
  case Nil
  then show ?case using padByte_bits [of u cur] by simp
next
  case (Cons c s)
  obtain code bits where h: "huffmanTable ! unat c = (code, bits)" by fastforce
  obtain outs cur' u' where d: "drainBytes (push_bit bits cur OR code) (u + bits) = (outs, cur', u')"
    by (cases "drainBytes (push_bit bits cur OR code) (u + bits)") auto
  have b: "bits \<le> 25" "codeOf c = bitsOf code bits"
    using Cons.prems(1) h by (auto simp: codeLen_def codeOf_def)
  have w: "bitsOf (push_bit bits cur OR code) (u + bits) = bitsOf cur u @ bitsOf code bits"
    using b(1) Cons.prems(2) table_code_bound [of c] h by (intro bitsOf_push) (auto simp: codeLen_def)
  have u': "u' < 8" "bitsOf cur u @ bitsOf code bits = bitsOfBytes outs @ bitsOf cur' u'"
    using drainBytes_bits [OF d] b(1) Cons.prems(2) w by auto
  obtain k where "k < 8"
    "bitsOfBytes (encodeLoop s cur' u') = bitsOf cur' u' @ concat (map codeOf s) @ replicate k True"
    using Cons.IH [OF _ u'(1)] Cons.prems(1) by auto
  then show ?case using h d u'(2) b(2) by (intro exI [of _ k]) simp
qed

lemma decode_codes:
  "list_all (\<lambda>c. codeLen c \<le> 25) s \<Longrightarrow> k < 8 \<Longrightarrow>
     decodeBits huffmanRoot huffmanRoot (concat (map codeOf s) @ replicate k True) = s"
proof (induction s)
  case Nil
  then show ?case by (simp add: padding_inner)
next
  case (Cons c s)
  have c: "codeLen c \<le> 25" using Cons.prems by simp
  have ne: "codeOf c \<noteq> []" using codeLen_pos [of c] length_codeOf [of c] by force
  have "uint c \<noteq> 256" using unsigned_less [of c, where ?'a = int] by simp
  then have "decodeBits huffmanRoot huffmanRoot (codeOf c @ concat (map codeOf s) @ replicate k True)
             = word_of_int (uint c) # decodeBits huffmanRoot huffmanRoot (concat (map codeOf s) @ replicate k True)"
    using huffmanRoot_code [OF c] huffmanRoot_prefix [OF c] ne
    by (intro decodeBits_code) auto
  then show ?case using Cons by simp
qed

lemma huffman_decode_encode:
  assumes "list_all (\<lambda>c. snd (huffmanTable ! unat c) \<le> 25) s"
  shows "hpackHuffmanDecode (hpackHuffmanEncode s) = s"
proof -
  have s: "list_all (\<lambda>c. codeLen c \<le> 25) s" using assms by (simp add: codeLen_def)
  obtain k where "k < 8" "bitsOfBytes (hpackHuffmanEncode s) = concat (map codeOf s) @ replicate k True"
    using encodeLoop_bits [OF s, of 0 0] by (auto simp: hpackHuffmanEncode_def bitsOf_def)
  then show ?thesis using decode_codes [OF s] by (simp add: hpackHuffmanDecode_def huffmanDecodeTree_def)
qed

text \<open>
  C22. Huffman decoding inverts Huffman encoding: for every text whose bytes have codes of at
  most 25 bits (which covers all the bytes of US-ASCII text except control characters), the
  decoder returns exactly the bytes that were encoded, whatever the padding.
\<close>

theorem huffman_roundtrip:
  assumes "list_all (\<lambda>c. snd (huffmanTable ! unat c) \<le> 25) s"
  shows "hpackHuffmanDecode (hpackHuffmanEncode s) = s"
  using assms by (rule huffman_decode_encode)

lemma huffman_roundtrip_witness:
  "hpackHuffmanDecode (hpackHuffmanEncode (strBytes ''www.example.com'')) = strBytes ''www.example.com''"
  by (rule huffman_roundtrip) (simp add: byteOfChar_def huffmanTable_def)

section \<open>Sizes\<close>

lemma drainBytes_length:
  "drainBytes cur used = (outs, cur', used') \<Longrightarrow> used' = used mod 8 \<and> length outs = used div 8"
proof (induction cur used arbitrary: outs cur' used' rule: drainBytes.induct)
  case (1 cur used)
  show ?case
  proof (cases "8 \<le> used")
    case False
    then show ?thesis using "1.prems" by (subst (asm) drainBytes.simps) simp
  next
    case True
    then obtain outs1 where
      "drainBytes (cur AND (push_bit (used - 8) 1 - 1)) (used - 8) = (outs1, cur', used')"
      "length outs = Suc (length outs1)"
      using "1.prems" by (subst (asm) drainBytes.simps) (auto simp: Let_def split: prod.splits)
    with "1.IH" [OF True refl refl] True show ?thesis
      by (simp add: le_mod_geq le_div_geq)
  qed
qed

lemma encodeLoop_length:
  "u < 8 \<Longrightarrow> length (encodeLoop s cur u) = (u + sum_list (map codeLen s) + 7) div 8"
proof (induction s arbitrary: cur u)
  case Nil
  then show ?case by (auto simp: padByte_def)
next
  case (Cons c s)
  obtain code bits where h: "huffmanTable ! unat c = (code, bits)" by fastforce
  obtain outs cur' u' where d: "drainBytes (push_bit bits cur OR code) (u + bits) = (outs, cur', u')"
    by (cases "drainBytes (push_bit bits cur OR code) (u + bits)") auto
  have l: "u' = (u + bits) mod 8" "length outs = (u + bits) div 8" using drainBytes_length [OF d] by auto
  have "length (encodeLoop (c # s) cur u)
        = (u + bits) div 8 + ((u + bits) mod 8 + sum_list (map codeLen s) + 7) div 8"
    using h d l Cons.IH [of u' cur'] by simp
  also have "\<dots> = (8 * ((u + bits) div 8) + ((u + bits) mod 8 + sum_list (map codeLen s) + 7)) div 8"
    by (simp only: div_mult_self4 [of 8 "(u + bits) mod 8 + sum_list (map codeLen s) + 7"] zero_neq_numeral
        not_False_eq_True)
  also have "8 * ((u + bits) div 8) + ((u + bits) mod 8 + sum_list (map codeLen s) + 7)
             = u + sum_list (map codeLen (c # s)) + 7"
    using mult_div_mod_eq [of 8 "u + bits"] h by (simp add: codeLen_def)
  finally show ?case .
qed

lemma sum_codeLen_le: "list_all (\<lambda>c. codeLen c \<le> m) s \<Longrightarrow> sum_list (map codeLen s) \<le> m * length s"
  by (induction s) auto

lemma length_hpackHuffmanEncode: "length (hpackHuffmanEncode s) = (sum_list (map codeLen s) + 7) div 8"
  by (simp add: hpackHuffmanEncode_def encodeLoop_length)

lemma codeLen_30: "codeLen c \<le> 30"
proof -
  have "list_all (\<lambda>(code, bits). bits \<le> 30) huffmanTable" by (simp add: huffmanTable_def)
  then show ?thesis
    using unat_byte [of c]
    by (cases "huffmanTable ! unat c") (auto simp: codeLen_def length_huffmanTable dest!: list_all_nth [of _ _ "unat c"])
qed

lemma huffman_length_bound: "length (hpackHuffmanEncode s) \<le> 4 * length s"
proof -
  have "sum_list (map codeLen s) \<le> 30 * length s"
    by (intro sum_codeLen_le) (simp add: list_all_iff codeLen_30)
  then show ?thesis unfolding length_hpackHuffmanEncode by (cases s) auto
qed

lemma huffman_length_16:
  "list_all (\<lambda>c. snd (huffmanTable ! unat c) \<le> 16) s \<Longrightarrow> length (hpackHuffmanEncode s) \<le> 2 * length s"
  using sum_codeLen_le [of 16 s] by (simp add: length_hpackHuffmanEncode codeLen_def [abs_def])

text \<open>
  The encoder writes exactly the bits of the codes, rounded up to whole bytes, and so never
  more than four bytes per input byte; twice the input length is enough when every code has at
  most 16 bits, which is what a buffer of \<open>2 * inputLen\<close> bytes relies on.
\<close>

theorem huffman_length:
  "length (hpackHuffmanEncode s) = (sum_list (map (\<lambda>c. snd (huffmanTable ! unat c)) s) + 7) div 8
   \<and> length (hpackHuffmanEncode s) \<le> 4 * length s
   \<and> (list_all (\<lambda>c. snd (huffmanTable ! unat c) \<le> 16) s \<longrightarrow> length (hpackHuffmanEncode s) \<le> 2 * length s)"
  using huffman_length_bound [of s] huffman_length_16 [of s] length_hpackHuffmanEncode [of s]
  by (simp add: codeLen_def [abs_def])

lemma codeLen_samples: "snd (huffmanTable ! 65) = 6" "snd (huffmanTable ! 60) = 15" "snd (huffmanTable ! 92) = 19"
  by (simp_all add: huffmanTable_def)

lemma huffman_length_witness: "length (hpackHuffmanEncode [65, 60]) \<le> 4"
  using huffman_length [of "[65, 60]"] by (simp add: codeLen_samples)

text \<open>
  Eight backslashes (19 bits each) need 19 bytes, three more than the two bytes per input byte
  that \<open>hpackHeaders\<close> allocates.
\<close>

lemma backslash_overflow: "length (hpackHuffmanEncode [92, 92, 92, 92, 92, 92, 92, 92]) = 19"
  by (simp add: hpackHuffmanEncode_def encodeLoop_length codeLen_def codeLen_samples del: encodeLoop.simps)

text \<open>
  The node array of 513 entries suffices: building the tree from the first 257 entries of
  the table succeeds, takes 500 nodes, and puts every symbol whose code has at most 25 bits at
  the end of its code's path, with only inner nodes (symbol -1) above it.
\<close>

theorem huffman_tree_built:
  assumes "snd (huffmanTable ! unat c) \<le> 25"
  shows "map_option snd buildHuffmanTree = Some 500
    \<and> symAt huffmanRoot (codeOf c) = Some (uint c)
    \<and> (\<forall>n < length (codeOf c). symAt huffmanRoot (take n (codeOf c)) = Some (-1))"
proof -
  have c: "codeLen c \<le> 25" using assms by (simp add: codeLen_def)
  have "isPrefixOf (take n (codeOf c)) (codeOf c)" for n
    by (metis append_take_drop_id isPrefixOf_iff)
  moreover have "take n (codeOf c) \<noteq> codeOf c" if "n < length (codeOf c)" for n
    using that by (metis length_take min.absorb4 nat_less_le)
  ultimately show ?thesis
    using buildHuffmanTree_nodes huffmanRoot_code [OF c] huffmanRoot_prefix [OF c] by blast
qed

lemma huffman_tree_built_witness: "symAt huffmanRoot (codeOf 65) = Some 65"
  using huffman_tree_built [of 65] by (simp add: codeLen_samples)

text \<open>
  The table is not prefix-free: byte 192's code starts with the code of symbol 246, so what is
  encoded as 192 decodes to something else.
\<close>

lemma code_samples:
  "huffmanTable ! 192 = (0x3ffffe0, 26)" "huffmanTable ! 246 = (0x1fffff0, 25)"
  by (simp_all add: huffmanTable_def)

lemma shadowed_code: "hpackHuffmanDecode (hpackHuffmanEncode [192]) \<noteq> [192]"
proof -
  have c246: "codeLen 246 = 25" by (simp add: codeLen_def code_samples)
  then have ne: "codeOf 246 \<noteq> []" using length_codeOf [of 246] by force
  have c192: "codeOf 192 = codeOf 246 @ [False]"
    by (simp add: codeOf_def code_samples bitsOf_numeral nbits_step)
  obtain outs cur used where d: "drainBytes 0x3ffffe0 26 = (outs, cur, used)"
    by (cases "drainBytes 0x3ffffe0 26") auto
  have "used < 8" "codeOf 192 = bitsOfBytes outs @ bitsOf cur used"
    using drainBytes_bits [OF d] by (simp_all add: codeOf_def code_samples)
  then obtain k where "bitsOfBytes (hpackHuffmanEncode [192]) = codeOf 192 @ replicate k True"
    using padByte_bits [of used cur] d by (auto simp: hpackHuffmanEncode_def code_samples)
  then have "hpackHuffmanDecode (hpackHuffmanEncode [192])
      = decodeBits huffmanRoot huffmanRoot (codeOf 246 @ False # replicate k True)"
    by (simp add: hpackHuffmanDecode_def huffmanDecodeTree_def c192)
  also have "\<dots> = word_of_int (uint (246 :: byte)) # decodeBits huffmanRoot huffmanRoot (False # replicate k True)"
    using huffmanRoot_code [of 246] huffmanRoot_prefix [of 246] c246 ne by (intro decodeBits_code) auto
  finally show ?thesis by simp
qed

end
