(* ===== verification/HpackInt.thy ===== *)
theory HpackInt
  imports Huffman
begin

text \<open>
  The HPACK primitives of \<open>src/CompressHandler.c\<close>: prefix-coded integers
  (\<open>hpackEncodeInteger\<close>, \<open>hpackDecodeInteger\<close>) and string literals
  (\<open>writeHuffmanValue\<close>, \<open>hpackDecodeString\<close>). A write through the moving pointer is
  modelled by the bytes written; a read position is an index into the buffer, returned updated.
\<close>

section \<open>Integers\<close>

text \<open>The \<open>while (value >= 128)\<close> loop and the last byte.\<close>

fun encodeTail :: "nat \<Rightarrow> bytes" where
  "encodeTail value =
     (if value \<ge> 128
      then (word_of_nat (value mod 128) OR 0x80) # encodeTail (value div 128)
      else [word_of_nat value AND 0x7F])"

declare encodeTail.simps [simp del]

definition hpackEncodeInteger :: "nat \<Rightarrow> nat \<Rightarrow> byte \<Rightarrow> bytes" where
  "hpackEncodeInteger value prefixBits prefix =
     (let maxPrefix = 2 ^ prefixBits - 1 in
      if value < maxPrefix then [prefix OR word_of_nat value]
      else (prefix OR word_of_nat maxPrefix) # encodeTail (value - maxPrefix))"

text \<open>
  The \<open>do ... while\<close> loop over continuation bytes: it ends at the end of the buffer, after the
  fifth continuation byte (\<open>shift > 28\<close>), or at a byte without the high bit.
\<close>

function decodeTail :: "bytes \<Rightarrow> nat \<Rightarrow> nat \<Rightarrow> nat \<Rightarrow> nat \<Rightarrow> nat \<times> nat" where
  "decodeTail buf bufLen pos value shift =
     (if pos \<ge> bufLen then (value, pos)
      else (let b = buf ! pos;
                value' = value + unat (b AND 0x7F) * 2 ^ shift
            in if shift + 7 > 28 then (value', pos + 1)
               else if b AND 0x80 \<noteq> 0 then decodeTail buf bufLen (pos + 1) value' (shift + 7)
               else (value', pos + 1)))"
  by pat_completeness auto
termination by (relation "measure (\<lambda>(buf, bufLen, pos, value, shift). bufLen - pos)") auto

declare decodeTail.simps [simp del]

definition hpackDecodeInteger :: "bytes \<Rightarrow> nat \<Rightarrow> nat \<Rightarrow> nat \<Rightarrow> nat \<times> nat" where
  "hpackDecodeInteger buf pos prefixSize bufLen =
     (if pos \<ge> bufLen then (0, pos)
      else (let mask = 2 ^ prefixSize - 1;
                value = unat (buf ! pos AND word_of_nat mask)
            in if value = mask then decodeTail buf bufLen (pos + 1) value 0 else (value, pos + 1)))"

section \<open>Strings\<close>

text \<open>
  \<open>writeHuffmanValue\<close>: \<open>None\<close> is the overflow of the heap buffer of
  \<open>valueLen * 2 + 10\<close> bytes the encoder writes to.
\<close>

definition writeHuffmanValue :: "bytes \<Rightarrow> bytes option" where
  "writeHuffmanValue value =
     (if value = [] then Some [0x80]
      else (let maxHuffLen = length value * 2 + 10;
                huff = hpackHuffmanEncode value;
                huffLen = length huff
            in if huffLen > maxHuffLen then None
               else Some (hpackEncodeInteger huffLen 7 0x80 @ huff)))"

definition hpackDecodeString :: "bytes \<Rightarrow> nat \<Rightarrow> nat \<Rightarrow> bytes option \<times> nat" where
  "hpackDecodeString payload pos len =
     (if pos \<ge> len then (None, pos)
      else (let lenPos = pos;
                (strLen, pos) = hpackDecodeInteger payload pos 7 len;
                isHuffman = payload ! lenPos AND 0x80
            in if pos + strLen > len then (None, pos)
               else (let src = take strLen (drop pos payload)
                     in (Some (if isHuffman \<noteq> 0 then hpackHuffmanDecode src else src), pos + strLen))))"

section \<open>Integer round trip\<close>

lemma encodeTail_nonempty [simp]: "encodeTail v \<noteq> []"
  by (subst encodeTail.simps) simp

lemma length_encodeTail: "v < 2 ^ (7 * n) \<Longrightarrow> 0 < n \<Longrightarrow> length (encodeTail v) \<le> n"
proof (induction v arbitrary: n rule: encodeTail.induct)
  case (1 v)
  show ?case
  proof (cases "128 \<le> v")
    case True
    then obtain m where m: "n = Suc m" "0 < m"
      using "1.prems" by (cases n; cases "n - 1") auto
    then have "v div 128 < 2 ^ (7 * m)"
      using "1.prems"(1) by (simp add: less_mult_imp_div_less power_add mult.commute)
    from "1.IH" [OF True this m(2)] True m(1) show ?thesis by (subst encodeTail.simps) simp
  next
    case False
    then show ?thesis using "1.prems"(2) by (subst encodeTail.simps) simp
  qed
qed

lemma and_mask_byte: "w AND word_of_nat (2 ^ n - 1) = take_bit n (w :: byte)"
proof -
  have "word_of_nat (2 ^ n - 1) = (mask n :: byte)"
    by (simp add: mask_eq_exp_minus_1 of_nat_diff)
  then show ?thesis by (simp add: take_bit_eq_mask)
qed

lemma low7: "unat (w AND 0x7F :: byte) = unat w mod 128"
proof -
  have "w AND 0x7F = take_bit 7 w" using and_mask_byte [of w 7] by (simp del: take_bit_eq_mod)
  then show ?thesis by (simp only: unsigned_take_bit_eq) (simp add: take_bit_eq_mod)
qed

lemma unat_word_of_nat_byte [simp]: "unat (word_of_nat n :: byte) = n mod 256"
  by (simp add: unat_of_nat)

text \<open>What the encoder writes reads back: the low seven bits and the continuation bit.\<close>

lemma continuation_byte [simp]:
  "unat ((word_of_nat (v mod 128) OR 0x80) AND 0x7F :: byte) = v mod 128"
  "(word_of_nat (v mod 128) OR 0x80) AND 0x80 = (0x80 :: byte)"
proof -
  have "(word_of_nat (v mod 128) OR 0x80) AND 0x7F = (word_of_nat (v mod 128) AND 0x7F :: byte)"
    by (simp add: bit.conj_disj_distrib2)
  then show "unat ((word_of_nat (v mod 128) OR 0x80) AND 0x7F :: byte) = v mod 128"
    by (simp add: low7)
  show "(word_of_nat (v mod 128) OR 0x80) AND 0x80 = (0x80 :: byte)"
    by (metis bit.conj_disj_distrib2 and.commute and.idem or.commute word_ao_absorbs(1))
qed

lemma last_byte [simp]:
  "unat ((word_of_nat v AND 0x7F) AND 0x7F :: byte) = v mod 128"
  "(word_of_nat v AND 0x7F) AND 0x80 = (0 :: byte)"
  by (simp_all add: low7 mod_mod_cancel and.assoc)

lemma prefix_byte:
  assumes "prefix AND word_of_nat (2 ^ p - 1) = (0 :: byte)" "value < 2 ^ p" "p \<le> 8"
  shows "unat ((prefix OR word_of_nat value) AND word_of_nat (2 ^ p - 1)) = value"
proof -
  have "(2::nat) ^ p \<le> 2 ^ 8" using assms(3) by (intro power_increasing) auto
  then have "value < 256" using assms(2) by simp
  have "(prefix OR word_of_nat value) AND word_of_nat (2 ^ p - 1) = take_bit p (word_of_nat value)"
    using assms(1) unfolding and_mask_byte by (simp add: take_bit_or)
  then have "unat ((prefix OR word_of_nat value) AND word_of_nat (2 ^ p - 1)) = take_bit p (value mod 256)"
    by (simp add: unsigned_take_bit_eq)
  then show ?thesis using assms(2) \<open>value < 256\<close> by (simp add: take_bit_nat_eq_self)
qed

lemma decodeTail_encodeTail:
  "\<lbrakk>buf = pre @ encodeTail v @ rest; length pre + length (encodeTail v) \<le> bufLen;
    v < 2 ^ (35 - shift); shift \<in> {0, 7, 14, 21, 28}\<rbrakk> \<Longrightarrow>
   decodeTail buf bufLen (length pre) acc shift = (acc + v * 2 ^ shift, length pre + length (encodeTail v))"
proof (induction v arbitrary: pre acc shift rule: encodeTail.induct)
  case (1 v)
  show ?case
  proof (cases "128 \<le> v")
    case False
    then have e: "encodeTail v = [word_of_nat v AND 0x7F]" by (subst encodeTail.simps) simp
    from "1.prems" False show ?thesis
      by (subst decodeTail.simps) (auto simp: e nth_append Let_def low7)
  next
    case True
    define b :: byte where "b = word_of_nat (v mod 128) OR 0x80"
    have e: "encodeTail v = b # encodeTail (v div 128)"
      using True by (subst encodeTail.simps) (simp add: b_def)
    have sh: "shift \<noteq> 28" using "1.prems"(3) True by auto
    have le: "v div 128 < 2 ^ (35 - (shift + 7))"
      using "1.prems"(3,4) sh by (auto intro: less_mult_imp_div_less)
    have "decodeTail buf bufLen (length (pre @ [b])) (acc + (v mod 128) * 2 ^ shift) (shift + 7)
          = (acc + (v mod 128) * 2 ^ shift + v div 128 * 2 ^ (shift + 7), length (pre @ [b]) + length (encodeTail (v div 128)))"
      using "1.prems" sh le by (intro "1.IH" [OF True]) (auto simp: e)
    moreover have "(v mod 128) * 2 ^ shift + v div 128 * 2 ^ (shift + 7) = v * 2 ^ shift"
    proof -
      have "(v mod 128) * k + v div 128 * (k * 128) = (v mod 128 + v div 128 * 128) * k" for k
        by (simp only: add_mult_distrib mult.assoc mult.commute [of 128])
      then show ?thesis by (simp only: mod_div_mult_eq power_add) simp
    qed
    moreover have "\<not> shift + 7 > 28" using "1.prems"(4) sh by auto
    ultimately show ?thesis using "1.prems"
      by (subst decodeTail.simps) (simp add: e nth_append Let_def, simp add: b_def add.assoc)
  qed
qed


lemma hpackDecodeInteger_encode:
  assumes "prefix AND word_of_nat (2 ^ p - 1) = 0" "1 \<le> p" "p \<le> 8" "value < 2 ^ 35"
    "length pre + length (hpackEncodeInteger value p prefix) \<le> bufLen"
  shows "hpackDecodeInteger (pre @ hpackEncodeInteger value p prefix @ rest) (length pre) p bufLen
         = (value, length pre + length (hpackEncodeInteger value p prefix))"
proof (cases "value < 2 ^ p - 1")
  case True
  then have e: "hpackEncodeInteger value p prefix = [prefix OR word_of_nat value]"
    by (simp add: hpackEncodeInteger_def)
  have "unat ((prefix OR word_of_nat value) AND word_of_nat (2 ^ p - 1)) = value"
    using assms True by (intro prefix_byte) auto
  then show ?thesis using assms(5) True unfolding e hpackDecodeInteger_def Let_def
    by (simp add: nth_append)
next
  case False
  define m :: nat where "m = 2 ^ p - 1"
  have e: "hpackEncodeInteger value p prefix = (prefix OR word_of_nat m) # encodeTail (value - m)"
    using False by (simp add: hpackEncodeInteger_def Let_def m_def)
  have m: "unat ((prefix OR word_of_nat m) AND word_of_nat m) = m"
    using assms unfolding m_def by (intro prefix_byte) auto
  have "decodeTail ((pre @ [prefix OR word_of_nat m]) @ encodeTail (value - m) @ rest) bufLen
          (length (pre @ [prefix OR word_of_nat m])) m 0
        = (m + (value - m) * 2 ^ 0, length (pre @ [prefix OR word_of_nat m]) + length (encodeTail (value - m)))"
    using assms(4,5) by (intro decodeTail_encodeTail) (auto simp: e)
  moreover have "m \<le> value" using False by (simp add: m_def)
  ultimately show ?thesis
    using assms(5) m unfolding e hpackDecodeInteger_def Let_def m_def [symmetric]
    by (simp add: nth_append)
qed

text \<open>
  HPACK integers round-trip: reading, at its position in any buffer, what
  \<open>hpackEncodeInteger\<close> wrote with an \<open>N\<close>-bit prefix returns the value and stops right behind
  it, for every value below \<open>2 ^ 35\<close> and every prefix byte whose low \<open>N\<close> bits are clear.
\<close>

theorem hpack_integer_roundtrip:
  assumes "prefix AND word_of_nat (2 ^ p - 1) = 0" "1 \<le> p" "p \<le> 8" "value < 2 ^ 35"
    "length pre + length (hpackEncodeInteger value p prefix) \<le> bufLen"
  shows "hpackDecodeInteger (pre @ hpackEncodeInteger value p prefix @ rest) (length pre) p bufLen
         = (value, length pre + length (hpackEncodeInteger value p prefix))"
  using assms by (rule hpackDecodeInteger_encode)

text \<open>The example of RFC 7541, C.1.2: 1337 with a 5-bit prefix is \<open>1f 9a 0a\<close>.\<close>

lemma encode_1337: "hpackEncodeInteger 1337 5 0 = [0x1f, 0x9a, 0x0a]"
  by (simp add: hpackEncodeInteger_def encodeTail.simps)

lemma hpack_integer_roundtrip_witness:
  "hpackDecodeInteger ([0xff] @ [0x1f, 0x9a, 0x0a] @ [7]) 1 5 5 = (1337, 4)"
  using hpack_integer_roundtrip [of 0 5 1337 "[0xff]" 5 "[7]"] by (simp add: encode_1337)

section \<open>String round trip\<close>

lemma hpackEncodeInteger_flag:
  assumes "p = 7" "prefix \<in> {0, 0x80}"
  shows "hd (hpackEncodeInteger value p prefix) AND 0x80 = prefix"
proof -
  have w: "word_of_nat n AND 0x80 = (0 :: byte)" if "n < 128" for n
  proof -
    have "word_of_nat n = (take_bit 7 (word_of_nat n) :: byte)"
      using that by (simp add: take_bit_of_nat take_bit_nat_eq_self flip: of_nat_take_bit)
    then have "(word_of_nat n :: byte) = word_of_nat n AND 0x7F"
      using and_mask_byte [of "word_of_nat n" 7] by simp
    then have "(word_of_nat n AND 0x80 :: byte) = (word_of_nat n AND 0x7F) AND 0x80" by simp
    then show ?thesis by (simp only: last_byte)
  qed
  from assms(2) show ?thesis
    by (auto simp: hpackEncodeInteger_def assms(1) Let_def w bit.conj_disj_distrib2)
qed


lemma hpackDecodeString_encode:
  assumes "length src < 2 ^ 35" "flag \<in> {0, 0x80}"
  defines "e \<equiv> hpackEncodeInteger (length src) 7 flag @ src"
  shows "hpackDecodeString (pre @ e @ rest) (length pre) (length (pre @ e @ rest))
         = (Some (if flag = 0 then src else hpackHuffmanDecode src), length pre + length e)"
proof -
  let ?i = "hpackEncodeInteger (length src) 7 flag"
  have "flag AND word_of_nat (2 ^ 7 - 1) = 0" using assms(2) by auto
  then have i: "hpackDecodeInteger (pre @ ?i @ src @ rest) (length pre) 7 (length (pre @ e @ rest))
      = (length src, length pre + length ?i)"
    using assms(1) by (intro hpackDecodeInteger_encode) (auto simp: e_def)
  have ne: "?i \<noteq> []" by (simp add: hpackEncodeInteger_def Let_def)
  then have "(pre @ e @ rest) ! length pre = hd ?i"
    by (simp add: e_def nth_append hd_conv_nth)
  then have f: "(pre @ e @ rest) ! length pre AND 0x80 = flag"
    using hpackEncodeInteger_flag [of 7 flag "length src"] assms(2) by simp
  have eq: "pre @ e @ rest = pre @ ?i @ src @ rest" by (simp add: e_def)
  have "length pre < length (pre @ e @ rest)" using ne by (simp add: e_def)
  then show ?thesis
    using i f assms(2) unfolding hpackDecodeString_def Let_def eq by (auto simp: e_def)
qed

text \<open>
  String literals round-trip: what \<open>writeHuffmanValue\<close> writes for a text whose bytes have
  codes of at most 25 bits decodes to that text, and the read position ends right behind it.
\<close>

theorem hpack_string_roundtrip:
  assumes "writeHuffmanValue value = Some e" "list_all (\<lambda>c. snd (huffmanTable ! unat c) \<le> 25) value"
    "length value < 2 ^ 32"
  shows "hpackDecodeString (pre @ e @ rest) (length pre) (length (pre @ e @ rest))
         = (Some value, length pre + length e)"
proof -
  let ?h = "hpackHuffmanEncode value"
  have h: "hpackHuffmanDecode ?h = value" by (rule huffman_decode_encode [OF assms(2)])
  have "length ?h < 2 ^ 35" using huffman_length_bound [of "value"] assms(3) by simp
  then have "hpackDecodeString (pre @ (hpackEncodeInteger (length ?h) 7 0x80 @ ?h) @ rest) (length pre)
               (length (pre @ (hpackEncodeInteger (length ?h) 7 0x80 @ ?h) @ rest))
             = (Some value, length pre + length (hpackEncodeInteger (length ?h) 7 0x80 @ ?h))"
    using hpackDecodeString_encode [where src = ?h and flag = "0x80" and pre = pre and rest = rest] h by simp
  moreover have "e = hpackEncodeInteger (length ?h) 7 0x80 @ ?h"
    using assms(1) by (auto simp: writeHuffmanValue_def Let_def hpackEncodeInteger_def hpackHuffmanEncode_def padByte_def split: if_splits)
  ultimately show ?thesis by simp
qed

lemma writeHuffmanValue_short:
  "list_all (\<lambda>c. snd (huffmanTable ! unat c) \<le> 16) value \<Longrightarrow> \<exists>e. writeHuffmanValue value = Some e"
  using huffman_length_16 [of "value"] by (auto simp: writeHuffmanValue_def Let_def)

lemma hpack_string_roundtrip_witness:
  "\<exists>e. writeHuffmanValue [65, 60] = Some e \<and> hpackDecodeString ([1] @ e @ [2]) 1 (length e + 2) = (Some [65, 60], 1 + length e)"
proof -
  obtain e where "writeHuffmanValue [65, 60] = Some e"
    using writeHuffmanValue_short [of "[65, 60]"] by (auto simp: codeLen_samples)
  with hpack_string_roundtrip [of "[65, 60]" e "[1]" "[2]"] show ?thesis
    by (simp add: codeLen_samples)
qed

end
