(* ===== verification/HpackTable.thy ===== *)
theory HpackTable
  imports Errors HpackInt
begin

text \<open>
  The header tables of HPACK as the response side keeps them, \<open>src/Http2ResponseHandler.c\<close>:
  the static table, the dynamic table of \<open>HpackContext\<close> with its eviction and insertion, and
  the lookup \<open>getHeaderFromTable\<close> over both. The dynamic table is the list of the
  \<open>dynamicTableSize\<close> entries in use, newest first, as in the array.

  The abstract side is RFC 7541, sections 4.1 to 4.4: a size of name plus value plus 32 per
  entry, insertion that keeps the longest run of newest entries that fits.
\<close>

type_synonym header = "string \<times> string"

section \<open>The static table\<close>

definition responseHeaderStaticTable :: "header list" where
  "responseHeaderStaticTable =
    [('''', ''''),
     ('':authority'', ''''),
     ('':method'', ''GET''),
     ('':method'', ''POST''),
     ('':path'', ''/''),
     ('':path'', ''/index.html''),
     ('':scheme'', ''http''),
     ('':scheme'', ''https''),
     ('':status'', ''200''),
     ('':status'', ''204''),
     ('':status'', ''206''),
     ('':status'', ''304''),
     ('':status'', ''400''),
     ('':status'', ''404''),
     ('':status'', ''500''),
     (''accept-charset'', ''''),
     (''accept-encoding'', ''gzip, deflate''),
     (''accept-language'', ''''),
     (''accept-ranges'', ''''),
     (''accept'', ''''),
     (''access-control-allow-origin'', ''''),
     (''age'', ''''),
     (''allow'', ''''),
     (''authorization'', ''''),
     (''cache-control'', ''''),
     (''content-disposition'', ''''),
     (''content-encoding'', ''''),
     (''content-language'', ''''),
     (''content-length'', ''''),
     (''content-location'', ''''),
     (''content-range'', ''''),
     (''content-type'', ''''),
     (''cookie'', ''''),
     (''date'', ''''),
     (''etag'', ''''),
     (''expect'', ''''),
     (''expires'', ''''),
     (''from'', ''''),
     (''host'', ''''),
     (''if-match'', ''''),
     (''if-modified-since'', ''''),
     (''if-none-match'', ''''),
     (''if-range'', ''''),
     (''if-unmodified-since'', ''''),
     (''last-modified'', ''''),
     (''link'', ''''),
     (''location'', ''''),
     (''max-forwards'', ''''),
     (''proxy-authenticate'', ''''),
     (''proxy-authorization'', ''''),
     (''range'', ''''),
     (''referer'', ''''),
     (''refresh'', ''''),
     (''retry-after'', ''''),
     (''server'', ''''),
     (''set-cookie'', ''''),
     (''strict-transport-security'', ''''),
     (''transfer-encoding'', ''''),
     (''user-agent'', ''''),
     (''vary'', ''''),
     (''via'', ''''),
     (''www-authenticate'', '''')]"

lemma length_responseHeaderStaticTable [simp]: "length responseHeaderStaticTable = 62"
  by (simp add: responseHeaderStaticTable_def)

section \<open>The dynamic table\<close>

record HpackContext =
  dynamicTable :: "header list"
  dynamicTableCapacity :: nat
  dynamicTableMaxSize :: nat

definition hpackEntrySize :: "header \<Rightarrow> nat" where
  "hpackEntrySize e = length (fst e) + length (snd e) + 32"

definition hpackDynamicTableUsedSize :: "HpackContext \<Rightarrow> nat" where
  "hpackDynamicTableUsedSize ctx = sum_list (map hpackEntrySize (dynamicTable ctx))"

definition hpackEvictFromTail :: "HpackContext \<Rightarrow> HpackContext" where
  "hpackEvictFromTail ctx =
     (if dynamicTable ctx = [] then ctx else ctx\<lparr>dynamicTable := butlast (dynamicTable ctx)\<rparr>)"

text \<open>The loop that empties the table for an entry larger than the whole table.\<close>

function evictAll :: "HpackContext \<Rightarrow> HpackContext" where
  "evictAll ctx = (if length (dynamicTable ctx) > 0 then evictAll (hpackEvictFromTail ctx) else ctx)"
  by pat_completeness auto
termination by (relation "measure (\<lambda>ctx. length (dynamicTable ctx))") (auto simp: hpackEvictFromTail_def)

declare evictAll.simps [simp del]

text \<open>The loop that evicts until the new entry fits, with its running \<open>used\<close>.\<close>

function evictFor :: "nat \<Rightarrow> nat \<Rightarrow> HpackContext \<Rightarrow> HpackContext" where
  "evictFor entrySize used ctx =
     (if length (dynamicTable ctx) > 0 \<and> used + entrySize > dynamicTableMaxSize ctx
      then evictFor entrySize (used - hpackEntrySize (last (dynamicTable ctx))) (hpackEvictFromTail ctx)
      else ctx)"
  by pat_completeness auto
termination by (relation "measure (\<lambda>(entrySize, used, ctx). length (dynamicTable ctx))")
  (auto simp: hpackEvictFromTail_def)

declare evictFor.simps [simp del]

text \<open>The loop of a dynamic table size update, which recomputes the size in use every time.\<close>

function shrinkToMax :: "HpackContext \<Rightarrow> HpackContext" where
  "shrinkToMax ctx =
     (if length (dynamicTable ctx) > 0 \<and> hpackDynamicTableUsedSize ctx > dynamicTableMaxSize ctx
      then shrinkToMax (hpackEvictFromTail ctx) else ctx)"
  by pat_completeness auto
termination by (relation "measure (\<lambda>ctx. length (dynamicTable ctx))") (auto simp: hpackEvictFromTail_def)

declare shrinkToMax.simps [simp del]

text \<open>
  Insertion. \<open>alloc\<close> says whether the \<open>realloc\<close> of the table to a number of entries succeeds;
  the result carries the error the source stores in the stream (\<open>None\<close> leaves it alone).
\<close>

definition addToDynamicTable :: "(nat \<Rightarrow> bool) \<Rightarrow> HpackContext \<Rightarrow> header \<Rightarrow> error option \<times> HpackContext" where
  "addToDynamicTable alloc ctx e =
     (let entrySize = hpackEntrySize e in
      if entrySize > dynamicTableMaxSize ctx then (None, evictAll ctx)
      else (let ctx = evictFor entrySize (hpackDynamicTableUsedSize ctx) ctx;
                full = length (dynamicTable ctx) \<ge> dynamicTableCapacity ctx;
                newCapacity = (if dynamicTableCapacity ctx \<noteq> 0 then 2 * dynamicTableCapacity ctx else 8)
            in if full \<and> \<not> alloc newCapacity then (Some ERR_SYSTEM_MEMORY_ALLOCATION_FAILED, ctx)
               else (let ctx = (if full then ctx\<lparr>dynamicTableCapacity := newCapacity\<rparr> else ctx)
                     in (None, ctx\<lparr>dynamicTable := e # dynamicTable ctx\<rparr>))))"

definition getHeaderFromTable :: "nat \<Rightarrow> HpackContext \<Rightarrow> header" where
  "getHeaderFromTable index ctx =
     (let staticCount = length responseHeaderStaticTable in
      if index = 0 then ([], [])
      else if index \<le> staticCount - 1 then responseHeaderStaticTable ! index
      else (let dynamicIndex = index - (staticCount - 1) - 1
            in if dynamicIndex < length (dynamicTable ctx) then dynamicTable ctx ! dynamicIndex
               else (''error'', ''invalid index'')))"

section \<open>RFC 7541: the abstract table\<close>

text \<open>The longest run of newest entries whose sizes fit in \<open>m\<close>.\<close>

fun fitting :: "nat \<Rightarrow> header list \<Rightarrow> header list" where
  "fitting m [] = []"
| "fitting m (e # es) = (if hpackEntrySize e \<le> m then e # fitting (m - hpackEntrySize e) es else [])"

definition rfcInsert :: "nat \<Rightarrow> header \<Rightarrow> header list \<Rightarrow> header list" where
  "rfcInsert m e es = (if hpackEntrySize e \<le> m then e # fitting (m - hpackEntrySize e) es else [])"

definition tableSize :: "header list \<Rightarrow> nat" where
  "tableSize es = sum_list (map hpackEntrySize es)"

lemma tableSize_simps [simp]:
  "tableSize [] = 0"
  "tableSize (e # es) = hpackEntrySize e + tableSize es"
  "tableSize (es @ fs) = tableSize es + tableSize fs"
  by (simp_all add: tableSize_def)

lemma used_tableSize [simp]: "hpackDynamicTableUsedSize ctx = tableSize (dynamicTable ctx)"
  by (simp add: hpackDynamicTableUsedSize_def tableSize_def)

lemma hpackEntrySize_pos: "32 \<le> hpackEntrySize e"
  by (simp add: hpackEntrySize_def)

lemma tableSize_fitting: "tableSize (fitting m es) \<le> m"
  by (induction m es rule: fitting.induct) auto

lemma fitting_all: "tableSize es \<le> m \<Longrightarrow> fitting m es = es"
  by (induction m es rule: fitting.induct) auto

lemma fitting_butlast: "es \<noteq> [] \<Longrightarrow> m < tableSize es \<Longrightarrow> fitting m es = fitting m (butlast es)"
proof (induction m es rule: fitting.induct)
  case (2 m e es)
  then show ?case by (cases "es = []") auto
qed simp

lemma tableSize_butlast: "es \<noteq> [] \<Longrightarrow> tableSize (butlast es) = tableSize es - hpackEntrySize (last es)"
proof -
  assume "es \<noteq> []"
  then have "tableSize es = tableSize (butlast es @ [last es])" by simp
  also have "\<dots> = tableSize (butlast es) + hpackEntrySize (last es)"
    by (simp only: tableSize_simps)
  finally show ?thesis by simp
qed

lemma evictAll_empty: "evictAll ctx = ctx\<lparr>dynamicTable := []\<rparr>"
proof (induction ctx rule: evictAll.induct)
  case (1 ctx)
  then show ?case by (subst evictAll.simps) (auto simp: hpackEvictFromTail_def)
qed

lemma evictFor_fitting:
  "\<lbrakk>used = tableSize (dynamicTable ctx); entrySize \<le> dynamicTableMaxSize ctx\<rbrakk> \<Longrightarrow>
     evictFor entrySize used ctx
     = ctx\<lparr>dynamicTable := fitting (dynamicTableMaxSize ctx - entrySize) (dynamicTable ctx)\<rparr>"
proof (induction entrySize used ctx rule: evictFor.induct)
  case (1 entrySize used ctx)
  show ?case
  proof (cases "length (dynamicTable ctx) > 0 \<and> used + entrySize > dynamicTableMaxSize ctx")
    case True
    let ?ctx = "hpackEvictFromTail ctx"
    have "evictFor entrySize (used - hpackEntrySize (last (dynamicTable ctx))) ?ctx
          = ?ctx\<lparr>dynamicTable := fitting (dynamicTableMaxSize ?ctx - entrySize) (dynamicTable ?ctx)\<rparr>"
      using "1.prems" True by (intro "1.IH") (auto simp: hpackEvictFromTail_def tableSize_butlast)
    moreover have "fitting (dynamicTableMaxSize ctx - entrySize) (butlast (dynamicTable ctx))
                   = fitting (dynamicTableMaxSize ctx - entrySize) (dynamicTable ctx)"
      using True "1.prems" by (subst fitting_butlast [of "dynamicTable ctx"]) auto
    ultimately show ?thesis using True by (subst evictFor.simps) (simp add: hpackEvictFromTail_def)
  next
    case False
    then show ?thesis using "1.prems" by (subst evictFor.simps) (auto simp: fitting_all)
  qed
qed

lemma shrinkToMax_fitting:
  "shrinkToMax ctx = ctx\<lparr>dynamicTable := fitting (dynamicTableMaxSize ctx) (dynamicTable ctx)\<rparr>"
proof (induction ctx rule: shrinkToMax.induct)
  case (1 ctx)
  show ?case
  proof (cases "length (dynamicTable ctx) > 0 \<and> hpackDynamicTableUsedSize ctx > dynamicTableMaxSize ctx")
    case True
    then have "fitting (dynamicTableMaxSize ctx) (butlast (dynamicTable ctx))
               = fitting (dynamicTableMaxSize ctx) (dynamicTable ctx)"
      by (subst fitting_butlast [of "dynamicTable ctx"]) auto
    then show ?thesis using True 1 by (subst shrinkToMax.simps) (simp add: hpackEvictFromTail_def)
  next
    case False
    then show ?thesis by (subst shrinkToMax.simps) (auto simp: fitting_all)
  qed
qed

lemma addToDynamicTable_table:
  assumes "\<forall>n. alloc n"
  shows "fst (addToDynamicTable alloc ctx e) = None"
    "dynamicTable (snd (addToDynamicTable alloc ctx e)) = rfcInsert (dynamicTableMaxSize ctx) e (dynamicTable ctx)"
    "dynamicTableMaxSize (snd (addToDynamicTable alloc ctx e)) = dynamicTableMaxSize ctx"
  using assms by (auto simp: addToDynamicTable_def Let_def evictFor_fitting evictAll_empty rfcInsert_def)

text \<open>
  C10. The dynamic table implements RFC 7541, 4.4: when memory is available, inserting an entry
  leaves the new entry followed by the longest run of newest entries that fits beside it, and an
  entry larger than the table empties it; a size update keeps the longest run that fits.
\<close>

theorem dynamic_table_refines_rfc:
  assumes "\<forall>n. alloc n"
  shows "dynamicTable (snd (addToDynamicTable alloc ctx e)) = rfcInsert (dynamicTableMaxSize ctx) e (dynamicTable ctx)
    \<and> fst (addToDynamicTable alloc ctx e) = None
    \<and> dynamicTable (shrinkToMax ctx) = fitting (dynamicTableMaxSize ctx) (dynamicTable ctx)"
  using addToDynamicTable_table [OF assms, where ctx = ctx and e = e] by (simp add: shrinkToMax_fitting)

lemma dynamic_table_refines_rfc_witness:
  "dynamicTable (snd (addToDynamicTable (\<lambda>n. True)
      \<lparr>dynamicTable = [(''b'', ''2''), (''a'', ''1'')], dynamicTableCapacity = 8, dynamicTableMaxSize = 70\<rparr> (''c'', ''3'')))
   = [(''c'', ''3''), (''b'', ''2'')]"
  using dynamic_table_refines_rfc [where alloc = "\<lambda>n. True" and e = "(''c'', ''3'')" and
      ctx = "\<lparr>dynamicTable = [(''b'', ''2''), (''a'', ''1'')], dynamicTableCapacity = 8, dynamicTableMaxSize = 70\<rparr>"]
  by (simp add: rfcInsert_def hpackEntrySize_def)

section \<open>The size invariant\<close>

definition tableOk :: "HpackContext \<Rightarrow> bool" where
  "tableOk ctx \<longleftrightarrow> tableSize (dynamicTable ctx) \<le> dynamicTableMaxSize ctx
                  \<and> length (dynamicTable ctx) \<le> dynamicTableCapacity ctx"

lemma length_fitting: "length (fitting m es) \<le> length es"
  by (induction m es rule: fitting.induct) auto

lemma addToDynamicTable_ok: "tableOk ctx \<Longrightarrow> tableOk (snd (addToDynamicTable alloc ctx e))"
  using tableSize_fitting [of "dynamicTableMaxSize ctx - hpackEntrySize e" "dynamicTable ctx"]
    length_fitting [of "dynamicTableMaxSize ctx - hpackEntrySize e" "dynamicTable ctx"]
  by (auto simp: tableOk_def addToDynamicTable_def Let_def evictFor_fitting evictAll_empty)

lemma shrinkToMax_ok: "length (dynamicTable ctx) \<le> dynamicTableCapacity ctx \<Longrightarrow> tableOk (shrinkToMax ctx)"
  using tableSize_fitting [of "dynamicTableMaxSize ctx" "dynamicTable ctx"]
    length_fitting [of "dynamicTableMaxSize ctx" "dynamicTable ctx"]
  by (auto simp: tableOk_def shrinkToMax_fitting)

text \<open>
  The table never outgrows its limits: if the entries fit the advertised maximum and the
  allocated array, they still do after an insertion, whether or not memory was available.
\<close>

theorem dynamic_table_bounded:
  assumes "tableOk ctx"
  shows "tableOk (snd (addToDynamicTable alloc ctx e))
    \<and> 32 * length (dynamicTable (snd (addToDynamicTable alloc ctx e))) \<le> dynamicTableMaxSize ctx"
proof -
  have ok: "tableOk (snd (addToDynamicTable alloc ctx e))" using assms by (rule addToDynamicTable_ok)
  have "32 * length es \<le> tableSize es" for es
    using hpackEntrySize_pos by (induction es) (auto intro: add_mono)
  moreover have "dynamicTableMaxSize (snd (addToDynamicTable alloc ctx e)) = dynamicTableMaxSize ctx"
    by (auto simp: addToDynamicTable_def Let_def evictFor_fitting evictAll_empty)
  ultimately show ?thesis using ok unfolding tableOk_def by (metis order_trans)
qed

lemma dynamic_table_bounded_witness:
  "tableOk (snd (addToDynamicTable (\<lambda>n. False) \<lparr>dynamicTable = [(''a'', ''1'')], dynamicTableCapacity = 1,
      dynamicTableMaxSize = 4096\<rparr> (''b'', ''2'')))"
  using dynamic_table_bounded [of "\<lparr>dynamicTable = [(''a'', ''1'')], dynamicTableCapacity = 1,
      dynamicTableMaxSize = 4096\<rparr>" "\<lambda>n. False" "(''b'', ''2'')"]
  by (simp add: tableOk_def hpackEntrySize_def)

end
