(* ===== verification/Rfc7541.thy ===== *)
theory Rfc7541
  imports HpackInt HpackTable
begin

text \<open>
  The data and the primitive representations of RFC 7541, as the specification gives them and
  independently of the code: the static table (appendix A), the Huffman code (appendix B), integers
  (section 5.1) and strings (section 5.2). The lemmas say where the tables and encoders of
  \<open>src/CompressHandler.c\<close> and \<open>src/Http2ResponseHandler.c\<close> agree with them.
\<close>

section \<open>Appendix A: the static table\<close>

text \<open>The entries 1 to 61: those with a value, and names without one.\<close>

definition rfcStaticTable :: "header list" where
  "rfcStaticTable =
     [('':authority'', []), ('':method'', ''GET''), ('':method'', ''POST''), ('':path'', ''/''), ('':path'', ''/index.html''),
      ('':scheme'', ''http''), ('':scheme'', ''https''), ('':status'', ''200''), ('':status'', ''204''), ('':status'', ''206''),
      ('':status'', ''304''), ('':status'', ''400''), ('':status'', ''404''), ('':status'', ''500''), (''accept-charset'', []),
      (''accept-encoding'', ''gzip, deflate'')]
     @ map (\<lambda>name. (name, []))
         [''accept-language'', ''accept-ranges'', ''accept'', ''access-control-allow-origin'', ''age'', ''allow'',
          ''authorization'', ''cache-control'', ''content-disposition'', ''content-encoding'', ''content-language'',
          ''content-length'', ''content-location'', ''content-range'', ''content-type'', ''cookie'', ''date'', ''etag'',
          ''expect'', ''expires'', ''from'', ''host'', ''if-match'', ''if-modified-since'', ''if-none-match'', ''if-range'',
          ''if-unmodified-since'', ''last-modified'', ''link'', ''location'', ''max-forwards'', ''proxy-authenticate'',
          ''proxy-authorization'', ''range'', ''referer'', ''refresh'', ''retry-after'', ''server'', ''set-cookie'',
          ''strict-transport-security'', ''transfer-encoding'', ''user-agent'', ''vary'', ''via'', ''www-authenticate'']"

lemma static_table_rfc: "responseHeaderStaticTable = ([], []) # rfcStaticTable"
  by (simp add: responseHeaderStaticTable_def rfcStaticTable_def)

section \<open>Appendix B: the Huffman code\<close>

text \<open>Code and length of the symbols 0 to 255 and of EOS.\<close>

definition rfcHuffmanTable :: "(32 word \<times> nat) list" where
  "rfcHuffmanTable =
    [(0x1ff8, 13), (0x7fffd8, 23), (0xfffffe2, 28), (0xfffffe3, 28), (0xfffffe4, 28), (0xfffffe5, 28),
     (0xfffffe6, 28), (0xfffffe7, 28), (0xfffffe8, 28), (0xffffea, 24), (0x3ffffffc, 30), (0xfffffe9, 28),
     (0xfffffea, 28), (0x3ffffffd, 30), (0xfffffeb, 28), (0xfffffec, 28), (0xfffffed, 28), (0xfffffee, 28),
     (0xfffffef, 28), (0xffffff0, 28), (0xffffff1, 28), (0xffffff2, 28), (0x3ffffffe, 30), (0xffffff3, 28),
     (0xffffff4, 28), (0xffffff5, 28), (0xffffff6, 28), (0xffffff7, 28), (0xffffff8, 28), (0xffffff9, 28),
     (0xffffffa, 28), (0xffffffb, 28), (0x14, 6), (0x3f8, 10), (0x3f9, 10), (0xffa, 12),
     (0x1ff9, 13), (0x15, 6), (0xf8, 8), (0x7fa, 11), (0x3fa, 10), (0x3fb, 10),
     (0xf9, 8), (0x7fb, 11), (0xfa, 8), (0x16, 6), (0x17, 6), (0x18, 6),
     (0x0, 5), (0x1, 5), (0x2, 5), (0x19, 6), (0x1a, 6), (0x1b, 6),
     (0x1c, 6), (0x1d, 6), (0x1e, 6), (0x1f, 6), (0x5c, 7), (0xfb, 8),
     (0x7ffc, 15), (0x20, 6), (0xffb, 12), (0x3fc, 10), (0x1ffa, 13), (0x21, 6),
     (0x5d, 7), (0x5e, 7), (0x5f, 7), (0x60, 7), (0x61, 7), (0x62, 7),
     (0x63, 7), (0x64, 7), (0x65, 7), (0x66, 7), (0x67, 7), (0x68, 7),
     (0x69, 7), (0x6a, 7), (0x6b, 7), (0x6c, 7), (0x6d, 7), (0x6e, 7),
     (0x6f, 7), (0x70, 7), (0x71, 7), (0x72, 7), (0xfc, 8), (0x73, 7),
     (0xfd, 8), (0x1ffb, 13), (0x7fff0, 19), (0x1ffc, 13), (0x3ffc, 14), (0x22, 6),
     (0x7ffd, 15), (0x3, 5), (0x23, 6), (0x4, 5), (0x24, 6), (0x5, 5),
     (0x25, 6), (0x26, 6), (0x27, 6), (0x6, 5), (0x74, 7), (0x75, 7),
     (0x28, 6), (0x29, 6), (0x2a, 6), (0x7, 5), (0x2b, 6), (0x76, 7),
     (0x2c, 6), (0x8, 5), (0x9, 5), (0x2d, 6), (0x77, 7), (0x78, 7),
     (0x79, 7), (0x7a, 7), (0x7b, 7), (0x7ffe, 15), (0x7fc, 11), (0x3ffd, 14),
     (0x1ffd, 13), (0xffffffc, 28), (0xfffe6, 20), (0x3fffd2, 22), (0xfffe7, 20), (0xfffe8, 20),
     (0x3fffd3, 22), (0x3fffd4, 22), (0x3fffd5, 22), (0x7fffd9, 23), (0x3fffd6, 22), (0x7fffda, 23),
     (0x7fffdb, 23), (0x7fffdc, 23), (0x7fffdd, 23), (0x7fffde, 23), (0xffffeb, 24), (0x7fffdf, 23),
     (0xffffec, 24), (0xffffed, 24), (0x3fffd7, 22), (0x7fffe0, 23), (0xffffee, 24), (0x7fffe1, 23),
     (0x7fffe2, 23), (0x7fffe3, 23), (0x7fffe4, 23), (0x1fffdc, 21), (0x3fffd8, 22), (0x7fffe5, 23),
     (0x3fffd9, 22), (0x7fffe6, 23), (0x7fffe7, 23), (0xffffef, 24), (0x3fffda, 22), (0x1fffdd, 21),
     (0xfffe9, 20), (0x3fffdb, 22), (0x3fffdc, 22), (0x7fffe8, 23), (0x7fffe9, 23), (0x1fffde, 21),
     (0x7fffea, 23), (0x3fffdd, 22), (0x3fffde, 22), (0xfffff0, 24), (0x1fffdf, 21), (0x3fffdf, 22),
     (0x7fffeb, 23), (0x7fffec, 23), (0x1fffe0, 21), (0x1fffe1, 21), (0x3fffe0, 22), (0x1fffe2, 21),
     (0x7fffed, 23), (0x3fffe1, 22), (0x7fffee, 23), (0x7fffef, 23), (0xfffea, 20), (0x3fffe2, 22),
     (0x3fffe3, 22), (0x3fffe4, 22), (0x7ffff0, 23), (0x3fffe5, 22), (0x3fffe6, 22), (0x7ffff1, 23),
     (0x3ffffe0, 26), (0x3ffffe1, 26), (0xfffeb, 20), (0x7fff1, 19), (0x3fffe7, 22), (0x7ffff2, 23),
     (0x3fffe8, 22), (0x1ffffec, 25), (0x3ffffe2, 26), (0x3ffffe3, 26), (0x3ffffe4, 26), (0x7ffffde, 27),
     (0x7ffffdf, 27), (0x3ffffe5, 26), (0xfffff1, 24), (0x1ffffed, 25), (0x7fff2, 19), (0x1fffe3, 21),
     (0x3ffffe6, 26), (0x7ffffe0, 27), (0x7ffffe1, 27), (0x3ffffe7, 26), (0x7ffffe2, 27), (0xfffff2, 24),
     (0x1fffe4, 21), (0x1fffe5, 21), (0x3ffffe8, 26), (0x3ffffe9, 26), (0xffffffd, 28), (0x7ffffe3, 27),
     (0x7ffffe4, 27), (0x7ffffe5, 27), (0xfffec, 20), (0xfffff3, 24), (0xfffed, 20), (0x1fffe6, 21),
     (0x3fffe9, 22), (0x1fffe7, 21), (0x1fffe8, 21), (0x7ffff3, 23), (0x3fffea, 22), (0x3fffeb, 22),
     (0x1ffffee, 25), (0x1ffffef, 25), (0xfffff4, 24), (0xfffff5, 24), (0x3ffffea, 26), (0x7ffff4, 23),
     (0x3ffffeb, 26), (0x7ffffe6, 27), (0x3ffffec, 26), (0x3ffffed, 26), (0x7ffffe7, 27), (0x7ffffe8, 27),
     (0x7ffffe9, 27), (0x7ffffea, 27), (0x7ffffeb, 27), (0xffffffe, 28), (0x7ffffec, 27), (0x7ffffed, 27),
     (0x7ffffee, 27), (0x7ffffef, 27), (0x7fffff0, 27), (0x3ffffee, 26), (0x3fffffff, 30)]"

definition rfcCodeLen :: "byte \<Rightarrow> nat" where
  "rfcCodeLen c = snd (rfcHuffmanTable ! unat c)"

definition rfcCode :: "byte \<Rightarrow> bool list" where
  "rfcCode c = bitsOf (fst (rfcHuffmanTable ! unat c)) (rfcCodeLen c)"

text \<open>Octets of a sequence of bits, the last one filled with the bits of EOS, which are all ones.\<close>

function packBits :: "bool list \<Rightarrow> bytes" where
  "packBits bs =
     (if bs = [] then []
      else horner_sum of_bool 2 (rev (take 8 (bs @ replicate 7 True))) # packBits (drop 8 bs))"
  by pat_completeness auto
termination by (relation "measure length") auto

declare packBits.simps [simp del]

definition rfcHuffman :: "bytes \<Rightarrow> bytes" where
  "rfcHuffman s = packBits (concat (map rfcCode s))"

lemma drop_numeral: "drop (numeral k) (x # xs) = drop (pred_numeral k) xs"
  by (simp add: numeral_eq_Suc)

lemma rfc_front: "take 246 rfcHuffmanTable = take 246 huffmanTable"
  unfolding rfcHuffmanTable_def huffmanTable_def by (simp only: table_eval)

lemma rfc_late: "list_all (\<lambda>e. 25 < snd e) (drop 246 rfcHuffmanTable)"
  unfolding rfcHuffmanTable_def by (simp only: drop_numeral drop_0 pred_numeral_simps BitM.simps) simp

lemma length_rfcHuffmanTable: "length rfcHuffmanTable = 257"
  by (simp add: rfcHuffmanTable_def)

text \<open>The symbols with longer codes are not those of the code's table, or hidden behind one of its codes.\<close>

lemma rfc_code_agrees:
  assumes "rfcCodeLen c \<le> 25"
  shows "rfcCode c = codeOf c \<and> codeLen c \<le> 25"
proof -
  have "unat c < 246"
  proof (rule ccontr)
    assume "\<not> unat c < 246"
    then have "drop 246 rfcHuffmanTable ! (unat c - 246) = rfcHuffmanTable ! unat c" "unat c - 246 < length (drop 246 rfcHuffmanTable)"
      using unat_byte [of c] length_rfcHuffmanTable by simp_all
    then have "25 < rfcCodeLen c" using list_all_nth [OF rfc_late, of "unat c - 246"] by (simp add: rfcCodeLen_def)
    then show False using assms by simp
  qed
  then have "rfcHuffmanTable ! unat c = huffmanTable ! unat c" using rfc_front by (metis nth_take)
  then show ?thesis using assms by (simp add: rfcCode_def rfcCodeLen_def codeOf_def codeLen_def split: prod.split)
qed

lemma bitsOf_horner: "bitsOf (horner_sum of_bool 2 (rev bs) :: byte) 8 = bs" if "length bs = 8"
  using that by (intro nth_equalityI) (auto simp: bitsOf_def bit_horner_sum_bit_iff rev_nth)

lemma packBits_bits: "\<exists>k<8. bitsOfBytes (packBits bs) = bs @ replicate k True"
proof (induction bs rule: packBits.induct)
  case (1 bs)
  show ?case
  proof (cases "length bs < 8")
    case True
    then have "drop 8 bs = []" by simp
    moreover have "0 < length bs" if "bs \<noteq> []" using that by simp
    moreover have "bitsOf (horner_sum of_bool 2 (rev (take 8 (bs @ replicate 7 True))) :: byte) 8 = bs @ replicate (8 - length bs) True" if "bs \<noteq> []"
      using True that Suc_le_eq [of 0 "length bs"] by (subst bitsOf_horner) (auto simp: min_def)
    ultimately show ?thesis using True
      by (subst packBits.simps) (auto simp: packBits.simps [of "[]"] intro!: exI [of _ "if bs = [] then 0 else 8 - length bs"])
  next
    case False
    then have ne: "bs \<noteq> []" by auto
    obtain k where k: "k < 8" "bitsOfBytes (packBits (drop 8 bs)) = drop 8 bs @ replicate k True" using 1 ne by blast
    have "bitsOf (horner_sum of_bool 2 (rev (take 8 (bs @ replicate 7 True))) :: byte) 8 = take 8 bs"
      using False by (subst bitsOf_horner) auto
    then show ?thesis using k ne by (subst packBits.simps) (auto intro!: exI [of _ k] simp: append_assoc [symmetric] simp del: append_assoc)
  qed
qed

lemma bitsOf_inj: "bitsOf v 8 = bitsOf w 8 \<Longrightarrow> v = (w :: byte)"
proof (rule bit_word_eqI)
  fix n assume e: "bitsOf v 8 = bitsOf w 8" and "n < LENGTH(8)"
  then have "n \<in> set (rev [0..<8])" by simp
  then show "bit v n = bit w n" using e unfolding bitsOf_def map_eq_conv by blast
qed

lemma bitsOfBytes_inj: "bitsOfBytes bs = bitsOfBytes cs \<Longrightarrow> bs = cs"
proof (induction bs arbitrary: cs)
  case Nil
  then show ?case by (cases cs) (auto dest: arg_cong [of _ _ length])
next
  case (Cons b bs)
  then obtain c cs' where c: "cs = c # cs'" by (cases cs) (auto dest: arg_cong [of _ _ length])
  then show ?case using Cons bitsOf_inj by simp
qed

lemma length_bitsOfBytes: "length (bitsOfBytes bs) = 8 * length bs"
  by (induction bs) simp_all

text \<open>Within the symbols of at most 25 bits the encoder of the code is the RFC's.\<close>

lemma huffman_rfc: "list_all (\<lambda>c. rfcCodeLen c \<le> 25) s \<Longrightarrow> rfcHuffman s = hpackHuffmanEncode s"
proof -
  assume s: "list_all (\<lambda>c. rfcCodeLen c \<le> 25) s"
  then have "list_all (\<lambda>c. codeLen c \<le> 25) s" and c: "map rfcCode s = map codeOf s"
    using rfc_code_agrees by (auto simp: list_all_iff)
  then obtain k where k: "k < 8" "bitsOfBytes (hpackHuffmanEncode s) = concat (map codeOf s) @ replicate k True"
    using encodeLoop_bits [of s 0 0] by (auto simp: hpackHuffmanEncode_def bitsOf_def)
  obtain j where j: "j < 8" "bitsOfBytes (rfcHuffman s) = concat (map codeOf s) @ replicate j True"
    using packBits_bits [of "concat (map rfcCode s)"] c by (auto simp: rfcHuffman_def)
  have "8 * length (hpackHuffmanEncode s) = length (concat (map codeOf s)) + k"
    "8 * length (rfcHuffman s) = length (concat (map codeOf s)) + j"
    using k(2) j(2) by (simp_all flip: length_bitsOfBytes)
  then have "k = j" using k(1) j(1) by presburger
  then show ?thesis using k(2) j(2) bitsOfBytes_inj by simp
qed

section \<open>Section 5.1: integers\<close>

function rfcRest :: "nat \<Rightarrow> bytes" where
  "rfcRest i = (if 128 \<le> i then word_of_nat (i mod 128 + 128) # rfcRest (i div 128) else [word_of_nat i])"
  by pat_completeness auto
termination by (relation "measure id") auto

declare rfcRest.simps [simp del]

text \<open>With an \<open>N\<close>-bit prefix, behind the bits of \<open>flags\<close>.\<close>

definition rfcInteger :: "nat \<Rightarrow> nat \<Rightarrow> byte \<Rightarrow> bytes" where
  "rfcInteger i N flags =
     (if i < 2 ^ N - 1 then [flags + word_of_nat i]
      else (flags + word_of_nat (2 ^ N - 1)) # rfcRest (i - (2 ^ N - 1)))"

text \<open>A number below \<open>2 ^ N\<close> has no bit above the prefix, so adding the flags is setting their bits.\<close>

lemma low_word: "n < 2 ^ N \<Longrightarrow> (word_of_nat n :: byte) AND word_of_nat (2 ^ N - 1) = word_of_nat n"
  by (simp only: and_mask_byte) (simp add: take_bit_of_nat take_bit_nat_eq_self flip: of_nat_take_bit)

lemma add_flags:
  assumes "flags AND word_of_nat (2 ^ N - 1) = 0" "n < 2 ^ N"
  shows "flags + word_of_nat n = (flags OR word_of_nat n :: byte)"
proof -
  have "flags AND word_of_nat n = (flags AND word_of_nat (2 ^ N - 1)) AND word_of_nat n"
    by (simp only: and.assoc and.commute [of "word_of_nat (2 ^ N - 1)"] low_word [OF assms(2)])
  then have "flags AND word_of_nat n = 0" using assms(1) by simp
  then show ?thesis by (rule disjunctive_add_eq_or)
qed

lemma rfcRest_code: "rfcRest i = encodeTail i"
proof (induction i rule: rfcRest.induct)
  case (1 i)
  have "word_of_nat (i mod 128 + 128) = (word_of_nat (i mod 128) OR 0x80 :: byte)"
    using add_flags [of "0x80" 7 "i mod 128"] by (simp add: add.commute or.commute)
  moreover have "(word_of_nat i :: byte) AND 0x7F = word_of_nat i" if "i < 128"
    using that low7 [of "word_of_nat i"] by (intro word_unat_eq_iff [THEN iffD2]) simp
  ultimately show ?case using 1 by (subst rfcRest.simps, subst encodeTail.simps) simp
qed

lemma integer_rfc:
  assumes "flags AND word_of_nat (2 ^ N - 1) = 0"
  shows "rfcInteger i N flags = hpackEncodeInteger i N flags"
  using add_flags [OF assms, of i] add_flags [OF assms, of "2 ^ N - 1"]
  by (auto simp: rfcInteger_def hpackEncodeInteger_def Let_def rfcRest_code simp del: of_nat_diff)

section \<open>Section 5.2: strings\<close>

definition rfcString :: "bool \<Rightarrow> string \<Rightarrow> bytes" where
  "rfcString huff s =
     (let octets = (if huff then rfcHuffman (strBytes s) else strBytes s)
      in rfcInteger (length octets) 7 (if huff then 0x80 else 0) @ octets)"

text \<open>The example of C.4.2.\<close>

lemma rfc_example: "rfcHuffman (strBytes ''no-cache'') = [0xa8, 0xeb, 0x10, 0x64, 0x9c, 0xbf]"
proof -
  have t: "rfcHuffmanTable ! 110 = (0x2a, 6)" "rfcHuffmanTable ! 111 = (0x7, 5)" "rfcHuffmanTable ! 45 = (0x16, 6)"
    "rfcHuffmanTable ! 99 = (0x4, 5)" "rfcHuffmanTable ! 97 = (0x3, 5)" "rfcHuffmanTable ! 104 = (0x27, 6)" "rfcHuffmanTable ! 101 = (0x5, 5)"
    by (simp_all add: rfcHuffmanTable_def)
  have r: "replicate 5 True = [True, True, True, True, True]" by (simp add: numeral_eq_Suc)
  show ?thesis
    by (simp add: r rfcHuffman_def rfcCode_def rfcCodeLen_def byteOfChar_def t bitsOf_def upt_rec packBits.simps)
qed

end
