(* ===== verification/HpackDecode.thy ===== *)
theory HpackDecode
  imports Rfc7541 HpackTable
begin

text \<open>
  The header block decoder \<open>decodeHeadersFrame\<close> of \<open>src/Http2ResponseHandler.c\<close>: it walks
  the block from left to right, keeps the dynamic table of the connection in step with the
  peer's encoder and stores at most \<open>RESPONSE_HEADERS_MAX_SIZE\<close> header fields.

  The abstract side is the instruction set of RFC 7541, section 6, with its effect on the
  table and the header list, over the tables and representations of \<open>Rfc7541\<close>. The wire forms an
  encoder may choose are given twice: by the RFC's encoders and by those of the code, which agree
  where the code's Huffman table is the RFC's.
\<close>

definition RESPONSE_HEADERS_MAX_SIZE :: nat where "RESPONSE_HEADERS_MAX_SIZE = 64"

text \<open>
  What the decoder reads and writes: the connection's context, \<open>stream->headers\<close> (\<open>None\<close> is
  the null pointer of a scratch stream; the list holds the first \<open>numHeaders\<close> entries) and
  \<open>stream->error\<close>.
\<close>

record decoding =
  dc_ctx :: HpackContext
  dc_headers :: "header list option"
  dc_error :: error

definition decodingFailed :: "decoding \<Rightarrow> decoding" where
  "decodingFailed d = d\<lparr>dc_error := ERR_RESPONSE_DECODING_HEADERS_FRAME_FAILED\<rparr>"

section \<open>One header field\<close>

text \<open>Dynamic table size update, \<open>001xxxxx\<close>.\<close>

definition decodeSizeUpdate :: "bytes \<Rightarrow> nat \<Rightarrow> nat \<Rightarrow> decoding \<Rightarrow> decoding \<times> nat" where
  "decodeSizeUpdate payload pos len d =
     (let (maxSize, pos) = hpackDecodeInteger payload pos 5 len
      in (d\<lparr>dc_ctx := shrinkToMax ((dc_ctx d)\<lparr>dynamicTableMaxSize := maxSize\<rparr>)\<rparr>, pos))"

text \<open>Indexed field, \<open>1xxxxxxx\<close>: \<open>None\<close> is the \<open>continue\<close> of an invalid index.\<close>

definition decodeIndexed :: "bytes \<Rightarrow> nat \<Rightarrow> nat \<Rightarrow> decoding \<Rightarrow> header option \<times> nat" where
  "decodeIndexed payload pos len d =
     (let (index, pos) = hpackDecodeInteger payload pos 7 len;
          staticTableCount = length responseHeaderStaticTable
      in if index = 0 then (None, pos)
         else if index \<ge> staticTableCount
                 \<and> index - (staticTableCount - 1) - 1 \<ge> length (dynamicTable (dc_ctx d)) then (None, pos)
         else (Some (getHeaderFromTable index (dc_ctx d)), pos))"

text \<open>Literal field with an indexed or literal name and a literal value: \<open>None\<close> is the \<open>break\<close>.\<close>

definition decodeLiteral :: "nat \<Rightarrow> bytes \<Rightarrow> nat \<Rightarrow> nat \<Rightarrow> decoding \<Rightarrow> header option \<times> nat" where
  "decodeLiteral prefixSize payload pos len d =
     (let (index, pos) = hpackDecodeInteger payload pos prefixSize len;
          (name, pos) = (if index > 0 then (Some (fst (getHeaderFromTable index (dc_ctx d))), pos)
                         else (let (s, pos) = hpackDecodeString payload pos len in (map_option cstr s, pos)))
      in case name of
           None \<Rightarrow> (None, pos)
         | Some name \<Rightarrow>
             (let (s, pos) = hpackDecodeString payload pos len
              in case s of
                   None \<Rightarrow> (None, pos)
                 | Some v \<Rightarrow> (Some (name, cstr v), pos)))"

text \<open>Insertion into the dynamic table; an allocation failure sets the stream's error.\<close>

definition addHeader :: "(nat \<Rightarrow> bool) \<Rightarrow> header \<Rightarrow> decoding \<Rightarrow> decoding" where
  "addHeader alloc h d =
     (case addToDynamicTable alloc (dc_ctx d) h of
        (None, ctx) \<Rightarrow> d\<lparr>dc_ctx := ctx\<rparr>
      | (Some e, ctx) \<Rightarrow> d\<lparr>dc_ctx := ctx, dc_error := e\<rparr>)"

text \<open>Storing the field in the stream: \<open>False\<close> is the \<open>break\<close> at the limit.\<close>

definition storeHeader :: "header \<Rightarrow> decoding \<Rightarrow> decoding \<times> bool" where
  "storeHeader h d =
     (case dc_headers d of
        None \<Rightarrow> (d, True)
      | Some hs \<Rightarrow> if length hs < RESPONSE_HEADERS_MAX_SIZE then (d\<lparr>dc_headers := Some (hs @ [h])\<rparr>, True)
                   else (d, False))"

text \<open>One iteration: the new state, the new position and whether the loop goes on.\<close>

definition decodeField :: "(nat \<Rightarrow> bool) \<Rightarrow> bytes \<Rightarrow> nat \<Rightarrow> nat \<Rightarrow> decoding \<Rightarrow> decoding \<times> nat \<times> bool" where
  "decodeField alloc payload pos len d =
     (let firstByte = payload ! pos in
      if firstByte AND 0xE0 = 0x20 then
        (let (d, pos) = decodeSizeUpdate payload pos len d in (d, pos, True))
      else if firstByte AND 0x80 \<noteq> 0 then
        (case decodeIndexed payload pos len d of
           (None, pos) \<Rightarrow> (decodingFailed d, pos, True)
         | (Some h, pos) \<Rightarrow> (let (d, go) = storeHeader h d in (d, pos, go)))
      else if firstByte AND 0x40 \<noteq> 0 then
        (case decodeLiteral 6 payload pos len d of
           (None, pos) \<Rightarrow> (decodingFailed d, pos, False)
         | (Some h, pos) \<Rightarrow> (let (d, go) = storeHeader h (addHeader alloc h d) in (d, pos, go)))
      else
        (case decodeLiteral 4 payload pos len d of
           (None, pos) \<Rightarrow> (decodingFailed d, pos, False)
         | (Some h, pos) \<Rightarrow> (let (d, go) = storeHeader h d in (d, pos, go))))"

section \<open>The loop\<close>

lemma decodeTail_pos: "pos \<le> snd (decodeTail buf bufLen pos value shift)"
proof (induction buf bufLen pos "value" shift rule: decodeTail.induct)
  case (1 buf bufLen pos val shift)
  then show ?case by (subst decodeTail.simps) (auto simp: Let_def intro: Suc_leD)
qed

lemma hpackDecodeInteger_pos:
  "pos < bufLen \<Longrightarrow> pos < snd (hpackDecodeInteger buf pos prefixSize bufLen)"
  using decodeTail_pos [of "pos + 1" buf bufLen] by (auto simp: hpackDecodeInteger_def Let_def Suc_le_lessD)

lemma hpackDecodeInteger_pos_le: "pos \<le> snd (hpackDecodeInteger buf pos prefixSize bufLen)"
  using hpackDecodeInteger_pos [of pos bufLen buf prefixSize]
  by (cases "pos < bufLen") (auto simp: hpackDecodeInteger_def)

lemma hpackDecodeString_pos: "pos \<le> snd (hpackDecodeString payload pos len)"
  using hpackDecodeInteger_pos_le [of pos payload 7 len]
  by (auto simp: hpackDecodeString_def Let_def split: prod.splits)

lemma decodeSizeUpdate_pos: "pos < len \<Longrightarrow> pos < snd (decodeSizeUpdate payload pos len d)"
  using hpackDecodeInteger_pos [of pos len payload 5]
  by (cases "hpackDecodeInteger payload pos 5 len") (simp add: decodeSizeUpdate_def)

lemma decodeIndexed_pos: "pos < len \<Longrightarrow> pos < snd (decodeIndexed payload pos len d)"
  using hpackDecodeInteger_pos [of pos len payload 7]
  by (cases "hpackDecodeInteger payload pos 7 len") (simp add: decodeIndexed_def Let_def)

lemma decodeLiteral_pos: "pos < len \<Longrightarrow> pos < snd (decodeLiteral prefixSize payload pos len d)"
proof -
  assume "pos < len"
  then have i: "pos < snd (hpackDecodeInteger payload pos prefixSize len)"
    by (rule hpackDecodeInteger_pos)
  obtain index p where ip: "hpackDecodeInteger payload pos prefixSize len = (index, p)" by fastforce
  obtain n q where nq: "hpackDecodeString payload p len = (n, q)" by fastforce
  obtain v r where vr: "hpackDecodeString payload q len = (v, r)" by fastforce
  have "p \<le> q" "q \<le> r"
    using hpackDecodeString_pos [of p payload len] hpackDecodeString_pos [of q payload len] nq vr by auto
  then show ?thesis using i ip nq vr
    by (auto simp: decodeLiteral_def Let_def split: option.splits)
qed

lemma decodeField_pos:
  assumes "pos < len" shows "pos < fst (snd (decodeField alloc payload pos len d))"
proof -
  have "pos < snd (decodeSizeUpdate payload pos len d)" "pos < snd (decodeIndexed payload pos len d)"
    "pos < snd (decodeLiteral k payload pos len d)" for k
    using assms decodeSizeUpdate_pos decodeIndexed_pos decodeLiteral_pos by auto
  then show ?thesis
    by (auto simp: decodeField_def Let_def split: prod.splits option.splits) (metis snd_conv)+
qed

function decodeFields :: "(nat \<Rightarrow> bool) \<Rightarrow> bytes \<Rightarrow> nat \<Rightarrow> nat \<Rightarrow> decoding \<Rightarrow> decoding" where
  "decodeFields alloc payload pos len d =
     (if pos < len
      then (case decodeField alloc payload pos len d of
              (d, pos', go) \<Rightarrow> if go then decodeFields alloc payload pos' len d else d)
      else d)"
  by pat_completeness auto
termination
proof (relation "measure (\<lambda>(alloc, payload, pos, len, d). len - pos)", goal_cases)
  case (2 alloc payload pos len d x y pos' go)
  then show ?case using decodeField_pos [of pos len alloc payload d] by (cases y) (auto dest!: sym [of "(_, _)"])
qed simp

declare decodeFields.simps [simp del]

text \<open>
  The decoder on a block of \<open>length payload\<close> bytes. It starts by resetting \<open>numHeaders\<close>.
\<close>

definition decodeHeadersFrame :: "(nat \<Rightarrow> bool) \<Rightarrow> bytes \<Rightarrow> decoding \<Rightarrow> decoding" where
  "decodeHeadersFrame alloc payload d =
     (if payload = [] then d
      else decodeFields alloc payload 0 (length payload)
             (d\<lparr>dc_headers := map_option (\<lambda>_. []) (dc_headers d)\<rparr>))"

section \<open>RFC 7541: instructions\<close>

datatype indexing = Incremental | WithoutIndexing | NeverIndexed

datatype hname = NameIndex nat | NameLiteral string

datatype hinstr = SizeUpdate nat | Indexed nat | Literal indexing hname string

text \<open>The decoder state of the RFC: the maximum size and the dynamic table.\<close>

type_synonym rfcState = "nat \<times> header list"

definition rfcLookup :: "header list \<Rightarrow> nat \<Rightarrow> header option" where
  "rfcLookup t i =
     (if i = 0 then None
      else if i \<le> 61 then Some (rfcStaticTable ! (i - 1))
      else if i - 62 < length t then Some (t ! (i - 62)) else None)"

lemma rfcLookup_code:
  "rfcLookup t i =
     (if i = 0 then None
      else if i \<le> 61 then Some (responseHeaderStaticTable ! i)
      else if i - 62 < length t then Some (t ! (i - 62)) else None)"
  by (simp add: rfcLookup_def static_table_rfc)

fun rfcName :: "header list \<Rightarrow> hname \<Rightarrow> string option" where
  "rfcName t (NameIndex i) = map_option fst (rfcLookup t i)"
| "rfcName t (NameLiteral n) = Some n"

fun rfcStep :: "hinstr \<Rightarrow> rfcState \<Rightarrow> (rfcState \<times> header list) option" where
  "rfcStep (SizeUpdate n) (m, t) = Some ((n, fitting n t), [])"
| "rfcStep (Indexed i) (m, t) = map_option (\<lambda>h. ((m, t), [h])) (rfcLookup t i)"
| "rfcStep (Literal ix nm v) (m, t) =
     map_option (\<lambda>n. ((m, if ix = Incremental then rfcInsert m (n, v) t else t), [(n, v)])) (rfcName t nm)"

fun rfcRun :: "hinstr list \<Rightarrow> rfcState \<Rightarrow> (rfcState \<times> header list) option" where
  "rfcRun [] st = Some (st, [])"
| "rfcRun (i # ins) st =
     (case rfcStep i st of
        None \<Rightarrow> None
      | Some (st, hs) \<Rightarrow> map_option (\<lambda>(st, hs'). (st, hs @ hs')) (rfcRun ins st))"

text \<open>
  The wire form of an instruction: the encoder is free to Huffman-code a literal name and a
  literal value, which the two flags say.
\<close>

fun rfcNameWire :: "bool \<Rightarrow> nat \<Rightarrow> byte \<Rightarrow> hname \<Rightarrow> bytes" where
  "rfcNameWire huff N flags (NameIndex i) = rfcInteger i N flags"
| "rfcNameWire huff N flags (NameLiteral n) = rfcInteger 0 N flags @ rfcString huff n"

fun rfcWire :: "bool \<times> bool \<Rightarrow> hinstr \<Rightarrow> bytes" where
  "rfcWire f (SizeUpdate n) = rfcInteger n 5 0x20"
| "rfcWire f (Indexed i) = rfcInteger i 7 0x80"
| "rfcWire (hn, hv) (Literal Incremental nm v) = rfcNameWire hn 6 0x40 nm @ rfcString hv v"
| "rfcWire (hn, hv) (Literal WithoutIndexing nm v) = rfcNameWire hn 4 0x00 nm @ rfcString hv v"
| "rfcWire (hn, hv) (Literal NeverIndexed nm v) = rfcNameWire hn 4 0x10 nm @ rfcString hv v"

definition rfcBlock :: "((bool \<times> bool) \<times> hinstr) list \<Rightarrow> bytes" where
  "rfcBlock ins = concat (map (\<lambda>(f, i). rfcWire f i) ins)"

text \<open>
  What the decoder can take: C strings, whose symbols have RFC codes of at most 25 bits where they
  are Huffman-coded, and numbers of at most 35 bits.
\<close>

definition rfcStringOk :: "bool \<Rightarrow> string \<Rightarrow> bool" where
  "rfcStringOk huff s \<longleftrightarrow> isCStr s \<and> length s < 2 ^ 32 \<and> (huff \<longrightarrow> list_all (\<lambda>c. rfcCodeLen c \<le> 25) (strBytes s))"

fun rfcNameOk :: "bool \<Rightarrow> hname \<Rightarrow> bool" where
  "rfcNameOk huff (NameIndex i) = (0 < i \<and> i < 2 ^ 35)"
| "rfcNameOk huff (NameLiteral n) = rfcStringOk huff n"

fun rfcOk :: "bool \<times> bool \<Rightarrow> hinstr \<Rightarrow> bool" where
  "rfcOk f (SizeUpdate n) = (n < 2 ^ 35)"
| "rfcOk f (Indexed i) = (i < 2 ^ 35)"
| "rfcOk (hn, hv) (Literal ix nm v) = (rfcNameOk hn nm \<and> rfcStringOk hv v)"

text \<open>The same with the encoders of the code.\<close>

definition wireString :: "bool \<Rightarrow> string \<Rightarrow> bytes" where
  "wireString huff s =
     (let src = (if huff then hpackHuffmanEncode (strBytes s) else strBytes s)
      in hpackEncodeInteger (length src) 7 (if huff then 0x80 else 0) @ src)"

fun wireName :: "bool \<Rightarrow> nat \<Rightarrow> byte \<Rightarrow> hname \<Rightarrow> bytes" where
  "wireName huff p prefix (NameIndex i) = hpackEncodeInteger i p prefix"
| "wireName huff p prefix (NameLiteral n) = hpackEncodeInteger 0 p prefix @ wireString huff n"

fun wireInstr :: "bool \<times> bool \<Rightarrow> hinstr \<Rightarrow> bytes" where
  "wireInstr f (SizeUpdate n) = hpackEncodeInteger n 5 0x20"
| "wireInstr f (Indexed i) = hpackEncodeInteger i 7 0x80"
| "wireInstr (hn, hv) (Literal Incremental nm v) = wireName hn 6 0x40 nm @ wireString hv v"
| "wireInstr (hn, hv) (Literal WithoutIndexing nm v) = wireName hn 4 0x00 nm @ wireString hv v"
| "wireInstr (hn, hv) (Literal NeverIndexed nm v) = wireName hn 4 0x10 nm @ wireString hv v"

text \<open>
  What a wire form can carry: C strings whose bytes have codes of at most 25 bits where they
  are Huffman-coded, and numbers of at most 35 bits.
\<close>

definition wireStringOk :: "bool \<Rightarrow> string \<Rightarrow> bool" where
  "wireStringOk huff s \<longleftrightarrow> isCStr s \<and> length s < 2 ^ 32
     \<and> (huff \<longrightarrow> list_all (\<lambda>c. snd (huffmanTable ! unat c) \<le> 25) (strBytes s))"

fun wireNameOk :: "bool \<Rightarrow> hname \<Rightarrow> bool" where
  "wireNameOk huff (NameIndex i) = (0 < i \<and> i < 2 ^ 35)"
| "wireNameOk huff (NameLiteral n) = wireStringOk huff n"

fun wireOk :: "bool \<times> bool \<Rightarrow> hinstr \<Rightarrow> bool" where
  "wireOk f (SizeUpdate n) = (n < 2 ^ 35)"
| "wireOk f (Indexed i) = (i < 2 ^ 35)"
| "wireOk (hn, hv) (Literal ix nm v) = (wireNameOk hn nm \<and> wireStringOk hv v)"

section \<open>The decoder on wire forms\<close>

lemma hpackEncodeInteger_ne [simp]: "hpackEncodeInteger v p prefix \<noteq> []"
  by (simp add: hpackEncodeInteger_def Let_def)

lemma hpackEncodeInteger_hd:
  assumes "m AND mask p = (0 :: byte)"
  shows "hd (hpackEncodeInteger v p prefix) AND m = prefix AND m"
proof -
  have "word_of_nat n AND m = (0 :: byte)" if "n < 2 ^ p" for n
  proof -
    have "word_of_nat n = (take_bit p (word_of_nat n) :: byte)"
      using that by (simp add: take_bit_of_nat take_bit_nat_eq_self flip: of_nat_take_bit)
    then have "(word_of_nat n :: byte) AND m = (word_of_nat n AND mask p) AND m"
      by (simp only: take_bit_eq_mask)
    also have "\<dots> = word_of_nat n AND (m AND mask p)" by (simp add: and.assoc and.commute and.left_commute)
    finally show ?thesis using assms by simp
  qed
  then have k: "(prefix OR word_of_nat n) AND m = prefix AND m" if "n < 2 ^ p" for n
    using that by (simp add: bit.conj_disj_distrib2)
  have "(prefix OR word_of_nat (2 ^ p - 1)) AND m = prefix AND m"
    by (rule k) simp
  moreover have "(prefix OR word_of_nat v) AND m = prefix AND m" if "v < 2 ^ p - 1"
    by (rule k) (use that in simp)
  ultimately show ?thesis unfolding hpackEncodeInteger_def Let_def by (auto simp del: of_nat_diff)
qed

lemma nth_hd: "e \<noteq> [] \<Longrightarrow> (pre @ e @ rest) ! length pre = hd e"
  by (simp add: nth_append hd_conv_nth)

lemma byte_masks:
  "(0x80 :: byte) AND mask 7 = 0" "(0xE0 :: byte) AND mask 5 = 0" "(0x80 :: byte) AND mask 6 = 0"
  "(0x40 :: byte) AND mask 6 = 0" "(0x80 :: byte) AND mask 4 = 0" "(0x40 :: byte) AND mask 4 = 0"
  "(0xE0 :: byte) AND mask 4 = 0"
  by (simp_all add: mask_eq_exp_minus_1)

lemma high_bits: "b AND 0xE0 = 0x20 \<Longrightarrow> b AND 0x80 = (0 :: byte) \<and> b AND 0x40 = 0"
proof -
  assume b: "b AND 0xE0 = 0x20"
  have "b AND 0x80 = (b AND 0xE0) AND 0x80" "b AND 0x40 = (b AND 0xE0) AND 0x40"
    by (simp_all add: and.assoc)
  then show ?thesis using b by simp
qed

lemma cstr_strBytes_wire:
  assumes "wireStringOk huff s"
  shows "\<exists>v. hpackDecodeString (pre @ wireString huff s @ rest) (length pre) (length (pre @ wireString huff s @ rest))
         = (Some v, length pre + length (wireString huff s)) \<and> cstr v = s"
proof -
  define src where "src = (if huff then hpackHuffmanEncode (strBytes s) else strBytes s)"
  have "length src \<le> 4 * length s"
    using huffman_length_bound [of "strBytes s"] by (simp add: src_def)
  then have len: "length src < 2 ^ 35" using assms by (simp add: wireStringOk_def)
  have w: "wireString huff s = hpackEncodeInteger (length src) 7 (if huff then 0x80 else 0) @ src"
    by (simp add: wireString_def src_def Let_def)
  have d: "(if (if huff then 0x80 else 0 :: byte) = 0 then src else hpackHuffmanDecode src) = strBytes s"
    using assms by (auto simp: src_def wireStringOk_def huffman_decode_encode)
  have "cstr (strBytes s) = s" using assms by (simp add: wireStringOk_def cstr_strBytes)
  with hpackDecodeString_encode [where src = src and flag = "if huff then 0x80 else 0" and pre = pre and rest = rest]
    len d show ?thesis by (simp add: w)
qed

lemma prefix_masks:
  "(0x20 :: byte) AND word_of_nat (2 ^ 5 - 1) = 0" "(0x80 :: byte) AND word_of_nat (2 ^ 7 - 1) = 0"
  "(0x40 :: byte) AND word_of_nat (2 ^ 6 - 1) = 0" "(0x00 :: byte) AND word_of_nat (2 ^ 4 - 1) = 0"
  "(0x10 :: byte) AND word_of_nat (2 ^ 4 - 1) = 0"
  by simp_all

lemma getHeaderFromTable_rfc: "rfcLookup (dynamicTable ctx) i = Some h \<Longrightarrow> getHeaderFromTable i ctx = h"
  by (auto simp: rfcLookup_code getHeaderFromTable_def Let_def split: if_splits)

lemma decodeLiteral_wire:
  assumes p: "prefix AND word_of_nat (2 ^ p - 1) = 0" "1 \<le> p" "p \<le> 8"
    and ok: "wireNameOk hn nm" "wireStringOk hv v"
    and n: "rfcName (dynamicTable (dc_ctx d)) nm = Some n"
  defines "e \<equiv> wireName hn p prefix nm @ wireString hv v"
  shows "decodeLiteral p (pre @ e @ rest) (length pre) (length (pre @ e @ rest)) d
         = (Some (n, v), length pre + length e)"
proof (cases nm)
  case (NameIndex i)
  let ?i = "hpackEncodeInteger i p prefix"
  have i: "hpackDecodeInteger (pre @ ?i @ wireString hv v @ rest) (length pre) p (length (pre @ e @ rest))
      = (i, length pre + length ?i)"
    using p ok NameIndex by (intro hpackDecodeInteger_encode) (auto simp: e_def)
  obtain w where w: "hpackDecodeString ((pre @ ?i) @ wireString hv v @ rest) (length (pre @ ?i))
      (length ((pre @ ?i) @ wireString hv v @ rest)) = (Some w, length (pre @ ?i) + length (wireString hv v))"
    "cstr w = v"
    using cstr_strBytes_wire [OF ok(2)] by blast
  have "fst (getHeaderFromTable i (dc_ctx d)) = n"
    using n NameIndex by (auto dest: getHeaderFromTable_rfc)
  then show ?thesis using i w ok(1) NameIndex by (simp add: decodeLiteral_def e_def)
next
  case (NameLiteral n')
  let ?i = "hpackEncodeInteger 0 p prefix"
  have n': "n' = n" using n NameLiteral by simp
  have i: "hpackDecodeInteger (pre @ ?i @ wireString hn n @ wireString hv v @ rest) (length pre) p (length (pre @ e @ rest))
      = (0, length pre + length ?i)"
    using p NameLiteral n' by (intro hpackDecodeInteger_encode) (auto simp: e_def)
  have okn: "wireStringOk hn n" using ok(1) NameLiteral n' by simp
  obtain u where u: "hpackDecodeString ((pre @ ?i) @ wireString hn n @ wireString hv v @ rest) (length (pre @ ?i))
      (length ((pre @ ?i) @ wireString hn n @ wireString hv v @ rest)) = (Some u, length (pre @ ?i) + length (wireString hn n))"
    "cstr u = n"
    using cstr_strBytes_wire [OF okn] by blast
  obtain w where w: "hpackDecodeString ((pre @ ?i @ wireString hn n) @ wireString hv v @ rest) (length (pre @ ?i @ wireString hn n))
      (length ((pre @ ?i @ wireString hn n) @ wireString hv v @ rest))
      = (Some w, length (pre @ ?i @ wireString hn n) + length (wireString hv v))"
    "cstr w = v"
    using cstr_strBytes_wire [OF ok(2)] by blast
  from i u w NameLiteral n' show ?thesis by (simp add: decodeLiteral_def e_def add.assoc)
qed

text \<open>One instruction: the decoder follows the RFC step by step.\<close>

definition decState :: "decoding \<Rightarrow> rfcState" where
  "decState d = (dynamicTableMaxSize (dc_ctx d), dynamicTable (dc_ctx d))"

definition storable :: "header list \<Rightarrow> decoding \<Rightarrow> bool" where
  "storable hs d = (case dc_headers d of None \<Rightarrow> True | Some hs' \<Rightarrow> length hs' + length hs \<le> RESPONSE_HEADERS_MAX_SIZE)"

definition decoded :: "decoding \<Rightarrow> header list \<Rightarrow> rfcState \<Rightarrow> decoding \<Rightarrow> bool" where
  "decoded d hs st d' \<longleftrightarrow> decState d' = st \<and> dc_error d' = dc_error d
     \<and> dc_headers d' = map_option (\<lambda>hs'. hs' @ hs) (dc_headers d)"

lemma storeHeader_decoded:
  assumes "storable [h] d"
  shows "\<exists>d'. storeHeader h d = (d', True) \<and> decoded d [h] (decState d) d'"
  using assms by (auto simp: storeHeader_def decoded_def decState_def storable_def split: option.splits)

lemma addHeader_state:
  assumes "\<forall>n. alloc n"
  shows "decState (addHeader alloc h d) = (fst (decState d), rfcInsert (fst (decState d)) h (snd (decState d)))"
    "dc_error (addHeader alloc h d) = dc_error d" "dc_headers (addHeader alloc h d) = dc_headers d"
  using addToDynamicTable_table [where alloc = alloc and ctx = "dc_ctx d" and e = h, OF assms]
  by (auto simp: addHeader_def decState_def split: prod.splits option.splits)

lemma decodeField_wire:
  assumes al: "\<forall>n. alloc n" and ok: "wireOk f i"
    and st: "rfcStep i (decState d) = Some (st, hs)" and hs: "storable hs d"
  shows "\<exists>d'. decodeField alloc (pre @ wireInstr f i @ rest) (length pre) (length (pre @ wireInstr f i @ rest)) d
           = (d', length pre + length (wireInstr f i), True) \<and> decoded d hs st d'"
proof (cases i)
  case (SizeUpdate n)
  have hd: "(pre @ wireInstr f i @ rest) ! length pre AND 0xE0 = 0x20"
    using hpackEncodeInteger_hd [OF byte_masks(2), of n "0x20"] by (simp add: SizeUpdate nth_hd)
  have "hpackDecodeInteger (pre @ wireInstr f i @ rest) (length pre) 5 (length (pre @ wireInstr f i @ rest))
      = (n, length pre + length (wireInstr f i))"
    using hpackDecodeInteger_encode [OF prefix_masks(1)] ok by (simp add: SizeUpdate)
  then have "decodeField alloc (pre @ wireInstr f i @ rest) (length pre) (length (pre @ wireInstr f i @ rest)) d
      = (d\<lparr>dc_ctx := shrinkToMax ((dc_ctx d)\<lparr>dynamicTableMaxSize := n\<rparr>)\<rparr>, length pre + length (wireInstr f i), True)"
    using hd by (simp add: decodeField_def decodeSizeUpdate_def Let_def)
  then show ?thesis using st
    by (auto simp: SizeUpdate decoded_def decState_def shrinkToMax_fitting map_option.identity)
next
  case (Indexed k)
  have b: "(pre @ wireInstr f i @ rest) ! length pre AND 0x80 = 0x80"
    using hpackEncodeInteger_hd [OF byte_masks(1), of k "0x80"] by (simp add: Indexed nth_hd)
  then have b': "(pre @ wireInstr f i @ rest) ! length pre AND 0xE0 \<noteq> 0x20"
    using high_bits by force
  obtain h where h: "rfcLookup (dynamicTable (dc_ctx d)) k = Some h" "hs = [h]" "st = decState d"
    using st by (auto simp: Indexed decState_def)
  have "hpackDecodeInteger (pre @ wireInstr f i @ rest) (length pre) 7 (length (pre @ wireInstr f i @ rest))
      = (k, length pre + length (wireInstr f i))"
    using hpackDecodeInteger_encode [OF prefix_masks(2)] ok by (simp add: Indexed)
  then have x: "decodeIndexed (pre @ wireInstr f i @ rest) (length pre) (length (pre @ wireInstr f i @ rest)) d
      = (Some h, length pre + length (wireInstr f i))"
    using h(1) getHeaderFromTable_rfc [OF h(1)]
    by (auto simp: decodeIndexed_def rfcLookup_code Let_def split: if_splits)
  obtain d' where "storeHeader h d = (d', True)" "decoded d [h] (decState d) d'"
    using storeHeader_decoded hs h(2) by blast
  then show ?thesis using x b b' h by (simp add: decodeField_def)
next
  case (Literal ix nm v)
  obtain hn hv where f: "f = (hn, hv)" by fastforce
  have oks: "wireNameOk hn nm" "wireStringOk hv v" using ok by (simp_all add: Literal f)
  obtain n where n: "rfcName (dynamicTable (dc_ctx d)) nm = Some n" and hs': "hs = [(n, v)]"
    and st': "st = (fst (decState d), if ix = Incremental then rfcInsert (fst (decState d)) (n, v) (snd (decState d)) else snd (decState d))"
    using st by (auto simp: Literal decState_def)
  obtain p prefix where w: "wireInstr f i = wireName hn p prefix nm @ wireString hv v"
    and pp: "(p, prefix) = (if ix = Incremental then (6, 0x40) else if ix = WithoutIndexing then (4, 0) else (4, 0x10))"
    by (cases ix) (simp_all add: Literal f)
  have pm: "prefix AND word_of_nat (2 ^ p - 1) = 0" "1 \<le> p" "p \<le> 8"
    using pp prefix_masks by (auto split: if_splits)
  have nm: "wireName hn p prefix nm \<noteq> []" by (cases nm) auto
  have hdw: "(pre @ wireInstr f i @ rest) ! length pre = hd (wireName hn p prefix nm)"
    using nm unfolding w by (simp add: nth_append hd_conv_nth)
  have hd: "hd (wireName hn p prefix nm) AND m = prefix AND m" if "m AND mask p = 0" for m
    using hpackEncodeInteger_hd [OF that] by (cases nm) auto
  note lit = decodeLiteral_wire [OF pm oks n, of pre rest, folded w]
  show ?thesis
  proof (cases "ix = Incremental")
    case True
    then have c: "p = 6" "prefix = 0x40" using pp by auto
    have b: "hd (wireName hn p prefix nm) AND 0x80 = 0" "hd (wireName hn p prefix nm) AND 0x40 = 0x40"
      using hd [of "0x80"] hd [of "0x40"] byte_masks(3,4) by (simp_all add: c)
    then have b': "hd (wireName hn p prefix nm) AND 0xE0 \<noteq> 0x20" using high_bits by force
    obtain d' where "storeHeader (n, v) (addHeader alloc (n, v) d) = (d', True)"
      "decoded (addHeader alloc (n, v) d) [(n, v)] (decState (addHeader alloc (n, v) d)) d'"
      using storeHeader_decoded [of "(n, v)" "addHeader alloc (n, v) d"] hs hs'
      by (auto simp: storable_def addHeader_state(3) [OF al])
    then show ?thesis using lit b b' True
      by (simp add: decodeField_def hdw c decoded_def hs' st' addHeader_state [OF al])
  next
    case False
    then have c: "p = 4" "prefix = 0 \<or> prefix = 0x10" using pp by (auto split: if_splits)
    have b: "hd (wireName hn p prefix nm) AND 0x80 = 0" "hd (wireName hn p prefix nm) AND 0x40 = 0"
      "hd (wireName hn p prefix nm) AND 0xE0 \<noteq> 0x20"
      using hd [of "0x80"] hd [of "0x40"] hd [of "0xE0"] byte_masks(5-7) c by auto
    obtain d' where "storeHeader (n, v) d = (d', True)" "decoded d [(n, v)] (decState d) d'"
      using storeHeader_decoded hs hs' by blast
    then show ?thesis using lit b False
      by (simp add: decodeField_def hdw c(1) hs' st')
  qed
qed

section \<open>The decoder on blocks\<close>

definition wireBlock :: "((bool \<times> bool) \<times> hinstr) list \<Rightarrow> bytes" where
  "wireBlock ins = concat (map (\<lambda>(f, i). wireInstr f i) ins)"

lemma wireBlock_simps [simp]:
  "wireBlock [] = []"
  "wireBlock ((f, i) # ins) = wireInstr f i @ wireBlock ins"
  by (simp_all add: wireBlock_def)

lemma wireInstr_ne [simp]: "wireInstr f i \<noteq> []"
proof (cases "(f, i)" rule: wireInstr.cases)
  case (3 hn hv nm v)
  then show ?thesis by (cases nm) auto
next
  case (4 hn hv nm v)
  then show ?thesis by (cases nm) auto
next
  case (5 hn hv nm v)
  then show ?thesis by (cases nm) auto
qed auto

lemma decoded_trans:
  "decoded d hs st d1 \<Longrightarrow> decoded d1 hs' st' d2 \<Longrightarrow> decoded d (hs @ hs') st' d2"
  by (cases "dc_headers d") (auto simp: decoded_def)

lemma decoded_storable: "decoded d hs st d' \<Longrightarrow> storable (hs @ hs') d \<Longrightarrow> storable hs' d'"
  by (auto simp: decoded_def storable_def split: option.splits)

lemma storable_append: "storable (hs @ hs') d \<Longrightarrow> storable hs d"
  by (auto simp: storable_def split: option.splits)

lemma decodeFields_wire:
  assumes al: "\<forall>n. alloc n"
  shows "\<lbrakk>list_all (\<lambda>(f, i). wireOk f i) ins; rfcRun (map snd ins) (decState d) = Some (st, hs); storable hs d\<rbrakk> \<Longrightarrow>
    \<exists>d'. decoded d hs st d' \<and>
      decodeFields alloc (pre @ wireBlock ins @ rest) (length pre) (length (pre @ wireBlock ins @ rest)) d
      = decodeFields alloc (pre @ wireBlock ins @ rest) (length (pre @ wireBlock ins)) (length (pre @ wireBlock ins @ rest)) d'"
proof (induction ins arbitrary: d pre hs)
  case Nil
  then show ?case by (auto simp: decoded_def map_option.identity intro!: exI [of _ d])
next
  case (Cons fi ins)
  obtain f i where fi: "fi = (f, i)" by fastforce
  obtain st1 hs1 hs2 where r: "rfcStep i (decState d) = Some (st1, hs1)" "rfcRun (map snd ins) st1 = Some (st, hs2)"
    "hs = hs1 @ hs2"
    using Cons.prems(2) by (auto simp: fi split: option.splits prod.splits)
  have ok: "wireOk f i" "list_all (\<lambda>(f, i). wireOk f i) ins" using Cons.prems(1) by (auto simp: fi)
  have s1: "storable hs1 d" using Cons.prems(3) r(3) storable_append by blast
  obtain d1 where d1: "decodeField alloc (pre @ wireInstr f i @ wireBlock ins @ rest) (length pre)
      (length (pre @ wireInstr f i @ wireBlock ins @ rest)) d = (d1, length pre + length (wireInstr f i), True)"
    "decoded d hs1 st1 d1"
    using decodeField_wire [OF al ok(1) r(1) s1] by blast
  have "decState d1 = st1" using d1(2) by (simp add: decoded_def)
  moreover have "storable hs2 d1" using decoded_storable [OF d1(2)] Cons.prems(3) r(3) by simp
  ultimately obtain d2 where d2: "decoded d1 hs2 st d2"
    "decodeFields alloc ((pre @ wireInstr f i) @ wireBlock ins @ rest) (length (pre @ wireInstr f i))
      (length ((pre @ wireInstr f i) @ wireBlock ins @ rest)) d1
    = decodeFields alloc ((pre @ wireInstr f i) @ wireBlock ins @ rest) (length ((pre @ wireInstr f i) @ wireBlock ins))
      (length ((pre @ wireInstr f i) @ wireBlock ins @ rest)) d2"
    using Cons.IH [OF ok(2)] r(2) by blast
  show ?case
  proof (intro exI conjI)
    show "decoded d hs st d2" using decoded_trans [OF d1(2) d2(1)] r(3) by simp
    have "length pre < length (pre @ wireInstr f i @ wireBlock ins @ rest)" by simp
    then have "decodeFields alloc (pre @ wireInstr f i @ wireBlock ins @ rest) (length pre)
        (length (pre @ wireInstr f i @ wireBlock ins @ rest)) d
      = decodeFields alloc (pre @ wireInstr f i @ wireBlock ins @ rest) (length pre + length (wireInstr f i))
        (length (pre @ wireInstr f i @ wireBlock ins @ rest)) d1"
      using d1(1) by (subst decodeFields.simps) simp
    then show "decodeFields alloc (pre @ wireBlock (fi # ins) @ rest) (length pre) (length (pre @ wireBlock (fi # ins) @ rest)) d
      = decodeFields alloc (pre @ wireBlock (fi # ins) @ rest) (length (pre @ wireBlock (fi # ins)))
          (length (pre @ wireBlock (fi # ins) @ rest)) d2"
      using d2(2) by (simp add: fi add.assoc)
  qed
qed

lemma wireBlock_ne: "ins \<noteq> [] \<Longrightarrow> wireBlock ins \<noteq> []"
  by (cases ins) auto

lemma decodeHeadersFrame_wire:
  assumes al: "\<forall>n. alloc n" and ok: "list_all (\<lambda>(f, i). wireOk f i) ins" and ne: "ins \<noteq> []"
    and run: "rfcRun (map snd ins) (decState d) = Some (st, hs)" and limit: "length hs \<le> RESPONSE_HEADERS_MAX_SIZE"
  shows "decState (decodeHeadersFrame alloc (wireBlock ins) d) = st"
    "dc_headers (decodeHeadersFrame alloc (wireBlock ins) d) = map_option (\<lambda>_. hs) (dc_headers d)"
    "dc_error (decodeHeadersFrame alloc (wireBlock ins) d) = dc_error d"
proof -
  let ?d = "d\<lparr>dc_headers := map_option (\<lambda>_. []) (dc_headers d)\<rparr>"
  have st: "rfcRun (map snd ins) (decState ?d) = Some (st, hs)" using run by (simp add: decState_def)
  have s: "storable hs ?d" using limit by (auto simp: storable_def split: option.splits)
  obtain d' where d': "decoded ?d hs st d'" "decodeFields alloc (wireBlock ins) 0 (length (wireBlock ins)) ?d
      = decodeFields alloc (wireBlock ins) (length (wireBlock ins)) (length (wireBlock ins)) d'"
    using decodeFields_wire [OF al ok st s, of "[]" "[]"] by auto
  then have "decodeHeadersFrame alloc (wireBlock ins) d = d'"
    using wireBlock_ne [OF ne] by (simp add: decodeHeadersFrame_def) (subst decodeFields.simps, simp)
  then show "decState (decodeHeadersFrame alloc (wireBlock ins) d) = st"
    "dc_headers (decodeHeadersFrame alloc (wireBlock ins) d) = map_option (\<lambda>_. hs) (dc_headers d)"
    "dc_error (decodeHeadersFrame alloc (wireBlock ins) d) = dc_error d"
    using d'(1) by (auto simp: decoded_def map_option_case split: option.splits)
qed

text \<open>The two kinds of wire forms agree on what the decoder can take.\<close>

lemma string_wire:
  assumes "rfcStringOk huff s"
  shows "rfcString huff s = wireString huff s \<and> wireStringOk huff s"
proof -
  have "huff \<Longrightarrow> rfcHuffman (strBytes s) = hpackHuffmanEncode (strBytes s)
      \<and> list_all (\<lambda>c. snd (huffmanTable ! unat c) \<le> 25) (strBytes s)"
    using assms huffman_rfc rfc_code_agrees unfolding rfcStringOk_def codeLen_def list_all_iff by blast
  moreover have "rfcInteger n 7 (if huff then 0x80 else 0) = hpackEncodeInteger n 7 (if huff then 0x80 else 0)" for n
    by (rule integer_rfc) simp
  ultimately show ?thesis using assms by (simp add: rfcString_def wireString_def rfcStringOk_def wireStringOk_def Let_def)
qed

lemma name_wire: "rfcNameOk huff nm \<Longrightarrow> flags AND word_of_nat (2 ^ p - 1) = 0 \<Longrightarrow>
    rfcNameWire huff p flags nm = wireName huff p flags nm \<and> wireNameOk huff nm"
  by (cases nm) (simp_all only: rfcNameWire.simps wireName.simps rfcNameOk.simps wireNameOk.simps string_wire integer_rfc)

lemma instr_wire: "rfcOk f i \<Longrightarrow> rfcWire f i = wireInstr f i \<and> wireOk f i"
  using prefix_masks
  by (induction f i rule: wireInstr.induct) (simp_all only: rfcWire.simps wireInstr.simps rfcOk.simps wireOk.simps name_wire string_wire integer_rfc)

lemma block_wire: "list_all (\<lambda>(f, i). rfcOk f i) ins \<Longrightarrow> rfcBlock ins = wireBlock ins \<and> list_all (\<lambda>(f, i). wireOk f i) ins"
  by (induction ins) (auto simp: rfcBlock_def instr_wire)

text \<open>
  C1. The header block decoder implements RFC 7541: on the RFC's wire form of any sequence of
  instructions that is valid for the current table, with any choice of Huffman coding, it stores
  exactly the header list the RFC prescribes, leaves the dynamic table in the RFC's state and
  reports no error; a scratch stream (no header buffer) changes the table all the same. The block
  may hold 64 fields at most, behind which decoding stops, and symbols with codes of at most 25 bits
  in its Huffman-coded strings, as the table of the code deviates from the RFC for others. The static
  table, the Huffman code and the representations are those of \<open>Rfc7541\<close>.
\<close>

theorem hpack_decoder_correct:
  assumes "\<forall>n. alloc n" "ins \<noteq> []" "list_all (\<lambda>(f, i). rfcOk f i) ins"
    and "rfcRun (map snd ins) (dynamicTableMaxSize (dc_ctx d), dynamicTable (dc_ctx d)) = Some ((m, t), hs)"
    and "length hs \<le> RESPONSE_HEADERS_MAX_SIZE"
  defines "d' \<equiv> decodeHeadersFrame alloc (rfcBlock ins) d"
  shows "dc_headers d' = (case dc_headers d of None \<Rightarrow> None | Some _ \<Rightarrow> Some hs)
    \<and> dynamicTable (dc_ctx d') = t \<and> dynamicTableMaxSize (dc_ctx d') = m \<and> dc_error d' = dc_error d"
proof -
  have w: "rfcBlock ins = wireBlock ins" "list_all (\<lambda>(f, i). wireOk f i) ins" using block_wire [OF assms(3)] by simp_all
  show ?thesis using decodeHeadersFrame_wire [OF assms(1) w(2) assms(2) assms(4) [folded decState_def] assms(5)]
    by (auto simp: d'_def w(1) decState_def split: option.splits)
qed

lemma hpack_decoder_correct_witness:
  "dc_headers (decodeHeadersFrame (\<lambda>n. True) (rfcBlock [((False, False), Indexed 8),
       ((False, True), Literal Incremental (NameIndex 54) ''x''), ((False, False), Indexed 62)])
     \<lparr>dc_ctx = \<lparr>dynamicTable = [], dynamicTableCapacity = 0, dynamicTableMaxSize = 4096\<rparr>,
      dc_headers = Some [], dc_error = ERR_NONE\<rparr>)
   = Some [('':status'', ''200''), (''server'', ''x''), (''server'', ''x'')]"
proof -
  have run: "rfcRun [Indexed 8, Literal Incremental (NameIndex 54) ''x'', Indexed 62] (4096, [])
      = Some ((4096, [(''server'', ''x'')]), [('':status'', ''200''), (''server'', ''x''), (''server'', ''x'')])"
    by (simp add: rfcLookup_def rfcStaticTable_def rfcInsert_def hpackEntrySize_def)
  have x: "rfcCodeLen 120 \<le> 25" by (simp add: rfcCodeLen_def rfcHuffmanTable_def)
  show ?thesis
    using hpack_decoder_correct [where alloc = "\<lambda>n. True" and d = "\<lparr>dc_ctx = \<lparr>dynamicTable = [],
        dynamicTableCapacity = 0, dynamicTableMaxSize = 4096\<rparr>, dc_headers = Some [], dc_error = ERR_NONE\<rparr>"
        and ins = "[((False, False), Indexed 8),
         ((False, True), Literal Incremental (NameIndex 54) ''x''), ((False, False), Indexed 62)]"]
      run x by (simp add: RESPONSE_HEADERS_MAX_SIZE_def rfcStringOk_def NUL_def byteOfChar_def)
qed

section \<open>Any input\<close>

definition decodingOk :: "decoding \<Rightarrow> bool" where
  "decodingOk d \<longleftrightarrow> tableOk (dc_ctx d)
     \<and> (case dc_headers d of None \<Rightarrow> True | Some hs \<Rightarrow> length hs \<le> RESPONSE_HEADERS_MAX_SIZE)"

lemma decodeField_ok: "decodingOk d \<Longrightarrow> decodingOk (fst (decodeField alloc payload pos len d))"
proof -
  assume d: "decodingOk d"
  have size: "decodingOk (fst (decodeSizeUpdate payload pos len d))"
    using d by (auto simp: decodeSizeUpdate_def decodingOk_def split: prod.splits)
      (rule shrinkToMax_ok, simp add: tableOk_def)
  have failed: "decodingOk (decodingFailed d)" using d by (simp add: decodingFailed_def decodingOk_def)
  have store: "decodingOk (fst (storeHeader h d))" if "decodingOk d" for h d
    using that by (auto simp: storeHeader_def decodingOk_def split: option.splits)
  have add: "decodingOk (addHeader alloc h d)" for h
    using d addToDynamicTable_ok [of "dc_ctx d" alloc h]
    by (auto simp: addHeader_def decodingOk_def split: prod.splits option.splits)
  show ?thesis
    unfolding decodeField_def Let_def
    using size failed store [OF d] store [OF add]
    by (auto split: prod.splits option.splits) (metis fst_conv)+
qed

lemma decodeFields_ok: "decodingOk d \<Longrightarrow> decodingOk (decodeFields alloc payload pos len d)"
proof (induction alloc payload pos len d rule: decodeFields.induct)
  case (1 alloc payload pos len d)
  obtain d1 pos1 go where f: "decodeField alloc payload pos len d = (d1, pos1, go)"
    using prod_cases3 by blast
  show ?case
    using "1.prems" "1.IH" [OF _ f [symmetric]] decodeField_ok [OF "1.prems", of alloc payload pos len] f
    by (subst decodeFields.simps) auto
qed

text \<open>
  C13. No header block, however malformed, breaks the decoder's bounds: the dynamic table stays
  within its maximum size and its array, and at most \<open>RESPONSE_HEADERS_MAX_SIZE\<close> fields are stored.
\<close>

theorem hpack_decoder_safe:
  assumes "tableOk (dc_ctx d)"
  shows "tableOk (dc_ctx (decodeHeadersFrame alloc payload d))
    \<and> (payload \<noteq> [] \<longrightarrow> (\<forall>hs. dc_headers (decodeHeadersFrame alloc payload d) = Some hs
          \<longrightarrow> length hs \<le> RESPONSE_HEADERS_MAX_SIZE))"
proof (cases "payload = []")
  case True
  then show ?thesis using assms by (simp add: decodeHeadersFrame_def)
next
  case False
  have "decodingOk (d\<lparr>dc_headers := map_option (\<lambda>_. []) (dc_headers d)\<rparr>)"
    using assms by (simp add: decodingOk_def split: option.splits)
  from decodeFields_ok [OF this, of alloc payload 0 "length payload"] False show ?thesis
    by (auto simp: decodeHeadersFrame_def decodingOk_def)
qed

lemma hpack_decoder_safe_witness:
  "tableOk (dc_ctx (decodeHeadersFrame (\<lambda>n. False) [0x3f, 0xff, 0xff] \<lparr>dc_ctx = \<lparr>dynamicTable = [],
      dynamicTableCapacity = 0, dynamicTableMaxSize = 4096\<rparr>, dc_headers = Some [], dc_error = ERR_NONE\<rparr>))"
  using hpack_decoder_safe [of "\<lparr>dc_ctx = \<lparr>dynamicTable = [],
      dynamicTableCapacity = 0, dynamicTableMaxSize = 4096\<rparr>, dc_headers = Some [], dc_error = ERR_NONE\<rparr>"]
  by (simp add: tableOk_def)

section \<open>The header limit\<close>

text \<open>
  C40. Once \<open>RESPONSE_HEADERS_MAX_SIZE\<close> fields are stored, the next field ends the decoding:
  whatever instructions follow it in the block, the dynamic table stays where it was. A peer
  that indexes one of the following fields is out of step with this decoder from then on.
\<close>

theorem header_limit_stops_decoding:
  assumes "\<forall>n. alloc n" "list_all (\<lambda>(f, i). wireOk f i) ins" "dc_headers d = Some hs0"
    and "rfcRun (map snd ins) (dynamicTableMaxSize (dc_ctx d), dynamicTable (dc_ctx d)) = Some ((m, t), hs)"
    and "length hs = RESPONSE_HEADERS_MAX_SIZE" "k < 2 ^ 35" "rfcLookup t k = Some h"
  shows "dynamicTable (dc_ctx (decodeHeadersFrame alloc (wireBlock ins @ wireInstr f (Indexed k) @ rest) d)) = t"
proof -
  let ?d = "d\<lparr>dc_headers := Some []\<rparr>" and ?w = "wireInstr f (Indexed k)"
  let ?p = "wireBlock ins @ ?w @ rest"
  have run: "rfcRun (map snd ins) (decState ?d) = Some ((m, t), hs)" using assms(4) by (simp add: decState_def)
  have s: "storable hs ?d" using assms(5) by (simp add: storable_def)
  obtain d1 where d1: "decoded ?d hs (m, t) d1"
    "decodeFields alloc ?p 0 (length ?p) ?d = decodeFields alloc ?p (length (wireBlock ins)) (length ?p) d1"
    using decodeFields_wire [OF assms(1,2) run s, of "[]" "?w @ rest"] by auto
  have d1': "dc_headers d1 = Some hs" "dynamicTable (dc_ctx d1) = t"
    using d1(1) by (simp_all add: decoded_def decState_def)
  have "\<exists>pos. decodeField alloc ?p (length (wireBlock ins)) (length ?p) d1 = (d1, pos, False)"
  proof -
    have b: "?p ! length (wireBlock ins) AND 0x80 = 0x80"
      using hpackEncodeInteger_hd [OF byte_masks(1), of k "0x80"] by (simp add: nth_hd)
    then have b': "?p ! length (wireBlock ins) AND 0xE0 \<noteq> 0x20" using high_bits by force
    have "hpackDecodeInteger ?p (length (wireBlock ins)) 7 (length ?p) = (k, length (wireBlock ins) + length ?w)"
      using hpackDecodeInteger_encode [OF prefix_masks(2), of k "wireBlock ins"] assms(6) by simp
    then have "decodeIndexed ?p (length (wireBlock ins)) (length ?p) d1 = (Some h, length (wireBlock ins) + length ?w)"
      using assms(7) getHeaderFromTable_rfc [of "dc_ctx d1" k h] d1'(2)
      by (auto simp: decodeIndexed_def rfcLookup_code Let_def split: if_splits)
    then show ?thesis using b b' assms(5) d1'(1) by (simp add: decodeField_def storeHeader_def)
  qed
  then have "decodeFields alloc ?p (length (wireBlock ins)) (length ?p) d1 = d1"
    by (subst decodeFields.simps) auto
  then show ?thesis using d1(2) d1'(2) assms(3) by (simp add: decodeHeadersFrame_def)
qed

lemma header_limit_stops_decoding_witness:
  "dynamicTable (dc_ctx (decodeHeadersFrame (\<lambda>n. True)
      (wireBlock (replicate 64 ((False, False), Indexed 2)) @ wireInstr (False, False) (Indexed 2)
        @ wireInstr (False, False) (Literal Incremental (NameIndex 54) ''x''))
      \<lparr>dc_ctx = \<lparr>dynamicTable = [], dynamicTableCapacity = 0, dynamicTableMaxSize = 4096\<rparr>,
       dc_headers = Some [], dc_error = ERR_NONE\<rparr>)) = []"
proof -
  have r: "rfcLookup [] 2 = Some ('':method'', ''GET'')"
    by (simp add: rfcLookup_code responseHeaderStaticTable_def)
  have run: "rfcRun (replicate n (Indexed 2)) (4096, []) = Some ((4096, []), replicate n ('':method'', ''GET''))" for n
    by (induction n) (simp_all add: r)
  show ?thesis
    by (rule header_limit_stops_decoding [where m = 4096 and k = 2])
      (auto simp: run r RESPONSE_HEADERS_MAX_SIZE_def list_all_iff)
qed

end
