(* ===== verification/Frames.thy ===== *)
theory Frames
  imports Errors
begin

text \<open>
  HTTP/2 frames on the wire: how \<open>readerLoop\<close> of \<open>src/Http2ResponseHandler.c\<close> cuts the
  accumulated bytes into frames, and the frames \<open>src/Http2RequestHandler.c\<close> writes
  (WINDOW_UPDATE, RST_STREAM, DATA, the SETTINGS and PING acknowledgements of the reader).
\<close>

section \<open>Reading\<close>

record frame =
  fr_type :: byte
  fr_flags :: byte
  fr_streamId :: "32 word"
  fr_payload :: bytes

text \<open>The big-endian fields of the nine-byte frame header at an offset.\<close>

definition be24 :: "byte \<Rightarrow> byte \<Rightarrow> byte \<Rightarrow> 32 word" where
  "be24 a b c = push_bit 16 (ucast a) OR push_bit 8 (ucast b) OR ucast c"

definition be32 :: "byte \<Rightarrow> byte \<Rightarrow> byte \<Rightarrow> byte \<Rightarrow> 32 word" where
  "be32 a b c d = push_bit 24 (ucast a) OR push_bit 16 (ucast b) OR push_bit 8 (ucast c) OR ucast d"

definition frameLengthAt :: "bytes \<Rightarrow> nat \<Rightarrow> 32 word" where
  "frameLengthAt acc offset = be24 (acc ! offset) (acc ! (offset + 1)) (acc ! (offset + 2))"

definition frameAt :: "bytes \<Rightarrow> nat \<Rightarrow> frame" where
  "frameAt acc offset =
     \<lparr>fr_type = acc ! (offset + 3), fr_flags = acc ! (offset + 4),
      fr_streamId = be32 (acc ! (offset + 5) AND 0x7F) (acc ! (offset + 6)) (acc ! (offset + 7)) (acc ! (offset + 8)),
      fr_payload = take (unat (frameLengthAt acc offset)) (drop (offset + 9) acc)\<rparr>"

text \<open>
  The inner loop of \<open>readerLoop\<close>: the complete frames in the buffer and the offset behind the
  last one.
\<close>

function framesFrom :: "bytes \<Rightarrow> nat \<Rightarrow> frame list \<times> nat" where
  "framesFrom acc offset =
     (if offset + 9 \<le> length acc
      then (let frameLength = unat (frameLengthAt acc offset)
            in if offset + 9 + frameLength > length acc then ([], offset)
               else (case framesFrom acc (offset + (9 + frameLength)) of
                       (fs, end') \<Rightarrow> (frameAt acc offset # fs, end')))
      else ([], offset))"
  by pat_completeness auto
termination by (relation "measure (\<lambda>(acc, offset). length acc - offset)") auto

declare framesFrom.simps [simp del]

text \<open>One read: append the bytes, take the complete frames, keep the rest.\<close>

definition readerAccept :: "bytes \<Rightarrow> bytes \<Rightarrow> frame list \<times> bytes" where
  "readerAccept acc buffer =
     (let acc = acc @ buffer; (fs, offset) = framesFrom acc 0 in (fs, drop offset acc))"

fun readerAccepts :: "bytes \<Rightarrow> bytes list \<Rightarrow> frame list \<times> bytes" where
  "readerAccepts acc [] = ([], acc)"
| "readerAccepts acc (r # rs) =
     (let (fs, acc) = readerAccept acc r; (fs', acc) = readerAccepts acc rs in (fs @ fs', acc))"

section \<open>Writing\<close>

definition streamIdBytes :: "32 word \<Rightarrow> bytes" where
  "streamIdBytes streamId =
     [ucast (drop_bit 24 streamId) AND 0x7F, ucast (drop_bit 16 streamId) AND 0xFF,
      ucast (drop_bit 8 streamId) AND 0xFF, ucast streamId AND 0xFF]"

definition fillWindowUpdateFrame :: "32 word \<Rightarrow> 32 word \<Rightarrow> bytes" where
  "fillWindowUpdateFrame streamId increment =
     [0, 0, 4, 0x8, 0] @ streamIdBytes streamId
     @ [ucast (drop_bit 24 increment) AND 0x7F, ucast (drop_bit 16 increment) AND 0xFF,
        ucast (drop_bit 8 increment) AND 0xFF, ucast increment AND 0xFF]"

definition fillRSTStreamFrame :: "32 word \<Rightarrow> bytes" where
  "fillRSTStreamFrame streamId = [0, 0, 4, 0x3, 0] @ streamIdBytes streamId @ [0, 0, 0, 0x8]"

text \<open>The acknowledgements \<open>readerDispatch\<close> queues for SETTINGS and for an eight-byte PING.\<close>

definition settingsAck :: bytes where
  "settingsAck = [0, 0, 0, 0x4, 0x1, 0, 0, 0, 0]"

definition pingAck :: "bytes \<Rightarrow> bytes" where
  "pingAck payload = [0, 0, 8, 0x6, 0x1, 0, 0, 0, 0] @ payload"

text \<open>\<open>sendDataFrame\<close>: one DATA frame with END_STREAM for the whole body, or nothing for an empty one.\<close>

definition dataFrame :: "32 word \<Rightarrow> bytes \<Rightarrow> bytes" where
  "dataFrame streamId payload =
     (let payloadLen = (word_of_nat (length payload) :: 64 word)
      in [ucast (drop_bit 16 payloadLen) AND 0xFF, ucast (drop_bit 8 payloadLen) AND 0xFF, ucast payloadLen AND 0xFF,
          0x00, 0x01] @ streamIdBytes streamId @ payload)"

definition sendDataFrame :: "(nat \<Rightarrow> bool) \<Rightarrow> (bytes \<Rightarrow> bool) \<Rightarrow> 32 word \<Rightarrow> bytes \<Rightarrow> bytes \<times> error" where
  "sendDataFrame alloc sslWriteAll streamId payload =
     (if length payload > 0 then
        (if \<not> alloc (9 + length payload) then ([], ERR_SYSTEM_MEMORY_ALLOCATION_FAILED)
         else if sslWriteAll (dataFrame streamId payload) then (dataFrame streamId payload, ERR_NONE)
         else (dataFrame streamId payload, ERR_REQUEST_SENDING_HTTP2_DATA_FRAME_FAILED))
      else ([], ERR_NONE))"

section \<open>Frames and segments\<close>

text \<open>The abstract wire format: a frame as bytes.\<close>

definition wireFrame :: "frame \<Rightarrow> bytes" where
  "wireFrame f =
     (let n = (word_of_nat (length (fr_payload f)) :: 32 word)
      in [ucast (drop_bit 16 n), ucast (drop_bit 8 n), ucast n, fr_type f, fr_flags f]
         @ streamIdBytes (fr_streamId f) @ fr_payload f)"

definition frameOk :: "frame \<Rightarrow> bool" where
  "frameOk f \<longleftrightarrow> length (fr_payload f) < 2 ^ 24 \<and> fr_streamId f < 2 ^ 31"

lemma length_streamIdBytes [simp]: "length (streamIdBytes s) = 4"
  by (simp add: streamIdBytes_def)

lemma be24_bytes:
  assumes "unat n < 2 ^ 24"
  shows "be24 (ucast (drop_bit 16 n)) (ucast (drop_bit 8 n)) (ucast n) = n"
proof (rule bit_word_eqI)
  fix i assume "i < LENGTH(32)"
  consider "i < 8" | "8 \<le> i" "i < 16" | "16 \<le> i" "i < 24" | "24 \<le> i" by linarith
  then show "bit (be24 (ucast (drop_bit 16 n)) (ucast (drop_bit 8 n)) (ucast n)) i = bit n i"
    using bit_unat_bound [OF assms, of i] by cases (auto simp: be24_def bit_simps)
qed

lemma bit_byte_bound: "bit (w :: byte) i \<Longrightarrow> i < 8"
  using bit_imp_le_length [of w i] by simp

lemma bit_be32:
  "bit (be32 a b c d) i \<longleftrightarrow>
     (if i < 8 then bit d i else if i < 16 then bit c (i - 8) else if i < 24 then bit b (i - 16) else i < 32 \<and> bit a (i - 24))"
  by (auto simp: be32_def bit_simps dest: bit_byte_bound)

lemma mask_bytes: "(0x7F :: byte) = mask 7" "(0xFF :: byte) = mask 8" "(0x7FFFFFFF :: 32 word) = mask 31"
  by (simp_all add: mask_eq_exp_minus_1)

lemma be32_streamId:
  "be32 (ucast (drop_bit 24 s) AND 0x7F AND 0x7F) (ucast (drop_bit 16 s) AND 0xFF) (ucast (drop_bit 8 s) AND 0xFF) (ucast s AND 0xFF)
   = s AND 0x7FFFFFFF"
proof (rule bit_word_eqI)
  fix i :: nat assume i: "i < LENGTH(32)"
  consider "i < 8" | "8 \<le> i" "i < 16" | "16 \<le> i" "i < 24" | "24 \<le> i" by linarith
  then show "bit (be32 (ucast (drop_bit 24 s) AND 0x7F AND 0x7F) (ucast (drop_bit 16 s) AND 0xFF)
      (ucast (drop_bit 8 s) AND 0xFF) (ucast s AND 0xFF)) i = bit (s AND 0x7FFFFFFF) i"
    using i unfolding mask_bytes bit_be32 by cases (auto simp: bit_simps)
qed

lemma wireFrame_length: "length (wireFrame f) = 9 + length (fr_payload f)"
  by (simp add: wireFrame_def Let_def)

lemma frameLengthAt_wire:
  assumes "length (fr_payload f) < 2 ^ 24"
  shows "unat (frameLengthAt (pre @ wireFrame f @ rest) (length pre)) = length (fr_payload f)"
proof -
  define n where "n = (word_of_nat (length (fr_payload f)) :: 32 word)"
  have u: "unat n = length (fr_payload f)" using assms by (simp add: n_def unat_of_nat)
  have "frameLengthAt (pre @ wireFrame f @ rest) (length pre) = n"
    using assms u be24_bytes [of n]
    by (simp add: frameLengthAt_def wireFrame_def n_def [symmetric] nth_append)
  then show ?thesis using u by simp
qed

lemma and_7F_id: "s < 2 ^ 31 \<Longrightarrow> s AND 0x7FFFFFFF = (s :: 32 word)"
proof -
  assume "s < 2 ^ 31"
  then have "unat s < 2 ^ 31" by (simp add: word_less_nat_alt)
  from bit_unat_bound [OF this] show ?thesis
    unfolding mask_bytes by (auto intro!: bit_word_eqI simp: bit_and_iff bit_mask_iff)
qed

lemma frameAt_wire:
  assumes "frameOk f"
  shows "frameAt (pre @ wireFrame f @ rest) (length pre) = f"
proof -
  have l: "unat (frameLengthAt (pre @ wireFrame f @ rest) (length pre)) = length (fr_payload f)"
    using assms by (simp add: frameOk_def frameLengthAt_wire)
  have p: "drop (length pre + 9) (pre @ wireFrame f @ rest) = fr_payload f @ rest"
    by (simp add: wireFrame_def Let_def streamIdBytes_def)
  have s: "fr_streamId f AND 0x7FFFFFFF = fr_streamId f" using assms by (simp add: frameOk_def and_7F_id)
  have "be32 ((pre @ wireFrame f @ rest) ! (length pre + 5) AND 0x7F) ((pre @ wireFrame f @ rest) ! (length pre + 6))
      ((pre @ wireFrame f @ rest) ! (length pre + 7)) ((pre @ wireFrame f @ rest) ! (length pre + 8)) = fr_streamId f"
    using be32_streamId [of "fr_streamId f"] s by (simp add: wireFrame_def Let_def streamIdBytes_def nth_append and.assoc)
  then show ?thesis
    unfolding frameAt_def l p by (simp add: wireFrame_def Let_def nth_append)
qed

lemma framesFrom_wire:
  "list_all frameOk fs \<Longrightarrow>
     framesFrom (pre @ concat (map wireFrame fs) @ rest) (length pre)
     = (case framesFrom (pre @ concat (map wireFrame fs) @ rest) (length (pre @ concat (map wireFrame fs))) of
          (gs, e) \<Rightarrow> (fs @ gs, e))"
proof (induction fs arbitrary: pre)
  case Nil
  then show ?case by (simp split: prod.splits)
next
  case (Cons f fs)
  have f: "frameOk f" using Cons.prems by simp
  have l: "unat (frameLengthAt (pre @ wireFrame f @ concat (map wireFrame fs) @ rest) (length pre)) = length (fr_payload f)"
    using f by (simp add: frameOk_def frameLengthAt_wire)
  have IH: "framesFrom ((pre @ wireFrame f) @ concat (map wireFrame fs) @ rest) (length (pre @ wireFrame f))
     = (case framesFrom ((pre @ wireFrame f) @ concat (map wireFrame fs) @ rest)
              (length ((pre @ wireFrame f) @ concat (map wireFrame fs))) of (gs, e) \<Rightarrow> (fs @ gs, e))"
    using Cons.IH [of "pre @ wireFrame f"] Cons.prems by simp
  then show ?case
    using l frameAt_wire [OF f, of pre "concat (map wireFrame fs) @ rest"]
    by (subst framesFrom.simps) (simp add: wireFrame_length add.assoc split: prod.splits)
qed

text \<open>Cutting frames off does not depend on what follows the buffer.\<close>

lemma framesFrom_bound: "framesFrom acc offset = (fs, e) \<Longrightarrow> offset \<le> length acc \<Longrightarrow> offset \<le> e \<and> e \<le> length acc"
proof (induction acc offset arbitrary: fs e rule: framesFrom.induct)
  case (1 acc offset)
  show ?case
  proof (cases "offset + 9 \<le> length acc \<and> offset + 9 + unat (frameLengthAt acc offset) \<le> length acc")
    case False
    then show ?thesis using "1.prems" by (subst (asm) framesFrom.simps) (auto simp: Let_def split: if_splits)
  next
    case True
    obtain fs' where "framesFrom acc (offset + (9 + unat (frameLengthAt acc offset))) = (fs', e)"
      using "1.prems"(1) True by (subst (asm) framesFrom.simps) (auto simp: Let_def split: prod.splits)
    from "1.IH" [OF _ refl _ this] True show ?thesis by simp
  qed
qed

lemma frameLengthAt_append: "offset + 9 \<le> length acc \<Longrightarrow> frameLengthAt (acc @ extra) offset = frameLengthAt acc offset"
  by (simp add: frameLengthAt_def nth_append)

lemma frameAt_append:
  "offset + 9 + unat (frameLengthAt acc offset) \<le> length acc \<Longrightarrow> frameAt (acc @ extra) offset = frameAt acc offset"
  by (simp add: frameAt_def frameLengthAt_append nth_append)

lemma framesFrom_append:
  "framesFrom acc offset = (fs, e) \<Longrightarrow> offset \<le> length acc \<Longrightarrow>
     framesFrom (acc @ extra) offset = (case framesFrom (acc @ extra) e of (gs, e') \<Rightarrow> (fs @ gs, e'))"
proof (induction acc offset arbitrary: fs e rule: framesFrom.induct)
  case (1 acc offset)
  show ?case
  proof (cases "offset + 9 \<le> length acc \<and> offset + 9 + unat (frameLengthAt acc offset) \<le> length acc")
    case False
    then have "fs = []" "e = offset"
      using "1.prems" by (subst (asm) framesFrom.simps, auto simp: Let_def split: if_splits)+
    then show ?thesis by (simp split: prod.splits)
  next
    case True
    let ?o = "offset + (9 + unat (frameLengthAt acc offset))"
    obtain fs' where fs': "framesFrom acc ?o = (fs', e)" "fs = frameAt acc offset # fs'"
      using "1.prems"(1) True by (subst (asm) framesFrom.simps) (auto simp: Let_def split: prod.splits)
    have "framesFrom (acc @ extra) ?o = (case framesFrom (acc @ extra) e of (gs, e') \<Rightarrow> (fs' @ gs, e'))"
      using "1.IH" [OF _ refl _ fs'(1)] True by simp
    then show ?thesis using True fs'(2)
      by (subst framesFrom.simps) (simp add: frameLengthAt_append frameAt_append split: prod.splits)
  qed
qed

lemma framesFrom_drop:
  "framesFrom (pre @ acc) (length pre + offset) = (case framesFrom acc offset of (fs, e) \<Rightarrow> (fs, length pre + e))"
proof (induction acc offset rule: framesFrom.induct)
  case (1 acc offset)
  have n: "(pre @ acc) ! (length pre + offset + k) = acc ! (offset + k)" for k by (simp add: nth_append add.assoc)
  have n0: "(pre @ acc) ! (length pre + offset) = acc ! offset" by (simp add: nth_append)
  have l: "frameLengthAt (pre @ acc) (length pre + offset) = frameLengthAt acc offset"
    unfolding frameLengthAt_def n n0 ..
  have f: "frameAt (pre @ acc) (length pre + offset) = frameAt acc offset"
    unfolding frameAt_def l n by (simp add: add.assoc)
  show ?case
  proof (cases "offset + 9 \<le> length acc \<and> offset + 9 + unat (frameLengthAt acc offset) \<le> length acc")
    case False
    then show ?thesis by (subst (1 2) framesFrom.simps) (auto simp: l Let_def)
  next
    case True
    then show ?thesis using "1.IH" [OF _ refl]
      by (subst (1 2) framesFrom.simps) (auto simp: l f Let_def add.assoc split: prod.splits)
  qed
qed

lemma framesFrom_end:
  assumes "framesFrom acc offset = (fs, e)" "offset \<le> length acc"
  shows "framesFrom acc e = ([], e)"
  using framesFrom_append [OF assms, of "[]"] assms(1) by (auto split: prod.splits)

lemma framesFrom_rest:
  assumes "framesFrom acc offset = (fs, e)" "offset \<le> length acc"
  shows "framesFrom (drop e acc @ extra) 0 = (case framesFrom (acc @ extra) e of (gs, e') \<Rightarrow> (gs, e' - e))"
proof -
  have e: "e \<le> length acc" using framesFrom_bound [OF assms] by simp
  have "framesFrom (take e acc @ (drop e acc @ extra)) (length (take e acc) + 0)
        = (case framesFrom (drop e acc @ extra) 0 of (gs, e') \<Rightarrow> (gs, length (take e acc) + e'))"
    by (rule framesFrom_drop)
  then have "framesFrom (acc @ extra) e = (case framesFrom (drop e acc @ extra) 0 of (gs, e') \<Rightarrow> (gs, e + e'))"
    using e by (simp flip: append_assoc)
  then show ?thesis by (simp split: prod.splits)
qed

lemma readerAccepts_frames:
  "framesFrom acc 0 = ([], 0) \<Longrightarrow>
     readerAccepts acc rs = (case framesFrom (acc @ concat rs) 0 of (fs, e) \<Rightarrow> (fs, drop e (acc @ concat rs)))"
proof (induction rs arbitrary: acc)
  case Nil
  then show ?case by simp
next
  case (Cons r rs)
  define a where "a = acc @ r"
  obtain fs e where fs: "framesFrom a 0 = (fs, e)" by fastforce
  have e: "e \<le> length a" using framesFrom_bound [OF fs] by simp
  obtain gs e' where gs: "framesFrom (a @ concat rs) e = (gs, e')" by fastforce
  have e': "e \<le> e'" using framesFrom_bound [OF gs] e by simp
  have d: "drop e a @ concat rs = drop e (a @ concat rs)" using e by simp
  have "framesFrom (drop e a) 0 = ([], 0)"
    using framesFrom_rest [OF fs, of "[]"] framesFrom_end [OF fs] by simp
  from Cons.IH [OF this] have "readerAccepts (drop e a) rs = (gs, drop (e' - e) (drop e a @ concat rs))"
    using framesFrom_rest [OF fs, of "concat rs"] gs by (simp del: drop_append)
  then have IH: "readerAccepts (drop e a) rs = (gs, drop e' (a @ concat rs))"
    using e' by (simp only: d drop_drop le_add_diff_inverse2)
  have "framesFrom (acc @ concat (r # rs)) 0 = (fs @ gs, e')"
    using framesFrom_append [OF fs, of "concat rs"] gs by (simp add: a_def)
  then show ?case using fs IH by (simp add: readerAccept_def Let_def a_def del: drop_append)
qed

text \<open>
  C8. Framing does not depend on how the bytes arrive: however the byte stream is split into
  reads, the reader dispatches the same frames in the same order and keeps the same incomplete
  tail as if everything had arrived at once.
\<close>

theorem reader_segmentation_independent:
  assumes "concat rs = concat rs'"
  shows "readerAccepts [] rs = readerAccepts [] rs'"
proof -
  have "framesFrom [] 0 = ([], 0)" by (subst framesFrom.simps) simp
  then show ?thesis using assms by (simp add: readerAccepts_frames)
qed

lemma reader_segmentation_independent_witness:
  "readerAccepts [] [[0, 0], [4, 8, 0, 0], [0, 0, 0, 1]] = readerAccepts [] [[0, 0, 4, 8], [0, 0, 0, 0, 0, 1]]"
  using reader_segmentation_independent [of "[[0, 0], [4, 8, 0, 0], [0, 0, 0, 1]]" "[[0, 0, 4, 8], [0, 0, 0, 0, 0, 1]]"]
  by simp



section \<open>The size of the accumulation buffer\<close>

lemma unat_be24: "unat (be24 a b c) < 2 ^ 24"
proof -
  have "be24 a b c = be24 a b c AND mask 24"
    by (rule bit_word_eqI) (auto simp: be24_def bit_simps dest: bit_byte_bound)
  then have "be24 a b c \<le> mask 24" by (metis word_and_le1)
  then show ?thesis by (simp add: word_le_nat_alt mask_eq_exp_minus_1)
qed

definition payloadBytes :: "frame list \<Rightarrow> nat" where
  "payloadBytes fs = (\<Sum>f\<leftarrow>fs. length (fr_payload f))"

lemma framesFrom_size:
  "framesFrom acc offset = (fs, e) \<Longrightarrow> offset \<le> length acc \<Longrightarrow>
     offset + 9 * length fs + payloadBytes fs = e \<and> length acc < e + 9 + 2 ^ 24"
proof (induction acc offset arbitrary: fs e rule: framesFrom.induct)
  case (1 acc offset)
  let ?n = "unat (frameLengthAt acc offset)"
  have n: "?n < 2 ^ 24" unfolding frameLengthAt_def by (rule unat_be24)
  consider "length acc < offset + 9" | "offset + 9 \<le> length acc" "length acc < offset + 9 + ?n"
    | "offset + 9 + ?n \<le> length acc" by linarith
  then show ?case
  proof cases
    case 1
    then have "framesFrom acc offset = ([], offset)" by (subst framesFrom.simps) simp
    then show ?thesis using \<open>framesFrom acc offset = (fs, e)\<close> 1 by (simp add: payloadBytes_def)
  next
    case 2
    then have "framesFrom acc offset = ([], offset)" by (subst framesFrom.simps) simp
    then show ?thesis using \<open>framesFrom acc offset = (fs, e)\<close> 2 n by (simp add: payloadBytes_def)
  next
    case 3
    obtain gs e' where r: "framesFrom acc (offset + (9 + ?n)) = (gs, e')" by fastforce
    then have "framesFrom acc offset = (frameAt acc offset # gs, e')"
      using 3 by (subst framesFrom.simps) (simp add: Let_def)
    then have fs: "fs = frameAt acc offset # gs" "e = e'" using \<open>framesFrom acc offset = (fs, e)\<close> by simp_all
    have "length (fr_payload (frameAt acc offset)) = ?n" using 3 by (simp add: frameAt_def)
    moreover have "offset + (9 + ?n) + 9 * length gs + payloadBytes gs = e' \<and> length acc < e' + 9 + 2 ^ 24"
      by (rule "1.IH") (use 3 r in simp_all)
    ultimately show ?thesis using fs by (simp add: payloadBytes_def)
  qed
qed

text \<open>The accumulation buffer is bounded: what one read leaves behind is shorter than one frame
  of maximal length, whatever the peer sends, and the payloads dispatched for one read fit in what
  was buffered and read.\<close>

theorem reader_buffer_bounded:
  assumes "readerAccept acc buffer = (fs, rest)"
  shows "length rest < 9 + 2 ^ 24 \<and> length rest + 9 * length fs + payloadBytes fs = length acc + length buffer"
proof -
  obtain e where e: "framesFrom (acc @ buffer) 0 = (fs, e)" "rest = drop e (acc @ buffer)"
    using assms by (auto simp: readerAccept_def Let_def split: prod.splits)
  have "e \<le> length (acc @ buffer)" using framesFrom_bound [OF e(1)] by simp
  then show ?thesis using framesFrom_size [OF e(1)] e(2) by auto
qed

lemma reader_buffer_bounded_witness:
  "readerAccept [0, 0] [4, 8, 0, 0, 0, 0, 1, 7, 7, 7, 7, 9] = ([\<lparr>fr_type = 8, fr_flags = 0, fr_streamId = 1,
     fr_payload = [7, 7, 7, 7]\<rparr>], [9]) \<and> length [9 :: byte] < 9 + 2 ^ 24"
proof -
  have "framesFrom [0, 0, 4, 8, 0, 0, 0, 0, 1, 7, 7, 7, 7, 9] 13 = ([], 13)"
    by (subst framesFrom.simps) simp
  moreover have "frameLengthAt [0, 0, 4, 8, 0, 0, 0, 0, 1, 7, 7, 7, 7, 9] 0 = 4"
    by (simp add: frameLengthAt_def be24_def)
  ultimately have r: "readerAccept [0, 0] [4, 8, 0, 0, 0, 0, 1, 7, 7, 7, 7, 9] = ([\<lparr>fr_type = 8, fr_flags = 0, fr_streamId = 1,
     fr_payload = [7, 7, 7, 7]\<rparr>], [9])"
    by (simp add: readerAccept_def framesFrom.simps [of _ 0] frameAt_def be32_def)
  with reader_buffer_bounded [OF r] show ?thesis by simp
qed

text \<open>With reads of 16384 bytes a batch therefore consumes less than \<open>2 ^ 26\<close> bytes.\<close>

lemma reader_batch_bounded:
  assumes "framesFrom (acc @ buffer) 0 = (fs, e)" "length acc < 9 + 2 ^ 24" "length buffer \<le> 16384"
  shows "payloadBytes fs \<le> 2 ^ 26"
  using framesFrom_size [OF assms(1)] framesFrom_bound [OF assms(1)] assms(2,3) by simp

section \<open>The frames the client writes\<close>

text \<open>
  The increment \<open>handleWindowUpdateFrame\<close> reads, and the error code of an RST_STREAM payload.
\<close>

definition handleWindowUpdateFrame :: "bytes \<Rightarrow> 32 word option" where
  "handleWindowUpdateFrame payload =
     (if length payload = 4
      then Some (be32 (payload ! 0 AND 0x7F) (payload ! 1) (payload ! 2) (payload ! 3)) else None)"

definition rstErrorCode :: "bytes \<Rightarrow> 32 word" where
  "rstErrorCode payload = be32 (payload ! 0) (payload ! 1) (payload ! 2) (payload ! 3)"

lemma streamIdBytes_masked: "streamIdBytes (s AND 0x7FFFFFFF) = streamIdBytes s"
  unfolding streamIdBytes_def mask_bytes
  by (auto intro!: bit_word_eqI simp: bit_simps)

lemma masked_bound: "s AND 0x7FFFFFFF < (2147483648 :: 32 word)"
  by (rule le_less_trans [OF word_and_le1]) simp

lemma ff_ucast: "ucast (w :: 'a::len word) AND 0xFF = (ucast w :: byte)"
  unfolding mask_bytes by (auto intro!: bit_word_eqI simp: bit_simps)

lemma readerAccept_single:
  assumes "frameOk f" shows "readerAccepts [] [wireFrame f] = ([f], [])"
  using readerAccepts_frames [of "[]" "[wireFrame f]"] framesFrom_wire [of "[f]" "[]" "[]"] assms
  by (simp add: framesFrom.simps)

lemma readerAccept_one: "frameOk f \<Longrightarrow> readerAccept [] (wireFrame f) = ([f], [])"
  using readerAccept_single [of f] by (simp split: prod.splits)

lemma windowUpdate_wire:
  "fillWindowUpdateFrame s n = wireFrame \<lparr>fr_type = 0x8, fr_flags = 0, fr_streamId = s AND 0x7FFFFFFF,
     fr_payload = streamIdBytes n\<rparr>"
  by (simp add: fillWindowUpdateFrame_def wireFrame_def Let_def streamIdBytes_masked)
    (simp add: streamIdBytes_def)

lemma rstStream_wire:
  "fillRSTStreamFrame s = wireFrame \<lparr>fr_type = 0x3, fr_flags = 0, fr_streamId = s AND 0x7FFFFFFF,
     fr_payload = [0, 0, 0, 0x8]\<rparr>"
  by (simp add: fillRSTStreamFrame_def wireFrame_def Let_def streamIdBytes_masked)

lemma dataFrame_wire:
  "dataFrame s p = wireFrame \<lparr>fr_type = 0, fr_flags = 1, fr_streamId = s AND 0x7FFFFFFF, fr_payload = p\<rparr>"
proof -
  have "ucast (drop_bit k (word_of_nat n :: 64 word)) AND 0xFF = (ucast (drop_bit k (word_of_nat n :: 32 word)) :: byte)"
    if "k \<le> 16" for k n
    using that unfolding mask_bytes by (auto intro!: bit_word_eqI simp: bit_simps)
  from this [of 16] this [of 8] this [of 0] show ?thesis
    by (simp add: dataFrame_def wireFrame_def Let_def streamIdBytes_masked)
qed

text \<open>
  What the client writes is what a peer reads: a WINDOW_UPDATE carries its stream and its
  increment (31 bits each), an RST_STREAM its stream and CANCEL, and a DATA frame with a body
  below \<open>2 ^ 24\<close> bytes its stream, the body and END_STREAM.
\<close>

theorem client_frames_parse:
  "readerAccepts [] [fillWindowUpdateFrame s n]
     = ([\<lparr>fr_type = 0x8, fr_flags = 0, fr_streamId = s AND 0x7FFFFFFF, fr_payload = streamIdBytes n\<rparr>], [])
   \<and> handleWindowUpdateFrame (streamIdBytes n) = Some (n AND 0x7FFFFFFF)
   \<and> readerAccepts [] [fillRSTStreamFrame s]
     = ([\<lparr>fr_type = 0x3, fr_flags = 0, fr_streamId = s AND 0x7FFFFFFF, fr_payload = [0, 0, 0, 0x8]\<rparr>], [])
   \<and> rstErrorCode [0, 0, 0, 0x8] = 0x8
   \<and> (length p < 2 ^ 24 \<longrightarrow> readerAccepts [] [dataFrame s p]
     = ([\<lparr>fr_type = 0, fr_flags = 1, fr_streamId = s AND 0x7FFFFFFF, fr_payload = p\<rparr>], []))"
proof -
  have "handleWindowUpdateFrame (streamIdBytes n) = Some (n AND 0x7FFFFFFF)"
    using be32_streamId [of n] by (simp add: handleWindowUpdateFrame_def streamIdBytes_def)
  then show ?thesis
    by (auto simp: windowUpdate_wire rstStream_wire dataFrame_wire rstErrorCode_def be32_def frameOk_def masked_bound
        readerAccept_one)
qed

lemma client_frames_parse_witness:
  "readerAccepts [] [dataFrame 3 [1, 2]] = ([\<lparr>fr_type = 0, fr_flags = 1, fr_streamId = 3, fr_payload = [1, 2]\<rparr>], [])"
  using client_frames_parse [of 3 0 "[1, 2]"] by simp

text \<open>A body of \<open>2 ^ 24\<close> bytes gets the length field 0: the 24-bit field silently wraps.\<close>

lemma dataFrame_length_wraps:
  "length p = 2 ^ 24 \<Longrightarrow> frameLengthAt (dataFrame s p) 0 = 0"
  by (simp add: dataFrame_def Let_def frameLengthAt_def be24_def)

end
