(* ===== verification/HpackEncode.thy ===== *)
theory HpackEncode
  imports HpackDecode Frames
begin

text \<open>
  The request side of HPACK, \<open>src/Http2RequestHandler.c\<close>: how the client encodes its header
  list (\<open>hpackPseudoHeaders\<close>, \<open>hpackHeaders\<close>) and frames the block
  (\<open>buildHeadersFrameBuffer\<close>, \<open>buildHttp2HeadersFrame\<close>). The encoder never refers to dynamic
  entries. A write past the end of one of its buffers is \<open>None\<close>.
\<close>

section \<open>The static names\<close>

definition requestHeaderHpackStaticTable :: "(string \<times> nat) list" where
  "requestHeaderHpackStaticTable =
    [(''accept'', 19), (''accept-charset'', 15), (''accept-encoding'', 16),
     (''accept-language'', 17), (''accept-ranges'', 18), (''access-control-allow-origin'', 20),
     (''age'', 21), (''allow'', 22), (''authorization'', 23),
     (''cache-control'', 24), (''content-disposition'', 25), (''content-encoding'', 26),
     (''content-language'', 27), (''content-length'', 28), (''content-location'', 29),
     (''content-range'', 30), (''content-type'', 31), (''cookie'', 32),
     (''date'', 33), (''etag'', 34), (''expect'', 35),
     (''expires'', 36), (''from'', 37), (''host'', 38),
     (''if-match'', 39), (''if-modified-since'', 40), (''if-none-match'', 41),
     (''if-range'', 42), (''if-unmodified-since'', 43), (''last-modified'', 44),
     (''link'', 45), (''location'', 46), (''max-forwards'', 47),
     (''proxy-authenticate'', 48), (''proxy-authorization'', 49), (''range'', 50),
     (''referer'', 51), (''refresh'', 52), (''retry-after'', 53),
     (''server'', 54), (''set-cookie'', 55), (''strict-transport-security'', 56),
     (''transfer-encoding'', 57), (''user-agent'', 58), (''vary'', 59),
     (''via'', 60), (''www-authenticate'', 61)]"

text \<open>\<open>bsearch\<close> over the sorted table with \<open>strcasecmp\<close>: the entry of that name, if any.\<close>

definition staticNameIndex :: "string \<Rightarrow> nat option" where
  "staticNameIndex name =
     map_option snd (find (\<lambda>(n, i). strcaseeq name n) requestHeaderHpackStaticTable)"

record reqHeader =
  rh_name :: string
  rh_value :: string
  rh_isPseudo :: bool

section \<open>Header fields\<close>

text \<open>
  A regular field. The name buffer holds 128 bytes, the value buffer twice the value's length;
  \<open>0x80 | 0x7F\<close> and one more byte stand for a name of 128 bytes, while one of 127 bytes gets
  no second length byte.
\<close>

definition hpackHeaders :: "reqHeader \<Rightarrow> bytes option" where
  "hpackHeaders header =
     (let nameField =
            (case staticNameIndex (rh_name header) of
               Some staticIndex \<Rightarrow> Some [0x40 OR word_of_nat staticIndex]
             | None \<Rightarrow>
                 (let huffName = hpackHuffmanEncode (strBytes (rh_name header));
                      huffNameLen = length huffName
                  in if huffNameLen > 128 then None
                     else if huffNameLen < 128 then Some (0x00 # (0x80 OR word_of_nat huffNameLen) # huffName)
                     else Some (0x00 # (0x80 OR 0x7F) # word_of_nat (huffNameLen - 127) # huffName)));
          huffValue = hpackHuffmanEncode (strBytes (rh_value header));
          huffValueLen = length huffValue
      in case nameField of
           None \<Rightarrow> None
         | Some nf \<Rightarrow>
             if huffValueLen > length (rh_value header) * 2 then None
             else Some (nf @ hpackEncodeInteger huffValueLen 7 0x80 @ huffValue))"

definition literalPseudo :: "reqHeader \<Rightarrow> bytes option" where
  "literalPseudo header =
     map_option (\<lambda>v. 0x00 # hpackEncodeInteger (length (rh_name header)) 7 0x00 @ strBytes (rh_name header) @ v)
       (writeHuffmanValue (strBytes (rh_value header)))"

text \<open>
  A pseudo-header field: the bytes written (\<open>None\<close> for a buffer overflow) and the error.
  The \<open>:scheme\<close> branch compares the name, not the value, with the two known schemes.
\<close>

definition hpackPseudoHeaders :: "reqHeader \<Rightarrow> bytes option \<times> error" where
  "hpackPseudoHeaders header =
     (let name = rh_name header; v = rh_value header in
      if strcaseeq name '':method'' then
        (if strcaseeq v ''GET'' then (Some [0x82], ERR_NONE)
         else if strcaseeq v ''POST'' then (Some [0x83], ERR_NONE)
         else (literalPseudo header, ERR_NONE))
      else if strcaseeq name '':scheme'' then
        (if strcaseeq name ''https'' then (Some [0x87], ERR_NONE)
         else if strcaseeq name ''http'' then (Some [0x86], ERR_NONE)
         else (literalPseudo header, ERR_NONE))
      else if strcaseeq name '':authority'' \<or> strcaseeq name '':path'' then
        (let staticIndex = (if strcaseeq name '':authority'' then 0x41 else 0x44)
         in (map_option (\<lambda>w. staticIndex # w) (writeHuffmanValue (strBytes v)), ERR_NONE))
      else (Some [], ERR_REQUEST_UNKNOWN_PSEUDO_HEADER))"

section \<open>The HEADERS frame\<close>

text \<open>
  The size of the encoding buffer: \<open>(nameSize + valueSize) * 1.2 + 10\<close> per header, rounded down,
  doubled for a header named \<open>cookies\<close>, and 512 on top.
\<close>

definition calculateHpackBufferSize :: "reqHeader list \<Rightarrow> nat" where
  "calculateHpackBufferSize headers =
     sum_list (map (\<lambda>h. let estimatedSize = ((length (rh_name h) + length (rh_value h)) * 12) div 10 + 10
                         in if strcaseeq (rh_name h) ''cookies'' then estimatedSize * 2 else estimatedSize) headers) + 512"

text \<open>
  The frame. \<open>buffer\<close> is what is written from its start; the result is \<open>size_t\<close>, so the
  \<open>-1\<close> of a frame that does not fit is the largest 64-bit word.
\<close>

definition buildHeadersFrameBuffer ::
    "nat \<Rightarrow> bool \<Rightarrow> bytes \<Rightarrow> 32 word \<Rightarrow> bool \<Rightarrow> bytes \<times> 64 word" where
  "buildHeadersFrameBuffer bufferSize hasPayload hpackBuffer streamId includePriority =
     (let priorityData = (if includePriority then [0x80, 0, 0, 0, 255] else []);
          totalPayloadLen = length priorityData + length hpackBuffer;
          n = (word_of_nat totalPayloadLen :: 64 word);
          flags = 0x04 OR (if \<not> hasPayload then 0x01 else 0) OR (if includePriority then 0x20 else 0)
      in if totalPayloadLen + 9 > bufferSize then ([], - 1)
         else ([ucast (drop_bit 16 n AND 0xFF), ucast (drop_bit 8 n AND 0xFF), ucast (n AND 0xFF), 0x01, flags,
                ucast (drop_bit 24 streamId AND 0x7F), ucast (drop_bit 16 streamId AND 0xFF),
                ucast (drop_bit 8 streamId AND 0xFF), ucast (streamId AND 0xFF)]
               @ priorityData @ hpackBuffer, n))"

text \<open>
  The header loop of \<open>buildHttp2HeadersFrame\<close>: regular \<open>connection\<close> fields are skipped, the
  first error ends it. \<open>None\<close> is a buffer overflow inside a field's encoder.
\<close>

fun hpackAll :: "reqHeader list \<Rightarrow> bytes option \<times> error" where
  "hpackAll [] = (Some [], ERR_NONE)"
| "hpackAll (h # hs) =
     (if \<not> rh_isPseudo h \<and> strcaseeq (rh_name h) ''connection'' then hpackAll hs
      else (case (if rh_isPseudo h then hpackPseudoHeaders h else (hpackHeaders h, ERR_NONE)) of
              (None, e) \<Rightarrow> (None, e)
            | (Some bs, e) \<Rightarrow>
                if failed e then (Some bs, e)
                else (case hpackAll hs of (r, e) \<Rightarrow> (map_option (\<lambda>r. bs @ r) r, e))))"

text \<open>
  \<open>buildHttp2HeadersFrame\<close>: the frame bytes in the caller's buffer, the returned length and
  the error; \<open>None\<close> when an encoding buffer overflows.
\<close>

definition buildHttp2HeadersFrame ::
    "nat \<Rightarrow> reqHeader list \<Rightarrow> bool \<Rightarrow> 32 word \<Rightarrow> bool \<Rightarrow> (bytes \<times> 64 word \<times> error) option" where
  "buildHttp2HeadersFrame bufferSize headers hasPayload streamId includePriority =
     (case hpackAll headers of
        (None, e) \<Rightarrow> None
      | (Some block, e) \<Rightarrow>
          if length block > calculateHpackBufferSize headers then None
          else if failed e then Some ([], - 1, e)
          else (let (buffer, totalPayloadLen) =
                      buildHeadersFrameBuffer bufferSize hasPayload block streamId includePriority
                in Some (buffer, totalPayloadLen + 9, ERR_NONE)))"

section \<open>What the encoder writes\<close>

text \<open>The instruction a field is meant to be.\<close>

definition headerInstr :: "reqHeader \<Rightarrow> (bool \<times> bool) \<times> hinstr" where
  "headerInstr h =
     (let name = rh_name h; v = rh_value h in
      if rh_isPseudo h then
        (if strcaseeq name '':method'' \<and> strcaseeq v ''GET'' then ((False, False), Indexed 2)
         else if strcaseeq name '':method'' \<and> strcaseeq v ''POST'' then ((False, False), Indexed 3)
         else if strcaseeq name '':authority'' then ((False, True), Literal Incremental (NameIndex 1) v)
         else if strcaseeq name '':path'' then ((False, True), Literal Incremental (NameIndex 4) v)
         else ((False, True), Literal WithoutIndexing (NameLiteral name) v))
      else (case staticNameIndex name of
              Some i \<Rightarrow> ((False, True), Literal Incremental (NameIndex i) v)
            | None \<Rightarrow> ((True, True), Literal WithoutIndexing (NameLiteral name) v)))"

text \<open>
  The fields the encoder handles: C strings within 32-bit lengths, bytes with codes of at most
  25 bits, and a literal name whose Huffman form is shorter than 127 bytes.
\<close>

definition encodableField :: "reqHeader \<Rightarrow> bool" where
  "encodableField h \<longleftrightarrow>
     wireStringOk (\<not> rh_isPseudo h) (rh_name h) \<and> wireStringOk True (rh_value h)
     \<and> (\<not> rh_isPseudo h \<longrightarrow> staticNameIndex (rh_name h) = None
          \<longrightarrow> length (hpackHuffmanEncode (strBytes (rh_name h))) < 127)"

text \<open>The request table agrees with the response table, entry by entry.\<close>

lemma nth_numeral: "(x # xs) ! numeral k = xs ! pred_numeral k" "(x # xs) ! 0 = x"
  by (simp_all add: numeral_eq_Suc)

lemma static_tables_agree:
  "list_all (\<lambda>(n, i). fst (responseHeaderStaticTable ! i) = n) requestHeaderHpackStaticTable"
  "list_all (\<lambda>(n, i). 0 < i \<and> i \<le> 61) requestHeaderHpackStaticTable"
  unfolding requestHeaderHpackStaticTable_def responseHeaderStaticTable_def
  by (simp_all only: list.pred_inject prod.case nth_numeral pred_numeral_simps BitM.simps fst_conv HOL.simp_thms
      zero_less_numeral numeral_le_iff le_num_simps less_num_simps)

lemma static_names_agree:
  "staticNameIndex name = Some i \<Longrightarrow>
     0 < i \<and> i \<le> 61 \<and> strcaseeq name (fst (responseHeaderStaticTable ! i))"
proof -
  assume "staticNameIndex name = Some i"
  then obtain n where n: "find (\<lambda>(n, i). strcaseeq name n) requestHeaderHpackStaticTable = Some (n, i)"
    by (auto simp: staticNameIndex_def)
  then have "(n, i) \<in> set requestHeaderHpackStaticTable" "strcaseeq name n"
    by (auto simp: find_Some_iff in_set_conv_nth)
  then show ?thesis using static_tables_agree by (auto simp: list_all_iff)
qed

lemma writeHuffmanValue_wire:
  "writeHuffmanValue (strBytes s) = Some bs \<Longrightarrow> bs = wireString True s"
  by (cases s) (auto simp: writeHuffmanValue_def wireString_def Let_def hpackEncodeInteger_def
      hpackHuffmanEncode_def padByte_def split: if_splits)

lemma small_integer:
  "hpackEncodeInteger 0 4 0 = [0]" "hpackEncodeInteger 1 6 0x40 = [0x41]" "hpackEncodeInteger 4 6 0x40 = [0x44]"
  "hpackEncodeInteger 2 7 0x80 = [0x82]" "hpackEncodeInteger 3 7 0x80 = [0x83]"
  "i \<le> 61 \<Longrightarrow> hpackEncodeInteger i 6 0x40 = [0x40 OR word_of_nat i]"
  "n < 127 \<Longrightarrow> hpackEncodeInteger n 7 0x80 = [0x80 OR word_of_nat n]"
  by (simp_all add: hpackEncodeInteger_def)

lemma hpackHeaders_wire:
  assumes "hpackHeaders h = Some bs" "encodableField h" "\<not> rh_isPseudo h"
  shows "bs = wireInstr (fst (headerInstr h)) (snd (headerInstr h))"
proof -
  let ?v = "hpackHuffmanEncode (strBytes (rh_value h))" and ?n = "hpackHuffmanEncode (strBytes (rh_name h))"
  have v: "wireString True (rh_value h) = hpackEncodeInteger (length ?v) 7 0x80 @ ?v"
    by (simp add: wireString_def Let_def)
  show ?thesis
  proof (cases "staticNameIndex (rh_name h)")
    case None
    then have "length ?n < 127" using assms(2,3) by (simp add: encodableField_def)
    then show ?thesis using assms(1,3) None
      by (auto simp: hpackHeaders_def headerInstr_def Let_def v wireString_def small_integer split: if_splits)
  next
    case (Some i)
    then have "i \<le> 61" using static_names_agree by blast
    then show ?thesis using assms(1,3) Some
      by (auto simp: hpackHeaders_def headerInstr_def Let_def v small_integer split: if_splits)
  qed
qed

lemma strcaseeq_lower: "map toLower b = b \<Longrightarrow> strcaseeq a b \<longleftrightarrow> map toLower a = b"
  by (simp add: strcaseeq_def)

lemma pseudo_names:
  "strcaseeq a '':method'' \<longleftrightarrow> map toLower a = '':method''"
  "strcaseeq a '':scheme'' \<longleftrightarrow> map toLower a = '':scheme''"
  "strcaseeq a '':authority'' \<longleftrightarrow> map toLower a = '':authority''"
  "strcaseeq a '':path'' \<longleftrightarrow> map toLower a = '':path''"
  "strcaseeq a ''https'' \<longleftrightarrow> map toLower a = ''https''"
  "strcaseeq a ''http'' \<longleftrightarrow> map toLower a = ''http''"
  by (simp_all add: strcaseeq_lower toLower_def)

lemma literalPseudo_wire:
  assumes "literalPseudo h = Some bs" 
  shows "bs = wireInstr (False, True) (Literal WithoutIndexing (NameLiteral (rh_name h)) (rh_value h))"
  using assms writeHuffmanValue_wire
  by (auto simp: literalPseudo_def wireString_def Let_def small_integer)

lemma hpackPseudoHeaders_wire:
  assumes "hpackPseudoHeaders h = (Some bs, e)" "\<not> failed e" "rh_isPseudo h"
  shows "bs = wireInstr (fst (headerInstr h)) (snd (headerInstr h))"
proof -
  define n where "n = map toLower (rh_name h)"
  consider "n = '':method''" | "n = '':scheme''" | "n = '':authority''" | "n = '':path''"
    using assms(1,2) by (auto simp: hpackPseudoHeaders_def Let_def pseudo_names n_def split: if_splits)
  then show ?thesis
  proof cases
    case 1
    then show ?thesis using assms literalPseudo_wire [of h bs]
      by (simp add: hpackPseudoHeaders_def headerInstr_def Let_def pseudo_names n_def [symmetric] small_integer split: if_splits)
  next
    case 2
    then show ?thesis using assms literalPseudo_wire [of h bs]
      by (simp add: hpackPseudoHeaders_def headerInstr_def Let_def pseudo_names n_def [symmetric])
  next
    case 3
    then show ?thesis using assms writeHuffmanValue_wire [of "rh_value h"]
      by (auto simp add: hpackPseudoHeaders_def headerInstr_def Let_def pseudo_names n_def [symmetric] small_integer)
  next
    case 4
    then show ?thesis using assms writeHuffmanValue_wire [of "rh_value h"]
      by (auto simp add: hpackPseudoHeaders_def headerInstr_def Let_def pseudo_names n_def [symmetric] small_integer)
  qed
qed

text \<open>The fields that are sent: everything but a regular \<open>connection\<close> field.\<close>

definition sentField :: "reqHeader \<Rightarrow> bool" where
  "sentField h \<longleftrightarrow> \<not> (\<not> rh_isPseudo h \<and> strcaseeq (rh_name h) ''connection'')"

lemma hpackAll_wire:
  "\<lbrakk>hpackAll hs = (Some block, e); \<not> failed e; list_all encodableField (filter sentField hs)\<rbrakk> \<Longrightarrow>
     block = wireBlock (map headerInstr (filter sentField hs))"
proof (induction hs arbitrary: block)
  case Nil
  then show ?case by simp
next
  case (Cons h hs)
  show ?case
  proof (cases "sentField h")
    case False
    then have "hpackAll hs = (Some block, e)"
      using Cons.prems(1) by (simp add: sentField_def)
    then show ?thesis using Cons.IH Cons.prems(2,3) False by simp
  next
    case True
    then have c: "\<not> (\<not> rh_isPseudo h \<and> strcaseeq (rh_name h) ''connection'')" by (simp add: sentField_def)
    obtain bs e1 where one: "(if rh_isPseudo h then hpackPseudoHeaders h else (hpackHeaders h, ERR_NONE)) = (Some bs, e1)"
      "\<not> failed e1"
      using Cons.prems(1,2) c by (auto split: if_splits prod.splits option.splits)
    then obtain r where r: "hpackAll hs = (Some r, e)" "block = bs @ r"
      using Cons.prems(1) c by (auto split: prod.splits)
    have enc: "encodableField h" using Cons.prems(3) True by simp
    have "bs = wireInstr (fst (headerInstr h)) (snd (headerInstr h))"
      using one hpackPseudoHeaders_wire [of h bs e1] hpackHeaders_wire [OF _ enc, of bs] by (auto split: if_splits)
    moreover have "r = wireBlock (map headerInstr (filter sentField hs))"
      using Cons.IH [OF r(1) Cons.prems(2)] Cons.prems(3) True by simp
    ultimately show ?thesis using r(2) True by (cases "headerInstr h") simp
  qed
qed

text \<open>Two fields are the same up to letter case where HTTP ignores it.\<close>

definition sameField :: "reqHeader \<Rightarrow> header \<Rightarrow> bool" where
  "sameField h f \<longleftrightarrow> strcaseeq (rh_name h) (fst f) \<and> strcaseeq (rh_value h) (snd f)
     \<and> (\<not> rh_isPseudo h \<longrightarrow> snd f = rh_value h)"

lemma wireOk_headerInstr: "encodableField h \<Longrightarrow> wireOk (fst (headerInstr h)) (snd (headerInstr h))"
  by (auto simp: encodableField_def headerInstr_def Let_def wireStringOk_def dest!: static_names_agree split: option.splits)

lemma static_pseudo:
  "rfcLookup t 1 = Some ('':authority'', [])" "rfcLookup t 2 = Some ('':method'', ''GET'')"
  "rfcLookup t 3 = Some ('':method'', ''POST'')" "rfcLookup t 4 = Some ('':path'', ''/'')"
  by (simp_all add: rfcLookup_code responseHeaderStaticTable_def)

lemma rfcStep_headerInstr:
  "\<exists>st' f. rfcStep (snd (headerInstr h)) st = Some (st', [f]) \<and> sameField h f"
proof -
  obtain m t where st: "st = (m, t)" by fastforce
  have pseudo: ?thesis if "rh_isPseudo h"
    using that by (auto simp: st headerInstr_def Let_def sameField_def static_pseudo static_pseudo(1) [unfolded One_nat_def])
  have regular: ?thesis if "\<not> rh_isPseudo h"
  proof (cases "staticNameIndex (rh_name h)")
    case None
    then show ?thesis using that by (simp add: st headerInstr_def Let_def sameField_def)
  next
    case (Some i)
    then have "rfcLookup t i = Some (responseHeaderStaticTable ! i)"
      "strcaseeq (rh_name h) (fst (responseHeaderStaticTable ! i))"
      using static_names_agree [OF Some] by (auto simp: rfcLookup_code)
    then show ?thesis using that Some by (simp add: st headerInstr_def Let_def sameField_def)
  qed
  show ?thesis using pseudo regular by blast
qed

lemma rfcRun_headers:
  "\<exists>st' fs. rfcRun (map snd (map headerInstr hs)) st = Some (st', fs) \<and> list_all2 sameField hs fs"
proof (induction hs arbitrary: st)
  case (Cons h hs)
  obtain st1 f where 1: "rfcStep (snd (headerInstr h)) st = Some (st1, [f])" "sameField h f"
    using rfcStep_headerInstr by blast
  obtain st2 fs where 2: "rfcRun (map snd (map headerInstr hs)) st1 = Some (st2, fs)" "list_all2 sameField hs fs"
    using Cons.IH by blast
  show ?case using 1 2 by (auto intro!: exI [of _ st2] exI [of _ "f # fs"])
qed simp

lemma hpackAll_decodes:
  assumes "\<forall>n. alloc n" "hpackAll hs = (Some block, e)" "\<not> failed e"
    and "list_all encodableField (filter sentField hs)" "filter sentField hs \<noteq> []"
    and "length (filter sentField hs) \<le> RESPONSE_HEADERS_MAX_SIZE" "dc_headers d = Some old"
  shows "\<exists>fs. dc_headers (decodeHeadersFrame alloc block d) = Some fs \<and> list_all2 sameField (filter sentField hs) fs
    \<and> dc_error (decodeHeadersFrame alloc block d) = dc_error d"
proof -
  let ?ins = "map headerInstr (filter sentField hs)"
  have b: "block = wireBlock ?ins" using assms(2-4) by (rule hpackAll_wire)
  obtain st' fs where r: "rfcRun (map snd ?ins) (decState d) = Some (st', fs)" "list_all2 sameField (filter sentField hs) fs"
    using rfcRun_headers by blast
  have ok: "list_all (\<lambda>(f, i). wireOk f i) ?ins"
    using assms(4) by (auto simp: list_all_iff case_prod_unfold intro!: wireOk_headerInstr)
  have "length fs \<le> RESPONSE_HEADERS_MAX_SIZE"
    using r(2) assms(6) by (simp add: list_all2_lengthD [symmetric])
  then show ?thesis
    using decodeHeadersFrame_wire [OF assms(1) ok _ r(1)] assms(5,7) b r(2) by auto
qed

text \<open>
  C7. What the client encodes is what it means: whenever its HPACK encoder succeeds on a header
  list of encodable fields, the client's own RFC 7541 decoder reads back, from any table state
  and without error, exactly those fields in order (without \<open>connection\<close>), with equal values and
  with names equal up to letter case.
\<close>

theorem request_headers_roundtrip:
  assumes "\<forall>n. alloc n" "hpackAll hs = (Some block, e)" "\<not> failed e"
    and "list_all encodableField (filter sentField hs)" "filter sentField hs \<noteq> []"
    and "length (filter sentField hs) \<le> RESPONSE_HEADERS_MAX_SIZE" "dc_headers d = Some old"
  shows "\<exists>fs. dc_headers (decodeHeadersFrame alloc block d) = Some fs \<and> list_all2 sameField (filter sentField hs) fs
    \<and> dc_error (decodeHeadersFrame alloc block d) = dc_error d"
  using assms by (rule hpackAll_decodes)

definition sampleRequest :: "reqHeader list" where
  "sampleRequest = [\<lparr>rh_name = '':method'', rh_value = ''GET'', rh_isPseudo = True\<rparr>,
     \<lparr>rh_name = ''Connection'', rh_value = ''close'', rh_isPseudo = False\<rparr>,
     \<lparr>rh_name = ''Accept'', rh_value = ''a'', rh_isPseudo = False\<rparr>]"

lemma huffman_a: "hpackHuffmanEncode (strBytes ''a'') = [0x1f]"
  by (simp add: hpackHuffmanEncode_def strBytes_def byteOfChar_def huffmanTable_def drainBytes.simps padByte_def)

lemma sampleRequest_encoded: "hpackAll sampleRequest = (Some [0x82, 0x53, 0x81, 0x1f], ERR_NONE)"
proof -
  have a: "staticNameIndex ''Accept'' = Some 19"
    by (simp add: staticNameIndex_def requestHeaderHpackStaticTable_def strcaseeq_def toLower_def char_of_def bit_0)
  have n: "\<not> strcaseeq ''Accept'' ''connection''" "strcaseeq ''Connection'' ''connection''"
    "strcaseeq '':method'' '':method''" "strcaseeq ''GET'' ''GET''"
    by (simp_all add: strcaseeq_def toLower_def char_of_def bit_0)
  show ?thesis
    by (simp add: sampleRequest_def n hpackPseudoHeaders_def hpackHeaders_def a huffman_a small_integer
        del: strBytes_simps)
qed

lemma request_headers_roundtrip_witness:
  "\<exists>fs. dc_headers (decodeHeadersFrame (\<lambda>n. True) [0x82, 0x53, 0x81, 0x1f] \<lparr>dc_ctx = \<lparr>dynamicTable = [],
        dynamicTableCapacity = 0, dynamicTableMaxSize = 4096\<rparr>, dc_headers = Some [], dc_error = ERR_NONE\<rparr>) = Some fs
     \<and> list_all2 sameField [sampleRequest ! 0, sampleRequest ! 2] fs"
proof -
  have f: "filter sentField sampleRequest = [sampleRequest ! 0, sampleRequest ! 2]"
    by (simp add: sampleRequest_def sentField_def strcaseeq_def toLower_def char_of_def bit_0)
  have e: "list_all encodableField [sampleRequest ! 0, sampleRequest ! 2]"
    by (simp add: sampleRequest_def encodableField_def wireStringOk_def NUL_def byteOfChar_def huffmanTable_def
        staticNameIndex_def requestHeaderHpackStaticTable_def strcaseeq_def toLower_def char_of_def bit_0)
  show ?thesis
    using request_headers_roundtrip [OF _ sampleRequest_encoded, where alloc = "\<lambda>n. True" and old = "[]"
        and d = "\<lparr>dc_ctx = \<lparr>dynamicTable = [],
        dynamicTableCapacity = 0, dynamicTableMaxSize = 4096\<rparr>, dc_headers = Some [], dc_error = ERR_NONE\<rparr>"] e
    by (auto simp: f RESPONSE_HEADERS_MAX_SIZE_def)
qed

section \<open>The HEADERS frame as a frame\<close>

definition headersFlags :: "bool \<Rightarrow> bool \<Rightarrow> byte" where
  "headersFlags hasPayload includePriority =
     0x04 OR (if \<not> hasPayload then 0x01 else 0) OR (if includePriority then 0x20 else 0)"

lemma buildHeadersFrameBuffer_wire:
  assumes "length (priority @ block) + 9 \<le> bufferSize" "bufferSize \<le> 2 ^ 24"
    and "priority = (if includePriority then [0x80, 0, 0, 0, 255] else [])"
  shows "buildHeadersFrameBuffer bufferSize hasPayload block streamId includePriority
    = (wireFrame \<lparr>fr_type = 0x01, fr_flags = headersFlags hasPayload includePriority,
         fr_streamId = streamId AND 0x7FFFFFFF, fr_payload = priority @ block\<rparr>,
       word_of_nat (length (priority @ block)))"
proof -
  have w: "ucast (drop_bit k (word_of_nat m :: 64 word) AND 0xFF) = (ucast (drop_bit k (word_of_nat m :: 32 word)) :: byte)"
    if "k \<le> 16" for k m
  proof -
    have m: "(0xFF :: 64 word) = mask 8" by (simp add: mask_eq_exp_minus_1)
    show ?thesis unfolding m using that by (auto intro!: bit_word_eqI simp: bit_simps)
  qed
  have s: "[ucast (drop_bit 24 streamId AND 0x7F), ucast (drop_bit 16 streamId AND 0xFF),
            ucast (drop_bit 8 streamId AND 0xFF), ucast (streamId AND 0xFF)] = streamIdBytes streamId"
  proof -
    have m: "(0x7F :: 32 word) = mask 7" "(0xFF :: 32 word) = mask 8"
      by (simp_all add: mask_eq_exp_minus_1)
    show ?thesis unfolding streamIdBytes_def mask_bytes m
      by (auto intro!: bit_word_eqI simp: bit_simps)
  qed
  show ?thesis
    using assms w [of 16] w [of 8] w [of 0] w [of 16 "5 + length block"] w [of 8 "5 + length block"]
      w [of 0 "5 + length block"] s
    by (auto simp: buildHeadersFrameBuffer_def wireFrame_def Let_def headersFlags_def streamIdBytes_masked)
qed

text \<open>
  C30. The HEADERS frame is a frame: when the block fits the buffer, the bytes and the length
  handed to the socket are one HTTP/2 frame of type HEADERS on the request's stream, END_HEADERS
  set, END_STREAM set exactly when no body follows, PRIORITY announced exactly when the five
  priority bytes precede the block.
\<close>

theorem headers_frame_wellformed:
  assumes "hpackAll hs = (Some block, e)" "\<not> failed e" "length block \<le> calculateHpackBufferSize hs"
    and "priority = (if includePriority then [0x80, 0, 0, 0, 255] else [])"
    and "length (priority @ block) + 9 \<le> bufferSize" "bufferSize \<le> 2 ^ 24"
  shows "\<exists>buffer n. buildHttp2HeadersFrame bufferSize hs hasPayload streamId includePriority = Some (buffer, n, ERR_NONE)
    \<and> unat n = length buffer
    \<and> readerAccepts [] [buffer] = ([\<lparr>fr_type = 0x01, fr_flags = headersFlags hasPayload includePriority,
         fr_streamId = streamId AND 0x7FFFFFFF, fr_payload = priority @ block\<rparr>], [])"
proof -
  let ?f = "\<lparr>fr_type = 0x01, fr_flags = headersFlags hasPayload includePriority,
         fr_streamId = streamId AND 0x7FFFFFFF, fr_payload = priority @ block\<rparr>"
  have n: "unat (word_of_nat (length (priority @ block)) + 9 :: 64 word) = length (priority @ block) + 9"
  proof -
    have "(word_of_nat (length (priority @ block)) + 9 :: 64 word) = word_of_nat (length (priority @ block) + 9)"
      by simp
    then show ?thesis using assms(5,6) by (simp only: unat_of_nat) simp
  qed
  have "frameOk ?f" using assms(5,6) by (simp add: frameOk_def masked_bound)
  then have "readerAccepts [] [wireFrame ?f] = ([?f], [])" by (rule readerAccept_single)
  moreover have "buildHttp2HeadersFrame bufferSize hs hasPayload streamId includePriority
      = Some (wireFrame ?f, word_of_nat (length (priority @ block)) + 9, ERR_NONE)"
    using assms(1-3) buildHeadersFrameBuffer_wire [OF assms(5,6,4)] by (simp add: buildHttp2HeadersFrame_def)
  moreover have "length (wireFrame ?f) = length (priority @ block) + 9" by (simp add: wireFrame_length)
  ultimately show ?thesis using n
    by (intro exI [of _ "wireFrame ?f"] exI [of _ "word_of_nat (length (priority @ block)) + 9 :: 64 word"])
      (simp del: readerAccepts.simps)
qed

lemma headers_frame_wellformed_witness:
  "\<exists>buffer n. buildHttp2HeadersFrame 32768 sampleRequest False 5 False = Some (buffer, n, ERR_NONE)
    \<and> unat n = length buffer
    \<and> readerAccepts [] [buffer] = ([\<lparr>fr_type = 0x01, fr_flags = 0x05, fr_streamId = 5,
         fr_payload = [0x82, 0x53, 0x81, 0x1f]\<rparr>], [])"
  using headers_frame_wellformed [OF sampleRequest_encoded, of "[]" False 32768 False 5]
  by (simp add: calculateHpackBufferSize_def headersFlags_def)

text \<open>
  A block too large for the buffer is not reported: \<open>size_t\<close> -1 plus 9 makes the length 8, and
  eight bytes of an uninitialised buffer go on the wire.
\<close>

lemma oversized_block_unreported:
  assumes "hpackAll hs = (Some block, e)" "\<not> failed e" "length block \<le> calculateHpackBufferSize hs"
    and "bufferSize < length block + 9"
  shows "buildHttp2HeadersFrame bufferSize hs hasPayload streamId includePriority = Some ([], 8, ERR_NONE)"
  using assms by (simp add: buildHttp2HeadersFrame_def buildHeadersFrameBuffer_def Let_def)

end
