(* ===== verification/Decompress.thy ===== *)
theory Decompress
  imports HpackTable
begin

text \<open>
  Response body decoding, \<open>src/CompressHandler.c\<close>: the choice of the encoding
  (\<open>detectContentEncoding\<close>), the one-shot decoders and the incremental ones behind
  \<open>feedStreamDecompressor\<close>.

  zlib, Brotli and Zstandard are not part of the repository: they are the fields of
  \<open>decoderLib\<close>, functions on a decoder state of any type. A call hands them the unread input
  and the room in the output buffer and gets back a status, the number of bytes consumed, the
  bytes produced and the new state.
\<close>

section \<open>Encodings\<close>

datatype contentEncoding =
  ENCODING_IDENTITY | ENCODING_GZIP | ENCODING_DEFLATE | ENCODING_BROTLI | ENCODING_ZSTD

text \<open>The values of the C enumeration, which are also the bits of \<open>Basket.decompress\<close>.\<close>

fun encodingBit :: "contentEncoding \<Rightarrow> 32 word" where
  "encodingBit ENCODING_IDENTITY = 0"
| "encodingBit ENCODING_GZIP = 1"
| "encodingBit ENCODING_DEFLATE = 2"
| "encodingBit ENCODING_BROTLI = 4"
| "encodingBit ENCODING_ZSTD = 8"

text \<open>Only the first \<open>content-encoding\<close> field counts.\<close>

fun detectContentEncoding :: "header list \<Rightarrow> contentEncoding" where
  "detectContentEncoding [] = ENCODING_IDENTITY"
| "detectContentEncoding ((name, v) # headers) =
     (if \<not> strcaseeq name ''content-encoding'' then detectContentEncoding headers
      else if strcaseeq v ''gzip'' then ENCODING_GZIP
      else if strcaseeq v ''br'' then ENCODING_BROTLI
      else if strcaseeq v ''deflate'' then ENCODING_DEFLATE
      else if strcaseeq v ''zstd'' then ENCODING_ZSTD
      else ENCODING_IDENTITY)"

section \<open>The decoding libraries\<close>

datatype zstatus = Z_OK | Z_STREAM_END | Z_FAILED

datatype bresult = BROTLI_SUCCESS | BROTLI_NEEDS_MORE_INPUT | BROTLI_NEEDS_MORE_OUTPUT | BROTLI_ERROR

text \<open>
  \<open>lib_inflateInit\<close> is \<open>inflateInit2\<close> with the window bits; the \<open>nat option\<close> of Zstandard is
  \<open>None\<close> for an error code and the remaining-bufSize hint otherwise.
\<close>

record 'z decoderLib =
  lib_inflateInit :: "int \<Rightarrow> 'z option"
  lib_inflate :: "'z \<Rightarrow> bytes \<Rightarrow> nat \<Rightarrow> zstatus \<times> nat \<times> bytes \<times> 'z"
  lib_brotliCreate :: "'z option"
  lib_brotli :: "'z \<Rightarrow> bytes \<Rightarrow> nat \<Rightarrow> bresult \<times> nat \<times> bytes \<times> 'z"
  lib_zstdCreate :: "'z option"
  lib_zstd :: "'z \<Rightarrow> bytes \<Rightarrow> nat \<Rightarrow> nat option \<times> nat \<times> bytes \<times> 'z"
  lib_zstdContentSize :: "bytes \<Rightarrow> nat option"
  lib_zstdDecompress :: "bytes \<Rightarrow> nat \<Rightarrow> bytes option"

definition MAX_WBITS :: int where "MAX_WBITS = 15"

section \<open>One-shot decoding\<close>

text \<open>
  The outcome of a one-shot decoder: the null result of a failed allocation, an error, the
  payload, or the write of the terminating NUL behind a buffer the payload fills exactly.
\<close>

datatype decompressedObj = DecompNull | DecompError error | DecompOk bytes | DecompOverflow

definition terminated :: "bytes \<Rightarrow> nat \<Rightarrow> decompressedObj" where
  "terminated out bufferSize = (if length out < bufferSize then DecompOk out else DecompOverflow)"

definition sizeof_DecompressedObj :: nat where "sizeof_DecompressedObj = 32"

definition startSize :: "nat \<Rightarrow> nat \<Rightarrow> nat" where
  "startSize factor n = (if n * factor < 4096 then 4096 else n * factor)"

text \<open>
  The \<open>while (1)\<close> loops: a result of \<open>None\<close> is a loop that never ends. Every turn that needs
  more room doubles the buffer.
\<close>

partial_function (option) gzipLoop ::
    "(nat \<Rightarrow> bool) \<Rightarrow> 'z decoderLib \<Rightarrow> 'z \<Rightarrow> bytes \<Rightarrow> bytes \<Rightarrow> nat \<Rightarrow> decompressedObj option" where
  "gzipLoop alloc lib z input out bufSize =
     (case lib_inflate lib z input (bufSize - length out) of
        (status, n, produced, z) \<Rightarrow>
          if status = Z_STREAM_END then Some (terminated (out @ produced) bufSize)
          else if status \<noteq> Z_OK then Some (DecompError ERR_RESPONSE_GZIP_INFLATE_FAILED)
          else if \<not> alloc (bufSize * 2) then Some (DecompError ERR_SYSTEM_MEMORY_ALLOCATION_FAILED)
          else gzipLoop alloc lib z (drop n input) (out @ produced) (bufSize * 2))"

definition decompress_GZip :: "(nat \<Rightarrow> bool) \<Rightarrow> 'z decoderLib \<Rightarrow> bytes \<Rightarrow> decompressedObj option" where
  "decompress_GZip alloc lib payload =
     (if \<not> alloc sizeof_DecompressedObj then Some DecompNull else
      case lib_inflateInit lib (16 + MAX_WBITS) of
        None \<Rightarrow> Some (DecompError ERR_RESPONSE_GZIP_INFLATE_FAILED)
      | Some z \<Rightarrow>
          (let bufSize = startSize 4 (length payload)
           in if \<not> alloc bufSize then Some (DecompError ERR_SYSTEM_MEMORY_ALLOCATION_FAILED)
              else gzipLoop alloc lib z payload [] bufSize))"

text \<open>Brotli: the loop runs while the decoder asks for more output.\<close>

partial_function (option) brotliLoop ::
    "(nat \<Rightarrow> bool) \<Rightarrow> 'z decoderLib \<Rightarrow> 'z \<Rightarrow> bytes \<Rightarrow> bytes \<Rightarrow> nat \<Rightarrow> decompressedObj option" where
  "brotliLoop alloc lib z input out bufSize =
     (case lib_brotli lib z input (bufSize - length out) of
        (result, n, produced, z) \<Rightarrow>
          if result = BROTLI_NEEDS_MORE_OUTPUT then
            (if \<not> alloc (bufSize * 2) then Some (DecompError ERR_SYSTEM_MEMORY_ALLOCATION_FAILED)
             else brotliLoop alloc lib z (drop n input) (out @ produced) (bufSize * 2))
          else if result \<noteq> BROTLI_SUCCESS then Some (DecompError ERR_RESPONSE_BROTLI_INFLATE_FAILED)
          else Some (terminated (out @ produced) bufSize))"

definition decompress_Brotli :: "(nat \<Rightarrow> bool) \<Rightarrow> 'z decoderLib \<Rightarrow> bytes \<Rightarrow> decompressedObj option" where
  "decompress_Brotli alloc lib payload =
     (if \<not> alloc sizeof_DecompressedObj then Some DecompNull else
      case lib_brotliCreate lib of
        None \<Rightarrow> Some (DecompError ERR_SYSTEM_MEMORY_ALLOCATION_FAILED)
      | Some z \<Rightarrow>
          (let bufSize = startSize 8 (length payload)
           in if \<not> alloc bufSize then Some (DecompError ERR_SYSTEM_MEMORY_ALLOCATION_FAILED)
              else brotliLoop alloc lib z payload [] bufSize))"

text \<open>
  Deflate: raw first (\<open>windowBits = -MAX_WBITS\<close>), and on a failure once more from the start of
  the payload with the zlib wrapper.
\<close>

partial_function (option) deflateLoop ::
    "(nat \<Rightarrow> bool) \<Rightarrow> 'z decoderLib \<Rightarrow> bytes \<Rightarrow> int \<Rightarrow> 'z \<Rightarrow> bytes \<Rightarrow> bytes \<Rightarrow> nat \<Rightarrow> decompressedObj option" where
  "deflateLoop alloc lib payload windowBits z input out bufSize =
     (case lib_inflate lib z input (bufSize - length out) of
        (status, n, produced, z) \<Rightarrow>
          if status = Z_STREAM_END then Some (terminated (out @ produced) bufSize)
          else if status \<noteq> Z_OK then
            (if windowBits = - MAX_WBITS then
               (case lib_inflateInit lib MAX_WBITS of
                  None \<Rightarrow> Some (DecompError ERR_RESPONSE_DEFLATE_INFLATE_FAILED)
                | Some z \<Rightarrow>
                    if \<not> alloc (startSize 4 (length payload))
                    then Some (DecompError ERR_SYSTEM_MEMORY_ALLOCATION_FAILED)
                    else deflateLoop alloc lib payload MAX_WBITS z payload [] (startSize 4 (length payload)))
             else Some (DecompError ERR_RESPONSE_DEFLATE_INFLATE_FAILED))
          else if \<not> alloc (bufSize * 2) then Some (DecompError ERR_SYSTEM_MEMORY_ALLOCATION_FAILED)
          else deflateLoop alloc lib payload windowBits z (drop n input) (out @ produced) (bufSize * 2))"

definition decompress_Deflate :: "(nat \<Rightarrow> bool) \<Rightarrow> 'z decoderLib \<Rightarrow> bytes \<Rightarrow> decompressedObj option" where
  "decompress_Deflate alloc lib payload =
     (if \<not> alloc sizeof_DecompressedObj then Some DecompNull else
      case lib_inflateInit lib (- MAX_WBITS) of
        None \<Rightarrow> Some (DecompError ERR_RESPONSE_DEFLATE_INFLATE_FAILED)
      | Some z \<Rightarrow>
          (let bufSize = startSize 4 (length payload)
           in if \<not> alloc bufSize then Some (DecompError ERR_SYSTEM_MEMORY_ALLOCATION_FAILED)
              else deflateLoop alloc lib payload (- MAX_WBITS) z payload [] bufSize))"

text \<open>Zstandard: directly when the frame tells its bufSize, in a loop otherwise.\<close>

partial_function (option) zstdLoop ::
    "(nat \<Rightarrow> bool) \<Rightarrow> 'z decoderLib \<Rightarrow> 'z \<Rightarrow> bytes \<Rightarrow> bytes \<Rightarrow> nat \<Rightarrow> decompressedObj option" where
  "zstdLoop alloc lib z input out bufSize =
     (case lib_zstd lib z input (bufSize - length out) of
        (None, n, produced, z) \<Rightarrow> Some (DecompError ERR_RESPONSE_ZSTD_INFLATE_FAILED)
      | (Some ret, n, produced, z) \<Rightarrow>
          if ret = 0 then Some (terminated (out @ produced) bufSize)
          else if length (out @ produced) \<ge> bufSize then
            (if \<not> alloc (bufSize * 2) then Some (DecompError ERR_SYSTEM_MEMORY_ALLOCATION_FAILED)
             else zstdLoop alloc lib z (drop n input) (out @ produced) (bufSize * 2))
          else zstdLoop alloc lib z (drop n input) (out @ produced) bufSize)"

definition decompress_Zstd :: "(nat \<Rightarrow> bool) \<Rightarrow> 'z decoderLib \<Rightarrow> bytes \<Rightarrow> decompressedObj option" where
  "decompress_Zstd alloc lib payload =
     (if \<not> alloc sizeof_DecompressedObj then Some DecompNull else
      case lib_zstdContentSize lib payload of
        Some decompressedSize \<Rightarrow>
          if decompressedSize > 100 * 1024 * 1024 then Some (DecompError ERR_RESPONSE_ZSTD_INFLATE_FAILED)
          else if \<not> alloc (decompressedSize + 1) then Some (DecompError ERR_SYSTEM_MEMORY_ALLOCATION_FAILED)
          else (case lib_zstdDecompress lib payload decompressedSize of
                  None \<Rightarrow> Some (DecompError ERR_RESPONSE_ZSTD_INFLATE_FAILED)
                | Some out \<Rightarrow> Some (terminated out (decompressedSize + 1)))
      | None \<Rightarrow>
          (case lib_zstdCreate lib of
             None \<Rightarrow> Some (DecompError ERR_SYSTEM_MEMORY_ALLOCATION_FAILED)
           | Some z \<Rightarrow>
               (let bufSize = startSize 4 (length payload)
                in if \<not> alloc bufSize then Some (DecompError ERR_SYSTEM_MEMORY_ALLOCATION_FAILED)
                   else zstdLoop alloc lib z payload [] bufSize)))"

section \<open>Incremental decoding\<close>

definition STREAM_DECOMPRESS_CHUNK :: nat where "STREAM_DECOMPRESS_CHUNK = 32 * 1024"

text \<open>
  \<open>sd_state\<close> is the union \<open>u\<close>, uninitialised (\<open>None\<close>) in a deflate decoder until the first
  body bytes have chosen its window.
\<close>

record 'z streamDecompressor =
  sd_encoding :: contentEncoding
  sd_state :: "'z option"
  sd_windowPending :: bool

definition initStreamDecompressor :: "'z decoderLib \<Rightarrow> contentEncoding \<Rightarrow> 'z streamDecompressor option" where
  "initStreamDecompressor lib encoding =
     (if encoding = ENCODING_GZIP then
        map_option (\<lambda>z. \<lparr>sd_encoding = encoding, sd_state = Some z, sd_windowPending = False\<rparr>)
          (lib_inflateInit lib (16 + MAX_WBITS))
      else if encoding = ENCODING_DEFLATE then
        Some \<lparr>sd_encoding = encoding, sd_state = None, sd_windowPending = True\<rparr>
      else if encoding = ENCODING_BROTLI then
        map_option (\<lambda>z. \<lparr>sd_encoding = encoding, sd_state = Some z, sd_windowPending = False\<rparr>)
          (lib_brotliCreate lib)
      else
        map_option (\<lambda>z. \<lparr>sd_encoding = encoding, sd_state = Some z, sd_windowPending = False\<rparr>)
          (lib_zstdCreate lib))"

definition buildStreamDecompressor :: "(nat \<Rightarrow> bool) \<Rightarrow> 'z decoderLib \<Rightarrow> contentEncoding \<Rightarrow> 'z streamDecompressor option" where
  "buildStreamDecompressor alloc lib encoding =
     (if encoding = ENCODING_IDENTITY then None
      else if \<not> alloc STREAM_DECOMPRESS_CHUNK then None
      else initStreamDecompressor lib encoding)"

text \<open>RFC 1950: compression method 8 and a header divisible by 31.\<close>

definition isZlibHeader :: "bytes \<Rightarrow> bool" where
  "isZlibHeader data =
     (let compressionMethod = unat (data ! 0 AND 0x0f);
          headerCheck = (unat (data ! 0) * 256 + unat (data ! 1)) mod 31
      in compressionMethod = 8 \<and> headerCheck = 0)"

definition openDeflateWindow :: "'z decoderLib \<Rightarrow> 'z streamDecompressor \<Rightarrow> bytes \<Rightarrow> 'z streamDecompressor \<times> bool" where
  "openDeflateWindow lib decompressor data =
     (let rawDeflate = length data \<ge> 2 \<and> \<not> isZlibHeader data;
          z = lib_inflateInit lib (if rawDeflate then - MAX_WBITS else MAX_WBITS + 32)
      in (decompressor\<lparr>sd_windowPending := False, sd_state := z\<rparr>, z \<noteq> None))"

text \<open>
  The result of feeding: the input was consumed (1), the consumer aborted (0), or the data could
  not be decoded (-1). The consumer is a function on a state of any type that also says whether
  it aborts.
\<close>

datatype feedResult = FedAll | FedAborted | FedFailed

text \<open>Hand a non-empty piece to the consumer.\<close>

definition emit :: "('s \<Rightarrow> bytes \<Rightarrow> 's \<times> bool) \<Rightarrow> 's \<Rightarrow> bytes \<Rightarrow> 's \<times> bool" where
  "emit consume s produced = (if produced \<noteq> [] then consume s produced else (s, False))"

partial_function (option) inflateLoop ::
    "'z decoderLib \<Rightarrow> ('s \<Rightarrow> bytes \<Rightarrow> 's \<times> bool) \<Rightarrow> 'z \<Rightarrow> bytes \<Rightarrow> 's \<Rightarrow> (feedResult \<times> 'z \<times> 's) option" where
  "inflateLoop lib consume z input s =
     (if input = [] then Some (FedAll, z, s)
      else (case lib_inflate lib z input STREAM_DECOMPRESS_CHUNK of
              (status, n, produced, z) \<Rightarrow>
                (case emit consume s produced of
                   (s, aborted) \<Rightarrow>
                     if aborted then Some (FedAborted, z, s)
                     else if status = Z_STREAM_END then Some (FedAll, z, s)
                     else if status \<noteq> Z_OK then Some (FedFailed, z, s)
                     else inflateLoop lib consume z (drop n input) s)))"

partial_function (option) brotliFeedLoop ::
    "'z decoderLib \<Rightarrow> ('s \<Rightarrow> bytes \<Rightarrow> 's \<times> bool) \<Rightarrow> 'z \<Rightarrow> bytes \<Rightarrow> 's \<Rightarrow> (feedResult \<times> 'z \<times> 's) option" where
  "brotliFeedLoop lib consume z input s =
     (case lib_brotli lib z input STREAM_DECOMPRESS_CHUNK of
        (result, n, produced, z) \<Rightarrow>
          (case emit consume s produced of
             (s, aborted) \<Rightarrow>
               if aborted then Some (FedAborted, z, s)
               else if result = BROTLI_ERROR then Some (FedFailed, z, s)
               else if result = BROTLI_SUCCESS then Some (FedAll, z, s)
               else if drop n input \<noteq> [] \<or> result = BROTLI_NEEDS_MORE_OUTPUT
               then brotliFeedLoop lib consume z (drop n input) s
               else Some (FedAll, z, s)))"

partial_function (option) zstdFeedLoop ::
    "'z decoderLib \<Rightarrow> ('s \<Rightarrow> bytes \<Rightarrow> 's \<times> bool) \<Rightarrow> 'z \<Rightarrow> bytes \<Rightarrow> 's \<Rightarrow> (feedResult \<times> 'z \<times> 's) option" where
  "zstdFeedLoop lib consume z input s =
     (if input = [] then Some (FedAll, z, s)
      else (case lib_zstd lib z input STREAM_DECOMPRESS_CHUNK of
              (remaining, n, produced, z) \<Rightarrow>
                (case emit consume s produced of
                   (s, aborted) \<Rightarrow>
                     if aborted then Some (FedAborted, z, s)
                     else if remaining = None then Some (FedFailed, z, s)
                     else if produced = [] then Some (FedAll, z, s)
                     else zstdFeedLoop lib consume z (drop n input) s)))"

text \<open>Run a loop on the decoder's state and put the new state back.\<close>

definition onState ::
    "('z \<Rightarrow> (feedResult \<times> 'z \<times> 's) option) \<Rightarrow> 'z streamDecompressor \<Rightarrow> 's
     \<Rightarrow> (feedResult \<times> 'z streamDecompressor \<times> 's) option" where
  "onState loop decompressor s =
     (case sd_state decompressor of
        None \<Rightarrow> Some (FedFailed, decompressor, s)
      | Some z \<Rightarrow> map_option (\<lambda>(r, z, s). (r, decompressor\<lparr>sd_state := Some z\<rparr>, s)) (loop z))"

definition feedZlib ::
    "'z decoderLib \<Rightarrow> ('s \<Rightarrow> bytes \<Rightarrow> 's \<times> bool) \<Rightarrow> 'z streamDecompressor \<Rightarrow> bytes \<Rightarrow> 's
     \<Rightarrow> (feedResult \<times> 'z streamDecompressor \<times> 's) option" where
  "feedZlib lib consume decompressor data s =
     (let (decompressor, opened) =
            (if sd_windowPending decompressor then openDeflateWindow lib decompressor data else (decompressor, True))
      in if \<not> opened then Some (FedFailed, decompressor, s)
         else onState (\<lambda>z. inflateLoop lib consume z data s) decompressor s)"

definition feedStreamDecompressor ::
    "'z decoderLib \<Rightarrow> ('s \<Rightarrow> bytes \<Rightarrow> 's \<times> bool) \<Rightarrow> 'z streamDecompressor option \<Rightarrow> bytes \<Rightarrow> 's
     \<Rightarrow> (feedResult \<times> 'z streamDecompressor option \<times> 's) option" where
  "feedStreamDecompressor lib consume decompressor data s =
     (case decompressor of
        None \<Rightarrow> (case consume s data of
                   (s, aborted) \<Rightarrow> Some (if aborted then FedAborted else FedAll, None, s))
      | Some d \<Rightarrow>
          map_option (\<lambda>(r, d, s). (r, Some d, s))
            (if sd_encoding d = ENCODING_BROTLI then onState (\<lambda>z. brotliFeedLoop lib consume z data s) d s
             else if sd_encoding d = ENCODING_ZSTD then onState (\<lambda>z. zstdFeedLoop lib consume z data s) d s
             else feedZlib lib consume d data s))"

section \<open>What feeding preserves\<close>

text \<open>
  Whatever the library does, a property \<open>I\<close> of the consumer's state that the consumer preserves
  as long as it does not abort is preserved by feeding; when it aborts, \<open>J\<close> is what the last call
  established, because no other call follows.
\<close>

definition consumerKeeps :: "('s \<Rightarrow> bytes \<Rightarrow> 's \<times> bool) \<Rightarrow> ('s \<Rightarrow> bool) \<Rightarrow> ('s \<Rightarrow> bool) \<Rightarrow> bool" where
  "consumerKeeps consume I J \<longleftrightarrow>
     (\<forall>s d s' a. I s \<longrightarrow> consume s d = (s', a) \<longrightarrow> (if a then J s' else I s'))"

definition fedKeeps :: "('s \<Rightarrow> bool) \<Rightarrow> ('s \<Rightarrow> bool) \<Rightarrow> feedResult \<times> 'd \<times> 's \<Rightarrow> bool" where
  "fedKeeps I J r \<longleftrightarrow> (if fst r = FedAborted then J (snd (snd r)) else I (snd (snd r)))"

lemma emit_keeps: "consumerKeeps consume I J \<Longrightarrow> I s \<Longrightarrow> emit consume s d = (s', a) \<Longrightarrow> (if a then J s' else I s')"
  by (auto simp: emit_def consumerKeeps_def split: if_splits)

lemma inflateLoop_keeps:
  assumes "inflateLoop lib consume z input s = Some r" "consumerKeeps consume I J" "I s"
  shows "fedKeeps I J r"
proof -
  have "consumerKeeps consume I J \<longrightarrow> I s \<longrightarrow> fedKeeps I J r"
  proof (rule inflateLoop.raw_induct [where
        P = "\<lambda>lib consume z input s r. consumerKeeps consume I J \<longrightarrow> I s \<longrightarrow> fedKeeps I J r",
        OF _ assms(1)], goal_cases)
    case (1 loop lib consume z input s r)
    show ?case
    proof (intro impI)
      assume k: "consumerKeeps consume I J" "I s"
      obtain status n produced z1 where l: "lib_inflate lib z input STREAM_DECOMPRESS_CHUNK = (status, n, produced, z1)"
        by (metis prod_cases4)
      obtain s1 a where e: "emit consume s produced = (s1, a)" by fastforce
      have "if a then J s1 else I s1" using emit_keeps [OF k e] .
      then show "fedKeeps I J r"
        using 1 k l e by (auto simp: fedKeeps_def split: if_splits)
    qed
  qed
  then show ?thesis using assms(2,3) by blast
qed

lemma brotliFeedLoop_keeps:
  assumes "brotliFeedLoop lib consume z input s = Some r" "consumerKeeps consume I J" "I s"
  shows "fedKeeps I J r"
proof -
  have "consumerKeeps consume I J \<longrightarrow> I s \<longrightarrow> fedKeeps I J r"
  proof (rule brotliFeedLoop.raw_induct [where
        P = "\<lambda>lib consume z input s r. consumerKeeps consume I J \<longrightarrow> I s \<longrightarrow> fedKeeps I J r",
        OF _ assms(1)], goal_cases)
    case (1 loop lib consume z input s r)
    show ?case
    proof (intro impI)
      assume k: "consumerKeeps consume I J" "I s"
      obtain status n produced z1 where l: "lib_brotli lib z input STREAM_DECOMPRESS_CHUNK = (status, n, produced, z1)"
        by (metis prod_cases4)
      obtain s1 a where e: "emit consume s produced = (s1, a)" by fastforce
      have "if a then J s1 else I s1" using emit_keeps [OF k e] .
      then show "fedKeeps I J r"
        using 1 k l e by (auto simp: fedKeeps_def split: if_splits)
    qed
  qed
  then show ?thesis using assms(2,3) by blast
qed

lemma zstdFeedLoop_keeps:
  assumes "zstdFeedLoop lib consume z input s = Some r" "consumerKeeps consume I J" "I s"
  shows "fedKeeps I J r"
proof -
  have "consumerKeeps consume I J \<longrightarrow> I s \<longrightarrow> fedKeeps I J r"
  proof (rule zstdFeedLoop.raw_induct [where
        P = "\<lambda>lib consume z input s r. consumerKeeps consume I J \<longrightarrow> I s \<longrightarrow> fedKeeps I J r",
        OF _ assms(1)], goal_cases)
    case (1 loop lib consume z input s r)
    show ?case
    proof (intro impI)
      assume k: "consumerKeeps consume I J" "I s"
      obtain status n produced z1 where l: "lib_zstd lib z input STREAM_DECOMPRESS_CHUNK = (status, n, produced, z1)"
        by (metis prod_cases4)
      obtain s1 a where e: "emit consume s produced = (s1, a)" by fastforce
      have "if a then J s1 else I s1" using emit_keeps [OF k e] .
      then show "fedKeeps I J r"
        using 1 k l e by (auto simp: fedKeeps_def split: if_splits)
    qed
  qed
  then show ?thesis using assms(2,3) by blast
qed

lemma onState_keeps:
  assumes "onState loop d s = Some (r, d', s')" "I s"
    and "\<And>z q. loop z = Some q \<Longrightarrow> fedKeeps I J q"
  shows "fedKeeps I J (r, d', s')"
  using assms by (fastforce simp: onState_def fedKeeps_def split: option.splits)

lemma feedStreamDecompressor_keeps:
  assumes feed: "feedStreamDecompressor lib consume decompressor data s = Some (r, d', s')"
    and k: "consumerKeeps consume I J" "I s"
  shows "if r = FedAborted then J s' else I s'"
proof (cases decompressor)
  case None
  then show ?thesis using feed k
    by (auto simp: feedStreamDecompressor_def consumerKeeps_def split: prod.splits if_splits)
next
  case (Some d)
  have i: "fedKeeps I J (r, x, s')" if "onState (\<lambda>z. inflateLoop lib consume z data s) e s = Some (r, x, s')" for e x
    by (rule onState_keeps [where I = I and J = J, OF that k(2)]) (rule inflateLoop_keeps [OF _ k])
  have b: "fedKeeps I J (r, x, s')" if "onState (\<lambda>z. brotliFeedLoop lib consume z data s) e s = Some (r, x, s')" for e x
    by (rule onState_keeps [where I = I and J = J, OF that k(2)]) (rule brotliFeedLoop_keeps [OF _ k])
  have z: "fedKeeps I J (r, x, s')" if "onState (\<lambda>z. zstdFeedLoop lib consume z data s) e s = Some (r, x, s')" for e x
    by (rule onState_keeps [where I = I and J = J, OF that k(2)]) (rule zstdFeedLoop_keeps [OF _ k])
  have "fedKeeps I J (r, x, s')" if "feedZlib lib consume d data s = Some (r, x, s')" for x
    using that i k(2) by (auto simp: feedZlib_def Let_def fedKeeps_def split: prod.splits if_splits)
  then show ?thesis
    using feed Some b z by (auto simp: feedStreamDecompressor_def fedKeeps_def split: if_splits)
qed

section \<open>Draining the decoder\<close>

text \<open>
  What the documentation of \<open>BrotliDecoderDecompressStream\<close> promises, over an abstract decoder:
  \<open>D c\<close> is everything the compressed prefix \<open>c\<close> determines, \<open>view z\<close> the prefix a state has
  consumed and the number of bytes it has put out. Output is put out in order; asking for more
  input means that all input is consumed and nothing is held back; asking for more room means that
  the room given was filled; success means that the stream
  has ended: nothing is held back and no byte that follows determines anything.
\<close>

definition brotliContract :: "'z decoderLib \<Rightarrow> ('z \<Rightarrow> bytes \<times> nat) \<Rightarrow> (bytes \<Rightarrow> bytes) \<Rightarrow> bool" where
  "brotliContract lib view D \<longleftrightarrow>
     (\<forall>c x. isPrefixOf (D c) (D (c @ x))) \<and>
     (\<forall>z input room result n out z' c k.
        lib_brotli lib z input room = (result, n, out, z') \<longrightarrow> view z = (c, k) \<longrightarrow>
          view z' = (c @ take n input, k + length out)
          \<and> k + length out \<le> length (D (c @ take n input))
          \<and> out = take (length out) (drop k (D (c @ take n input)))
          \<and> (result = BROTLI_NEEDS_MORE_INPUT \<longrightarrow> n = length input \<and> k + length out = length (D (c @ take n input)))
          \<and> (result = BROTLI_NEEDS_MORE_OUTPUT \<longrightarrow> length out = room)
          \<and> (result = BROTLI_SUCCESS \<longrightarrow> k + length out = length (D (c @ take n input))
               \<and> (\<forall>x. D ((c @ take n input) @ x) = D (c @ take n input))))"

definition appendConsumer :: "bytes \<Rightarrow> bytes \<Rightarrow> bytes \<times> bool" where
  "appendConsumer s d = (s @ d, False)"

lemma emit_append [simp]: "emit appendConsumer s d = (s @ d, False)"
  by (simp add: emit_def appendConsumer_def)

definition drained :: "(bytes \<Rightarrow> bytes) \<Rightarrow> bytes \<Rightarrow> nat \<Rightarrow> bytes \<Rightarrow> bytes \<Rightarrow> bytes \<times> nat \<Rightarrow> bytes \<Rightarrow> bool" where
  "drained D c k data s v s' \<longleftrightarrow>
     s' = s @ drop k (D (c @ data)) \<and> (\<exists>x. isPrefixOf x data \<and> v = (c @ x, length (D (c @ data))) \<and> D (c @ x) = D (c @ data))"

lemma drained_step:
  assumes pre: "isPrefixOf (D (c @ y)) (D ((c @ y) @ x))"
    and out: "k + length out \<le> length (D (c @ y))" "out = take (length out) (drop k (D (c @ y)))"
  shows "s @ out @ drop (k + length out) (D ((c @ y) @ x)) = s @ drop k (D ((c @ y) @ x))"
proof -
  obtain w where w: "D ((c @ y) @ x) = D (c @ y) @ w" using pre by (auto simp: isPrefixOf_iff)
  have "out = take (length out) (drop k (D ((c @ y) @ x)))" using out w by simp
  then have "drop k (D ((c @ y) @ x)) = out @ drop (length out) (drop k (D ((c @ y) @ x)))"
    by (metis append_take_drop_id)
  then show ?thesis by (simp add: add.commute)
qed

lemma drained_next:
  assumes pre: "isPrefixOf (D (c @ take n input)) (D ((c @ take n input) @ drop n input))"
    and out: "k + length out \<le> length (D (c @ take n input))" "out = take (length out) (drop k (D (c @ take n input)))"
    and d: "drained D (c @ take n input) (k + length out) (drop n input) (s @ out) v s'"
  shows "drained D c k input s v s'"
proof -
  obtain x where x: "isPrefixOf x (drop n input)" "v = ((c @ take n input) @ x, length (D (c @ input)))"
      "D ((c @ take n input) @ x) = D (c @ input)"
    and s: "s' = (s @ out) @ drop (k + length out) (D (c @ input))"
    using d by (auto simp: drained_def)
  have "s' = s @ drop k (D (c @ input))" using drained_step [OF pre out, of s] s by simp
  moreover have "isPrefixOf (take n input @ x) input"
    using x(1) by (metis append.assoc append_take_drop_id isPrefixOf_iff)
  ultimately show ?thesis using x(2,3) unfolding drained_def by (metis append.assoc)
qed

lemma drained_last:
  assumes "k + length out = length (D (c @ take n input))" "out = take (length out) (drop k (D (c @ take n input)))"
    and "D (c @ take n input) = D (c @ input)"
  shows "drained D c k input s (c @ take n input, k + length out) (s @ out)"
proof -
  have "out = drop k (D (c @ input))"
    using assms by (metis length_drop add_diff_cancel_left' take_all_iff order_refl)
  moreover have "isPrefixOf (take n input) input" by (metis append_take_drop_id isPrefixOf_iff)
  ultimately show ?thesis using assms(1,3) by (auto simp: drained_def)
qed

lemma brotliFeedLoop_drained:
  assumes "brotliFeedLoop lib appendConsumer z input s = Some r" "brotliContract lib view D" "view z = (c, k)"
    and "fst r = FedAll"
  shows "drained D c k input s (view (fst (snd r))) (snd (snd r))"
proof -
  have "\<forall>c k. consume = appendConsumer \<longrightarrow> brotliContract lib view D \<longrightarrow> view z = (c, k) \<longrightarrow> fst r = FedAll
      \<longrightarrow> drained D c k input s (view (fst (snd r))) (snd (snd r))"
    if "brotliFeedLoop lib consume z input s = Some r" for consume
  proof (rule brotliFeedLoop.raw_induct [where
        P = "\<lambda>lib consume z input s r. \<forall>c k. consume = appendConsumer \<longrightarrow> brotliContract lib view D \<longrightarrow> view z = (c, k)
           \<longrightarrow> fst r = FedAll \<longrightarrow> drained D c k input s (view (fst (snd r))) (snd (snd r))",
        OF _ that], goal_cases)
    case (1 loop lib consume z input s r)
    show ?case
    proof (intro allI impI)
      fix c k
      assume a: "consume = appendConsumer" "brotliContract lib view D" "view z = (c, k)" "fst r = FedAll"
      obtain result n out z1 where l: "lib_brotli lib z input STREAM_DECOMPRESS_CHUNK = (result, n, out, z1)"
        by (metis prod_cases4)
      let ?c = "c @ take n input"
      have v: "view z1 = (?c, k + length out)" "k + length out \<le> length (D ?c)"
        "out = take (length out) (drop k (D ?c))"
        "result = BROTLI_NEEDS_MORE_INPUT \<Longrightarrow> n = length input \<and> k + length out = length (D ?c)"
        "result = BROTLI_SUCCESS \<Longrightarrow> k + length out = length (D ?c)"
        "result = BROTLI_SUCCESS \<Longrightarrow> D (?c @ drop n input) = D ?c"
        and pre: "\<And>x. isPrefixOf (D ?c) (D (?c @ x))"
        using a(2,3) l unfolding brotliContract_def by blast+
      show "drained D c k input s (view (fst (snd r))) (snd (snd r))"
      proof (cases "result = BROTLI_SUCCESS \<or> result = BROTLI_NEEDS_MORE_INPUT")
        case True
        have in_eq: "(c @ take n input) @ drop n input = c @ input" by simp
        have "k + length out = length (D ?c) \<and> D ?c = D (c @ input)"
        proof (cases "result = BROTLI_SUCCESS")
          case success: True
          then show ?thesis using v(5) [OF success] v(6) [OF success] unfolding in_eq by metis
        next
          case False
          then have "result = BROTLI_NEEDS_MORE_INPUT" using True by blast
          then show ?thesis using v(4) by simp
        qed
        moreover have "r = (FedAll, z1, s @ out)" using 1(2) True a(1,4) l v(4) by (auto split: if_splits)
        ultimately show ?thesis using drained_last [of k out D c n input s] v(1,3) by simp
      next
        case False
        then have more: "result = BROTLI_NEEDS_MORE_OUTPUT"
          using 1(2) a(1,4) l by (cases result) auto
        then have "loop lib consume z1 (drop n input) (s @ out) = Some r" using 1(2) a(1) l by simp
        then have "drained D ?c (k + length out) (drop n input) (s @ out) (view (fst (snd r))) (snd (snd r))"
          using 1(1) a v(1) by blast
        then show ?thesis by (rule drained_next [OF pre v(2,3)])
      qed
    qed
  qed
  then show ?thesis using assms by blast
qed

text \<open>Every turn but the last fills its room, and there is only so much output the input determines.\<close>

lemma brotliFeedLoop_returns:
  assumes "brotliContract lib view D" "view z = (c, k)"
  shows "\<exists>r z' s'. brotliFeedLoop lib appendConsumer z input s = Some (r, z', s') \<and> r \<noteq> FedAborted"
  using assms(2)
proof (induction "length (D (c @ input)) - k" arbitrary: z c k input s rule: less_induct)
  case less
  obtain result n out z1 where l: "lib_brotli lib z input STREAM_DECOMPRESS_CHUNK = (result, n, out, z1)" by (metis prod_cases4)
  let ?c = "c @ take n input"
  have v: "view z1 = (?c, k + length out)" "k + length out \<le> length (D ?c)"
    "result = BROTLI_NEEDS_MORE_INPUT \<Longrightarrow> n = length input"
    "result = BROTLI_NEEDS_MORE_OUTPUT \<Longrightarrow> length out = STREAM_DECOMPRESS_CHUNK"
    and pre: "isPrefixOf (D ?c) (D (?c @ drop n input))"
    using assms(1) less.prems l unfolding brotliContract_def by blast+
  show ?case
  proof (cases "result = BROTLI_NEEDS_MORE_OUTPUT")
    case True
    have "length (D ?c) \<le> length (D (c @ input))" using pre by (auto simp: isPrefixOf_iff)
    then have "length (D (?c @ drop n input)) - (k + length out) < length (D (c @ input)) - k"
      using v(2,4) True by (simp add: STREAM_DECOMPRESS_CHUNK_def)
    from less.hyps [OF this v(1)] show ?thesis
      using True l by (subst brotliFeedLoop.simps) simp
  next
    case False
    then show ?thesis using l v(3) by (cases result) (simp_all add: brotliFeedLoop.simps [of lib appendConsumer z])
  qed
qed

text \<open>
  C37. A Brotli body is never truncated at a chunk boundary: feeding a chunk returns, and when it
  reports that the input was consumed, the consumer has received, in order and without gaps, exactly
  what this chunk adds to what the chunks before it determine; nothing is left inside the decoder. The
  decoder has read the whole chunk, or the compressed stream ended inside it and the bytes left
  determine nothing.
\<close>

theorem brotli_feed_drains:
  assumes "brotliContract lib view D" "view z = (c, k)"
  defines "decoder \<equiv> \<lambda>z. Some \<lparr>sd_encoding = ENCODING_BROTLI, sd_state = Some z, sd_windowPending = False\<rparr>"
  shows "\<exists>r z' s'. feedStreamDecompressor lib appendConsumer (decoder z) data s = Some (r, decoder z', s')
    \<and> r \<in> {FedAll, FedFailed}
    \<and> (r = FedAll \<longrightarrow> s' = s @ drop k (D (c @ data))
         \<and> (\<exists>x. isPrefixOf x data \<and> view z' = (c @ x, length (D (c @ data))) \<and> D (c @ x) = D (c @ data)))"
proof -
  obtain r z' s' where b: "brotliFeedLoop lib appendConsumer z data s = Some (r, z', s')" "r \<noteq> FedAborted"
    using brotliFeedLoop_returns [OF assms(1,2)] by blast
  have "r = FedAll \<longrightarrow> s' = s @ drop k (D (c @ data))
      \<and> (\<exists>x. isPrefixOf x data \<and> view z' = (c @ x, length (D (c @ data))) \<and> D (c @ x) = D (c @ data))"
    using brotliFeedLoop_drained [OF b(1) assms(1,2)] by (simp add: drained_def)
  moreover have "feedStreamDecompressor lib appendConsumer (decoder z) data s = Some (r, decoder z', s')"
    using b(1) by (simp add: feedStreamDecompressor_def onState_def decoder_def)
  moreover have "r \<in> {FedAll, FedFailed}" using b(2) by (cases r) simp_all
  ultimately show ?thesis by blast
qed

text \<open>
  A decoder library for examples: every compressed byte stands for a run of \<open>40000\<close> equal bytes.
  The state is the input consumed and the number of bytes put out.
\<close>

definition runs :: "bytes \<Rightarrow> bytes" where
  "runs c = concat (map (replicate 40000) c)"

definition runView :: "bytes \<times> nat \<Rightarrow> bytes \<times> nat" where
  "runView z = (fst z, min (snd z) (length (runs (fst z))))"

definition runStep :: "bytes \<times> nat \<Rightarrow> bytes \<Rightarrow> nat \<Rightarrow> bytes \<times> bytes \<times> nat" where
  "runStep z input room =
     (let (c, k) = runView z; c' = c @ input; out = take room (drop k (runs c')) in (out, c', k + length out))"

definition runLib :: "(bytes \<times> nat) decoderLib" where
  "runLib = \<lparr>lib_inflateInit = (\<lambda>_. Some ([], 0)),
     lib_inflate = (\<lambda>z input room. case runStep z input room of (out, z') \<Rightarrow> (Z_OK, length input, out, z')),
     lib_brotliCreate = Some ([], 0),
     lib_brotli = (\<lambda>z input room. case runStep z input room of (out, z') \<Rightarrow>
        (if snd z' < length (runs (fst z')) then BROTLI_NEEDS_MORE_OUTPUT else BROTLI_NEEDS_MORE_INPUT,
         length input, out, z')),
     lib_zstdCreate = None, lib_zstd = (\<lambda>z input room. (None, 0, [], z)),
     lib_zstdContentSize = (\<lambda>_. None), lib_zstdDecompress = (\<lambda>_ _. None)\<rparr>"

lemma runs_append: "runs (c @ d) = runs c @ runs d"
  by (simp add: runs_def)

lemma runStep_facts:
  assumes "runStep z input room = (out, z')" "runView z = (c, k)"
  shows "runView z' = (c @ input, k + length out)" "k + length out \<le> length (runs (c @ input))"
    "out = take (length out) (drop k (runs (c @ input)))" "z' = (c @ input, k + length out)"
    "k + length out < length (runs (c @ input)) \<Longrightarrow> length out = room"
proof -
  have k: "k \<le> length (runs c)" using assms(2) by (auto simp: runView_def)
  have o: "out = take room (drop k (runs (c @ input)))" and z: "z' = (c @ input, k + length out)"
    using assms by (auto simp: runStep_def Let_def)
  have "length out \<le> length (runs (c @ input)) - k" by (simp add: o)
  then show "k + length out \<le> length (runs (c @ input))" using k by (simp add: runs_append)
  then show "runView z' = (c @ input, k + length out)" using z by (simp add: runView_def)
  show "out = take (length out) (drop k (runs (c @ input)))"
    by (cases "room \<le> length (drop k (runs (c @ input)))") (auto simp: o)
  show "z' = (c @ input, k + length out)" by (rule z)
  show "k + length out < length (runs (c @ input)) \<Longrightarrow> length out = room" by (auto simp: o min_def split: if_splits)
qed

lemma runLib_contract: "brotliContract runLib runView runs"
proof -
  have "view' = (c @ take n input, k + length out) \<and> k + length out \<le> length (runs (c @ take n input))
    \<and> out = take (length out) (drop k (runs (c @ take n input)))
    \<and> (result = BROTLI_NEEDS_MORE_INPUT \<longrightarrow> n = length input \<and> k + length out = length (runs (c @ take n input)))
    \<and> (result = BROTLI_NEEDS_MORE_OUTPUT \<longrightarrow> length out = room)
    \<and> (result = BROTLI_SUCCESS \<longrightarrow> k + length out = length (runs (c @ take n input))
         \<and> (\<forall>x. runs ((c @ take n input) @ x) = runs (c @ take n input)))"
    if l: "lib_brotli runLib z input room = (result, n, out, z')" and v: "runView z = (c, k)" and v': "view' = runView z'"
    for z input room result n out z' c k view'
  proof -
    have st: "runStep z input room = (out, z')" and n: "n = length input"
      and r: "result = (if snd z' < length (runs (fst z')) then BROTLI_NEEDS_MORE_OUTPUT else BROTLI_NEEDS_MORE_INPUT)"
      using l by (auto simp: runLib_def split: prod.splits)
    show ?thesis using runStep_facts [OF st v] n r v' by (auto split: if_splits)
  qed
  then show ?thesis by (auto simp: brotliContract_def runs_append)
qed

lemma brotli_feed_drains_witness:
  "\<exists>d' s'. feedStreamDecompressor runLib appendConsumer
       (Some \<lparr>sd_encoding = ENCODING_BROTLI, sd_state = Some ([], 0), sd_windowPending = False\<rparr>) [7] []
     = Some (FedAll, d', s') \<and> s' = replicate 40000 7"
proof -
  have 1: "lib_brotli runLib ([], 0) [7] STREAM_DECOMPRESS_CHUNK
      = (BROTLI_NEEDS_MORE_OUTPUT, 1, replicate 32768 7, [7], 32768)"
    by (simp add: runLib_def runStep_def runView_def runs_def STREAM_DECOMPRESS_CHUNK_def)
  have 2: "lib_brotli runLib ([7], 32768) [] STREAM_DECOMPRESS_CHUNK
      = (BROTLI_NEEDS_MORE_INPUT, 0, replicate 7232 7, [7], 40000)"
    by (simp add: runLib_def runStep_def runView_def runs_def STREAM_DECOMPRESS_CHUNK_def)
  have loop: "brotliFeedLoop runLib appendConsumer ([], 0) [7] []
      = Some (FedAll, ([7], 40000), replicate 32768 7 @ replicate 7232 7)"
    by (subst brotliFeedLoop.simps, simp add: 1, subst brotliFeedLoop.simps, simp add: 2)
  then have fed: "feedStreamDecompressor runLib appendConsumer
       (Some \<lparr>sd_encoding = ENCODING_BROTLI, sd_state = Some ([], 0), sd_windowPending = False\<rparr>) [7] []
     = Some (FedAll, Some \<lparr>sd_encoding = ENCODING_BROTLI, sd_state = Some ([7], 40000), sd_windowPending = False\<rparr>,
         replicate 32768 7 @ replicate 7232 7)"
    by (simp add: feedStreamDecompressor_def onState_def)
  have v: "runView ([], 0) = ([], 0)" by (simp add: runView_def)
  have "replicate 32768 7 @ replicate 7232 7 = runs [7]"
    using brotli_feed_drains [OF runLib_contract v, of "[7]" "[]"] fed by auto
  then have "replicate 32768 7 @ replicate 7232 7 = replicate 40000 (7 :: byte)" by (simp add: runs_def)
  then show ?thesis using fed by blast
qed

text \<open>
  zlib is fed differently: the loop ends with the input, so output that did not fit the
  32 KiB buffer stays inside the decoder, and is lost when no further chunk follows. With the
  example library, one byte fed to a gzip decoder delivers 32768 of its 40000 bytes.
\<close>

lemma zlib_feed_holds_back:
  "feedStreamDecompressor runLib appendConsumer
     (Some \<lparr>sd_encoding = ENCODING_GZIP, sd_state = Some ([], 0), sd_windowPending = False\<rparr>) [7] []
   = Some (FedAll, Some \<lparr>sd_encoding = ENCODING_GZIP, sd_state = Some ([7], 32768), sd_windowPending = False\<rparr>,
       replicate 32768 7)
   \<and> runs [7] = replicate 40000 7"
proof -
  have 1: "lib_inflate runLib ([], 0) [7] STREAM_DECOMPRESS_CHUNK = (Z_OK, 1, replicate 32768 7, [7], 32768)"
    by (simp add: runLib_def runStep_def runView_def runs_def STREAM_DECOMPRESS_CHUNK_def)
  have "inflateLoop runLib appendConsumer ([], 0) [7] [] = Some (FedAll, ([7], 32768), replicate 32768 7)"
    by (subst inflateLoop.simps, simp add: 1, subst inflateLoop.simps, simp)
  then show ?thesis by (simp add: feedStreamDecompressor_def feedZlib_def onState_def runs_def)
qed

text \<open>
  A payload that fills the one-shot buffer exactly is terminated one byte behind it.
\<close>

lemma terminated_overflow: "terminated out (length out) = DecompOverflow"
  by (simp add: terminated_def)

end
