(* ===== verification/ResponseStream.thy ===== *)
theory ResponseStream
  imports Decompress HpackDecode
begin

text \<open>
  The response funnel of \<open>src/ResponseStream.c\<close>: one body path for both protocols. A sink
  either delivers to the three callbacks of the caller's contract or, as the library's own
  collector, accumulates the body in the stream's payload.

  The callbacks are the caller's code: \<open>onData\<close> is a field of the sink, a function of what was
  delivered before and of the chunk that says whether it asks to stop; every callback made is
  recorded in \<open>sk_events\<close>, oldest first.
\<close>

section \<open>State\<close>

datatype event = EvHeaders "header list" | EvData bytes | EvComplete error

record 'z responseSink =
  sk_onHeaders :: bool
  sk_onData :: "(event list \<Rightarrow> bytes \<Rightarrow> bool) option"
  sk_onComplete :: bool
  sk_collecting :: bool
  sk_decompressMask :: "32 word"
  sk_encoding :: contentEncoding
  sk_decompressor :: "'z streamDecompressor option"
  sk_delivered :: nat
  sk_error :: error
  sk_headersDelivered :: bool
  sk_completed :: bool
  sk_aborted :: bool
  sk_cancelled :: bool
  sk_cancellationTaken :: bool
  sk_events :: "event list"

text \<open>
  \<open>st_headers\<close> is \<open>None\<close> when the header buffer is null, and else holds the first
  \<open>numHeaders\<close> fields.
\<close>

record 'z hstream =
  st_streamId :: "32 word"
  st_isEnded :: bool
  st_sink :: "'z responseSink option"
  st_headers :: "header list option"
  st_combinedPayload :: bytes
  st_headerBlock :: bytes
  st_awaitingContinuation :: bool
  st_payloadDecoded :: bool
  st_lastActivityTime :: int
  st_error :: error

definition numHeaders :: "'z hstream \<Rightarrow> nat" where
  "numHeaders stream = (case st_headers stream of None \<Rightarrow> 0 | Some hs \<Rightarrow> length hs)"

definition headerList :: "'z hstream \<Rightarrow> header list" where
  "headerList stream = (case st_headers stream of None \<Rightarrow> [] | Some hs \<Rightarrow> hs)"

text \<open>What the code takes from its environment: allocation, the clock and the decoding libraries.\<close>

record 'z clientEnv =
  ev_alloc :: "nat \<Rightarrow> bool"
  ev_now :: int
  ev_lib :: "'z decoderLib"

text \<open>Append a callback to the record of callbacks made.\<close>

definition record_event :: "event \<Rightarrow> 'z responseSink \<Rightarrow> 'z responseSink" where
  "record_event e sink = sink\<lparr>sk_events := sk_events sink @ [e]\<rparr>"

definition withSink :: "('z responseSink \<Rightarrow> 'z responseSink) \<Rightarrow> 'z hstream \<Rightarrow> 'z hstream" where
  "withSink f stream = stream\<lparr>st_sink := map_option f (st_sink stream)\<rparr>"

section \<open>Building and resetting a sink\<close>

text \<open>The contract a caller may pass: which callbacks are given.\<close>

record responseContract =
  rc_onHeaders :: bool
  rc_onData :: "(event list \<Rightarrow> bytes \<Rightarrow> bool) option"
  rc_onComplete :: bool

definition buildResponseSink :: "32 word \<Rightarrow> responseContract option \<Rightarrow> 'z responseSink" where
  "buildResponseSink decompress contract =
     \<lparr>sk_onHeaders = (case contract of None \<Rightarrow> False | Some c \<Rightarrow> rc_onHeaders c),
      sk_onData = (case contract of None \<Rightarrow> None | Some c \<Rightarrow> rc_onData c),
      sk_onComplete = (case contract of None \<Rightarrow> False | Some c \<Rightarrow> rc_onComplete c),
      sk_collecting = (contract = None), sk_decompressMask = decompress,
      sk_encoding = ENCODING_IDENTITY, sk_decompressor = None, sk_delivered = 0, sk_error = ERR_NONE,
      sk_headersDelivered = False, sk_completed = False, sk_aborted = False, sk_cancelled = False,
      sk_cancellationTaken = False, sk_events = []\<rparr>"

definition isCompleteResponseStream :: "responseContract \<Rightarrow> bool" where
  "isCompleteResponseStream c \<longleftrightarrow> rc_onHeaders c \<and> rc_onData c \<noteq> None \<and> rc_onComplete c"

definition prepareStreamRetry :: "'z responseSink \<Rightarrow> 'z responseSink" where
  "prepareStreamRetry sink =
     sink\<lparr>sk_decompressor := None, sk_encoding := ENCODING_IDENTITY, sk_delivered := 0,
          sk_headersDelivered := False, sk_completed := False, sk_aborted := False, sk_cancelled := False,
          sk_cancellationTaken := False, sk_error := ERR_NONE\<rparr>"

section \<open>Headers\<close>

definition prepareStreamDecoder :: "'z clientEnv \<Rightarrow> 'z hstream \<Rightarrow> 'z responseSink \<Rightarrow> 'z hstream \<times> 'z responseSink" where
  "prepareStreamDecoder env stream sink =
     (let encoding = detectContentEncoding (headerList stream);
          sink = sink\<lparr>sk_encoding := encoding\<rparr>;
          decompressRequested = (sk_decompressMask sink AND encodingBit encoding \<noteq> 0)
      in if \<not> decompressRequested \<or> encoding = ENCODING_IDENTITY then (stream, sink)
         else (case buildStreamDecompressor (ev_alloc env) (ev_lib env) encoding of
                 None \<Rightarrow>
                   (stream\<lparr>st_error := ERR_RESPONSE_INFLATE_UNKNOWN_ERROR\<rparr>,
                    sink\<lparr>sk_decompressor := None, sk_error := ERR_RESPONSE_INFLATE_UNKNOWN_ERROR, sk_cancelled := True\<rparr>)
               | Some d \<Rightarrow> (stream\<lparr>st_payloadDecoded := True\<rparr>, sink\<lparr>sk_decompressor := Some d\<rparr>)))"

definition deliverResponseHeaders :: "'z clientEnv \<Rightarrow> 'z hstream \<Rightarrow> 'z hstream" where
  "deliverResponseHeaders env stream =
     (case st_sink stream of
        None \<Rightarrow> stream
      | Some sink \<Rightarrow>
          if sk_headersDelivered sink then stream
          else (let (stream, sink) = prepareStreamDecoder env stream (sink\<lparr>sk_headersDelivered := True\<rparr>);
                    sink = (if sk_onHeaders sink then record_event (EvHeaders (headerList stream)) sink else sink)
                in stream\<lparr>st_sink := Some sink\<rparr>))"

section \<open>The body\<close>

fun decodeError :: "contentEncoding \<Rightarrow> error" where
  "decodeError ENCODING_GZIP = ERR_RESPONSE_GZIP_INFLATE_FAILED"
| "decodeError ENCODING_BROTLI = ERR_RESPONSE_BROTLI_INFLATE_FAILED"
| "decodeError ENCODING_DEFLATE = ERR_RESPONSE_DEFLATE_INFLATE_FAILED"
| "decodeError ENCODING_ZSTD = ERR_RESPONSE_ZSTD_INFLATE_FAILED"
| "decodeError ENCODING_IDENTITY = ERR_RESPONSE_INFLATE_UNKNOWN_ERROR"

text \<open>\<open>True\<close> is the result 1 (keep reading), \<open>False\<close> is -1.\<close>

definition bufferStreamPayload :: "'z clientEnv \<Rightarrow> 'z hstream \<Rightarrow> bytes \<Rightarrow> 'z hstream \<times> bool" where
  "bufferStreamPayload env stream data =
     (if \<not> ev_alloc env (length (st_combinedPayload stream) + length data)
      then (stream\<lparr>st_error := ERR_SYSTEM_MEMORY_ALLOCATION_FAILED\<rparr>, False)
      else (stream\<lparr>st_combinedPayload := st_combinedPayload stream @ data\<rparr>, True))"

definition abortResponseSink :: "'z hstream \<Rightarrow> 'z hstream" where
  "abortResponseSink stream =
     (withSink (\<lambda>sink. sink\<lparr>sk_aborted := True, sk_cancelled := True,
                            sk_error := ERR_RESPONSE_STREAM_ABORTED_BY_CONSUMER\<rparr>) stream)
       \<lparr>st_error := ERR_RESPONSE_STREAM_ABORTED_BY_CONSUMER\<rparr>"

text \<open>
  The consumer of decoded pieces. Its state is the stream and \<open>delivery->delivered\<close>; the flag
  is the non-zero result that stops the decoder.
\<close>

definition consumeResponseBody :: "'z clientEnv \<Rightarrow> 'z hstream \<times> nat \<Rightarrow> bytes \<Rightarrow> ('z hstream \<times> nat) \<times> bool" where
  "consumeResponseBody env sd data =
     (case sd of (stream, delivered) \<Rightarrow>
        (case st_sink stream of
           None \<Rightarrow> ((stream, delivered), True)
         | Some sink \<Rightarrow>
             if sk_collecting sink then
               (case bufferStreamPayload env stream data of
                  (stream, False) \<Rightarrow>
                    ((withSink (\<lambda>sink. sink\<lparr>sk_error := st_error stream, sk_cancelled := True\<rparr>) stream, delivered), True)
                | (stream, True) \<Rightarrow> ((stream, delivered + length data), False))
             else (case sk_onData sink of
                     None \<Rightarrow> ((stream, delivered), False)
                   | Some onData \<Rightarrow>
                       (let abortRequested = onData (sk_events sink) data;
                            stream = withSink (record_event (EvData data)) stream
                        in if \<not> abortRequested then ((stream, delivered + length data), False)
                           else ((abortResponseSink stream, delivered), True)))))"

text \<open>
  \<open>None\<close> as a result is a decoder that never returns; the delivered count and the
  decoder's state are written back after the feed. A sink whose decoder fails is cancelled,
  with the error of its encoding unless another one was recorded.
\<close>

definition settleDelivery :: "'z clientEnv \<Rightarrow> feedResult \<Rightarrow> 'z streamDecompressor option \<Rightarrow> 'z hstream \<Rightarrow> nat \<Rightarrow> 'z hstream \<times> bool" where
  "settleDelivery env consumed decompressor stream delivered =
     (case st_sink stream of
        None \<Rightarrow> (stream\<lparr>st_lastActivityTime := ev_now env\<rparr>, False)
      | Some sink \<Rightarrow>
          (let sink = sink\<lparr>sk_decompressor := decompressor, sk_delivered := sk_delivered sink + delivered\<rparr>;
               stream = stream\<lparr>st_lastActivityTime := ev_now env\<rparr>;
               decodeFailed = (consumed = FedFailed \<and> \<not> failed (sk_error sink));
               keepReading = (consumed = FedAll \<and> \<not> sk_aborted sink)
           in if decodeFailed
              then (stream\<lparr>st_sink := Some (sink\<lparr>sk_error := decodeError (sk_encoding sink), sk_cancelled := True\<rparr>),
                           st_error := decodeError (sk_encoding sink)\<rparr>, keepReading)
              else (stream\<lparr>st_sink := Some sink\<rparr>, keepReading)))"

definition deliverStreamPayload :: "'z clientEnv \<Rightarrow> 'z hstream \<Rightarrow> 'z responseSink \<Rightarrow> bytes \<Rightarrow> ('z hstream \<times> bool) option" where
  "deliverStreamPayload env stream sink data =
     (if sk_aborted sink then Some (stream, False)
      else map_option
        (\<lambda>(consumed, decompressor, (stream, delivered)). settleDelivery env consumed decompressor stream delivered)
        (feedStreamDecompressor (ev_lib env) (consumeResponseBody env) (sk_decompressor sink) data (stream, 0)))"

definition appendStreamPayload :: "'z clientEnv \<Rightarrow> 'z hstream \<Rightarrow> bytes \<Rightarrow> ('z hstream \<times> bool) option" where
  "appendStreamPayload env stream data =
     (if data = [] then Some (stream, True)
      else (case st_sink stream of
              None \<Rightarrow> Some (bufferStreamPayload env stream data)
            | Some sink \<Rightarrow> deliverStreamPayload env stream sink data))"

section \<open>The end\<close>

definition completeResponseSink :: "'z hstream \<Rightarrow> 'z hstream" where
  "completeResponseSink stream =
     (case st_sink stream of
        None \<Rightarrow> stream
      | Some sink \<Rightarrow>
          if sk_completed sink then stream
          else (let sink = sink\<lparr>sk_completed := True, sk_decompressor := None\<rparr>;
                    err = (if failed (sk_error sink) then sk_error sink else st_error stream);
                    sink = (if sk_onComplete sink then record_event (EvComplete err) sink else sink)
                in stream\<lparr>st_sink := Some sink\<rparr>))"

definition isResponseStreaming :: "'z hstream \<Rightarrow> bool" where
  "isResponseStreaming stream \<longleftrightarrow> st_sink stream \<noteq> None"

definition isContractStreamed :: "'z responseSink option \<Rightarrow> bool" where
  "isContractStreamed sink = (case sink of None \<Rightarrow> False | Some s \<Rightarrow> \<not> sk_collecting s)"

definition takeResponseCancellation :: "'z hstream \<Rightarrow> 'z hstream \<times> bool" where
  "takeResponseCancellation stream =
     (case st_sink stream of
        None \<Rightarrow> (stream, False)
      | Some sink \<Rightarrow>
          if \<not> sk_cancelled sink \<or> sk_cancellationTaken sink then (stream, False)
          else (stream\<lparr>st_sink := Some (sink\<lparr>sk_cancellationTaken := True\<rparr>)\<rparr>, True))"

section \<open>Deadlines\<close>

text \<open>A \<open>struct timespec\<close>: seconds and nanoseconds. C division and remainder truncate toward zero.\<close>

definition timeoutSeconds :: "int \<Rightarrow> int" where
  "timeoutSeconds ms = (if ms < 0 then - ((- ms) div 1000) else ms div 1000)"

definition timeoutMillis :: "int \<Rightarrow> int" where
  "timeoutMillis ms = ms - 1000 * timeoutSeconds ms"

definition buildResponseDeadline :: "int \<times> int \<Rightarrow> int \<Rightarrow> int \<times> int" where
  "buildResponseDeadline now ms =
     (let sec = fst now + timeoutSeconds ms; nsec = snd now + timeoutMillis ms * 1000000
      in if nsec \<ge> 1000000000 then (sec + 1, nsec - 1000000000) else (sec, nsec))"

definition renewStreamDeadline :: "int \<Rightarrow> 'z hstream \<Rightarrow> int \<Rightarrow> int \<times> int \<Rightarrow> (int \<times> int) \<times> bool" where
  "renewStreamDeadline now stream ms deadline =
     (if \<not> isResponseStreaming stream then (deadline, False)
      else (let stillActive = ((now - st_lastActivityTime stream) * 1000 < ms)
            in if stillActive
               then ((st_lastActivityTime stream + timeoutSeconds ms, timeoutMillis ms * 1000000), True)
               else (deadline, False)))"

section \<open>The sequence of callbacks\<close>

fun isHeadersEvent :: "event \<Rightarrow> bool" where
  "isHeadersEvent (EvHeaders hs) = True" | "isHeadersEvent e = False"

fun isCompleteEvent :: "event \<Rightarrow> bool" where
  "isCompleteEvent (EvComplete e) = True" | "isCompleteEvent e = False"

text \<open>
  \<open>accepted f evs\<close>: the consumer let every chunk of the record pass; \<open>quietAfter f evs\<close>: after a
  chunk it refused, it was not handed another one.
\<close>

definition accepted :: "(event list \<Rightarrow> bytes \<Rightarrow> bool) \<Rightarrow> event list \<Rightarrow> bool" where
  "accepted f evs \<longleftrightarrow> (\<forall>xs d ys. evs = xs @ EvData d # ys \<longrightarrow> \<not> f xs d)"

definition quietAfter :: "(event list \<Rightarrow> bytes \<Rightarrow> bool) \<Rightarrow> event list \<Rightarrow> bool" where
  "quietAfter f evs \<longleftrightarrow> (\<forall>xs d ys. evs = xs @ EvData d # ys \<longrightarrow> f xs d \<longrightarrow> (\<forall>x. EvData x \<notin> set ys))"

lemma snoc_split: "evs @ [e] = xs @ y # ys \<longleftrightarrow> (ys = [] \<and> xs = evs \<and> y = e) \<or> (\<exists>zs. ys = zs @ [e] \<and> evs = xs @ y # zs)"
  by (cases ys rule: rev_cases) auto

lemma accepted_snoc [simp]:
  "accepted f (evs @ [e]) \<longleftrightarrow> accepted f evs \<and> (case e of EvData d \<Rightarrow> \<not> f evs d | _ \<Rightarrow> True)"
  unfolding accepted_def snoc_split by (auto split: event.splits)

lemma accepted_quiet: "accepted f evs \<Longrightarrow> quietAfter f evs"
  by (auto simp: accepted_def quietAfter_def)

lemma quietAfter_other: "quietAfter f evs \<Longrightarrow> (\<And>d. e \<noteq> EvData d) \<Longrightarrow> quietAfter f (evs @ [e])"
  unfolding quietAfter_def snoc_split by fastforce

lemma quietAfter_data: "accepted f evs \<Longrightarrow> quietAfter f (evs @ [EvData d])"
  unfolding quietAfter_def accepted_def snoc_split by auto

lemma accepted_Nil [simp]: "accepted f []" "quietAfter f []"
  by (simp_all add: accepted_def quietAfter_def)

definition countEvents :: "(event \<Rightarrow> bool) \<Rightarrow> event list \<Rightarrow> nat" where
  "countEvents p evs = length (filter p evs)"

lemma countEvents_snoc [simp]: "countEvents p (evs @ [e]) = countEvents p evs + (if p e then 1 else 0)"
  "countEvents p [] = 0"
  by (simp_all add: countEvents_def)

definition traceOk :: "'z responseSink \<Rightarrow> bool" where
  "traceOk sink \<longleftrightarrow>
     countEvents isHeadersEvent (sk_events sink) = (if sk_onHeaders sink \<and> sk_headersDelivered sink then 1 else 0)
     \<and> countEvents isCompleteEvent (sk_events sink) = (if sk_onComplete sink \<and> sk_completed sink then 1 else 0)
     \<and> (\<forall>f. sk_onData sink = Some f \<longrightarrow>
           quietAfter f (sk_events sink) \<and> (sk_aborted sink \<or> accepted f (sk_events sink)))"

text \<open>The trace of a sink depends on these fields only.\<close>

lemma traceOk_cong:
  assumes "traceOk sink" "sk_events sink' = sk_events sink" "sk_onHeaders sink' = sk_onHeaders sink"
    "sk_headersDelivered sink' = sk_headersDelivered sink" "sk_onComplete sink' = sk_onComplete sink"
    "sk_completed sink' = sk_completed sink" "sk_onData sink' = sk_onData sink" "sk_aborted sink' = sk_aborted sink"
  shows "traceOk sink'"
  using assms by (simp add: traceOk_def)

lemma traceOk_update [simp]:
  "traceOk (sink\<lparr>sk_error := e\<rparr>) = traceOk sink"
  "traceOk (sink\<lparr>sk_cancelled := b\<rparr>) = traceOk sink"
  "traceOk (sink\<lparr>sk_cancellationTaken := b\<rparr>) = traceOk sink"
  "traceOk (sink\<lparr>sk_delivered := n\<rparr>) = traceOk sink"
  "traceOk (sink\<lparr>sk_decompressor := d\<rparr>) = traceOk sink"
  by (simp_all add: traceOk_def)

lemma traceOk_headers:
  assumes "traceOk sink" "\<not> sk_headersDelivered sink"
  shows "traceOk (sink\<lparr>sk_headersDelivered := True, sk_events := sk_events sink @ (if sk_onHeaders sink then [EvHeaders hs] else [])\<rparr>)"
  using assms by (auto simp: traceOk_def intro: quietAfter_other)

lemma traceOk_complete:
  assumes "traceOk sink" "\<not> sk_completed sink"
  shows "traceOk (sink\<lparr>sk_completed := True, sk_events := sk_events sink @ (if sk_onComplete sink then [EvComplete e] else [])\<rparr>)"
  using assms by (auto simp: traceOk_def intro: quietAfter_other)

lemma traceOk_data:
  assumes "traceOk sink" "\<not> sk_aborted sink" "sk_onData sink = Some f"
  shows "traceOk (sink\<lparr>sk_aborted := f (sk_events sink) d, sk_events := sk_events sink @ [EvData d]\<rparr>)"
  using assms by (auto simp: traceOk_def intro: quietAfter_data)

text \<open>The invariants of a stream; an aborted sink is one that is fed no further chunk.\<close>

definition streamTraceOk :: "'z hstream \<Rightarrow> bool" where
  "streamTraceOk stream = (case st_sink stream of None \<Rightarrow> True | Some sink \<Rightarrow> traceOk sink)"

definition streamAborted :: "'z hstream \<Rightarrow> bool" where
  "streamAborted stream = (case st_sink stream of None \<Rightarrow> False | Some sink \<Rightarrow> sk_aborted sink)"

lemma prepareStreamDecoder_frame:
  assumes "prepareStreamDecoder env stream sink = (stream', sink')"
  shows "sk_events sink' = sk_events sink" "sk_onHeaders sink' = sk_onHeaders sink"
    "sk_headersDelivered sink' = sk_headersDelivered sink" "sk_onComplete sink' = sk_onComplete sink"
    "sk_completed sink' = sk_completed sink" "sk_onData sink' = sk_onData sink" "sk_aborted sink' = sk_aborted sink"
    "sk_cancellationTaken sink' = sk_cancellationTaken sink" "st_headers stream' = st_headers stream"
    "sk_collecting sink' = sk_collecting sink"
  using assms by (auto simp: prepareStreamDecoder_def Let_def split: if_splits option.splits)

lemma deliverResponseHeaders_trace:
  assumes "streamTraceOk stream"
  shows "streamTraceOk (deliverResponseHeaders env stream)"
proof (cases "st_sink stream")
  case None
  then show ?thesis using assms by (simp add: deliverResponseHeaders_def)
next
  case (Some sink)
  show ?thesis
  proof (cases "sk_headersDelivered sink")
    case True
    then show ?thesis using assms Some by (simp add: deliverResponseHeaders_def)
  next
    case False
    obtain stream' sink' where prep: "prepareStreamDecoder env stream (sink\<lparr>sk_headersDelivered := True\<rparr>) = (stream', sink')"
      by fastforce
    note f = prepareStreamDecoder_frame [OF prep]
    have t: "traceOk sink" using assms Some by (simp add: streamTraceOk_def)
    have "traceOk (if sk_onHeaders sink' then record_event (EvHeaders (headerList stream')) sink' else sink')"
      by (rule traceOk_cong [OF traceOk_headers [OF t False, of "headerList stream'"]]) (simp_all add: f record_event_def)
    then show ?thesis using Some False prep
      by (simp add: deliverResponseHeaders_def streamTraceOk_def)
  qed
qed

lemma completeResponseSink_trace:
  assumes "streamTraceOk stream"
  shows "streamTraceOk (completeResponseSink stream)"
proof (cases "st_sink stream")
  case None
  then show ?thesis using assms by (simp add: completeResponseSink_def)
next
  case (Some sink)
  have t: "traceOk sink" using assms Some by (simp add: streamTraceOk_def)
  show ?thesis
  proof (cases "sk_completed sink")
    case True
    then show ?thesis using assms Some by (simp add: completeResponseSink_def)
  next
    case False
    let ?e = "if failed (sk_error sink) then sk_error sink else st_error stream"
    let ?s = "sink\<lparr>sk_completed := True, sk_decompressor := None\<rparr>"
    let ?t = "if sk_onComplete sink then record_event (EvComplete ?e) ?s else ?s"
    have "completeResponseSink stream = stream\<lparr>st_sink := Some ?t\<rparr>"
      using Some False by (simp add: completeResponseSink_def Let_def)
    moreover have "traceOk ?t"
      by (rule traceOk_cong [OF traceOk_complete [OF t False, of ?e]]) (simp_all add: record_event_def)
    ultimately show ?thesis by (simp add: streamTraceOk_def)
  qed
qed

lemma takeResponseCancellation_trace:
  "streamTraceOk stream \<Longrightarrow> streamTraceOk (fst (takeResponseCancellation stream))"
  by (auto simp: streamTraceOk_def takeResponseCancellation_def split: option.splits)

lemma bufferStreamPayload_frame [simp]:
  "st_sink (fst (bufferStreamPayload env stream data)) = st_sink stream"
  by (simp add: bufferStreamPayload_def)

text \<open>The three ways the consumer treats a piece: collect it, ignore it, hand it to \<open>onData\<close>.\<close>

lemma consume_collecting:
  assumes "st_sink stream = Some sink" "sk_collecting sink"
  shows "consumeResponseBody env (stream, n) d =
     (if ev_alloc env (length (st_combinedPayload stream) + length d)
      then ((stream\<lparr>st_combinedPayload := st_combinedPayload stream @ d\<rparr>, n + length d), False)
      else ((stream\<lparr>st_error := ERR_SYSTEM_MEMORY_ALLOCATION_FAILED,
                    st_sink := Some (sink\<lparr>sk_error := ERR_SYSTEM_MEMORY_ALLOCATION_FAILED, sk_cancelled := True\<rparr>)\<rparr>, n), True))"
  using assms by (simp add: consumeResponseBody_def bufferStreamPayload_def withSink_def)

lemma consume_data:
  assumes "st_sink stream = Some sink" "\<not> sk_collecting sink" "sk_onData sink = Some f"
  shows "consumeResponseBody env (stream, n) d =
     (if f (sk_events sink) d
      then ((stream\<lparr>st_error := ERR_RESPONSE_STREAM_ABORTED_BY_CONSUMER,
                    st_sink := Some (sink\<lparr>sk_events := sk_events sink @ [EvData d], sk_aborted := True, sk_cancelled := True,
                                         sk_error := ERR_RESPONSE_STREAM_ABORTED_BY_CONSUMER\<rparr>)\<rparr>, n), True)
      else ((stream\<lparr>st_sink := Some (sink\<lparr>sk_events := sk_events sink @ [EvData d]\<rparr>)\<rparr>, n + length d), False))"
  using assms by (simp add: consumeResponseBody_def abortResponseSink_def withSink_def record_event_def)

lemma consume_ignored:
  assumes "st_sink stream = Some sink" "\<not> sk_collecting sink" "sk_onData sink = None"
  shows "consumeResponseBody env (stream, n) d = ((stream, n), False)"
  using assms by (simp add: consumeResponseBody_def)

lemma consumeResponseBody_keeps:
  "consumerKeeps (consumeResponseBody env)
     (\<lambda>(stream, n). streamTraceOk stream \<and> \<not> streamAborted stream) (\<lambda>(stream, n). streamTraceOk stream)"
  unfolding consumerKeeps_def
proof (clarify, goal_cases)
  case (1 stream n d stream' n' a)
  show ?case
  proof (cases "st_sink stream")
    case None
    then show ?thesis using 1 by (auto simp: consumeResponseBody_def)
  next
    case (Some sink)
    have t: "traceOk sink" "\<not> sk_aborted sink" using 1 Some by (simp_all add: streamTraceOk_def streamAborted_def)
    consider "sk_collecting sink" | "\<not> sk_collecting sink" "sk_onData sink = None"
      | f where "\<not> sk_collecting sink" "sk_onData sink = Some f" by fastforce
    then show ?thesis
    proof cases
      case 1
      then show ?thesis using \<open>consumeResponseBody env (stream, n) d = _\<close> Some t
        by (auto simp: consume_collecting streamTraceOk_def streamAborted_def split: if_splits)
    next
      case 2
      then show ?thesis using \<open>consumeResponseBody env (stream, n) d = _\<close> Some t
        by (auto simp: consume_ignored streamTraceOk_def streamAborted_def)
    next
      case (3 f)
      note td = traceOk_data [OF t 3(2), of d]
      show ?thesis
      proof (cases "f (sk_events sink) d")
        case True
        have "traceOk (sink\<lparr>sk_events := sk_events sink @ [EvData d], sk_aborted := True, sk_cancelled := True,
                            sk_error := ERR_RESPONSE_STREAM_ABORTED_BY_CONSUMER\<rparr>)"
          by (rule traceOk_cong [OF td]) (simp_all add: True)
        then show ?thesis using \<open>consumeResponseBody env (stream, n) d = _\<close> Some 3 True
          by (auto simp: consume_data streamTraceOk_def)
      next
        case False
        have "traceOk (sink\<lparr>sk_events := sk_events sink @ [EvData d]\<rparr>)"
          by (rule traceOk_cong [OF td]) (simp_all add: False t)
        then show ?thesis using \<open>consumeResponseBody env (stream, n) d = _\<close> Some 3 False t
          by (auto simp: consume_data streamTraceOk_def streamAborted_def)
      qed
    qed
  qed
qed

lemma withSink_trace [simp]:
  "(\<And>sink. traceOk (f sink) = traceOk sink) \<Longrightarrow> streamTraceOk (withSink f stream) = streamTraceOk stream"
  by (auto simp: streamTraceOk_def withSink_def split: option.splits)

lemma streamTraceOk_update [simp]:
  "streamTraceOk (stream\<lparr>st_lastActivityTime := t\<rparr>) = streamTraceOk stream"
  "streamTraceOk (stream\<lparr>st_error := e\<rparr>) = streamTraceOk stream"
  by (simp_all add: streamTraceOk_def)

lemma settleDelivery_trace [simp]:
  "streamTraceOk (fst (settleDelivery env consumed d stream n)) = streamTraceOk stream"
  by (simp add: settleDelivery_def Let_def streamTraceOk_def split: option.splits)

lemma deliverStreamPayload_trace:
  assumes "streamTraceOk stream" "st_sink stream = Some sink"
    and "deliverStreamPayload env stream sink data = Some (stream', keep)"
  shows "streamTraceOk stream'"
proof (cases "sk_aborted sink")
  case True
  then show ?thesis using assms by (simp add: deliverStreamPayload_def)
next
  case False
  obtain consumed d' fed n where feed: "feedStreamDecompressor (ev_lib env) (consumeResponseBody env) (sk_decompressor sink)
      data (stream, 0) = Some (consumed, d', (fed, n))"
    using assms(3) False by (auto simp: deliverStreamPayload_def)
  have "streamTraceOk fed"
    using feedStreamDecompressor_keeps [OF feed consumeResponseBody_keeps] assms(1,2) False
    by (auto simp: streamAborted_def split: if_splits)
  moreover have "stream' = fst (settleDelivery env consumed d' fed n)"
    using assms(3) False feed by (simp add: deliverStreamPayload_def)
  ultimately show ?thesis by simp
qed

lemma appendStreamPayload_trace:
  assumes "streamTraceOk stream" "appendStreamPayload env stream data = Some (stream', keep)"
  shows "streamTraceOk stream'"
  using assms deliverStreamPayload_trace
  by (fastforce simp: appendStreamPayload_def bufferStreamPayload_def streamTraceOk_def split: if_splits option.splits)

section \<open>Runs of the funnel\<close>

text \<open>
  One step of a protocol's reader on a stream. \<open>elsewhere\<close> stands for everything else the reader
  and the requesting thread do to the stream: it leaves the sink alone.
\<close>

inductive funnelStep :: "'z clientEnv \<Rightarrow> 'z hstream \<Rightarrow> 'z hstream \<Rightarrow> bool" for env where
  headers: "funnelStep env stream (deliverResponseHeaders env stream)"
| body: "appendStreamPayload env stream data = Some (stream', keep) \<Longrightarrow> funnelStep env stream stream'"
| complete: "funnelStep env stream (completeResponseSink stream)"
| cancel: "funnelStep env stream (fst (takeResponseCancellation stream))"
| elsewhere: "st_sink stream' = st_sink stream \<Longrightarrow> funnelStep env stream stream'"

inductive_cases funnelStepE: "funnelStep env stream stream'"

lemma funnelStep_trace: "funnelStep env stream stream' \<Longrightarrow> streamTraceOk stream \<Longrightarrow> streamTraceOk stream'"
  by (induction rule: funnelStep.induct)
    (simp_all add: deliverResponseHeaders_trace completeResponseSink_trace takeResponseCancellation_trace
      appendStreamPayload_trace, simp add: streamTraceOk_def)

lemma funnelRun_trace: "(funnelStep env)\<^sup>*\<^sup>* stream stream' \<Longrightarrow> streamTraceOk stream \<Longrightarrow> streamTraceOk stream'"
  by (induction rule: rtranclp_induct) (auto intro: funnelStep_trace)

lemma buildResponseSink_trace [simp]: "traceOk (buildResponseSink requested contract)"
  by (simp add: traceOk_def buildResponseSink_def)

text \<open>C3. The callback discipline of the response contract: however header delivery, body chunks
  (decoded or not), completion, cancellation and the other steps of reader and requester
  interleave, the caller sees at most one \<open>onHeaders\<close> and at most one \<open>onComplete\<close>, both only when
  it gave them, and once \<open>onData\<close> has asked to stop it is not handed another chunk.\<close>

theorem callback_discipline:
  assumes "(funnelStep env)\<^sup>*\<^sup>* stream stream'"
    and "st_sink stream = Some (buildResponseSink requested contract)" and "st_sink stream' = Some sink"
  shows "countEvents isHeadersEvent (sk_events sink) = (if sk_onHeaders sink \<and> sk_headersDelivered sink then 1 else 0)
    \<and> countEvents isCompleteEvent (sk_events sink) = (if sk_onComplete sink \<and> sk_completed sink then 1 else 0)
    \<and> (case sk_onData sink of None \<Rightarrow> True | Some f \<Rightarrow> quietAfter f (sk_events sink))"
proof -
  have "streamTraceOk stream'"
    using funnelRun_trace [OF assms(1)] assms(2) by (simp add: streamTraceOk_def)
  then show ?thesis using assms(3) by (auto simp: streamTraceOk_def traceOk_def split: option.splits)
qed

definition stopAtTwo :: responseContract where
  "stopAtTwo = \<lparr>rc_onHeaders = True, rc_onData = Some (\<lambda>evs d. length evs \<ge> 2), rc_onComplete = True\<rparr>"

definition emptyStream :: "'z responseSink option \<Rightarrow> 'z hstream" where
  "emptyStream sink = \<lparr>st_streamId = 1, st_isEnded = False, st_sink = sink, st_headers = Some [], st_combinedPayload = [],
     st_headerBlock = [], st_awaitingContinuation = False, st_payloadDecoded = False, st_lastActivityTime = 0,
     st_error = ERR_NONE\<rparr>"

definition roomyEnv :: "'z decoderLib \<Rightarrow> 'z clientEnv" where
  "roomyEnv lib = \<lparr>ev_alloc = (\<lambda>_. True), ev_now = 0, ev_lib = lib\<rparr>"

text \<open>What a run does to a fresh stream: headers, then the chunks, each result thrown away, then the end.\<close>

fun appendChunks :: "'z clientEnv \<Rightarrow> 'z hstream \<Rightarrow> bytes list \<Rightarrow> 'z hstream option" where
  "appendChunks env stream [] = Some stream"
| "appendChunks env stream (c # cs) =
     (case appendStreamPayload env stream c of None \<Rightarrow> None | Some (stream', keep) \<Rightarrow> appendChunks env stream' cs)"

lemma appendChunks_run: "appendChunks env stream cs = Some stream' \<Longrightarrow> (funnelStep env)\<^sup>*\<^sup>* stream stream'"
  by (induction env stream cs rule: appendChunks.induct)
    (auto split: option.splits prod.splits intro: funnelStep.body converse_rtranclp_into_rtranclp)

lemma feed_identity:
  "feedStreamDecompressor lib consume None data s =
     (case consume s data of (s', aborted) \<Rightarrow> Some (if aborted then FedAborted else FedAll, None, s'))"
  by (simp add: feedStreamDecompressor_def)

lemma append_contract:
  assumes "st_sink stream = Some sink" "sk_decompressor sink = None" "\<not> sk_aborted sink" "\<not> sk_collecting sink"
    "sk_onData sink = Some f" "d \<noteq> []"
  shows "appendStreamPayload env stream d =
     (if f (sk_events sink) d
      then Some (stream\<lparr>st_error := ERR_RESPONSE_STREAM_ABORTED_BY_CONSUMER, st_lastActivityTime := ev_now env,
                    st_sink := Some (sink\<lparr>sk_events := sk_events sink @ [EvData d], sk_aborted := True, sk_cancelled := True,
                                         sk_error := ERR_RESPONSE_STREAM_ABORTED_BY_CONSUMER\<rparr>)\<rparr>, False)
      else Some (stream\<lparr>st_lastActivityTime := ev_now env,
                    st_sink := Some (sink\<lparr>sk_events := sk_events sink @ [EvData d],
                                         sk_delivered := sk_delivered sink + length d\<rparr>)\<rparr>, True))"
  using assms
  by (simp add: appendStreamPayload_def deliverStreamPayload_def feed_identity consume_data settleDelivery_def Let_def)

lemma append_collecting:
  assumes "st_sink stream = Some sink" "sk_decompressor sink = None" "\<not> sk_aborted sink" "sk_collecting sink"
    "\<forall>n. ev_alloc env n" "d \<noteq> []"
  shows "appendStreamPayload env stream d =
      Some (stream\<lparr>st_combinedPayload := st_combinedPayload stream @ d, st_lastActivityTime := ev_now env,
                   st_sink := Some (sink\<lparr>sk_delivered := sk_delivered sink + length d\<rparr>)\<rparr>, True)"
  using assms
  by (simp add: appendStreamPayload_def deliverStreamPayload_def feed_identity consume_collecting settleDelivery_def Let_def)

lemma append_aborted:
  assumes "st_sink stream = Some sink" "sk_aborted sink"
  shows "appendStreamPayload env stream d = Some (stream, d = [])"
  using assms by (simp add: appendStreamPayload_def deliverStreamPayload_def)

lemma append_empty: "appendStreamPayload env stream [] = Some (stream, True)"
  by (simp add: appendStreamPayload_def)

lemma appendChunks_aborted:
  assumes "st_sink stream = Some sink" "sk_aborted sink"
  shows "appendChunks env stream cs = Some stream"
  by (induction cs) (simp_all add: append_aborted [OF assms])

text \<open>The chunks a consumer \<open>f\<close> is handed: up to and including the first one it refuses.\<close>

fun handed :: "(event list \<Rightarrow> bytes \<Rightarrow> bool) \<Rightarrow> event list \<Rightarrow> bytes list \<Rightarrow> bytes list" where
  "handed f evs [] = []"
| "handed f evs (c # cs) = c # (if f evs c then [] else handed f (evs @ [EvData c]) cs)"

text \<open>Whether \<open>f\<close> refuses one of them.\<close>

fun refuses :: "(event list \<Rightarrow> bytes \<Rightarrow> bool) \<Rightarrow> event list \<Rightarrow> bytes list \<Rightarrow> bool" where
  "refuses f evs [] = False"
| "refuses f evs (c # cs) = (f evs c \<or> refuses f (evs @ [EvData c]) cs)"

text \<open>C27. A body that needs no decoding reaches the caller unchanged: the non-empty chunks are
  handed to \<open>onData\<close> one by one, in order and byte for byte, up to and including the first one
  the caller refuses; the stream then carries the error of an aborted response and no other
  error is recorded otherwise.\<close>

theorem contract_body_delivery:
  assumes "st_sink stream = Some sink" "sk_decompressor sink = None" "\<not> sk_aborted sink" "\<not> sk_collecting sink"
    "sk_onData sink = Some f"
  shows "\<exists>stream' sink'. appendChunks env stream cs = Some stream' \<and> st_sink stream' = Some sink'
    \<and> sk_events sink' = sk_events sink @ map EvData (handed f (sk_events sink) (filter (\<lambda>c. c \<noteq> []) cs))
    \<and> sk_aborted sink' = refuses f (sk_events sink) (filter (\<lambda>c. c \<noteq> []) cs)
    \<and> sk_cancelled sink' = (sk_cancelled sink \<or> sk_aborted sink')
    \<and> st_error stream' = (if sk_aborted sink' then ERR_RESPONSE_STREAM_ABORTED_BY_CONSUMER else st_error stream)
    \<and> st_combinedPayload stream' = st_combinedPayload stream"
  using assms
proof (induction cs arbitrary: stream sink)
  case Nil
  then show ?case by simp
next
  case (Cons c cs)
  show ?case
  proof (cases "c = [] \<or> f (sk_events sink) c")
    case True
    then show ?thesis
    proof
      assume "c = []"
      then show ?thesis using Cons by (simp add: append_empty)
    next
      assume r: "f (sk_events sink) c"
      then show ?thesis using Cons
        by (cases "c = []") (simp_all add: append_empty append_contract appendChunks_aborted)
    qed
  next
    case False
    let ?sink = "sink\<lparr>sk_events := sk_events sink @ [EvData c], sk_delivered := sk_delivered sink + length c\<rparr>"
    show ?thesis
      using Cons.IH [of "stream\<lparr>st_lastActivityTime := ev_now env, st_sink := Some ?sink\<rparr>" ?sink] Cons.prems False
      by (simp add: append_contract split del: if_split cong: if_cong)
  qed
qed

lemma contract_body_delivery_witness:
  "\<exists>stream' sink'. appendChunks (roomyEnv runLib) (emptyStream (Some (buildResponseSink 0 (Some stopAtTwo)))) [[1], [], [2], [3], [4]] = Some stream'
    \<and> st_sink stream' = Some sink' \<and> sk_events sink' = [EvData [1], EvData [2], EvData [3]]
    \<and> st_error stream' = ERR_RESPONSE_STREAM_ABORTED_BY_CONSUMER"
  using contract_body_delivery [of "emptyStream (Some (buildResponseSink 0 (Some stopAtTwo)))"
      "buildResponseSink 0 (Some stopAtTwo)" "\<lambda>evs d. length evs \<ge> 2" "roomyEnv runLib" "[[1], [], [2], [3], [4]]"]
  by (fastforce simp: emptyStream_def buildResponseSink_def stopAtTwo_def)

text \<open>The library's own collector: chunks that need no decoding accumulate in the stream's
  payload, nothing lost and nothing reordered, and the sink counts the bytes.\<close>

theorem collector_accumulates:
  assumes "st_sink stream = Some sink" "sk_decompressor sink = None" "\<not> sk_aborted sink" "sk_collecting sink"
    "\<forall>n. ev_alloc env n"
  shows "\<exists>stream' sink'. appendChunks env stream cs = Some stream' \<and> st_sink stream' = Some sink'
    \<and> st_combinedPayload stream' = st_combinedPayload stream @ concat cs
    \<and> sk_delivered sink' = sk_delivered sink + length (concat cs)
    \<and> st_error stream' = st_error stream \<and> sk_cancelled sink' = sk_cancelled sink"
  using assms
proof (induction cs arbitrary: stream sink)
  case Nil
  then show ?case by simp
next
  case (Cons c cs)
  show ?case
  proof (cases "c = []")
    case True
    then show ?thesis using Cons by (simp add: append_empty)
  next
    case False
    let ?sink = "sink\<lparr>sk_delivered := sk_delivered sink + length c\<rparr>"
    show ?thesis
      using Cons.IH [of "stream\<lparr>st_combinedPayload := st_combinedPayload stream @ c, st_lastActivityTime := ev_now env,
          st_sink := Some ?sink\<rparr>" ?sink] Cons.prems False
      by (simp add: append_collecting add.assoc)
  qed
qed

lemma collector_accumulates_witness:
  "\<exists>stream' sink'. appendChunks (roomyEnv runLib) (emptyStream (Some (buildResponseSink 0 None))) [[1], [], [2, 3]] = Some stream'
    \<and> st_sink stream' = Some sink' \<and> st_combinedPayload stream' = [1, 2, 3] \<and> sk_delivered sink' = 3"
  using collector_accumulates [of "emptyStream (Some (buildResponseSink 0 None))" "buildResponseSink 0 None"
      "roomyEnv runLib" "[[1], [], [2, 3]]"]
  by (fastforce simp: emptyStream_def buildResponseSink_def roomyEnv_def)

text \<open>Headers, three chunks of which the second is refused, and the end: the whole sequence of callbacks.\<close>

lemma callback_discipline_witness:
  "\<exists>stream' sink. (funnelStep (roomyEnv runLib))\<^sup>*\<^sup>* (emptyStream (Some (buildResponseSink 0 (Some stopAtTwo)))) stream'
    \<and> st_sink stream' = Some sink
    \<and> sk_events sink = [EvHeaders [], EvData [1], EvData [2], EvComplete ERR_RESPONSE_STREAM_ABORTED_BY_CONSUMER]
    \<and> countEvents isHeadersEvent (sk_events sink) = 1 \<and> countEvents isCompleteEvent (sk_events sink) = 1
    \<and> quietAfter (\<lambda>evs d. length evs \<ge> 2) (sk_events sink)"
proof -
  let ?env = "roomyEnv runLib :: (bytes \<times> nat) clientEnv"
  let ?start = "emptyStream (Some (buildResponseSink 0 (Some stopAtTwo))) :: (bytes \<times> nat) hstream"
  let ?h = "deliverResponseHeaders ?env ?start"
  obtain stream where body: "appendChunks ?env ?h [[1], [2], [3]] = Some stream"
    and sink: "\<exists>sink. st_sink (completeResponseSink stream) = Some sink
      \<and> sk_events sink = [EvHeaders [], EvData [1], EvData [2], EvComplete ERR_RESPONSE_STREAM_ABORTED_BY_CONSUMER]
      \<and> sk_onHeaders sink \<and> sk_onComplete sink \<and> sk_headersDelivered sink \<and> sk_completed sink
      \<and> sk_onData sink = Some (\<lambda>evs d. length evs \<ge> 2)"
    by (simp add: deliverResponseHeaders_def prepareStreamDecoder_def headerList_def
        emptyStream_def buildResponseSink_def stopAtTwo_def record_event_def append_contract append_aborted
        completeResponseSink_def)
  have run: "(funnelStep ?env)\<^sup>*\<^sup>* ?start (completeResponseSink stream)"
    using funnelStep.headers [of ?env ?start] appendChunks_run [OF body] funnelStep.complete [of ?env stream]
    by (meson converse_rtranclp_into_rtranclp rtranclp.rtrancl_into_rtrancl)
  from sink obtain sink where s: "st_sink (completeResponseSink stream) = Some sink"
    and e: "sk_events sink = [EvHeaders [], EvData [1], EvData [2], EvComplete ERR_RESPONSE_STREAM_ABORTED_BY_CONSUMER]"
    and f: "sk_onHeaders sink" "sk_onComplete sink" "sk_headersDelivered sink" "sk_completed sink"
      "sk_onData sink = Some (\<lambda>evs d. length evs \<ge> 2)" by blast
  have "st_sink ?start = Some (buildResponseSink 0 (Some stopAtTwo))" by (simp add: emptyStream_def)
  from callback_discipline [OF run this s] show ?thesis
    using run s e f by auto
qed

section \<open>Cancellation\<close>

definition cancellationTaken :: "'z hstream \<Rightarrow> bool" where
  "cancellationTaken stream \<longleftrightarrow> (case st_sink stream of None \<Rightarrow> True | Some sink \<Rightarrow> sk_cancellationTaken sink)"

lemma consumeResponseBody_taken:
  "consumerKeeps (consumeResponseBody env) (\<lambda>(stream, n). cancellationTaken stream) (\<lambda>(stream, n). cancellationTaken stream)"
  unfolding consumerKeeps_def
proof (clarify, goal_cases)
  case (1 stream n d stream' n' a)
  show ?case
  proof (cases "st_sink stream")
    case None
    then show ?thesis using 1 by (auto simp: consumeResponseBody_def)
  next
    case (Some sink)
    consider "sk_collecting sink" | "\<not> sk_collecting sink" "sk_onData sink = None"
      | f where "\<not> sk_collecting sink" "sk_onData sink = Some f" by fastforce
    then show ?thesis
      by cases (use 1 Some in \<open>auto simp: consume_collecting consume_data consume_ignored cancellationTaken_def
          split: if_splits\<close>)
  qed
qed

lemma settleDelivery_taken [simp]:
  "cancellationTaken (fst (settleDelivery env consumed d stream n)) = cancellationTaken stream"
  by (simp add: settleDelivery_def Let_def cancellationTaken_def split: option.splits)

lemma appendStreamPayload_taken:
  assumes "cancellationTaken stream" "appendStreamPayload env stream data = Some (stream', keep)"
  shows "cancellationTaken stream'"
proof (cases "data = [] \<or> st_sink stream = None")
  case True
  then show ?thesis using assms
    by (auto simp: appendStreamPayload_def bufferStreamPayload_def cancellationTaken_def split: if_splits)
next
  case False
  then obtain sink where sink: "st_sink stream = Some sink" "data \<noteq> []" by auto
  show ?thesis
  proof (cases "sk_aborted sink")
    case True
    then show ?thesis using assms sink by (simp add: append_aborted)
  next
    case False
    then obtain consumed d' fed n where feed: "feedStreamDecompressor (ev_lib env) (consumeResponseBody env)
        (sk_decompressor sink) data (stream, 0) = Some (consumed, d', (fed, n))"
      using assms(2) sink by (auto simp: appendStreamPayload_def deliverStreamPayload_def)
    have "cancellationTaken fed"
      using feedStreamDecompressor_keeps [OF feed consumeResponseBody_taken] assms(1) by (auto split: if_splits)
    moreover have "stream' = fst (settleDelivery env consumed d' fed n)"
      using assms(2) sink False feed by (simp add: appendStreamPayload_def deliverStreamPayload_def)
    ultimately show ?thesis by simp
  qed
qed

lemma funnelStep_taken: "funnelStep env stream stream' \<Longrightarrow> cancellationTaken stream \<Longrightarrow> cancellationTaken stream'"
proof (induction rule: funnelStep.induct)
  case (headers stream)
  then show ?case
    by (auto simp: cancellationTaken_def deliverResponseHeaders_def record_event_def split: option.splits prod.splits
        dest!: prepareStreamDecoder_frame(8))
next
  case (body stream data stream' keep)
  then show ?case by (auto intro: appendStreamPayload_taken)
next
  case (complete stream)
  then show ?case
    by (auto simp: cancellationTaken_def completeResponseSink_def record_event_def Let_def split: option.splits)
next
  case (cancel stream)
  then show ?case by (auto simp: cancellationTaken_def takeResponseCancellation_def split: option.splits)
next
  case (elsewhere stream' stream)
  then show ?case by (simp add: cancellationTaken_def)
qed

lemma funnelRun_taken: "(funnelStep env)\<^sup>*\<^sup>* stream stream' \<Longrightarrow> cancellationTaken stream \<Longrightarrow> cancellationTaken stream'"
  by (induction rule: rtranclp_induct) (auto intro: funnelStep_taken)

text \<open>A cancelled response is cancelled on the wire once: after a step has taken the
  cancellation, no later one takes it again, whatever happens to the stream in between.\<close>

theorem cancellation_taken_once:
  assumes "takeResponseCancellation stream = (stream1, True)" "(funnelStep env)\<^sup>*\<^sup>* stream1 stream2"
  shows "takeResponseCancellation stream2 = (stream2, False)"
proof -
  have "cancellationTaken stream1"
    using assms(1) by (auto simp: takeResponseCancellation_def cancellationTaken_def split: option.splits if_splits)
  then have "cancellationTaken stream2" by (rule funnelRun_taken [OF assms(2)])
  then show ?thesis by (auto simp: takeResponseCancellation_def cancellationTaken_def split: option.splits)
qed

lemma cancellation_taken_once_witness:
  "\<exists>stream :: (bytes \<times> nat) hstream. takeResponseCancellation (emptyStream (Some ((buildResponseSink 0 None)\<lparr>sk_cancelled := True\<rparr>)))
      = (stream, True) \<and> takeResponseCancellation (completeResponseSink stream) = (completeResponseSink stream, False)"
proof -
  let ?start = "emptyStream (Some ((buildResponseSink 0 None)\<lparr>sk_cancelled := True\<rparr>)) :: (bytes \<times> nat) hstream"
  obtain stream where take: "takeResponseCancellation ?start = (stream, True)"
    by (simp add: takeResponseCancellation_def emptyStream_def buildResponseSink_def)
  have "(funnelStep (roomyEnv runLib))\<^sup>*\<^sup>* stream (completeResponseSink stream)"
    by (rule r_into_rtranclp) (rule funnelStep.complete)
  from cancellation_taken_once [OF take this] take show ?thesis by blast
qed

section \<open>Deadlines\<close>

definition nanos :: "int \<times> int \<Rightarrow> int" where
  "nanos t = fst t * 1000000000 + snd t"

text \<open>A deadline is the time it is built at plus the timeout, exactly, with its nanoseconds
  normalised, for every timeout that is not negative.\<close>

theorem deadline_exact:
  assumes "0 \<le> snd now" "snd now < 1000000000" "0 \<le> ms"
  shows "nanos (buildResponseDeadline now ms) = nanos now + ms * 1000000
    \<and> 0 \<le> snd (buildResponseDeadline now ms) \<and> snd (buildResponseDeadline now ms) < 1000000000"
proof -
  obtain q r where r: "timeoutSeconds ms = q" "timeoutMillis ms = r" by blast
  have b: "0 \<le> r" "r \<le> 999" "ms = 1000 * q + r"
    using assms r by (auto simp: timeoutMillis_def timeoutSeconds_def)
  show ?thesis using assms(1,2) b(1,2) unfolding buildResponseDeadline_def nanos_def Let_def r
    by (auto simp: b(3) algebra_simps)
qed

lemma deadline_exact_witness:
  "buildResponseDeadline (10, 999000000) 2500 = (13, 499000000)
   \<and> nanos (buildResponseDeadline (10, 999000000) 2500) = nanos (10, 999000000) + 2500000000"
  using deadline_exact [of "(10, 999000000)" 2500]
  by (simp add: buildResponseDeadline_def timeoutSeconds_def timeoutMillis_def)

end
