(* ===== verification/FlowControl.thy ===== *)
theory FlowControl
  imports Frames
begin

text \<open>
  The reader thread's flow-control ledger and write queue: \<open>replenishStreamWindow\<close>,
  \<open>tuneConnectionWindow\<close> and the stream ledger of \<open>src/Http2ResponseHandler.c\<close>,
  \<open>queueControlFrame\<close> and \<open>flushReaderWrites\<close> of \<open>src/Http2RequestHandler.c\<close>. The counters are
  32-bit words, as in \<open>Session\<close>; the theorems show in which range they do not wrap.
\<close>

section \<open>State\<close>

definition STREAM_WINDOW_UPDATE_THRESHOLD :: "32 word" where
  "STREAM_WINDOW_UPDATE_THRESHOLD = 16384"

definition CONNECTION_WINDOW_UPDATE_THRESHOLD :: "32 word" where
  "CONNECTION_WINDOW_UPDATE_THRESHOLD = 65535"

definition CONNECTION_WINDOW_MAX :: "32 word" where
  "CONNECTION_WINDOW_MAX = 16777216"

definition HTTP2_INITIAL_FLOW_CONTROL_WINDOW :: "32 word" where
  "HTTP2_INITIAL_FLOW_CONTROL_WINDOW = 65535"

definition MAX_CONCURRENT_STREAMS_PER_SESSION :: nat where
  "MAX_CONCURRENT_STREAMS_PER_SESSION = 256"

text \<open>
  The fields of \<open>Session\<close> only the reader touches. \<open>fl_pendingStreamWindows\<close> holds the first
  \<open>pendingStreamWindowCount\<close> entries, a stream identifier and its credit each; \<open>fl_pendingWire\<close>
  the first \<open>pendingWireSize\<close> bytes of the queue. \<open>fl_written\<close> records the writes handed to the
  TLS connection, oldest first.
\<close>

record flow =
  fl_pendingConnWindow :: "32 word"
  fl_pendingStreamWindows :: "(32 word \<times> 32 word) list"
  fl_connWindowFlushDue :: bool
  fl_connWindowTarget :: "32 word"
  fl_connWindowSinceGrowth :: "32 word"
  fl_pendingWire :: bytes
  fl_pendingWireCapacity :: nat
  fl_written :: "bytes list"

definition initFlow :: flow where
  "initFlow = \<lparr>fl_pendingConnWindow = 0, fl_pendingStreamWindows = [], fl_connWindowFlushDue = False,
     fl_connWindowTarget = HTTP2_INITIAL_FLOW_CONTROL_WINDOW, fl_connWindowSinceGrowth = 0,
     fl_pendingWire = [], fl_pendingWireCapacity = 0, fl_written = []\<rparr>"

record streamReading =
  rd_consumedBytes :: "32 word"
  rd_cancelStreamId :: "32 word"
  rd_ended :: bool
  rd_reset :: bool

section \<open>The write queue\<close>

text \<open>The doubling loop; the code enters it with a capacity of at least 256.\<close>

function growCapacity :: "nat \<Rightarrow> nat \<Rightarrow> nat" where
  "growCapacity capacity need =
     (if capacity = 0 \<or> \<not> capacity < need then capacity else growCapacity (capacity * 2) need)"
  by pat_completeness auto
termination by (relation "measure (\<lambda>(capacity, need). need - capacity)") auto

declare growCapacity.simps [simp del]

definition sendControlFrame :: "bytes \<Rightarrow> flow \<Rightarrow> flow" where
  "sendControlFrame frame fl = fl\<lparr>fl_written := fl_written fl @ [frame]\<rparr>"

definition queueControlFrame :: "(nat \<Rightarrow> bool) \<Rightarrow> bytes \<Rightarrow> flow \<Rightarrow> flow" where
  "queueControlFrame alloc frame fl =
     (let need = length (fl_pendingWire fl) + length frame
      in if need > fl_pendingWireCapacity fl
         then (let capacity = growCapacity (if fl_pendingWireCapacity fl \<noteq> 0 then fl_pendingWireCapacity fl else 256) need
               in if \<not> alloc capacity then sendControlFrame frame fl
                  else fl\<lparr>fl_pendingWireCapacity := capacity, fl_pendingWire := fl_pendingWire fl @ frame\<rparr>)
         else fl\<lparr>fl_pendingWire := fl_pendingWire fl @ frame\<rparr>)"

definition queueWindowUpdateFrame :: "(nat \<Rightarrow> bool) \<Rightarrow> 32 word \<Rightarrow> 32 word \<Rightarrow> flow \<Rightarrow> flow" where
  "queueWindowUpdateFrame alloc streamId increment = queueControlFrame alloc (fillWindowUpdateFrame streamId increment)"

definition queueRSTStreamFrame :: "(nat \<Rightarrow> bool) \<Rightarrow> 32 word \<Rightarrow> flow \<Rightarrow> flow" where
  "queueRSTStreamFrame alloc streamId = queueControlFrame alloc (fillRSTStreamFrame streamId)"

definition flushReaderWrites :: "(nat \<Rightarrow> bool) \<Rightarrow> flow \<Rightarrow> flow" where
  "flushReaderWrites alloc fl =
     (let fl = (if fl_connWindowFlushDue fl
                then (let fl = fl\<lparr>fl_connWindowFlushDue := False\<rparr>
                      in if fl_pendingConnWindow fl > 0
                         then (queueWindowUpdateFrame alloc 0 (fl_pendingConnWindow fl) fl)\<lparr>fl_pendingConnWindow := 0\<rparr>
                         else fl)
                else fl)
      in if fl_pendingWire fl = [] then fl
         else fl\<lparr>fl_written := fl_written fl @ [fl_pendingWire fl], fl_pendingWire := []\<rparr>)"

section \<open>The ledger\<close>

definition tuneConnectionWindow :: "32 word \<Rightarrow> flow \<Rightarrow> flow" where
  "tuneConnectionWindow consumed fl =
     (if fl_connWindowTarget fl \<ge> CONNECTION_WINDOW_MAX then fl
      else (let fl = fl\<lparr>fl_connWindowSinceGrowth := fl_connWindowSinceGrowth fl + consumed\<rparr>
            in if fl_connWindowSinceGrowth fl < fl_connWindowTarget fl then fl
               else (let previousTarget = fl_connWindowTarget fl;
                         doubled = previousTarget * 2;
                         target = (if doubled < CONNECTION_WINDOW_MAX then doubled else CONNECTION_WINDOW_MAX)
                     in fl\<lparr>fl_connWindowSinceGrowth := fl_connWindowSinceGrowth fl - previousTarget,
                           fl_connWindowTarget := target,
                           fl_pendingConnWindow := fl_pendingConnWindow fl + (target - previousTarget),
                           fl_connWindowFlushDue := True\<rparr>)))"

definition findPendingWindow :: "32 word \<Rightarrow> flow \<Rightarrow> nat option" where
  "findPendingWindow streamId fl = findIndex (\<lambda>e. fst e = streamId) (fl_pendingStreamWindows fl)"

definition addStreamWindowCredit :: "(nat \<Rightarrow> bool) \<Rightarrow> 32 word \<Rightarrow> 32 word \<Rightarrow> flow \<Rightarrow> flow" where
  "addStreamWindowCredit alloc streamId credit fl =
     (let (windows, entry) = (case findPendingWindow streamId fl of
                                Some i \<Rightarrow> (fl_pendingStreamWindows fl, i)
                              | None \<Rightarrow> (fl_pendingStreamWindows fl @ [(streamId, 0)], length (fl_pendingStreamWindows fl)))
      in if findPendingWindow streamId fl = None \<and> length (fl_pendingStreamWindows fl) \<ge> MAX_CONCURRENT_STREAMS_PER_SESSION
         then fl
         else (let total = snd (windows ! entry) + credit;
                   fl = fl\<lparr>fl_pendingStreamWindows := windows[entry := (streamId, total)]\<rparr>
               in if total \<le> STREAM_WINDOW_UPDATE_THRESHOLD then fl
                  else (queueWindowUpdateFrame alloc streamId total fl)
                         \<lparr>fl_pendingStreamWindows := windows[entry := (streamId, 0)]\<rparr>))"

text \<open>The last entry moves into the slot of the discarded one.\<close>

definition discardPendingStreamWindow :: "32 word \<Rightarrow> flow \<Rightarrow> flow" where
  "discardPendingStreamWindow streamId fl =
     (case findPendingWindow streamId fl of
        None \<Rightarrow> fl
      | Some i \<Rightarrow>
          fl\<lparr>fl_pendingStreamWindows :=
               butlast ((fl_pendingStreamWindows fl)[i := last (fl_pendingStreamWindows fl)])\<rparr>)"

definition replenishStreamWindow :: "(nat \<Rightarrow> bool) \<Rightarrow> 32 word \<Rightarrow> streamReading \<Rightarrow> flow \<Rightarrow> flow" where
  "replenishStreamWindow alloc streamId reading fl =
     (let fl = (if rd_consumedBytes reading > 0
                then tuneConnectionWindow (rd_consumedBytes reading)
                       (fl\<lparr>fl_pendingConnWindow := fl_pendingConnWindow fl + rd_consumedBytes reading\<rparr>)
                else fl);
          streamDead = (rd_ended reading \<or> rd_reset reading \<or> rd_cancelStreamId reading \<noteq> 0);
          fl = (if streamDead then discardPendingStreamWindow streamId fl
                else if rd_consumedBytes reading > 0 then addStreamWindowCredit alloc streamId (rd_consumedBytes reading) fl
                else fl);
          flushConnection = (rd_ended reading \<or> fl_pendingConnWindow fl \<ge> CONNECTION_WINDOW_UPDATE_THRESHOLD)
      in if flushConnection then fl\<lparr>fl_connWindowFlushDue := True\<rparr> else fl)"

section \<open>What the peer reads\<close>

text \<open>The credit one frame carries for a stream (0 is the connection), and a list of frames.\<close>

definition frameCredit :: "32 word \<Rightarrow> frame \<Rightarrow> nat" where
  "frameCredit streamId f =
     (if fr_type f = 0x8 \<and> fr_streamId f = streamId
      then (case handleWindowUpdateFrame (fr_payload f) of None \<Rightarrow> 0 | Some n \<Rightarrow> unat n) else 0)"

definition windowCredit :: "32 word \<Rightarrow> frame list \<Rightarrow> nat" where
  "windowCredit streamId fs = (\<Sum>f\<leftarrow>fs. frameCredit streamId f)"

text \<open>The frames of the writes made, and those waiting in the queue, as a reader parses them.\<close>

definition peerFrames :: "flow \<Rightarrow> frame list" where
  "peerFrames fl = fst (readerAccepts [] (fl_written fl)) @ fst (readerAccepts [] [fl_pendingWire fl])"

definition advertised :: "flow \<Rightarrow> 32 word \<Rightarrow> nat" where
  "advertised fl streamId = windowCredit streamId (peerFrames fl)"

definition wireHolds :: "flow \<Rightarrow> frame list \<Rightarrow> frame list \<Rightarrow> bool" where
  "wireHolds fl sent queued \<longleftrightarrow> list_all frameOk sent \<and> list_all frameOk queued
     \<and> concat (fl_written fl) = concat (map wireFrame sent) \<and> fl_pendingWire fl = concat (map wireFrame queued)"

definition wireOk :: "flow \<Rightarrow> bool" where
  "wireOk fl \<longleftrightarrow> (\<exists>sent queued. wireHolds fl sent queued)"

lemma readerAccepts_wire:
  assumes "list_all frameOk fs" "concat rs = concat (map wireFrame fs)"
  shows "readerAccepts [] rs = (fs, [])"
proof -
  have "framesFrom [] 0 = ([], 0)" by (subst framesFrom.simps) simp
  moreover have "framesFrom (concat (map wireFrame fs)) 0 = (fs, length (concat (map wireFrame fs)))"
    using framesFrom_wire [OF assms(1), of "[]" "[]"] by (simp add: framesFrom.simps)
  ultimately show ?thesis using assms(2) by (simp add: readerAccepts_frames)
qed

lemma wireHolds_frames: "wireHolds fl sent queued \<Longrightarrow> peerFrames fl = sent @ queued"
  using readerAccepts_wire [of sent "fl_written fl"] readerAccepts_wire [of queued "[fl_pendingWire fl]"]
  by (simp add: wireHolds_def peerFrames_def del: readerAccepts.simps)

lemma windowCredit_append [simp]: "windowCredit s (fs @ gs) = windowCredit s fs + windowCredit s gs"
  by (simp add: windowCredit_def)

lemma windowCredit_simps [simp]: "windowCredit s [] = 0" "windowCredit s (f # fs) = frameCredit s f + windowCredit s fs"
  by (simp_all add: windowCredit_def)

lemma wireHolds_advertised: "wireHolds fl sent queued \<Longrightarrow> advertised fl s = windowCredit s sent + windowCredit s queued"
  by (simp add: advertised_def wireHolds_frames)

text \<open>Putting one frame on the wire, now or in the queue.\<close>

lemma send_holds:
  "wireHolds fl sent queued \<Longrightarrow> frameOk f \<Longrightarrow> wireHolds (sendControlFrame (wireFrame f) fl) (sent @ [f]) queued"
  by (simp add: wireHolds_def sendControlFrame_def)

lemma queue_holds:
  assumes "wireHolds fl sent queued" "frameOk f"
  shows "wireHolds (queueControlFrame alloc (wireFrame f) fl) (sent @ [f]) queued
    \<or> wireHolds (queueControlFrame alloc (wireFrame f) fl) sent (queued @ [f])"
  using assms send_holds [OF assms] by (simp add: queueControlFrame_def Let_def) (simp add: wireHolds_def)

section \<open>The interface to the wire\<close>

text \<open>
  What the ledger needs of the write side: a put frame is not lost, and it adds its credit and
  nothing else to what the peer will read.
\<close>

locale credit_wire =
  fixes ok :: "'s \<Rightarrow> bool" and credit :: "'s \<Rightarrow> 32 word \<Rightarrow> nat" and put :: "bytes \<Rightarrow> 's \<Rightarrow> 's"
  assumes put_ok: "ok w \<Longrightarrow> frameOk f \<Longrightarrow> ok (put (wireFrame f) w)"
    and put_credit: "ok w \<Longrightarrow> frameOk f \<Longrightarrow> credit (put (wireFrame f) w) s = credit w s + frameCredit s f"
begin

lemma put_windowUpdate:
  assumes "ok w" "increment < 2 ^ 31" "streamId < 2 ^ 31"
  shows "ok (put (fillWindowUpdateFrame streamId increment) w)"
    and "credit (put (fillWindowUpdateFrame streamId increment) w) s
      = credit w s + (if s = streamId then unat increment else 0)"
proof -
  let ?f = "\<lparr>fr_type = 0x8, fr_flags = 0, fr_streamId = streamId, fr_payload = streamIdBytes increment\<rparr>"
  have wire: "fillWindowUpdateFrame streamId increment = wireFrame ?f"
    using assms(3) by (simp add: windowUpdate_wire and_7F_id)
  have ok: "frameOk ?f" using assms(3) by (simp add: frameOk_def)
  have "handleWindowUpdateFrame (streamIdBytes increment) = Some increment"
    using be32_streamId [of increment] and_7F_id [of increment] assms(2)
    by (simp add: handleWindowUpdateFrame_def streamIdBytes_def)
  then have "frameCredit s ?f = (if s = streamId then unat increment else 0)" by (simp add: frameCredit_def)
  then show "ok (put (fillWindowUpdateFrame streamId increment) w)"
    "credit (put (fillWindowUpdateFrame streamId increment) w) s
      = credit w s + (if s = streamId then unat increment else 0)"
    using put_ok [OF assms(1) ok] put_credit [OF assms(1) ok] wire by simp_all
qed

lemma put_other:
  assumes "ok w" "frameOk f" "fr_type f \<noteq> 0x8"
  shows "ok (put (wireFrame f) w)" "credit (put (wireFrame f) w) s = credit w s"
  using assms put_ok put_credit by (simp_all add: frameCredit_def)

end

interpretation queue: credit_wire wireOk advertised "queueControlFrame alloc" for alloc
proof (unfold_locales, goal_cases)
  case (1 w f)
  then show ?case using queue_holds unfolding wireOk_def by blast
next
  case (2 w f s)
  then obtain sent queued where h: "wireHolds w sent queued" by (auto simp: wireOk_def)
  from queue_holds [OF h 2(2), of alloc] wireHolds_advertised [OF h, of s] show ?case
    by (elim disjE) (drule wireHolds_advertised [of _ _ _ s], simp)+
qed

interpretation direct: credit_wire wireOk advertised sendControlFrame
proof (unfold_locales, goal_cases)
  case (1 w f)
  then show ?case using send_holds unfolding wireOk_def by blast
next
  case (2 w f s)
  then obtain sent queued where h: "wireHolds w sent queued" by (auto simp: wireOk_def)
  from wireHolds_advertised [OF send_holds [OF h 2(2)], of s] wireHolds_advertised [OF h, of s] show ?case by simp
qed

lemma queue_frame [simp]:
  "fl_pendingConnWindow (queueControlFrame alloc bs fl) = fl_pendingConnWindow fl"
  "fl_pendingStreamWindows (queueControlFrame alloc bs fl) = fl_pendingStreamWindows fl"
  "fl_connWindowFlushDue (queueControlFrame alloc bs fl) = fl_connWindowFlushDue fl"
  "fl_connWindowTarget (queueControlFrame alloc bs fl) = fl_connWindowTarget fl"
  "fl_connWindowSinceGrowth (queueControlFrame alloc bs fl) = fl_connWindowSinceGrowth fl"
  by (simp_all add: queueControlFrame_def sendControlFrame_def Let_def)

lemma advertised_cong:
  assumes "fl_written fl = fl_written fl'" "fl_pendingWire fl = fl_pendingWire fl'"
  shows "advertised fl = advertised fl'" "wireOk fl = wireOk fl'"
  using assms by (simp_all add: advertised_def peerFrames_def wireOk_def wireHolds_def fun_eq_iff)

lemma advertised_update [simp]:
  "advertised (fl\<lparr>fl_pendingConnWindow := n\<rparr>) = advertised fl" "wireOk (fl\<lparr>fl_pendingConnWindow := n\<rparr>) = wireOk fl"
  "advertised (fl\<lparr>fl_pendingStreamWindows := ws\<rparr>) = advertised fl" "wireOk (fl\<lparr>fl_pendingStreamWindows := ws\<rparr>) = wireOk fl"
  "advertised (fl\<lparr>fl_connWindowFlushDue := b\<rparr>) = advertised fl" "wireOk (fl\<lparr>fl_connWindowFlushDue := b\<rparr>) = wireOk fl"
  "advertised (fl\<lparr>fl_connWindowTarget := n\<rparr>) = advertised fl" "wireOk (fl\<lparr>fl_connWindowTarget := n\<rparr>) = wireOk fl"
  "advertised (fl\<lparr>fl_connWindowSinceGrowth := n\<rparr>) = advertised fl" "wireOk (fl\<lparr>fl_connWindowSinceGrowth := n\<rparr>) = wireOk fl"
  by (rule advertised_cong; simp)+

text \<open>Writing the queue out changes nothing for the peer.\<close>

lemma flush_written:
  assumes "wireOk fl"
  shows "wireOk (fl\<lparr>fl_written := fl_written fl @ [fl_pendingWire fl], fl_pendingWire := []\<rparr>)"
    and "advertised (fl\<lparr>fl_written := fl_written fl @ [fl_pendingWire fl], fl_pendingWire := []\<rparr>) = advertised fl"
proof -
  obtain sent queued where h: "wireHolds fl sent queued" using assms by (auto simp: wireOk_def)
  then have h': "wireHolds (fl\<lparr>fl_written := fl_written fl @ [fl_pendingWire fl], fl_pendingWire := []\<rparr>) (sent @ queued) []"
    by (simp add: wireHolds_def)
  then show "wireOk (fl\<lparr>fl_written := fl_written fl @ [fl_pendingWire fl], fl_pendingWire := []\<rparr>)"
    unfolding wireOk_def by blast
  show "advertised (fl\<lparr>fl_written := fl_written fl @ [fl_pendingWire fl], fl_pendingWire := []\<rparr>) = advertised fl"
    using wireHolds_frames [OF h] wireHolds_frames [OF h'] by (simp add: advertised_def fun_eq_iff)
qed


text \<open>The values of the connection target: 65535 doubled up to eight times, then the maximum.\<close>

definition targetOk :: "32 word \<Rightarrow> 32 word \<Rightarrow> bool" where
  "targetOk target since \<longleftrightarrow>
     (\<exists>k\<le>8. unat target = 65535 * 2 ^ k \<and> unat since \<le> unat target + k * 2 ^ 24) \<or> target = CONNECTION_WINDOW_MAX"

lemma targetOk_bounds: "targetOk target since \<Longrightarrow> 65535 \<le> unat target \<and> unat target \<le> 16777216"
proof -
  assume "targetOk target since"
  moreover have "(65535 :: nat) * 2 ^ k \<le> 16777216" if "k \<le> 8" for k :: nat
    using power_increasing [OF that, of "2 :: nat"] by simp
  ultimately show ?thesis by (auto simp: targetOk_def CONNECTION_WINDOW_MAX_def)
qed

lemma unat_add_small: "unat a + unat b < 2 ^ 32 \<Longrightarrow> unat (a + b :: 32 word) = unat a + unat b"
  by (simp add: unat_word_ariths)

lemma unat_sub_le: "b \<le> a \<Longrightarrow> unat (a - b :: 32 word) = unat a - unat b"
  by (simp add: unat_sub)

lemma tune_target:
  assumes t: "targetOk (fl_connWindowTarget fl) (fl_connWindowSinceGrowth fl)"
    and c: "unat consumed < 2 ^ 24" and p: "unat (fl_pendingConnWindow fl) < 2 ^ 30"
  defines "fl' \<equiv> tuneConnectionWindow consumed fl"
  shows "targetOk (fl_connWindowTarget fl') (fl_connWindowSinceGrowth fl')
    \<and> unat (fl_connWindowTarget fl) \<le> unat (fl_connWindowTarget fl')
    \<and> unat (fl_pendingConnWindow fl') = unat (fl_pendingConnWindow fl) + (unat (fl_connWindowTarget fl') - unat (fl_connWindowTarget fl))
    \<and> (fl_connWindowFlushDue fl' \<longleftrightarrow> fl_connWindowFlushDue fl \<or> fl_connWindowTarget fl' \<noteq> fl_connWindowTarget fl)"
proof (cases "fl_connWindowTarget fl \<ge> CONNECTION_WINDOW_MAX")
  case True
  then show ?thesis using t by (simp add: fl'_def tuneConnectionWindow_def)
next
  case False
  let ?t = "fl_connWindowTarget fl" and ?s = "fl_connWindowSinceGrowth fl"
  obtain k where k: "k \<le> 8" "unat ?t = 65535 * 2 ^ k" "unat ?s \<le> unat ?t + k * 2 ^ 24"
    using t False by (auto simp: targetOk_def)
  have t24: "unat ?t < 2 ^ 24" using False by (simp add: CONNECTION_WINDOW_MAX_def word_less_nat_alt word_le_nat_alt)
  have s: "unat (?s + consumed) = unat ?s + unat consumed"
    by (rule unat_add_small) (use k t24 c in simp)
  show ?thesis
  proof (cases "?s + consumed < ?t")
    case True
    then have "targetOk ?t (?s + consumed)"
      using k unfolding targetOk_def by (intro disjI1 exI [of _ k]) (simp add: word_less_nat_alt)
    then show ?thesis using True False by (simp add: fl'_def tuneConnectionWindow_def)
  next
    case less: False
    have dbl: "unat (?t * 2) = 65535 * 2 ^ Suc k" using t24 k(2) by (simp add: unat_word_ariths)
    have sub: "unat (?s + consumed - ?t) = unat ?s + unat consumed - unat ?t"
      using less by (simp add: unat_sub_le s)
    define n where "n = (if ?t * 2 < CONNECTION_WINDOW_MAX then ?t * 2 else CONNECTION_WINDOW_MAX)"
    have ok: "targetOk n (?s + consumed - ?t)"
    proof (cases "?t * 2 < CONNECTION_WINDOW_MAX")
      case True
      then have "k \<noteq> 8" using dbl by (auto simp: CONNECTION_WINDOW_MAX_def word_less_nat_alt)
      then have "Suc k \<le> 8" using k(1) by simp
      moreover have "unat (?s + consumed - ?t) \<le> unat n + Suc k * 2 ^ 24"
        using sub k(3) c by simp
      ultimately show ?thesis using dbl True unfolding targetOk_def
        by (intro disjI1 exI [of _ "Suc k"]) (simp add: n_def)
    qed (simp add: targetOk_def n_def)
    have le: "?t \<le> n" "n \<noteq> ?t" "unat n \<le> 2 ^ 24"
      using dbl k(2) t24 by (auto simp: n_def CONNECTION_WINDOW_MAX_def word_le_nat_alt word_less_nat_alt)
    have "unat (n - ?t) = unat n - unat ?t" using le by (simp add: unat_sub_le)
    then have "unat (fl_pendingConnWindow fl + (n - ?t)) = unat (fl_pendingConnWindow fl) + (unat n - unat ?t)"
      using p le by (subst unat_add_small) simp_all
    then show ?thesis using False less ok le
      by (simp add: fl'_def tuneConnectionWindow_def Let_def n_def [symmetric] word_le_nat_alt)
  qed
qed


section \<open>The stream ledger\<close>

definition streamCredit :: "32 word \<Rightarrow> flow \<Rightarrow> nat" where
  "streamCredit streamId fl = (case map_of (fl_pendingStreamWindows fl) streamId of None \<Rightarrow> 0 | Some c \<Rightarrow> unat c)"

definition ledgerOk :: "flow \<Rightarrow> bool" where
  "ledgerOk fl \<longleftrightarrow> distinct (map fst (fl_pendingStreamWindows fl))
     \<and> length (fl_pendingStreamWindows fl) \<le> MAX_CONCURRENT_STREAMS_PER_SESSION
     \<and> list_all (\<lambda>(s, c). c \<le> STREAM_WINDOW_UPDATE_THRESHOLD) (fl_pendingStreamWindows fl)"

lemma findIndex_map_of:
  "findIndex (\<lambda>e. fst e = k) ws = None \<longleftrightarrow> map_of ws k = None"
  "findIndex (\<lambda>e. fst e = k) ws = Some i \<Longrightarrow> map_of ws k = Some (snd (ws ! i))"
proof -
  show "findIndex (\<lambda>e. fst e = k) ws = None \<longleftrightarrow> map_of ws k = None"
    by (induction ws) auto
  show "findIndex (\<lambda>e. fst e = k) ws = Some i \<Longrightarrow> map_of ws k = Some (snd (ws ! i))"
    by (induction ws arbitrary: i) (auto split: if_splits)
qed

lemma map_of_update_index:
  "findIndex (\<lambda>e. fst e = k) ws = Some i \<Longrightarrow> map_of (ws[i := (k, v)]) = (map_of ws)(k \<mapsto> v)"
  by (induction ws arbitrary: i) (auto split: if_splits)

lemma map_fst_update_index:
  "findIndex (\<lambda>e. fst e = k) ws = Some i \<Longrightarrow> map fst (ws[i := (k, v)]) = map fst ws"
  by (induction ws arbitrary: i) (auto split: if_splits)

lemma list_all_update: "list_all P xs \<Longrightarrow> P x \<Longrightarrow> list_all P (xs[i := x])"
  by (induction xs arbitrary: i) (auto split: nat.splits)

lemma swap_remove_set:
  assumes "distinct ws" "i < length ws"
  shows "set (butlast (ws[i := last ws])) = set ws - {ws ! i} \<and> distinct (butlast (ws[i := last ws]))"
proof (cases ws rule: rev_cases)
  case Nil
  then show ?thesis using assms by simp
next
  case (snoc ys z)
  show ?thesis
  proof (cases "i = length ys")
    case True
    then show ?thesis using snoc assms by auto
  next
    case False
    then have i: "i < length ys" using snoc assms by simp
    have d: "distinct ys" "z \<notin> set ys" using snoc assms by auto
    have "butlast (ws[i := last ws]) = ys[i := z]" using i snoc by (simp add: list_update_append)
    moreover have "set (ys[i := z]) = insert z (set ys - {ys ! i})" using set_update_distinct [OF d(1) i] .
    moreover have "ys ! i \<noteq> z" using i d(2) by auto
    moreover have "distinct (ys[i := z])" using d i by (simp add: distinct_list_update)
    ultimately show ?thesis using i snoc d by (auto simp: nth_append)
  qed
qed

lemma swap_remove_map_of:
  assumes d: "distinct (map fst ws)" and i: "findIndex (\<lambda>e. fst e = k) ws = Some i"
  shows "map_of (butlast (ws[i := last ws])) = (map_of ws)(k := None)
    \<and> distinct (map fst (butlast (ws[i := last ws]))) \<and> set (butlast (ws[i := last ws])) \<subseteq> set ws"
proof -
  have i': "i < length ws" "fst (ws ! i) = k" using findIndex_SomeD [OF i] by simp_all
  have dw: "distinct ws" using d by (simp add: distinct_map)
  let ?r = "butlast (ws[i := last ws])"
  have set: "set ?r = set ws - {ws ! i}" "distinct ?r" using swap_remove_set [OF dw i'(1)] by simp_all
  have "inj_on fst (set ws)" using d by (simp add: distinct_map)
  then have "inj_on fst (set ?r)" by (rule inj_on_subset) (simp add: set)
  then have dr: "distinct (map fst ?r)" using set by (simp add: distinct_map)
  have "map_of ?r x = ((map_of ws)(k := None)) x" for x
  proof (cases "x = k")
    case True
    have "k \<notin> fst ` set ?r"
    proof
      assume "k \<in> fst ` set ?r"
      then obtain e where e: "e \<in> set ws" "e \<noteq> ws ! i" "fst e = k" using set by auto
      moreover have "ws ! i \<in> set ws" using i' by simp
      ultimately show False using d i'(2) by (auto simp: distinct_map inj_on_def)
    qed
    then show ?thesis using True by (simp add: map_of_eq_None_iff)
  next
    case False
    have "(x, v) \<noteq> ws ! i" for v using False i'(2) by (metis fst_conv)
    then have "map_of ?r x = Some v \<longleftrightarrow> map_of ws x = Some v" for v
      by (simp add: map_of_eq_Some_iff [OF d] map_of_eq_Some_iff [OF dr] set(1))
    then have "map_of ?r x = map_of ws x" by (metis not_Some_eq)
    then show ?thesis using False by simp
  qed
  then show ?thesis using dr set by auto
qed

lemma discard_ledger:
  fixes streamId :: "32 word"
  assumes "ledgerOk fl"
  defines "fl' \<equiv> discardPendingStreamWindow streamId fl"
  shows "ledgerOk fl'" "streamCredit s fl' = (if s = streamId then 0 else streamCredit s fl)"
    "wireOk fl' = wireOk fl" "advertised fl' = advertised fl"
    "fl_pendingConnWindow fl' = fl_pendingConnWindow fl" "fl_connWindowFlushDue fl' = fl_connWindowFlushDue fl"
    "fl_connWindowTarget fl' = fl_connWindowTarget fl" "fl_connWindowSinceGrowth fl' = fl_connWindowSinceGrowth fl"
    "findPendingWindow streamId fl' = None" "fst ` set (fl_pendingStreamWindows fl') \<subseteq> fst ` set (fl_pendingStreamWindows fl)"
proof -
  let ?ws = "fl_pendingStreamWindows fl"
  have d: "distinct (map fst ?ws)" using assms(1) by (simp add: ledgerOk_def)
  have m: "map_of (fl_pendingStreamWindows fl') = (map_of ?ws)(streamId := None)
      \<and> distinct (map fst (fl_pendingStreamWindows fl')) \<and> set (fl_pendingStreamWindows fl') \<subseteq> set ?ws
      \<and> length (fl_pendingStreamWindows fl') \<le> length ?ws"
  proof (cases "findPendingWindow streamId fl")
    case None
    then have "fl' = fl" by (simp add: fl'_def discardPendingStreamWindow_def)
    moreover have "map_of ?ws streamId = None" using None by (simp add: findPendingWindow_def findIndex_map_of)
    ultimately show ?thesis using d by (simp add: fun_upd_idem)
  next
    case (Some i)
    then show ?thesis using swap_remove_map_of [OF d, of streamId i]
      by (simp add: fl'_def discardPendingStreamWindow_def findPendingWindow_def)
  qed
  show "ledgerOk fl'" using m assms(1) by (auto simp: ledgerOk_def list_all_iff)
  show "streamCredit s fl' = (if s = streamId then 0 else streamCredit s fl)" using m by (simp add: streamCredit_def)
  show "fst ` set (fl_pendingStreamWindows fl') \<subseteq> fst ` set (fl_pendingStreamWindows fl)" using m by blast
  show "findPendingWindow streamId fl' = None" using m by (simp add: findPendingWindow_def findIndex_map_of)
qed (simp_all add: fl'_def discardPendingStreamWindow_def split: option.splits)

lemma add_ledger:
  fixes streamId credit :: "32 word" and alloc :: "nat \<Rightarrow> bool"
  assumes L: "ledgerOk fl" "wireOk fl" and c: "unat credit < 2 ^ 24" and s: "streamId < 2 ^ 31"
  defines "fl' \<equiv> addStreamWindowCredit alloc streamId credit fl"
  shows "ledgerOk fl' \<and> wireOk fl'
    \<and> (s \<noteq> streamId \<longrightarrow> advertised fl' s = advertised fl s \<and> streamCredit s fl' = streamCredit s fl)
    \<and> (findPendingWindow streamId fl \<noteq> None \<or> length (fl_pendingStreamWindows fl) < MAX_CONCURRENT_STREAMS_PER_SESSION
       \<longrightarrow> advertised fl' streamId + streamCredit streamId fl' = advertised fl streamId + streamCredit streamId fl + unat credit)
    \<and> fl_pendingConnWindow fl' = fl_pendingConnWindow fl \<and> fl_connWindowFlushDue fl' = fl_connWindowFlushDue fl
    \<and> fl_connWindowTarget fl' = fl_connWindowTarget fl \<and> fl_connWindowSinceGrowth fl' = fl_connWindowSinceGrowth fl
    \<and> fst ` set (fl_pendingStreamWindows fl') \<subseteq> insert streamId (fst ` set (fl_pendingStreamWindows fl))"
proof -
  let ?ws = "fl_pendingStreamWindows fl"
  show ?thesis
  proof (cases "findPendingWindow streamId fl = None \<and> length ?ws \<ge> MAX_CONCURRENT_STREAMS_PER_SESSION")
    case True
    then show ?thesis using L by (simp add: fl'_def addStreamWindowCredit_def subset_insertI)
  next
    case False
    define ws where "ws = (case findPendingWindow streamId fl of Some i \<Rightarrow> ?ws | None \<Rightarrow> ?ws @ [(streamId, 0)])"
    define i where "i = (case findPendingWindow streamId fl of Some i \<Rightarrow> i | None \<Rightarrow> length ?ws)"
    have ix: "findIndex (\<lambda>e. fst e = streamId) (ys @ [(streamId, 0 :: 32 word)]) = Some (length ys)"
      if "findIndex (\<lambda>e. fst e = streamId) ys = None" for ys
      using that by (induction ys) (auto split: if_splits)
    have i: "findIndex (\<lambda>e. fst e = streamId) ws = Some i"
      using ix [of ?ws] by (auto simp: ws_def i_def findPendingWindow_def split: option.splits)
    have m: "map_of ws s = map_of ?ws s" if "s \<noteq> streamId" for s
      using that by (auto simp: ws_def map_add_def split: option.splits)
    have cr: "unat (snd (ws ! i)) = streamCredit streamId fl"
      using findIndex_map_of(2) [OF i] findIndex_map_of [of streamId ?ws]
      by (auto simp: ws_def i_def findPendingWindow_def streamCredit_def map_add_def split: option.splits)
    have ok: "distinct (map fst ws) \<and> length ws \<le> MAX_CONCURRENT_STREAMS_PER_SESSION
        \<and> list_all (\<lambda>(s, c). c \<le> STREAM_WINDOW_UPDATE_THRESHOLD) ws"
      using L(1) False findIndex_map_of(1) [of streamId ?ws]
      by (auto simp: ws_def ledgerOk_def findPendingWindow_def map_of_eq_None_iff split: option.splits)
    let ?total = "snd (ws ! i) + credit"
    have "ws ! i \<in> set ws" using findIndex_SomeD [OF i] by simp
    with ok have "snd (ws ! i) \<le> STREAM_WINDOW_UPDATE_THRESHOLD" by (auto simp: list_all_iff)
    then have small: "unat (snd (ws ! i)) \<le> 16384"
      by (simp add: STREAM_WINDOW_UPDATE_THRESHOLD_def word_le_nat_alt)
    then have total: "unat ?total = streamCredit streamId fl + unat credit" using c cr by (subst unat_add_small) simp_all
    have total31: "?total < 2 ^ 31" using total small cr c by (simp add: word_less_nat_alt)
    have upd: "distinct (map fst (ws[i := (streamId, v)])) \<and> length (ws[i := (streamId, v)]) \<le> MAX_CONCURRENT_STREAMS_PER_SESSION
        \<and> (v \<le> STREAM_WINDOW_UPDATE_THRESHOLD \<longrightarrow>
            list_all (\<lambda>(s, c). c \<le> STREAM_WINDOW_UPDATE_THRESHOLD) (ws[i := (streamId, v)]))
        \<and> map_of (ws[i := (streamId, v)]) = (map_of ws)(streamId \<mapsto> v)" for v
      using ok map_fst_update_index [OF i] map_of_update_index [OF i]
        list_all_update [of "\<lambda>(s, c). c \<le> STREAM_WINDOW_UPDATE_THRESHOLD" ws "(streamId, v)" i] by simp
    have def: "fl' = (if ?total \<le> STREAM_WINDOW_UPDATE_THRESHOLD then fl\<lparr>fl_pendingStreamWindows := ws[i := (streamId, ?total)]\<rparr>
        else (queueWindowUpdateFrame alloc streamId ?total (fl\<lparr>fl_pendingStreamWindows := ws[i := (streamId, ?total)]\<rparr>))
               \<lparr>fl_pendingStreamWindows := ws[i := (streamId, 0)]\<rparr>)"
      using False unfolding fl'_def addStreamWindowCredit_def ws_def i_def Let_def
      by (cases "findPendingWindow streamId fl") simp_all
    have ledgerKeys: "fst ` set (ws[i := (streamId, v)]) \<subseteq> insert streamId (fst ` set ?ws)" for v
    proof -
      have "fst ` set (ws[i := (streamId, v)]) = set (map fst ws)"
        using map_fst_update_index [OF i, of v] by (metis image_set)
      then show ?thesis by (auto simp: ws_def split: option.splits)
    qed
    show ?thesis
    proof (cases "?total \<le> STREAM_WINDOW_UPDATE_THRESHOLD")
      case True
      then show ?thesis using L upd [of ?total] total m ledgerKeys
        by (simp add: def ledgerOk_def streamCredit_def)
    next
      case big: False
      let ?fl = "fl\<lparr>fl_pendingStreamWindows := ws[i := (streamId, ?total)]\<rparr>"
      have "wireOk ?fl" using L by simp
      note q = queue.put_windowUpdate [OF this total31 s, of alloc]
      show ?thesis using big upd [of 0] total m q ledgerKeys
        by (simp add: def ledgerOk_def streamCredit_def queueWindowUpdateFrame_def)
    qed
  qed
qed


section \<open>The invariant of a session\<close>

text \<open>
  \<open>C\<close> is what the session consumed in all, \<open>B\<close> what it consumed since the last flush, \<open>T\<close> the
  connection target at that flush.
\<close>

definition connInv :: "nat \<Rightarrow> nat \<Rightarrow> nat \<Rightarrow> flow \<Rightarrow> bool" where
  "connInv C B T fl \<longleftrightarrow> wireOk fl \<and> ledgerOk fl \<and> targetOk (fl_connWindowTarget fl) (fl_connWindowSinceGrowth fl)
     \<and> advertised fl 0 + unat (fl_pendingConnWindow fl) = C + (unat (fl_connWindowTarget fl) - 65535)
     \<and> 65535 \<le> T \<and> T \<le> unat (fl_connWindowTarget fl)
     \<and> unat (fl_pendingConnWindow fl) \<le> 65534 + B + (unat (fl_connWindowTarget fl) - T)
     \<and> (fl_connWindowFlushDue fl \<or> unat (fl_pendingConnWindow fl) < 65535)"

lemma connInvD:
  assumes "connInv C B T fl"
  shows "wireOk fl" "ledgerOk fl" "targetOk (fl_connWindowTarget fl) (fl_connWindowSinceGrowth fl)"
    "advertised fl 0 + unat (fl_pendingConnWindow fl) = C + (unat (fl_connWindowTarget fl) - 65535)"
    "65535 \<le> T" "T \<le> unat (fl_connWindowTarget fl)"
    "unat (fl_pendingConnWindow fl) \<le> 65534 + B + (unat (fl_connWindowTarget fl) - T)"
    "fl_connWindowFlushDue fl \<or> unat (fl_pendingConnWindow fl) < 65535"
  using assms unfolding connInv_def by blast+

lemma connInv_init: "connInv 0 0 65535 initFlow"
proof -
  have "wireHolds initFlow [] []" by (simp add: wireHolds_def initFlow_def)
  then have "wireOk initFlow" "advertised initFlow 0 = 0"
    using wireHolds_advertised [of initFlow "[]" "[]" 0] unfolding wireOk_def by auto
  moreover have "targetOk 65535 0" unfolding targetOk_def by (intro disjI1 exI [of _ 0]) simp
  ultimately show ?thesis
    by (simp add: connInv_def ledgerOk_def) (simp add: initFlow_def HTTP2_INITIAL_FLOW_CONTROL_WINDOW_def)
qed

definition readingOk :: "32 word \<times> streamReading \<Rightarrow> bool" where
  "readingOk r \<longleftrightarrow> fst r \<noteq> 0 \<and> fst r < 2 ^ 31 \<and> unat (rd_consumedBytes (snd r)) < 2 ^ 24"

definition isLive :: "streamReading \<Rightarrow> bool" where
  "isLive rd \<longleftrightarrow> \<not> rd_ended rd \<and> \<not> rd_reset rd \<and> rd_cancelStreamId rd = 0"

definition ledgerKeys :: "flow \<Rightarrow> 32 word set" where
  "ledgerKeys fl = fst ` set (fl_pendingStreamWindows fl)"

text \<open>The connection half of a replenishment: the credit is added and the window tuned.\<close>

lemma consume_inv:
  assumes inv: "connInv C B T fl" and c: "unat c < 2 ^ 24" "B + unat c \<le> 2 ^ 26"
  defines "fl' \<equiv> tuneConnectionWindow c (fl\<lparr>fl_pendingConnWindow := fl_pendingConnWindow fl + c\<rparr>)"
  shows "wireOk fl' \<and> ledgerOk fl' \<and> targetOk (fl_connWindowTarget fl') (fl_connWindowSinceGrowth fl')
     \<and> advertised fl' 0 + unat (fl_pendingConnWindow fl') = C + unat c + (unat (fl_connWindowTarget fl') - 65535)
     \<and> T \<le> unat (fl_connWindowTarget fl')
     \<and> unat (fl_pendingConnWindow fl') \<le> 65534 + (B + unat c) + (unat (fl_connWindowTarget fl') - T)
     \<and> advertised fl' = advertised fl \<and> fl_pendingStreamWindows fl' = fl_pendingStreamWindows fl"
proof -
  let ?fl = "fl\<lparr>fl_pendingConnWindow := fl_pendingConnWindow fl + c\<rparr>"
  have t: "targetOk (fl_connWindowTarget fl) (fl_connWindowSinceGrowth fl)" using inv by (simp add: connInv_def)
  have tb: "unat (fl_connWindowTarget fl) \<le> 16777216" "65535 \<le> unat (fl_connWindowTarget fl)"
    using targetOk_bounds [OF t] by simp_all
  have p: "unat (fl_pendingConnWindow fl) \<le> 65534 + B + (unat (fl_connWindowTarget fl) - T)"
    by (rule connInvD(7) [OF inv])
  have add: "unat (fl_pendingConnWindow fl + c) = unat (fl_pendingConnWindow fl) + unat c"
    by (rule unat_add_small) (use p c tb in simp)
  have lim: "unat (fl_pendingConnWindow fl + c) < 2 ^ 30" unfolding add using p c tb by simp
  have tune: "targetOk (fl_connWindowTarget fl') (fl_connWindowSinceGrowth fl')
    \<and> unat (fl_connWindowTarget fl) \<le> unat (fl_connWindowTarget fl')
    \<and> unat (fl_pendingConnWindow fl') = unat (fl_pendingConnWindow fl) + unat c + (unat (fl_connWindowTarget fl') - unat (fl_connWindowTarget fl))"
    using tune_target [of ?fl c] t c lim by (simp add: fl'_def add)
  have same: "wireOk fl' = wireOk fl" "advertised fl' = advertised fl" "fl_pendingStreamWindows fl' = fl_pendingStreamWindows fl"
    by (simp_all add: fl'_def tuneConnectionWindow_def Let_def)
  note inv' = connInvD(1,2,4,6) [OF inv]
  have ledger: "ledgerOk fl' = ledgerOk fl" by (simp add: ledgerOk_def same)
  show ?thesis unfolding ledger same
    by (insert inv' tune tb p, intro conjI; (rule refl | linarith))
qed

text \<open>The stream half: the ledger entry is fed, or discarded when the stream is over.\<close>

definition settleStream :: "(nat \<Rightarrow> bool) \<Rightarrow> 32 word \<Rightarrow> streamReading \<Rightarrow> flow \<Rightarrow> flow" where
  "settleStream alloc streamId rd fl =
     (if \<not> isLive rd then discardPendingStreamWindow streamId fl
      else if rd_consumedBytes rd > 0 then addStreamWindowCredit alloc streamId (rd_consumedBytes rd) fl
      else fl)"

lemma settleStream_inv:
  fixes alloc :: "nat \<Rightarrow> bool"
  assumes L: "ledgerOk fl" "wireOk fl" and r: "readingOk (streamId, rd)"
  defines "fl' \<equiv> settleStream alloc streamId rd fl"
  shows "ledgerOk fl' \<and> wireOk fl' \<and> ledgerKeys fl' \<subseteq> insert streamId (ledgerKeys fl)
    \<and> (s \<noteq> streamId \<longrightarrow> advertised fl' s = advertised fl s \<and> streamCredit s fl' = streamCredit s fl)
    \<and> (isLive rd \<longrightarrow> streamId \<in> ledgerKeys fl \<or> length (fl_pendingStreamWindows fl) < MAX_CONCURRENT_STREAMS_PER_SESSION \<longrightarrow>
        advertised fl' streamId + streamCredit streamId fl' = advertised fl streamId + streamCredit streamId fl + unat (rd_consumedBytes rd))
    \<and> fl_pendingConnWindow fl' = fl_pendingConnWindow fl \<and> fl_connWindowFlushDue fl' = fl_connWindowFlushDue fl
    \<and> fl_connWindowTarget fl' = fl_connWindowTarget fl \<and> fl_connWindowSinceGrowth fl' = fl_connWindowSinceGrowth fl"
proof -
  have find: "findPendingWindow streamId fl \<noteq> None \<longleftrightarrow> streamId \<in> ledgerKeys fl"
    by (auto simp: findPendingWindow_def findIndex_None ledgerKeys_def)
  show ?thesis
  proof (cases "isLive rd")
    case False
    then show ?thesis using discard_ledger(1,3-) [OF L(1), of streamId] discard_ledger(2) [OF L(1), of s streamId] L
      by (auto simp: fl'_def settleStream_def ledgerKeys_def)
  next
    case live: True
    show ?thesis
    proof (cases "rd_consumedBytes rd > 0")
      case False
      then have "rd_consumedBytes rd = 0" by (simp add: word_gt_0)
      then show ?thesis using live L by (auto simp: fl'_def settleStream_def)
    next
      case True
      have c: "unat (rd_consumedBytes rd) < 2 ^ 24" "streamId < 2 ^ 31" using r by (simp_all add: readingOk_def)
      show ?thesis using add_ledger [OF L c, of alloc s] True live find
        by (auto simp: fl'_def settleStream_def ledgerKeys_def)
    qed
  qed
qed

lemma replenish_split:
  "replenishStreamWindow alloc streamId rd fl =
     (let fl = settleStream alloc streamId rd
                 (if rd_consumedBytes rd > 0
                  then tuneConnectionWindow (rd_consumedBytes rd)
                         (fl\<lparr>fl_pendingConnWindow := fl_pendingConnWindow fl + rd_consumedBytes rd\<rparr>)
                  else fl)
      in if rd_ended rd \<or> fl_pendingConnWindow fl \<ge> CONNECTION_WINDOW_UPDATE_THRESHOLD
         then fl\<lparr>fl_connWindowFlushDue := True\<rparr> else fl)"
  by (simp add: replenishStreamWindow_def settleStream_def isLive_def Let_def)

lemma replenish_inv:
  fixes alloc :: "nat \<Rightarrow> bool"
  assumes inv: "connInv C B T fl" and r: "readingOk (streamId, rd)" "B + unat (rd_consumedBytes rd) \<le> 2 ^ 26"
  defines "fl' \<equiv> replenishStreamWindow alloc streamId rd fl" and "c \<equiv> rd_consumedBytes rd"
  shows "connInv (C + unat c) (B + unat c) T fl'"
    and "ledgerKeys fl' \<subseteq> insert streamId (ledgerKeys fl)"
    and "s \<noteq> streamId \<Longrightarrow> advertised fl' s = advertised fl s \<and> streamCredit s fl' = streamCredit s fl"
    and "isLive rd \<Longrightarrow> streamId \<in> ledgerKeys fl \<or> length (fl_pendingStreamWindows fl) < MAX_CONCURRENT_STREAMS_PER_SESSION \<Longrightarrow>
      advertised fl' streamId + streamCredit streamId fl' = advertised fl streamId + streamCredit streamId fl + unat c"
proof -
  define f1 where "f1 = (if c > 0 then tuneConnectionWindow c (fl\<lparr>fl_pendingConnWindow := fl_pendingConnWindow fl + c\<rparr>) else fl)"
  define f2 where "f2 = settleStream alloc streamId rd f1"
  have fl': "fl' = (if rd_ended rd \<or> fl_pendingConnWindow f2 \<ge> CONNECTION_WINDOW_UPDATE_THRESHOLD
      then f2\<lparr>fl_connWindowFlushDue := True\<rparr> else f2)"
    unfolding fl'_def replenish_split by (simp add: f1_def f2_def c_def Let_def)
  have c24: "unat c < 2 ^ 24" using r by (simp add: readingOk_def c_def)
  have 1: "wireOk f1 \<and> ledgerOk f1 \<and> targetOk (fl_connWindowTarget f1) (fl_connWindowSinceGrowth f1)
     \<and> advertised f1 0 + unat (fl_pendingConnWindow f1) = C + unat c + (unat (fl_connWindowTarget f1) - 65535)
     \<and> T \<le> unat (fl_connWindowTarget f1)
     \<and> unat (fl_pendingConnWindow f1) \<le> 65534 + (B + unat c) + (unat (fl_connWindowTarget f1) - T)
     \<and> advertised f1 = advertised fl \<and> fl_pendingStreamWindows f1 = fl_pendingStreamWindows fl"
  proof (cases "c > 0")
    case True
    then have f1: "f1 = tuneConnectionWindow c (fl\<lparr>fl_pendingConnWindow := fl_pendingConnWindow fl + c\<rparr>)"
      by (simp add: f1_def)
    show ?thesis unfolding f1 by (rule consume_inv [OF inv c24]) (use r(2) in \<open>simp add: c_def\<close>)
  next
    case False
    then have "c = 0" by (simp add: word_gt_0)
    then show ?thesis using connInvD [OF inv] by (simp only: f1_def) simp
  qed
  have 2: "ledgerOk f2 \<and> wireOk f2 \<and> ledgerKeys f2 \<subseteq> insert streamId (ledgerKeys f1)
    \<and> (s \<noteq> streamId \<longrightarrow> advertised f2 s = advertised f1 s \<and> streamCredit s f2 = streamCredit s f1)
    \<and> (isLive rd \<longrightarrow> streamId \<in> ledgerKeys f1 \<or> length (fl_pendingStreamWindows f1) < MAX_CONCURRENT_STREAMS_PER_SESSION \<longrightarrow>
        advertised f2 streamId + streamCredit streamId f2 = advertised f1 streamId + streamCredit streamId f1 + unat c)
    \<and> fl_pendingConnWindow f2 = fl_pendingConnWindow f1 \<and> fl_connWindowFlushDue f2 = fl_connWindowFlushDue f1
    \<and> fl_connWindowTarget f2 = fl_connWindowTarget f1 \<and> fl_connWindowSinceGrowth f2 = fl_connWindowSinceGrowth f1" for s
    using settleStream_inv [of f1 streamId rd alloc s] 1 r(1) by (simp add: f2_def c_def)
  have sc: "streamCredit s f1 = streamCredit s fl" "ledgerKeys f1 = ledgerKeys fl" "length (fl_pendingStreamWindows f1) = length (fl_pendingStreamWindows fl)" for s
    using 1 by (simp_all add: streamCredit_def ledgerKeys_def)
  have up: "advertised fl' = advertised f2" "streamCredit s fl' = streamCredit s f2" "ledgerKeys fl' = ledgerKeys f2" for s
    by (simp_all add: fl' streamCredit_def ledgerKeys_def)
  have "0 \<noteq> streamId" using r(1) by (auto simp: readingOk_def)
  then have "advertised f2 0 = advertised f1 0" using 2 [of 0] by simp
  moreover have "65535 \<le> T" using inv by (simp add: connInv_def)
  ultimately show "connInv (C + unat c) (B + unat c) T fl'"
    using 1 2 [of 0] by (auto simp: connInv_def fl' ledgerOk_def CONNECTION_WINDOW_UPDATE_THRESHOLD_def word_le_nat_alt)
  show "ledgerKeys fl' \<subseteq> insert streamId (ledgerKeys fl)" using 2 sc up by simp
  show "s \<noteq> streamId \<Longrightarrow> advertised fl' s = advertised fl s \<and> streamCredit s fl' = streamCredit s fl"
    using 1 2 [of s] sc up by simp
  show "isLive rd \<Longrightarrow> streamId \<in> ledgerKeys fl \<or> length (fl_pendingStreamWindows fl) < MAX_CONCURRENT_STREAMS_PER_SESSION \<Longrightarrow>
      advertised fl' streamId + streamCredit streamId fl' = advertised fl streamId + streamCredit streamId fl + unat c"
    using 1 2 [of streamId] sc up by simp
qed

lemma flush_inv:
  fixes alloc :: "nat \<Rightarrow> bool"
  assumes inv: "connInv C B T fl" and b: "B \<le> 2 ^ 26"
  defines "fl' \<equiv> flushReaderWrites alloc fl"
  shows "connInv C 0 (unat (fl_connWindowTarget fl')) fl'"
    and "unat (fl_pendingConnWindow fl') < 65535" and "fl_pendingWire fl' = []"
    and "fl_pendingStreamWindows fl' = fl_pendingStreamWindows fl"
    and "s \<noteq> 0 \<Longrightarrow> advertised fl' s = advertised fl s"
proof -
  let ?p = "fl_pendingConnWindow fl"
  define f1 where "f1 = (if fl_connWindowFlushDue fl then
      (if ?p > 0 then (queueWindowUpdateFrame alloc 0 ?p (fl\<lparr>fl_connWindowFlushDue := False\<rparr>))\<lparr>fl_pendingConnWindow := 0\<rparr>
       else fl\<lparr>fl_connWindowFlushDue := False\<rparr>) else fl)"
  have fl': "fl' = (if fl_pendingWire f1 = [] then f1
      else f1\<lparr>fl_written := fl_written f1 @ [fl_pendingWire f1], fl_pendingWire := []\<rparr>)"
    by (simp add: fl'_def flushReaderWrites_def f1_def Let_def)
  have ok: "wireOk fl" "targetOk (fl_connWindowTarget fl) (fl_connWindowSinceGrowth fl)" using inv by (simp_all add: connInv_def)
  have p: "?p < 2 ^ 31" using connInvD(7) [OF inv] targetOk_bounds [OF ok(2)] b by (simp add: word_less_nat_alt) linarith
  have ok0: "wireOk (fl\<lparr>fl_connWindowFlushDue := False\<rparr>)" using ok by simp
  have 1: "wireOk f1 \<and> advertised f1 s = advertised fl s + (if s = 0 \<and> fl_connWindowFlushDue fl then unat ?p else 0)
      \<and> unat (fl_pendingConnWindow f1) = (if fl_connWindowFlushDue fl then 0 else unat ?p)
      \<and> fl_pendingStreamWindows f1 = fl_pendingStreamWindows fl \<and> fl_connWindowTarget f1 = fl_connWindowTarget fl
      \<and> fl_connWindowSinceGrowth f1 = fl_connWindowSinceGrowth fl \<and> \<not> fl_connWindowFlushDue f1" for s
    using queue.put_windowUpdate [OF ok0 p, of 0 alloc] ok
    by (auto simp: f1_def queueWindowUpdateFrame_def word_gt_0)
  have 2: "wireOk fl' \<and> advertised fl' = advertised f1 \<and> fl_pendingConnWindow fl' = fl_pendingConnWindow f1
      \<and> fl_pendingStreamWindows fl' = fl_pendingStreamWindows f1 \<and> fl_connWindowTarget fl' = fl_connWindowTarget f1
      \<and> fl_connWindowSinceGrowth fl' = fl_connWindowSinceGrowth f1 \<and> fl_connWindowFlushDue fl' = fl_connWindowFlushDue f1
      \<and> fl_pendingWire fl' = []"
    using flush_written [of f1] 1 by (simp add: fl')
  show "unat (fl_pendingConnWindow fl') < 65535" using inv 1 2 by (auto simp: connInv_def)
  then show "connInv C 0 (unat (fl_connWindowTarget fl')) fl'"
    using inv 1 [of 0] 2 targetOk_bounds [OF ok(2)] by (auto simp: connInv_def ledgerOk_def)
  show "fl_pendingWire fl' = []" "fl_pendingStreamWindows fl' = fl_pendingStreamWindows fl" using 1 2 by simp_all
  show "s \<noteq> 0 \<Longrightarrow> advertised fl' s = advertised fl s" using 1 2 by simp
qed


section \<open>Batches\<close>

text \<open>
  One pass of \<open>readerLoop\<close>: the readings of the frames of one \<open>SSL_read\<close>, in order, and the flush
  at the end of the batch. The payloads of a batch are bounded by the accumulation buffer, far
  below \<open>2 ^ 26\<close> bytes (\<open>reader_batch_bounded\<close>).
\<close>

definition replenishAll :: "(nat \<Rightarrow> bool) \<Rightarrow> (32 word \<times> streamReading) list \<Rightarrow> flow \<Rightarrow> flow" where
  "replenishAll alloc rs fl = fold (\<lambda>(streamId, rd). replenishStreamWindow alloc streamId rd) rs fl"

definition runBatch :: "(nat \<Rightarrow> bool) \<Rightarrow> (32 word \<times> streamReading) list \<Rightarrow> flow \<Rightarrow> flow" where
  "runBatch alloc rs fl = flushReaderWrites alloc (replenishAll alloc rs fl)"

definition consumedBy :: "(32 word \<times> streamReading) list \<Rightarrow> nat" where
  "consumedBy rs = (\<Sum>r\<leftarrow>rs. unat (rd_consumedBytes (snd r)))"

definition batchOk :: "(32 word \<times> streamReading) list \<Rightarrow> bool" where
  "batchOk rs \<longleftrightarrow> list_all readingOk rs \<and> consumedBy rs \<le> 2 ^ 26"

lemma consumedBy_simps [simp]: "consumedBy [] = 0" "consumedBy (r # rs) = unat (rd_consumedBytes (snd r)) + consumedBy rs"
  "consumedBy (rs @ rs') = consumedBy rs + consumedBy rs'"
  by (simp_all add: consumedBy_def)

lemma replenishAll_simps [simp]: "replenishAll alloc [] fl = fl"
  "replenishAll alloc ((streamId, rd) # rs) fl = replenishAll alloc rs (replenishStreamWindow alloc streamId rd fl)"
  by (simp_all add: replenishAll_def)

lemma replenishAll_inv:
  "connInv C B T fl \<Longrightarrow> list_all readingOk rs \<Longrightarrow> B + consumedBy rs \<le> 2 ^ 26 \<Longrightarrow>
     connInv (C + consumedBy rs) (B + consumedBy rs) T (replenishAll alloc rs fl)"
proof (induction rs arbitrary: C B fl)
  case Nil
  then show ?case by simp
next
  case (Cons r rs)
  obtain streamId rd where r: "r = (streamId, rd)" by fastforce
  have "connInv (C + unat (rd_consumedBytes rd)) (B + unat (rd_consumedBytes rd)) T (replenishStreamWindow alloc streamId rd fl)"
    by (rule replenish_inv(1)) (use Cons.prems r in simp_all)
  from Cons.IH [OF this] Cons.prems r show ?case by (simp add: add.assoc)
qed

definition settled :: "nat \<Rightarrow> flow \<Rightarrow> bool" where
  "settled C fl \<longleftrightarrow> connInv C 0 (unat (fl_connWindowTarget fl)) fl"

lemma settled_init: "settled 0 initFlow"
  using connInv_init by (simp add: settled_def initFlow_def HTTP2_INITIAL_FLOW_CONTROL_WINDOW_def)

lemma runBatch_settled:
  assumes "settled C fl" "batchOk rs"
  shows "settled (C + consumedBy rs) (runBatch alloc rs fl)"
    and "unat (fl_pendingConnWindow (runBatch alloc rs fl)) < 65535" and "fl_pendingWire (runBatch alloc rs fl) = []"
proof -
  have b: "connInv (C + consumedBy rs) (consumedBy rs) (unat (fl_connWindowTarget fl)) (replenishAll alloc rs fl)"
    using replenishAll_inv [of C 0 _ fl rs alloc] assms by (simp add: settled_def batchOk_def)
  have c: "consumedBy rs \<le> 2 ^ 26" using assms(2) by (simp add: batchOk_def)
  show "settled (C + consumedBy rs) (runBatch alloc rs fl)" "unat (fl_pendingConnWindow (runBatch alloc rs fl)) < 65535"
    "fl_pendingWire (runBatch alloc rs fl) = []"
    using flush_inv [OF b c, where alloc = alloc] by (simp_all add: settled_def runBatch_def)
qed

lemma fold_settled:
  "settled C fl \<Longrightarrow> list_all batchOk batches \<Longrightarrow>
     settled (C + consumedBy (concat batches)) (fold (runBatch alloc) batches fl)"
proof (induction batches arbitrary: C fl)
  case Nil
  then show ?case by simp
next
  case (Cons rs batches)
  then show ?case using runBatch_settled(1) [of C fl rs alloc] Cons.IH [of "C + consumedBy rs" "runBatch alloc rs fl"]
    by (simp add: add.assoc)
qed

text \<open>C17. No connection credit is lost or invented: over any sequence of read batches, what the
  WINDOW_UPDATE frames for the connection advertise in all, as the peer parses them, plus the
  credit still owed, is what was consumed plus the growth of the tuned window, with no wrap-around
  in the 32-bit counters. After every batch less than 65535 bytes are owed and the queue is
  empty, so a peer that started from at least the default window always has some left; the
  target stays between 65535 and the maximum.\<close>

theorem connection_credit_conserved:
  fixes alloc :: "nat \<Rightarrow> bool"
  assumes "list_all batchOk batches" "batchOk rs"
  defines "fl \<equiv> runBatch alloc rs (fold (runBatch alloc) batches initFlow)"
  shows "advertised fl 0 + unat (fl_pendingConnWindow fl)
      = consumedBy (concat batches @ rs) + (unat (fl_connWindowTarget fl) - unat HTTP2_INITIAL_FLOW_CONTROL_WINDOW)
    \<and> fl_pendingConnWindow fl < CONNECTION_WINDOW_UPDATE_THRESHOLD \<and> fl_pendingWire fl = []
    \<and> consumedBy (concat batches @ rs) < advertised fl 0 + unat HTTP2_INITIAL_FLOW_CONTROL_WINDOW
    \<and> HTTP2_INITIAL_FLOW_CONTROL_WINDOW \<le> fl_connWindowTarget fl \<and> fl_connWindowTarget fl \<le> CONNECTION_WINDOW_MAX"
proof -
  let ?C = "consumedBy (concat batches)"
  have s: "settled ?C (fold (runBatch alloc) batches initFlow)"
    using fold_settled [OF settled_init assms(1)] by simp
  note b = runBatch_settled [OF s assms(2), where alloc = alloc, folded fl_def]
  have inv: "connInv (?C + consumedBy rs) 0 (unat (fl_connWindowTarget fl)) fl" using b(1) by (simp add: settled_def)
  have e: "advertised fl 0 + unat (fl_pendingConnWindow fl) = ?C + consumedBy rs + (unat (fl_connWindowTarget fl) - 65535)"
    by (rule connInvD(4) [OF inv])
  have "consumedBy (concat batches) + consumedBy rs < advertised fl 0 + 65535"
    using e b(2) targetOk_bounds [OF connInvD(3) [OF inv]] by linarith
  moreover have "unat HTTP2_INITIAL_FLOW_CONTROL_WINDOW = 65535" by (simp add: HTTP2_INITIAL_FLOW_CONTROL_WINDOW_def)
  moreover have "fl_pendingConnWindow fl < CONNECTION_WINDOW_UPDATE_THRESHOLD"
    using b(2) by (simp add: CONNECTION_WINDOW_UPDATE_THRESHOLD_def word_less_nat_alt)
  moreover have "HTTP2_INITIAL_FLOW_CONTROL_WINDOW \<le> fl_connWindowTarget fl \<and> fl_connWindowTarget fl \<le> CONNECTION_WINDOW_MAX"
    using targetOk_bounds [OF connInvD(3) [OF inv]]
    by (simp add: HTTP2_INITIAL_FLOW_CONTROL_WINDOW_def CONNECTION_WINDOW_MAX_def word_le_nat_alt)
  ultimately show ?thesis using e b(3) by (simp only: consumedBy_simps)
qed

text \<open>A full window on stream 1 and its end: the target doubles and everything owed is advertised.\<close>

definition sampleBatch :: "(32 word \<times> streamReading) list" where
  "sampleBatch = [(1, \<lparr>rd_consumedBytes = 16384, rd_cancelStreamId = 0, rd_ended = False, rd_reset = False\<rparr>),
     (3, \<lparr>rd_consumedBytes = 100, rd_cancelStreamId = 0, rd_ended = False, rd_reset = False\<rparr>),
     (1, \<lparr>rd_consumedBytes = 60000, rd_cancelStreamId = 0, rd_ended = False, rd_reset = False\<rparr>)]"

lemma sampleBatch_ok: "batchOk sampleBatch" "consumedBy sampleBatch = 76484"
  by (simp_all add: sampleBatch_def batchOk_def readingOk_def)

lemma connection_credit_conserved_witness:
  "let fl = runBatch (\<lambda>_. True) sampleBatch (fold (runBatch (\<lambda>_. True)) [sampleBatch] initFlow)
   in advertised fl 0 + unat (fl_pendingConnWindow fl) = 152968 + (unat (fl_connWindowTarget fl) - 65535)
    \<and> 152968 < advertised fl 0 + 65535"
  using connection_credit_conserved [of "[sampleBatch]" sampleBatch "\<lambda>_. True"] sampleBatch_ok
  by (simp add: HTTP2_INITIAL_FLOW_CONTROL_WINDOW_def)

section \<open>The credit of one stream\<close>

definition consumedOn :: "32 word \<Rightarrow> (32 word \<times> streamReading) list \<Rightarrow> nat" where
  "consumedOn streamId rs = consumedBy (filter (\<lambda>r. fst r = streamId) rs)"

definition liveOn :: "32 word \<Rightarrow> (32 word \<times> streamReading) list \<Rightarrow> bool" where
  "liveOn streamId rs \<longleftrightarrow> list_all (\<lambda>r. fst r = streamId \<longrightarrow> isLive (snd r)) rs"

text \<open>Room for a stream not yet in the ledger, when at most 256 streams are ever seen.\<close>

lemma ledger_room:
  assumes "ledgerOk fl" "ledgerKeys fl \<subseteq> S" "finite S" "card S \<le> MAX_CONCURRENT_STREAMS_PER_SESSION" "streamId \<in> S"
  shows "streamId \<in> ledgerKeys fl \<or> length (fl_pendingStreamWindows fl) < MAX_CONCURRENT_STREAMS_PER_SESSION"
proof (cases "streamId \<in> ledgerKeys fl")
  case False
  have "length (fl_pendingStreamWindows fl) = card (ledgerKeys fl)"
    using distinct_card [of "map fst (fl_pendingStreamWindows fl)"] assms(1) by (simp add: ledgerOk_def ledgerKeys_def)
  also have "ledgerKeys fl \<subseteq> S - {streamId}" using assms(2) False by blast
  then have "card (ledgerKeys fl) \<le> card (S - {streamId})" using assms(3) by (simp add: card_mono)
  also have "card (S - {streamId}) < card S" using assms(3,5) by (rule card_Diff1_less)
  finally show ?thesis using assms(4) by simp
qed simp

lemma replenishAll_stream:
  assumes S: "finite S" "card S \<le> MAX_CONCURRENT_STREAMS_PER_SESSION"
  shows "connInv C B T fl \<Longrightarrow> list_all readingOk rs \<Longrightarrow> B + consumedBy rs \<le> 2 ^ 26 \<Longrightarrow> ledgerKeys fl \<subseteq> S \<Longrightarrow> fst ` set rs \<subseteq> S
    \<Longrightarrow> liveOn streamId rs \<Longrightarrow>
     ledgerKeys (replenishAll alloc rs fl) \<subseteq> S
     \<and> advertised (replenishAll alloc rs fl) streamId + streamCredit streamId (replenishAll alloc rs fl)
       = advertised fl streamId + streamCredit streamId fl + consumedOn streamId rs"
proof (induction rs arbitrary: C B fl)
  case Nil
  then show ?case by (simp add: consumedOn_def)
next
  case (Cons r rs)
  obtain i rd where r: "r = (i, rd)" by fastforce
  let ?fl = "replenishStreamWindow alloc i rd fl"
  have ok: "readingOk (i, rd)" "B + unat (rd_consumedBytes rd) \<le> 2 ^ 26" using Cons.prems r by simp_all
  note step = replenish_inv [OF Cons.prems(1) ok, where alloc = alloc]
  have k: "ledgerKeys ?fl \<subseteq> S" using step(2) Cons.prems r by auto
  have "advertised ?fl streamId + streamCredit streamId ?fl
      = advertised fl streamId + streamCredit streamId fl + (if i = streamId then unat (rd_consumedBytes rd) else 0)"
  proof (cases "i = streamId")
    case True
    have "streamId \<in> S" "isLive rd" using Cons.prems r True by (auto simp: liveOn_def)
    then show ?thesis using step(4) ledger_room [OF connInvD(2) [OF Cons.prems(1)] Cons.prems(4) S, of streamId] True by simp
  next
    case False
    then show ?thesis using step(3) [of streamId] by simp
  qed
  moreover have "liveOn streamId rs" using Cons.prems by (simp add: liveOn_def)
  ultimately show ?case using Cons.IH [OF step(1) _ _ k] Cons.prems r
    by (auto simp: consumedOn_def)
qed

text \<open>Batch by batch, what a live stream consumes is on the wire or in the ledger.\<close>

lemma runBatches_stream:
  assumes "card S \<le> MAX_CONCURRENT_STREAMS_PER_SESSION" "streamId \<noteq> 0"
  shows "ledgerKeys fl \<subseteq> S \<Longrightarrow> settled C fl \<Longrightarrow> list_all batchOk bs \<Longrightarrow> liveOn streamId (concat bs) \<Longrightarrow> fst ` set (concat bs) \<subseteq> S \<Longrightarrow>
     settled (C + consumedBy (concat bs)) (fold (runBatch alloc) bs fl) \<and>
     advertised (fold (runBatch alloc) bs fl) streamId + streamCredit streamId (fold (runBatch alloc) bs fl)
       = advertised fl streamId + streamCredit streamId fl + consumedOn streamId (concat bs)"
proof (induction bs arbitrary: C fl)
  case Nil
  then show ?case by (simp add: consumedOn_def)
next
  case (Cons rs bs)
  let ?fl = "replenishAll alloc rs fl"
  have b: "connInv (C + consumedBy rs) (consumedBy rs) (unat (fl_connWindowTarget fl)) ?fl"
    and c: "consumedBy rs \<le> 2 ^ 26"
    using replenishAll_inv [of C 0 _ fl rs alloc] Cons.prems by (simp_all add: settled_def batchOk_def)
  have r: "ledgerKeys ?fl \<subseteq> S \<and> advertised ?fl streamId + streamCredit streamId ?fl
      = advertised fl streamId + streamCredit streamId fl + consumedOn streamId rs"
  proof (rule replenishAll_stream [OF _ assms(1)])
    show "connInv C 0 (unat (fl_connWindowTarget fl)) fl" using Cons.prems by (simp add: settled_def)
    show "fst ` set rs \<subseteq> S" using Cons.prems(5) by (simp add: image_Un)
  qed (use Cons.prems in \<open>simp_all add: batchOk_def liveOn_def\<close>)
  have f: "advertised (runBatch alloc rs fl) streamId = advertised ?fl streamId"
    "fl_pendingStreamWindows (runBatch alloc rs fl) = fl_pendingStreamWindows ?fl"
    using flush_inv(1-4) [OF b c, where alloc = alloc] flush_inv(5) [OF b c assms(2), of alloc] by (simp_all add: runBatch_def)
  have "settled (C + consumedBy rs) (runBatch alloc rs fl)" using runBatch_settled Cons.prems by simp
  moreover have "ledgerKeys (runBatch alloc rs fl) = ledgerKeys ?fl" "streamCredit streamId (runBatch alloc rs fl) = streamCredit streamId ?fl"
    using f by (simp_all add: ledgerKeys_def streamCredit_def)
  moreover have "fst ` set (concat bs) \<subseteq> S" using Cons.prems(5) by (simp add: image_Un)
  moreover have "list_all batchOk bs" "liveOn streamId (concat bs)" using Cons.prems by (simp_all add: liveOn_def)
  moreover have "consumedOn streamId (concat (rs # bs)) = consumedOn streamId rs + consumedOn streamId (concat bs)"
    by (simp add: consumedOn_def)
  ultimately show ?case using Cons.IH [of "runBatch alloc rs fl" "C + consumedBy rs"] r f(1)
    by (simp add: add.assoc)
qed

text \<open>C18. Nor is stream credit: as long as a stream is neither ended, reset nor cancelled, and the
  session has seen at most 256 streams, what was advertised for it plus its entry in the ledger is
  what it consumed, over any sequence of batches; at most 16384 bytes of it are held back.\<close>

theorem stream_credit_conserved:
  fixes alloc :: "nat \<Rightarrow> bool"
  assumes "list_all batchOk batches" "liveOn streamId (concat batches)"
    and "card (fst ` set (concat batches)) \<le> MAX_CONCURRENT_STREAMS_PER_SESSION" "streamId \<noteq> 0"
  defines "fl \<equiv> fold (runBatch alloc) batches initFlow"
  shows "advertised fl streamId + streamCredit streamId fl = consumedOn streamId (concat batches)
    \<and> streamCredit streamId fl \<le> 16384"
proof -
  from runBatches_stream [OF assms(3,4), of initFlow 0 batches alloc] assms(1,2) settled_init
  have "settled (consumedBy (concat batches)) fl"
    and e: "advertised fl streamId + streamCredit streamId fl
      = advertised initFlow streamId + streamCredit streamId initFlow + consumedOn streamId (concat batches)"
    by (simp_all add: fl_def ledgerKeys_def initFlow_def)
  then have "ledgerOk fl" by (simp add: settled_def connInvD)
  then have "streamCredit streamId fl \<le> 16384"
    by (auto simp: ledgerOk_def streamCredit_def list_all_iff STREAM_WINDOW_UPDATE_THRESHOLD_def word_le_nat_alt
        dest!: map_of_SomeD split: option.splits)
  moreover have "wireHolds initFlow [] []" by (simp add: wireHolds_def initFlow_def)
  ultimately show ?thesis using e wireHolds_advertised [of initFlow "[]" "[]" streamId]
    by (simp add: streamCredit_def initFlow_def)
qed

lemma stream_credit_conserved_witness:
  "let fl = fold (runBatch (\<lambda>_. True)) [sampleBatch, sampleBatch] initFlow
   in advertised fl 1 + streamCredit 1 fl = 152768 \<and> streamCredit 1 fl \<le> 16384"
proof -
  have "liveOn 1 (concat [sampleBatch, sampleBatch])" "fst ` set (concat [sampleBatch, sampleBatch]) = {1, 3}"
    "consumedOn 1 (concat [sampleBatch, sampleBatch]) = 152768"
    by (auto simp: sampleBatch_def liveOn_def isLive_def consumedOn_def)
  then show ?thesis
    using stream_credit_conserved [of "[sampleBatch, sampleBatch]" 1 "\<lambda>_. True"] sampleBatch_ok
    by (simp add: MAX_CONCURRENT_STREAMS_PER_SESSION_def)
qed

text \<open>
  A full ledger drops the credit of a stream it does not know. An entry is only discarded when a
  frame ends, resets or cancels its stream; a stream abandoned on a timeout leaves its entry.
\<close>

lemma full_ledger_drops_credit:
  "length (fl_pendingStreamWindows fl) \<ge> MAX_CONCURRENT_STREAMS_PER_SESSION \<Longrightarrow> findPendingWindow streamId fl = None \<Longrightarrow>
     addStreamWindowCredit alloc streamId credit fl = fl"
  by (simp add: addStreamWindowCredit_def)

end
