(* ===== verification/Slots.thy ===== *)
theory Slots
  imports Prelude
begin

text \<open>
  Fixed arrays of pointers, where \<open>None\<close> is the null pointer: the idiom the client uses for the
  stream registry of a session, the session pool, the establish locks and the TLS cache. Entering
  takes the first free slot, leaving clears the slot of a pointer.
\<close>

section \<open>Arrays of slots\<close>

definition enterSlot :: "'r \<Rightarrow> 'r option list \<Rightarrow> 'r option list option" where
  "enterSlot r slots = map_option (\<lambda>i. slots[i := Some r]) (findIndex (\<lambda>x. x = None) slots)"

definition leaveSlot :: "'r \<Rightarrow> 'r option list \<Rightarrow> 'r option list" where
  "leaveSlot r slots = (case findIndex (\<lambda>x. x = Some r) slots of None \<Rightarrow> slots | Some i \<Rightarrow> slots[i := None])"

definition occupants :: "'r option list \<Rightarrow> 'r list" where
  "occupants slots = List.map_filter id slots"

lemma occupants_simps [simp]: "occupants [] = []" "occupants (None # xs) = occupants xs" "occupants (Some r # xs) = r # occupants xs"
  by (simp_all add: occupants_def List.map_filter_simps)

lemma occupants_append [simp]: "occupants (xs @ ys) = occupants xs @ occupants ys"
  by (induction xs) (auto, metis not_Some_eq occupants_simps(2,3) append_Cons)

lemma occupants_replicate [simp]: "occupants (replicate n None) = []"
  by (induction n) auto

lemma set_occupants: "r \<in> set (occupants slots) \<longleftrightarrow> Some r \<in> set slots"
  by (induction slots) (auto, (metis not_Some_eq occupants_simps(2,3) list.set_intros set_ConsD)+)

text \<open>Every pointer sits in one slot.\<close>

definition slotsOk :: "nat \<Rightarrow> 'r option list \<Rightarrow> bool" where
  "slotsOk n slots \<longleftrightarrow> length slots = n \<and> distinct (occupants slots)"

lemma split_at: "i < length xs \<Longrightarrow> xs = take i xs @ xs ! i # drop (Suc i) xs"
  by (simp add: id_take_nth_drop)

lemma occupants_split: "i < length slots \<Longrightarrow>
    occupants slots = occupants (take i slots) @ occupants [slots ! i] @ occupants (drop (Suc i) slots)"
  using split_at [of i slots] by (metis append_Cons append_Nil occupants_append)

lemma occupants_update: "i < length slots \<Longrightarrow>
    occupants (slots[i := x]) = occupants (take i slots) @ occupants [x] @ occupants (drop (Suc i) slots)"
  by (subst occupants_split [of i]) simp_all

lemma occupants_length: "length (occupants slots) \<le> length slots"
  by (induction slots) (auto, metis (no_types, lifting) le_SucI length_Cons not_Some_eq not_less_eq_eq occupants_simps(2,3))

lemma full_slots: "findIndex (\<lambda>x. x = None) slots = None \<longleftrightarrow> length (occupants slots) = length slots"
proof (induction slots)
  case (Cons x slots)
  then show ?case using occupants_length [of slots] by (cases x) auto
qed simp

lemma enterSlot_occupants:
  assumes "enterSlot r slots = Some slots'"
  shows "set (occupants slots') = insert r (set (occupants slots))" "length (occupants slots') = Suc (length (occupants slots))"
    "length slots' = length slots" "r \<notin> set (occupants slots) \<Longrightarrow> distinct (occupants slots) \<Longrightarrow> distinct (occupants slots')"
proof -
  obtain i where i: "findIndex (\<lambda>x. x = None) slots = Some i" and s': "slots' = slots[i := Some r]"
    using assms by (auto simp: enterSlot_def)
  have "i < length slots" "slots ! i = None" using findIndex_SomeD [OF i] by simp_all
  then show "set (occupants slots') = insert r (set (occupants slots))" "length (occupants slots') = Suc (length (occupants slots))"
    "length slots' = length slots" "r \<notin> set (occupants slots) \<Longrightarrow> distinct (occupants slots) \<Longrightarrow> distinct (occupants slots')"
    by (auto simp: s' occupants_update occupants_split [of i slots])
qed

lemma leaveSlot_occupants:
  assumes "distinct (occupants slots)"
  shows "set (occupants (leaveSlot r slots)) = set (occupants slots) - {r}" "distinct (occupants (leaveSlot r slots))"
    "length (leaveSlot r slots) = length slots"
proof -
  have "set (occupants (leaveSlot r slots)) = set (occupants slots) - {r} \<and> distinct (occupants (leaveSlot r slots))
    \<and> length (leaveSlot r slots) = length slots"
  proof (cases "findIndex (\<lambda>x. x = Some r) slots")
    case None
    then have "r \<notin> set (occupants slots)" by (auto simp: set_occupants findIndex_None)
    then show ?thesis using None assms by (simp add: leaveSlot_def)
  next
    case (Some i)
    have "i < length slots" "slots ! i = Some r" using findIndex_SomeD [OF Some] by simp_all
    then show ?thesis using Some assms
      by (auto simp: leaveSlot_def occupants_update occupants_split [of i slots])
  qed
  then show "set (occupants (leaveSlot r slots)) = set (occupants slots) - {r}" "distinct (occupants (leaveSlot r slots))"
    "length (leaveSlot r slots) = length slots" by simp_all
qed

section \<open>The interface of a bounded registry\<close>

text \<open>
  What the client code relies on: a registry of a fixed capacity whose counter is the number of
  its members, which refuses a member only when it is full.
\<close>

locale bounded_registry =
  fixes ok :: "'t \<Rightarrow> bool" and members :: "'t \<Rightarrow> 'r set" and count :: "'t \<Rightarrow> nat" and capacity :: nat
    and enter :: "'r \<Rightarrow> 't \<Rightarrow> 't option" and leave :: "'r \<Rightarrow> 't \<Rightarrow> 't"
  assumes members_finite: "ok t \<Longrightarrow> finite (members t)"
    and count_members: "ok t \<Longrightarrow> count t = card (members t)"
    and members_bound: "ok t \<Longrightarrow> card (members t) \<le> capacity"
    and enter_full: "ok t \<Longrightarrow> enter r t = None \<longleftrightarrow> card (members t) = capacity"
    and enter_some: "ok t \<Longrightarrow> r \<notin> members t \<Longrightarrow> enter r t = Some t' \<Longrightarrow> ok t' \<and> members t' = insert r (members t)"
    and leave_member: "ok t \<Longrightarrow> r \<in> members t \<Longrightarrow> ok (leave r t) \<and> members (leave r t) = members t - {r}"
begin

lemma enter_count: "ok t \<Longrightarrow> r \<notin> members t \<Longrightarrow> enter r t = Some t' \<Longrightarrow> count t' = Suc (count t)"
  using enter_some [of t r t'] members_finite by (simp add: count_members)

lemma leave_count: "ok t \<Longrightarrow> r \<in> members t \<Longrightarrow> Suc (count (leave r t)) = count t"
  using leave_member [of t r] members_finite [of t] card_Suc_Diff1 [of "members t" r] by (simp add: count_members)

lemma enter_leave:
  assumes "ok t" "r \<notin> members t" "enter r t = Some t'"
  shows "ok (leave r t') \<and> members (leave r t') = members t \<and> count (leave r t') = count t"
  using enter_some [OF assms] leave_member [of t' r] assms(1,2) by (auto simp: count_members)

lemma leave_makes_room:
  assumes "ok t" "r \<in> members t"
  shows "\<exists>t'. enter r' (leave r t) = Some t'"
proof -
  have "card (members (leave r t)) < card (members t)"
    using leave_member [OF assms] card_Diff1_less [OF members_finite [OF assms(1)] assms(2)] by simp
  then have "card (members (leave r t)) \<noteq> capacity" using members_bound [OF assms(1)] by simp
  then show ?thesis using enter_full [of "leave r t" r'] leave_member [OF assms] by auto
qed

text \<open>Any run of entries and departures; a refused entry changes nothing.\<close>

definition request :: "bool \<times> 'r \<Rightarrow> 't \<Rightarrow> 't" where
  "request q t = (if fst q then (if snd q \<in> members t then t else case enter (snd q) t of None \<Rightarrow> t | Some t' \<Rightarrow> t')
                  else if snd q \<in> members t then leave (snd q) t else t)"

lemma run_ok: "ok t \<Longrightarrow> ok (fold request qs t)"
proof (induction qs arbitrary: t)
  case (Cons q qs)
  have "ok (request q t)"
    using Cons.prems enter_some [of t "snd q"] leave_member [of t "snd q"] by (auto simp: request_def split: option.splits)
  then show ?case using Cons.IH by simp
qed simp

lemma run_bounded: "ok t \<Longrightarrow> count (fold request qs t) \<le> capacity"
  using run_ok [of t qs] members_bound by (simp add: count_members)

end

interpretation raw: bounded_registry "slotsOk n" "\<lambda>slots. set (occupants slots)" "\<lambda>slots. length (occupants slots)" n
  enterSlot leaveSlot for n
proof (unfold_locales, goal_cases)
  case (2 t)
  then show ?case by (simp add: slotsOk_def distinct_card)
next
  case (3 t)
  then show ?case using occupants_length [of t] by (simp add: slotsOk_def distinct_card)
next
  case (4 t r)
  then show ?case using full_slots [of t] by (simp add: slotsOk_def distinct_card enterSlot_def)
next
  case (5 t r t')
  then show ?case using enterSlot_occupants [of r t t'] by (simp add: slotsOk_def)
next
  case (6 t r)
  then show ?case using leaveSlot_occupants [of t r] by (simp add: slotsOk_def)
qed simp

end
