(* ===== verification/Http2Response.thy ===== *)
theory Http2Response
  imports ResponseStream FlowControl Slots
begin

text \<open>
  The HTTP/2 frame reader of \<open>src/Http2ResponseHandler.c\<close>: routing a frame to its stream, the
  handlers per frame type, the end of a stream, and failing the streams of a lost connection;
  with the stream registry of \<open>src/Session.c\<close> it works on.

  Streams are heap objects shared between the reader and the requesting thread: the registry
  holds pointers (numbers) and \<open>cn_store\<close> maps a pointer to the stream it points to.
\<close>

section \<open>State\<close>

record 'z conn =
  cn_streams :: "nat option list"
  cn_store :: "nat \<Rightarrow> 'z hstream option"
  cn_inflightCount :: nat
  cn_streamId :: "32 word"
  cn_hpackCtx :: "HpackContext option"
  cn_goingAway :: bool
  cn_connError :: error
  cn_flow :: flow

definition http2SettingsFrame :: "(16 word \<times> string) list" where
  "http2SettingsFrame =
     [(0x1, ''SETTINGS_HEADER_TABLE_SIZE''), (0x2, ''SETTINGS_ENABLE_PUSH''), (0x3, ''SETTINGS_MAX_CONCURRENT_STREAMS''),
      (0x4, ''SETTINGS_INITIAL_WINDOW_SIZE''), (0x5, ''SETTINGS_MAX_FRAME_SIZE''), (0x6, ''SETTINGS_MAX_HEADER_LIST_SIZE'')]"

definition HTTP2ErrorNames :: "(32 word \<times> string) list" where
  "HTTP2ErrorNames =
     [(0x0, ''NO_ERROR''), (0x1, ''PROTOCOL_ERROR''), (0x2, ''INTERNAL_ERROR''), (0x3, ''FLOW_CONTROL_ERROR''),
      (0x4, ''SETTINGS_TIMEOUT''), (0x5, ''STREAM_CLOSED''), (0x6, ''FRAME_SIZE_ERROR''), (0x7, ''REFUSED_STREAM''),
      (0x8, ''CANCEL''), (0x9, ''COMPRESSION_ERROR''), (0xa, ''CONNECT_ERROR''), (0xb, ''ENHANCE_YOUR_CALM''),
      (0xc, ''INADEQUATE_SECURITY''), (0xd, ''HTTP_1_1_REQUIRED'')]"

definition getSettingsName :: "16 word \<Rightarrow> string option" where
  "getSettingsName i = map_of http2SettingsFrame i"

definition getErrorName :: "32 word \<Rightarrow> string" where
  "getErrorName code = (case map_of HTTP2ErrorNames code of None \<Rightarrow> ''STREAM_UNKNOWN_ERROR'' | Some name \<Rightarrow> name)"

text \<open>The identifier, value and name of every complete entry of a SETTINGS payload.\<close>

function handleSettingsFrame :: "bytes \<Rightarrow> nat \<Rightarrow> (16 word \<times> 32 word \<times> string option) list" where
  "handleSettingsFrame payload i =
     (if i + 6 \<le> length payload
      then (let settingId = (push_bit 8 (ucast (payload ! i)) OR ucast (payload ! (i + 1)) :: 16 word);
                v = be32 (payload ! (i + 2)) (payload ! (i + 3)) (payload ! (i + 4)) (payload ! (i + 5))
            in (settingId, v, getSettingsName settingId) # handleSettingsFrame payload (i + 6))
      else [])"
  by pat_completeness auto
termination by (relation "measure (\<lambda>(payload, i). length payload - i)") auto

declare handleSettingsFrame.simps [simp del]

section \<open>The header block of a stream\<close>

definition appendHeaderBlockFragment :: "'z clientEnv \<Rightarrow> bytes \<Rightarrow> 'z hstream \<Rightarrow> 'z hstream \<times> bool" where
  "appendHeaderBlockFragment env payload stream =
     (if payload = [] then (stream, True)
      else if \<not> ev_alloc env (length (st_headerBlock stream) + length payload) then (stream, False)
      else (stream\<lparr>st_headerBlock := st_headerBlock stream @ payload\<rparr>, True))"

text \<open>\<open>decodeHeadersFrame\<close> on the fields of the stream and the connection's context.\<close>

definition decodeInto :: "'z clientEnv \<Rightarrow> bytes \<Rightarrow> HpackContext \<Rightarrow> 'z hstream \<Rightarrow> 'z hstream \<times> HpackContext" where
  "decodeInto env payload ctx stream =
     (let d = decodeHeadersFrame (ev_alloc env) payload
                \<lparr>dc_ctx = ctx, dc_headers = st_headers stream, dc_error = st_error stream\<rparr>
      in (stream\<lparr>st_headers := dc_headers d, st_error := dc_error d\<rparr>, dc_ctx d))"

definition headersFailed :: "'z hstream \<Rightarrow> 'z hstream" where
  "headersFailed stream = stream\<lparr>st_error := ERR_RESPONSE_DECODING_HEADERS_FRAME_FAILED\<rparr>"

text \<open>
  The header block fragment of a HEADERS payload: the pad length byte and the priority fields are
  skipped and the padding is cut off; \<open>None\<close> is a malformed payload.
\<close>

definition headersFragment :: "byte \<Rightarrow> bytes \<Rightarrow> bytes option" where
  "headersFragment flags payload =
     (let padded = (flags AND 0x08 \<noteq> 0); priority = (flags AND 0x20 \<noteq> 0) in
      if padded \<and> length payload < 1 then None
      else (let padLength = (if padded then unat (payload ! 0) else 0);
                rest = (if padded then drop 1 payload else payload)
            in if priority \<and> length rest < 5 then None
               else (let rest = (if priority then drop 5 rest else rest)
                     in if padLength > 0 \<and> padLength > length rest then None
                        else Some (take (length rest - padLength) rest))))"

definition handleHeadersFrame :: "'z clientEnv \<Rightarrow> byte \<Rightarrow> bytes \<Rightarrow> HpackContext option \<Rightarrow> 'z hstream \<Rightarrow> 'z hstream \<times> HpackContext option" where
  "handleHeadersFrame env flags payload ctx stream =
     (case ctx of
        None \<Rightarrow> (stream, None)
      | Some c \<Rightarrow>
          (case headersFragment flags payload of
             None \<Rightarrow> (headersFailed stream, ctx)
           | Some block \<Rightarrow>
               if flags AND 0x4 = 0 then
                 (case appendHeaderBlockFragment env block (stream\<lparr>st_headerBlock := []\<rparr>) of
                    (stream, False) \<Rightarrow> (stream\<lparr>st_error := ERR_SYSTEM_MEMORY_ALLOCATION_FAILED\<rparr>, ctx)
                  | (stream, True) \<Rightarrow> (stream\<lparr>st_awaitingContinuation := True\<rparr>, ctx))
               else (let (stream, c) = decodeInto env block c stream in (stream, Some c))))"

text \<open>
  The CONTINUATION case of \<open>handleStreamFrame\<close>. A connection without an HPACK context does not get
  to its last case, as its HEADERS frames leave no block open.
\<close>

definition handleContinuation :: "'z clientEnv \<Rightarrow> byte \<Rightarrow> bytes \<Rightarrow> HpackContext option \<Rightarrow> 'z hstream \<Rightarrow> 'z hstream \<times> HpackContext option" where
  "handleContinuation env flags payload ctx stream =
     (if \<not> st_awaitingContinuation stream then (stream, ctx)
      else (case appendHeaderBlockFragment env payload stream of
              (stream, False) \<Rightarrow>
                (stream\<lparr>st_error := ERR_SYSTEM_MEMORY_ALLOCATION_FAILED, st_awaitingContinuation := False\<rparr>, ctx)
            | (stream, True) \<Rightarrow>
                if flags AND 0x4 = 0 then (stream, ctx)
                else (let stream = stream\<lparr>st_awaitingContinuation := False\<rparr>;
                          (stream, ctx) =
                            (case ctx of
                               Some c \<Rightarrow>
                                 if failed (st_error stream) then (stream, ctx)
                                 else (let (stream, c) = decodeInto env (st_headerBlock stream) c stream in (stream, Some c))
                             | None \<Rightarrow> (stream, None))
                      in (stream\<lparr>st_headerBlock := []\<rparr>, ctx))))"

section \<open>The other handlers\<close>

text \<open>A failed or refused delivery is only logged: the error is in the stream and the sink.\<close>

definition handleDataFrame :: "'z clientEnv \<Rightarrow> bytes \<Rightarrow> 'z hstream \<Rightarrow> 'z hstream option" where
  "handleDataFrame env payload stream = map_option fst (appendStreamPayload env stream payload)"

definition handleRST_STREAMFrame :: "bytes \<Rightarrow> 'z conn \<Rightarrow> 'z hstream \<Rightarrow> 'z conn \<times> 'z hstream" where
  "handleRST_STREAMFrame payload cn stream =
     (if length payload = 4
      then (let errorCode = rstErrorCode payload
            in if errorCode = 0xd
               then (cn\<lparr>cn_connError := ERR_SESSION_HTTP_1_1_REQUIRED, cn_goingAway := True\<rparr>,
                     stream\<lparr>st_error := ERR_SESSION_HTTP_1_1_REQUIRED\<rparr>)
               else (cn, stream\<lparr>st_error := (fst ERR_RESPONSE_RST_STREAM_ERROR, Some (getErrorName errorCode))\<rparr>))
      else (cn, stream\<lparr>st_error := (fst ERR_RESPONSE_RST_STREAM_ERROR, Some ''Invalid RST_STREAM frame length'')\<rparr>))"

definition handleGoAwayFrame :: "bytes \<Rightarrow> 'z conn \<Rightarrow> 'z conn" where
  "handleGoAwayFrame payload cn =
     (if length payload \<ge> 8
      then (let errorCode = be32 (payload ! 4) (payload ! 5) (payload ! 6) (payload ! 7)
            in cn\<lparr>cn_connError := (if errorCode = 0x4 then ERR_SESSION_SETTINGS_TIMEOUT
                                   else if errorCode = 0xd then ERR_SESSION_HTTP_1_1_REQUIRED else ERR_SESSION_GO_AWAY),
                  cn_goingAway := True\<rparr>)
      else cn)"

section \<open>One frame\<close>

text \<open>
  A frame for a stream the registry holds. SETTINGS, WINDOW_UPDATE and unknown types change no
  state here. \<open>None\<close> is a decoder that does not return.
\<close>

definition handleFrameBody :: "'z clientEnv \<Rightarrow> frame \<Rightarrow> 'z conn \<Rightarrow> 'z hstream \<Rightarrow> ('z conn \<times> 'z hstream) option" where
  "handleFrameBody env f cn stream =
     (let type = fr_type f; flags = fr_flags f; payload = fr_payload f in
      if type = 0x0 then map_option (\<lambda>stream. (cn, stream)) (handleDataFrame env payload stream)
      else if type = 0x1 then
        (let (stream, ctx) = handleHeadersFrame env flags payload (cn_hpackCtx cn) stream
         in Some (cn\<lparr>cn_hpackCtx := ctx\<rparr>, stream))
      else if type = 0x9 then
        (let (stream, ctx) = handleContinuation env flags payload (cn_hpackCtx cn) stream
         in Some (cn\<lparr>cn_hpackCtx := ctx\<rparr>, stream))
      else if type = 0x3 then
        (let (cn, stream) = handleRST_STREAMFrame payload cn stream in Some (cn, stream\<lparr>st_isEnded := True\<rparr>))
      else if type = 0x7 then Some (handleGoAwayFrame payload cn, stream)
      else Some (cn, stream))"

text \<open>Behind the switch: END_HEADERS delivers the headers, END_STREAM ends the stream.\<close>

definition finishFrame :: "'z clientEnv \<Rightarrow> frame \<Rightarrow> 'z hstream \<Rightarrow> 'z hstream" where
  "finishFrame env f stream =
     (let type = fr_type f; flags = fr_flags f;
          stream = (if (type = 0x1 \<or> type = 0x9) \<and> flags AND 0x4 \<noteq> 0 \<and> \<not> failed (st_error stream)
                    then deliverResponseHeaders env stream else stream)
      in if (type = 0x0 \<or> type = 0x1 \<or> type = 0x9) \<and> flags AND 0x1 \<noteq> 0
         then stream\<lparr>st_isEnded := True\<rparr> else stream)"

definition handleStreamFrame :: "'z clientEnv \<Rightarrow> frame \<Rightarrow> 'z conn \<Rightarrow> 'z hstream \<Rightarrow> ('z conn \<times> 'z hstream) option" where
  "handleStreamFrame env f cn stream =
     map_option (\<lambda>(cn, stream). (cn, finishFrame env f stream)) (handleFrameBody env f cn stream)"

text \<open>A zeroed stream, the scratch target of a header block for an unknown stream.\<close>

definition scratchStream :: "'z hstream" where
  "scratchStream = \<lparr>st_streamId = 0, st_isEnded = False, st_sink = None, st_headers = None, st_combinedPayload = [],
     st_headerBlock = [], st_awaitingContinuation = False, st_payloadDecoded = False, st_lastActivityTime = 0,
     st_error = ERR_NONE\<rparr>"

text \<open>The same with a null stream.\<close>

definition handleNullStreamFrame :: "'z clientEnv \<Rightarrow> frame \<Rightarrow> 'z conn \<Rightarrow> 'z conn" where
  "handleNullStreamFrame env f cn =
     (if fr_type f = 0x1
      then cn\<lparr>cn_hpackCtx := snd (handleHeadersFrame env (fr_flags f) (fr_payload f) (cn_hpackCtx cn) (scratchStream :: 'z hstream))\<rparr>
      else if fr_type f = 0x7 then handleGoAwayFrame (fr_payload f) cn
      else cn)"

definition endStreamReading :: "byte \<Rightarrow> 32 word \<Rightarrow> 'z hstream \<Rightarrow> 'z hstream \<times> streamReading" where
  "endStreamReading type len stream =
     (let reading = \<lparr>rd_consumedBytes = 0, rd_cancelStreamId = 0, rd_ended = st_isEnded stream, rd_reset = (type = 0x3)\<rparr>;
          stream = (if st_isEnded stream then completeResponseSink stream else stream)
      in if \<not> isResponseStreaming stream then (stream, reading)
         else (let reading = reading\<lparr>rd_consumedBytes := if type = 0x0 then len else 0\<rparr>
               in case takeResponseCancellation stream of
                    (stream, False) \<Rightarrow> (stream, reading)
                  | (stream, True) \<Rightarrow>
                      (let stream = (if \<not> rd_ended reading then completeResponseSink (stream\<lparr>st_isEnded := True\<rparr>) else stream)
                       in (stream, reading\<lparr>rd_cancelStreamId := st_streamId stream\<rparr>))))"

section \<open>The registry and the reader\<close>

text \<open>A slot holds a pointer to a live stream or none, so the case of a dead one does not arise (\<open>registryOk\<close>).\<close>

definition findStream :: "'z conn \<Rightarrow> 32 word \<Rightarrow> nat option" where
  "findStream cn streamId =
     (case findIndex (\<lambda>slot. case slot of None \<Rightarrow> False
                               | Some p \<Rightarrow> (case cn_store cn p of None \<Rightarrow> False | Some s \<Rightarrow> st_streamId s = streamId))
             (cn_streams cn) of
        None \<Rightarrow> None | Some i \<Rightarrow> cn_streams cn ! i)"

definition failStream :: "bool \<Rightarrow> error \<Rightarrow> 'z hstream \<Rightarrow> 'z hstream" where
  "failStream onlyPending connError stream =
     (if \<not> st_isEnded stream \<and> (\<not> onlyPending \<or> numHeaders stream = 0)
      then completeResponseSink
             (stream\<lparr>st_error := (if failed connError then connError else ERR_RESPONSE_READING_CONNECTION_ERROR),
                     st_isEnded := True\<rparr>)
      else stream)"

definition failAllStreams :: "bool \<Rightarrow> 'z conn \<Rightarrow> 'z conn" where
  "failAllStreams onlyPending cn =
     fold (\<lambda>slot cn. case slot of None \<Rightarrow> cn
             | Some p \<Rightarrow> cn\<lparr>cn_store := (cn_store cn)(p := map_option (failStream onlyPending (cn_connError cn)) (cn_store cn p))\<rparr>)
       (cn_streams cn) cn"

definition onFlow :: "(flow \<Rightarrow> flow) \<Rightarrow> 'z conn \<Rightarrow> 'z conn" where
  "onFlow g cn = cn\<lparr>cn_flow := g (cn_flow cn)\<rparr>"

definition isStreamFrame :: "frame \<Rightarrow> bool" where
  "isStreamFrame f \<longleftrightarrow> fr_type f = 0x0 \<or> fr_type f = 0x1 \<or> fr_type f = 0x3 \<or> fr_type f = 0x9"

definition readerDispatch :: "'z clientEnv \<Rightarrow> frame \<Rightarrow> 'z conn \<Rightarrow> 'z conn option" where
  "readerDispatch env f cn =
     (let alloc = ev_alloc env in
      if isStreamFrame f then
        (case findStream cn (fr_streamId f) of
           Some p \<Rightarrow>
             (case handleStreamFrame env f cn (the (cn_store cn p)) of
                None \<Rightarrow> None
              | Some (cn, stream) \<Rightarrow>
                  (let (stream, reading) = endStreamReading (fr_type f) (word_of_nat (length (fr_payload f))) stream;
                       cn = cn\<lparr>cn_store := (cn_store cn)(p \<mapsto> stream)\<rparr>;
                       cn = onFlow (replenishStreamWindow alloc (fr_streamId f) reading) cn
                   in Some (if rd_cancelStreamId reading \<noteq> 0
                            then onFlow (queueRSTStreamFrame alloc (rd_cancelStreamId reading)) cn else cn)))
         | None \<Rightarrow> Some (handleNullStreamFrame env f cn))
      else
        (let cn = handleNullStreamFrame env f cn;
             cn = (if fr_type f = 0x4 \<and> fr_flags f AND 0x1 = 0 then onFlow (queueControlFrame alloc settingsAck) cn
                   else if fr_type f = 0x6 \<and> fr_flags f AND 0x1 = 0 \<and> length (fr_payload f) = 8
                   then onFlow (queueControlFrame alloc (pingAck (fr_payload f))) cn
                   else cn)
         in Some (if fr_type f = 0x7 then failAllStreams True cn else cn)))"

text \<open>One batch of \<open>readerLoop\<close>: the frames completed by one read, then the flush.\<close>

fun dispatchAll :: "'z clientEnv \<Rightarrow> frame list \<Rightarrow> 'z conn \<Rightarrow> 'z conn option" where
  "dispatchAll env [] cn = Some cn"
| "dispatchAll env (f # fs) cn = (case readerDispatch env f cn of None \<Rightarrow> None | Some cn \<Rightarrow> dispatchAll env fs cn)"

definition readerBatch :: "'z clientEnv \<Rightarrow> bytes \<Rightarrow> bytes \<Rightarrow> 'z conn \<Rightarrow> ('z conn \<times> bytes) option" where
  "readerBatch env acc buffer cn =
     (let (fs, rest) = readerAccept acc buffer
      in map_option (\<lambda>cn. (onFlow (flushReaderWrites (ev_alloc env)) cn, rest)) (dispatchAll env fs cn))"

text \<open>The connection is lost: \<open>SSL_read\<close> or \<open>select\<close> failed.\<close>

definition readerLost :: "error option \<Rightarrow> 'z conn \<Rightarrow> 'z conn" where
  "readerLost e cn =
     failAllStreams False (cn\<lparr>cn_connError := (case e of None \<Rightarrow> cn_connError cn | Some e \<Rightarrow> e), cn_goingAway := True\<rparr>)"

end
