(* ===== verification/StreamRegistry.thy ===== *)
theory StreamRegistry
  imports Http2Response
begin

text \<open>
  The stream registry of a session, \<open>registerStream\<close> and \<open>unregisterStream\<close> of
  \<open>src/Session.c\<close>: 256 slots, a counter of the streams in flight, and client stream identifiers
  that grow by two. The registry provides the interface \<open>bounded_registry\<close>.
\<close>


section \<open>Registering and removing streams\<close>

text \<open>
  \<open>fresh\<close> is the pointer \<open>calloc\<close> returns, \<open>None\<close> when it fails; \<open>headersOk\<close> says whether the
  header buffer could be allocated.
\<close>

definition newStream :: "32 word \<Rightarrow> int \<Rightarrow> 'z responseSink option \<Rightarrow> 'z hstream" where
  "newStream i now sink = \<lparr>st_streamId = i, st_isEnded = False, st_sink = sink, st_headers = Some [], st_combinedPayload = [],
     st_headerBlock = [], st_awaitingContinuation = False, st_payloadDecoded = False, st_lastActivityTime = now,
     st_error = ERR_NONE\<rparr>"

definition registerStream :: "nat option \<Rightarrow> bool \<Rightarrow> int \<Rightarrow> 'z responseSink option \<Rightarrow> 'z conn \<Rightarrow> 'z conn \<times> (error + nat)" where
  "registerStream fresh headersOk now sink cn =
     (case fresh of
        None \<Rightarrow> (cn, Inl ERR_SYSTEM_MEMORY_ALLOCATION_FAILED)
      | Some p \<Rightarrow>
          if \<not> headersOk then (cn, Inl ERR_SYSTEM_MEMORY_ALLOCATION_FAILED)
          else (let i = cn_streamId cn; cn = cn\<lparr>cn_streamId := i + 2\<rparr>
                in case enterSlot p (cn_streams cn) of
                     None \<Rightarrow> (cn, Inl ERR_RESPONSE_READING_CONNECTION_ERROR)
                   | Some slots \<Rightarrow>
                       (cn\<lparr>cn_streams := slots, cn_store := (cn_store cn)(p \<mapsto> newStream i now sink),
                           cn_inflightCount := cn_inflightCount cn + 1\<rparr>, Inr p)))"

definition unregisterStream :: "nat \<Rightarrow> 'z conn \<Rightarrow> 'z conn" where
  "unregisterStream p cn =
     cn\<lparr>cn_streams := leaveSlot p (cn_streams cn),
        cn_inflightCount := (if cn_inflightCount cn > 0 then cn_inflightCount cn - 1 else cn_inflightCount cn),
        cn_store := (cn_store cn)(p := None)\<rparr>"

definition registered :: "'z conn \<Rightarrow> nat set" where
  "registered cn = set (occupants (cn_streams cn))"

text \<open>
  The registry invariant: 256 slots, each pointer in one slot and alive, and the counter counts
  them; identifiers are odd, below the next one and differ between streams.
\<close>

definition registryOk :: "'z conn \<Rightarrow> bool" where
  "registryOk cn \<longleftrightarrow> slotsOk MAX_CONCURRENT_STREAMS_PER_SESSION (cn_streams cn)
     \<and> cn_inflightCount cn = length (occupants (cn_streams cn))
     \<and> (\<forall>p\<in>registered cn. cn_store cn p \<noteq> None)"

definition idsOk :: "'z conn \<Rightarrow> bool" where
  "idsOk cn \<longleftrightarrow> odd (unat (cn_streamId cn))
     \<and> (\<forall>p\<in>registered cn. odd (unat (st_streamId (the (cn_store cn p)))) \<and> st_streamId (the (cn_store cn p)) < cn_streamId cn)
     \<and> inj_on (\<lambda>p. st_streamId (the (cn_store cn p))) (registered cn)"

definition enterStream :: "int \<Rightarrow> 'z responseSink option \<Rightarrow> nat \<Rightarrow> 'z conn \<Rightarrow> 'z conn option" where
  "enterStream now sink p cn = (case registerStream (Some p) True now sink cn of (cn, Inr p) \<Rightarrow> Some cn | _ \<Rightarrow> None)"

lemma enterStream_split:
  "enterStream now sink p cn = map_option
     (\<lambda>slots. cn\<lparr>cn_streamId := cn_streamId cn + 2, cn_streams := slots,
        cn_store := (cn_store cn)(p \<mapsto> newStream (cn_streamId cn) now sink), cn_inflightCount := cn_inflightCount cn + 1\<rparr>)
     (enterSlot p (cn_streams cn))"
  by (simp add: enterStream_def registerStream_def Let_def split: option.splits)

interpretation streams: bounded_registry registryOk registered cn_inflightCount MAX_CONCURRENT_STREAMS_PER_SESSION
  "enterStream now sink" unregisterStream for now sink
proof (unfold_locales, goal_cases)
  case (1 t)
  then show ?case by (simp add: registered_def)
next
  case (2 t)
  then show ?case using raw.count_members [of MAX_CONCURRENT_STREAMS_PER_SESSION "cn_streams t"]
    by (simp add: registryOk_def registered_def)
next
  case (3 t)
  then show ?case using raw.members_bound [of MAX_CONCURRENT_STREAMS_PER_SESSION "cn_streams t"]
    by (simp add: registryOk_def registered_def)
next
  case (4 t r)
  then show ?case using raw.enter_full [of MAX_CONCURRENT_STREAMS_PER_SESSION "cn_streams t" r]
    by (simp add: registryOk_def registered_def enterStream_split)
next
  case (5 t r t')
  then obtain slots where s: "enterSlot r (cn_streams t) = Some slots" by (auto simp: enterStream_split)
  from enterSlot_occupants [OF s] raw.enter_some [of MAX_CONCURRENT_STREAMS_PER_SESSION "cn_streams t" r slots] 5 s
  show ?case by (auto simp: registryOk_def registered_def enterStream_split)
next
  case (6 t r)
  have d: "distinct (occupants (cn_streams t))" using 6 by (simp add: registryOk_def slotsOk_def)
  note l = leaveSlot_occupants [OF d, of r]
  have "length (occupants (leaveSlot r (cn_streams t))) = length (occupants (cn_streams t)) - 1"
    using l distinct_card [OF d] distinct_card [OF l(2)] 6 by (simp add: registered_def)
  then show ?case using 6 l by (auto simp: registryOk_def registered_def unregisterStream_def slotsOk_def)
qed


lemma findStream_SomeD:
  assumes "findStream cn streamId = Some p"
  shows "p \<in> registered cn" "\<exists>s. cn_store cn p = Some s \<and> st_streamId s = streamId"
proof -
  obtain i where i: "findIndex (\<lambda>slot. case slot of None \<Rightarrow> False
      | Some p \<Rightarrow> (case cn_store cn p of None \<Rightarrow> False | Some s \<Rightarrow> st_streamId s = streamId)) (cn_streams cn) = Some i"
    "cn_streams cn ! i = Some p"
    using assms by (auto simp: findStream_def split: option.splits)
  note f = findIndex_SomeD [OF i(1)]
  then have "Some p \<in> set (cn_streams cn)" using i(2) by (metis nth_mem)
  then show "p \<in> registered cn" by (simp add: registered_def set_occupants)
  show "\<exists>s. cn_store cn p = Some s \<and> st_streamId s = streamId"
    using f i(2) by (auto split: option.splits)
qed

lemma findStream_exists:
  assumes "p \<in> registered cn" "cn_store cn p = Some s"
  shows "\<exists>q. findStream cn (st_streamId s) = Some q"
proof -
  let ?P = "\<lambda>slot. case slot of None \<Rightarrow> False
      | Some p \<Rightarrow> (case cn_store cn p of None \<Rightarrow> False | Some s' \<Rightarrow> st_streamId s' = st_streamId s)"
  have "Some p \<in> set (cn_streams cn)" using assms(1) by (simp add: registered_def set_occupants)
  moreover have "?P (Some p)" using assms(2) by simp
  ultimately obtain i where i: "findIndex ?P (cn_streams cn) = Some i" using findIndex_exists by metis
  then have "?P (cn_streams cn ! i)" using findIndex_SomeD by fastforce
  then show ?thesis using i by (auto simp: findStream_def split: option.splits)
qed

lemma findStream_registered:
  assumes "registryOk cn" "idsOk cn" "p \<in> registered cn"
  shows "findStream cn (st_streamId (the (cn_store cn p))) = Some p"
proof -
  obtain s where s: "cn_store cn p = Some s" using assms(1,3) by (auto simp: registryOk_def)
  obtain q where q: "findStream cn (st_streamId s) = Some q" using findStream_exists [OF assms(3) s] by blast
  have "q \<in> registered cn" "st_streamId (the (cn_store cn q)) = st_streamId s" using findStream_SomeD [OF q] by auto
  then have "q = p" using assms(2,3) s by (auto simp: idsOk_def inj_on_def)
  then show ?thesis using q s by simp
qed

text \<open>The requests on a session: threads open streams and close their own.\<close>

datatype 'z registryOp = OpenStream "nat option" bool int "'z responseSink option" | CloseStream nat

text \<open>A pointer the allocator returns is not in use, and a thread only closes a stream it opened.\<close>

definition registryStep :: "'z registryOp \<Rightarrow> 'z conn \<Rightarrow> 'z conn" where
  "registryStep op cn =
     (case op of
        OpenStream fresh headersOk now sink \<Rightarrow>
          if (case fresh of None \<Rightarrow> False | Some p \<Rightarrow> p \<in> registered cn) then cn
          else fst (registerStream fresh headersOk now sink cn)
      | CloseStream p \<Rightarrow> if p \<in> registered cn then unregisterStream p cn else cn)"

lemma register_cases:
  assumes "case fresh of None \<Rightarrow> True | Some p \<Rightarrow> p \<notin> registered cn"
  shows "fst (registerStream fresh headersOk now sink cn) = cn
    \<or> fst (registerStream fresh headersOk now sink cn) = cn\<lparr>cn_streamId := cn_streamId cn + 2\<rparr>
    \<or> (\<exists>p. p \<notin> registered cn \<and> enterStream now sink p cn = Some (fst (registerStream fresh headersOk now sink cn)))"
  using assms by (auto simp: registerStream_def enterStream_def Let_def split: option.splits)

lemma idsOk_next:
  assumes ids: "idsOk cn" and w: "unat (cn_streamId cn) + 2 < 2 ^ 32"
  shows "unat (cn_streamId cn + 2) = unat (cn_streamId cn) + 2" "idsOk (cn\<lparr>cn_streamId := cn_streamId cn + 2\<rparr>)"
proof -
  show n: "unat (cn_streamId cn + 2) = unat (cn_streamId cn) + 2" using w by (simp add: unat_word_ariths)
  have "cn_streamId cn < cn_streamId cn + 2" using n by (simp add: word_less_nat_alt)
  then show "idsOk (cn\<lparr>cn_streamId := cn_streamId cn + 2\<rparr>)"
    using ids n by (auto simp: idsOk_def registered_def intro: less_trans)
qed

lemma enterStream_ids:
  assumes ids: "idsOk cn" and p: "p \<notin> registered cn" and e: "enterStream now sink p cn = Some cn'"
    and w: "unat (cn_streamId cn) + 2 < 2 ^ 32"
  shows "idsOk cn'" "cn_streamId cn' = cn_streamId cn + 2"
proof -
  obtain slots where s: "enterSlot p (cn_streams cn) = Some slots" and cn': "cn' = cn\<lparr>cn_streamId := cn_streamId cn + 2,
      cn_streams := slots, cn_store := (cn_store cn)(p \<mapsto> newStream (cn_streamId cn) now sink),
      cn_inflightCount := cn_inflightCount cn + 1\<rparr>"
    using e by (auto simp: enterStream_split)
  then show "cn_streamId cn' = cn_streamId cn + 2" by simp
  have r: "registered cn' = insert p (registered cn)" using enterSlot_occupants(1) [OF s] cn' by (simp add: registered_def)
  have old: "st_streamId (the (cn_store cn' q)) = st_streamId (the (cn_store cn q))" if "q \<in> registered cn" for q
    using that p cn' by auto
  have new: "st_streamId (the (cn_store cn' p)) = cn_streamId cn" using cn' by (simp add: newStream_def)
  note n = idsOk_next [OF ids w]
  have lt: "cn_streamId cn < cn_streamId cn + 2" using n by (simp add: word_less_nat_alt)
  have below: "st_streamId (the (cn_store cn q)) < cn_streamId cn" "odd (unat (st_streamId (the (cn_store cn q))))"
    if "q \<in> registered cn" for q using that ids by (simp_all add: idsOk_def)
  have "inj_on (\<lambda>p. st_streamId (the (cn_store cn' p))) (insert p (registered cn))"
    unfolding inj_on_insert
  proof
    show "inj_on (\<lambda>p. st_streamId (the (cn_store cn' p))) (registered cn)"
      using ids old by (auto simp: idsOk_def inj_on_def)
    show "st_streamId (the (cn_store cn' p)) \<notin> (\<lambda>p. st_streamId (the (cn_store cn' p))) ` (registered cn - {p})"
    proof
      assume "st_streamId (the (cn_store cn' p)) \<in> (\<lambda>p. st_streamId (the (cn_store cn' p))) ` (registered cn - {p})"
      then obtain q where q: "q \<in> registered cn" "cn_streamId cn = st_streamId (the (cn_store cn' q))" using new by auto
      then show False using old [OF q(1)] below(1) [OF q(1)] by simp
    qed
  qed
  moreover have "odd (unat (cn_streamId cn))" using ids by (simp add: idsOk_def)
  ultimately show "idsOk cn'" unfolding idsOk_def r using n(1) old new below lt cn'
    by (auto intro: less_trans)
qed

lemma unregister_ids: "registryOk cn \<Longrightarrow> idsOk cn \<Longrightarrow> p \<in> registered cn \<Longrightarrow> idsOk (unregisterStream p cn)"
  using streams.leave_member [of cn p]
  by (auto simp: idsOk_def unregisterStream_def inj_on_def)

lemma registryStep_ok:
  assumes ok: "registryOk cn" "idsOk cn" and w: "unat (cn_streamId cn) + 2 < 2 ^ 32"
  shows "registryOk (registryStep op cn) \<and> idsOk (registryStep op cn)
    \<and> unat (cn_streamId (registryStep op cn)) \<le> unat (cn_streamId cn) + 2"
proof (cases op)
  case (OpenStream fresh headersOk now sink)
  show ?thesis
  proof (cases "case fresh of None \<Rightarrow> False | Some p \<Rightarrow> p \<in> registered cn")
    case True
    then show ?thesis using ok OpenStream by (simp add: registryStep_def)
  next
    case False
    then have f: "case fresh of None \<Rightarrow> True | Some p \<Rightarrow> p \<notin> registered cn" by (auto split: option.splits)
    let ?cn = "fst (registerStream fresh headersOk now sink cn)"
    have s: "registryStep op cn = ?cn" using False OpenStream by (simp add: registryStep_def)
    from register_cases [OF f, of headersOk now sink] show ?thesis
    proof (elim disjE exE conjE)
      assume "?cn = cn\<lparr>cn_streamId := cn_streamId cn + 2\<rparr>"
      then show ?thesis using s ok idsOk_next [OF ok(2) w] by (simp add: registryOk_def registered_def)
    next
      fix p assume p: "p \<notin> registered cn" "enterStream now sink p cn = Some ?cn"
      then show ?thesis using s streams.enter_some [OF ok(1) p] enterStream_ids [OF ok(2) p w] idsOk_next(1) [OF ok(2) w] by simp
    qed (use s ok in simp)
  qed
next
  case (CloseStream p)
  then show ?thesis using ok streams.leave_member [OF ok(1)] unregister_ids [OF ok]
    by (simp add: registryStep_def unregisterStream_def)
qed

lemma registryRun_ok:
  "registryOk cn \<Longrightarrow> idsOk cn \<Longrightarrow> unat (cn_streamId cn) + 2 * length ops < 2 ^ 31 \<Longrightarrow>
     registryOk (fold registryStep ops cn) \<and> idsOk (fold registryStep ops cn) \<and> unat (cn_streamId (fold registryStep ops cn)) < 2 ^ 31"
proof (induction ops arbitrary: cn)
  case (Cons op ops)
  have "registryOk (registryStep op cn) \<and> idsOk (registryStep op cn)
    \<and> unat (cn_streamId (registryStep op cn)) \<le> unat (cn_streamId cn) + 2"
    by (rule registryStep_ok) (use Cons.prems in simp_all)
  then show ?case using Cons.IH [of "registryStep op cn"] Cons.prems by simp
qed simp

definition initConn :: "HpackContext option \<Rightarrow> 'z conn" where
  "initConn ctx = \<lparr>cn_streams = replicate MAX_CONCURRENT_STREAMS_PER_SESSION None, cn_store = (\<lambda>_. None),
     cn_inflightCount = 0, cn_streamId = 1, cn_hpackCtx = ctx, cn_goingAway = False, cn_connError = ERR_NONE,
     cn_flow = initFlow\<rparr>"

lemma initConn_ok: "registryOk (initConn ctx)" "idsOk (initConn ctx)"
  by (simp_all add: registryOk_def idsOk_def initConn_def registered_def slotsOk_def)

text \<open>C15. The stream registry demultiplexes: after any sequence of streams opened and closed on a
  session (fewer than \<open>2 ^ 30\<close>), at most 256 are registered and \<open>inflightCount\<close> counts them; every
  registered stream has an identifier of its own, odd and below \<open>2 ^ 31\<close>, and a frame with that
  identifier is routed to that stream.\<close>

theorem stream_registry_sound:
  fixes ops :: "'z registryOp list" and ctx :: "HpackContext option"
  assumes "length ops < 2 ^ 30 - 1"
  defines "cn \<equiv> fold registryStep ops (initConn ctx)"
  shows "cn_inflightCount cn = card (registered cn) \<and> cn_inflightCount cn \<le> MAX_CONCURRENT_STREAMS_PER_SESSION
    \<and> (\<forall>p\<in>registered cn. findStream cn (st_streamId (the (cn_store cn p))) = Some p
        \<and> odd (unat (st_streamId (the (cn_store cn p)))) \<and> st_streamId (the (cn_store cn p)) < 2 ^ 31)"
proof -
  have "unat (cn_streamId (initConn ctx :: 'z conn)) + 2 * length ops < 2 ^ 31" using assms(1) by (simp add: initConn_def)
  from registryRun_ok [OF initConn_ok this] have ok: "registryOk cn" "idsOk cn" "unat (cn_streamId cn) < 2 ^ 31"
    by (simp_all add: cn_def)
  have "st_streamId (the (cn_store cn p)) < 2 ^ 31" if "p \<in> registered cn" for p
    using that ok(2,3) by (auto simp: idsOk_def word_less_nat_alt intro: less_trans)
  then show ?thesis using findStream_registered [OF ok(1,2)] streams.count_members [OF ok(1)] streams.members_bound [OF ok(1)] ok(2)
    by (auto simp: idsOk_def)
qed

lemma stream_registry_sound_witness:
  "let cn = fold registryStep [OpenStream (Some 7) True 0 None, OpenStream (Some 8) True 0 None, CloseStream 7,
              OpenStream (Some 9) True 0 None] (initConn None :: (bytes \<times> nat) conn)
   in cn_inflightCount cn = card (registered cn) \<and> cn_inflightCount cn \<le> MAX_CONCURRENT_STREAMS_PER_SESSION"
  using stream_registry_sound [of "[OpenStream (Some 7) True 0 None, OpenStream (Some 8) True 0 None, CloseStream 7,
              OpenStream (Some 9) True 0 None] :: (bytes \<times> nat) registryOp list" None]
  by (simp add: Let_def)

text \<open>
  Identifiers do not stop at \<open>2 ^ 31\<close>: the stream opened there writes its HEADERS for stream 1
  (the frame header carries 31 bits), and the answer, on stream 1, is routed to no stream.
\<close>

lemma stream_id_wraps:
  assumes "cn_streamId cn = 2 ^ 31 + 1" "registered cn = {}" "enterStream now sink p cn = Some cn'"
  shows "streamIdBytes (st_streamId (the (cn_store cn' p))) = streamIdBytes 1 \<and> findStream cn' 1 = None"
proof -
  obtain slots where s: "enterSlot p (cn_streams cn) = Some slots" and cn': "cn' = cn\<lparr>cn_streamId := cn_streamId cn + 2,
      cn_streams := slots, cn_store := (cn_store cn)(p \<mapsto> newStream (cn_streamId cn) now sink),
      cn_inflightCount := cn_inflightCount cn + 1\<rparr>"
    using assms(3) by (auto simp: enterStream_split)
  have r: "registered cn' = {p}" using enterSlot_occupants(1) [OF s] cn' assms(2) by (simp add: registered_def)
  have "findStream cn' 1 \<noteq> Some q" for q
    using findStream_SomeD [of cn' 1 q] r assms(1) cn' by (auto simp: newStream_def)
  then have "findStream cn' 1 = None" by (cases "findStream cn' 1") auto
  then show ?thesis using assms(1) cn' by (simp add: newStream_def streamIdBytes_def)
qed

end
