(* ===== verification/ReaderProps.thy ===== *)
theory ReaderProps
  imports StreamRegistry
begin

text \<open>
  What the reader of \<open>src/Http2ResponseHandler.c\<close> guarantees: split header blocks are put together,
  streams do not disturb each other, a lost connection ends every stream, every stream's callbacks
  keep the discipline of the funnel, and header blocks of unknown streams keep the HPACK table in
  step. The last section states where the reader departs from the protocol.
\<close>

section \<open>A connection with one stream\<close>

definition oneStream :: "(bytes \<times> nat) conn" where
  "oneStream = \<lparr>cn_streams = [Some 5, None],
     cn_store = (\<lambda>p. if p = 5 then Some (emptyStream (Some (buildResponseSink 0 None))) else None), cn_inflightCount = 1,
     cn_streamId = 3, cn_hpackCtx = None, cn_goingAway = False, cn_connError = ERR_NONE, cn_flow = initFlow\<rparr>"

section \<open>Split header blocks\<close>

fun handleStreamFrames :: "'z clientEnv \<Rightarrow> frame list \<Rightarrow> 'z conn \<Rightarrow> 'z hstream \<Rightarrow> ('z conn \<times> 'z hstream) option" where
  "handleStreamFrames env [] cn stream = Some (cn, stream)"
| "handleStreamFrames env (f # fs) cn stream =
     (case handleStreamFrame env f cn stream of
        None \<Rightarrow> None | Some (cn, stream) \<Rightarrow> handleStreamFrames env fs cn stream)"

lemma appendFragment_ok:
  assumes "\<forall>n. ev_alloc env n"
  shows "appendHeaderBlockFragment env b stream = (stream\<lparr>st_headerBlock := st_headerBlock stream @ b\<rparr>, True)"
  using assms by (simp add: appendHeaderBlockFragment_def)

definition continuation :: "32 word \<Rightarrow> byte \<Rightarrow> bytes \<Rightarrow> frame" where
  "continuation i flags b = \<lparr>fr_type = 0x9, fr_flags = flags, fr_streamId = i, fr_payload = b\<rparr>"

definition headersFrame :: "32 word \<Rightarrow> byte \<Rightarrow> bytes \<Rightarrow> frame" where
  "headersFrame i flags b = \<lparr>fr_type = 0x1, fr_flags = flags, fr_streamId = i, fr_payload = b\<rparr>"

lemma continuation_buffers:
  assumes "\<forall>n. ev_alloc env n" "st_awaitingContinuation stream"
  shows "handleStreamFrame env (continuation i 0 b) cn stream = Some (cn, stream\<lparr>st_headerBlock := st_headerBlock stream @ b\<rparr>)"
  using assms by (simp add: handleStreamFrame_def handleFrameBody_def finishFrame_def continuation_def handleContinuation_def appendFragment_ok)

lemma continuations_buffer:
  assumes "\<forall>n. ev_alloc env n"
  shows "st_awaitingContinuation stream \<Longrightarrow>
     handleStreamFrames env (map (continuation i 0) bs @ fs) cn stream
     = handleStreamFrames env fs cn (stream\<lparr>st_headerBlock := st_headerBlock stream @ concat bs\<rparr>)"
proof (induction bs arbitrary: stream)
  case (Cons b bs)
  then show ?case using Cons.IH [of "stream\<lparr>st_headerBlock := st_headerBlock stream @ b\<rparr>"]
    by (simp add: continuation_buffers assms)
qed simp

lemma headersFragment_plain: "flags AND 0x08 = 0 \<Longrightarrow> flags AND 0x20 = 0 \<Longrightarrow> headersFragment flags b = Some b"
  by (simp add: headersFragment_def)

text \<open>C11. Splitting a header block does not matter: a block in one HEADERS frame and the same block cut
  into a HEADERS frame and any CONTINUATION frames leave the same stream (headers, error, callbacks
  made) and the same HPACK table.\<close>

theorem continuation_reassembly:
  assumes "\<forall>n. ev_alloc env n" "cn_hpackCtx cn = Some ctx" "\<not> failed (st_error stream)"
    "st_headerBlock stream = []" "\<not> st_awaitingContinuation stream"
  shows "handleStreamFrames env (headersFrame i 0 b # map (continuation i 0) bs @ [continuation i 0x4 b']) cn stream
    = handleStreamFrames env [headersFrame i 0x4 (b @ concat bs @ b')] cn stream"
proof -
  let ?s = "stream\<lparr>st_headerBlock := b, st_awaitingContinuation := True\<rparr>"
  have first: "handleStreamFrame env (headersFrame i 0 b) cn stream = Some (cn, ?s)"
    using assms
    by (simp add: handleStreamFrame_def handleFrameBody_def finishFrame_def headersFrame_def handleHeadersFrame_def headersFragment_plain appendFragment_ok)
  let ?block = "b @ concat bs @ b'"
  have restore: "stream\<lparr>st_headerBlock := [], st_awaitingContinuation := False, st_headers := h, st_error := e\<rparr>
      = stream\<lparr>st_headers := h, st_error := e\<rparr>" for h e
    using assms(4,5) by simp
  obtain s' c' where d: "decodeInto env ?block ctx stream = (s', c')" by fastforce
  have d': "decodeInto env ?block ctx (stream\<lparr>st_headerBlock := ?block, st_awaitingContinuation := False\<rparr>)
      = (s'\<lparr>st_headerBlock := ?block, st_awaitingContinuation := False\<rparr>, c')"
    using d by (auto simp: decodeInto_def Let_def)
  have s': "st_headerBlock s' = []" "\<not> st_awaitingContinuation s'" using d assms(4,5) by (auto simp: decodeInto_def Let_def)
  have same: "s'\<lparr>st_awaitingContinuation := False, st_headerBlock := []\<rparr> = s'" using s' by simp
  have last: "handleStreamFrame env (continuation i 0x4 b') cn (?s\<lparr>st_headerBlock := b @ concat bs\<rparr>)
      = handleStreamFrame env (headersFrame i 0x4 ?block) cn stream"
    using assms d d' s'
    by (simp add: same handleStreamFrame_def handleFrameBody_def finishFrame_def continuation_def headersFrame_def handleContinuation_def handleHeadersFrame_def
        headersFragment_plain appendFragment_ok)
  show ?thesis using continuations_buffer [OF assms(1), of ?s i bs "[continuation i 0x4 b']" cn] first last by simp
qed

lemma continuation_reassembly_witness:
  "let cn = oneStream\<lparr>cn_hpackCtx := Some \<lparr>dynamicTable = [], dynamicTableCapacity = 8, dynamicTableMaxSize = 4096\<rparr>\<rparr>;
       s = emptyStream None
   in handleStreamFrames (roomyEnv runLib)
        (headersFrame 1 0 [0x88, 0x40] # map (continuation 1 0) [[1, 0x61], []] @ [continuation 1 0x4 [1, 0x62]]) cn s
    = handleStreamFrames (roomyEnv runLib) [headersFrame 1 0x4 ([0x88, 0x40] @ concat [[1, 0x61], []] @ [1, 0x62])] cn s"
  unfolding Let_def
  by (rule continuation_reassembly
      [where ctx = "\<lparr>dynamicTable = [], dynamicTableCapacity = 8, dynamicTableMaxSize = 4096\<rparr>"])
    (simp_all add: emptyStream_def roomyEnv_def failed_def ERR_NONE_def)

section \<open>Isolation\<close>

lemma completeResponseSink_ended [simp]: "st_isEnded (completeResponseSink s) = st_isEnded s"
  by (simp add: completeResponseSink_def Let_def split: option.splits)

lemma failStream_idem [simp]: "failStream onlyPending e (failStream onlyPending e s) = failStream onlyPending e s"
  by (simp add: failStream_def)

lemma failStream_twice [simp]:
  "map_option (failStream onlyPending e) (map_option (failStream onlyPending e) x) = map_option (failStream onlyPending e) x"
  by (cases x) simp_all

lemma failStream_fold:
  "fold (\<lambda>slot cn. case slot of None \<Rightarrow> cn
             | Some p \<Rightarrow> cn\<lparr>cn_store := (cn_store cn)(p := map_option (failStream onlyPending (cn_connError cn)) (cn_store cn p))\<rparr>)
       slots cn
   = cn\<lparr>cn_store := (\<lambda>p. if p \<in> set (occupants slots)
                         then map_option (failStream onlyPending (cn_connError cn)) (cn_store cn p) else cn_store cn p)\<rparr>"
proof (induction slots arbitrary: cn)
  case Nil
  then show ?case by simp
next
  case (Cons slot slots)
  show ?case
  proof (cases slot)
    case None
    then show ?thesis using Cons.IH by simp
  next
    case (Some q)
    show ?thesis using Cons.IH Some by (auto simp: fun_eq_iff intro!: arg_cong [of _ _ "\<lambda>st. cn\<lparr>cn_store := st\<rparr>"])
  qed
qed

lemma failAllStreams_store:
  "failAllStreams onlyPending cn
   = cn\<lparr>cn_store := (\<lambda>p. if p \<in> set (occupants (cn_streams cn))
                         then map_option (failStream onlyPending (cn_connError cn)) (cn_store cn p) else cn_store cn p)\<rparr>"
  unfolding failAllStreams_def by (rule failStream_fold)

definition sinkCompleted :: "'z hstream \<Rightarrow> bool" where
  "sinkCompleted s = (case st_sink s of None \<Rightarrow> True | Some sink \<Rightarrow> sk_completed sink)"

lemma completeResponseSink_completed [simp]: "sinkCompleted (completeResponseSink s)"
  by (simp add: completeResponseSink_def Let_def sinkCompleted_def record_event_def split: option.splits)

lemma completeResponseSink_error [simp]: "st_error (completeResponseSink s) = st_error s"
  by (simp add: completeResponseSink_def Let_def split: option.splits)

text \<open>C14. Losing the connection wakes everybody: every registered stream that was not ended is ended
  with the connection's error (or the general one), its \<open>onComplete\<close> is made, streams that had
  ended keep their result, and the session is not reused; streams off the registry are untouched.\<close>

theorem connection_loss_ends_streams:
  fixes e :: "error option"
  assumes "cn_store cn p = Some s"
  defines "cn' \<equiv> readerLost e cn"
  shows "cn_goingAway cn' \<and>
    (if p \<in> set (occupants (cn_streams cn)) \<and> \<not> st_isEnded s
     then (\<exists>s'. cn_store cn' p = Some s' \<and> st_isEnded s' \<and> sinkCompleted s' \<and> failed (st_error s')
            \<and> st_error s' = (case e of Some e' \<Rightarrow> if failed e' then e' else ERR_RESPONSE_READING_CONNECTION_ERROR
                             | None \<Rightarrow> if failed (cn_connError cn) then cn_connError cn else ERR_RESPONSE_READING_CONNECTION_ERROR))
     else cn_store cn' p = Some s)"
  using assms(1) by (auto simp: cn'_def readerLost_def failAllStreams_store failStream_def split: option.splits)

text \<open>
  A stream shared by two requests' worth of frames, one finished and one waiting, when the
  connection dies.
\<close>

lemma connection_loss_ends_streams_witness:
  "let cn = \<lparr>cn_streams = [Some 5, None], cn_store = (\<lambda>p. if p = 5 then Some scratchStream else None), cn_inflightCount = 1,
             cn_streamId = 3, cn_hpackCtx = None, cn_goingAway = False, cn_connError = ERR_NONE, cn_flow = initFlow\<rparr>
            :: (bytes \<times> nat) conn
   in \<exists>s'. cn_store (readerLost None cn) 5 = Some s' \<and> st_isEnded s' \<and> st_error s' = ERR_RESPONSE_READING_CONNECTION_ERROR"
  using connection_loss_ends_streams [of "\<lparr>cn_streams = [Some 5, None], cn_store = (\<lambda>p. if p = 5 then Some scratchStream else None),
      cn_inflightCount = 1, cn_streamId = 3, cn_hpackCtx = None, cn_goingAway = False, cn_connError = ERR_NONE, cn_flow = initFlow\<rparr>"
      5 "scratchStream :: (bytes \<times> nat) hstream" None]
  by (auto simp: scratchStream_def)

section \<open>What a frame touches\<close>

lemma handleRST_frame:
  "handleRST_STREAMFrame payload cn s = (cn', s') \<Longrightarrow>
     cn_streams cn' = cn_streams cn \<and> cn_store cn' = cn_store cn \<and> cn_flow cn' = cn_flow cn \<and> cn_hpackCtx cn' = cn_hpackCtx cn
     \<and> st_sink s' = st_sink s"
  by (auto simp: handleRST_STREAMFrame_def Let_def split: if_splits)

lemma handleGoAway_frame [simp]:
  "cn_streams (handleGoAwayFrame payload cn) = cn_streams cn" "cn_store (handleGoAwayFrame payload cn) = cn_store cn"
  "cn_flow (handleGoAwayFrame payload cn) = cn_flow cn" "cn_hpackCtx (handleGoAwayFrame payload cn) = cn_hpackCtx cn"
  by (simp_all add: handleGoAwayFrame_def Let_def)

lemma handleStreamFrame_frame:
  assumes "handleStreamFrame env f cn s = Some (cn', s')"
  shows "cn_streams cn' = cn_streams cn" "cn_store cn' = cn_store cn" "cn_flow cn' = cn_flow cn"
  using assms
  by (auto simp: handleStreamFrame_def handleFrameBody_def finishFrame_def Let_def dest!: handleRST_frame split: if_splits option.splits prod.splits)

lemma handleNull_frame [simp]:
  "cn_streams (handleNullStreamFrame env f cn) = cn_streams cn" "cn_store (handleNullStreamFrame env f cn) = cn_store cn"
  "cn_flow (handleNullStreamFrame env f cn) = cn_flow cn"
  by (simp_all add: handleNullStreamFrame_def)

lemma onFlow_frame [simp]:
  "cn_streams (onFlow g cn) = cn_streams cn" "cn_store (onFlow g cn) = cn_store cn" "cn_hpackCtx (onFlow g cn) = cn_hpackCtx cn"
  "cn_goingAway (onFlow g cn) = cn_goingAway cn" "cn_connError (onFlow g cn) = cn_connError cn" "cn_flow (onFlow g cn) = g (cn_flow cn)"
  by (simp_all add: onFlow_def)

text \<open>What a GOAWAY does to a stream: only those without a response header fail, whatever the last
  stream identifier of the frame says.\<close>

lemma goAway_store:
  assumes "fr_type f = 0x7" "readerDispatch env f cn = Some cn'"
  shows "cn_streams cn' = cn_streams cn" "cn_flow cn' = cn_flow cn" "cn_connError cn' = cn_connError (handleGoAwayFrame (fr_payload f) cn)"
    "cn_store cn' p = (if p \<in> set (occupants (cn_streams cn))
       then map_option (failStream True (cn_connError cn')) (cn_store cn p) else cn_store cn p)"
  using assms by (auto simp: readerDispatch_def isStreamFrame_def handleNullStreamFrame_def failAllStreams_store Let_def)

lemma failStream_ends:
  "\<not> st_isEnded s \<Longrightarrow> numHeaders s = 0 \<Longrightarrow>
     st_isEnded (failStream True e s) \<and> sinkCompleted (failStream True e s) \<and> failed (st_error (failStream True e s))
     \<and> st_error (failStream True e s) = (if failed e then e else ERR_RESPONSE_READING_CONNECTION_ERROR)"
  by (simp add: failStream_def)

lemma failStream_keeps: "st_isEnded s \<or> numHeaders s \<noteq> 0 \<Longrightarrow> failStream True e s = s"
  by (auto simp: failStream_def)

text \<open>C26. Streams are isolated: a frame changes no stream but the one it is routed to, and a frame for
  a stream that is not registered changes no stream and queues nothing. The exception is GOAWAY, which
  ends exactly the registered streams that have neither ended nor received a header: with the error of
  the connection and their last callback; every other stream it leaves as it was.\<close>

theorem dispatch_isolates_streams:
  assumes "readerDispatch env f cn = Some cn'" "\<not> isStreamFrame f \<or> findStream cn (fr_streamId f) \<noteq> Some p"
  shows "cn_streams cn' = cn_streams cn
    \<and> (if fr_type f = 0x7 \<and> p \<in> set (occupants (cn_streams cn))
          \<and> (\<exists>s. cn_store cn p = Some s \<and> \<not> st_isEnded s \<and> numHeaders s = 0)
       then (\<exists>s'. cn_store cn' p = Some s' \<and> st_isEnded s' \<and> sinkCompleted s' \<and> failed (st_error s')
              \<and> st_error s' = (if failed (cn_connError cn') then cn_connError cn' else ERR_RESPONSE_READING_CONNECTION_ERROR))
       else cn_store cn' p = cn_store cn p)
    \<and> (isStreamFrame f \<and> findStream cn (fr_streamId f) = None \<longrightarrow> cn_store cn' = cn_store cn \<and> cn_flow cn' = cn_flow cn)"
proof (cases "fr_type f = 0x7")
  case True
  note g = goAway_store [OF True assms(1)]
  have none: "\<not> isStreamFrame f" using True by (simp add: isStreamFrame_def)
  show ?thesis
  proof (cases "p \<in> set (occupants (cn_streams cn))")
    case False
    then show ?thesis using g(1) g(4) [of p] none by simp
  next
    case member: True
    then have st: "cn_store cn' p = map_option (failStream True (cn_connError cn')) (cn_store cn p)" using g(4) [of p] by simp
    show ?thesis
    proof (cases "cn_store cn p")
      case None
      then show ?thesis using g(1) st none by simp
    next
      case (Some s)
      show ?thesis
      proof (cases "\<not> st_isEnded s \<and> numHeaders s = 0")
        case True
        then show ?thesis
          using g(1) st none member Some \<open>fr_type f = 0x7\<close> failStream_ends [of s "cn_connError cn'"] by simp
      next
        case False
        then show ?thesis using g(1) st none member Some failStream_keeps [of s] by simp
      qed
    qed
  qed
next
  case other: False
  have "cn_streams cn' = cn_streams cn \<and> cn_store cn' p = cn_store cn p
    \<and> (isStreamFrame f \<and> findStream cn (fr_streamId f) = None \<longrightarrow> cn_store cn' = cn_store cn \<and> cn_flow cn' = cn_flow cn)"
  proof (cases "isStreamFrame f")
    case False
    then show ?thesis using assms other by (auto simp: readerDispatch_def Let_def split: if_splits)
  next
    case True
    show ?thesis
    proof (cases "findStream cn (fr_streamId f)")
      case None
      then show ?thesis using assms True other by (auto simp: readerDispatch_def Let_def)
    next
      case (Some q)
      obtain c s where h: "handleStreamFrame env f cn (the (cn_store cn q)) = Some (c, s)"
        using assms(1) True Some by (auto simp: readerDispatch_def Let_def split: option.splits)
      have "p \<noteq> q" using assms(2) True Some by simp
      then show ?thesis using assms(1) True Some h handleStreamFrame_frame [OF h]
        by (auto simp: readerDispatch_def Let_def split: prod.splits if_splits)
    qed
  qed
  then show ?thesis using other by simp
qed

definition twoStreams :: "(bytes \<times> nat) conn" where
  "twoStreams = oneStream\<lparr>cn_streams := [Some 5, Some 6],
     cn_store := (cn_store oneStream)(6 \<mapsto> (emptyStream None)\<lparr>st_streamId := 3\<rparr>)\<rparr>"

lemma dispatch_isolates_streams_witness:
  "(\<exists>cn'. readerDispatch (roomyEnv runLib) \<lparr>fr_type = 0x3, fr_flags = 0, fr_streamId = 3, fr_payload = [0, 0, 0, 8]\<rparr> twoStreams = Some cn'
     \<and> cn_store cn' 5 = cn_store twoStreams 5)
   \<and> (\<exists>cn' s'. readerDispatch (roomyEnv runLib) \<lparr>fr_type = 0x7, fr_flags = 0, fr_streamId = 0, fr_payload = [0, 0, 0, 3, 0, 0, 0, 0]\<rparr> twoStreams = Some cn'
     \<and> cn_store cn' 5 = Some s' \<and> st_isEnded s')"
proof
  let ?f = "\<lparr>fr_type = 0x3, fr_flags = 0, fr_streamId = 3, fr_payload = [0, 0, 0, 8]\<rparr>"
  have find: "findStream twoStreams 3 = Some 6" by (simp add: findStream_def twoStreams_def oneStream_def emptyStream_def)
  then have "readerDispatch (roomyEnv runLib) ?f twoStreams \<noteq> None"
    by (auto simp: readerDispatch_def isStreamFrame_def handleStreamFrame_def handleFrameBody_def Let_def split: prod.splits)
  then obtain cn' where "readerDispatch (roomyEnv runLib) ?f twoStreams = Some cn'" by auto
  then show "\<exists>cn'. readerDispatch (roomyEnv runLib) ?f twoStreams = Some cn' \<and> cn_store cn' 5 = cn_store twoStreams 5"
    using dispatch_isolates_streams [of "roomyEnv runLib" ?f twoStreams cn' 5] find by simp
next
  let ?g = "\<lparr>fr_type = 0x7, fr_flags = 0, fr_streamId = 0, fr_payload = [0, 0, 0, 3, 0, 0, 0, 0]\<rparr>"
  obtain cn' where d: "readerDispatch (roomyEnv runLib) ?g twoStreams = Some cn'"
    by (simp add: readerDispatch_def isStreamFrame_def Let_def)
  then show "\<exists>cn' s'. readerDispatch (roomyEnv runLib) ?g twoStreams = Some cn' \<and> cn_store cn' 5 = Some s' \<and> st_isEnded s'"
    using dispatch_isolates_streams [OF d, of 5] by (auto simp: isStreamFrame_def twoStreams_def oneStream_def emptyStream_def numHeaders_def)
qed

section \<open>The reader as a run of the funnel\<close>

lemma step_run: "funnelStep env s s' \<Longrightarrow> (funnelStep env)\<^sup>*\<^sup>* s s'"
  by (rule r_into_rtranclp)

lemma elsewhere_run: "st_sink s' = st_sink s \<Longrightarrow> (funnelStep env)\<^sup>*\<^sup>* s s'"
  by (rule step_run) (rule funnelStep.elsewhere)

lemma appendFragment_sink: "appendHeaderBlockFragment env b s = (s', ok) \<Longrightarrow> st_sink s' = st_sink s"
  by (auto simp: appendHeaderBlockFragment_def split: if_splits)

lemma decodeInto_sink: "decodeInto env b c s = (s', c') \<Longrightarrow> st_sink s' = st_sink s"
  by (auto simp: decodeInto_def Let_def)

lemma handleHeadersFrame_sink: "handleHeadersFrame env flags payload ctx s = (s', ctx') \<Longrightarrow> st_sink s' = st_sink s"
  by (auto simp: handleHeadersFrame_def headersFailed_def Let_def dest!: appendFragment_sink decodeInto_sink
      split: option.splits if_splits prod.splits bool.splits)

lemma handleContinuation_sink: "handleContinuation env flags payload ctx s = (s', ctx') \<Longrightarrow> st_sink s' = st_sink s"
  by (auto simp: handleContinuation_def Let_def dest!: appendFragment_sink decodeInto_sink
      split: option.splits if_splits prod.splits bool.splits)

lemma handleFrameBody_funnel:
  assumes "handleFrameBody env f cn s = Some (cn', s')"
  shows "(funnelStep env)\<^sup>*\<^sup>* s s'"
proof -
  consider "fr_type f = 0x0" | "fr_type f = 0x1" | "fr_type f = 0x9" | "fr_type f = 0x3" | "fr_type f = 0x7"
    | "fr_type f \<noteq> 0x0" "fr_type f \<noteq> 0x1" "fr_type f \<noteq> 0x9" "fr_type f \<noteq> 0x3" "fr_type f \<noteq> 0x7" by blast
  then show ?thesis
  proof cases
    case 1
    then show ?thesis using assms
      by (auto simp: handleFrameBody_def handleDataFrame_def intro: funnelStep.body [THEN step_run])
  next
    case 2
    then show ?thesis using assms
      by (auto simp: handleFrameBody_def split: prod.splits intro: handleHeadersFrame_sink [THEN elsewhere_run])
  next
    case 3
    then show ?thesis using assms
      by (auto simp: handleFrameBody_def split: prod.splits intro: handleContinuation_sink [THEN elsewhere_run])
  next
    case 4
    then show ?thesis using assms
      by (auto simp: handleFrameBody_def split: prod.splits dest: handleRST_frame intro!: elsewhere_run)
  qed (use assms in \<open>auto simp: handleFrameBody_def\<close>)
qed

lemma finishFrame_funnel: "(funnelStep env)\<^sup>*\<^sup>* s (finishFrame env f s)"
proof -
  have "(funnelStep env)\<^sup>*\<^sup>* s1 (if b then s1\<lparr>st_isEnded := True\<rparr> else s1)" for s1 b
    by (rule elsewhere_run) simp
  moreover have "(funnelStep env)\<^sup>*\<^sup>* s (if b then deliverResponseHeaders env s else s)" for b
    by (auto intro: funnelStep.headers [THEN step_run])
  ultimately show ?thesis unfolding finishFrame_def Let_def by (meson rtranclp_trans)
qed

lemma handleStreamFrame_funnel:
  assumes "handleStreamFrame env f cn s = Some (cn', s')"
  shows "(funnelStep env)\<^sup>*\<^sup>* s s'"
  using assms finishFrame_funnel by (auto simp: handleStreamFrame_def intro: rtranclp_trans dest!: handleFrameBody_funnel)

lemma takeResponseCancellation_frame:
  "takeResponseCancellation s = (s', b) \<Longrightarrow> st_isEnded s' = st_isEnded s \<and> sinkCompleted s' = sinkCompleted s \<and> st_streamId s' = st_streamId s"
  by (auto simp: takeResponseCancellation_def sinkCompleted_def split: option.splits if_splits)

lemma endStreamReading_funnel:
  assumes "endStreamReading type len s = (s', rd)"
  shows "(funnelStep env)\<^sup>*\<^sup>* s s'" "st_isEnded s' \<longrightarrow> sinkCompleted s'"
    "st_isEnded s \<longrightarrow> rd_ended rd" "rd_consumedBytes rd = 0 \<or> rd_consumedBytes rd = len"
proof -
  define s1 where "s1 = (if st_isEnded s then completeResponseSink s else s)"
  have r1: "(funnelStep env)\<^sup>*\<^sup>* s s1" by (auto simp: s1_def intro: funnelStep.complete [THEN step_run])
  obtain s2 b where t: "takeResponseCancellation s1 = (s2, b)" by fastforce
  have r2: "(funnelStep env)\<^sup>*\<^sup>* s1 s2" using funnelStep.cancel [of env s1] t by (auto intro: step_run)
  note f = takeResponseCancellation_frame [OF t]
  have r3: "(funnelStep env)\<^sup>*\<^sup>* s2 (completeResponseSink (s2\<lparr>st_isEnded := True\<rparr>))"
    by (rule rtranclp_trans [OF elsewhere_run [of "s2\<lparr>st_isEnded := True\<rparr>" s2]]) (auto intro: funnelStep.complete [THEN step_run])
  have s': "s' = (if \<not> isResponseStreaming s1 then s1 else if \<not> b then s2
      else if \<not> st_isEnded s then completeResponseSink (s2\<lparr>st_isEnded := True\<rparr>) else s2)"
    using assms t by (auto simp: endStreamReading_def Let_def s1_def split: if_splits bool.splits)
  show "(funnelStep env)\<^sup>*\<^sup>* s s'" using r1 r2 r3 s' by (auto intro: rtranclp_trans)
  show "st_isEnded s' \<longrightarrow> sinkCompleted s'" using s' f by (auto simp: s1_def)
  show "st_isEnded s \<longrightarrow> rd_ended rd" "rd_consumedBytes rd = 0 \<or> rd_consumedBytes rd = len"
    using assms t by (auto simp: endStreamReading_def Let_def s1_def split: if_splits bool.splits)
qed

lemma failStream_funnel: "(funnelStep env)\<^sup>*\<^sup>* s (failStream onlyPending e s)"
proof -
  let ?s = "s\<lparr>st_error := (if failed e then e else ERR_RESPONSE_READING_CONNECTION_ERROR), st_isEnded := True\<rparr>"
  have "(funnelStep env)\<^sup>*\<^sup>* s ?s" by (rule elsewhere_run) simp
  then have "(funnelStep env)\<^sup>*\<^sup>* s (completeResponseSink ?s)"
    by (rule rtranclp_trans) (rule step_run, rule funnelStep.complete)
  then show ?thesis by (simp add: failStream_def)
qed

definition endedOk :: "'z hstream \<Rightarrow> bool" where
  "endedOk s \<longleftrightarrow> (st_isEnded s \<longrightarrow> sinkCompleted s)"

text \<open>
  One dispatched frame, on one stream: a run of funnel steps, after which an ended stream has made
  its last callback.
\<close>

lemma dispatch_stream:
  assumes d: "readerDispatch env f cn = Some cn'" and s: "cn_store cn p = Some s" and e: "endedOk s"
  shows "\<exists>s'. cn_store cn' p = Some s' \<and> (funnelStep env)\<^sup>*\<^sup>* s s' \<and> endedOk s'"
proof (cases "isStreamFrame f")
  case True
  show ?thesis
  proof (cases "findStream cn (fr_streamId f)")
    case None
    then show ?thesis using assms True by (auto simp: readerDispatch_def Let_def)
  next
    case (Some q)
    obtain c s1 where h: "handleStreamFrame env f cn (the (cn_store cn q)) = Some (c, s1)"
      using d True Some by (auto simp: readerDispatch_def Let_def split: option.splits)
    obtain s2 rd where r: "endStreamReading (fr_type f) (word_of_nat (length (fr_payload f))) s1 = (s2, rd)" by fastforce
    have "cn_store cn' = (cn_store c)(q \<mapsto> s2)"
      using d True Some h r by (auto simp: readerDispatch_def Let_def split: if_splits)
    then have st: "cn_store cn' = (cn_store cn)(q \<mapsto> s2)" using handleStreamFrame_frame [OF h] by simp
    show ?thesis
    proof (cases "p = q")
      case True
      have "(funnelStep env)\<^sup>*\<^sup>* s s2"
        using handleStreamFrame_funnel [OF h] endStreamReading_funnel(1) [OF r, of env] s True by (auto intro: rtranclp_trans)
      then show ?thesis using st True endStreamReading_funnel(2) [OF r] by (simp add: endedOk_def)
    next
      case False
      then show ?thesis using st s e by auto
    qed
  qed
next
  case False
  let ?c = "cn_connError (handleNullStreamFrame env f cn)"
  have "cn_store cn' p = Some s \<or> cn_store cn' p = Some (failStream True ?c s)"
    using d s False by (auto simp: readerDispatch_def Let_def failAllStreams_store split: if_splits)
  moreover have "endedOk (failStream True c s)" for c using e by (simp add: endedOk_def failStream_def)
  ultimately show ?thesis using e failStream_funnel by blast
qed

lemma dispatchAll_stream:
  "dispatchAll env fs cn = Some cn' \<Longrightarrow> cn_store cn p = Some s \<Longrightarrow> endedOk s \<Longrightarrow>
     \<exists>s'. cn_store cn' p = Some s' \<and> (funnelStep env)\<^sup>*\<^sup>* s s' \<and> endedOk s'"
proof (induction fs arbitrary: cn s)
  case Nil
  then show ?case by auto
next
  case (Cons f fs)
  obtain c where c: "readerDispatch env f cn = Some c" "dispatchAll env fs c = Some cn'"
    using Cons.prems(1) by (auto split: option.splits)
  from dispatch_stream [OF c(1) Cons.prems(2,3)] obtain s1 where
    "cn_store c p = Some s1" "(funnelStep env)\<^sup>*\<^sup>* s s1" "endedOk s1" by blast
  with Cons.IH [OF c(2)] show ?case by (meson rtranclp_trans)
qed

text \<open>C6. The reader refines the funnel: whatever frames a batch holds (interleaved streams, GOAWAY,
  malformed or unexpected ones), what it does to a registered stream is a run of the funnel's
  steps, so its callbacks keep the discipline of the contract, and a stream that is ended after
  the batch has made its \<open>onComplete\<close>.\<close>

theorem reader_keeps_discipline:
  assumes "dispatchAll env fs cn = Some cn'" "cn_store cn p = Some s"
    and "streamTraceOk s" "st_isEnded s \<longrightarrow> sinkCompleted s"
  shows "\<exists>s'. cn_store cn' p = Some s' \<and> (funnelStep env)\<^sup>*\<^sup>* s s' \<and> streamTraceOk s' \<and> (st_isEnded s' \<longrightarrow> sinkCompleted s')"
  using dispatchAll_stream [OF assms(1,2)] funnelRun_trace assms(3,4) unfolding endedOk_def by blast

lemma reader_keeps_discipline_witness:
  "\<exists>cn' s'. dispatchAll (roomyEnv runLib) [\<lparr>fr_type = 0, fr_flags = 1, fr_streamId = 1, fr_payload = [7, 8]\<rparr>] oneStream = Some cn'
    \<and> cn_store cn' 5 = Some s' \<and> streamTraceOk s' \<and> (st_isEnded s' \<longrightarrow> sinkCompleted s')"
proof -
  let ?f = "\<lparr>fr_type = 0, fr_flags = 1, fr_streamId = 1, fr_payload = [7, 8]\<rparr>"
  let ?s = "emptyStream (Some (buildResponseSink 0 None)) :: (bytes \<times> nat) hstream"
  have "findStream oneStream 1 = Some 5" by (simp add: findStream_def oneStream_def emptyStream_def)
  moreover have "cn_store oneStream 5 = Some ?s" by (simp add: oneStream_def)
  moreover have "appendStreamPayload (roomyEnv runLib) ?s [7, 8] \<noteq> None"
    by (subst append_collecting [of _ "buildResponseSink 0 None"])
      (simp_all add: emptyStream_def roomyEnv_def, simp_all add: buildResponseSink_def)
  ultimately have "readerDispatch (roomyEnv runLib) ?f oneStream \<noteq> None"
    by (auto simp: readerDispatch_def isStreamFrame_def handleStreamFrame_def handleFrameBody_def handleDataFrame_def Let_def
        split: prod.splits)
  then obtain cn' where "dispatchAll (roomyEnv runLib) [?f] oneStream = Some cn'" by (auto split: option.splits)
  moreover have "cn_store oneStream 5 = Some ?s" by (simp add: oneStream_def)
  ultimately show ?thesis
    using reader_keeps_discipline [of "roomyEnv runLib" "[?f]" oneStream cn' 5 ?s]
    by (auto simp: streamTraceOk_def emptyStream_def)
qed

section \<open>Header blocks of unknown streams\<close>

text \<open>The decoder's choices depend on the table only; the header list matters at its limit.\<close>

lemma decodeIndexed_cong:
  assumes "dc_ctx e = dc_ctx d" shows "decodeIndexed payload pos len e = decodeIndexed payload pos len d"
  unfolding decodeIndexed_def assms by (rule refl)

lemma decodeLiteral_cong:
  assumes "dc_ctx e = dc_ctx d" shows "decodeLiteral k payload pos len e = decodeLiteral k payload pos len d"
  unfolding decodeLiteral_def assms by (rule refl)

lemma addHeader_ctx: "dc_ctx e = dc_ctx d \<Longrightarrow> dc_ctx (addHeader alloc h e) = dc_ctx (addHeader alloc h d)"
  "dc_headers (addHeader alloc h d) = dc_headers d"
  by (simp_all add: addHeader_def split: prod.splits option.splits)

lemma storeHeader_scratch:
  assumes "storeHeader h d = (d', go)" "dc_headers d = Some hs" "storeHeader h e = (e', go')" "dc_headers e = None"
  shows "dc_ctx d' = dc_ctx d \<and> dc_ctx e' = dc_ctx e \<and> dc_headers e' = None \<and> go'
    \<and> (\<exists>hs'. dc_headers d' = Some hs' \<and> length hs \<le> length hs' \<and> (go \<or> length hs' \<ge> RESPONSE_HEADERS_MAX_SIZE))"
  using assms by (auto simp: storeHeader_def split: if_splits)

lemma decodeField_scratch:
  assumes d: "decodeField alloc payload pos len d = (d', pos1, go)" "dc_headers d = Some hs"
    and e: "decodeField alloc payload pos len e = (e', pos2, go')" "dc_headers e = None" and c: "dc_ctx e = dc_ctx d"
  shows "dc_ctx e' = dc_ctx d' \<and> dc_headers e' = None \<and> pos2 = pos1
    \<and> (\<exists>hs'. dc_headers d' = Some hs' \<and> length hs \<le> length hs' \<and> (go' = go \<or> length hs' \<ge> RESPONSE_HEADERS_MAX_SIZE))"
proof -
  note cong = decodeIndexed_cong [OF c, of payload pos len] decodeLiteral_cong [OF c, of _ payload pos len]
  consider "payload ! pos AND 0xE0 = 0x20" | "payload ! pos AND 0xE0 \<noteq> 0x20" "payload ! pos AND 0x80 \<noteq> 0"
    | "payload ! pos AND 0xE0 \<noteq> 0x20" "payload ! pos AND 0x80 = 0" "payload ! pos AND 0x40 \<noteq> 0"
    | "payload ! pos AND 0xE0 \<noteq> 0x20" "payload ! pos AND 0x80 = 0" "payload ! pos AND 0x40 = 0" by blast
  then show ?thesis
  proof cases
    case 1
    then show ?thesis using assms by (auto simp: decodeField_def decodeSizeUpdate_def Let_def split: prod.splits)
  next
    case 2
    then show ?thesis using assms
      by (auto simp: decodeField_def cong decodingFailed_def Let_def split: prod.splits option.splits
          dest: storeHeader_scratch [OF _ d(2) _ e(2)])
  next
    case 3
    have h: "dc_headers (addHeader alloc h d) = Some hs" "dc_headers (addHeader alloc h e) = None" for h
      using d(2) e(2) by (simp_all add: addHeader_ctx)
    show ?thesis using 3 assms addHeader_ctx(1) [OF c, of alloc]
      by (auto simp: decodeField_def cong decodingFailed_def Let_def split: prod.splits option.splits
          dest: storeHeader_scratch [OF _ h(1) _ h(2)])
  next
    case 4
    then show ?thesis using assms
      by (auto simp: decodeField_def cong decodingFailed_def Let_def split: prod.splits option.splits
          dest: storeHeader_scratch [OF _ d(2) _ e(2)])
  qed
qed

lemma decodeFields_grow:
  "dc_headers d = Some hs \<Longrightarrow> \<exists>hs'. dc_headers (decodeFields alloc payload pos len d) = Some hs' \<and> length hs \<le> length hs'"
proof (induction alloc payload pos len d arbitrary: hs rule: decodeFields.induct)
  case (1 alloc payload pos len d)
  show ?case
  proof (cases "pos < len")
    case False
    then show ?thesis using "1.prems" by (subst decodeFields.simps) simp
  next
    case True
    obtain d' pos1 go where f: "decodeField alloc payload pos len d = (d', pos1, go)" using prod_cases3 by blast
    obtain e' pos2 go' where g: "decodeField alloc payload pos len (d\<lparr>dc_headers := None\<rparr>) = (e', pos2, go')"
      using prod_cases3 by blast
    obtain hs' where hs': "dc_headers d' = Some hs'" "length hs \<le> length hs'"
      using decodeField_scratch [OF f "1.prems" g] by auto
    show ?thesis
    proof (cases go)
      case go: True
      then obtain hs2 where "dc_headers (decodeFields alloc payload pos1 len d') = Some hs2" "length hs' \<le> length hs2"
        using "1.IH" [OF True f [symmetric] refl _ hs'(1)] by auto
      then show ?thesis using True f go hs' by (subst decodeFields.simps) auto
    next
      case False
      then show ?thesis using True f hs' by (subst decodeFields.simps) auto
    qed
  qed
qed

lemma decodeFields_scratch:
  "dc_headers d = Some hs \<Longrightarrow> dc_headers e = None \<Longrightarrow> dc_ctx e = dc_ctx d \<Longrightarrow>
     dc_headers (decodeFields alloc payload pos len d) = Some hs' \<Longrightarrow> length hs' < RESPONSE_HEADERS_MAX_SIZE \<Longrightarrow>
     dc_ctx (decodeFields alloc payload pos len e) = dc_ctx (decodeFields alloc payload pos len d)"
proof (induction alloc payload pos len d arbitrary: hs e rule: decodeFields.induct)
  case (1 alloc payload pos len d)
  show ?case
  proof (cases "pos < len")
    case False
    then show ?thesis using "1.prems" by (simp add: decodeFields.simps [of alloc payload pos])
  next
    case True
    obtain d' pos1 go where f: "decodeField alloc payload pos len d = (d', pos1, go)" using prod_cases3 by blast
    obtain e' pos2 go' where g: "decodeField alloc payload pos len e = (e', pos2, go')" using prod_cases3 by blast
    from decodeField_scratch [OF f "1.prems"(1) g "1.prems"(2,3)] obtain hs1 where
      s: "dc_ctx e' = dc_ctx d'" "dc_headers e' = None" "pos2 = pos1" "dc_headers d' = Some hs1"
        "go' = go \<or> length hs1 \<ge> RESPONSE_HEADERS_MAX_SIZE" by blast
    have final: "dc_headers (if go then decodeFields alloc payload pos1 len d' else d') = Some hs'"
      using "1.prems"(4) True f by (simp add: decodeFields.simps [of alloc payload pos])
    have "length hs1 \<le> length hs'" using decodeFields_grow [OF s(4), of alloc payload pos1 len] final s(4)
      by (auto split: if_splits)
    then have go: "go' = go" using s(5) "1.prems"(5) by simp
    show ?thesis
    proof (cases go)
      case gg: True
      have "dc_ctx (decodeFields alloc payload pos1 len e') = dc_ctx (decodeFields alloc payload pos1 len d')"
        by (rule "1.IH" [OF True f [symmetric] refl gg s(4) s(2) s(1)]) (use final gg "1.prems"(5) in auto)
      then show ?thesis using True f g go gg s by (simp add: decodeFields.simps [of alloc payload pos])
    next
      case False
      then show ?thesis using True f g go s by (simp add: decodeFields.simps [of alloc payload pos])
    qed
  qed
qed

text \<open>The shared HPACK table stays in step whoever the block is for: an unsplit HEADERS frame for an
  unknown or closed stream moves the table exactly as it would for a registered one, as long as
  the registered one would not reach the limit of 64 headers.\<close>

theorem unknown_stream_keeps_hpack:
  assumes "cn_hpackCtx cn = Some ctx" "flags AND 0x4 \<noteq> 0" "st_headers stream = Some hs"
    and "handleHeadersFrame env flags payload (Some ctx) stream = (stream', ctx')"
    and "st_headers stream' = Some hs'" "length hs' < RESPONSE_HEADERS_MAX_SIZE"
  shows "cn_hpackCtx (handleNullStreamFrame env \<lparr>fr_type = 0x1, fr_flags = flags, fr_streamId = i, fr_payload = payload\<rparr> cn) = ctx'"
proof (cases "headersFragment flags payload")
  case None
  have "ctx' = Some ctx" using assms(4) by (simp add: handleHeadersFrame_def None)
  then show ?thesis unfolding handleNullStreamFrame_def handleHeadersFrame_def assms(1) by (simp add: None)
next
  case (Some block)
  let ?d = "\<lparr>dc_ctx = ctx, dc_headers = st_headers stream, dc_error = st_error stream\<rparr>"
  let ?e = "\<lparr>dc_ctx = ctx, dc_headers = None, dc_error = ERR_NONE\<rparr>"
  have c: "ctx' = Some (dc_ctx (decodeHeadersFrame (ev_alloc env) block ?d))"
    and h: "st_headers stream' = dc_headers (decodeHeadersFrame (ev_alloc env) block ?d)"
    using assms Some by (auto simp: handleHeadersFrame_def decodeInto_def Let_def)
  have "dc_ctx (decodeHeadersFrame (ev_alloc env) block ?e) = dc_ctx (decodeHeadersFrame (ev_alloc env) block ?d)"
  proof (cases "block = []")
    case False
    then show ?thesis using h assms(3,5,6)
        decodeFields_scratch [of "?d\<lparr>dc_headers := Some []\<rparr>" "[]" ?e "ev_alloc env" block 0 "length block" hs']
      by (simp add: decodeHeadersFrame_def)
  qed (simp add: decodeHeadersFrame_def)
  then show ?thesis using assms(1,2) Some c
    by (simp add: handleNullStreamFrame_def handleHeadersFrame_def decodeInto_def Let_def scratchStream_def)
qed

lemma decode_status200:
  "decodeHeadersFrame alloc [0x88] \<lparr>dc_ctx = ctx, dc_headers = Some hs, dc_error = e\<rparr>
   = \<lparr>dc_ctx = ctx, dc_headers = Some [('':status'', ''200'')], dc_error = e\<rparr>"
proof -
  have "decodeField alloc [0x88] 0 1 \<lparr>dc_ctx = ctx, dc_headers = Some [], dc_error = e\<rparr>
      = (\<lparr>dc_ctx = ctx, dc_headers = Some [('':status'', ''200'')], dc_error = e\<rparr>, 1, True)"
    by (simp add: decodeField_def decodeIndexed_def hpackDecodeInteger_def getHeaderFromTable_def storeHeader_def
        responseHeaderStaticTable_def RESPONSE_HEADERS_MAX_SIZE_def)
  then show ?thesis by (simp add: decodeHeadersFrame_def decodeFields.simps [of _ _ 0] decodeFields.simps [of _ _ "Suc 0"])
qed

lemma unknown_stream_keeps_hpack_witness:
  "let ctx = \<lparr>dynamicTable = [(''a'', ''b'')], dynamicTableCapacity = 8, dynamicTableMaxSize = 4096\<rparr>
   in cn_hpackCtx (handleNullStreamFrame (roomyEnv runLib)
        \<lparr>fr_type = 0x1, fr_flags = 0x4, fr_streamId = 9, fr_payload = [0x88]\<rparr> (oneStream\<lparr>cn_hpackCtx := Some ctx\<rparr>)) = Some ctx"
proof -
  let ?ctx = "\<lparr>dynamicTable = [(''a'', ''b'')], dynamicTableCapacity = 8, dynamicTableMaxSize = 4096\<rparr>"
  let ?s = "emptyStream None :: (bytes \<times> nat) hstream"
  have h: "handleHeadersFrame (roomyEnv runLib) 0x4 [0x88] (Some ?ctx) ?s
      = (?s\<lparr>st_headers := Some [('':status'', ''200'')]\<rparr>, Some ?ctx)"
    by (simp add: handleHeadersFrame_def headersFragment_plain decodeInto_def emptyStream_def decode_status200)
  show ?thesis
    using unknown_stream_keeps_hpack [where cn = "oneStream\<lparr>cn_hpackCtx := Some ?ctx\<rparr>" and hs = "[]" and i = 9
        and hs' = "[('':status'', ''200'')]", OF _ _ _ h]
    by (simp add: emptyStream_def RESPONSE_HEADERS_MAX_SIZE_def)
qed

section \<open>Behaviours at odds with the protocol\<close>

text \<open>
  END_STREAM on a HEADERS frame whose block continues: the stream is ended, and its \<open>onComplete\<close>
  made, before the CONTINUATION frames bring the headers.
\<close>

lemma end_stream_before_headers:
  assumes "\<forall>n. ev_alloc env n" "cn_hpackCtx cn = Some ctx"
  shows "\<exists>cn' s'. handleStreamFrame env (headersFrame i 0x1 b) cn s = Some (cn', s') \<and> st_isEnded s' \<and> st_headers s' = st_headers s"
  using assms
  by (auto simp: handleStreamFrame_def handleFrameBody_def finishFrame_def headersFrame_def handleHeadersFrame_def
      headersFragment_plain appendFragment_ok)

text \<open>A second header block on a stream (trailers, or the final block after an interim one) replaces the first.\<close>

lemma trailers_replace_headers:
  "st_headers s = Some hs \<Longrightarrow> b \<noteq> [] \<Longrightarrow> decodeInto env b ctx s = decodeInto env b ctx (s\<lparr>st_headers := Some []\<rparr>)"
  by (simp add: decodeInto_def decodeHeadersFrame_def Let_def)

text \<open>The PADDED flag of a DATA frame is not looked at: pad length and padding reach the body.\<close>

lemma data_padding_kept:
  "handleFrameBody env \<lparr>fr_type = 0x0, fr_flags = 0x8, fr_streamId = i, fr_payload = p\<rparr> cn s
   = handleFrameBody env \<lparr>fr_type = 0x0, fr_flags = 0x0, fr_streamId = i, fr_payload = p\<rparr> cn s"
  by (simp add: handleFrameBody_def)

text \<open>
  A sink whose decoder failed is completed, which releases the decoder, but not aborted: body
  bytes still on their way reach \<open>onData\<close>, undecoded and behind \<open>onComplete\<close>.
\<close>

lemma data_behind_completion:
  assumes "st_sink s = Some sink" "sk_completed sink" "sk_decompressor sink = None" "\<not> sk_aborted sink" "\<not> sk_collecting sink"
    "sk_onData sink = Some f" "\<not> f (sk_events sink) p" "p \<noteq> []"
  shows "\<exists>s' sink'. handleDataFrame env p s = Some s' \<and> st_sink s' = Some sink' \<and> sk_events sink' = sk_events sink @ [EvData p]"
  using append_contract [OF assms(1,3-6,8), of env] assms(7) by (simp add: handleDataFrame_def)

end
