(* ===== verification/Http11Response.thy ===== *)
theory Http11Response
  imports ResponseStream
begin

text \<open>
  The HTTP/1.1 response side, \<open>src/Http11ResponseHandler.c\<close>: a buffered reader over the
  connection, the status line and headers, the body framing (chunked, content-length or until
  close), and the decision whether the connection can be used again.

  The transport is a script of attempts, one per iteration of the loop of \<open>sessionReadTimed\<close>:
  the time, what \<open>SSL_pending\<close> and \<open>select\<close> said and what \<open>SSL_read\<close> or \<open>recv\<close> returned. When
  the script is over, the deadline passes. The result codes are the code's: 1, 0 (end of file),
  -1 (error), -2 (timeout).
\<close>

section \<open>The transport\<close>

definition HTTP11_MAX_HEADER_SECTION :: nat where
  "HTTP11_MAX_HEADER_SECTION = 64 * 1024"

definition HTTP11_READ_CHUNK :: nat where
  "HTTP11_READ_CHUNK = 16384"

datatype selectResult = SelReady | SelTimeout | SelInterrupted | SelFailed

datatype ioResult = IoBytes bytes | IoClosed | IoWantRead | IoWantWrite | IoError nat

record attempt =
  at_now :: "int \<times> int"
  at_pending :: bool
  at_select :: selectResult
  at_io :: ioResult

datatype readRc = ReadBytes bytes | ReadClosed | ReadError | ReadTimeout

definition deadlineRemainingMs :: "int \<times> int \<Rightarrow> int \<times> int \<Rightarrow> int" where
  "deadlineRemainingMs deadline now =
     (fst deadline - fst now) * 1000 +
     (let d = snd deadline - snd now in if d < 0 then - ((- d) div 1000000) else d div 1000000)"

definition EINTR :: nat where "EINTR = 4"
definition EAGAIN :: nat where "EAGAIN = 11"

definition isRetryableSocketError :: "nat \<Rightarrow> bool" where
  "isRetryableSocketError lastError \<longleftrightarrow> lastError = EINTR \<or> lastError = EAGAIN"

text \<open>
  An interrupted \<open>select\<close> and a read that would block start the loop again; of \<open>wantWrite\<close> only
  the set of descriptors waited for depends.
\<close>

fun sessionReadTimed :: "bool \<Rightarrow> int \<times> int \<Rightarrow> attempt list \<Rightarrow> readRc \<times> attempt list" where
  "sessionReadTimed ssl deadline [] = (ReadTimeout, [])"
| "sessionReadTimed ssl deadline (a # as) =
     (let needSelect = (\<not> ssl \<or> \<not> at_pending a) in
      if needSelect \<and> deadlineRemainingMs deadline (at_now a) \<le> 0 then (ReadTimeout, as)
      else (case (if needSelect then at_select a else SelReady) of
              SelTimeout \<Rightarrow> (ReadTimeout, as)
            | SelInterrupted \<Rightarrow> sessionReadTimed ssl deadline as
            | SelFailed \<Rightarrow> (ReadError, as)
            | SelReady \<Rightarrow>
                (case at_io a of
                   IoBytes bs \<Rightarrow> (ReadBytes bs, as)
                 | IoClosed \<Rightarrow> (ReadClosed, as)
                 | IoWantRead \<Rightarrow> sessionReadTimed ssl deadline as
                 | IoWantWrite \<Rightarrow> sessionReadTimed ssl deadline as
                 | IoError e \<Rightarrow> if \<not> ssl \<and> isRetryableSocketError e then sessionReadTimed ssl deadline as
                                else (ReadError, as))))"

lemma sessionReadTimed_shorter:
  "sessionReadTimed ssl deadline net = (rc, net') \<Longrightarrow> length net' \<le> length net \<and> (net \<noteq> [] \<longrightarrow> length net' < length net)
     \<and> (net = [] \<longrightarrow> rc = ReadTimeout)"
  by (induction net arbitrary: rc net') (auto simp: Let_def split: if_splits selectResult.splits ioResult.splits)

lemma sessionReadTimed_bytes: "sessionReadTimed ssl deadline net = (ReadBytes bs, net') \<Longrightarrow> length net' < length net"
  using sessionReadTimed_shorter [of ssl deadline net "ReadBytes bs" net'] by (cases "net = []") auto

section \<open>The buffered reader\<close>

text \<open>
  \<open>hr_buf\<close> holds the first \<open>len\<close> bytes of the buffer; the first \<open>hr_pos\<close> of them are consumed.
  \<open>hr_now\<close> is what \<open>time(NULL)\<close> returns: the second of the last attempt.
\<close>

datatype readerErr = NoErr | ErrFailed | ErrTimeout

fun errCode :: "readerErr \<Rightarrow> int" where
  "errCode NoErr = 0" | "errCode ErrFailed = -1" | "errCode ErrTimeout = -2"

record http11Reader =
  hr_ssl :: bool
  hr_net :: "attempt list"
  hr_buf :: bytes
  hr_pos :: nat
  hr_deadline :: "int \<times> int"
  hr_timeout :: int
  hr_eof :: bool
  hr_err :: readerErr
  hr_now :: int

text \<open>The clock once the script \<open>net\<close> is used up to its rest \<open>net'\<close>.\<close>

definition clockAfter :: "int \<Rightarrow> attempt list \<Rightarrow> attempt list \<Rightarrow> int" where
  "clockAfter now net net' =
     (case rev (take (length net - length net') net) of [] \<Rightarrow> now | a # _ \<Rightarrow> fst (at_now a))"

definition atTime :: "int \<Rightarrow> 'z clientEnv \<Rightarrow> 'z clientEnv" where
  "atTime now env = env\<lparr>ev_now := now\<rparr>"

definition readerFill :: "'z clientEnv \<Rightarrow> 'z hstream \<Rightarrow> http11Reader \<Rightarrow> http11Reader" where
  "readerFill env stream reader =
     (if hr_eof reader \<or> hr_err reader \<noteq> NoErr then reader
      else (let reader = reader\<lparr>hr_buf := drop (hr_pos reader) (hr_buf reader), hr_pos := 0\<rparr>
            in if \<not> ev_alloc env (length (hr_buf reader) + HTTP11_READ_CHUNK + 1) then reader\<lparr>hr_err := ErrFailed\<rparr>
               else (let (rc, net) = sessionReadTimed (hr_ssl reader) (hr_deadline reader) (hr_net reader);
                         reader = reader\<lparr>hr_net := net, hr_now := clockAfter (hr_now reader) (hr_net reader) net\<rparr>
                     in case rc of
                          ReadBytes bs \<Rightarrow>
                            reader\<lparr>hr_buf := hr_buf reader @ bs,
                                   hr_deadline := fst (renewStreamDeadline (hr_now reader) stream (hr_timeout reader) (hr_deadline reader))\<rparr>
                        | ReadClosed \<Rightarrow> reader\<lparr>hr_eof := True\<rparr>
                        | ReadError \<Rightarrow> reader\<lparr>hr_err := ErrFailed\<rparr>
                        | ReadTimeout \<Rightarrow> reader\<lparr>hr_err := ErrTimeout\<rparr>)))"

definition readerEndCode :: "http11Reader \<Rightarrow> int" where
  "readerEndCode reader = errCode (hr_err reader)"

definition readerRunning :: "http11Reader \<Rightarrow> bool" where
  "readerRunning reader \<longleftrightarrow> \<not> hr_eof reader \<and> hr_err reader = NoErr"

definition fillMeasure :: "http11Reader \<Rightarrow> nat" where
  "fillMeasure reader = (if readerRunning reader then Suc (length (hr_net reader)) else 0)"

lemma readerFill_measure: "readerRunning reader \<Longrightarrow> fillMeasure (readerFill env stream reader) < fillMeasure reader"
proof -
  assume run: "readerRunning reader"
  obtain rc net where s: "sessionReadTimed (hr_ssl reader) (hr_deadline reader) (hr_net reader) = (rc, net)" by fastforce
  show ?thesis using run s sessionReadTimed_shorter [OF s]
    by (cases "hr_net reader") (auto simp: readerFill_def readerRunning_def fillMeasure_def Let_def split: readRc.splits)
qed

definition LF :: byte where "LF = 0x0A"
definition CR :: byte where "CR = 0x0D"

text \<open>A line without the CR before its LF; the caller sees it as a C string.\<close>

definition chopCR :: "bytes \<Rightarrow> bytes" where
  "chopCR l = (if l \<noteq> [] \<and> last l = CR then butlast l else l)"

function readerReadLine :: "'z clientEnv \<Rightarrow> 'z hstream \<Rightarrow> http11Reader \<Rightarrow> int \<times> string \<times> http11Reader" where
  "readerReadLine env stream reader =
     (case findIndex (\<lambda>b. b = LF) (drop (hr_pos reader) (hr_buf reader)) of
        Some i \<Rightarrow>
          (let line = chopCR (take i (drop (hr_pos reader) (hr_buf reader)))
           in if \<not> ev_alloc env (length line + 1) then (-1, [], reader)
              else (1, cstr line, reader\<lparr>hr_pos := hr_pos reader + i + 1\<rparr>))
      | None \<Rightarrow>
          if \<not> readerRunning reader then (readerEndCode reader, [], reader)
          else if length (hr_buf reader) \<ge> HTTP11_MAX_HEADER_SECTION then (-1, [], reader)
          else readerReadLine env stream (readerFill env stream reader))"
  by pat_completeness auto
termination
  by (relation "measure (\<lambda>(env, stream, reader). fillMeasure reader)") (auto simp: readerFill_measure)

declare readerReadLine.simps [simp del]

function readerReadBody :: "'z clientEnv \<Rightarrow> 'z hstream \<Rightarrow> http11Reader \<Rightarrow> nat \<Rightarrow> (int \<times> 'z hstream \<times> http11Reader) option" where
  "readerReadBody env stream reader remaining =
     (if remaining = 0 then Some (1, stream, reader)
      else (let avail = drop (hr_pos reader) (hr_buf reader)
            in if avail \<noteq> []
               then (let n = min remaining (length avail)
                     in case appendStreamPayload (atTime (hr_now reader) env) stream (take n avail) of
                          None \<Rightarrow> None
                        | Some (stream, keep) \<Rightarrow>
                            (let reader = reader\<lparr>hr_pos := hr_pos reader + n\<rparr>
                             in if \<not> keep then Some (-1, stream, reader)
                                else readerReadBody env stream reader (remaining - n)))
               else if \<not> readerRunning reader then Some (readerEndCode reader, stream, reader)
               else readerReadBody env stream (readerFill env stream reader) remaining))"
  by pat_completeness auto
termination
  by (relation "(\<lambda>(env, stream, reader, remaining). remaining) <*mlex*> measure (\<lambda>(env, stream, reader, remaining). fillMeasure reader)")
    (auto simp: mlex_iff wf_mlex readerFill_measure)

declare readerReadBody.simps [simp del]

section \<open>Status line and headers\<close>

definition addStreamHeader :: "string \<Rightarrow> string \<Rightarrow> 'z hstream \<Rightarrow> 'z hstream" where
  "addStreamHeader name v stream =
     (if numHeaders stream \<ge> RESPONSE_HEADERS_MAX_SIZE then stream
      else stream\<lparr>st_headers := Some (headerList stream @ [(name, v)])\<rparr>)"

definition streamHeaderValue :: "'z hstream \<Rightarrow> string \<Rightarrow> string option" where
  "streamHeaderValue stream name = map_option snd (List.find (\<lambda>h. strcaseeq (fst h) name) (headerList stream))"

definition trim :: "string \<Rightarrow> string" where
  "trim s = rev (dropWhile isSpace (rev (dropWhile isSpace s)))"

fun containsCI :: "string \<Rightarrow> string \<Rightarrow> string option" where
  "containsCI haystack needle =
     (if length haystack < length needle then None
      else if strcaseeq (take (length needle) haystack) needle then Some haystack
      else (case haystack of [] \<Rightarrow> None | _ # rest \<Rightarrow> containsCI rest needle))"

declare containsCI.simps [simp del]

definition isHttp11StatusLine :: "string \<Rightarrow> bool" where
  "isHttp11StatusLine line = isPrefixOf ''HTTP/1.'' line"

definition copyStatusCode :: "string \<Rightarrow> string" where
  "copyStatusCode digits = takeWhile isDigit (take 3 digits)"

definition parseStatusLine :: "string \<Rightarrow> 'z hstream \<Rightarrow> 'z hstream \<times> int" where
  "parseStatusLine line stream =
     (if \<not> isHttp11StatusLine line then (stream, -1)
      else (let digits = dropWhile isSpace (dropWhile (\<lambda>c. \<not> isSpace c) (drop 7 line));
                statusCode = copyStatusCode digits
            in if length statusCode \<noteq> 3 then (stream, -1)
               else (addStreamHeader '':status'' statusCode stream, fst (strtol 10 statusCode))))"

definition parseHeaderLine :: "string \<Rightarrow> 'z hstream \<Rightarrow> 'z hstream" where
  "parseHeaderLine line stream =
     (case strchr line CHR '':'' of
        None \<Rightarrow> stream
      | Some (name, rest) \<Rightarrow> addStreamHeader (trim name) (trim (tl rest)) stream)"

text \<open>Everything the connection can still deliver: what a successful line read takes a byte of.\<close>

fun netBytes :: "attempt list \<Rightarrow> bytes" where
  "netBytes [] = []"
| "netBytes (a # as) = (case at_io a of IoBytes bs \<Rightarrow> bs | _ \<Rightarrow> []) @ netBytes as"

definition unread :: "http11Reader \<Rightarrow> bytes" where
  "unread reader = drop (hr_pos reader) (hr_buf reader) @ netBytes (hr_net reader)"

lemma sessionReadTimed_unread:
  "sessionReadTimed ssl deadline net = (rc, net') \<Longrightarrow>
     length (case rc of ReadBytes bs \<Rightarrow> bs | _ \<Rightarrow> []) + length (netBytes net') \<le> length (netBytes net)"
  by (induction net arbitrary: rc net')
    (auto simp: Let_def split: if_splits selectResult.splits ioResult.splits intro: le_SucI trans_le_add2)

lemma readerFill_unread: "length (unread (readerFill env stream reader)) \<le> length (unread reader)"
proof -
  obtain rc net where s: "sessionReadTimed (hr_ssl reader) (hr_deadline reader) (hr_net reader) = (rc, net)" by fastforce
  show ?thesis using s sessionReadTimed_unread [OF s]
    by (auto simp: readerFill_def Let_def unread_def split: readRc.splits)
qed

lemma readerEndCode_range [simp]: "readerEndCode reader \<noteq> 1"
  by (cases "hr_err reader") (auto simp: readerEndCode_def)

lemma readerReadLine_unread:
  "readerReadLine env stream reader = (rc, line, reader') \<Longrightarrow>
     length (unread reader') \<le> length (unread reader) \<and> (rc = 1 \<longrightarrow> length (unread reader') < length (unread reader))"
proof (induction env stream reader arbitrary: rc line reader' rule: readerReadLine.induct)
  case (1 env stream reader)
  show ?case
  proof (cases "findIndex (\<lambda>b. b = LF) (drop (hr_pos reader) (hr_buf reader))")
    case None
    show ?thesis
    proof (cases "\<not> readerRunning reader \<or> length (hr_buf reader) \<ge> HTTP11_MAX_HEADER_SECTION")
      case True
      then show ?thesis using None "1.prems" by (auto simp: readerReadLine.simps [of env stream reader] split: if_splits)
    next
      case False
      then have "readerReadLine env stream (readerFill env stream reader) = (rc, line, reader')"
        using None "1.prems" by (simp add: readerReadLine.simps [of env stream reader])
      from "1.IH" [OF None _ _ this] False readerFill_unread [of env stream reader] show ?thesis by auto
    qed
  next
    case (Some i)
    have "i < length (drop (hr_pos reader) (hr_buf reader))" using findIndex_SomeD [OF Some] by blast
    then show ?thesis using Some "1.prems"
      by (auto simp: readerReadLine.simps [of env stream reader] Let_def unread_def split: if_splits)
  qed
qed

lemma readerReadBody_unread:
  "readerReadBody env stream reader n = Some (rc, stream', reader') \<Longrightarrow> length (unread reader') \<le> length (unread reader)"
proof (induction env stream reader n arbitrary: rc stream' reader' rule: readerReadBody.induct)
  case (1 env stream reader n)
  let ?avail = "drop (hr_pos reader) (hr_buf reader)"
  consider "n = 0" | "n > 0" "?avail = []" "\<not> readerRunning reader" | "n > 0" "?avail = []" "readerRunning reader"
    | "n > 0" "?avail \<noteq> []" by blast
  then show ?case
  proof cases
    case 3
    then have "readerReadBody env stream (readerFill env stream reader) n = Some (rc, stream', reader')"
      using "1.prems" by (simp add: readerReadBody.simps [of env stream reader] Let_def)
    from "1.IH" (2) [OF _ refl _ _ this] 3 readerFill_unread [of env stream reader] show ?thesis by auto
  next
    case 4
    let ?n = "min n (length ?avail)"
    obtain s keep where a: "appendStreamPayload (atTime (hr_now reader) env) stream (take ?n ?avail) = Some (s, keep)"
      using 4 "1.prems" by (auto simp: readerReadBody.simps [of env stream reader] Let_def split: option.splits)
    let ?r = "reader\<lparr>hr_pos := hr_pos reader + ?n\<rparr>"
    have u: "length (unread ?r) \<le> length (unread reader)" by (simp add: unread_def)
    show ?thesis
    proof (cases keep)
      case True
      then have r: "readerReadBody env s ?r (n - ?n) = Some (rc, stream', reader')"
        using 4 a "1.prems" by (simp add: readerReadBody.simps [of env stream reader] Let_def del: length_drop)
      have "length (unread reader') \<le> length (unread ?r)"
        by (rule "1.IH" (1) [of ?avail ?n "(s, keep)" s keep ?r]) (use 4 a True r in auto)
      then show ?thesis using u by simp
    next
      case False
      then show ?thesis using 4 a "1.prems" u
        by (auto simp: readerReadBody.simps [of env stream reader] Let_def simp del: length_drop)
    qed
  qed (use "1.prems" in \<open>auto simp: readerReadBody.simps [of env stream reader]\<close>)
qed

text \<open>The loop over the header lines.\<close>

function readHeaderSection :: "'z clientEnv \<Rightarrow> 'z hstream \<Rightarrow> http11Reader \<Rightarrow> int \<times> 'z hstream \<times> http11Reader" where
  "readHeaderSection env stream reader =
     (case readerReadLine env stream reader of
        (lineRc, line, reader) \<Rightarrow>
          if lineRc \<noteq> 1 then (lineRc, stream, reader)
          else if line = [] then (1, stream, reader)
          else readHeaderSection env (parseHeaderLine line stream) reader)"
  by pat_completeness auto
termination
  by (relation "measure (\<lambda>(env, stream, reader). length (unread reader))") (auto dest: sym [THEN readerReadLine_unread])

declare readHeaderSection.simps [simp del]

section \<open>Errors\<close>

definition hasPartialResponse :: "'z hstream \<Rightarrow> bool" where
  "hasPartialResponse stream \<longleftrightarrow> numHeaders stream > 0 \<or> st_combinedPayload stream \<noteq> []"

definition classifyTimeoutError :: "'z hstream \<Rightarrow> error" where
  "classifyTimeoutError stream =
     (if hasPartialResponse stream then ERR_RESPONSE_PARTIAL_CONTENT_AFTER_READING_TIMEOUT
      else ERR_RESPONSE_NO_CONTENT_AFTER_READING_TIMEOUT)"

definition classifyHeadError :: "'z hstream \<Rightarrow> http11Reader \<Rightarrow> int \<Rightarrow> error" where
  "classifyHeadError stream reader statusLineRc =
     (if hr_err reader = ErrTimeout then classifyTimeoutError stream
      else (let cleanEofOnStatusLine = (statusLineRc = 0 \<and> numHeaders stream = 0);
                connectionLost = (hr_err reader = ErrFailed \<or> cleanEofOnStatusLine)
            in if connectionLost then ERR_RESPONSE_READING_CONNECTION_ERROR else ERR_RESPONSE_READING_HTTP11_FAILED))"

definition classifyBodyError :: "int \<Rightarrow> 'z hstream \<Rightarrow> 'z hstream \<times> int" where
  "classifyBodyError rc stream =
     (if rc = 1 \<or> rc = 0 then (stream, rc)
      else (if \<not> failed (st_error stream)
            then stream\<lparr>st_error := (if rc = -2 then classifyTimeoutError stream else ERR_RESPONSE_READING_HTTP11_FAILED)\<rparr>
            else stream, -1))"

definition readResponseHead :: "'z clientEnv \<Rightarrow> 'z hstream \<Rightarrow> http11Reader \<Rightarrow> int \<times> 'z hstream \<times> http11Reader" where
  "readResponseHead env stream reader =
     (let (statusLineRc, statusLine, reader) = readerReadLine env stream reader;
          (stream, status) = (if statusLineRc = 1 then parseStatusLine statusLine stream else (stream, -1));
          parseOk = (statusLineRc = 1 \<and> status \<ge> 0);
          (headerRc, stream, reader) = (if parseOk then readHeaderSection env stream reader else (-1, stream, reader));
          parseOk = (parseOk \<and> headerRc = 1)
      in if \<not> parseOk then (-1, stream\<lparr>st_error := classifyHeadError stream reader statusLineRc\<rparr>, reader)
         else (status, stream, reader))"

section \<open>The body\<close>

definition isBodylessStatus :: "int \<Rightarrow> bool" where
  "isBodylessStatus statusCode \<longleftrightarrow> statusCode = 204 \<or> statusCode = 304 \<or> (100 \<le> statusCode \<and> statusCode < 200)"

definition isTrailerEnd :: "string \<Rightarrow> bool" where
  "isTrailerEnd line \<longleftrightarrow> line = []"

function skipTrailers :: "'z clientEnv \<Rightarrow> 'z hstream \<Rightarrow> http11Reader \<Rightarrow> int \<times> http11Reader" where
  "skipTrailers env stream reader =
     (case readerReadLine env stream reader of
        (trailerRc, trailer, reader) \<Rightarrow>
          if trailerRc \<noteq> 1 then (trailerRc, reader)
          else if isTrailerEnd trailer then (1, reader)
          else skipTrailers env stream reader)"
  by pat_completeness auto
termination
  by (relation "measure (\<lambda>(env, stream, reader). length (unread reader))") (auto dest: sym [THEN readerReadLine_unread])

declare skipTrailers.simps [simp del]

text \<open>
  The size of a chunk: the text before a semicolon, in hexadecimal. \<open>strtol\<close> sets \<open>endPtr\<close>
  always, so a line is malformed only when its value is negative.
\<close>

definition chunkSizeOf :: "string \<Rightarrow> int" where
  "chunkSizeOf sizeLine =
     fst (strtol 16 (trim (case strchr sizeLine CHR '';'' of None \<Rightarrow> sizeLine | Some (before, _) \<Rightarrow> before)))"

function readChunkedBody :: "'z clientEnv \<Rightarrow> 'z hstream \<Rightarrow> http11Reader \<Rightarrow> (int \<times> 'z hstream \<times> http11Reader) option" where
  "readChunkedBody env stream reader =
     (case readerReadLine env stream reader of
        (lineRc, sizeLine, reader) \<Rightarrow>
          if lineRc \<noteq> 1 then Some (lineRc, stream, reader)
          else if chunkSizeOf sizeLine < 0 then Some (-1, stream, reader)
          else if chunkSizeOf sizeLine = 0 then
            (case skipTrailers env stream reader of (rc, reader) \<Rightarrow> Some (rc, stream, reader))
          else (case readerReadBody env stream reader (nat (chunkSizeOf sizeLine)) of
                  None \<Rightarrow> None
                | Some (dataRc, stream, reader) \<Rightarrow>
                    if dataRc \<noteq> 1 then Some (dataRc, stream, reader)
                    else (case readerReadLine env stream reader of
                            (crlfRc, crlf, reader) \<Rightarrow>
                              if crlfRc \<noteq> 1 then Some (crlfRc, stream, reader)
                              else readChunkedBody env stream reader)))"
  by pat_completeness auto
termination
  by (relation "measure (\<lambda>(env, stream, reader). length (unread reader))")
    (auto dest!: sym [THEN readerReadLine_unread] readerReadBody_unread)

declare readChunkedBody.simps [simp del]

definition readContentLengthBody :: "'z clientEnv \<Rightarrow> 'z hstream \<Rightarrow> http11Reader \<Rightarrow> int \<Rightarrow> (int \<times> 'z hstream \<times> http11Reader) option" where
  "readContentLengthBody env stream reader bodyLen =
     (if bodyLen = 0 then Some (1, stream, reader) else readerReadBody env stream reader (nat bodyLen))"

text \<open>Reads the connection itself: what the buffer of the reader still holds is not looked at.\<close>

function readUntilCloseBody :: "'z clientEnv \<Rightarrow> 'z hstream \<Rightarrow> http11Reader \<Rightarrow> (int \<times> 'z hstream \<times> http11Reader) option" where
  "readUntilCloseBody env stream reader =
     (case sessionReadTimed (hr_ssl reader) (hr_deadline reader) (hr_net reader) of
        (rc, net) \<Rightarrow>
          (let reader = reader\<lparr>hr_net := net, hr_now := clockAfter (hr_now reader) (hr_net reader) net\<rparr>
           in case rc of
                ReadBytes chunk \<Rightarrow>
                  (case appendStreamPayload (atTime (hr_now reader) env) stream chunk of
                     None \<Rightarrow> None
                   | Some (stream, keep) \<Rightarrow>
                       if \<not> keep then Some (-1, stream, reader) else readUntilCloseBody env stream reader)
              | ReadClosed \<Rightarrow> Some (0, stream, reader)
              | ReadError \<Rightarrow> Some (-1, stream, reader)
              | ReadTimeout \<Rightarrow> Some (-2, stream, reader)))"
  by pat_completeness auto
termination
  by (relation "measure (\<lambda>(env, stream, reader). length (hr_net reader))")
    (auto dest!: sym [THEN sessionReadTimed_bytes])

declare readUntilCloseBody.simps [simp del]

definition readBody :: "'z clientEnv \<Rightarrow> string \<Rightarrow> 'z hstream \<Rightarrow> http11Reader \<Rightarrow> int \<Rightarrow> (int \<times> bool \<times> 'z hstream \<times> http11Reader) option" where
  "readBody env method stream reader statusCode =
     (let settle = (\<lambda>untilClose. map_option (\<lambda>(rc, stream, reader).
                       let (stream, rc) = classifyBodyError rc stream in (rc, untilClose, stream, reader)));
          noBody = (strcaseeq method ''HEAD'' \<or> isBodylessStatus statusCode);
          chunked = (case streamHeaderValue stream ''transfer-encoding'' of
                       None \<Rightarrow> False | Some te \<Rightarrow> containsCI te ''chunked'' \<noteq> None)
      in if noBody then Some (1, False, stream, reader)
         else if chunked then settle False (readChunkedBody env stream reader)
         else (case streamHeaderValue stream ''content-length'' of
                 Some contentLength \<Rightarrow>
                   (let bodyLen = fst (strtol 10 contentLength)
                    in if bodyLen < 0 then settle False (Some (-1, stream, reader))
                       else settle False (readContentLengthBody env stream reader bodyLen))
               | None \<Rightarrow> settle True (readUntilCloseBody env stream reader)))"

section \<open>The exchange\<close>

definition connectionClosedByPeer :: "'z hstream \<Rightarrow> bool" where
  "connectionClosedByPeer stream \<longleftrightarrow>
     (case streamHeaderValue stream ''connection'' of None \<Rightarrow> False | Some c \<Rightarrow> containsCI c ''close'' \<noteq> None)"

definition closeSessionIfSingleUse :: "bool \<Rightarrow> int \<Rightarrow> 'z hstream \<Rightarrow> bool \<Rightarrow> 'z hstream \<times> bool" where
  "closeSessionIfSingleUse untilClose bodyRc stream goingAway =
     (let (stream, cancelled) = takeResponseCancellation stream;
          bodyComplete = (bodyRc = 1 \<or> bodyRc = 0)
      in (stream, goingAway \<or> untilClose \<or> cancelled \<or> \<not> bodyComplete \<or> connectionClosedByPeer stream))"

text \<open>
  The result is the stream, \<open>goingAway\<close> of the session and the connection as the next exchange
  finds it: the buffer of the reader is freed with what it holds.
\<close>

definition receiveHttp11Response ::
    "'z clientEnv \<Rightarrow> string \<Rightarrow> bool \<Rightarrow> int \<Rightarrow> int \<times> int \<Rightarrow> 'z hstream \<Rightarrow> bool \<times> attempt list \<Rightarrow> ('z hstream \<times> bool \<times> attempt list) option" where
  "receiveHttp11Response env method ssl timeout deadline stream session =
     (let (goingAway, net) = session;
          reader = \<lparr>hr_ssl = ssl, hr_net = net, hr_buf = [], hr_pos = 0, hr_deadline = deadline, hr_timeout = timeout,
                    hr_eof = False, hr_err = NoErr, hr_now = ev_now env\<rparr>;
          (status, stream, reader) = readResponseHead env stream reader
      in if failed (st_error stream) then Some (stream, True, hr_net reader)
         else (case readBody env method (deliverResponseHeaders env stream) reader status of
                 None \<Rightarrow> None
               | Some (bodyRc, untilClose, stream, reader) \<Rightarrow>
                   (let (stream, goingAway) = closeSessionIfSingleUse untilClose bodyRc stream goingAway
                    in Some (stream, goingAway, hr_net reader))))"

end
