(* ===== verification/Http11Props.thy ===== *)
theory Http11Props
  imports Http11Response
begin

text \<open>
  What the HTTP/1.1 reader guarantees: a well-formed response arrives whole however the network
  cuts it up; the buffer stays bounded. One section states where the reader departs from RFC 9112;
  the last one holds what the body loops keep, for \<open>Http11Ends\<close>.
\<close>

section \<open>A connection that delivers in time\<close>

text \<open>
  \<open>D\<close> holds the deadlines the exchange may have: the one it starts with and those a renewal sets,
  counted from the start or from a time at which the network delivered.
\<close>

definition renewedDeadline :: "int \<Rightarrow> int \<Rightarrow> int \<times> int" where
  "renewedDeadline ms l = (l + timeoutSeconds ms, timeoutMillis ms * 1000000)"

definition heldDeadlines :: "int \<Rightarrow> int \<times> int \<Rightarrow> int set \<Rightarrow> attempt list \<Rightarrow> (int \<times> int) set" where
  "heldDeadlines ms deadline begun net = insert deadline (renewedDeadline ms ` (begun \<union> (\<lambda>a. fst (at_now a)) ` set net))"

definition promptFor :: "(int \<times> int) set \<Rightarrow> attempt \<Rightarrow> bool" where
  "promptFor D a \<longleftrightarrow> at_select a = SelReady
     \<and> (case at_io a of IoBytes bs \<Rightarrow> bs \<noteq> [] \<and> length bs \<le> HTTP11_READ_CHUNK | _ \<Rightarrow> False)
     \<and> (\<forall>d\<in>D. deadlineRemainingMs d (at_now a) > 0)"

definition readyReader :: "(int \<times> int) set \<Rightarrow> http11Reader \<Rightarrow> bool" where
  "readyReader D r \<longleftrightarrow> hr_deadline r \<in> D \<and> readerRunning r \<and> length (hr_buf r) < HTTP11_MAX_HEADER_SECTION
     \<and> hr_pos r \<le> length (hr_buf r) \<and> renewedDeadline (hr_timeout r) (hr_now r) \<in> D
     \<and> (\<forall>a\<in>set (hr_net r). promptFor D a \<and> renewedDeadline (hr_timeout r) (fst (at_now a)) \<in> D)"

definition steadyFor :: "'z clientEnv \<Rightarrow> (int \<times> int) set \<Rightarrow> int \<Rightarrow> 'z hstream \<Rightarrow> bool" where
  "steadyFor env D ms s \<longleftrightarrow> (\<forall>n. ev_alloc env n) \<and> renewedDeadline ms (st_lastActivityTime s) \<in> D"

lemma clockAfter_one [simp]: "clockAfter now (a # as) as = fst (at_now a)"
  by (simp add: clockAfter_def)

lemma atTime_fields [simp]: "ev_alloc (atTime now env) = ev_alloc env" "ev_now (atTime now env) = now" "ev_lib (atTime now env) = ev_lib env"
  by (simp_all add: atTime_def)

lemma prompt_read:
  assumes "promptFor D a" "d \<in> D"
  shows "\<exists>bs. at_io a = IoBytes bs \<and> bs \<noteq> [] \<and> length bs \<le> HTTP11_READ_CHUNK \<and> sessionReadTimed ssl d (a # as) = (ReadBytes bs, as)"
  using assms by (auto simp: promptFor_def Let_def split: ioResult.splits selectResult.splits)

lemma renew_in:
  assumes "steadyFor env D ms s" "d \<in> D"
  shows "fst (renewStreamDeadline now s ms d) \<in> D"
  using assms by (auto simp: renewStreamDeadline_def steadyFor_def renewedDeadline_def Let_def)

lemma fill_ready:
  assumes r: "readyReader D r" and s: "steadyFor env D (hr_timeout r) s" and net: "hr_net r \<noteq> []"
    and room: "length (drop (hr_pos r) (hr_buf r)) + HTTP11_READ_CHUNK < HTTP11_MAX_HEADER_SECTION"
  shows "readyReader D (readerFill env s r) \<and> unread (readerFill env s r) = unread r \<and> hr_timeout (readerFill env s r) = hr_timeout r"
proof -
  obtain a as where n: "hr_net r = a # as" using net by (cases "hr_net r") auto
  then have p: "promptFor D a" and d: "hr_deadline r \<in> D" using r by (auto simp: readyReader_def)
  obtain bs where b: "at_io a = IoBytes bs" "length bs \<le> HTTP11_READ_CHUNK"
    "sessionReadTimed (hr_ssl r) (hr_deadline r) (a # as) = (ReadBytes bs, as)"
    using prompt_read [OF p d] by blast
  have "readerFill env s r = r\<lparr>hr_buf := drop (hr_pos r) (hr_buf r) @ bs, hr_pos := 0, hr_net := as, hr_now := fst (at_now a),
      hr_deadline := fst (renewStreamDeadline (fst (at_now a)) s (hr_timeout r) (hr_deadline r))\<rparr>"
    using r s n b by (simp add: readerFill_def readyReader_def readerRunning_def steadyFor_def Let_def del: sessionReadTimed.simps)
  then show ?thesis using r s n b room renew_in [OF s d]
    by (simp add: readyReader_def readerRunning_def unread_def)
qed

section \<open>Lines\<close>

text \<open>The longest line read for certain: the limit less one read.\<close>

definition MAX_LINE :: nat where "MAX_LINE = HTTP11_MAX_HEADER_SECTION - HTTP11_READ_CHUNK - 1"

lemma findIndex_LF:
  "findIndex (\<lambda>b. b = LF) (l @ LF # rest) = Some (length l)" if "LF \<notin> set l" for l rest
  using that by (induction l) auto

lemma findIndex_prefix:
  assumes "xs @ ys = l @ LF # rest" "LF \<notin> set l"
  shows "findIndex (\<lambda>b. b = LF) xs = (if length l < length xs then Some (length l) else None)"
proof (cases "length l < length xs")
  case True
  have "xs = l @ LF # take (length xs - length l - 1) rest"
    using assms(1) True by (auto simp: append_eq_append_conv2 append_eq_Cons_conv)
  then show ?thesis using findIndex_LF [OF assms(2)] True by metis
next
  case False
  have "take (length xs) (l @ LF # rest) = xs" using assms(1) by (metis append_eq_conv_conj)
  then have "take (length xs) l = xs" using False by simp
  then have "set xs \<subseteq> set l" by (metis set_take_subset)
  then show ?thesis using assms(2) False by (auto simp: findIndex_None)
qed

lemma readLine_ok:
  "readyReader D r \<Longrightarrow> steadyFor env D (hr_timeout r) s \<Longrightarrow> unread r = l @ LF # rest \<Longrightarrow> LF \<notin> set l \<Longrightarrow> length l \<le> MAX_LINE \<Longrightarrow>
     \<exists>r'. readerReadLine env s r = (1, cstr (chopCR l), r') \<and> unread r' = rest \<and> readyReader D r' \<and> hr_timeout r' = hr_timeout r"
proof (induction env s r rule: readerReadLine.induct)
  case (1 env s r)
  let ?here = "drop (hr_pos r) (hr_buf r)"
  note ready = "1.prems"(1) and steady = "1.prems"(2)
  have u: "?here @ netBytes (hr_net r) = l @ LF # rest" using "1.prems"(3) by (simp add: unread_def)
  note f = findIndex_prefix [OF u "1.prems"(4)]
  show ?case
  proof (cases "length l < length ?here")
    case True
    obtain ys where ys: "?here = l @ LF # ys" "rest = ys @ netBytes (hr_net r)"
      using u True by (auto simp: append_eq_append_conv2 append_eq_Cons_conv)
    have "drop (Suc (length l)) ?here = ys" unfolding ys(1) by simp
    then have h: "take (length l) ?here = l" "drop (Suc (length l)) ?here @ netBytes (hr_net r) = rest" using ys by simp_all
    let ?r = "r\<lparr>hr_pos := hr_pos r + length l + 1\<rparr>"
    have "readerReadLine env s r = (1, cstr (chopCR l), ?r)"
      using f True h(1) steady by (simp add: readerReadLine.simps [of env s r] steadyFor_def Let_def)
    moreover have "unread ?r = rest" using h(2) by (simp add: unread_def ac_simps)
    moreover have "readyReader D ?r" using ready True by (auto simp: readyReader_def readerRunning_def)
    ultimately show ?thesis by auto
  next
    case False
    then have f: "findIndex (\<lambda>b. b = LF) ?here = None" using f by simp
    have net: "hr_net r \<noteq> []"
    proof
      assume "hr_net r = []"
      then have "?here = l @ LF # rest" using u by simp
      then show False using False by simp
    qed
    have "length ?here + HTTP11_READ_CHUNK < HTTP11_MAX_HEADER_SECTION"
      using False "1.prems"(5) by (simp add: MAX_LINE_def HTTP11_MAX_HEADER_SECTION_def HTTP11_READ_CHUNK_def)
    note fill = fill_ready [OF ready steady net this]
    have run: "readerRunning r" "\<not> length (hr_buf r) \<ge> HTTP11_MAX_HEADER_SECTION" using ready by (simp_all add: readyReader_def)
    have "readerReadLine env s r = readerReadLine env s (readerFill env s r)"
      using f run by (simp add: readerReadLine.simps [of env s r])
    then show ?thesis using "1.IH" [OF f] run fill steady "1.prems" by simp
  qed
qed

text \<open>A line of text as it is sent, and the string the reader makes of it.\<close>

definition crlf :: "string \<Rightarrow> bytes" where
  "crlf s = strBytes s @ [CR, LF]"

definition textLine :: "string \<Rightarrow> bool" where
  "textLine s \<longleftrightarrow> isCStr s \<and> CHR 0x0A \<notin> set s \<and> length s < MAX_LINE"

lemma byteOfChar_LF: "byteOfChar c = LF \<longleftrightarrow> c = CHR 0x0A"
proof -
  have "LF = byteOfChar (CHR 0x0A)" by (simp add: LF_def byteOfChar_def)
  then show ?thesis using byteOfChar_eq_iff by metis
qed

lemma LF_line: "CHR 0x0A \<notin> set l \<Longrightarrow> LF \<notin> set (strBytes l @ [CR])"
proof
  assume n: "CHR 0x0A \<notin> set l" and "LF \<in> set (strBytes l @ [CR])"
  then have "LF \<in> byteOfChar ` set l \<or> LF = CR" by (auto simp: strBytes_def)
  moreover have "LF \<noteq> CR" by (simp add: LF_def CR_def)
  ultimately obtain c where "c \<in> set l" "byteOfChar c = LF" by auto
  then show False using n byteOfChar_LF by metis
qed

lemma readLine_text:
  assumes "readyReader D r" "steadyFor env D (hr_timeout r) s" "unread r = crlf l @ rest" "textLine l"
  shows "\<exists>r'. readerReadLine env s r = (1, l, r') \<and> unread r' = rest \<and> readyReader D r' \<and> hr_timeout r' = hr_timeout r"
proof -
  have t: "isCStr l" "CHR 0x0A \<notin> set l" "length l < MAX_LINE" using assms(4) by (simp_all add: textLine_def)
  have u: "unread r = (strBytes l @ [CR]) @ LF # rest" unfolding assms(3) by (simp add: crlf_def)
  have b: "length (strBytes l @ [CR]) \<le> MAX_LINE" using t(3) by simp
  have "cstr (chopCR (strBytes l @ [CR])) = l" by (simp add: chopCR_def cstr_strBytes t(1))
  then show ?thesis using readLine_ok [OF assms(1,2) u LF_line [OF t(2)] b] by simp
qed

lemma textLine_Nil [simp]: "textLine []"
  by (simp add: textLine_def MAX_LINE_def HTTP11_MAX_HEADER_SECTION_def HTTP11_READ_CHUNK_def)

section \<open>The body\<close>

text \<open>The library collector, with nothing to decode.\<close>

definition collects :: "'z hstream \<Rightarrow> bool" where
  "collects s \<longleftrightarrow> (case st_sink s of None \<Rightarrow> False
     | Some sink \<Rightarrow> sk_collecting sink \<and> sk_decompressor sink = None \<and> \<not> sk_aborted sink \<and> \<not> sk_cancelled sink)"

definition grownBy :: "(int \<times> int) set \<Rightarrow> int \<Rightarrow> 'z hstream \<Rightarrow> bytes \<Rightarrow> 'z hstream \<Rightarrow> bool" where
  "grownBy D ms s body s' \<longleftrightarrow> collects s' \<and> st_combinedPayload s' = st_combinedPayload s @ body
     \<and> st_headers s' = st_headers s \<and> st_error s' = st_error s 
     \<and> (st_lastActivityTime s' = st_lastActivityTime s \<or> renewedDeadline ms (st_lastActivityTime s') \<in> D)"

lemma grownBy_refl [intro]: "collects s \<Longrightarrow> grownBy D ms s [] s"
  by (simp add: grownBy_def)

lemma grownBy_trans: "grownBy D ms s b s' \<Longrightarrow> grownBy D ms s' c s'' \<Longrightarrow> grownBy D ms s (b @ c) s''"
  by (auto simp: grownBy_def)

lemma grownBy_steady: "grownBy D ms s b s' \<Longrightarrow> steadyFor env D ms s \<Longrightarrow> steadyFor env D ms s'"
  by (auto simp: grownBy_def steadyFor_def)

lemma append_grows:
  assumes "collects s" "\<forall>n. ev_alloc env n" "renewedDeadline ms (ev_now env) \<in> D"
  shows "\<exists>s'. appendStreamPayload env s d = Some (s', True) \<and> grownBy D ms s d s'"
proof (cases "d = []")
  case True
  then show ?thesis using assms(1) by (auto simp: appendStreamPayload_def)
next
  case False
  obtain sink where "st_sink s = Some sink" "sk_collecting sink" "sk_decompressor sink = None" "\<not> sk_aborted sink" "\<not> sk_cancelled sink"
    using assms(1) by (auto simp: collects_def split: option.splits)
  with append_collecting [of s sink env d] False assms(2,3) show ?thesis by (simp add: grownBy_def collects_def)
qed

lemma readBytes_ok:
  "readyReader D r \<Longrightarrow> steadyFor env D (hr_timeout r) s \<Longrightarrow> collects s \<Longrightarrow> unread r = body @ rest \<Longrightarrow> length body = n \<Longrightarrow>
     \<exists>s' r'. readerReadBody env s r n = Some (1, s', r') \<and> grownBy D (hr_timeout r) s body s' \<and> unread r' = rest \<and> readyReader D r' \<and> hr_timeout r' = hr_timeout r"
proof (induction env s r n arbitrary: body rule: readerReadBody.induct)
  case (1 env s r n)
  let ?avail = "drop (hr_pos r) (hr_buf r)"
  note ready = "1.prems"(1) and steady = "1.prems"(2)
  have alloc: "\<forall>n. ev_alloc env n" using steady by (simp add: steadyFor_def)
  consider "n = 0" | "n > 0" "?avail = []" | "n > 0" "?avail \<noteq> []" by blast
  then show ?case
  proof cases
    case 1
    then show ?thesis using "1.prems" by (auto simp: readerReadBody.simps [of env s r])
  next
    case 2
    have net: "hr_net r \<noteq> []" using "1.prems"(4,5) 2 by (auto simp: unread_def)
    have "length ?avail + HTTP11_READ_CHUNK < HTTP11_MAX_HEADER_SECTION"
      using 2 by (simp add: HTTP11_MAX_HEADER_SECTION_def HTTP11_READ_CHUNK_def)
    note fill = fill_ready [OF ready steady net this]
    have run: "readerRunning r" using ready by (simp add: readyReader_def)
    have "readerReadBody env s r n = readerReadBody env s (readerFill env s r) n"
      using 2 run by (simp add: readerReadBody.simps [of env s r])
    then show ?thesis using "1.IH"(2) [of ?avail body] 2 run fill steady "1.prems" by simp
  next
    case 3
    let ?n = "min n (length ?avail)"
    let ?r = "r\<lparr>hr_pos := hr_pos r + ?n\<rparr>"
    have held: "renewedDeadline (hr_timeout r) (ev_now (atTime (hr_now r) env)) \<in> D" using ready by (simp add: readyReader_def)
    have "\<exists>s1. appendStreamPayload (atTime (hr_now r) env) s (take ?n ?avail) = Some (s1, True) \<and> grownBy D (hr_timeout r) s (take ?n ?avail) s1"
      by (rule append_grows [OF "1.prems"(3) _ held]) (use alloc in simp)
    then obtain s1 where a: "appendStreamPayload (atTime (hr_now r) env) s (take ?n ?avail) = Some (s1, True)"
      and g: "grownBy D (hr_timeout r) s (take ?n ?avail) s1"
      by blast
    have e: "readerReadBody env s r n = readerReadBody env s1 ?r (n - ?n)"
      using 3 a by (simp add: readerReadBody.simps [of env s r] Let_def del: length_drop)
    have m: "?n \<le> length ?avail" "?n \<le> length body" using "1.prems"(5) by simp_all
    have w: "?avail @ netBytes (hr_net r) = body @ rest" using "1.prems"(4) by (simp add: unread_def)
    have t: "take ?n ?avail = take ?n body" using m arg_cong [OF w, of "take ?n"] by simp
    have "drop ?n ?avail @ netBytes (hr_net r) = drop ?n body @ rest" using m arg_cong [OF w, of "drop ?n"] by simp
    then have u: "unread ?r = drop ?n body @ rest" by (simp add: unread_def add.commute)
    have ready': "readyReader D ?r" using ready by (auto simp: readyReader_def readerRunning_def)
    have "\<exists>s' r'. readerReadBody env s1 ?r (n - ?n) = Some (1, s', r') \<and> grownBy D (hr_timeout ?r) s1 (drop ?n body) s' \<and> unread r' = rest
        \<and> readyReader D r' \<and> hr_timeout r' = hr_timeout ?r"
    proof (rule "1.IH"(1) [of ?avail ?n "(s1, True)" s1 True ?r "drop ?n body"])
      show "steadyFor env D (hr_timeout ?r) s1" using grownBy_steady [OF g steady] by simp
      show "collects s1" using g by (simp add: grownBy_def)
      show "length (drop ?n body) = n - ?n" using "1.prems"(5) by simp
      show "unread ?r = drop ?n body @ rest" by (rule u)
    qed (use 3 a ready' in simp_all)
    then obtain s' r' where x: "readerReadBody env s1 ?r (n - ?n) = Some (1, s', r')" "grownBy D (hr_timeout r) s1 (drop ?n body) s'"
        "unread r' = rest" "readyReader D r'" "hr_timeout r' = hr_timeout r" by auto
    have "grownBy D (hr_timeout r) s body s'" using grownBy_trans [OF g x(2)] unfolding t by simp
    then show ?thesis using e x by auto
  qed
qed

text \<open>A chunk as the peer may send it: a size line (any the reader takes for the size) and the data.\<close>

definition wireChunk :: "string \<times> bytes \<Rightarrow> bytes" where
  "wireChunk c = crlf (fst c) @ snd c @ [CR, LF]"

definition chunkOk :: "string \<times> bytes \<Rightarrow> bool" where
  "chunkOk c \<longleftrightarrow> textLine (fst c) \<and> snd c \<noteq> [] \<and> chunkSizeOf (fst c) = int (length (snd c))"

definition trailersOk :: "string list \<Rightarrow> bool" where
  "trailersOk ts \<longleftrightarrow> (\<forall>t\<in>set ts. textLine t \<and> t \<noteq> [])"

lemma chunkOk_Cons: "list_all chunkOk (c # cs) \<Longrightarrow>
    textLine (fst c) \<and> snd c \<noteq> [] \<and> chunkSizeOf (fst c) = int (length (snd c)) \<and> list_all chunkOk cs"
  unfolding list.pred_inject(2) using chunkOk_def [of c] by blast

lemma crlf_Nil: "crlf [] = [CR, LF]"
  by (simp add: crlf_def)

lemma skipTrailers_ok:
  "readyReader D r \<Longrightarrow> steadyFor env D (hr_timeout r) s \<Longrightarrow> trailersOk ts \<Longrightarrow> unread r = concat (map crlf ts) @ [CR, LF] @ rest \<Longrightarrow>
     \<exists>r'. skipTrailers env s r = (1, r') \<and> unread r' = rest \<and> readyReader D r' \<and> hr_timeout r' = hr_timeout r"
proof (induction ts arbitrary: r)
  case Nil
  then have "unread r = crlf [] @ rest" by (simp add: crlf_Nil)
  from readLine_text [OF Nil(1,2) this] show ?case
    by (auto simp: skipTrailers.simps [of env s r] isTrailerEnd_def)
next
  case (Cons t ts)
  have t: "textLine t" "t \<noteq> []" "trailersOk ts" using Cons.prems(3) by (simp_all add: trailersOk_def)
  have "unread r = crlf t @ concat (map crlf ts) @ [CR, LF] @ rest" using Cons.prems(4) by simp
  from readLine_text [OF Cons.prems(1,2) this t(1)] obtain r1 where r1: "readerReadLine env s r = (1, t, r1)"
    "unread r1 = concat (map crlf ts) @ [CR, LF] @ rest" "readyReader D r1" "hr_timeout r1 = hr_timeout r" by blast
  then show ?case using Cons.IH [of r1] Cons.prems(2) t(2,3)
    by (simp add: skipTrailers.simps [of env s r] isTrailerEnd_def)
qed

lemma readChunks_ok:
  "readyReader D r \<Longrightarrow> steadyFor env D (hr_timeout r) s \<Longrightarrow> collects s \<Longrightarrow> list_all chunkOk cs \<Longrightarrow>
     textLine fin \<Longrightarrow> chunkSizeOf fin = 0 \<Longrightarrow> trailersOk ts \<Longrightarrow>
     unread r = concat (map wireChunk cs) @ crlf fin @ concat (map crlf ts) @ [CR, LF] @ rest \<Longrightarrow>
     \<exists>s' r'. readChunkedBody env s r = Some (1, s', r') \<and> grownBy D (hr_timeout r) s (concat (map snd cs)) s' \<and> unread r' = rest"
proof (induction cs arbitrary: r s)
  case Nil
  then have "unread r = crlf fin @ concat (map crlf ts) @ [CR, LF] @ rest" by simp
  from readLine_text [OF Nil(1,2) this Nil(5)] obtain r1 where r1: "readerReadLine env s r = (1, fin, r1)"
    "unread r1 = concat (map crlf ts) @ [CR, LF] @ rest" "readyReader D r1" "hr_timeout r1 = hr_timeout r" by blast
  from skipTrailers_ok [OF r1(3) _ Nil(7) r1(2), of env s] r1 Nil(2,3,6) show ?case
    by (auto simp: readChunkedBody.simps [of env s r])
next
  case (Cons c cs)
  let ?rest = "concat (map wireChunk cs) @ crlf fin @ concat (map crlf ts) @ [CR, LF] @ rest"
  have c: "textLine (fst c)" "snd c \<noteq> []" "chunkSizeOf (fst c) = int (length (snd c))" "list_all chunkOk cs"
    using chunkOk_Cons [OF Cons.prems(4)] by simp_all
  have "unread r = crlf (fst c) @ snd c @ [CR, LF] @ ?rest" using Cons.prems(8) by (simp add: wireChunk_def [of c])
  from readLine_text [OF Cons.prems(1,2) this c(1)] obtain r1 where r1: "readerReadLine env s r = (1, fst c, r1)"
    "unread r1 = snd c @ [CR, LF] @ ?rest" "readyReader D r1" "hr_timeout r1 = hr_timeout r" by blast
  have st1: "steadyFor env D (hr_timeout r1) s" using Cons.prems(2) r1 by simp
  from readBytes_ok [OF r1(3) st1 Cons.prems(3) r1(2) refl] obtain s2 r2 where
    r2: "readerReadBody env s r1 (length (snd c)) = Some (1, s2, r2)" "grownBy D (hr_timeout r) s (snd c) s2"
      "unread r2 = crlf [] @ ?rest" "readyReader D r2" "hr_timeout r2 = hr_timeout r" using r1(4) by (auto simp: crlf_Nil)
  have st2: "steadyFor env D (hr_timeout r2) s2" using grownBy_steady [OF r2(2)] Cons.prems(2) r2(5) by simp
  from readLine_text [OF r2(4) st2 r2(3) textLine_Nil] obtain r3 where r3: "readerReadLine env s2 r2 = (1, [], r3)"
    "unread r3 = ?rest" "readyReader D r3" "hr_timeout r3 = hr_timeout r" using r2(5) by auto
  have "collects s2" using r2(2) by (simp add: grownBy_def)
  from Cons.IH [OF r3(3) _ this c(4) Cons.prems(5-7) r3(2)] st2 r2(5) r3(4) obtain s' r' where
    r': "readChunkedBody env s2 r3 = Some (1, s', r')" "grownBy D (hr_timeout r) s2 (concat (map snd cs)) s'" "unread r' = rest" by auto
  have "readChunkedBody env s r = readChunkedBody env s2 r3"
    using r1(1) c(2,3) r2(1) r3(1) by (simp add: readChunkedBody.simps [of env s r])
  then show ?case using r' grownBy_trans [OF r2(2)] by auto
qed

section \<open>The head\<close>

definition wireHeader :: "string \<times> string \<Rightarrow> bytes" where
  "wireHeader h = crlf (fst h @ '': '' @ snd h)"

definition trimmed :: "string \<Rightarrow> bool" where
  "trimmed s \<longleftrightarrow> s = [] \<or> (\<not> isSpace (hd s) \<and> \<not> isSpace (last s))"

definition headerOk :: "string \<times> string \<Rightarrow> bool" where
  "headerOk h \<longleftrightarrow> CHR '':'' \<notin> set (fst h) \<and> trimmed (fst h) \<and> trimmed (snd h) \<and> textLine (fst h @ '': '' @ snd h)"

lemma trim_trimmed: "trimmed s \<Longrightarrow> trim s = s"
proof (cases s rule: rev_cases)
  case (snoc t c)
  assume s: "trimmed s"
  then have "dropWhile isSpace s = s" using snoc by (cases t) (auto simp: trimmed_def)
  then show ?thesis using s snoc by (simp add: trim_def trimmed_def)
qed (simp add: trim_def)

lemma trim_space: "trim (CHR '' '' # s) = trim s"
  by (simp add: trim_def isSpace_def)

lemma parseHeaderLine_wire:
  assumes "headerOk h"
  shows "parseHeaderLine (fst h @ '': '' @ snd h) s = addStreamHeader (fst h) (snd h) s"
proof -
  have "strchr (fst h @ CHR '':'' # CHR '' '' # snd h) CHR '':'' = Some (fst h, CHR '':'' # CHR '' '' # snd h)"
    using assms by (intro strchr_append) (simp add: headerOk_def)
  then show ?thesis using assms by (simp add: parseHeaderLine_def headerOk_def trim_trimmed trim_space)
qed

lemma addStreamHeader_fields [simp]:
  "st_sink (addStreamHeader n v s) = st_sink s" "st_error (addStreamHeader n v s) = st_error s"
  "st_combinedPayload (addStreamHeader n v s) = st_combinedPayload s" "st_lastActivityTime (addStreamHeader n v s) = st_lastActivityTime s"
  by (simp_all add: addStreamHeader_def)

lemma addStreamHeader_room:
  "numHeaders s < RESPONSE_HEADERS_MAX_SIZE \<Longrightarrow> addStreamHeader n v s = s\<lparr>st_headers := Some (headerList s @ [(n, v)])\<rparr>"
  by (simp add: addStreamHeader_def)

lemma numHeaders_list: "numHeaders s = length (headerList s)"
  by (simp add: numHeaders_def headerList_def split: option.splits)

lemma readHeaders_ok:
  "readyReader D r \<Longrightarrow> steadyFor env D (hr_timeout r) s \<Longrightarrow> list_all headerOk hs \<Longrightarrow>
     length (headerList s) + length hs \<le> RESPONSE_HEADERS_MAX_SIZE \<Longrightarrow> st_headers s \<noteq> None \<Longrightarrow>
     unread r = concat (map wireHeader hs) @ [CR, LF] @ rest \<Longrightarrow>
     \<exists>r'. readHeaderSection env s r = (1, s\<lparr>st_headers := Some (headerList s @ hs)\<rparr>, r') \<and> unread r' = rest \<and> readyReader D r'
       \<and> hr_timeout r' = hr_timeout r"
proof (induction hs arbitrary: r s)
  case Nil
  then have "unread r = crlf [] @ rest" by (simp add: crlf_Nil)
  from readLine_text [OF Nil(1,2) this] Nil(5) show ?case
    by (auto simp: readHeaderSection.simps [of env s r] headerList_def)
next
  case (Cons h hs)
  let ?line = "fst h @ '': '' @ snd h"
  have h: "headerOk h" "textLine ?line" "?line \<noteq> []" "list_all headerOk hs" using Cons.prems(3) unfolding list.pred_inject(2)
    by (blast, simp add: headerOk_def, simp, blast)
  have "unread r = crlf ?line @ concat (map wireHeader hs) @ [CR, LF] @ rest" using Cons.prems(6) by (simp add: wireHeader_def [of h])
  from readLine_text [OF Cons.prems(1,2) this h(2)] obtain r1 where r1: "readerReadLine env s r = (1, ?line, r1)"
    "unread r1 = concat (map wireHeader hs) @ [CR, LF] @ rest" "readyReader D r1" "hr_timeout r1 = hr_timeout r" by blast
  let ?s = "addStreamHeader (fst h) (snd h) s"
  have s: "?s = s\<lparr>st_headers := Some (headerList s @ [h])\<rparr>"
    using Cons.prems(4) by (simp add: addStreamHeader_room numHeaders_list)
  have "headerList ?s = headerList s @ [h]" by (simp add: s) (simp add: headerList_def)
  moreover have "steadyFor env D (hr_timeout r1) ?s" using Cons.prems(2) r1(4) by (simp add: steadyFor_def)
  moreover have "readHeaderSection env s r = readHeaderSection env ?s r1"
    using r1(1) h(3) parseHeaderLine_wire [OF h(1), of s] by (simp add: readHeaderSection.simps [of env s r])
  ultimately show ?case using Cons.IH [OF r1(3) _ h(4) _ _ r1(2), of ?s] Cons.prems(4) r1(4) s by simp
qed

section \<open>A whole response\<close>

definition headerValue :: "(string \<times> string) list \<Rightarrow> string \<Rightarrow> string option" where
  "headerValue hs name = map_option snd (List.find (\<lambda>h. strcaseeq (fst h) name) hs)"

text \<open>The bytes of a body for a status code and headers, and the body they stand for.\<close>

inductive bodyFramed :: "int \<Rightarrow> (string \<times> string) list \<Rightarrow> bytes \<Rightarrow> bytes \<Rightarrow> bool" where
  bodyless: "isBodylessStatus n \<Longrightarrow> bodyFramed n hs [] []"
| chunked: "\<not> isBodylessStatus n \<Longrightarrow> headerValue hs ''transfer-encoding'' = Some te \<Longrightarrow> containsCI te ''chunked'' \<noteq> None \<Longrightarrow>
    list_all chunkOk cs \<Longrightarrow> textLine fin \<Longrightarrow> chunkSizeOf fin = 0 \<Longrightarrow> trailersOk ts \<Longrightarrow>
    bodyFramed n hs (concat (map snd cs)) (concat (map wireChunk cs) @ crlf fin @ concat (map crlf ts) @ [CR, LF])"
| sized: "\<not> isBodylessStatus n \<Longrightarrow> headerValue hs ''transfer-encoding'' = None \<Longrightarrow>
    headerValue hs ''content-length'' = Some (natToDec (length body)) \<Longrightarrow> length body < 2 ^ 63 \<Longrightarrow> bodyFramed n hs body body"

definition wireResponse :: "nat \<Rightarrow> string \<Rightarrow> (string \<times> string) list \<Rightarrow> bytes \<Rightarrow> bytes" where
  "wireResponse code reason hs wire = crlf (''HTTP/1.1 '' @ natToDec code @ CHR '' '' # reason) @ concat (map wireHeader hs) @ [CR, LF] @ wire"

lemma digit3: "d < 10 \<Longrightarrow> isDigit (char_of (48 + d :: nat))"
  by (simp add: isDigit_def)

lemma natToDec_3:
  assumes "100 \<le> n" "n < 1000"
  shows "\<exists>a b c. natToDec n = [a, b, c] \<and> isDigit a \<and> isDigit b \<and> isDigit c \<and> \<not> isSpace a"
proof -
  have "natToDec n = natToDec (n div 10 div 10) @ [char_of (48 + n div 10 mod 10)] @ [char_of (48 + n mod 10)]"
    using assms by (subst natToDec.simps, subst natToDec.simps) auto
  moreover have "natToDec (n div 10 div 10) = [char_of (48 + n div 10 div 10)]" using assms by (subst natToDec.simps) auto
  moreover have "n div 10 div 10 < 10" "n div 10 mod 10 < 10" "n mod 10 < 10" using assms by auto
  ultimately show ?thesis using digit3 decDigit_facts(1) by (metis append_Cons append_Nil)
qed

lemma parseStatusLine_ok:
  assumes "100 \<le> n" "n < 1000" "numHeaders s < RESPONSE_HEADERS_MAX_SIZE"
  shows "parseStatusLine (''HTTP/1.1 '' @ natToDec n @ CHR '' '' # reason) s
    = (s\<lparr>st_headers := Some (headerList s @ [('':status'', natToDec n)])\<rparr>, int n)"
proof -
  obtain a b c where d: "natToDec n = [a, b, c]" "isDigit a" "isDigit b" "isDigit c" "\<not> isSpace a" using natToDec_3 [OF assms(1,2)] by blast
  have s: "isSpace (CHR '' '')" "\<not> isSpace (CHR ''1'')" by (simp_all add: isSpace_def)
  have v: "fst (strtol 10 (natToDec n)) = int n" using strtol_natToDec [of n] assms(2) by simp
  show ?thesis using d s v assms(3)
    by (simp add: parseStatusLine_def isHttp11StatusLine_def copyStatusCode_def addStreamHeader_room Let_def)
qed

lemma streamHeaderValue_list: "streamHeaderValue s name = headerValue (headerList s) name"
  by (simp add: streamHeaderValue_def headerValue_def)

lemma headerValue_status:
  "headerValue (('':status'', v) # hs) ''transfer-encoding'' = headerValue hs ''transfer-encoding''"
  "headerValue (('':status'', v) # hs) ''content-length'' = headerValue hs ''content-length''"
  "headerValue (('':status'', v) # hs) ''connection'' = headerValue hs ''connection''"
  by (simp_all add: headerValue_def strcaseeq_def)

lemma readBody_framed:
  assumes "bodyFramed n hs body wire" and "readyReader D r" "steadyFor env D (hr_timeout r) s" "collects s"
    and "unread r = wire @ rest" and "headerList s = ('':status'', v) # hs" and "\<not> strcaseeq method ''HEAD''" "\<not> failed (st_error s)"
  shows "\<exists>s' r'. readBody env method s r n = Some (1, False, s', r') \<and> grownBy D (hr_timeout r) s body s' \<and> unread r' = rest"
  using assms(1)
proof cases
  case bodyless
  then show ?thesis using assms by (auto simp: readBody_def Let_def)
next
  case (chunked te cs fin ts)
  have "unread r = concat (map wireChunk cs) @ crlf fin @ concat (map crlf ts) @ [CR, LF] @ rest" using assms(5) chunked(2) by simp
  from readChunks_ok [OF assms(2-4) chunked(6-9) this] obtain s' r' where
    x: "readChunkedBody env s r = Some (1, s', r')" "grownBy D (hr_timeout r) s body s'" "unread r' = rest" using chunked(1) by blast
  then show ?thesis using chunked assms(6-8)
    by (simp add: readBody_def Let_def streamHeaderValue_list headerValue_status classifyBodyError_def)
next
  case sized
  have l: "fst (strtol 10 (natToDec (length body))) = int (length body)" using strtol_natToDec [OF sized(5)] by simp
  have w: "wire = body" using sized by simp
  from readBytes_ok [OF assms(2-4) assms(5) [unfolded w] refl] obtain s' r' where
    x: "readerReadBody env s r (length body) = Some (1, s', r')" "grownBy D (hr_timeout r) s body s'" "unread r' = rest" by blast
  have "readContentLengthBody env s r (int (length body)) = Some (1, s', r')"
    using x(1) by (auto simp: readContentLengthBody_def readerReadBody.simps [of env s r 0])
  then show ?thesis using sized assms(6-8) x l
    by (simp add: readBody_def Let_def streamHeaderValue_list headerValue_status classifyBodyError_def)
qed

lemma deliverHeaders_collects:
  assumes "st_sink s = Some (buildResponseSink mk None)" "mk = 0 \<or> detectContentEncoding (headerList s) = ENCODING_IDENTITY"
  shows "collects (deliverResponseHeaders env s) \<and> st_headers (deliverResponseHeaders env s) = st_headers s
    \<and> st_error (deliverResponseHeaders env s) = st_error s \<and> st_combinedPayload (deliverResponseHeaders env s) = st_combinedPayload s
    \<and> st_lastActivityTime (deliverResponseHeaders env s) = st_lastActivityTime s"
  using assms by (auto simp: deliverResponseHeaders_def prepareStreamDecoder_def buildResponseSink_def collects_def Let_def)

text \<open>The head of a well-formed response is read in full, and leaves the body to be read.\<close>

lemma readHead_ok:
  fixes s :: "'z hstream"
  assumes "readyReader D r" "unread r = wireResponse code reason hs wire" "100 \<le> code" "code < 1000"
    and "textLine (''HTTP/1.1 '' @ natToDec code @ CHR '' '' # reason)"
    and "list_all headerOk hs" "length hs < RESPONSE_HEADERS_MAX_SIZE"
    and "steadyFor env D (hr_timeout r) s" "headerList s = []"
  obtains r' where "readResponseHead env s r = (int code, s\<lparr>st_headers := Some (('':status'', natToDec code) # hs)\<rparr>, r')"
    "unread r' = wire" "readyReader D r'" "hr_timeout r' = hr_timeout r"
proof -
  have u: "unread r = crlf (''HTTP/1.1 '' @ natToDec code @ CHR '' '' # reason) @ concat (map wireHeader hs) @ [CR, LF] @ wire"
    using assms(2) by (simp add: wireResponse_def)
  from readLine_text [OF assms(1) _ u assms(5), of env s] assms(8) obtain r1 where r1:
    "readerReadLine env s r = (1, ''HTTP/1.1 '' @ natToDec code @ CHR '' '' # reason, r1)"
    "unread r1 = concat (map wireHeader hs) @ [CR, LF] @ wire" "readyReader D r1" "hr_timeout r1 = hr_timeout r" by auto
  let ?s1 = "s\<lparr>st_headers := Some [('':status'', natToDec code)]\<rparr>"
  have p: "parseStatusLine (''HTTP/1.1 '' @ natToDec code @ CHR '' '' # reason) s = (?s1, int code)"
    using parseStatusLine_ok [OF assms(3,4), of s reason] assms(9) by (simp add: numHeaders_list RESPONSE_HEADERS_MAX_SIZE_def)
  have h1: "headerList ?s1 = [('':status'', natToDec code)]" by (simp add: headerList_def)
  have "steadyFor env D (hr_timeout r1) ?s1" using assms(8) r1(4) by (simp add: steadyFor_def)
  from readHeaders_ok [OF r1(3) this assms(6) _ _ r1(2)] assms(7) h1 obtain r2 where r2:
    "readHeaderSection env ?s1 r1 = (1, s\<lparr>st_headers := Some (('':status'', natToDec code) # hs)\<rparr>, r2)"
    "unread r2 = wire" "readyReader D r2" "hr_timeout r2 = hr_timeout r"
    using r1(4) by auto
  have "readResponseHead env s r = (int code, s\<lparr>st_headers := Some (('':status'', natToDec code) # hs)\<rparr>, r2)"
    by (simp add: readResponseHead_def r1(1) p r2(1) del: append_Cons append_assoc)
  then show ?thesis using that r2(2-4) by blast
qed

text \<open>C5. A well-formed response whose body is chunked (with chunk extensions and trailers), sized or, by
  its status, absent arrives whole: however the network cuts it into reads (in time), its
  status and headers are the ones sent, in order, its body is the body sent, no error is set,
  every byte is read, and the session is given up exactly when the peer said \<open>connection: close\<close>. The
  fourth framing, a body that ends with the connection, is left out because it does not arrive
  whole: the code ignores what it has already buffered (\<open>until_close_ignores_buffer\<close>).\<close>

theorem http11_response_received:
  fixes s :: "'z hstream"
  assumes wire: "netBytes net = wireResponse code reason hs wire" and code: "100 \<le> code" "code < 1000"
    and line: "textLine (''HTTP/1.1 '' @ natToDec code @ CHR '' '' # reason)"
    and hs: "list_all headerOk hs" "length hs < RESPONSE_HEADERS_MAX_SIZE" and body: "bodyFramed (int code) hs body wire"
    and verb: "\<not> strcaseeq method ''HEAD''" and alloc: "\<forall>n. ev_alloc env n"
    and net: "\<forall>a\<in>set net. promptFor (heldDeadlines ms deadline {st_lastActivityTime s, ev_now env} net) a"
    and s: "st_headers s = Some []" "st_combinedPayload s = []" "st_error s = ERR_NONE" "st_sink s = Some (buildResponseSink mk None)"
    and mk: "mk = 0 \<or> detectContentEncoding (('':status'', natToDec code) # hs) = ENCODING_IDENTITY"
  shows "\<exists>s' goingAway net'. receiveHttp11Response env method ssl ms deadline s (False, net) = Some (s', goingAway, net')
    \<and> st_headers s' = Some (('':status'', natToDec code) # hs) \<and> st_combinedPayload s' = body \<and> \<not> failed (st_error s')
    \<and> netBytes net' = []
    \<and> (goingAway \<longleftrightarrow> (\<exists>c. headerValue hs ''connection'' = Some c \<and> containsCI c ''close'' \<noteq> None))"
proof -
  let ?D = "heldDeadlines ms deadline {st_lastActivityTime s, ev_now env} net"
  let ?r = "\<lparr>hr_ssl = ssl, hr_net = net, hr_buf = [], hr_pos = 0, hr_deadline = deadline, hr_timeout = ms, hr_eof = False, hr_err = NoErr,
    hr_now = ev_now env\<rparr>"
  have r: "readyReader ?D ?r" "unread ?r = wireResponse code reason hs wire" using net wire
    by (simp_all add: readyReader_def readerRunning_def HTTP11_MAX_HEADER_SECTION_def unread_def heldDeadlines_def)
  have st: "steadyFor env ?D ms s" using alloc by (simp add: steadyFor_def heldDeadlines_def)
  let ?s2 = "s\<lparr>st_headers := Some (('':status'', natToDec code) # hs)\<rparr>"
  have "steadyFor env ?D (hr_timeout ?r) s" "headerList s = []" using st s(1) by (simp_all add: headerList_def)
  from readHead_ok [OF r code line hs this] obtain r2 where
    head: "readResponseHead env s ?r = (int code, ?s2, r2)" and r2: "unread r2 = wire" "readyReader ?D r2" "hr_timeout r2 = ms" by auto
  let ?s3 = "deliverResponseHeaders env ?s2"
  have h2: "headerList ?s2 = ('':status'', natToDec code) # hs" by (simp add: headerList_def)
  have d: "collects ?s3" "st_headers ?s3 = st_headers ?s2" "st_error ?s3 = ERR_NONE" "st_combinedPayload ?s3 = []"
    "st_lastActivityTime ?s3 = st_lastActivityTime s"
    using deliverHeaders_collects [of ?s2 mk env] mk s h2 by simp_all
  have st3: "steadyFor env ?D (hr_timeout r2) ?s3" using st r2(3) d(5) by (simp add: steadyFor_def)
  have h3: "headerList ?s3 = ('':status'', natToDec code) # hs" using d(2) h2 by (simp add: headerList_def)
  from readBody_framed [OF body r2(2) st3 d(1) _ h3 verb, of "[]"] d(3) r2(1) obtain s' r' where b:
    "readBody env method ?s3 r2 (int code) = Some (1, False, s', r')" "grownBy ?D (hr_timeout r2) ?s3 body s'" "unread r' = []"
    by (auto simp: failed_def ERR_NONE_def)
  have g: "collects s'" "st_combinedPayload s' = body" "st_headers s' = Some (('':status'', natToDec code) # hs)" "st_error s' = ERR_NONE"
    using b(2) d by (simp_all add: grownBy_def)
  have c: "takeResponseCancellation s' = (s', False)"
    using g(1) by (auto simp: takeResponseCancellation_def collects_def split: option.splits)
  have e: "receiveHttp11Response env method ssl ms deadline s (False, net) = Some (s', connectionClosedByPeer s', hr_net r')"
    using s(3) by (simp add: receiveHttp11Response_def head b(1) closeSessionIfSingleUse_def c failed_def ERR_NONE_def)
  moreover have "connectionClosedByPeer s' \<longleftrightarrow> (\<exists>c. headerValue hs ''connection'' = Some c \<and> containsCI c ''close'' \<noteq> None)"
    using g(3) by (simp add: connectionClosedByPeer_def streamHeaderValue_list headerList_def headerValue_status split: option.splits)
  moreover have "netBytes (hr_net r') = []" using b(3) by (simp add: unread_def)
  ultimately show ?thesis using g by (simp add: failed_def ERR_NONE_def)
qed

definition deliver :: "bytes \<Rightarrow> attempt" where
  "deliver bs = \<lparr>at_now = (0, 0), at_pending = False, at_select = SelReady, at_io = IoBytes bs\<rparr>"

lemma http11_response_received_witness:
  "let w = wireResponse 200 ''OK'' [(''Transfer-Encoding'', ''chunked'')]
             (crlf ''5;x=1'' @ strBytes ''hello'' @ [CR, LF] @ crlf ''0'' @ crlf ''X: y'' @ [CR, LF]);
       net = map deliver [take 50 w, drop 50 w]
   in \<exists>s' goingAway net'. receiveHttp11Response (roomyEnv runLib) ''GET'' True 10000 (10, 0)
            (emptyStream (Some (buildResponseSink 0 None))) (False, net) = Some (s', goingAway, net')
        \<and> st_combinedPayload s' = strBytes ''hello'' \<and> \<not> goingAway"
proof -
  let ?hs = "[(''Transfer-Encoding'', ''chunked'')]"
  let ?body = "crlf ''5;x=1'' @ strBytes ''hello'' @ [CR, LF] @ crlf ''0'' @ crlf ''X: y'' @ [CR, LF]"
  let ?w = "wireResponse 200 ''OK'' ?hs ?body"
  let ?net = "map deliver [take 50 ?w, drop 50 ?w]"
  let ?s = "emptyStream (Some (buildResponseSink 0 None)) :: (bytes \<times> nat) hstream"
  have ml: "MAX_LINE = 49151" by (simp add: MAX_LINE_def HTTP11_MAX_HEADER_SECTION_def HTTP11_READ_CHUNK_def)
  have size: "chunkSizeOf ''5;x=1'' = 5" "chunkSizeOf ''0'' = 0" by code_simp+
  have te: "headerValue ?hs ''transfer-encoding'' = Some ''chunked''" by code_simp
  have ci: "containsCI ''chunked'' ''chunked'' \<noteq> None" by code_simp
  have "bodyFramed 200 ?hs (concat (map snd [(''5;x=1'', strBytes ''hello'')]))
      (concat (map wireChunk [(''5;x=1'', strBytes ''hello'')]) @ crlf ''0'' @ concat (map crlf [''X: y'']) @ [CR, LF])"
  proof (rule bodyFramed.chunked [OF _ te ci])
    show "list_all chunkOk [(''5;x=1'', strBytes ''hello'')]"
      using size by (simp add: chunkOk_def textLine_def ml NUL_def)
    show "chunkSizeOf ''0'' = 0" by (rule size)
  qed (simp_all add: isBodylessStatus_def textLine_def ml trailersOk_def NUL_def)
  then have body: "bodyFramed (int 200) ?hs (strBytes ''hello'') ?body" by (simp add: wireChunk_def)
  have nil: "natToDec 200 = ''200''" by code_simp
  have len: "length ?w = 72" by (simp add: wireResponse_def nil crlf_def wireHeader_def)
  have w: "netBytes ?net = ?w" by (simp add: deliver_def)
  have ne: "?w \<noteq> []" by (simp add: wireResponse_def crlf_def)
  have prompt: "\<forall>a\<in>set ?net. promptFor (heldDeadlines 10000 (10, 0) {st_lastActivityTime ?s, ev_now (roomyEnv runLib)} ?net) a"
    using len ne by (simp add: heldDeadlines_def promptFor_def deliver_def HTTP11_READ_CHUNK_def renewedDeadline_def emptyStream_def roomyEnv_def
        deadlineRemainingMs_def timeoutSeconds_def timeoutMillis_def)
  have hs: "list_all headerOk ?hs"
    by (simp add: headerOk_def trimmed_def isSpace_def textLine_def ml NUL_def)
  have line: "textLine (''HTTP/1.1 '' @ natToDec 200 @ CHR '' '' # ''OK'')" by (simp add: nil textLine_def ml NUL_def)
  have verb: "\<not> strcaseeq ''GET'' ''HEAD''" by code_simp
  have connection: "headerValue ?hs ''connection'' = None" by code_simp
  have "\<exists>s' goingAway net'. receiveHttp11Response (roomyEnv runLib) ''GET'' True 10000 (10, 0) ?s (False, ?net) = Some (s', goingAway, net')
    \<and> st_headers s' = Some (('':status'', natToDec 200) # ?hs) \<and> st_combinedPayload s' = strBytes ''hello'' \<and> \<not> failed (st_error s')
    \<and> netBytes net' = [] \<and> (goingAway \<longleftrightarrow> (\<exists>c. headerValue ?hs ''connection'' = Some c \<and> containsCI c ''close'' \<noteq> None))"
    by (rule http11_response_received [where mk = 0, OF w _ _ line hs _ body verb _ prompt])
      (simp_all add: emptyStream_def roomyEnv_def RESPONSE_HEADERS_MAX_SIZE_def)
  then show ?thesis unfolding Let_def using connection by auto
qed

section \<open>Where the reader departs from RFC 9112\<close>

definition closed :: attempt where
  "closed = \<lparr>at_now = (0, 0), at_pending = False, at_select = SelReady, at_io = IoClosed\<rparr>"

text \<open>
  A body framed by the end of the connection loses the bytes that came in the read of the header
  section: the loop does not look at the buffer.
\<close>

lemma until_close_ignores_buffer:
  "readUntilCloseBody env s (r\<lparr>hr_buf := b\<rparr>) = map_option (\<lambda>(rc, s', r'). (rc, s', r'\<lparr>hr_buf := b\<rparr>)) (readUntilCloseBody env s r)"
proof (induction env s r rule: readUntilCloseBody.induct)
  case (1 env s r)
  obtain rc net where n: "sessionReadTimed (hr_ssl r) (hr_deadline r) (hr_net r) = (rc, net)" by fastforce
  let ?now = "clockAfter (hr_now r) (hr_net r) net"
  show ?case
  proof (cases rc)
    case (ReadBytes bs)
    show ?thesis
    proof (cases "appendStreamPayload (atTime ?now env) s bs")
      case None
      then show ?thesis using n ReadBytes by (simp add: readUntilCloseBody.simps [of env s r] readUntilCloseBody.simps [of env s "r\<lparr>hr_buf := b\<rparr>"])
    next
      case (Some x)
      obtain s1 keep where x: "x = (s1, keep)" by fastforce
      have comm: "r\<lparr>hr_buf := b, hr_net := net, hr_now := ?now\<rparr> = r\<lparr>hr_net := net, hr_now := ?now, hr_buf := b\<rparr>" by simp
      have Some': "appendStreamPayload (atTime (hr_now (r\<lparr>hr_net := net, hr_now := ?now\<rparr>)) env) s bs = Some x" using Some by simp
      show ?thesis using n ReadBytes Some x "1.IH" [OF n [symmetric] refl ReadBytes Some' x [symmetric]]
        by (simp add: readUntilCloseBody.simps [of env s r] readUntilCloseBody.simps [of env s "r\<lparr>hr_buf := b\<rparr>"] comm Let_def)
    qed
  qed (use n in \<open>simp_all add: readUntilCloseBody.simps [of env s r] readUntilCloseBody.simps [of env s "r\<lparr>hr_buf := b\<rparr>"]\<close>)
qed

lemma readBody_fill:
  "drop (hr_pos r) (hr_buf r) = [] \<Longrightarrow> m > 0 \<Longrightarrow> readerRunning r \<Longrightarrow>
     readerReadBody env s r m = readerReadBody env s (readerFill env s r) m"
  by (simp add: readerReadBody.simps [of env s r])

text \<open>A sized body cut short by the peer is accepted, without an error, and the session is kept.\<close>

lemma truncated_body_accepted:
  assumes "readerRunning r" "hr_net r = [closed]" "deadlineRemainingMs (hr_deadline r) (0, 0) > 0" "collects s" "\<forall>n. ev_alloc env n"
    and "length (drop (hr_pos r) (hr_buf r)) < nat n" "n \<ge> 0"
  shows "\<exists>s' r'. readContentLengthBody env s r n = Some (0, s', r') \<and> grownBy UNIV (hr_timeout r) s (drop (hr_pos r) (hr_buf r)) s'
    \<and> classifyBodyError 0 s' = (s', 0) \<and> closeSessionIfSingleUse False 0 s' False = (s', connectionClosedByPeer s')"
proof -
  let ?avail = "drop (hr_pos r) (hr_buf r)"
  let ?env = "atTime (hr_now r) env"
  obtain s' where a: "appendStreamPayload ?env s ?avail = Some (s', True)" "grownBy UNIV (hr_timeout r) s ?avail s'"
    using append_grows [OF assms(4), of ?env "hr_timeout r" UNIV] assms(5) by auto
  let ?r = "r\<lparr>hr_pos := hr_pos r + length ?avail\<rparr>"
  have r1: "drop (hr_pos ?r) (hr_buf ?r) = []" by simp
  have "\<exists>r'. readerFill env s' ?r = r' \<and> drop (hr_pos r') (hr_buf r') = [] \<and> \<not> readerRunning r' \<and> readerEndCode r' = 0"
    using assms(1-3,5) by (simp add: readerFill_def readerRunning_def closed_def readerEndCode_def Let_def)
  then obtain r' where fill: "readerFill env s' ?r = r'" "drop (hr_pos r') (hr_buf r') = []" "\<not> readerRunning r'" "readerEndCode r' = 0" by blast
  have run: "readerRunning ?r" using assms(1) by (simp add: readerRunning_def)
  have stop: "readerReadBody env s' r' m = Some (0, s', r')" if "m > 0" for m
    using that fill(2-4) by (simp add: readerReadBody.simps [of env s' r'])
  have e: "readerReadBody env s' ?r m = Some (0, s', r')" if "m > 0" for m
    using readBody_fill [OF r1 that run, of env s'] fill(1) stop [OF that] by simp
  have "readerReadBody env s r (nat n) = Some (0, s', r')"
  proof (cases "?avail = []")
    case True
    have "appendStreamPayload ?env s [] = Some (s, True)" by (simp add: appendStreamPayload_def)
    then have "s' = s" using a True by simp
    moreover have "?r = r" using True by simp
    ultimately show ?thesis using e [of "nat n"] assms(6) True by simp
  next
    case False
    have "readerReadBody env s r (nat n) = readerReadBody env s' ?r (nat n - length ?avail)"
    proof -
      obtain m where m: "nat n = Suc m" using assms(6) by (cases "nat n") auto
      have "min (Suc m) (length ?avail) = length ?avail" using assms(6) m by simp
      then show ?thesis using False a(1) unfolding m by (simp add: readerReadBody.simps [of env s r] Let_def del: length_drop)
    qed
    then show ?thesis using e assms(6) by simp
  qed
  then have "readContentLengthBody env s r n = Some (0, s', r')" using assms(6,7) by (auto simp: readContentLengthBody_def)
  moreover have "takeResponseCancellation s' = (s', False)"
    using a(2) by (auto simp: grownBy_def takeResponseCancellation_def collects_def split: option.splits)
  ultimately show ?thesis using a(2) by (simp add: classifyBodyError_def closeSessionIfSingleUse_def)
qed

text \<open>A size line that is no number counts as the last chunk: the body ends without an error.\<close>

lemma malformed_chunk_ends_body:
  assumes "readyReader D r" "steadyFor env D (hr_timeout r) s" "collects s" "unread r = crlf ''oops'' @ [CR, LF] @ rest"
  shows "\<exists>s' r'. readChunkedBody env s r = Some (1, s', r') \<and> grownBy D (hr_timeout r) s [] s' \<and> unread r' = rest"
proof -
  have "chunkSizeOf ''oops'' = 0" by code_simp
  moreover have "textLine ''oops''"
    by (simp add: textLine_def MAX_LINE_def HTTP11_MAX_HEADER_SECTION_def HTTP11_READ_CHUNK_def NUL_def)
  ultimately show ?thesis
    using readChunks_ok [OF assms(1-3), of "[]" "''oops''" "[]" rest] assms(4) by (simp add: trailersOk_def)
qed

text \<open>
  An interim response is taken for the final one, and the session kept: the final response stays
  on the connection, where the next request finds it.
\<close>

lemma interim_response_desyncs:
  "100 \<le> n \<Longrightarrow> n < 200 \<Longrightarrow> readBody env method s r n = Some (1, False, s, r)"
  "takeResponseCancellation s = (s, False) \<Longrightarrow> closeSessionIfSingleUse False 1 s False = (s, connectionClosedByPeer s)"
  by (simp_all add: readBody_def isBodylessStatus_def closeSessionIfSingleUse_def)

section \<open>Memory for the header section\<close>

definition readsBounded :: "attempt list \<Rightarrow> bool" where
  "readsBounded net \<longleftrightarrow> (\<forall>a\<in>set net. case at_io a of IoBytes bs \<Rightarrow> length bs \<le> HTTP11_READ_CHUNK | _ \<Rightarrow> True)"

definition HTTP11_PEAK :: nat where
  "HTTP11_PEAK = HTTP11_MAX_HEADER_SECTION + HTTP11_READ_CHUNK"

definition bufferBounded :: "http11Reader \<Rightarrow> bool" where
  "bufferBounded r \<longleftrightarrow> length (hr_buf r) < HTTP11_PEAK \<and> readsBounded (hr_net r)"

lemma sessionReadTimed_bounded:
  "sessionReadTimed ssl d net = (rc, net') \<Longrightarrow> readsBounded net \<Longrightarrow>
     readsBounded net' \<and> (case rc of ReadBytes bs \<Rightarrow> length bs \<le> HTTP11_READ_CHUNK | _ \<Rightarrow> True)"
  by (induction net arbitrary: rc net')
    (auto simp: readsBounded_def Let_def split: if_splits selectResult.splits ioResult.splits readRc.splits)

lemma readerFill_bounded:
  assumes "bufferBounded r" "length (hr_buf r) < HTTP11_MAX_HEADER_SECTION"
  shows "bufferBounded (readerFill env s r)"
proof -
  obtain rc net where s: "sessionReadTimed (hr_ssl r) (hr_deadline r) (hr_net r) = (rc, net)" by fastforce
  show ?thesis using assms s sessionReadTimed_bounded [OF s]
    by (auto simp: readerFill_def Let_def bufferBounded_def HTTP11_PEAK_def split: readRc.splits)
qed

text \<open>Environments that agree on every request up to the peak.\<close>

definition agreeUpTo :: "nat \<Rightarrow> 'z clientEnv \<Rightarrow> 'z clientEnv \<Rightarrow> bool" where
  "agreeUpTo n env env' \<longleftrightarrow> (\<forall>k\<le>n. ev_alloc env' k = ev_alloc env k) \<and> ev_now env' = ev_now env"

lemma readerFill_agree:
  assumes "agreeUpTo HTTP11_PEAK env env'" "length (hr_buf r) < HTTP11_MAX_HEADER_SECTION"
  shows "readerFill env' s r = readerFill env s r"
proof -
  have a: "ev_alloc env' (length (drop (hr_pos r) (hr_buf r)) + HTTP11_READ_CHUNK + 1)
      = ev_alloc env (length (drop (hr_pos r) (hr_buf r)) + HTTP11_READ_CHUNK + 1)" and n: "ev_now env' = ev_now env"
    using assms by (auto simp: agreeUpTo_def HTTP11_PEAK_def)
  obtain rc net where "sessionReadTimed (hr_ssl r) (hr_deadline r) (hr_net r) = (rc, net)" by fastforce
  then show ?thesis using a n by (cases rc) (simp_all add: readerFill_def Let_def)
qed

lemma readerReadLine_agree:
  "agreeUpTo HTTP11_PEAK env env' \<Longrightarrow> bufferBounded r \<Longrightarrow> readerReadLine env' s r = readerReadLine env s r
     \<and> bufferBounded (snd (snd (readerReadLine env s r)))"
proof (induction env s r rule: readerReadLine.induct)
  case (1 env s r)
  show ?case
  proof (cases "findIndex (\<lambda>b. b = LF) (drop (hr_pos r) (hr_buf r))")
    case None
    show ?thesis
    proof (cases "readerRunning r \<and> \<not> length (hr_buf r) \<ge> HTTP11_MAX_HEADER_SECTION")
      case True
      then have f: "readerFill env' s r = readerFill env s r" "bufferBounded (readerFill env s r)"
        using readerFill_agree [OF "1.prems"(1)] readerFill_bounded [OF "1.prems"(2)] by simp_all
      show ?thesis using True None f "1.IH" [OF None _ _ "1.prems"(1)]
        by (simp add: readerReadLine.simps [of env s r] readerReadLine.simps [of env' s r])
    next
      case False
      then show ?thesis using None "1.prems"(2)
        by (auto simp: readerReadLine.simps [of env s r] readerReadLine.simps [of env' s r])
    qed
  next
    case (Some i)
    let ?line = "chopCR (take i (drop (hr_pos r) (hr_buf r)))"
    have "length ?line \<le> length (take i (drop (hr_pos r) (hr_buf r)))" by (auto simp: chopCR_def simp del: length_take)
    also have "\<dots> \<le> length (hr_buf r)" by simp
    finally have "length ?line \<le> length (hr_buf r)" .
    then have "ev_alloc env' (length ?line + 1) = ev_alloc env (length ?line + 1)"
      using "1.prems" by (auto simp: agreeUpTo_def bufferBounded_def)
    then show ?thesis using Some "1.prems"(2)
      by (simp add: readerReadLine.simps [of env s r] readerReadLine.simps [of env' s r] Let_def bufferBounded_def)
  qed
qed

lemma readHeaderSection_agree:
  "agreeUpTo HTTP11_PEAK env env' \<Longrightarrow> bufferBounded r \<Longrightarrow> readHeaderSection env' s r = readHeaderSection env s r
     \<and> bufferBounded (snd (snd (readHeaderSection env s r)))"
proof (induction env s r rule: readHeaderSection.induct)
  case (1 env s r)
  obtain rc line r' where l: "readerReadLine env s r = (rc, line, r')" using prod_cases3 by blast
  have a: "readerReadLine env' s r = (rc, line, r')" "bufferBounded r'"
    using readerReadLine_agree [OF "1.prems", of s] l by simp_all
  show ?case
  proof (cases "rc = 1 \<and> line \<noteq> []")
    case True
    then show ?thesis using "1.IH" [OF l [symmetric] refl _ _ "1.prems"(1) a(2)] l a
      by (simp add: readHeaderSection.simps [of env s r] readHeaderSection.simps [of env' s r])
  next
    case False
    then show ?thesis using l a
      by (auto simp: readHeaderSection.simps [of env s r] readHeaderSection.simps [of env' s r])
  qed
qed

text \<open>The head of a response is read in bounded memory, whatever the peer sends: no allocation of
  more than 81,920 bytes is ever asked for (the outcome does not depend on whether a larger one
  would succeed), and the buffer ends up below that size.\<close>

theorem http11_head_bounded:
  assumes "\<forall>n\<le>81920. ev_alloc env' n = ev_alloc env n" "ev_now env' = ev_now env"
    and "\<forall>a\<in>set (hr_net r). case at_io a of IoBytes bs \<Rightarrow> length bs \<le> HTTP11_READ_CHUNK | _ \<Rightarrow> True" and "hr_buf r = []"
  shows "readResponseHead env' s r = readResponseHead env s r \<and> length (hr_buf (snd (snd (readResponseHead env s r)))) < 81920"
proof -
  have p: "HTTP11_PEAK = 81920" by (simp add: HTTP11_PEAK_def HTTP11_MAX_HEADER_SECTION_def HTTP11_READ_CHUNK_def)
  have a: "agreeUpTo HTTP11_PEAK env env'" using assms(1,2) by (simp add: agreeUpTo_def p)
  have b: "bufferBounded r" using assms(3,4) by (simp add: bufferBounded_def readsBounded_def p)
  obtain rc line r' where l: "readerReadLine env s r = (rc, line, r')" using prod_cases3 by blast
  have l': "readerReadLine env' s r = (rc, line, r')" "bufferBounded r'"
    using readerReadLine_agree [OF a b, of s] l by simp_all
  note h = readHeaderSection_agree [OF a l'(2)]
  obtain s1 status where st: "(if rc = 1 then parseStatusLine line s else (s, -1)) = (s1, status)" by fastforce
  obtain hrc s2 r2 where hd: "readHeaderSection env s1 r' = (hrc, s2, r2)" using prod_cases3 by blast
  then have hd': "readHeaderSection env' s1 r' = (hrc, s2, r2)" "bufferBounded r2" using h [of s1] by simp_all
  show ?thesis using l l' st hd hd'
    by (simp add: readResponseHead_def bufferBounded_def p Let_def)
qed

lemma http11_head_bounded_witness:
  "let r = \<lparr>hr_ssl = False, hr_net = [deliver (strBytes ''HTTP/1.1 200'')], hr_buf = [], hr_pos = 0, hr_deadline = (10, 0),
            hr_timeout = 10000, hr_eof = False, hr_err = NoErr, hr_now = 0\<rparr>
   in readResponseHead ((roomyEnv runLib)\<lparr>ev_alloc := \<lambda>n. n \<le> 81920\<rparr>) (emptyStream None) r
    = readResponseHead (roomyEnv runLib) (emptyStream None) r"
  using http11_head_bounded [of "(roomyEnv runLib)\<lparr>ev_alloc := \<lambda>n. n \<le> 81920\<rparr>" "roomyEnv runLib"
      "\<lparr>hr_ssl = False, hr_net = [deliver (strBytes ''HTTP/1.1 200'')], hr_buf = [], hr_pos = 0, hr_deadline = (10, 0),
            hr_timeout = 10000, hr_eof = False, hr_err = NoErr, hr_now = 0\<rparr>" "emptyStream None"]
  by (simp add: Let_def roomyEnv_def deliver_def HTTP11_READ_CHUNK_def)

section \<open>The body loops end\<close>

definition plainSink :: "'z hstream \<Rightarrow> bool" where
  "plainSink s \<longleftrightarrow> (case st_sink s of None \<Rightarrow> True | Some sink \<Rightarrow> sk_decompressor sink = None \<and> sk_decompressMask sink = 0)"

lemma append_plain:
  assumes "plainSink s"
  shows "\<exists>s' keep. appendStreamPayload env s d = Some (s', keep) \<and> plainSink s' \<and> (keep \<longrightarrow> st_error s' = st_error s)"
proof (cases "st_sink s")
  case None
  then show ?thesis by (auto simp: appendStreamPayload_def bufferStreamPayload_def plainSink_def)
next
  case (Some sink)
  have d: "sk_decompressor sink = None" "sk_decompressMask sink = 0" using assms Some by (simp_all add: plainSink_def)
  obtain s1 n a where c: "consumeResponseBody env (s, 0) d = ((s1, n), a)" by (metis prod.exhaust)
  have p: "\<exists>sink1. st_sink s1 = Some sink1 \<and> sk_decompressMask sink1 = 0" "\<not> a \<longrightarrow> st_error s1 = st_error s"
    using c Some d(2) by (auto simp: consumeResponseBody_def bufferStreamPayload_def withSink_def abortResponseSink_def record_event_def Let_def
        split: if_splits option.splits)
  then obtain sink1 where s1: "st_sink s1 = Some sink1" "sk_decompressMask sink1 = 0" by blast
  have "appendStreamPayload env s d = (if d = [] then Some (s, True) else if sk_aborted sink then Some (s, False)
      else Some (settleDelivery env (if a then FedAborted else FedAll) None s1 n))"
    using Some d c by (simp add: appendStreamPayload_def deliverStreamPayload_def feed_identity)
  then show ?thesis using assms p(2) s1
    by (auto simp: settleDelivery_def plainSink_def Let_def)
qed

text \<open>The part of a body read that matters to the session: it ends, and 1 or 0 comes without a new error.\<close>

definition bodyEnds :: "'z hstream \<Rightarrow> (int \<times> 'z hstream \<times> http11Reader) option \<Rightarrow> bool" where
  "bodyEnds s x \<longleftrightarrow> (case x of None \<Rightarrow> False | Some (rc, s', r') \<Rightarrow> plainSink s' \<and> (rc = 1 \<or> rc = 0 \<longrightarrow> st_error s' = st_error s))"

lemma bodyEnds_from: "bodyEnds s1 x \<Longrightarrow> st_error s1 = st_error s \<Longrightarrow> bodyEnds s x"
  by (simp add: bodyEnds_def split: option.splits prod.splits)

lemma readBytes_ends: "plainSink s \<Longrightarrow> bodyEnds s (readerReadBody env s r n)"
proof (induction env s r n rule: readerReadBody.induct)
  case (1 env s r n)
  let ?avail = "drop (hr_pos r) (hr_buf r)"
  obtain s1 keep where a: "appendStreamPayload (atTime (hr_now r) env) s (take (min n (length ?avail)) ?avail) = Some (s1, keep)"
    "plainSink s1" "keep \<longrightarrow> st_error s1 = st_error s" using append_plain [OF "1.prems"] by metis
  consider "n = 0" | "n > 0" "?avail = []" "\<not> readerRunning r" | "n > 0" "?avail = []" "readerRunning r"
    | "n > 0" "?avail \<noteq> []" by blast
  then show ?case
  proof cases
    case 1
    then show ?thesis using "1.prems" by (simp add: readerReadBody.simps [of env s r] bodyEnds_def)
  next
    case 2
    then show ?thesis using "1.prems" by (simp add: readerReadBody.simps [of env s r] bodyEnds_def)
  next
    case 3
    then show ?thesis using "1.IH"(2) [OF _ refl _ _ "1.prems"] by (simp add: readerReadBody.simps [of env s r])
  next
    case 4
    show ?thesis
    proof (cases keep)
      case True
      have "bodyEnds s1 (readerReadBody env s1 (r\<lparr>hr_pos := hr_pos r + min n (length ?avail)\<rparr>) (n - min n (length ?avail)))"
        by (rule "1.IH"(1) [OF _ refl _ refl a(1) refl refl]) (use 4 True a in simp_all)
      then have "bodyEnds s (readerReadBody env s1 (r\<lparr>hr_pos := hr_pos r + min n (length ?avail)\<rparr>) (n - min n (length ?avail)))"
        by (rule bodyEnds_from) (use a(3) True in simp)
      then show ?thesis using 4 a True
        by (simp add: readerReadBody.simps [of env s r] Let_def del: length_drop)
    next
      case False
      then show ?thesis using 4 a by (simp add: readerReadBody.simps [of env s r] Let_def bodyEnds_def del: length_drop)
    qed
  qed
qed

lemma readChunks_ends: "plainSink s \<Longrightarrow> bodyEnds s (readChunkedBody env s r)"
proof (induction env s r rule: readChunkedBody.induct)
  case (1 env s r)
  obtain rc line r1 where l: "readerReadLine env s r = (rc, line, r1)" using prod_cases3 by blast
  obtain trc r2 where t: "skipTrailers env s r1 = (trc, r2)" by fastforce
  show ?case
  proof (cases "rc \<noteq> 1 \<or> chunkSizeOf line \<le> 0")
    case True
    then show ?thesis using l t "1.prems" by (auto simp: readChunkedBody.simps [of env s r] bodyEnds_def)
  next
    case False
    have "bodyEnds s (readerReadBody env s r1 (nat (chunkSizeOf line)))" by (rule readBytes_ends [OF "1.prems"])
    then obtain drc s2 r2 where b: "readerReadBody env s r1 (nat (chunkSizeOf line)) = Some (drc, s2, r2)"
      "plainSink s2" "drc = 1 \<or> drc = 0 \<longrightarrow> st_error s2 = st_error s" by (auto simp: bodyEnds_def split: option.splits)
    obtain crc c r3 where m: "readerReadLine env s2 r2 = (crc, c, r3)" using prod_cases3 by blast
    show ?thesis
    proof (cases "drc = 1 \<and> crc = 1")
      case True
      have "bodyEnds s2 (readChunkedBody env s2 r3)"
        by (rule "1.IH" [OF l [symmetric] refl _ _ _ b(1) refl refl _ m [symmetric] refl]) (use False True b in simp_all)
      then have "bodyEnds s (readChunkedBody env s2 r3)" by (rule bodyEnds_from) (use True b in simp)
      then show ?thesis using False True l b m by (simp add: readChunkedBody.simps [of env s r])
    next
      case nok: False
      then show ?thesis using False l b m by (auto simp: readChunkedBody.simps [of env s r] bodyEnds_def)
    qed
  qed
qed

lemma readUntilClose_ends: "plainSink s \<Longrightarrow> bodyEnds s (readUntilCloseBody env s r)"
proof (induction env s r rule: readUntilCloseBody.induct)
  case (1 env s r)
  obtain rc net where n: "sessionReadTimed (hr_ssl r) (hr_deadline r) (hr_net r) = (rc, net)" by fastforce
  let ?now = "clockAfter (hr_now r) (hr_net r) net"
  show ?case
  proof (cases rc)
    case (ReadBytes bs)
    obtain s1 keep where a: "appendStreamPayload (atTime ?now env) s bs = Some (s1, keep)"
      "plainSink s1" "keep \<longrightarrow> st_error s1 = st_error s" using append_plain [OF "1.prems"] by metis
    show ?thesis
    proof (cases keep)
      case True
      have "bodyEnds s1 (readUntilCloseBody env s1 (r\<lparr>hr_net := net, hr_now := ?now\<rparr>))"
        by (rule "1.IH" [OF n [symmetric] refl ReadBytes _ refl]) (use True a in simp_all)
      then have "bodyEnds s (readUntilCloseBody env s1 (r\<lparr>hr_net := net, hr_now := ?now\<rparr>))" by (rule bodyEnds_from) (use True a in simp)
      then show ?thesis using n a True ReadBytes by (simp add: readUntilCloseBody.simps [of env s r])
    next
      case False
      then show ?thesis using n a ReadBytes by (simp add: readUntilCloseBody.simps [of env s r] bodyEnds_def)
    qed
  qed (use n "1.prems" in \<open>simp_all add: readUntilCloseBody.simps [of env s r] bodyEnds_def\<close>)
qed


lemma deliverHeaders_plain: "plainSink s \<Longrightarrow> plainSink (deliverResponseHeaders env s) \<and> st_error (deliverResponseHeaders env s) = st_error s"
  by (auto simp: deliverResponseHeaders_def prepareStreamDecoder_def plainSink_def record_event_def Let_def split: option.splits)

lemma takeResponseCancellation_error: "takeResponseCancellation s = (s', b) \<Longrightarrow> st_error s' = st_error s"
  by (auto simp: takeResponseCancellation_def split: option.splits if_splits)

lemma readHeaderSection_frame: "readHeaderSection env s r = (rc, s', r') \<Longrightarrow> st_sink s' = st_sink s \<and> st_error s' = st_error s"
proof (induction env s r rule: readHeaderSection.induct)
  case (1 env s r)
  obtain lrc line r1 where l: "readerReadLine env s r = (lrc, line, r1)" using prod_cases3 by blast
  have p: "st_sink (parseHeaderLine line s) = st_sink s \<and> st_error (parseHeaderLine line s) = st_error s"
    by (simp add: parseHeaderLine_def split: option.splits prod.splits)
  show ?case
  proof (cases "lrc = 1 \<and> line \<noteq> []")
    case True
    then show ?thesis using "1.IH" [OF l [symmetric] refl] "1.prems" l p by (simp add: readHeaderSection.simps [of env s r])
  next
    case False
    then show ?thesis using "1.prems" l by (auto simp: readHeaderSection.simps [of env s r] split: if_splits)
  qed
qed

lemma readResponseHead_frame: "readResponseHead env s r = (status, s', r') \<Longrightarrow> st_sink s' = st_sink s \<and> (status \<ge> 0 \<longrightarrow> st_error s' = st_error s)"
proof -
  assume h: "readResponseHead env s r = (status, s', r')"
  obtain rc line r1 where l: "readerReadLine env s r = (rc, line, r1)" using prod_cases3 by blast
  obtain s1 st where st: "(if rc = 1 then parseStatusLine line s else (s, -1)) = (s1, st)" by fastforce
  have f: "st_sink s1 = st_sink s" "st_error s1 = st_error s"
    using st by (auto simp: parseStatusLine_def Let_def split: if_splits)
  obtain hrc s2 r2 where hd: "readHeaderSection env s1 r1 = (hrc, s2, r2)" using prod_cases3 by blast
  show ?thesis using h l st hd f readHeaderSection_frame [OF hd]
    by (auto simp: readResponseHead_def Let_def split: if_splits)
qed

definition bodySettled :: "(int \<times> bool \<times> 'z hstream \<times> http11Reader) option \<Rightarrow> bool" where
  "bodySettled x \<longleftrightarrow> (case x of None \<Rightarrow> False | Some (rc, u, s', r') \<Rightarrow> rc = 1 \<or> rc = 0 \<longrightarrow> \<not> failed (st_error s'))"

lemma bodyEnds_settled:
  assumes "bodyEnds s b" "\<not> failed (st_error s)"
  shows "bodySettled (map_option (\<lambda>(rc, stream, reader). let (stream, rc) = classifyBodyError rc stream in (rc, u, stream, reader)) b)"
proof -
  obtain rc s' r' where b: "b = Some (rc, s', r')" "rc = 1 \<or> rc = 0 \<longrightarrow> st_error s' = st_error s"
    using assms(1) by (auto simp: bodyEnds_def split: option.splits)
  obtain s2 rc2 where c: "classifyBodyError rc s' = (s2, rc2)" by fastforce
  then have "rc2 = 1 \<or> rc2 = 0 \<longrightarrow> s2 = s' \<and> rc2 = rc" by (auto simp: classifyBodyError_def split: if_splits)
  then show ?thesis using b c assms(2) by (auto simp: bodySettled_def)
qed

lemma readBody_settled:
  assumes "plainSink s" "\<not> failed (st_error s)"
  shows "bodySettled (readBody env method s r n)"
proof -
  note settle = bodyEnds_settled [OF _ assms(2)]
  have "bodyEnds s (Some (-1, s, r))" "bodyEnds s (readContentLengthBody env s r m)" for m
    using assms(1) readBytes_ends [OF assms(1)] by (auto simp: bodyEnds_def readContentLengthBody_def)
  note s = this [THEN settle] readChunks_ends [OF assms(1), THEN settle] readUntilClose_ends [OF assms(1), THEN settle]
  have "bodySettled (Some (1, False, s, r))" using assms(2) by (simp add: bodySettled_def)
  then show ?thesis unfolding readBody_def Let_def using s by (auto simp: Let_def split: option.splits)
qed

end
