(* ===== verification/Http11Ends.thy ===== *)
theory Http11Ends
  imports Http11Props
begin

text \<open>
  The HTTP/1.1 exchange ends at its deadline: an attempt that has to wait for the connection after
  every deadline the reader can hold is the last one, and nothing behind it is looked at.
\<close>

section \<open>An attempt after the deadline\<close>

definition expired :: "attempt \<Rightarrow> int \<times> int \<Rightarrow> bool" where
  "expired late d \<longleftrightarrow> deadlineRemainingMs d (at_now late) \<le> 0"

definition expiredAt :: "attempt \<Rightarrow> int \<Rightarrow> int \<Rightarrow> bool" where
  "expiredAt late ms l \<longleftrightarrow> expired late (renewedDeadline ms l)"

text \<open>An attempt decides the read or is passed over, whatever comes behind it.\<close>

lemma sessionReadTimed_step:
  "(\<exists>rc. \<forall>as. sessionReadTimed ssl d (a # as) = (rc, as)) \<or> (\<forall>as. sessionReadTimed ssl d (a # as) = sessionReadTimed ssl d as)"
proof (cases "(\<not> ssl \<or> \<not> at_pending a) \<and> deadlineRemainingMs d (at_now a) \<le> 0")
  case True
  then show ?thesis by simp
next
  case False
  let ?sel = "if \<not> ssl \<or> \<not> at_pending a then at_select a else SelReady"
  have e: "sessionReadTimed ssl d (a # as) = (case ?sel of SelTimeout \<Rightarrow> (ReadTimeout, as)
      | SelInterrupted \<Rightarrow> sessionReadTimed ssl d as | SelFailed \<Rightarrow> (ReadError, as)
      | SelReady \<Rightarrow> (case at_io a of IoBytes bs \<Rightarrow> (ReadBytes bs, as) | IoClosed \<Rightarrow> (ReadClosed, as)
          | IoWantRead \<Rightarrow> sessionReadTimed ssl d as | IoWantWrite \<Rightarrow> sessionReadTimed ssl d as
          | IoError e \<Rightarrow> if \<not> ssl \<and> isRetryableSocketError e then sessionReadTimed ssl d as else (ReadError, as)))" for as
    using False unfolding sessionReadTimed.simps Let_def by (simp only: if_False)
  show ?thesis unfolding e 
    by (cases ?sel; cases "at_io a"; cases ssl; cases "isRetryableSocketError (case at_io a of IoError e \<Rightarrow> e | _ \<Rightarrow> 0)") simp_all
qed

lemma sessionReadTimed_late:
  assumes "\<not> ssl \<or> \<not> at_pending late" "expired late d"
  obtains rc kept where "\<And>rest. sessionReadTimed ssl d (m @ late # rest) = (rc, kept @ rest)"
    "rc \<noteq> ReadTimeout \<Longrightarrow> \<exists>j k. j \<noteq> [] \<and> m = j @ k \<and> kept = k @ [late]" "length kept \<le> length m + 1"
proof -
  have "\<exists>rc kept. (\<forall>rest. sessionReadTimed ssl d (m @ late # rest) = (rc, kept @ rest))
    \<and> (rc \<noteq> ReadTimeout \<longrightarrow> (\<exists>j k. j \<noteq> [] \<and> m = j @ k \<and> kept = k @ [late])) \<and> length kept \<le> length m + 1"
  proof (induction m)
    case Nil
    show ?case by (rule exI [of _ ReadTimeout], rule exI [of _ "[]"]) (use assms in \<open>auto simp: expired_def\<close>)
  next
    case (Cons a m)
    then obtain rc kept where ih: "\<And>rest. sessionReadTimed ssl d (m @ late # rest) = (rc, kept @ rest)"
      "rc \<noteq> ReadTimeout \<Longrightarrow> \<exists>j k. j \<noteq> [] \<and> m = j @ k \<and> kept = k @ [late]" "length kept \<le> length m + 1" by blast
    have here: "?case" if "\<And>rest. sessionReadTimed ssl d ((a # m) @ late # rest) = (rc', (m @ [late]) @ rest)" for rc'
    proof -
      have "[a] \<noteq> [] \<and> a # m = [a] @ m \<and> m @ [late] = m @ [late]" by simp
      then show ?thesis using that by (metis length_append_singleton length_Cons Suc_eq_plus1 le_Suc_eq order_refl)
    qed
    have later: "?case" if "\<And>rest. sessionReadTimed ssl d ((a # m) @ late # rest) = sessionReadTimed ssl d (m @ late # rest)"
    proof -
      have "\<exists>j k. j \<noteq> [] \<and> a # m = j @ k \<and> kept = k @ [late]" if "rc \<noteq> ReadTimeout"
        using ih(2) [OF that] by (metis append_Cons list.distinct(1))
      then show ?thesis using that ih(1,3) by (metis le_SucI length_Cons add_Suc)
    qed
    consider "\<exists>rc'. \<forall>rest. sessionReadTimed ssl d ((a # m) @ late # rest) = (rc', (m @ [late]) @ rest)"
      | "\<forall>rest. sessionReadTimed ssl d ((a # m) @ late # rest) = sessionReadTimed ssl d (m @ late # rest)"
      using sessionReadTimed_step [of ssl d a] by (metis append_Cons append_assoc append_Nil)
    then show ?case using here later by cases blast+
  qed
  then show ?thesis using that by blast
qed

lemma clockAfter_append: "length kept \<le> length net \<Longrightarrow> clockAfter now (net @ rest) (kept @ rest) = clockAfter now net kept"
  by (simp add: clockAfter_def)

lemma clockAfter_read: "j \<noteq> [] \<Longrightarrow> clockAfter now ((j @ k) @ [late]) (k @ [late]) = fst (at_now (last j))"
  by (cases j rule: rev_cases) (simp_all add: clockAfter_def)

section \<open>The reader before such an attempt\<close>

text \<open>The same reader with more attempts behind the ones it has.\<close>

definition followedBy :: "attempt list \<Rightarrow> http11Reader \<Rightarrow> http11Reader" where
  "followedBy rest r = r\<lparr>hr_net := hr_net r @ rest\<rparr>"

lemma followedBy_fields [simp]:
  "hr_ssl (followedBy rest r) = hr_ssl r" "hr_net (followedBy rest r) = hr_net r @ rest" "hr_buf (followedBy rest r) = hr_buf r"
  "hr_pos (followedBy rest r) = hr_pos r" "hr_deadline (followedBy rest r) = hr_deadline r" "hr_timeout (followedBy rest r) = hr_timeout r"
  "hr_eof (followedBy rest r) = hr_eof r" "hr_err (followedBy rest r) = hr_err r" "hr_now (followedBy rest r) = hr_now r"
  "readerRunning (followedBy rest r) = readerRunning r" "readerEndCode (followedBy rest r) = readerEndCode r"
  "(followedBy rest r)\<lparr>hr_pos := p\<rparr> = followedBy rest (r\<lparr>hr_pos := p\<rparr>)"
  by (simp_all add: followedBy_def readerRunning_def readerEndCode_def)

definition overdue :: "attempt \<Rightarrow> int \<Rightarrow> 'z hstream \<Rightarrow> http11Reader \<Rightarrow> bool" where
  "overdue late ms s r \<longleftrightarrow> hr_timeout r = ms \<and> (\<not> hr_ssl r \<or> \<not> at_pending late) \<and> (readerRunning r \<longrightarrow>
     (\<exists>m. hr_net r = m @ [late] \<and> expired late (hr_deadline r) \<and> (\<forall>a\<in>set m. expiredAt late ms (fst (at_now a))))
     \<and> expiredAt late ms (hr_now r) \<and> expiredAt late ms (st_lastActivityTime s))"

lemma overdue_pos [simp]: "overdue late ms s (r\<lparr>hr_pos := p\<rparr>) = overdue late ms s r"
  by (simp add: overdue_def readerRunning_def)

lemma overdue_stream: "overdue late ms s r \<Longrightarrow> st_lastActivityTime s' \<in> {st_lastActivityTime s, hr_now r} \<Longrightarrow> overdue late ms s' r"
  by (auto simp: overdue_def)

lemma renew_expired:
  "expired late d \<Longrightarrow> expiredAt late ms (st_lastActivityTime s) \<Longrightarrow> expired late (fst (renewStreamDeadline now s ms d))"
  by (simp add: renewStreamDeadline_def expiredAt_def renewedDeadline_def Let_def)

text \<open>One read of a overdue reader: the same whatever comes behind, and overdue again.\<close>

lemma read_overdue:
  assumes "overdue late ms s r" "readerRunning r"
  obtains rc kept where "\<And>rest. sessionReadTimed (hr_ssl r) (hr_deadline r) (hr_net r @ rest) = (rc, kept @ rest)"
    "\<And>rest. clockAfter (hr_now r) (hr_net r @ rest) (kept @ rest) = clockAfter (hr_now r) (hr_net r) kept"
    "rc \<noteq> ReadTimeout \<Longrightarrow> \<exists>m. kept = m @ [late] \<and> (\<forall>a\<in>set m. expiredAt late ms (fst (at_now a)))"
    "rc \<noteq> ReadTimeout \<Longrightarrow> expiredAt late ms (clockAfter (hr_now r) (hr_net r) kept)"
proof -
  obtain m where m: "hr_net r = m @ [late]" "expired late (hr_deadline r)" "\<forall>a\<in>set m. expiredAt late ms (fst (at_now a))"
    and p: "\<not> hr_ssl r \<or> \<not> at_pending late" using assms by (auto simp: overdue_def)
  obtain rc kept where s: "\<And>rest. sessionReadTimed (hr_ssl r) (hr_deadline r) (m @ late # rest) = (rc, kept @ rest)"
    "rc \<noteq> ReadTimeout \<Longrightarrow> \<exists>j k. j \<noteq> [] \<and> m = j @ k \<and> kept = k @ [late]" "length kept \<le> length m + 1"
    using sessionReadTimed_late [OF p m(2)] by metis
  have more: "\<exists>m. kept = m @ [late] \<and> (\<forall>a\<in>set m. expiredAt late ms (fst (at_now a)))"
    and clock: "expiredAt late ms (clockAfter (hr_now r) (hr_net r) kept)" if go: "rc \<noteq> ReadTimeout"
  proof -
    obtain j k where jk: "j \<noteq> []" "m = j @ k" "kept = k @ [late]" using s(2) [OF go] by blast
    show "\<exists>m. kept = m @ [late] \<and> (\<forall>a\<in>set m. expiredAt late ms (fst (at_now a)))" using jk m(3) by auto
    have "last j \<in> set m" using jk by simp
    then show "expiredAt late ms (clockAfter (hr_now r) (hr_net r) kept)"
      using m(1,3) clockAfter_read [OF jk(1)] jk(2,3) by simp
  qed
  show ?thesis
  proof (rule that [of rc kept])
    show "sessionReadTimed (hr_ssl r) (hr_deadline r) (hr_net r @ rest) = (rc, kept @ rest)" for rest using s(1) m(1) by simp
    show "clockAfter (hr_now r) (hr_net r @ rest) (kept @ rest) = clockAfter (hr_now r) (hr_net r) kept" for rest
      by (rule clockAfter_append) (use s(3) m(1) in simp)
  qed (use more clock in blast)+
qed

lemma readerFill_idle: "\<not> readerRunning r \<Longrightarrow> readerFill env s r = r"
  by (auto simp: readerFill_def readerRunning_def)

lemma readerFill_followed:
  assumes "overdue late ms s r"
  shows "readerFill env s (followedBy rest r) = followedBy rest (readerFill env s r)" "overdue late ms s (readerFill env s r)"
proof -
  have "readerFill env s (followedBy rest r) = followedBy rest (readerFill env s r) \<and> overdue late ms s (readerFill env s r)"
  proof (cases "readerRunning r")
    case False
    then show ?thesis using assms by (simp add: readerFill_idle)
  next
    case True
    obtain rc kept where s: "\<And>rest. sessionReadTimed (hr_ssl r) (hr_deadline r) (hr_net r @ rest) = (rc, kept @ rest)"
      "\<And>rest. clockAfter (hr_now r) (hr_net r @ rest) (kept @ rest) = clockAfter (hr_now r) (hr_net r) kept"
      "rc \<noteq> ReadTimeout \<Longrightarrow> \<exists>m. kept = m @ [late] \<and> (\<forall>a\<in>set m. expiredAt late ms (fst (at_now a)))"
      "rc \<noteq> ReadTimeout \<Longrightarrow> expiredAt late ms (clockAfter (hr_now r) (hr_net r) kept)"
      using read_overdue [OF assms True] by metis
    have s0: "sessionReadTimed (hr_ssl r) (hr_deadline r) (hr_net r) = (rc, kept)" using s(1) [of "[]"] by simp
    have d: "hr_timeout r = ms" "expired late (hr_deadline r)" "expiredAt late ms (st_lastActivityTime s)" "hr_err r = NoErr" "\<not> hr_eof r"
      "\<not> hr_ssl r \<or> \<not> at_pending late"
      using assms True by (auto simp: overdue_def readerRunning_def)
    show ?thesis using s s0 d renew_expired [OF d(2,3)]
      by (cases rc) (auto simp: readerFill_def Let_def followedBy_def overdue_def readerRunning_def)
  qed
  then show "readerFill env s (followedBy rest r) = followedBy rest (readerFill env s r)" "overdue late ms s (readerFill env s r)" by blast+
qed

lemma readerFill_stops:
  "readerRunning r \<Longrightarrow> \<not> readerRunning (readerFill env s r) \<Longrightarrow>
     drop (hr_pos (readerFill env s r)) (hr_buf (readerFill env s r)) = drop (hr_pos r) (hr_buf r)"
  by (auto simp: readerFill_def readerRunning_def Let_def split: prod.splits readRc.splits if_splits)

lemma readerReadLine_followed:
  "overdue late ms s r \<Longrightarrow> readerReadLine env s r = (rc, line, r') \<Longrightarrow>
     readerReadLine env s (followedBy rest r) = (rc, line, followedBy rest r') \<and> overdue late ms s r'
     \<and> (rc = 1 \<longrightarrow> readerRunning r \<longrightarrow> readerRunning r')"
proof (induction env s r arbitrary: rc line r' rule: readerReadLine.induct)
  case (1 env s r)
  let ?r = "readerFill env s r"
  show ?case
  proof (cases "findIndex (\<lambda>b. b = LF) (drop (hr_pos r) (hr_buf r))")
    case None
    show ?thesis
    proof (cases "readerRunning r \<and> \<not> length (hr_buf r) \<ge> HTTP11_MAX_HEADER_SECTION")
      case True
      note f = readerFill_followed [OF "1.prems"(1)]
      have e: "readerReadLine env s r = readerReadLine env s ?r"
        "readerReadLine env s (followedBy rest r) = readerReadLine env s (followedBy rest ?r)"
        using True None f(1) [of env rest]
        by (simp_all add: readerReadLine.simps [of env s r] readerReadLine.simps [of env s "followedBy rest r"])
      have ih: "readerReadLine env s (followedBy rest ?r) = (rc, line, followedBy rest r') \<and> overdue late ms s r'
          \<and> (rc = 1 \<longrightarrow> readerRunning ?r \<longrightarrow> readerRunning r')"
        by (rule "1.IH" [OF None _ _ f(2)]) (use True e(1) "1.prems"(2) in simp_all)
      have "rc \<noteq> 1" if stop: "\<not> readerRunning ?r"
      proof -
        have "findIndex (\<lambda>b. b = LF) (drop (hr_pos ?r) (hr_buf ?r)) = None" using readerFill_stops [OF _ stop] True None by simp
        then show ?thesis using e(1) "1.prems"(2) stop by (auto simp: readerReadLine.simps [of env s ?r])
      qed
      then show ?thesis using ih e(2) by auto
    next
      case False
      then show ?thesis using None "1.prems"
        by (auto simp: readerReadLine.simps [of env s r] readerReadLine.simps [of env s "followedBy rest r"] split: if_splits)
    qed
  next
    case (Some i)
    then show ?thesis using "1.prems"
      by (auto simp: readerReadLine.simps [of env s r] readerReadLine.simps [of env s "followedBy rest r"] Let_def readerRunning_def split: if_splits)
  qed
qed

lemma readHeaderSection_followed:
  "overdue late ms s r \<Longrightarrow> readHeaderSection env s r = (rc, s', r') \<Longrightarrow>
     readHeaderSection env s (followedBy rest r) = (rc, s', followedBy rest r') \<and> overdue late ms s' r'
     \<and> (rc = 1 \<longrightarrow> readerRunning r \<longrightarrow> readerRunning r')"
proof (induction env s r arbitrary: rc s' r' rule: readHeaderSection.induct)
  case (1 env s r)
  obtain lrc line r1 where l: "readerReadLine env s r = (lrc, line, r1)" using prod_cases3 by blast
  note f = readerReadLine_followed [OF "1.prems"(1) l, of rest]
  show ?case
  proof (cases "lrc = 1 \<and> line \<noteq> []")
    case True
    have act: "st_lastActivityTime (parseHeaderLine line s) = st_lastActivityTime s"
      by (simp add: parseHeaderLine_def addStreamHeader_def split: option.splits prod.splits)
    have d: "overdue late ms (parseHeaderLine line s) r1" by (rule overdue_stream [of late ms s]) (use f act in simp_all)
    have "readHeaderSection env (parseHeaderLine line s) r1 = (rc, s', r')"
      using "1.prems"(2) l True by (simp add: readHeaderSection.simps [of env s r])
    then have ih: "readHeaderSection env (parseHeaderLine line s) (followedBy rest r1) = (rc, s', followedBy rest r')
        \<and> overdue late ms s' r' \<and> (rc = 1 \<longrightarrow> readerRunning r1 \<longrightarrow> readerRunning r')"
      by (intro "1.IH" [OF l [symmetric] refl _ _ d]) (use True in simp_all)
    have "readHeaderSection env s (followedBy rest r) = readHeaderSection env (parseHeaderLine line s) (followedBy rest r1)"
      using True f by (simp add: readHeaderSection.simps [of env s "followedBy rest r"])
    then show ?thesis using ih f True by simp
  next
    case False
    then show ?thesis using "1.prems"(2) l f
      by (auto simp: readHeaderSection.simps [of env s r] readHeaderSection.simps [of env s "followedBy rest r"] split: if_splits)
  qed
qed

lemma skipTrailers_followed:
  "overdue late ms s r \<Longrightarrow> skipTrailers env s r = (rc, r') \<Longrightarrow> skipTrailers env s (followedBy rest r) = (rc, followedBy rest r')"
proof (induction env s r arbitrary: rc r' rule: skipTrailers.induct)
  case (1 env s r)
  obtain lrc line r1 where l: "readerReadLine env s r = (lrc, line, r1)" using prod_cases3 by blast
  note f = readerReadLine_followed [OF "1.prems"(1) l, of rest]
  show ?case
  proof (cases "lrc = 1 \<and> \<not> isTrailerEnd line")
    case True
    then have "skipTrailers env s r1 = (rc, r')" using "1.prems"(2) l by (simp add: skipTrailers.simps [of env s r])
    then show ?thesis using "1.IH" [OF l [symmetric] refl] True f by (simp add: skipTrailers.simps [of env s "followedBy rest r"])
  next
    case False
    then show ?thesis using "1.prems"(2) l f
      by (auto simp: skipTrailers.simps [of env s r] skipTrailers.simps [of env s "followedBy rest r"] split: if_splits)
  qed
qed

section \<open>The body before such an attempt\<close>

lemma append_activity:
  assumes "plainSink s" "appendStreamPayload env s d = Some (s', keep)"
  shows "plainSink s' \<and> st_lastActivityTime s' \<in> {st_lastActivityTime s, ev_now env}"
proof -
  have "st_lastActivityTime s' \<in> {st_lastActivityTime s, ev_now env}"
  proof (cases "st_sink s")
    case None
    then show ?thesis using assms(2) by (auto simp: appendStreamPayload_def bufferStreamPayload_def split: if_splits)
  next
    case (Some sink)
    have d: "sk_decompressor sink = None" using assms(1) Some by (simp add: plainSink_def)
    obtain s1 n a where c: "consumeResponseBody env (s, 0) d = ((s1, n), a)" by (metis prod.exhaust)
    have p: "st_lastActivityTime s1 \<in> {st_lastActivityTime s, ev_now env}"
      using c by (auto simp: consumeResponseBody_def bufferStreamPayload_def withSink_def abortResponseSink_def record_event_def Let_def
        split: if_splits option.splits)
    have "appendStreamPayload env s d = (if d = [] then Some (s, True) else if sk_aborted sink then Some (s, False)
        else Some (settleDelivery env (if a then FedAborted else FedAll) None s1 n))"
      using Some d c by (simp add: appendStreamPayload_def deliverStreamPayload_def feed_identity)
    then show ?thesis using assms(2) p by (auto simp: settleDelivery_def withSink_def abortResponseSink_def Let_def split: if_splits option.splits)
  qed
  moreover have "plainSink s'" using append_plain [OF assms(1), of env d] assms(2) by auto
  ultimately show ?thesis by simp
qed

definition moreBehind :: "attempt list \<Rightarrow> (int \<times> 'z hstream \<times> http11Reader) option \<Rightarrow> (int \<times> 'z hstream \<times> http11Reader) option" where
  "moreBehind rest x = map_option (\<lambda>(rc, s, r). (rc, s, followedBy rest r)) x"

lemma moreBehind_simps [simp]: "moreBehind rest None = None" "moreBehind rest (Some (rc, s, r)) = Some (rc, s, followedBy rest r)"
  by (simp_all add: moreBehind_def)

lemma readerReadBody_followed:
  "overdue late ms s r \<Longrightarrow> plainSink s \<Longrightarrow> readerReadBody env s r n = Some (rc, s', r') \<Longrightarrow>
     readerReadBody env s (followedBy rest r) n = Some (rc, s', followedBy rest r') \<and> overdue late ms s' r' \<and> plainSink s'"
proof (induction env s r n arbitrary: rc s' r' rule: readerReadBody.induct)
  case (1 env s r n)
  let ?avail = "drop (hr_pos r) (hr_buf r)"
  consider "n = 0" | "n > 0" "?avail = []" "\<not> readerRunning r" | "n > 0" "?avail = []" "readerRunning r"
    | "n > 0" "?avail \<noteq> []" by blast
  then show ?case
  proof cases
    case 3
    note f = readerFill_followed [OF "1.prems"(1)]
    have e: "readerReadBody env s r n = readerReadBody env s (readerFill env s r) n"
      "readerReadBody env s (followedBy rest r) n = readerReadBody env s (followedBy rest (readerFill env s r)) n"
      using 3 f(1) [of env rest] by (simp_all add: readerReadBody.simps [of env s r] readerReadBody.simps [of env s "followedBy rest r"])
    show ?thesis using "1.IH"(2) [OF _ refl _ _ f(2) "1.prems"(2)] 3 "1.prems"(3) e by simp
  next
    case 4
    let ?n = "min n (length ?avail)"
    let ?r = "r\<lparr>hr_pos := hr_pos r + ?n\<rparr>"
    obtain s1 keep where a: "appendStreamPayload (atTime (hr_now r) env) s (take ?n ?avail) = Some (s1, keep)"
      using append_plain [OF "1.prems"(2)] by blast
    note act = append_activity [OF "1.prems"(2) a]
    have d: "overdue late ms s1 ?r" using overdue_stream [OF "1.prems"(1), of s1] act by simp
    show ?thesis
    proof (cases keep)
      case True
      have e: "readerReadBody env s r n = readerReadBody env s1 ?r (n - ?n)"
        "readerReadBody env s (followedBy rest r) n = readerReadBody env s1 (followedBy rest ?r) (n - ?n)"
        using 4 a True by (simp_all add: readerReadBody.simps [of env s r] readerReadBody.simps [of env s "followedBy rest r"] Let_def del: length_drop)
      have "readerReadBody env s1 ?r (n - ?n) = Some (rc, s', r')" using e(1) "1.prems"(3) by simp
      then have "readerReadBody env s1 (followedBy rest ?r) (n - ?n) = Some (rc, s', followedBy rest r') \<and> overdue late ms s' r' \<and> plainSink s'"
        by (intro "1.IH"(1) [OF _ refl _ refl a refl refl _ d]) (use 4 True act in simp_all)
      then show ?thesis using e(2) by simp
    next
      case False
      then show ?thesis using 4 a d act "1.prems"(3)
        by (auto simp: readerReadBody.simps [of env s r] readerReadBody.simps [of env s "followedBy rest r"] Let_def simp del: length_drop)
    qed
  next
    case 1
    then have "rc = 1 \<and> s' = s \<and> r' = r" using "1.prems"(3) by (simp add: readerReadBody.simps [of env s r])
    then show ?thesis using 1 "1.prems" by (simp add: readerReadBody.simps [of env s "followedBy rest r"])
  next
    case 2
    then have "rc = readerEndCode r \<and> s' = s \<and> r' = r" using "1.prems"(3) by (auto simp: readerReadBody.simps [of env s r])
    then show ?thesis using 2 "1.prems" by (simp add: readerReadBody.simps [of env s "followedBy rest r"])
  qed
qed

lemma readChunkedBody_followed:
  "overdue late ms s r \<Longrightarrow> plainSink s \<Longrightarrow> readChunkedBody env s r = Some (rc, s', r') \<Longrightarrow>
     readChunkedBody env s (followedBy rest r) = Some (rc, s', followedBy rest r')"
proof (induction env s r arbitrary: rc s' r' rule: readChunkedBody.induct)
  case (1 env s r)
  obtain lrc line r1 where l: "readerReadLine env s r = (lrc, line, r1)" using prod_cases3 by blast
  note f = readerReadLine_followed [OF "1.prems"(1) l, of rest]
  obtain trc r2 where t: "skipTrailers env s r1 = (trc, r2)" by fastforce
  have t': "skipTrailers env s (followedBy rest r1) = (trc, followedBy rest r2)" using skipTrailers_followed [OF _ t] f by blast
  show ?case
  proof (cases "lrc \<noteq> 1 \<or> chunkSizeOf line \<le> 0")
    case True
    then show ?thesis using l t t' f "1.prems"(3)
      by (auto simp: readChunkedBody.simps [of env s r] readChunkedBody.simps [of env s "followedBy rest r"])
  next
    case False
    have "bodyEnds s (readerReadBody env s r1 (nat (chunkSizeOf line)))" by (rule readBytes_ends [OF "1.prems"(2)])
    then obtain drc s2 r2 where b: "readerReadBody env s r1 (nat (chunkSizeOf line)) = Some (drc, s2, r2)"
      by (auto simp: bodyEnds_def split: option.splits)
    have b': "readerReadBody env s (followedBy rest r1) (nat (chunkSizeOf line)) = Some (drc, s2, followedBy rest r2)"
      "overdue late ms s2 r2" "plainSink s2"
      using readerReadBody_followed [OF _ "1.prems"(2) b] f by blast+
    obtain crc c r3 where m: "readerReadLine env s2 r2 = (crc, c, r3)" using prod_cases3 by blast
    note f3 = readerReadLine_followed [OF b'(2) m, of rest]
    show ?thesis
    proof (cases "drc = 1 \<and> crc = 1")
      case True
      have e: "readChunkedBody env s r = readChunkedBody env s2 r3"
        "readChunkedBody env s (followedBy rest r) = readChunkedBody env s2 (followedBy rest r3)"
        using False True l b b'(1) m f f3
        by (simp_all add: readChunkedBody.simps [of env s r] readChunkedBody.simps [of env s "followedBy rest r"])
      have "readChunkedBody env s2 (followedBy rest r3) = Some (rc, s', followedBy rest r')"
        by (rule "1.IH" [OF l [symmetric] refl _ _ _ b(1) refl refl _ m [symmetric] refl])
          (use False True b'(3) f3 e(1) "1.prems"(3) in simp_all)
      then show ?thesis using e(2) by simp
    next
      case nok: False
      then show ?thesis using False l b b'(1) m f f3 "1.prems"(3)
        by (auto simp: readChunkedBody.simps [of env s r] readChunkedBody.simps [of env s "followedBy rest r"])
    qed
  qed
qed

lemma readUntilCloseBody_followed:
  "overdue late ms s r \<Longrightarrow> readerRunning r \<Longrightarrow> plainSink s \<Longrightarrow> readUntilCloseBody env s r = Some (rc, s', r') \<Longrightarrow>
     readUntilCloseBody env s (followedBy rest r) = Some (rc, s', followedBy rest r')"
proof (induction env s r arbitrary: rc s' r' rule: readUntilCloseBody.induct)
  case (1 env s r)
  obtain rc1 kept where n: "\<And>rest. sessionReadTimed (hr_ssl r) (hr_deadline r) (hr_net r @ rest) = (rc1, kept @ rest)"
    "\<And>rest. clockAfter (hr_now r) (hr_net r @ rest) (kept @ rest) = clockAfter (hr_now r) (hr_net r) kept"
    "rc1 \<noteq> ReadTimeout \<Longrightarrow> \<exists>m. kept = m @ [late] \<and> (\<forall>a\<in>set m. expiredAt late ms (fst (at_now a)))"
    "rc1 \<noteq> ReadTimeout \<Longrightarrow> expiredAt late ms (clockAfter (hr_now r) (hr_net r) kept)"
    using read_overdue [OF "1.prems"(1,2)] by metis
  have n0: "sessionReadTimed (hr_ssl r) (hr_deadline r) (hr_net r) = (rc1, kept)" using n(1) [of "[]"] by simp
  let ?r = "r\<lparr>hr_net := kept, hr_now := clockAfter (hr_now r) (hr_net r) kept\<rparr>"
  have r: "(followedBy rest r)\<lparr>hr_net := kept @ rest, hr_now := clockAfter (hr_now r) (hr_net r) kept\<rparr> = followedBy rest ?r"
    by (simp add: followedBy_def)
  have stops: ?case if "(case rc1 of ReadBytes bs \<Rightarrow> False | ReadClosed \<Rightarrow> code = 0 | ReadError \<Rightarrow> code = -1 | ReadTimeout \<Rightarrow> code = -2)" for code :: int
  proof -
    have "readUntilCloseBody env s r = Some (code, s, ?r)"
      using n0 that by (simp add: readUntilCloseBody.simps [of env s r] split: readRc.splits)
    moreover have "readUntilCloseBody env s (followedBy rest r) = Some (code, s, followedBy rest ?r)"
      unfolding r [symmetric] using n that by (simp add: readUntilCloseBody.simps [of env s "followedBy rest r"] split: readRc.splits)
    ultimately show ?thesis using "1.prems"(4) by simp
  qed
  show ?case
  proof (cases rc1)
    case (ReadBytes bs)
    have run: "readerRunning ?r" using "1.prems"(2) by (simp add: readerRunning_def)
    obtain k where k: "kept = k @ [late]" "\<forall>a\<in>set k. expiredAt late ms (fst (at_now a))" using n(3) ReadBytes by auto
    have d: "overdue late ms s ?r" using "1.prems"(1,2) n(4) ReadBytes k by (auto simp: overdue_def readerRunning_def)
    obtain s1 keep where a: "appendStreamPayload (atTime (hr_now ?r) env) s bs = Some (s1, keep)"
      using append_plain [OF "1.prems"(3)] by blast
    note act = append_activity [OF "1.prems"(3) a]
    have d1: "overdue late ms s1 ?r" using overdue_stream [OF d, of s1] act by simp
    show ?thesis
    proof (cases keep)
      case True
      have e: "readUntilCloseBody env s r = readUntilCloseBody env s1 ?r"
        "readUntilCloseBody env s (followedBy rest r) = readUntilCloseBody env s1 (followedBy rest ?r)"
        using n n0 a True ReadBytes
        by (simp_all add: readUntilCloseBody.simps [of env s r] readUntilCloseBody.simps [of env s "followedBy rest r"]) (simp only: r)
      have "readUntilCloseBody env s1 (followedBy rest ?r) = Some (rc, s', followedBy rest r')"
        by (rule "1.IH" [OF n0 [symmetric] refl ReadBytes a refl _ d1 run]) (use True act e(1) "1.prems"(4) in simp_all)
      then show ?thesis using e(2) by simp
    next
      case False
      then show ?thesis using n n0 a ReadBytes r "1.prems"(4)
        by (auto simp: readUntilCloseBody.simps [of env s r] readUntilCloseBody.simps [of env s "followedBy rest r"])
    qed
  next
    case ReadClosed
    then show ?thesis using stops [of 0] by simp
  next
    case ReadError
    then show ?thesis using stops [of "-1"] by simp
  next
    case ReadTimeout
    then show ?thesis using stops [of "-2"] by simp
  qed
qed

section \<open>The exchange\<close>

lemma readResponseHead_followed:
  assumes "overdue late ms s r" "readerRunning r" "readResponseHead env s r = (status, s', r')"
  shows "readResponseHead env s (followedBy rest r) = (status, s', followedBy rest r')"
    "0 \<le> status \<Longrightarrow> overdue late ms s' r' \<and> readerRunning r'"
proof -
  obtain rc line r1 where l: "readerReadLine env s r = (rc, line, r1)" using prod_cases3 by blast
  note f = readerReadLine_followed [OF assms(1) l, of rest]
  obtain s1 st where st: "(if rc = 1 then parseStatusLine line s else (s, -1)) = (s1, st)" by fastforce
  have "st_lastActivityTime s1 = st_lastActivityTime s"
    using st by (auto simp: parseStatusLine_def addStreamHeader_def Let_def split: if_splits)
  then have d1: "overdue late ms s1 r1" using overdue_stream [of late ms s r1 s1] f by simp
  obtain hrc s2 r2 where hd: "readHeaderSection env s1 r1 = (hrc, s2, r2)" using prod_cases3 by blast
  note fh = readHeaderSection_followed [OF d1 hd, of rest]
  have e: "classifyHeadError s (followedBy rest r) c = classifyHeadError s r c" for s :: "'a hstream" and r c
    by (simp add: classifyHeadError_def)
  have "readResponseHead env s (followedBy rest r) = (status, s', followedBy rest r') \<and> (0 \<le> status \<longrightarrow> overdue late ms s' r' \<and> readerRunning r')"
    using assms(2,3) l f st hd fh e by (auto simp: readResponseHead_def Let_def split: if_splits)
  then show "readResponseHead env s (followedBy rest r) = (status, s', followedBy rest r')"
    "0 \<le> status \<Longrightarrow> overdue late ms s' r' \<and> readerRunning r'" by blast+
qed

lemma readBody_followed:
  assumes "overdue late ms s r" "readerRunning r" "plainSink s" "readBody env method s r n = Some (rc, u, s', r')"
  shows "readBody env method s (followedBy rest r) n = Some (rc, u, s', followedBy rest r')"
proof -
  have c: "readChunkedBody env s (followedBy rest r) = moreBehind rest (readChunkedBody env s r)"
    using readChunks_ends [OF assms(3), of env r] readChunkedBody_followed [OF assms(1,3)]
    by (fastforce simp: bodyEnds_def split: option.splits)
  have u: "readUntilCloseBody env s (followedBy rest r) = moreBehind rest (readUntilCloseBody env s r)"
    using readUntilClose_ends [OF assms(3), of env r] readUntilCloseBody_followed [OF assms(1,2,3)]
    by (fastforce simp: bodyEnds_def split: option.splits)
  have b: "readContentLengthBody env s (followedBy rest r) m = moreBehind rest (readContentLengthBody env s r m)" for m
    using readBytes_ends [OF assms(3), of env r "nat m"] readerReadBody_followed [OF assms(1,3)]
    by (fastforce simp: readContentLengthBody_def bodyEnds_def split: option.splits)
  have m: "map_option (\<lambda>(rc, stream, reader). case classifyBodyError rc stream of (stream, rc) \<Rightarrow> (rc, x, stream, reader)) (moreBehind rest y)
      = map_option (\<lambda>(rc, x, stream, reader). (rc, x, stream, followedBy rest reader))
          (map_option (\<lambda>(rc, stream, reader). case classifyBodyError rc stream of (stream, rc) \<Rightarrow> (rc, x, stream, reader)) y)" for x y
    by (cases y) (auto split: prod.splits)
  have "readBody env method s (followedBy rest r) n = map_option (\<lambda>(rc, x, stream, reader). (rc, x, stream, followedBy rest reader)) (readBody env method s r n)"
    unfolding readBody_def Let_def c u b m moreBehind_simps(2) [of rest "-1" s r, symmetric] by (simp split: option.splits)
  then show ?thesis using assms(4) by simp
qed

text \<open>C28. Every HTTP/1.1 exchange whose response is not decoded ends at its deadline: whatever the
  network did before (data in any pieces, errors, interrupted waits, would-block, malformed or endless
  headers), an attempt that has to wait for the connection after every deadline the exchange can hold
  (the initial one, and the timeout after its start and after each delivery, because every byte of a
  body renews the deadline) is the last one: nothing behind it is looked at, and the result is the
  same whatever would have come. A session is kept for the next request only if no error was set.\<close>

theorem http11_exchange_ends:
  assumes "case st_sink s of None \<Rightarrow> True | Some sink \<Rightarrow> sk_decompressor sink = None \<and> sk_decompressMask sink = 0"
    and "\<not> failed (st_error s)"
    and "\<not> ssl \<or> \<not> at_pending late"
    and "\<forall>d\<in>heldDeadlines ms deadline {st_lastActivityTime s, ev_now env} before. deadlineRemainingMs d (at_now late) \<le> 0"
  shows "\<exists>s' goingAway kept. (\<forall>rest. receiveHttp11Response env method ssl ms deadline s (False, before @ late # rest) = Some (s', goingAway, kept @ rest))
    \<and> (failed (st_error s') \<longrightarrow> goingAway)"
proof -
  let ?r = "\<lparr>hr_ssl = ssl, hr_net = before @ [late], hr_buf = [], hr_pos = 0, hr_deadline = deadline, hr_timeout = ms, hr_eof = False,
    hr_err = NoErr, hr_now = ev_now env\<rparr>"
  have r: "\<lparr>hr_ssl = ssl, hr_net = before @ late # rest, hr_buf = [], hr_pos = 0, hr_deadline = deadline, hr_timeout = ms, hr_eof = False,
    hr_err = NoErr, hr_now = ev_now env\<rparr> = followedBy rest ?r" for rest by (simp add: followedBy_def)
  have run_r: "receiveHttp11Response env method ssl ms deadline s (False, before @ late # rest)
      = (case readResponseHead env s (followedBy rest ?r) of (status, stream, reader) \<Rightarrow>
           if failed (st_error stream) then Some (stream, True, hr_net reader)
           else (case readBody env method (deliverResponseHeaders env stream) reader status of
                   None \<Rightarrow> None
                 | Some (bodyRc, untilClose, stream, reader) \<Rightarrow>
                     (case closeSessionIfSingleUse untilClose bodyRc stream False of (stream, goingAway) \<Rightarrow> Some (stream, goingAway, hr_net reader))))" for rest
    unfolding receiveHttp11Response_def Let_def prod.case r [of rest] ..
  have run: "readerRunning ?r" by (simp add: readerRunning_def)
  have d: "overdue late ms s ?r" using assms(3,4) by (auto simp: overdue_def expiredAt_def expired_def heldDeadlines_def)
  obtain status s1 r1 where h: "readResponseHead env s ?r = (status, s1, r1)" using prod_cases3 by blast
  note h' = readResponseHead_followed [OF d run h]
  show ?thesis
  proof (cases "failed (st_error s1)")
    case True
    then show ?thesis using h'(1) by (auto simp: run_r)
  next
    case False
    let ?s = "deliverResponseHeaders env s1"
    have ok: "0 \<le> status" using h False by (auto simp: readResponseHead_def Let_def classifyHeadError_def classifyTimeoutError_def split: prod.splits if_splits)
    have p: "plainSink ?s" "\<not> failed (st_error ?s)"
      using readResponseHead_frame [OF h] deliverHeaders_plain [of s1 env] assms(1) False by (simp_all add: plainSink_def)
    obtain rc u s2 r2 where b: "readBody env method ?s r1 status = Some (rc, u, s2, r2)" "rc = 1 \<or> rc = 0 \<longrightarrow> \<not> failed (st_error s2)"
      using readBody_settled [OF p, of env "method" r1 status] by (auto simp: bodySettled_def split: option.splits)
    have "st_lastActivityTime ?s = st_lastActivityTime s1"
      by (simp add: deliverResponseHeaders_def prepareStreamDecoder_def record_event_def Let_def split: option.splits)
    then have "overdue late ms ?s r1" using overdue_stream [of late ms s1 r1 ?s] h'(2) [OF ok] by simp
    note b' = readBody_followed [OF this _ p(1) b(1)]
    obtain s3 c where t: "takeResponseCancellation s2 = (s3, c)" by fastforce
    show ?thesis using h'(1) False b b' h'(2) [OF ok] t takeResponseCancellation_error [OF t]
      by (auto simp: run_r closeSessionIfSingleUse_def)
  qed
qed

definition deliverAt :: "int \<Rightarrow> bytes \<Rightarrow> attempt" where
  "deliverAt t bs = \<lparr>at_now = (t, 0), at_pending = False, at_select = SelReady, at_io = IoBytes bs\<rparr>"

lemma http11_exchange_ends_witness:
  "\<exists>s' goingAway kept. \<forall>rest. receiveHttp11Response (roomyEnv runLib) ''GET'' True 10000 (10, 0) (emptyStream (Some (buildResponseSink 0 None)))
      (False, [deliverAt 3 (crlf ''HTTP/1.1 200 OK'')] @ deliverAt 13 (crlf []) # rest) = Some (s', goingAway, kept @ rest)"
proof -
  have "\<exists>s' goingAway kept. (\<forall>rest. receiveHttp11Response (roomyEnv runLib) ''GET'' True 10000 (10, 0) (emptyStream (Some (buildResponseSink 0 None)))
      (False, [deliverAt 3 (crlf ''HTTP/1.1 200 OK'')] @ deliverAt 13 (crlf []) # rest) = Some (s', goingAway, kept @ rest))
      \<and> (failed (st_error s') \<longrightarrow> goingAway)"
    by (rule http11_exchange_ends)
      (simp_all add: emptyStream_def buildResponseSink_def failed_def ERR_NONE_def deliverAt_def heldDeadlines_def renewedDeadline_def
        roomyEnv_def deadlineRemainingMs_def timeoutSeconds_def timeoutMillis_def)
  then show ?thesis by blast
qed

section \<open>What a delivery does to the deadline\<close>

lemmas timed_read_simps = readerFill_def readerRunning_def deliverAt_def deadlineRemainingMs_def renewStreamDeadline_def
  isResponseStreaming_def clockAfter_def timeoutSeconds_def timeoutMillis_def HTTP11_READ_CHUNK_def readerEndCode_def Let_def

definition idleReader :: "attempt list \<Rightarrow> http11Reader" where
  "idleReader net = \<lparr>hr_ssl = False, hr_net = net, hr_buf = [], hr_pos = 0, hr_deadline = (10, 0), hr_timeout = 10000, hr_eof = False,
     hr_err = NoErr, hr_now = 0\<rparr>"

lemma collects_streaming: "collects s \<Longrightarrow> isResponseStreaming s"
  by (auto simp: collects_def isResponseStreaming_def split: option.splits)

text \<open>
  A read renews the deadline before the body is appended, so from the activity before it: with a
  timeout of ten seconds, a byte after nine seconds leaves the next one a second, not ten.
\<close>

lemma renewal_lags:
  assumes "collects s" "\<forall>n. ev_alloc env n" "st_lastActivityTime s = 0"
  shows "\<exists>s' r'. readerReadBody env s (idleReader [deliverAt 9 [a], deliverAt 18 [b]]) 2 = Some (-2, s', r')
    \<and> st_combinedPayload s' = st_combinedPayload s @ [a]"
proof -
  let ?r = "idleReader [deliverAt 9 [a], deliverAt 18 [b]]"
  let ?at = "\<lambda>p. \<lparr>hr_ssl = False, hr_net = [deliverAt 18 [b]], hr_buf = [a], hr_pos = p, hr_deadline = (10, 0), hr_timeout = 10000,
      hr_eof = False, hr_err = NoErr, hr_now = 9\<rparr>"
  have s: "isResponseStreaming s" by (rule collects_streaming [OF assms(1)])
  have fill: "readerFill env s ?r = ?at 0"
    using assms s by (simp add: timed_read_simps idleReader_def)
  obtain s1 where g: "appendStreamPayload (atTime 9 env) s [a] = Some (s1, True)" "grownBy UNIV 10000 s [a] s1"
    using append_grows [OF assms(1), of "atTime 9 env" 10000 UNIV] assms(2) by auto
  have "readerReadBody env s ?r 2 = readerReadBody env s (?at 0) 2"
    unfolding fill [symmetric] by (rule readBody_fill) (simp_all add: idleReader_def readerRunning_def)
  also have "\<dots> = readerReadBody env s1 (?at 1) 1"
    using g(1) by (simp add: readerReadBody.simps [of env s])
  also have "\<dots> = readerReadBody env s1 (readerFill env s1 (?at 1)) 1"
    by (rule readBody_fill) (simp_all add: readerRunning_def)
  also have "\<dots> = Some (-2, s1, readerFill env s1 (?at 1))"
    using assms(2) by (subst readerReadBody.simps) (simp add: timed_read_simps)
  finally show ?thesis using g(2) by (simp add: grownBy_def)
qed

text \<open>A body that ends with the connection renews nothing: it is cut off at the initial deadline while it still arrives.\<close>

lemma until_close_never_renews:
  assumes "collects s" "\<forall>n. ev_alloc env n"
  shows "\<exists>s' r'. readUntilCloseBody env s (idleReader [deliverAt 5 [a], deliverAt 9 [b], deliverAt 11 [c]]) = Some (-2, s', r')
    \<and> st_combinedPayload s' = st_combinedPayload s @ [a, b]"
proof -
  obtain s1 where g: "appendStreamPayload (atTime 5 env) s [a] = Some (s1, True)" "grownBy UNIV 10000 s [a] s1"
    using append_grows [OF assms(1), of "atTime 5 env" 10000 UNIV] assms(2) by auto
  have "collects s1" using g(2) by (simp add: grownBy_def)
  then obtain s2 where h: "appendStreamPayload (atTime 9 env) s1 [b] = Some (s2, True)" "grownBy UNIV 10000 s1 [b] s2"
    using append_grows [of s1 "atTime 9 env" 10000 UNIV] assms(2) by auto
  show ?thesis using g h
    by (simp add: idleReader_def readUntilCloseBody.simps [of env] deliverAt_def deadlineRemainingMs_def clockAfter_def Let_def grownBy_def)
qed

end
