(* ===== verification/UrlParser.thy ===== *)
theory UrlParser
  imports Prelude
begin

text \<open>
  URL parsing, \<open>src/utils/UrlParser.c\<close>. The parsers work on a pointer into a copy of the URL:
  here the text from that pointer on. A copy past the end of one of the fixed arrays of
  \<open>URLComponents\<close>, and the arithmetic on unrelated pointers behind an \<open>@\<close>, are \<open>None\<close>.
\<close>

section \<open>Components\<close>

definition MAX_URL_LENGTH :: nat where
  "MAX_URL_LENGTH = 2048"

record urlComponents =
  uc_scheme :: string
  uc_host :: string
  uc_port :: string
  uc_path :: string
  uc_query :: string
  uc_fragment :: string

definition noComponents :: urlComponents where
  "noComponents = \<lparr>uc_scheme = [], uc_host = [], uc_port = [], uc_path = [], uc_query = [], uc_fragment = []\<rparr>"

text \<open>A copy into an array of \<open>n\<close> bytes, terminator included.\<close>

definition fits :: "nat \<Rightarrow> string \<Rightarrow> string option" where
  "fits n s = (if length s < n then Some s else None)"

definition isValidUrlChar :: "char \<Rightarrow> bool" where
  "isValidUrlChar c \<longleftrightarrow> isAlnum c \<or> c \<in> set ''-_.~!*'' \<or> c = CHR 0x27 \<or> c \<in> set ''();:@&=+$,/?#[]%''"

definition validateUrl :: "string \<Rightarrow> bool" where
  "validateUrl url \<longleftrightarrow> url \<noteq> [] \<and> strstr url ''://'' \<noteq> None \<and> list_all isValidUrlChar url"

section \<open>The parsers\<close>

text \<open>The text before the first occurrence of a pattern, and from it on.\<close>

definition splitAt :: "string \<Rightarrow> string \<Rightarrow> (string \<times> string) option" where
  "splitAt s pat = map_option (\<lambda>r. (take (length s - length r) s, r)) (strstr s pat)"

definition parseUrlScheme :: "string \<Rightarrow> urlComponents \<Rightarrow> (string \<times> urlComponents) option" where
  "parseUrlScheme current c =
     (case splitAt current ''://'' of
        None \<Rightarrow> Some (current, c)
      | Some (scheme, rest) \<Rightarrow> map_option (\<lambda>scheme. (drop 3 rest, c\<lparr>uc_scheme := scheme\<rparr>)) (fits 16 scheme))"

text \<open>The end of the authority: the first slash, or else the first \<open>?\<close>, or else the first \<open>#\<close>.\<close>

definition authoritySplit :: "string \<Rightarrow> string \<times> string" where
  "authoritySplit current =
     (case strchr current CHR ''/'' of
        Some x \<Rightarrow> x
      | None \<Rightarrow> (case strchr current CHR ''?'' of
                   Some x \<Rightarrow> x
                 | None \<Rightarrow> (case strchr current CHR ''#'' of Some x \<Rightarrow> x | None \<Rightarrow> (current, []))))"

definition defaultPort :: "string \<Rightarrow> string \<Rightarrow> string" where
  "defaultPort scheme port =
     (if scheme = ''https'' then ''443'' else if scheme = ''http'' then ''80''
      else if scheme = ''ftp'' then ''21'' else if scheme = ''ssh'' then ''22'' else port)"

definition parseHostPort :: "string \<Rightarrow> urlComponents \<Rightarrow> urlComponents option" where
  "parseHostPort authority c =
     (case strchr authority CHR '':'' of
        Some (host, rest) \<Rightarrow>
          map_option (\<lambda>port. c\<lparr>uc_host := host, uc_port := port\<rparr>) (fits 8 (tl rest))
      | None \<Rightarrow> Some (c\<lparr>uc_host := authority, uc_port := defaultPort (uc_scheme c) (uc_port c)\<rparr>))"

text \<open>
  The \<open>@\<close> of the user information is looked for behind the authority, where \<open>*current\<close> points
  already: one found there is used as an address inside the authority.
\<close>

definition parseUrlAuthority :: "string \<Rightarrow> urlComponents \<Rightarrow> (string \<times> urlComponents) option" where
  "parseUrlAuthority current c =
     (case authoritySplit current of
        (authority, rest) \<Rightarrow>
          (case fits 256 authority of
             None \<Rightarrow> None
           | Some authority \<Rightarrow>
               (case strchr rest CHR ''@'' of
                  Some _ \<Rightarrow> None
                | None \<Rightarrow> map_option (\<lambda>c. (rest, c)) (parseHostPort authority c))))"

definition parseUrlPath :: "string \<Rightarrow> urlComponents \<Rightarrow> (string \<times> urlComponents) option" where
  "parseUrlPath current c =
     (if current \<noteq> [] \<and> hd current = CHR ''/''
      then (let (path, rest) = (case strchr current CHR ''?'' of
                                  Some x \<Rightarrow> x
                                | None \<Rightarrow> (case strchr current CHR ''#'' of Some x \<Rightarrow> x | None \<Rightarrow> (current, [])))
            in map_option (\<lambda>path. (rest, c\<lparr>uc_path := path\<rparr>)) (fits 2048 path))
      else Some (current, c))"

definition parseUrlQuery :: "string \<Rightarrow> urlComponents \<Rightarrow> (string \<times> urlComponents) option" where
  "parseUrlQuery current c =
     (if current \<noteq> [] \<and> hd current = CHR ''?''
      then (let (query, rest) = (case strchr (tl current) CHR ''#'' of Some x \<Rightarrow> x | None \<Rightarrow> (tl current, []))
            in map_option (\<lambda>query. (rest, c\<lparr>uc_query := query\<rparr>)) (fits 2048 query))
      else Some (current, c))"

definition appendQueryToPath :: "urlComponents \<Rightarrow> urlComponents option" where
  "appendQueryToPath c =
     (if uc_query c = [] then Some c
      else (let sep = (if uc_path c \<noteq> [] \<and> last (uc_path c) \<noteq> CHR ''/'' then ''?'' else [])
            in map_option (\<lambda>path. c\<lparr>uc_path := path, uc_query := []\<rparr>) (fits 2048 (uc_path c @ sep @ uc_query c))))"

definition parseUrlFragment :: "string \<Rightarrow> urlComponents \<Rightarrow> urlComponents option" where
  "parseUrlFragment current c =
     (if current \<noteq> [] \<and> hd current = CHR ''#''
      then map_option (\<lambda>f. c\<lparr>uc_fragment := f\<rparr>) (fits 2048 (tl current)) else Some c)"

text \<open>The result codes -1 (null) and -2 (invalid), or the components.\<close>

definition parseUrl :: "string option \<Rightarrow> (int + urlComponents) option" where
  "parseUrl url =
     (case url of
        None \<Rightarrow> Some (Inl (-1))
      | Some url \<Rightarrow>
          if \<not> validateUrl url then Some (Inl (-2))
          else (let urlCopy = strncpyField MAX_URL_LENGTH url in
                Option.bind (parseUrlScheme urlCopy noComponents) (\<lambda>(current, c).
                Option.bind (parseUrlAuthority current c) (\<lambda>(current, c).
                Option.bind (parseUrlPath current c) (\<lambda>(current, c).
                Option.bind (parseUrlQuery current c) (\<lambda>(current, c).
                Option.bind (appendQueryToPath c) (\<lambda>c.
                map_option Inr (parseUrlFragment current c))))))))"

text \<open>
  The authority for the \<open>:authority\<close> or Host header; \<open>ipv4\<close> and \<open>ipv6\<close> are \<open>inet_pton\<close> of the
  two families, and \<open>snprintf\<close> keeps one character less than its size.
\<close>

definition getHeaderAuthority :: "(string \<Rightarrow> bool) \<Rightarrow> (string \<Rightarrow> bool) \<Rightarrow> string \<Rightarrow> string \<Rightarrow> string" where
  "getHeaderAuthority ipv4 ipv6 host port =
     (let portLen = (if port \<noteq> [] then length port + 1 else 0); totalLen = length host + portLen + 1
      in if ipv4 host then take (totalLen - 1) (host @ '':'' @ port)
         else if ipv6 host then take (totalLen - 1) (''['' @ host @ '']:'' @ port)
         else host)"

section \<open>Splitting\<close>

lemma strstr_here: "isPrefixOf pat s \<Longrightarrow> strstr s pat = Some s"
  by (cases s) (auto simp: isPrefixOf_iff)

lemma strstr_skip:
  assumes "pat \<noteq> []" "hd pat \<notin> set pre" "isPrefixOf pat r"
  shows "strstr (pre @ r) pat = Some r"
  using assms(2)
proof (induction pre)
  case Nil
  then show ?case using strstr_here [OF assms(3)] by simp
next
  case (Cons c pre)
  then have "\<not> isPrefixOf pat (c # pre @ r)" using assms(1) by (cases pat) auto
  then show ?case using Cons by simp
qed

lemma splitAt_skip: "pat \<noteq> [] \<Longrightarrow> hd pat \<notin> set pre \<Longrightarrow> isPrefixOf pat r \<Longrightarrow> splitAt (pre @ r) pat = Some (pre, r)"
  by (simp add: splitAt_def strstr_skip)

section \<open>Every component fits\<close>

text \<open>What the fields of \<open>URLComponents\<close> can hold.\<close>

definition componentsFit :: "urlComponents \<Rightarrow> bool" where
  "componentsFit c \<longleftrightarrow> length (uc_scheme c) < 16 \<and> length (uc_host c) < 256 \<and> length (uc_port c) < 8
     \<and> length (uc_path c) < 2048 \<and> length (uc_query c) < 2048 \<and> length (uc_fragment c) < 2048"

lemma fits_Some [simp]: "fits n s = Some t \<longleftrightarrow> t = s \<and> length s < n"
  by (auto simp: fits_def)

lemma fits_ok [simp]: "length s < n \<Longrightarrow> fits n s = Some s"
  by simp

lemma parseUrlScheme_fit: "parseUrlScheme s c = Some (s', c') \<Longrightarrow> componentsFit c \<Longrightarrow> componentsFit c' \<and> length s' \<le> length s"
  by (auto simp: parseUrlScheme_def componentsFit_def splitAt_def split: option.splits dest!: strstr_Some)

lemma strchr_length: "strchr s c = Some (a, b) \<Longrightarrow> length s = length a + length b"
  using strchr_Some [of s c a b] by auto

lemma authoritySplit_length: "authoritySplit s = (a, r) \<Longrightarrow> length s = length a + length r"
  by (auto simp: authoritySplit_def dest: strchr_length split: option.splits)

lemma parseHostPort_fit: "parseHostPort a c = Some c' \<Longrightarrow> length a < 256 \<Longrightarrow> componentsFit c \<Longrightarrow> componentsFit c'"
  by (auto simp: parseHostPort_def componentsFit_def defaultPort_def split: option.splits if_splits dest: strchr_length)

lemma parseUrlAuthority_fit: "parseUrlAuthority s c = Some (s', c') \<Longrightarrow> componentsFit c \<Longrightarrow> componentsFit c' \<and> length s' \<le> length s"
  by (auto simp: parseUrlAuthority_def split: prod.splits option.splits dest: parseHostPort_fit authoritySplit_length)

lemma parseUrlPath_fit: "parseUrlPath s c = Some (s', c') \<Longrightarrow> componentsFit c \<Longrightarrow> componentsFit c'"
  by (auto simp: parseUrlPath_def componentsFit_def Let_def split: if_splits prod.splits)

lemma parseUrlQuery_fit: "parseUrlQuery s c = Some (s', c') \<Longrightarrow> componentsFit c \<Longrightarrow> componentsFit c'"
  by (auto simp: parseUrlQuery_def componentsFit_def Let_def split: if_splits prod.splits)

lemma appendQueryToPath_fit: "appendQueryToPath c = Some c' \<Longrightarrow> componentsFit c \<Longrightarrow> componentsFit c' \<and> uc_query c' = []"
  by (auto simp: appendQueryToPath_def componentsFit_def Let_def split: if_splits)

lemma parseUrlFragment_fit: "parseUrlFragment s c = Some c' \<Longrightarrow> componentsFit c \<Longrightarrow> componentsFit c' \<and> uc_query c' = uc_query c"
  by (auto simp: parseUrlFragment_def componentsFit_def split: if_splits)

text \<open>Whatever URL is given, the components a successful parse returns fit the arrays of
  \<open>URLComponents\<close> with their terminators, and the query has moved into the path.\<close>

theorem url_components_fit:
  assumes "parseUrl url = Some (Inr c)"
  shows "length (uc_scheme c) < 16 \<and> length (uc_host c) < 256 \<and> length (uc_port c) < 8 \<and> length (uc_path c) < 2048
    \<and> length (uc_fragment c) < 2048 \<and> uc_query c = []"
proof -
  obtain u s1 c1 s2 c2 s3 c3 s4 c4 c5 where p: "parseUrlScheme (strncpyField MAX_URL_LENGTH u) noComponents = Some (s1, c1)"
    "parseUrlAuthority s1 c1 = Some (s2, c2)" "parseUrlPath s2 c2 = Some (s3, c3)" "parseUrlQuery s3 c3 = Some (s4, c4)"
    "appendQueryToPath c4 = Some c5" "parseUrlFragment s4 c5 = Some c"
    using assms by (auto simp: parseUrl_def Let_def bind_eq_Some_conv split: option.splits if_splits)
  have "componentsFit noComponents" by (simp add: componentsFit_def noComponents_def)
  then have "componentsFit c4" using p parseUrlScheme_fit parseUrlAuthority_fit parseUrlPath_fit parseUrlQuery_fit by metis
  then have "componentsFit c" "uc_query c = []" using p appendQueryToPath_fit parseUrlFragment_fit by metis+
  then show ?thesis by (simp add: componentsFit_def)
qed

lemma url_components_fit_witness:
  "case parseUrl (Some ''http://h/a?b'') of Some (Inr c) \<Rightarrow> length (uc_port c) < 8 \<and> uc_query c = [] | _ \<Rightarrow> False"
proof -
  have c: "parseUrl (Some ''http://h/a?b'') = Some (Inr \<lparr>uc_scheme = ''http'', uc_host = ''h'', uc_port = ''80'',
      uc_path = ''/a?b'', uc_query = [], uc_fragment = []\<rparr>)" by code_simp
  then show ?thesis using url_components_fit [OF c] by simp
qed

section \<open>Round trip\<close>

text \<open>The text of a URL from its parts.\<close>

definition renderUrl :: "string \<Rightarrow> string \<Rightarrow> string option \<Rightarrow> string \<Rightarrow> string option \<Rightarrow> string option \<Rightarrow> string" where
  "renderUrl scheme host port path query fragment =
     scheme @ ''://'' @ host @ (case port of None \<Rightarrow> [] | Some p \<Rightarrow> CHR '':'' # p) @ path
     @ (case query of None \<Rightarrow> [] | Some q \<Rightarrow> CHR ''?'' # q) @ (case fragment of None \<Rightarrow> [] | Some f \<Rightarrow> CHR ''#'' # f)"

text \<open>A part has URL characters only, and none of the given ones.\<close>

definition plainPart :: "string \<Rightarrow> string \<Rightarrow> bool" where
  "plainPart bad s \<longleftrightarrow> list_all (\<lambda>c. isValidUrlChar c \<and> c \<notin> set bad) s"

lemma plainPart_simps [simp]:
  "plainPart bad []" "plainPart bad (c # s) \<longleftrightarrow> isValidUrlChar c \<and> c \<notin> set bad \<and> plainPart bad s"
  by (auto simp: plainPart_def)

lemma plainPart_avoid: "plainPart bad s \<Longrightarrow> c \<in> set bad \<Longrightarrow> c \<notin> set s"
  by (auto simp: plainPart_def list_all_iff)

lemma plainPart_valid: "plainPart bad s \<Longrightarrow> list_all isValidUrlChar s"
  by (auto simp: plainPart_def list_all_iff)

lemma strchr_skip: "c \<notin> set a \<Longrightarrow> hd b = c \<Longrightarrow> b \<noteq> [] \<Longrightarrow> strchr (a @ b) c = Some (a, b)"
  using strchr_append [of c a "tl b"] by (cases b) auto

text \<open>The authority up to a path, and the text behind the path.\<close>

lemma authority_before:
  assumes "CHR ''/'' \<notin> set a" "CHR ''?'' \<notin> set a" "CHR ''#'' \<notin> set a"
    and "rest = [] \<or> hd rest = CHR ''/'' \<or> (hd rest = CHR ''?'' \<and> CHR ''/'' \<notin> set rest)
      \<or> (hd rest = CHR ''#'' \<and> CHR ''/'' \<notin> set rest \<and> CHR ''?'' \<notin> set rest)"
  shows "authoritySplit (a @ rest) = (a, rest)"
proof (cases "rest = []")
  case True
  then show ?thesis using assms(1-3) by (simp add: authoritySplit_def strchr_None [THEN iffD2])
next
  case False
  then show ?thesis using assms strchr_skip [of _ a rest] by (auto simp: authoritySplit_def strchr_None [THEN iffD2])
qed

lemma parseAuthority_ok:
  assumes "plainPart '':/?#'' host" "case port of None \<Rightarrow> True | Some p \<Rightarrow> plainPart ''/?#'' p \<and> length p < 8"
    "length host + (case port of None \<Rightarrow> 0 | Some p \<Rightarrow> length p + 1) < 256"
    "rest = [] \<or> hd rest = CHR ''/'' \<or> (hd rest = CHR ''?'' \<and> CHR ''/'' \<notin> set rest)
      \<or> (hd rest = CHR ''#'' \<and> CHR ''/'' \<notin> set rest \<and> CHR ''?'' \<notin> set rest)" "CHR ''@'' \<notin> set rest"
  shows "parseUrlAuthority (host @ (case port of None \<Rightarrow> [] | Some p \<Rightarrow> CHR '':'' # p) @ rest) c
    = Some (rest, c\<lparr>uc_host := host, uc_port := (case port of None \<Rightarrow> defaultPort (uc_scheme c) (uc_port c) | Some p \<Rightarrow> p)\<rparr>)"
proof -
  let ?a = "host @ (case port of None \<Rightarrow> [] | Some p \<Rightarrow> CHR '':'' # p)"
  have h: "CHR '':'' \<notin> set host" "CHR ''/'' \<notin> set ?a" "CHR ''?'' \<notin> set ?a" "CHR ''#'' \<notin> set ?a"
    using assms(1,2) by (auto dest: plainPart_avoid split: option.splits)
  note sp = authority_before [OF h(2-4) assms(4)]
  have f: "fits 256 ?a = Some ?a" using assms(3) by (auto split: option.splits)
  have at: "strchr rest CHR ''@'' = None" using assms(5) by (simp add: strchr_None)
  show ?thesis
  proof (cases port)
    case None
    then have "strchr ?a CHR '':'' = None" using h(1) by (simp add: strchr_None)
    then show ?thesis using sp f at None by (simp add: parseUrlAuthority_def parseHostPort_def)
  next
    case (Some p)
    then have "strchr ?a CHR '':'' = Some (host, CHR '':'' # p)" using strchr_append [OF h(1)] by simp
    then show ?thesis using sp f at Some assms(2) by (simp add: parseUrlAuthority_def parseHostPort_def)
  qed
qed

lemma parsePath_ok:
  assumes "plainPart ''?#@'' path" "path = [] \<or> hd path = CHR ''/''" "length path < 2048"
    "case fragment of None \<Rightarrow> True | Some f \<Rightarrow> query = None \<longrightarrow> CHR ''?'' \<notin> set f"
  shows "parseUrlPath (path @ (case query of None \<Rightarrow> [] | Some q \<Rightarrow> CHR ''?'' # q) @ (case fragment of None \<Rightarrow> [] | Some f \<Rightarrow> CHR ''#'' # f))
      (c\<lparr>uc_path := []\<rparr>)
    = Some ((case query of None \<Rightarrow> [] | Some q \<Rightarrow> CHR ''?'' # q) @ (case fragment of None \<Rightarrow> [] | Some f \<Rightarrow> CHR ''#'' # f), c\<lparr>uc_path := path\<rparr>)"
proof (cases "path = []")
  case True
  then show ?thesis by (auto simp: parseUrlPath_def split: option.splits)
next
  case False
  have p: "CHR ''?'' \<notin> set path" "CHR ''#'' \<notin> set path" using assms(1) by (auto dest: plainPart_avoid)
  obtain t where t: "path = CHR ''/'' # t" using assms(2) False by (cases path) auto
  show ?thesis
  proof (cases query)
    case (Some q)
    then show ?thesis using strchr_append [OF p(1)] t assms(3) by (simp add: parseUrlPath_def)
  next
    case None
    show ?thesis
    proof (cases fragment)
      case None
      then show ?thesis using \<open>query = None\<close> p t assms(3) by (simp add: parseUrlPath_def strchr_None [THEN iffD2])
    next
      case (Some f)
      have "strchr (path @ CHR ''#'' # f) CHR ''?'' = None" using p(1) assms(4) None Some by (simp add: strchr_None)
      then show ?thesis using \<open>query = None\<close> Some strchr_append [OF p(2), of f] t assms(3) by (simp add: parseUrlPath_def)
    qed
  qed
qed

lemma parseQuery_ok:
  assumes "case query of None \<Rightarrow> True | Some q \<Rightarrow> CHR ''#'' \<notin> set q \<and> length q < 2048"
  shows "parseUrlQuery ((case query of None \<Rightarrow> [] | Some q \<Rightarrow> CHR ''?'' # q) @ (case fragment of None \<Rightarrow> [] | Some f \<Rightarrow> CHR ''#'' # f)) c
    = Some (case fragment of None \<Rightarrow> [] | Some f \<Rightarrow> CHR ''#'' # f, case query of None \<Rightarrow> c | Some q \<Rightarrow> c\<lparr>uc_query := q\<rparr>)"
proof (cases query)
  case None
  then show ?thesis by (auto simp: parseUrlQuery_def split: option.splits)
next
  case (Some q)
  then have q: "CHR ''#'' \<notin> set q" "length q < 2048" using assms by simp_all
  show ?thesis
  proof (cases fragment)
    case None
    then show ?thesis using Some q by (simp add: parseUrlQuery_def strchr_None [THEN iffD2])
  next
    case fr: (Some f)
    then show ?thesis using Some q strchr_append [OF q(1), of f] by (simp add: parseUrlQuery_def)
  qed
qed

text \<open>The text behind the authority has no address sign, and cannot be taken for a part of it.\<close>

lemma tail_apart:
  fixes query :: "string option" and fragment :: "string option"
  assumes "plainPart ''?#@'' path" "path = [] \<or> hd path = CHR ''/''"
    and "case query of None \<Rightarrow> True | Some q \<Rightarrow> plainPart (if path = [] then ''/#@'' else ''#@'') q"
    and "case fragment of None \<Rightarrow> True
      | Some f \<Rightarrow> plainPart ((if path = [] then ''/'' else []) @ (if query = None then ''?'' else []) @ ''@'') f"
  defines "rest \<equiv> path @ (case query of None \<Rightarrow> [] | Some q \<Rightarrow> CHR ''?'' # q) @ (case fragment of None \<Rightarrow> [] | Some f \<Rightarrow> CHR ''#'' # f)"
  shows "rest = [] \<or> hd rest = CHR ''/'' \<or> (hd rest = CHR ''?'' \<and> CHR ''/'' \<notin> set rest)
      \<or> (hd rest = CHR ''#'' \<and> CHR ''/'' \<notin> set rest \<and> CHR ''?'' \<notin> set rest)" "CHR ''@'' \<notin> set rest"
proof -
  have at: "CHR ''@'' \<notin> set path" "query = Some q \<Longrightarrow> CHR ''@'' \<notin> set q" "fragment = Some f \<Longrightarrow> CHR ''@'' \<notin> set f" for q f
    using assms(1,3,4) by (auto dest: plainPart_avoid split: if_splits)
  show "CHR ''@'' \<notin> set rest" using at by (auto simp: rest_def split: option.splits)
  show "rest = [] \<or> hd rest = CHR ''/'' \<or> (hd rest = CHR ''?'' \<and> CHR ''/'' \<notin> set rest)
      \<or> (hd rest = CHR ''#'' \<and> CHR ''/'' \<notin> set rest \<and> CHR ''?'' \<notin> set rest)"
  proof (cases "path = []")
    case True
    have "query = Some q \<Longrightarrow> CHR ''/'' \<notin> set q" "fragment = Some f \<Longrightarrow> CHR ''/'' \<notin> set f"
      "fragment = Some f \<Longrightarrow> query = None \<Longrightarrow> CHR ''?'' \<notin> set f" for q f
      using assms(3,4) True by (auto dest: plainPart_avoid)
    then show ?thesis using True by (auto simp: rest_def split: option.splits)
  next
    case False
    then show ?thesis using assms(2) by (cases path) (simp_all add: rest_def)
  qed
qed



section \<open>Behaviours at odds with RFC 3986\<close>

text \<open>User information is taken for the host, and what follows it for the port.\<close>

lemma userinfo_in_host:
  "parseUrl (Some ''http://bob:pw@h/'') = Some (Inr
    \<lparr>uc_scheme = ''http'', uc_host = ''bob'', uc_port = ''pw@h'', uc_path = ''/'', uc_query = [], uc_fragment = []\<rparr>)"
  by code_simp

text \<open>An \<open>@\<close> in the path is used as an address inside the copied authority.\<close>

lemma at_in_path_undefined: "parseUrl (Some ''http://h/a@b'') = None"
  by code_simp

text \<open>A path that ends with a slash takes the query without its question mark.\<close>

lemma slash_loses_question_mark:
  "map_option (map_sum id uc_path) (parseUrl (Some ''http://h/a/?q=1'')) = Some (Inr ''/a/q=1'')"
  by code_simp

text \<open>The literal address of an IPv6 host is cut at its first colon.\<close>

lemma ipv6_literal_split:
  "parseUrl (Some ''http://[::1]/'') = Some (Inr
    \<lparr>uc_scheme = ''http'', uc_host = ''['', uc_port = '':1]'', uc_path = ''/'', uc_query = [], uc_fragment = []\<rparr>)"
  by code_simp

text \<open>A port or scheme longer than its array overruns it.\<close>

lemma port_overruns: "parseUrl (Some ''http://h:12345678/'') = None"
  by code_simp

text \<open>The authority of an IPv6 host loses its last two characters, that of a named host its port.\<close>

lemma ipv6_authority_cut: "getHeaderAuthority (\<lambda>_. False) (\<lambda>h. h = ''::1'') ''::1'' ''443'' = ''[::1]:4''"
  by code_simp

lemma named_authority_drops_port: "\<not> ipv4 host \<Longrightarrow> \<not> ipv6 host \<Longrightarrow> getHeaderAuthority ipv4 ipv6 host port = host"
  by (simp add: getHeaderAuthority_def Let_def)

lemma ipv4_authority: "ipv4 host \<Longrightarrow> port \<noteq> [] \<Longrightarrow> getHeaderAuthority ipv4 ipv6 host port = host @ '':'' @ port"
  by (simp add: getHeaderAuthority_def Let_def)

end
