(* ===== verification/SessionPool.thy ===== *)
theory SessionPool
  imports StreamRegistry
begin

text \<open>
  The session pool of \<open>src/Session.c\<close>: which connection a request reuses, when sessions are
  registered, reaped and closed, and the locks that let requests to one target share a
  connection. Sessions are heap objects: the pool holds pointers (numbers), \<open>sp_store\<close> maps them
  to sessions. Each function holds the pool's mutex for its whole update, so it is one step.

  \<open>alive\<close> stands for \<open>isConnecting\<close>: what \<open>getsockopt\<close> reports of a session's socket.
\<close>

section \<open>State\<close>

definition MAX_SESSIONS :: nat where
  "MAX_SESSIONS = 1024"

definition SESSION_MAGIC :: "32 word" where
  "SESSION_MAGIC = 0x55AA1234"

datatype httpProtocol = HTTP_PROTOCOL_2 | HTTP_PROTOCOL_1_1

record proxy =
  px_scheme :: string
  px_host :: string
  px_port :: string
  px_authorization :: string
  px_response :: string

record 'z session =
  ss_scheme :: string
  ss_host :: string
  ss_port :: string
  ss_clientHelloId :: string
  ss_isActive :: bool
  ss_nonBlocking :: bool
  ss_expirationInMilliseconds :: int
  ss_magic :: "32 word"
  ss_lastUsedTime :: int
  ss_proxy :: proxy
  ss_protocol :: httpProtocol
  ss_plainProxy :: bool
  ss_conn :: "'z conn"

text \<open>The fields of a request's basket the session code reads and writes.\<close>

record basket =
  bk_scheme :: string
  bk_host :: string
  bk_port :: string
  bk_proxy :: proxy
  bk_nonBlocking :: bool
  bk_forceHttp11 :: bool
  bk_sessionExpiration :: int
  bk_clientHelloId :: string
  bk_headerTableSize :: nat
  bk_error :: error
  bk_session :: "nat option"

text \<open>
  The counter is a \<open>size_t\<close>. \<open>sp_closed\<close> records the sessions closed: the pointer, and whether \<open>SSL_shutdown\<close> was called.
\<close>

record 'z sessionPool =
  sp_sessions :: "nat option list"
  sp_sessionMap :: "bool list"
  sp_sessionCount :: "64 word"
  sp_store :: "nat \<Rightarrow> 'z session option"
  sp_closed :: "(nat \<times> bool) list"

definition initSharedSessionPool :: "'z sessionPool" where
  "initSharedSessionPool =
     \<lparr>sp_sessions = replicate MAX_SESSIONS None, sp_sessionMap = replicate MAX_SESSIONS False, sp_sessionCount = 0,
      sp_store = (\<lambda>_. None), sp_closed = []\<rparr>"

definition inflight :: "'z session \<Rightarrow> nat" where
  "inflight s = cn_inflightCount (ss_conn s)"

definition goingAway :: "'z session \<Rightarrow> bool" where
  "goingAway s = cn_goingAway (ss_conn s)"

definition setGoingAway :: "'z session \<Rightarrow> 'z session" where
  "setGoingAway s = s\<lparr>ss_conn := (ss_conn s)\<lparr>cn_goingAway := True\<rparr>\<rparr>"

section \<open>Creating a session object\<close>

definition HPACK_DEFAULT_HEADER_TABLE_SIZE :: nat where
  "HPACK_DEFAULT_HEADER_TABLE_SIZE = 4096"

definition initHpackContext :: "basket \<Rightarrow> HpackContext" where
  "initHpackContext basket =
     \<lparr>dynamicTable = [], dynamicTableCapacity = 0,
      dynamicTableMaxSize = (if bk_headerTableSize basket > 0 then bk_headerTableSize basket else HPACK_DEFAULT_HEADER_TABLE_SIZE)\<rparr>"

definition copyProxy :: "proxy \<Rightarrow> proxy" where
  "copyProxy p = \<lparr>px_scheme = strncpyField 16 (px_scheme p), px_host = strncpyField 256 (px_host p),
     px_port = strncpyField 8 (px_port p), px_authorization = strncpyField 1024 (px_authorization p),
     px_response = strncpyField 1024 (px_response p)\<rparr>"

text \<open>\<open>hpackOk\<close> says whether the HPACK context could be allocated; without it the session carries none.\<close>

definition initSession :: "basket \<Rightarrow> httpProtocol \<Rightarrow> bool \<Rightarrow> 'z session" where
  "initSession basket protocol hpackOk =
     \<lparr>ss_scheme = strncpyField 16 (bk_scheme basket), ss_host = strncpyField 256 (bk_host basket),
      ss_port = strncpyField 8 (bk_port basket), ss_clientHelloId = strncpyField 64 (bk_clientHelloId basket),
      ss_isActive = True, ss_nonBlocking = bk_nonBlocking basket,
      ss_expirationInMilliseconds = bk_sessionExpiration basket, ss_magic = SESSION_MAGIC, ss_lastUsedTime = 0,
      ss_proxy = copyProxy (bk_proxy basket), ss_protocol = protocol, ss_plainProxy = False,
      ss_conn = initConn (if protocol = HTTP_PROTOCOL_2 \<and> hpackOk then Some (initHpackContext basket) else None)\<rparr>"

section \<open>Finding a session\<close>

definition sessionProtocolUsable :: "'z session \<Rightarrow> basket \<Rightarrow> bool" where
  "sessionProtocolUsable s basket =
     (let protocolCompatible = (\<not> bk_forceHttp11 basket \<or> ss_protocol s = HTTP_PROTOCOL_1_1);
          busy = (ss_protocol s = HTTP_PROTOCOL_1_1 \<and> inflight s > 0)
      in protocolCompatible \<and> \<not> busy)"

definition sameProxy :: "proxy \<Rightarrow> proxy \<Rightarrow> bool" where
  "sameProxy p q \<longleftrightarrow> px_scheme p = px_scheme q \<and> px_host p = px_host q \<and> px_port p = px_port q \<and> px_authorization p = px_authorization q"

definition sameTarget :: "'z session \<Rightarrow> basket \<Rightarrow> bool" where
  "sameTarget s basket \<longleftrightarrow> ss_scheme s = bk_scheme basket \<and> ss_host s = bk_host basket \<and> ss_port s = bk_port basket
     \<and> sameProxy (ss_proxy s) (bk_proxy basket) \<and> ss_nonBlocking s = bk_nonBlocking basket"

definition reusable :: "(nat \<Rightarrow> bool) \<Rightarrow> basket \<Rightarrow> nat \<Rightarrow> 'z session \<Rightarrow> bool" where
  "reusable alive basket p s \<longleftrightarrow> ss_magic s = SESSION_MAGIC \<and> \<not> goingAway s \<and> sameTarget s basket
     \<and> sessionProtocolUsable s basket \<and> alive p"

text \<open>The session in a slot the map marks active.\<close>

definition slotSession :: "'z sessionPool \<Rightarrow> nat \<Rightarrow> (nat \<times> 'z session) option" where
  "slotSession pool i =
     (if i < MAX_SESSIONS \<and> sp_sessionMap pool ! i
      then (case sp_sessions pool ! i of None \<Rightarrow> None | Some p \<Rightarrow> map_option (Pair p) (sp_store pool p)) else None)"

definition getSessionInfo :: "(nat \<Rightarrow> bool) \<Rightarrow> int \<Rightarrow> basket \<Rightarrow> 'z sessionPool \<Rightarrow> 'z sessionPool \<times> basket" where
  "getSessionInfo alive now basket pool =
     (case findIndex (\<lambda>i. case slotSession pool i of None \<Rightarrow> False | Some (p, s) \<Rightarrow> reusable alive basket p s) [0..<MAX_SESSIONS] of
        None \<Rightarrow> (pool, basket)
      | Some i \<Rightarrow>
          (case slotSession pool i of
             None \<Rightarrow> (pool, basket)
           | Some (p, s) \<Rightarrow>
               (pool\<lparr>sp_store := (sp_store pool)(p \<mapsto> s\<lparr>ss_lastUsedTime := now\<rparr>)\<rparr>,
                basket\<lparr>bk_session := Some p,
                       bk_proxy := (bk_proxy basket)\<lparr>px_response := strncpyField 1024 (px_response (ss_proxy s))\<rparr>\<rparr>)))"

section \<open>Registering and closing\<close>

definition registerSession :: "int \<Rightarrow> nat \<Rightarrow> 'z sessionPool \<Rightarrow> 'z sessionPool" where
  "registerSession now p pool =
     (case findIndex (\<lambda>active. \<not> active) (sp_sessionMap pool) of
        None \<Rightarrow> pool
      | Some i \<Rightarrow>
          pool\<lparr>sp_sessionMap := (sp_sessionMap pool)[i := True], sp_sessions := (sp_sessions pool)[i := Some p],
               sp_store := (sp_store pool)(p := map_option (\<lambda>s. s\<lparr>ss_lastUsedTime := now\<rparr>) (sp_store pool p)),
               sp_sessionCount := sp_sessionCount pool + 1\<rparr>)"

text \<open>
  \<open>closeSession\<close> with the results -1 and -2. The streams still waiting are failed before the
  session is freed; \<open>SSL_shutdown\<close> is left out after a SETTINGS_TIMEOUT.
\<close>

definition closeSession :: "nat option \<Rightarrow> error \<Rightarrow> 'z sessionPool \<Rightarrow> 'z sessionPool \<times> int" where
  "closeSession session e pool =
     (case session of
        None \<Rightarrow> (pool, -1)
      | Some p \<Rightarrow>
          (case sp_store pool p of
             None \<Rightarrow> (pool, -2)
           | Some s \<Rightarrow>
               if ss_magic s \<noteq> SESSION_MAGIC then (pool, -2)
               else (let cn = failAllStreams False (ss_conn s);
                         effectiveError = (if failed (cn_connError cn) then cn_connError cn else e);
                         shutdown = (\<not> failed effectiveError \<or> fst effectiveError \<noteq> fst ERR_SESSION_SETTINGS_TIMEOUT)
                     in (pool\<lparr>sp_store := (sp_store pool)(p := None), sp_closed := sp_closed pool @ [(p, shutdown)]\<rparr>, 0))))"

definition clearSlot :: "nat \<Rightarrow> 'z sessionPool \<Rightarrow> 'z sessionPool" where
  "clearSlot i pool =
     pool\<lparr>sp_sessions := (sp_sessions pool)[i := None], sp_sessionMap := (sp_sessionMap pool)[i := False],
          sp_sessionCount := sp_sessionCount pool - 1\<rparr>"

text \<open>Whether a session is reaped: nothing in flight, and stale, closed, idle too long, or everything is to go.\<close>

definition shouldReap :: "(nat \<Rightarrow> bool) \<Rightarrow> int \<Rightarrow> bool \<Rightarrow> nat \<Rightarrow> 'z session \<Rightarrow> bool" where
  "shouldReap alive now isAll p s \<longleftrightarrow> inflight s = 0 \<and>
     (isAll \<or> goingAway s \<or> \<not> alive p \<or> (now - ss_lastUsedTime s) * 1000 > ss_expirationInMilliseconds s)"

definition reapSlot :: "(nat \<Rightarrow> bool) \<Rightarrow> int \<Rightarrow> bool \<Rightarrow> nat \<Rightarrow> 'z sessionPool \<times> nat list \<Rightarrow> 'z sessionPool \<times> nat list" where
  "reapSlot alive now isAll i st =
     (case slotSession (fst st) i of
        None \<Rightarrow> st
      | Some (p, s) \<Rightarrow> if shouldReap alive now isAll p s then (clearSlot i (fst st), snd st @ [p]) else st)"

definition cleanupSessions :: "(nat \<Rightarrow> bool) \<Rightarrow> int \<Rightarrow> bool \<Rightarrow> 'z sessionPool \<Rightarrow> 'z sessionPool" where
  "cleanupSessions alive now isAll pool =
     (let (pool, toClose) = fold (reapSlot alive now isAll) [0..<MAX_SESSIONS] (pool, [])
      in fold (\<lambda>p pool. fst (closeSession (Some p) ERR_NONE pool)) toClose pool)"

text \<open>
  The first slot that equals the basket's session is cleared. A basket without a session equals
  the first empty slot: the counter is decremented all the same.
\<close>

definition cleanupTargetSession :: "basket \<Rightarrow> 'z sessionPool \<Rightarrow> 'z sessionPool \<times> basket" where
  "cleanupTargetSession basket pool =
     (let (pool, target) = (case findIndex (\<lambda>x. x = bk_session basket) (sp_sessions pool) of
                              None \<Rightarrow> (pool, None) | Some i \<Rightarrow> (clearSlot i pool, sp_sessions pool ! i));
          pool = (if target \<noteq> None then fst (closeSession target (bk_error basket) pool) else pool)
      in (pool, basket\<lparr>bk_session := None\<rparr>))"

section \<open>Proxy failures\<close>

definition isProxyError :: "basket \<Rightarrow> bool" where
  "isProxyError basket \<longleftrightarrow> failed (bk_error basket) \<and> fst (bk_error basket) \<in> set (map fst
     [ERR_PROXY_AUTHORIZATION_FAILED, ERR_PROXY_SOCKET_NONBLOCK_SETTING_FAILED, ERR_PROXY_SOCKET_CONNECTING_FAILED,
      ERR_PROXY_SEND_CONNECT_REQUEST_FAILED, ERR_PROXY_UNEXPECTED_RESPONSE, ERR_PROXY_SOCKET_CONNECTING_TIMEOUT,
      ERR_PROXY_SOCKET_CONNECTING_UNKNOWN_ERROR, ERR_PROXY_SOCKET_CONNECTING_REFUSED])"

definition throughProxy :: "basket \<Rightarrow> 'z session \<Rightarrow> bool" where
  "throughProxy basket s =
     (if px_host (bk_proxy basket) \<noteq> [] then sameProxy (ss_proxy s) (bk_proxy basket) else px_host (ss_proxy s) = [])"

definition markProxySessionsGoingAway :: "basket \<Rightarrow> 'z sessionPool \<Rightarrow> 'z sessionPool" where
  "markProxySessionsGoingAway basket pool =
     pool\<lparr>sp_store := (\<lambda>p. if p \<in> set (occupants (sp_sessions pool))
        then map_option (\<lambda>s. if ss_magic s = SESSION_MAGIC \<and> \<not> goingAway s \<and> throughProxy basket s then setGoingAway s else s) (sp_store pool p)
        else sp_store pool p)\<rparr>"

section \<open>A request's session\<close>

text \<open>
  \<open>created\<close> is the outcome of \<open>createSession\<close>: the basket as it left it, and the new session at a
  fresh pointer. The whole runs under the target's establish lock.
\<close>

definition handleSession ::
    "(nat \<Rightarrow> bool) \<Rightarrow> int \<Rightarrow> (basket \<Rightarrow> basket \<times> (nat \<times> 'z session) option) \<Rightarrow> basket \<Rightarrow> 'z sessionPool \<Rightarrow> 'z sessionPool \<times> basket" where
  "handleSession alive now create basket pool =
     (let pool = cleanupSessions alive now False pool;
          (pool, basket) = getSessionInfo alive now basket pool
      in if bk_session basket \<noteq> None then (pool, basket)
         else (case create basket of
                 (basket, Some (p, s)) \<Rightarrow>
                   (registerSession now p (pool\<lparr>sp_store := (sp_store pool)(p \<mapsto> s)\<rparr>), basket\<lparr>bk_session := Some p\<rparr>)
               | (basket, None) \<Rightarrow> (if isProxyError basket then markProxySessionsGoingAway basket pool else pool, basket)))"

section \<open>Establish locks\<close>

text \<open>A slot in use: its key and the number of requests that hold or await its lock.\<close>

definition buildSessionKey :: "basket \<Rightarrow> string" where
  "buildSessionKey basket = take 2047
     (bk_scheme basket @ ''://'' @ bk_host basket @ '':'' @ bk_port basket @ ''#'' @ px_scheme (bk_proxy basket) @ ''://''
      @ px_host (bk_proxy basket) @ '':'' @ px_port (bk_proxy basket) @ ''@'' @ px_authorization (bk_proxy basket)
      @ ''|nb='' @ (if bk_nonBlocking basket then ''1'' else ''0'') @ ''|h1='' @ (if bk_forceHttp11 basket then ''1'' else ''0''))"

definition hasKey :: "string \<Rightarrow> (string \<times> nat) option \<Rightarrow> bool" where
  "hasKey key x = (case x of None \<Rightarrow> False | Some (k, _) \<Rightarrow> k = key)"

definition acquireEstablishLock :: "string \<Rightarrow> (string \<times> nat) option list \<Rightarrow> (string \<times> nat) option list \<times> nat option" where
  "acquireEstablishLock key locks =
     (case findIndex (hasKey key) locks of
        Some i \<Rightarrow> (locks[i := map_option (\<lambda>(k, n). (k, n + 1)) (locks ! i)], Some i)
      | None \<Rightarrow>
          (case findIndex (\<lambda>x. x = None) locks of
             Some i \<Rightarrow> (locks[i := Some (key, 1)], Some i)
           | None \<Rightarrow> (locks, None)))"

definition releaseEstablishLock :: "nat \<Rightarrow> (string \<times> nat) option list \<Rightarrow> (string \<times> nat) option list" where
  "releaseEstablishLock i locks =
     (case locks ! i of
        None \<Rightarrow> locks
      | Some (k, n) \<Rightarrow> locks[i := if n - 1 = 0 then None else Some (k, n - 1)])"

end
