(* ===== verification/SessionPoolProps.thy ===== *)
theory SessionPoolProps
  imports SessionPool
begin

text \<open>
  The session pool is a bounded registry: the locale of \<open>Slots\<close> is interpreted on the whole pool.
  On it rest what reuse, reaping and proxy failures guarantee, the establish locks' reference
  counts, and the behaviours at odds with the comments.
\<close>

section \<open>The pool as a registry\<close>

definition pooled :: "'z sessionPool \<Rightarrow> nat set" where
  "pooled pool = set (occupants (sp_sessions pool))"

definition poolOk :: "'z sessionPool \<Rightarrow> bool" where
  "poolOk pool \<longleftrightarrow> slotsOk MAX_SESSIONS (sp_sessions pool) \<and> sp_sessionMap pool = map (\<lambda>x. x \<noteq> None) (sp_sessions pool)
     \<and> unat (sp_sessionCount pool) = length (occupants (sp_sessions pool))
     \<and> (\<forall>p\<in>pooled pool. \<exists>s. sp_store pool p = Some s \<and> ss_magic s = SESSION_MAGIC)"

lemma pool_small: "poolOk pool \<Longrightarrow> length (occupants (sp_sessions pool)) \<le> 1024"
  using occupants_length [of "sp_sessions pool"] by (simp add: poolOk_def slotsOk_def MAX_SESSIONS_def)

lemma findIndex_map: "findIndex P (map f xs) = findIndex (P \<circ> f) xs"
  by (induction xs) auto

lemma registerSession_slots:
  assumes "poolOk pool" "enterSlot p (sp_sessions pool) = Some slots"
  shows "registerSession now p pool = pool\<lparr>sp_sessionMap := map (\<lambda>x. x \<noteq> None) slots, sp_sessions := slots,
     sp_store := (sp_store pool)(p := map_option (\<lambda>s. s\<lparr>ss_lastUsedTime := now\<rparr>) (sp_store pool p)),
     sp_sessionCount := sp_sessionCount pool + 1\<rparr>"
proof -
  obtain i where i: "findIndex (\<lambda>x. x = None) (sp_sessions pool) = Some i" "slots = (sp_sessions pool)[i := Some p]"
    using assms(2) by (auto simp: enterSlot_def)
  have m: "sp_sessionMap pool = map (\<lambda>x. x \<noteq> None) (sp_sessions pool)" using assms(1) by (simp add: poolOk_def)
  have "findIndex (\<lambda>active. \<not> active) (sp_sessionMap pool) = Some i" using i(1) by (simp add: m findIndex_map comp_def)
  then show ?thesis using i(2) m by (simp add: registerSession_def map_update)
qed

lemma registerSession_full:
  assumes "poolOk pool" "enterSlot p (sp_sessions pool) = None"
  shows "registerSession now p pool = pool"
proof -
  have "findIndex (\<lambda>active. \<not> active) (sp_sessionMap pool) = None"
    using assms by (simp add: poolOk_def findIndex_map comp_def enterSlot_def)
  then show ?thesis by (simp add: registerSession_def)
qed

text \<open>Adding a session object, and giving it up, as the registry sees them.\<close>

definition enterSession :: "int \<Rightarrow> 'z session \<Rightarrow> nat \<Rightarrow> 'z sessionPool \<Rightarrow> 'z sessionPool option" where
  "enterSession now s p pool =
     (if enterSlot p (sp_sessions pool) = None then None else Some (registerSession now p (pool\<lparr>sp_store := (sp_store pool)(p \<mapsto> s)\<rparr>)))"

definition dropSession :: "basket \<Rightarrow> nat \<Rightarrow> 'z sessionPool \<Rightarrow> 'z sessionPool" where
  "dropSession basket p pool = fst (cleanupTargetSession (basket\<lparr>bk_session := Some p\<rparr>) pool)"

lemma poolOk_store:
  assumes "poolOk pool" "\<forall>p\<in>pooled pool. \<exists>s. st p = Some s \<and> ss_magic s = SESSION_MAGIC"
  shows "poolOk (pool\<lparr>sp_store := st\<rparr>)"
  using assms by (simp add: poolOk_def pooled_def)

lemma poolOk_close:
  assumes "poolOk pool" "p \<notin> pooled pool"
  shows "poolOk (pool\<lparr>sp_store := (sp_store pool)(p := None), sp_closed := c\<rparr>)"
    "pooled (pool\<lparr>sp_store := (sp_store pool)(p := None), sp_closed := c\<rparr>) = pooled pool"
  using assms by (auto simp: poolOk_def pooled_def)

lemma enterSession_ok:
  assumes "poolOk pool" "p \<notin> pooled pool" "enterSession now s p pool = Some pool'" "ss_magic s = SESSION_MAGIC"
  shows "poolOk pool' \<and> pooled pool' = insert p (pooled pool)"
proof -
  obtain slots where slots: "enterSlot p (sp_sessions pool) = Some slots" using assms(3) by (auto simp: enterSession_def split: if_splits)
  let ?pool = "pool\<lparr>sp_store := (sp_store pool)(p \<mapsto> s)\<rparr>"
  have ok: "poolOk ?pool" using assms(1,2) by (intro poolOk_store) (auto simp: poolOk_def)
  note o = enterSlot_occupants [OF slots]
  have pool': "pool' = registerSession now p ?pool" using assms(3) slots by (simp add: enterSession_def)
  have reg: "pool' = ?pool\<lparr>sp_sessionMap := map (\<lambda>x. x \<noteq> None) slots, sp_sessions := slots,
     sp_store := (sp_store ?pool)(p := map_option (\<lambda>s. s\<lparr>ss_lastUsedTime := now\<rparr>) (sp_store ?pool p)),
     sp_sessionCount := sp_sessionCount ?pool + 1\<rparr>"
    unfolding pool' by (rule registerSession_slots [OF ok]) (simp add: slots)
  have small: "unat (sp_sessionCount pool + 1) = Suc (unat (sp_sessionCount pool))"
    using pool_small [OF assms(1)] assms(1) by (simp add: poolOk_def unat_word_ariths)
  have d: "distinct (occupants slots)" using o(4) assms(1,2) by (simp add: poolOk_def slotsOk_def pooled_def)
  show ?thesis using assms(1,4) o d small by (auto simp: reg poolOk_def pooled_def slotsOk_def)
qed

lemma clearSlot_ok:
  assumes "poolOk pool" "i < MAX_SESSIONS" "sp_sessions pool ! i = Some p"
  shows "poolOk (clearSlot i pool) \<and> pooled (clearSlot i pool) = pooled pool - {p} \<and> sp_store (clearSlot i pool) = sp_store pool
    \<and> sp_closed (clearSlot i pool) = sp_closed pool"
proof -
  have len: "i < length (sp_sessions pool)" "distinct (occupants (sp_sessions pool))"
    using assms(1,2) by (simp_all add: poolOk_def slotsOk_def)
  note u = occupants_update [OF len(1), of None] and s = occupants_split [OF len(1)]
  have set: "set (occupants ((sp_sessions pool)[i := None])) = set (occupants (sp_sessions pool)) - {p}"
    and dist: "distinct (occupants ((sp_sessions pool)[i := None]))"
    and card: "length (occupants (sp_sessions pool)) = Suc (length (occupants ((sp_sessions pool)[i := None])))"
    using len(2) assms(3) by (auto simp: u s)
  have "unat (sp_sessionCount pool - 1) = unat (sp_sessionCount pool) - 1"
    using card assms(1) by (intro unat_minus_one) (auto simp: poolOk_def)
  then show ?thesis using assms(1) set dist card by (auto simp: clearSlot_def poolOk_def pooled_def slotsOk_def map_update)
qed


lemma findIndex_occupant:
  "distinct (occupants xs) \<Longrightarrow> Some p \<in> set xs \<Longrightarrow> \<exists>i. findIndex (\<lambda>x. x = Some p) xs = Some i \<and> i < length xs \<and> xs ! i = Some p"
  using findIndex_exists [of "Some p" xs "\<lambda>x. x = Some p"] findIndex_SomeD by fastforce

lemma closeSession_store:
  assumes "sp_store pool p = Some s" "ss_magic s = SESSION_MAGIC"
  shows "\<exists>b. closeSession (Some p) e pool = (pool\<lparr>sp_store := (sp_store pool)(p := None), sp_closed := sp_closed pool @ [(p, b)]\<rparr>, 0)"
  unfolding closeSession_def Let_def assms(1) option.case using assms(2) by (simp only: refl not_True_eq_False if_False) blast

lemma dropSession_ok:
  assumes "poolOk pool" "p \<in> pooled pool"
  shows "poolOk (dropSession basket p pool) \<and> pooled (dropSession basket p pool) = pooled pool - {p}"
proof -
  have "Some p \<in> set (sp_sessions pool)" using assms(2) by (simp add: pooled_def set_occupants)
  then obtain i where i: "findIndex (\<lambda>x. x = Some p) (sp_sessions pool) = Some i" "i < MAX_SESSIONS" "sp_sessions pool ! i = Some p"
    using findIndex_occupant assms(1) by (fastforce simp: poolOk_def slotsOk_def)
  note c = clearSlot_ok [OF assms(1) i(2,3)]
  obtain s where s: "sp_store (clearSlot i pool) p = Some s" "ss_magic s = SESSION_MAGIC" using assms c by (auto simp: poolOk_def)
  obtain b where b: "closeSession (Some p) (bk_error basket) (clearSlot i pool) = ((clearSlot i pool)\<lparr>sp_store := (sp_store (clearSlot i pool))(p := None),
      sp_closed := sp_closed (clearSlot i pool) @ [(p, b)]\<rparr>, 0)" using closeSession_store [OF s] by blast
  have "dropSession basket p pool = (clearSlot i pool)\<lparr>sp_store := (sp_store (clearSlot i pool))(p := None),
      sp_closed := sp_closed (clearSlot i pool) @ [(p, b)]\<rparr>"
    using i b by (simp add: dropSession_def cleanupTargetSession_def)
  then show ?thesis using c poolOk_close [of "clearSlot i pool" p] by simp
qed

interpretation pool: bounded_registry poolOk pooled "\<lambda>pool. unat (sp_sessionCount pool)" MAX_SESSIONS
  "enterSession now (initSession basket protocol hpackOk)" "dropSession basket" for now basket protocol hpackOk
proof (unfold_locales, goal_cases)
  case (1 t)
  then show ?case by (simp add: pooled_def)
next
  case (2 t)
  then show ?case using raw.count_members [of MAX_SESSIONS "sp_sessions t"] by (simp add: poolOk_def pooled_def)
next
  case (3 t)
  then show ?case using raw.members_bound [of MAX_SESSIONS "sp_sessions t"] by (simp add: poolOk_def pooled_def)
next
  case (4 t r)
  then show ?case using raw.enter_full [of MAX_SESSIONS "sp_sessions t" r] by (simp add: poolOk_def pooled_def enterSession_def)
next
  case (5 t r t')
  then show ?case using enterSession_ok by (metis initSession_def session.select_convs(8))
next
  case (6 t r)
  then show ?case by (rule dropSession_ok)
qed

section \<open>Reuse\<close>

lemma slotSession_Some: "poolOk pool \<Longrightarrow> slotSession pool i = Some (p, s) \<longleftrightarrow> i < MAX_SESSIONS \<and> sp_sessions pool ! i = Some p \<and> sp_store pool p = Some s"
  by (auto simp: slotSession_def poolOk_def slotsOk_def split: option.splits if_splits)

lemma pooled_slot: "poolOk pool \<Longrightarrow> p \<in> pooled pool \<longleftrightarrow> (\<exists>i<MAX_SESSIONS. sp_sessions pool ! i = Some p)"
  using set_occupants [of p "sp_sessions pool"] in_set_conv_nth [of "Some p" "sp_sessions pool"]
  unfolding pooled_def poolOk_def slotsOk_def by metis

lemma findSlot_Some: "findIndex P [0..<n] = Some i \<Longrightarrow> i < n \<and> P i"
  using findIndex_SomeD [of P "[0..<n]" i] by auto

lemma findSlot_None: "findIndex P [0..<n] = None \<longleftrightarrow> (\<forall>i<n. \<not> P i)"
  by (auto simp: findIndex_None)

text \<open>C9. A request reuses the right connection or none: the session handed out is in the pool, its
  socket is alive, it is not going away, it was made for the same scheme, host, port, proxy (with
  its credentials) and I/O mode, speaks HTTP/1.1 if that is forced, and if it speaks HTTP/1.1 no
  other exchange is running on it; none is handed out only if no pooled session qualifies.\<close>

theorem session_reuse_sound:
  assumes "poolOk pool" "bk_session basket = None" "getSessionInfo alive now basket pool = (pool', basket')"
  shows "case bk_session basket' of
      Some p \<Rightarrow> p \<in> pooled pool \<and> alive p \<and> (\<exists>s. sp_store pool p = Some s \<and> \<not> cn_goingAway (ss_conn s)
        \<and> ss_scheme s = bk_scheme basket \<and> ss_host s = bk_host basket \<and> ss_port s = bk_port basket
        \<and> px_scheme (ss_proxy s) = px_scheme (bk_proxy basket) \<and> px_host (ss_proxy s) = px_host (bk_proxy basket)
        \<and> px_port (ss_proxy s) = px_port (bk_proxy basket) \<and> px_authorization (ss_proxy s) = px_authorization (bk_proxy basket)
        \<and> ss_nonBlocking s = bk_nonBlocking basket
        \<and> (bk_forceHttp11 basket \<longrightarrow> ss_protocol s = HTTP_PROTOCOL_1_1)
        \<and> (ss_protocol s = HTTP_PROTOCOL_1_1 \<longrightarrow> cn_inflightCount (ss_conn s) = 0))
    | None \<Rightarrow> pool' = pool \<and> (\<forall>p\<in>pooled pool. \<forall>s. sp_store pool p = Some s \<longrightarrow> \<not> reusable alive basket p s)"
proof (cases "findIndex (\<lambda>i. case slotSession pool i of None \<Rightarrow> False | Some (p, s) \<Rightarrow> reusable alive basket p s) [0..<MAX_SESSIONS]")
  case None
  then have r: "pool' = pool" "basket' = basket" using assms(3) by (simp_all add: getSessionInfo_def)
  have all: "\<forall>i<MAX_SESSIONS. \<not> (case slotSession pool i of None \<Rightarrow> False | Some (p, s) \<Rightarrow> reusable alive basket p s)"
    by (rule findSlot_None [THEN iffD1]) (rule None)
  have "\<not> reusable alive basket p s" if "p \<in> pooled pool" "sp_store pool p = Some s" for p s
  proof -
    note p = that
    obtain i where i: "i < MAX_SESSIONS" "sp_sessions pool ! i = Some p" using p(1) pooled_slot [OF assms(1)] by auto
    then have "slotSession pool i = Some (p, s)" using p(2) slotSession_Some [OF assms(1)] by simp
    then show ?thesis using all [rule_format, OF i(1)] by simp
  qed
  then show ?thesis using r assms(2) by simp
next
  case (Some i)
  then obtain p s where s: "slotSession pool i = Some (p, s)" "reusable alive basket p s"
    using findSlot_Some [OF Some] by (auto split: option.splits)
  then have m: "p \<in> pooled pool" "sp_store pool p = Some s"
    using slotSession_Some [OF assms(1), of i p s] pooled_slot [OF assms(1), of p] by auto
  have "bk_session basket' = Some p" using assms(3) Some s(1) by (auto simp: getSessionInfo_def)
  moreover have "\<not> cn_goingAway (ss_conn s)" "sameTarget s basket" "sessionProtocolUsable s basket" "alive p"
    using s(2) by (simp_all add: reusable_def goingAway_def)
  ultimately show ?thesis using m
    by (simp add: sameTarget_def sameProxy_def sessionProtocolUsable_def Let_def inflight_def)
qed

section \<open>Reaping\<close>

lemma slots_inj:
  assumes "distinct (occupants xs)" "i < length xs" "j < length xs" "xs ! i = Some p" "xs ! j = Some p"
  shows "i = j"
proof -
  have "\<not> i < j" if "distinct (occupants xs)" "i < length xs" "j < length xs" "xs ! i = Some p" "xs ! j = Some p" for i j
  proof
    assume "i < j"
    then have "drop (Suc i) xs ! (j - Suc i) = Some p" "j - Suc i < length (drop (Suc i) xs)" using that(3,5) by simp_all
    then have "Some p \<in> set (drop (Suc i) xs)" by (metis nth_mem)
    then have "p \<in> set (occupants (drop (Suc i) xs))" by (simp add: set_occupants)
    then show False using that(1,4) by (simp add: occupants_split [OF that(2)])
  qed
  then show ?thesis using assms by (meson linorder_neqE_nat)
qed

definition doomed :: "(nat \<Rightarrow> bool) \<Rightarrow> int \<Rightarrow> bool \<Rightarrow> (nat \<Rightarrow> 'z session option) \<Rightarrow> nat \<Rightarrow> bool" where
  "doomed alive now isAll store p = (case store p of None \<Rightarrow> False | Some s \<Rightarrow> shouldReap alive now isAll p s)"

text \<open>After the first \<open>k\<close> slots: the doomed ones among them are empty and their sessions listed.\<close>

definition reapedTo :: "(nat \<Rightarrow> bool) \<Rightarrow> int \<Rightarrow> bool \<Rightarrow> 'z sessionPool \<Rightarrow> nat \<Rightarrow> 'z sessionPool \<times> nat list \<Rightarrow> bool" where
  "reapedTo alive now isAll pool k st \<longleftrightarrow> poolOk (fst st) \<and> sp_store (fst st) = sp_store pool \<and> sp_closed (fst st) = sp_closed pool
     \<and> (\<forall>j. k \<le> j \<and> j < MAX_SESSIONS \<longrightarrow> sp_sessions (fst st) ! j = sp_sessions pool ! j)
     \<and> set (snd st) = {p. \<exists>j<k. sp_sessions pool ! j = Some p \<and> doomed alive now isAll (sp_store pool) p}
     \<and> pooled (fst st) = pooled pool - set (snd st) \<and> distinct (snd st)"

lemma reapSlot_step:
  assumes ok: "poolOk pool" and inv: "reapedTo alive now isAll pool k st" and k: "k < MAX_SESSIONS"
  shows "reapedTo alive now isAll pool (Suc k) (reapSlot alive now isAll k st)"
proof -
  obtain q cl where st: "st = (q, cl)" by fastforce
  have i: "poolOk q" "sp_store q = sp_store pool" "sp_sessions q ! k = sp_sessions pool ! k"
    using inv k by (simp_all add: reapedTo_def st)
  have set: "set cl = {p. \<exists>j<k. sp_sessions pool ! j = Some p \<and> doomed alive now isAll (sp_store pool) p}"
    using inv by (simp add: reapedTo_def st)
  show ?thesis
  proof (cases "\<exists>p. sp_sessions pool ! k = Some p \<and> doomed alive now isAll (sp_store pool) p")
    case False
    then have r: "reapSlot alive now isAll k st = st"
      using i k by (auto simp: reapSlot_def st doomed_def slotSession_Some split: option.splits)
    have "{p. \<exists>j<Suc k. sp_sessions pool ! j = Some p \<and> doomed alive now isAll (sp_store pool) p} = set cl"
      using False by (auto simp: set less_Suc_eq)
    then show ?thesis using inv unfolding r by (simp add: reapedTo_def st)
  next
    case True
    then obtain p s where p: "sp_sessions pool ! k = Some p" "sp_store pool p = Some s" "shouldReap alive now isAll p s"
      by (auto simp: doomed_def split: option.splits)
    have kq: "sp_sessions q ! k = Some p" using i p by simp
    have sl: "slotSession q k = Some (p, s)" using i k p by (simp add: slotSession_Some)
    have r: "reapSlot alive now isAll k st = (clearSlot k q, cl @ [p])" using sl p(3) by (simp add: reapSlot_def st)
    note c = clearSlot_ok [OF i(1) k kq]
    have "{p. \<exists>j<Suc k. sp_sessions pool ! j = Some p \<and> doomed alive now isAll (sp_store pool) p} = insert p (set cl)"
      using p by (auto simp: set less_Suc_eq doomed_def)
    moreover have "p \<notin> set cl"
    proof
      assume "p \<in> set cl"
      then obtain j where "j < k" "sp_sessions pool ! j = Some p" using set by blast
      then show False using slots_inj [of "sp_sessions pool" j k p] ok p(1) k by (simp add: poolOk_def slotsOk_def)
    qed
    moreover have "sp_sessions (clearSlot k q) ! j = sp_sessions q ! j" if "Suc k \<le> j" for j
      using that by (simp add: clearSlot_def)
    ultimately show ?thesis using inv c i unfolding r by (auto simp: reapedTo_def st)
  qed
qed

lemma reap_fold:
  "poolOk pool \<Longrightarrow> k \<le> MAX_SESSIONS \<Longrightarrow> reapedTo alive now isAll pool k (fold (reapSlot alive now isAll) [0..<k] (pool, []))"
proof (induction k)
  case 0
  then show ?case by (simp add: reapedTo_def)
next
  case (Suc k)
  then show ?case using reapSlot_step [OF Suc.prems(1), of alive now isAll k] by simp
qed

lemma close_fold:
  "poolOk pool \<Longrightarrow> distinct ps \<Longrightarrow> set ps \<inter> pooled pool = {} \<Longrightarrow> \<forall>p\<in>set ps. \<exists>s. sp_store pool p = Some s \<and> ss_magic s = SESSION_MAGIC \<Longrightarrow>
     \<exists>bs. length bs = length ps \<and> fold (\<lambda>p pool. fst (closeSession (Some p) ERR_NONE pool)) ps pool
        = pool\<lparr>sp_store := (\<lambda>p. if p \<in> set ps then None else sp_store pool p), sp_closed := sp_closed pool @ zip ps bs\<rparr>"
proof (induction ps arbitrary: pool)
  case Nil
  then show ?case by simp
next
  case (Cons p ps)
  obtain s where "sp_store pool p = Some s" "ss_magic s = SESSION_MAGIC" using Cons.prems(4) by auto
  from closeSession_store [OF this, of ERR_NONE] obtain b where
    b: "fst (closeSession (Some p) ERR_NONE pool) = pool\<lparr>sp_store := (sp_store pool)(p := None), sp_closed := sp_closed pool @ [(p, b)]\<rparr>"
    by auto
  let ?pool = "pool\<lparr>sp_store := (sp_store pool)(p := None), sp_closed := sp_closed pool @ [(p, b)]\<rparr>"
  have "poolOk ?pool" "pooled ?pool = pooled pool" using Cons.prems(1,3) poolOk_close [of pool p] by auto
  then obtain bs where bs: "length bs = length ps" "fold (\<lambda>p pool. fst (closeSession (Some p) ERR_NONE pool)) ps ?pool
      = ?pool\<lparr>sp_store := (\<lambda>p. if p \<in> set ps then None else sp_store ?pool p), sp_closed := sp_closed ?pool @ zip ps bs\<rparr>"
  proof -
    have "distinct ps" "set ps \<inter> pooled ?pool = {}" using Cons.prems(2,3) \<open>pooled ?pool = pooled pool\<close> by auto
    moreover have "\<forall>q\<in>set ps. \<exists>s. sp_store ?pool q = Some s \<and> ss_magic s = SESSION_MAGIC" using Cons.prems(2,4) by auto
    ultimately show ?thesis using Cons.IH [OF \<open>poolOk ?pool\<close>] that by blast
  qed
  have eq: "(\<lambda>q. if q \<in> set ps then None else sp_store ?pool q) = (\<lambda>q. if q \<in> set (p # ps) then None else sp_store pool q)"
    by auto
  have "fold (\<lambda>p pool. fst (closeSession (Some p) ERR_NONE pool)) (p # ps) pool
      = ?pool\<lparr>sp_store := (\<lambda>q. if q \<in> set (p # ps) then None else sp_store pool q), sp_closed := sp_closed ?pool @ zip ps bs\<rparr>"
    unfolding eq [symmetric] bs(2) [symmetric] by (simp add: b)
  then show ?case using bs(1) by (intro exI [of _ "b # bs"]) simp
qed

lemma cleanup_effect:
  assumes "poolOk pool"
  shows "\<exists>dead. set dead = {p \<in> pooled pool. doomed alive now isAll (sp_store pool) p} \<and> distinct dead
    \<and> poolOk (cleanupSessions alive now isAll pool) \<and> pooled (cleanupSessions alive now isAll pool) = pooled pool - set dead
    \<and> sp_store (cleanupSessions alive now isAll pool) = (\<lambda>p. if p \<in> set dead then None else sp_store pool p)
    \<and> map fst (sp_closed (cleanupSessions alive now isAll pool)) = map fst (sp_closed pool) @ dead"
proof -
  obtain q dead where f: "fold (reapSlot alive now isAll) [0..<MAX_SESSIONS] (pool, []) = (q, dead)" by fastforce
  have inv: "reapedTo alive now isAll pool MAX_SESSIONS (q, dead)" using reap_fold [OF assms, of MAX_SESSIONS alive now isAll] f by simp
  then have i: "poolOk q" "sp_store q = sp_store pool" "sp_closed q = sp_closed pool" "pooled q = pooled pool - set dead" "distinct dead"
    by (simp_all add: reapedTo_def)
  have set: "set dead = {p \<in> pooled pool. doomed alive now isAll (sp_store pool) p}"
    using inv pooled_slot [OF assms] by (auto simp: reapedTo_def)
  have "\<forall>p\<in>set dead. \<exists>s. sp_store q p = Some s \<and> ss_magic s = SESSION_MAGIC"
    using assms set i(2) by (auto simp: poolOk_def)
  from close_fold [OF i(1,5) _ this] i(4) obtain bs where bs: "length bs = length dead"
    "cleanupSessions alive now isAll pool = q\<lparr>sp_store := (\<lambda>p. if p \<in> set dead then None else sp_store q p), sp_closed := sp_closed q @ zip dead bs\<rparr>"
    using f by (auto simp: cleanupSessions_def)
  have "poolOk (cleanupSessions alive now isAll pool)" using i(1,4) by (auto simp: bs(2) poolOk_def pooled_def)
  then show ?thesis using set i(4,5) bs(1) by (intro exI [of _ dead]) (simp add: pooled_def bs(2) i(2,3) cong: if_cong)
qed

text \<open>C16. The reaper closes what it should and nothing in use: a session goes exactly when no stream is in
  flight on it and it is going away, closed by the peer, idle for longer than its expiration, or
  everything is shut down; then it leaves the pool and is closed, once. Every other session stays
  pooled, unchanged, and the pool stays well formed.\<close>

theorem reaper_sound:
  fixes isAll :: bool and now :: int and alive :: "nat \<Rightarrow> bool"
  assumes "poolOk pool" "p \<in> pooled pool" "sp_store pool p = Some s"
  defines "pool' \<equiv> cleanupSessions alive now isAll pool"
  shows "poolOk pool' \<and>
    (if cn_inflightCount (ss_conn s) = 0
        \<and> (isAll \<or> cn_goingAway (ss_conn s) \<or> \<not> alive p \<or> (now - ss_lastUsedTime s) * 1000 > ss_expirationInMilliseconds s)
     then p \<notin> pooled pool' \<and> sp_store pool' p = None \<and> (p \<in> fst ` set (sp_closed pool') )
     else p \<in> pooled pool' \<and> sp_store pool' p = Some s)"
proof -
  obtain dead where d: "set dead = {p \<in> pooled pool. doomed alive now isAll (sp_store pool) p}" "poolOk pool'"
    "pooled pool' = pooled pool - set dead" "sp_store pool' = (\<lambda>p. if p \<in> set dead then None else sp_store pool p)"
    "map fst (sp_closed pool') = map fst (sp_closed pool) @ dead"
    using cleanup_effect [OF assms(1), of alive now isAll] unfolding pool'_def by blast
  have "fst ` set (sp_closed pool') = set (map fst (sp_closed pool'))" by simp
  then have c: "fst ` set (sp_closed pool') = fst ` set (sp_closed pool) \<union> set dead" unfolding d(5) by simp
  have "p \<in> set dead \<longleftrightarrow> shouldReap alive now isAll p s" using d(1) assms(2,3) by (simp add: doomed_def)
  then show ?thesis using d(2-4) c assms(2,3) by (auto simp: shouldReap_def inflight_def goingAway_def)
qed

section \<open>Proxy failures\<close>

lemma getSessionInfo_marked:
  assumes "poolOk pool" "px_host (bk_proxy basket) \<noteq> []" "sameProxy (bk_proxy b) (bk_proxy basket)" "bk_session b = None"
  shows "bk_session (snd (getSessionInfo alive now b (markProxySessionsGoingAway basket pool))) = None"
proof -
  let ?pool = "markProxySessionsGoingAway basket pool"
  have occ: "sp_sessions ?pool = sp_sessions pool" "sp_sessionMap ?pool = sp_sessionMap pool" by (simp_all add: markProxySessionsGoingAway_def)
  have "\<not> (case slotSession ?pool i of None \<Rightarrow> False | Some (p, s) \<Rightarrow> reusable alive b p s)" if "i < MAX_SESSIONS" for i
  proof (cases "slotSession ?pool i")
    case (Some x)
    obtain p s where x: "x = (p, s)" by fastforce
    then have p: "sp_sessions pool ! i = Some p" "sp_store ?pool p = Some s"
      using Some occ by (auto simp: slotSession_def split: if_splits option.splits)
    have "i < length (sp_sessions pool)" using assms(1) that by (simp add: poolOk_def slotsOk_def)
    then have "p \<in> set (occupants (sp_sessions pool))" using p(1) unfolding set_occupants by (metis nth_mem)
    then obtain s0 where s0: "sp_store pool p = Some s0"
      "s = (if ss_magic s0 = SESSION_MAGIC \<and> \<not> goingAway s0 \<and> throughProxy basket s0 then setGoingAway s0 else s0)"
      using p(2) by (auto simp: markProxySessionsGoingAway_def)
    have "\<not> reusable alive b p s"
    proof
      assume r: "reusable alive b p s"
      have same: "sameProxy (ss_proxy s0) (bk_proxy basket)"
        using r assms(3) s0(2) by (auto simp: reusable_def sameTarget_def sameProxy_def setGoingAway_def split: if_splits)
      then have "throughProxy basket s0" using assms(2) by (simp add: throughProxy_def)
      then have "goingAway s \<or> ss_magic s \<noteq> SESSION_MAGIC" using s0(2) by (auto simp: goingAway_def setGoingAway_def)
      then show False using r by (auto simp: reusable_def)
    qed
    then show ?thesis using Some x by simp
  qed simp
  then have "findIndex (\<lambda>i. case slotSession ?pool i of None \<Rightarrow> False | Some (p, s) \<Rightarrow> reusable alive b p s) [0..<MAX_SESSIONS] = None"
    by (intro findSlot_None [THEN iffD2]) blast
  then show ?thesis using assms(4) by (simp add: getSessionInfo_def)
qed

text \<open>C25. After a proxy failure no tunnel through that proxy is used again: once a request could not get a
  session for a proxy-level error (a 407 for example), no later request with the same proxy and
  credentials is handed a session the pool held then, whatever its target.\<close>

theorem proxy_failure_blocks_reuse:
  assumes "poolOk pool" and "handleSession alive now create basket pool = (pool', basket')"
    and "bk_session basket' = None" "isProxyError basket'" "px_host (bk_proxy basket') \<noteq> []"
    and "bk_session b = None" "px_scheme (bk_proxy b) = px_scheme (bk_proxy basket')" "px_host (bk_proxy b) = px_host (bk_proxy basket')"
      "px_port (bk_proxy b) = px_port (bk_proxy basket')" "px_authorization (bk_proxy b) = px_authorization (bk_proxy basket')"
  shows "bk_session (snd (getSessionInfo alive' now' b pool')) = None"
proof -
  let ?pool = "cleanupSessions alive now False pool"
  obtain pool1 basket1 where g: "getSessionInfo alive now basket ?pool = (pool1, basket1)" by fastforce
  have ok: "poolOk ?pool" using cleanup_effect [OF assms(1)] by blast
  have n: "bk_session basket1 = None" using assms(2,3) g by (auto simp: handleSession_def Let_def split: if_splits)
  then have p1: "pool1 = ?pool" using g by (auto simp: getSessionInfo_def split: option.splits prod.splits)
  obtain c where "create basket1 = (basket', None)" and pool': "pool' = markProxySessionsGoingAway basket' ?pool"
    using assms(2-4) g n p1 by (auto simp: handleSession_def Let_def split: prod.splits option.splits if_splits)
  have "sameProxy (bk_proxy b) (bk_proxy basket')" using assms(7-10) by (simp add: sameProxy_def)
  from getSessionInfo_marked [OF ok assms(5) this assms(6)] show ?thesis unfolding pool' by blast
qed

section \<open>Sample pool\<close>

definition sampleBasket :: basket where
  "sampleBasket = \<lparr>bk_scheme = ''https'', bk_host = ''h'', bk_port = ''443'',
     bk_proxy = \<lparr>px_scheme = ''http'', px_host = ''proxy'', px_port = ''3128'', px_authorization = ''Basic eA=='', px_response = []\<rparr>,
     bk_nonBlocking = False, bk_forceHttp11 = False, bk_sessionExpiration = 60000, bk_clientHelloId = ''chrome'',
     bk_headerTableSize = 65536, bk_error = ERR_NONE, bk_session = None\<rparr>"

definition samplePool :: "(bytes \<times> nat) sessionPool" where
  "samplePool = registerSession 5 3 (initSharedSessionPool\<lparr>sp_store := [3 \<mapsto> initSession sampleBasket HTTP_PROTOCOL_2 True]\<rparr>)"

lemma initPool_ok: "poolOk initSharedSessionPool" "pooled initSharedSessionPool = {}"
  by (simp_all add: poolOk_def slotsOk_def pooled_def initSharedSessionPool_def)

lemma samplePool_ok: "poolOk samplePool" "pooled samplePool = {3}"
  "sp_store samplePool 3 = Some ((initSession sampleBasket HTTP_PROTOCOL_2 True)\<lparr>ss_lastUsedTime := 5\<rparr>)"
proof -
  let ?s = "initSession sampleBasket HTTP_PROTOCOL_2 True :: (bytes \<times> nat) session"
  have "enterSlot 3 (sp_sessions (initSharedSessionPool :: (bytes \<times> nat) sessionPool)) \<noteq> None"
    by (simp add: enterSlot_def initSharedSessionPool_def findIndex_None MAX_SESSIONS_def)
  then have e: "enterSession 5 ?s 3 initSharedSessionPool = Some samplePool"
    by (auto simp: enterSession_def samplePool_def initSharedSessionPool_def)
  have "ss_magic ?s = SESSION_MAGIC" by (simp add: initSession_def)
  from enterSession_ok [OF initPool_ok(1) _ e this] show ok: "poolOk samplePool" "pooled samplePool = {3}"
    by (simp_all add: initPool_ok(2))
  show "sp_store samplePool 3 = Some (?s\<lparr>ss_lastUsedTime := 5\<rparr>)"
  proof (cases "findIndex (\<lambda>active. \<not> active) (sp_sessionMap (initSharedSessionPool :: (bytes \<times> nat) sessionPool))")
    case None
    then show ?thesis by (simp add: initSharedSessionPool_def findIndex_None MAX_SESSIONS_def)
  next
    case (Some i)
    then show ?thesis by (simp add: samplePool_def registerSession_def initSharedSessionPool_def)
  qed
qed

lemma session_reuse_sound_witness:
  "bk_session (snd (getSessionInfo (\<lambda>_. True) 7 sampleBasket samplePool)) = Some 3"
proof -
  obtain pool' basket' where g: "getSessionInfo (\<lambda>_. True) 7 sampleBasket samplePool = (pool', basket')" by fastforce
  have "bk_session sampleBasket = None" by (simp add: sampleBasket_def)
  note sound = session_reuse_sound [OF samplePool_ok(1) this g]
  have "reusable (\<lambda>_. True) sampleBasket 3 ((initSession sampleBasket HTTP_PROTOCOL_2 True :: (bytes \<times> nat) session)\<lparr>ss_lastUsedTime := 5\<rparr>)"
    by (simp add: reusable_def initSession_def goingAway_def initConn_def sameTarget_def sameProxy_def copyProxy_def sampleBasket_def
        strncpyField_def sessionProtocolUsable_def)
  then show ?thesis using sound samplePool_ok(3) by (auto simp: g samplePool_ok(2) split: option.splits)
qed

lemma reaper_sound_witness:
  "3 \<in> pooled (cleanupSessions (\<lambda>_. True) 60 False samplePool) \<and> 3 \<notin> pooled (cleanupSessions (\<lambda>_. True) 66 False samplePool)"
proof -
  have m: "3 \<in> pooled samplePool" by (simp add: samplePool_ok(2))
  show ?thesis
    using reaper_sound [OF samplePool_ok(1) m samplePool_ok(3), of "\<lambda>_. True" 60 False]
      reaper_sound [OF samplePool_ok(1) m samplePool_ok(3), of "\<lambda>_. True" 66 False]
    by (simp add: initSession_def sampleBasket_def initConn_def)
qed

lemma getSessionInfo_dead: "getSessionInfo (\<lambda>_. False) now basket pool = (pool, basket)"
proof -
  have "findIndex (\<lambda>i. case slotSession pool i of None \<Rightarrow> False | Some (p, s) \<Rightarrow> reusable (\<lambda>_. False) basket p s) [0..<MAX_SESSIONS] = None"
    by (intro findSlot_None [THEN iffD2]) (auto simp: reusable_def split: option.splits)
  then show ?thesis by (simp add: getSessionInfo_def)
qed

lemma proxy_failure_blocks_reuse_witness:
  "bk_session (snd (getSessionInfo (\<lambda>_. True) 9 sampleBasket
     (fst (handleSession (\<lambda>_. False) 6 (\<lambda>b. (b\<lparr>bk_error := ERR_PROXY_AUTHORIZATION_FAILED\<rparr>, None)) sampleBasket samplePool)))) = None"
proof -
  let ?create = "\<lambda>b :: basket. (b\<lparr>bk_error := ERR_PROXY_AUTHORIZATION_FAILED\<rparr>, None :: (nat \<times> (bytes \<times> nat) session) option)"
  obtain pool' basket' where h: "handleSession (\<lambda>_. False) 6 ?create sampleBasket samplePool = (pool', basket')" by fastforce
  have b: "basket' = sampleBasket\<lparr>bk_error := ERR_PROXY_AUTHORIZATION_FAILED\<rparr>"
    using h by (auto simp: handleSession_def getSessionInfo_dead sampleBasket_def Let_def)
  have "isProxyError basket'" by (simp add: b isProxyError_def failed_def ERR_PROXY_AUTHORIZATION_FAILED_def)
  moreover have "bk_session basket' = None" "px_host (bk_proxy basket') \<noteq> []" by (simp_all add: b sampleBasket_def)
  ultimately show ?thesis
    using proxy_failure_blocks_reuse [OF samplePool_ok(1) h, of sampleBasket "\<lambda>_. True" 9] h
    by (simp add: b sampleBasket_def)
qed

section \<open>Establish locks\<close>

text \<open>
  The table holds each key once, with a positive count. Requests with the same key get the same
  slot, so the same mutex.
\<close>

definition locksOk :: "(string \<times> nat) option list \<Rightarrow> bool" where
  "locksOk locks \<longleftrightarrow> distinct (map fst (occupants locks)) \<and> (\<forall>x\<in>set (occupants locks). snd x > 0)"

definition holders :: "string \<Rightarrow> (string \<times> nat) option list \<Rightarrow> nat" where
  "holders key locks = (\<Sum>x\<leftarrow>occupants locks. if fst x = key then snd x else 0)"

lemma holders_split: "i < length locks \<Longrightarrow>
    holders key locks = holders key (take i locks) + (case locks ! i of None \<Rightarrow> 0 | Some (k, n) \<Rightarrow> if k = key then n else 0)
      + holders key (drop (Suc i) locks)"
  unfolding holders_def by (subst occupants_split [of i]) (auto split: option.splits)

lemma holders_update: "i < length locks \<Longrightarrow>
    holders key (locks[i := x]) = holders key (take i locks) + (case x of None \<Rightarrow> 0 | Some (k, n) \<Rightarrow> if k = key then n else 0)
      + holders key (drop (Suc i) locks)"
  unfolding holders_def by (subst occupants_update) (auto split: option.splits)

lemma acquire_cases:
  assumes "acquireEstablishLock key locks = (locks', Some i)"
  shows "i < length locks \<and> ((\<exists>n. locks ! i = Some (key, n) \<and> locks' = locks[i := Some (key, Suc n)])
      \<or> locks ! i = None \<and> locks' = locks[i := Some (key, 1)])
    \<and> findIndex (hasKey key) locks' = Some i"
proof (cases "findIndex (hasKey key) locks")
  case (Some j)
  then have j: "j < length locks" "hasKey key (locks ! j)" "\<forall>k<j. \<not> hasKey key (locks ! k)" by (simp_all add: findIndex_iff)
  then obtain n where n: "locks ! j = Some (key, n)" by (auto simp: hasKey_def split: option.splits)
  have r: "locks' = locks[j := Some (key, Suc n)]" "i = j"
    using assms Some n by (auto simp: acquireEstablishLock_def)
  have "findIndex (hasKey key) locks' = Some i" using j r by (auto simp: findIndex_iff hasKey_def)
  then show ?thesis using j(1) n r by blast
next
  case None
  then have none: "\<forall>x\<in>set locks. \<not> hasKey key x" by (simp add: findIndex_None)
  obtain j where f: "findIndex (\<lambda>x. x = None) locks = Some j"
    using assms None by (cases "findIndex (\<lambda>x. x = None) locks") (simp_all add: acquireEstablishLock_def)
  have "locks[j := Some (key, 1)] = locks' \<and> j = i"
    using assms unfolding acquireEstablishLock_def None f by auto
  then have r: "locks' = locks[j := Some (key, 1)]" "i = j" by auto
  have j: "j < length locks" "locks ! j = None" using findIndex_SomeD [OF f] by auto
  have "\<not> hasKey key (locks ! k)" if "k < j" for k using none j(1) that by simp
  then have "findIndex (hasKey key) locks' = Some i" unfolding r using j by (auto simp: findIndex_iff hasKey_def)
  then show ?thesis using j r by blast
qed

lemma acquire_counts:
  assumes "acquireEstablishLock key locks = (locks', Some i)"
  shows "holders k locks' = holders k locks + (if k = key then 1 else 0)"
proof -
  have i: "i < length locks" using acquire_cases [OF assms] by blast
  note split = holders_split [OF i, of k] holders_update [OF i, of k]
  from acquire_cases [OF assms] show ?thesis
    by (elim conjE disjE exE) (simp_all add: split)
qed

lemma release_counts:
  assumes "i < length locks" "locks ! i = Some (key, Suc n)"
  shows "holders k (releaseEstablishLock i locks) = holders k locks - (if k = key then 1 else 0)"
  using assms holders_split [OF assms(1), of k] holders_update [OF assms(1), of k]
  by (simp add: releaseEstablishLock_def)

lemma acquire_same_slot:
  assumes "acquireEstablishLock key locks = (locks', Some i)"
  shows "\<exists>locks''. acquireEstablishLock key locks' = (locks'', Some i)"
proof -
  have "findIndex (hasKey key) locks' = Some i" using acquire_cases [OF assms] by blast
  then show ?thesis by (simp add: acquireEstablishLock_def)
qed

section \<open>Behaviours at odds with the comments\<close>

text \<open>A request without a session is cleaned up as if it owned the first empty slot: the count wraps.\<close>

lemma findIndex_replicate: "n > 0 \<Longrightarrow> P x \<Longrightarrow> findIndex P (replicate n x) = Some 0"
  by (cases n) auto

lemma null_session_underflows:
  "sp_sessionCount (fst (cleanupTargetSession (sampleBasket\<lparr>bk_session := None\<rparr>) initSharedSessionPool)) = - 1"
proof -
  have "findIndex (\<lambda>x. x = None) (replicate MAX_SESSIONS (None :: nat option)) = Some 0" by (intro findIndex_replicate) (simp_all add: MAX_SESSIONS_def)
  moreover have "replicate MAX_SESSIONS (None :: nat option) ! 0 = None" by (simp add: MAX_SESSIONS_def)
  ultimately show ?thesis by (simp add: cleanupTargetSession_def initSharedSessionPool_def clearSlot_def)
qed

text \<open>Two requests that could share a session wait for different locks: the key holds the forced protocol.\<close>

lemma forced_protocol_has_own_lock:
  "buildSessionKey (sampleBasket\<lparr>bk_forceHttp11 := True\<rparr>) \<noteq> buildSessionKey sampleBasket
   \<and> (ss_protocol s = HTTP_PROTOCOL_1_1 \<longrightarrow>
       reusable alive (sampleBasket\<lparr>bk_forceHttp11 := True\<rparr>) p s = reusable alive sampleBasket p s)"
proof -
  have "buildSessionKey (sampleBasket\<lparr>bk_forceHttp11 := True\<rparr>) \<noteq> buildSessionKey sampleBasket"
    by (simp add: buildSessionKey_def sampleBasket_def)
  then show ?thesis by (simp add: reusable_def sameTarget_def sessionProtocolUsable_def sampleBasket_def)
qed

text \<open>A proxy whose name does not resolve is no proxy error.\<close>

lemma proxy_resolve_is_no_proxy_error: "\<not> isProxyError (basket\<lparr>bk_error := ERR_PROXY_HOST_RESOLVE_FAILED\<rparr>)"
  by (simp add: isProxyError_def ERR_PROXY_HOST_RESOLVE_FAILED_def ERR_PROXY_AUTHORIZATION_FAILED_def
      ERR_PROXY_SOCKET_NONBLOCK_SETTING_FAILED_def ERR_PROXY_SOCKET_CONNECTING_FAILED_def ERR_PROXY_SEND_CONNECT_REQUEST_FAILED_def
      ERR_PROXY_UNEXPECTED_RESPONSE_def ERR_PROXY_SOCKET_CONNECTING_TIMEOUT_def ERR_PROXY_SOCKET_CONNECTING_UNKNOWN_ERROR_def
      ERR_PROXY_SOCKET_CONNECTING_REFUSED_def)

end
