(* ===== verification/Http11Request.thy ===== *)
theory Http11Request
  imports HpackEncode UrlParser Http11Response FlowControl
begin

text \<open>
  The HTTP/1.1 request side, \<open>src/Http11RequestHandler.c\<close>, with the string buffer of
  \<open>src/utils/Common.c\<close> and the write loop of \<open>src/Http2RequestHandler.c\<close> it uses: the request is
  built in a growing buffer, written in full, and the response is read on the same thread.
  \<open>alloc n\<close> says whether \<open>realloc\<close> to \<open>n\<close> bytes succeeds.
\<close>

section \<open>The string buffer\<close>

text \<open>\<open>sb_data\<close> holds the first \<open>len\<close> characters.\<close>

record strBuf =
  sb_data :: string
  sb_cap :: nat
  sb_failed :: bool

definition emptyBuf :: strBuf where
  "emptyBuf = \<lparr>sb_data = [], sb_cap = 0, sb_failed = False\<rparr>"

definition sbReserve :: "(nat \<Rightarrow> bool) \<Rightarrow> nat \<Rightarrow> strBuf \<Rightarrow> strBuf" where
  "sbReserve alloc extra sb =
     (if sb_failed sb then sb
      else if length (sb_data sb) + extra + 1 \<le> sb_cap sb then sb
      else (let newCap = growCapacity (if sb_cap sb \<noteq> 0 then sb_cap sb else 1024) (length (sb_data sb) + extra + 1)
            in if \<not> alloc newCap then sb\<lparr>sb_failed := True\<rparr> else sb\<lparr>sb_cap := newCap\<rparr>))"

definition sbAppendStr :: "(nat \<Rightarrow> bool) \<Rightarrow> string \<Rightarrow> strBuf \<Rightarrow> strBuf" where
  "sbAppendStr alloc s sb =
     (let sb = sbReserve alloc (length s) sb
      in if sb_failed sb then sb else sb\<lparr>sb_data := sb_data sb @ s\<rparr>)"

section \<open>Building the request\<close>

text \<open>What the code reads of the basket and its session.\<close>

record http11Request =
  hq_method :: string
  hq_url :: urlComponents
  hq_headers :: "reqHeader list"
  hq_payload :: "string option"
  hq_plainProxy :: bool
  hq_authorization :: string

definition CRLF :: string where
  "CRLF = [CHR 0x0D, CHR 0x0A]"

text \<open>A line that does not fit its 4608 bytes is sent with what lies behind them: \<open>None\<close>.\<close>

definition appendRequestLine :: "(nat \<Rightarrow> bool) \<Rightarrow> string \<Rightarrow> string \<Rightarrow> strBuf \<Rightarrow> strBuf option" where
  "appendRequestLine alloc method target sb =
     (let requestLine = method @ '' '' @ target @ '' HTTP/1.1'' @ CRLF
      in if length requestLine < 4608 then Some (sbAppendStr alloc requestLine sb) else None)"

text \<open>The state is the request, the merged cookies and whether Host was emitted.\<close>

fun appendHeaders :: "(nat \<Rightarrow> bool) \<Rightarrow> reqHeader list \<Rightarrow> strBuf \<Rightarrow> strBuf \<Rightarrow> bool \<Rightarrow> strBuf \<times> strBuf \<times> bool" where
  "appendHeaders alloc [] sb cookies hostEmitted = (sb, cookies, hostEmitted)"
| "appendHeaders alloc (h # hs) sb cookies hostEmitted =
     (if rh_isPseudo h then
        (if strcaseeq (rh_name h) '':authority'' \<and> \<not> hostEmitted
         then appendHeaders alloc hs (sbAppendStr alloc CRLF (sbAppendStr alloc (rh_value h) (sbAppendStr alloc ''Host: '' sb))) cookies True
         else appendHeaders alloc hs sb cookies hostEmitted)
      else if strcaseeq (rh_name h) ''cookie'' then
        appendHeaders alloc hs sb
          (sbAppendStr alloc (rh_value h) (if length (sb_data cookies) > 0 then sbAppendStr alloc ''; '' cookies else cookies)) hostEmitted
      else appendHeaders alloc hs
             (sbAppendStr alloc CRLF (sbAppendStr alloc (rh_value h) (sbAppendStr alloc '': '' (sbAppendStr alloc (rh_name h) sb))))
             cookies (hostEmitted \<or> strcaseeq (rh_name h) ''host''))"

text \<open>What \<open>getHeaderAuthority\<close> allocates: a buffer for host and port of an address, a copy of a host name.\<close>

definition authoritySize :: "(string \<Rightarrow> bool) \<Rightarrow> (string \<Rightarrow> bool) \<Rightarrow> string \<Rightarrow> string \<Rightarrow> nat" where
  "authoritySize ipv4 ipv6 host port =
     (if ipv4 host \<or> ipv6 host then length host + (if port \<noteq> [] then length port + 1 else 0) + 2 else length host + 1)"

definition appendHostFallback :: "(nat \<Rightarrow> bool) \<Rightarrow> (string \<Rightarrow> bool) \<Rightarrow> (string \<Rightarrow> bool) \<Rightarrow> urlComponents \<Rightarrow> strBuf \<Rightarrow> strBuf" where
  "appendHostFallback alloc ipv4 ipv6 url sb =
     (if \<not> alloc (authoritySize ipv4 ipv6 (uc_host url) (uc_port url)) then sb
      else sbAppendStr alloc CRLF (sbAppendStr alloc (getHeaderAuthority ipv4 ipv6 (uc_host url) (uc_port url)) (sbAppendStr alloc ''Host: '' sb)))"

definition appendCookieHeader :: "(nat \<Rightarrow> bool) \<Rightarrow> strBuf \<Rightarrow> strBuf \<Rightarrow> strBuf" where
  "appendCookieHeader alloc cookies sb =
     (if length (sb_data cookies) = 0 then sb
      else sbAppendStr alloc CRLF (sbAppendStr alloc (sb_data cookies) (sbAppendStr alloc ''Cookie: '' sb)))"

definition appendProxyAuthorization :: "(nat \<Rightarrow> bool) \<Rightarrow> http11Request \<Rightarrow> strBuf \<Rightarrow> strBuf" where
  "appendProxyAuthorization alloc req sb =
     (if \<not> hq_plainProxy req \<or> hq_authorization req = [] then sb
      else sbAppendStr alloc CRLF (sbAppendStr alloc (hq_authorization req) (sbAppendStr alloc ''Proxy-Authorization: '' sb)))"

definition requestTarget :: "http11Request \<Rightarrow> string" where
  "requestTarget req =
     take 4351 (if hq_plainProxy req
       then ''http://'' @ uc_host (hq_url req) @ '':'' @ uc_port (hq_url req) @ uc_path (hq_url req)
       else uc_path (hq_url req))"

text \<open>
  The request text; \<open>Some None\<close> is the null pointer of a failed allocation. \<open>ipv4\<close> and \<open>ipv6\<close>
  are \<open>inet_pton\<close>.
\<close>

definition buildHttp11Request :: "(nat \<Rightarrow> bool) \<Rightarrow> (string \<Rightarrow> bool) \<Rightarrow> (string \<Rightarrow> bool) \<Rightarrow> http11Request \<Rightarrow> string option option" where
  "buildHttp11Request alloc ipv4 ipv6 req =
     (case appendRequestLine alloc (hq_method req) (requestTarget req) emptyBuf of
        None \<Rightarrow> None
      | Some sb \<Rightarrow>
          (let (sb, cookies, headersOk) = appendHeaders alloc (hq_headers req) sb emptyBuf False;
               sb = (if headersOk then sb
                     else appendHostFallback alloc ipv4 ipv6 (hq_url req) sb);
               sb = appendProxyAuthorization alloc req (appendCookieHeader alloc cookies sb);
               sb = sbAppendStr alloc CRLF sb;
               sb = (case hq_payload req of None \<Rightarrow> sb | Some payload \<Rightarrow> sbAppendStr alloc payload sb)
           in Some (if sb_failed sb then None else Some (sb_data sb))))"

section \<open>Writing\<close>

text \<open>
  What \<open>send\<close> and \<open>SSL_write\<close> return, one call after the other, each with whether the \<open>select\<close>
  behind a call that would block reports the socket; a used-up list is a timeout of that \<open>select\<close>.
  \<open>send\<close> returns its \<open>rc\<close> and leaves an \<open>errno\<close>, which is read whenever \<open>rc\<close> is not positive.
  The result is what was written and the code.
\<close>

record sendResult =
  sr_rc :: int
  sr_errno :: nat

fun plainWriteAll :: "bool \<Rightarrow> bytes \<Rightarrow> (sendResult \<times> bool) list \<Rightarrow> bytes \<times> int" where
  "plainWriteAll nonBlocking [] script = ([], 1)"
| "plainWriteAll nonBlocking buf [] = ([], -1)"
| "plainWriteAll nonBlocking buf ((rc, ready) # script) =
     (if 0 < sr_rc rc then
        (let (written, code) = plainWriteAll nonBlocking (drop (nat (sr_rc rc)) buf) script
         in (take (nat (sr_rc rc)) buf @ written, code))
      else if \<not> nonBlocking \<or> \<not> isRetryableSocketError (sr_errno rc) then ([], -1)
      else if \<not> ready then ([], -1)
      else plainWriteAll nonBlocking buf script)"

datatype sslWriteResult = SslSent nat | SslWantRead | SslWantWrite | SslFailed

fun sslWriteAllEx :: "bool \<Rightarrow> bytes \<Rightarrow> (sslWriteResult \<times> bool) list \<Rightarrow> bytes \<times> int" where
  "sslWriteAllEx nonBlocking [] script = ([], 1)"
| "sslWriteAllEx nonBlocking buf [] = ([], -1)"
| "sslWriteAllEx nonBlocking buf ((rc, ready) # script) =
     (case rc of
        SslSent n \<Rightarrow> (let (written, code) = sslWriteAllEx nonBlocking (drop n buf) script in (take n buf @ written, code))
      | SslFailed \<Rightarrow> ([], -1)
      | _ \<Rightarrow> if \<not> nonBlocking then ([], -1) else if \<not> ready then ([], -1) else sslWriteAllEx nonBlocking buf script)"

text \<open>The transport of a session: TLS or plain, and what its next writes return.\<close>

datatype transport = TlsTransport "(sslWriteResult \<times> bool) list" | PlainTransport "(sendResult \<times> bool) list"

definition sessionWriteAll :: "transport \<Rightarrow> bool \<Rightarrow> bytes \<Rightarrow> bytes \<times> int" where
  "sessionWriteAll t nonBlocking buf =
     (case t of TlsTransport script \<Rightarrow> sslWriteAllEx nonBlocking buf script | PlainTransport script \<Rightarrow> plainWriteAll nonBlocking buf script)"

section \<open>The exchange\<close>

text \<open>Sending: what was written, the stream's error and whether the session is given up.\<close>

definition sendHttp11Request ::
    "'z clientEnv \<Rightarrow> (string \<Rightarrow> bool) \<Rightarrow> (string \<Rightarrow> bool) \<Rightarrow> transport \<Rightarrow> bool \<Rightarrow> http11Request \<Rightarrow> 'z hstream \<Rightarrow> bool
      \<Rightarrow> (bytes \<times> 'z hstream \<times> bool) option" where
  "sendHttp11Request env ipv4 ipv6 t nonBlocking req stream goingAway =
     (case buildHttp11Request (ev_alloc env) ipv4 ipv6 req of
        None \<Rightarrow> None
      | Some None \<Rightarrow> Some ([], stream\<lparr>st_error := ERR_SYSTEM_MEMORY_ALLOCATION_FAILED\<rparr>, goingAway)
      | Some (Some request) \<Rightarrow>
          (let (written, writeRc) = sessionWriteAll t nonBlocking (strBytes request)
           in Some (if writeRc \<noteq> 1 then (written, stream\<lparr>st_error := ERR_REQUEST_SENDING_HTTP11_REQUEST_FAILED\<rparr>, True)
                    else (written, stream, goingAway))))"

definition endStream :: "'z hstream \<Rightarrow> 'z hstream" where
  "endStream stream = completeResponseSink (stream\<lparr>st_isEnded := True\<rparr>)"

text \<open>
  One exchange, under the session's write mutex: what was written, the stream, the session's
  \<open>goingAway\<close> and the rest of the network script, and the basket's error.
\<close>

definition handleHttp11RequestSync ::
    "'z clientEnv \<Rightarrow> (string \<Rightarrow> bool) \<Rightarrow> (string \<Rightarrow> bool) \<Rightarrow> transport \<Rightarrow> bool \<Rightarrow> int \<times> int \<Rightarrow> int \<Rightarrow> http11Request \<Rightarrow> error \<Rightarrow> 'z hstream
      \<Rightarrow> bool \<times> attempt list \<Rightarrow> (bytes \<times> 'z hstream \<times> (bool \<times> attempt list) \<times> error) option" where
  "handleHttp11RequestSync env ipv4 ipv6 t nonBlocking clock ms req basketError stream session =
     (let deadline = buildResponseDeadline clock ms; (goingAway, net) = session;
          ssl = (case t of TlsTransport _ \<Rightarrow> True | PlainTransport _ \<Rightarrow> False)
      in case sendHttp11Request env ipv4 ipv6 t nonBlocking req stream goingAway of
           None \<Rightarrow> None
         | Some (written, stream, goingAway) \<Rightarrow>
             (case (if failed (st_error stream) then Some (stream, goingAway, net)
                    else receiveHttp11Response env (hq_method req) ssl ms deadline stream (goingAway, net)) of
                None \<Rightarrow> None
              | Some (stream, session) \<Rightarrow>
                  (let stream = endStream stream
                   in Some (written, stream, session, if failed (st_error stream) then st_error stream else basketError))))"

text \<open>
  The asynchronous variant starts a thread that runs the exchange: the basket's error and the
  stream as they are when the call returns, and whether the exchange runs.
\<close>

definition handleHttp11RequestAsync :: "bool \<Rightarrow> bool \<Rightarrow> error \<Rightarrow> 'z hstream \<Rightarrow> error \<times> 'z hstream \<times> bool" where
  "handleHttp11RequestAsync exchangeOk threadOk basketError stream =
     (if \<not> exchangeOk then (ERR_SYSTEM_MEMORY_ALLOCATION_FAILED, stream, False)
      else if \<not> threadOk then
        (ERR_REQUEST_SENDING_HTTP11_REQUEST_FAILED, endStream (stream\<lparr>st_error := ERR_REQUEST_SENDING_HTTP11_REQUEST_FAILED\<rparr>), False)
      else (basketError, stream, True))"

end
