(* ===== verification/Http11RequestProps.thy ===== *)
theory Http11RequestProps
  imports Http11Request
begin

text \<open>
  What \<open>buildHttp11Request\<close> puts on the wire, read back by a reference parser of requests, and
  what the write loops deliver.
\<close>

section \<open>The string buffer\<close>

text \<open>A buffer that holds a text, with room for its terminator.\<close>

definition bufHolds :: "string \<Rightarrow> strBuf \<Rightarrow> bool" where
  "bufHolds s sb \<longleftrightarrow> \<not> sb_failed sb \<and> sb_data sb = s \<and> (sb_cap sb = 0 \<and> s = [] \<or> length s < sb_cap sb)"

lemma growCapacity_covers: "capacity > 0 \<Longrightarrow> need \<le> growCapacity capacity need"
  by (induction capacity need rule: growCapacity.induct) (subst growCapacity.simps, auto)

lemma bufHolds_empty [simp, intro]: "bufHolds [] emptyBuf"
  by (simp add: bufHolds_def emptyBuf_def)

lemma bufHolds_data: "bufHolds s sb \<Longrightarrow> sb_data sb = s"
  by (simp add: bufHolds_def)

lemma bufHolds_append [intro]:
  assumes "\<forall>n. alloc n" "bufHolds t sb"
  shows "bufHolds (t @ s) (sbAppendStr alloc s sb)"
proof -
  have "need \<le> growCapacity (if sb_cap sb \<noteq> 0 then sb_cap sb else 1024) need" for need
    by (rule growCapacity_covers) simp
  from this [of "length (sb_data sb) + length s + 1"] show ?thesis
    using assms by (auto simp: bufHolds_def sbAppendStr_def sbReserve_def Let_def)
qed


section \<open>The lines of a request\<close>

type_synonym fields = "(string \<times> string) list"

definition fieldLine :: "string \<times> string \<Rightarrow> string" where
  "fieldLine f = fst f @ '': '' @ snd f @ CRLF"

definition fieldLines :: "fields \<Rightarrow> string" where
  "fieldLines fs = concat (map fieldLine fs)"

lemma fieldLines_simps [simp]: "fieldLines [] = []" "fieldLines (f # fs) = fieldLine f @ fieldLines fs"
  "fieldLines (fs @ gs) = fieldLines fs @ fieldLines gs"
  by (simp_all add: fieldLines_def)

definition isHost :: "reqHeader \<Rightarrow> bool" where
  "isHost h = (if rh_isPseudo h then strcaseeq (rh_name h) '':authority'' else strcaseeq (rh_name h) ''host'')"

definition isCookie :: "reqHeader \<Rightarrow> bool" where
  "isCookie h \<longleftrightarrow> \<not> rh_isPseudo h \<and> strcaseeq (rh_name h) ''cookie''"

fun emitted :: "reqHeader list \<Rightarrow> bool \<Rightarrow> fields" where
  "emitted [] hostEmitted = []"
| "emitted (h # hs) hostEmitted =
     (if rh_isPseudo h then
        (if isHost h \<and> \<not> hostEmitted then (''Host'', rh_value h) # emitted hs True else emitted hs hostEmitted)
      else if isCookie h then emitted hs hostEmitted
      else (rh_name h, rh_value h) # emitted hs (hostEmitted \<or> isHost h))"

fun mergeCookies :: "string \<Rightarrow> reqHeader list \<Rightarrow> string" where
  "mergeCookies c [] = c"
| "mergeCookies c (h # hs) = mergeCookies (if isCookie h then (if c \<noteq> [] then c @ ''; '' else []) @ rh_value h else c) hs"

lemma cookie_no_host: "strcaseeq n ''cookie'' \<Longrightarrow> \<not> strcaseeq n ''host''"
proof
  assume "strcaseeq n ''cookie''" "strcaseeq n ''host''"
  then have "strcaseeq ''cookie'' ''host''" using strcaseeq_sym strcaseeq_trans by blast
  then show False by code_simp
qed

lemma appendHeaders_lines:
  assumes "\<forall>n. alloc n" "bufHolds t sb" "bufHolds c ck" "appendHeaders alloc hs sb ck b = (sb', ck', b')"
  shows "bufHolds (t @ fieldLines (emitted hs b)) sb' \<and> bufHolds (mergeCookies c hs) ck' \<and> b' = (b \<or> (\<exists>h\<in>set hs. isHost h))"
  using assms(2-4)
proof (induction hs arbitrary: t sb c ck b)
  case Nil
  then show ?case by simp
next
  case (Cons h hs)
  note app = bufHolds_append [OF assms(1)]
  consider (host) "rh_isPseudo h" "isHost h" "\<not> b" | (pseudo) "rh_isPseudo h" "\<not> (isHost h \<and> \<not> b)"
    | (cookie) "\<not> rh_isPseudo h" "isCookie h" | (plain) "\<not> rh_isPseudo h" "\<not> isCookie h" by blast
  then show ?case
  proof cases
    case host
    then have "strcaseeq (rh_name h) '':authority''" by (simp add: isHost_def)
    then have "appendHeaders alloc hs (sbAppendStr alloc CRLF (sbAppendStr alloc (rh_value h) (sbAppendStr alloc ''Host: '' sb))) ck True = (sb', ck', b')"
      using Cons.prems(3) host by simp
    from Cons.IH [OF app [OF app [OF app [OF Cons.prems(1)]]] Cons.prems(2) this] show ?thesis
      using host by (simp add: fieldLine_def isCookie_def)
  next
    case pseudo
    then have "appendHeaders alloc hs sb ck b = (sb', ck', b')" using Cons.prems(3) by (auto simp: isHost_def)
    from Cons.IH [OF Cons.prems(1,2) this] show ?thesis using pseudo by (auto simp: isCookie_def)
  next
    case cookie
    let ?ck = "sbAppendStr alloc (rh_value h) (if length (sb_data ck) > 0 then sbAppendStr alloc ''; '' ck else ck)"
    have ck: "bufHolds ((if c \<noteq> [] then c @ ''; '' else []) @ rh_value h) ?ck"
      using app [OF Cons.prems(2), of "rh_value h"] app [OF app [OF Cons.prems(2), of "''; ''"], of "rh_value h"]
      by (cases "c = []") (simp_all add: bufHolds_data [OF Cons.prems(2)])
    have "appendHeaders alloc hs sb ?ck b = (sb', ck', b')" using Cons.prems(3) cookie by (simp add: isCookie_def)
    from Cons.IH [OF Cons.prems(1) ck this] show ?thesis
      using cookie cookie_no_host by (auto simp: isCookie_def isHost_def)
  next
    case plain
    let ?sb = "sbAppendStr alloc CRLF (sbAppendStr alloc (rh_value h) (sbAppendStr alloc '': '' (sbAppendStr alloc (rh_name h) sb)))"
    have "appendHeaders alloc hs ?sb ck (b \<or> isHost h) = (sb', ck', b')"
      using Cons.prems(3) plain by (simp add: isCookie_def isHost_def)
    from Cons.IH [OF app [OF app [OF app [OF app [OF Cons.prems(1)]]]] Cons.prems(2) this] show ?thesis
      using plain by (auto simp: fieldLine_def)
  qed
qed


section \<open>The reference parser\<close>

text \<open>Fields up to the empty line, and the body behind it.\<close>

function parseFields :: "string \<Rightarrow> (fields \<times> string) option" where
  "parseFields s =
     (case strchr s (CHR 0x0D) of
        None \<Rightarrow> None
      | Some (line, r) \<Rightarrow>
          if line = [] then Some ([], drop 2 r)
          else (case strchr line (CHR '':'') of
                  None \<Rightarrow> None
                | Some (name, v) \<Rightarrow> map_option (\<lambda>(fs, body). ((name, drop 2 v) # fs, body)) (parseFields (drop 2 r))))"
  by pat_completeness auto
termination
proof (relation "measure length", goal_cases)
  case (2 s x line r)
  then have "s = line @ r" using strchr_Some [of s "CHR 0x0D" line r] by auto
  moreover have "length r - 2 < length line + length r" using 2 by (cases line) simp_all
  ultimately show ?case by simp
qed simp

declare parseFields.simps [simp del]

definition parseRequest :: "string \<Rightarrow> (string \<times> string \<times> fields \<times> string) option" where
  "parseRequest s =
     (case strchr s (CHR '' '') of
        None \<Rightarrow> None
      | Some (meth, r) \<Rightarrow>
          (case strchr (drop 1 r) (CHR '' '') of
             None \<Rightarrow> None
           | Some (target, r) \<Rightarrow>
               if isPrefixOf ('' HTTP/1.1'' @ CRLF) r then map_option (\<lambda>(fs, body). (meth, target, fs, body)) (parseFields (drop 11 r)) else None))"

definition fieldOk :: "string \<times> string \<Rightarrow> bool" where
  "fieldOk f \<longleftrightarrow> CHR 0x0D \<notin> set (fst f) \<and> CHR '':'' \<notin> set (fst f) \<and> CHR 0x0D \<notin> set (snd f)"

lemma parseFields_lines: "list_all fieldOk fs \<Longrightarrow> parseFields (fieldLines fs @ CRLF @ body) = Some (fs, body)"
proof (induction fs)
  case Nil
  then show ?case by (subst parseFields.simps) (simp add: CRLF_def strchr_append [of _ "[]", simplified])
next
  case (Cons f fs)
  obtain n v where f: "f = (n, v)" by fastforce
  have c: "CHR 0x0D \<notin> set (n @ '': '' @ v)" "CHR '':'' \<notin> set n" using Cons.prems by (simp_all add: f fieldOk_def)
  let ?line = "n @ '': '' @ v" and ?rest = "CHR 0x0A # fieldLines fs @ CRLF @ body"
  have e: "fieldLines (f # fs) @ CRLF @ body = ?line @ CHR 0x0D # ?rest" by (simp add: f fieldLine_def CRLF_def)
  have "strchr ?line (CHR '':'') = Some (n, '': '' @ v)" using strchr_append [OF c(2), of "CHR '' '' # v"] by simp
  moreover have "?line \<noteq> []" by simp
  moreover have "parseFields (drop 2 (CHR 0x0D # ?rest)) = Some (fs, body)" using Cons by simp
  ultimately show ?case
    unfolding e by (subst parseFields.simps) (simp only: strchr_append [OF c(1)] option.case prod.case if_False, simp add: f)
qed

lemma parseRequest_text:
  assumes "CHR '' '' \<notin> set meth" "CHR '' '' \<notin> set target" "list_all fieldOk fs"
  shows "parseRequest (meth @ '' '' @ target @ '' HTTP/1.1'' @ CRLF @ fieldLines fs @ CRLF @ body) = Some (meth, target, fs, body)"
proof -
  have "strchr (target @ CHR '' '' # ''HTTP/1.1'' @ CRLF @ fieldLines fs @ CRLF @ body) (CHR '' '')
    = Some (target, CHR '' '' # ''HTTP/1.1'' @ CRLF @ fieldLines fs @ CRLF @ body)" by (rule strchr_append [OF assms(2)])
  then show ?thesis
    using strchr_append [OF assms(1)] parseFields_lines [OF assms(3), of body] by (simp add: parseRequest_def CRLF_def)
qed


section \<open>Requests on the wire\<close>

definition valuesOf :: "string \<Rightarrow> fields \<Rightarrow> string list" where
  "valuesOf name fs = map snd (filter (\<lambda>f. strcaseeq (fst f) name) fs)"

definition ownName :: "string \<Rightarrow> bool" where
  "ownName n \<longleftrightarrow> strcaseeq n ''host'' \<or> strcaseeq n ''cookie'' \<or> strcaseeq n ''proxy-authorization''"

fun joinCookies :: "string list \<Rightarrow> string" where
  "joinCookies [] = []"
| "joinCookies [v] = v"
| "joinCookies (v # w # vs) = v @ ''; '' @ joinCookies (w # vs)"

lemma joinCookies_snoc: "vs \<noteq> [] \<Longrightarrow> joinCookies (vs @ [w]) = joinCookies vs @ ''; '' @ w"
  by (induction vs rule: joinCookies.induct) auto

lemma joinCookies_CR: "CHR 0x0D \<notin> set (joinCookies vs) \<longleftrightarrow> (\<forall>v\<in>set vs. CHR 0x0D \<notin> set v)"
  by (induction vs rule: joinCookies.induct) auto

lemma joinCookies_empty: "\<forall>v\<in>set vs. v \<noteq> [] \<Longrightarrow> joinCookies vs = [] \<longleftrightarrow> vs = []"
  by (induction vs rule: joinCookies.induct) auto

lemma mergeCookies_join:
  "list_all (\<lambda>h. isCookie h \<longrightarrow> rh_value h \<noteq> []) hs \<Longrightarrow> (vs = [] \<longleftrightarrow> joinCookies vs = []) \<Longrightarrow>
     mergeCookies (joinCookies vs) hs = joinCookies (vs @ map rh_value (filter isCookie hs))"
proof (induction hs arbitrary: vs)
  case Nil
  then show ?case by simp
next
  case (Cons h hs)
  show ?case
  proof (cases "isCookie h")
    case True
    have j: "(if joinCookies vs \<noteq> [] then joinCookies vs @ ''; '' else []) @ rh_value h = joinCookies (vs @ [rh_value h])"
      using Cons.prems(2) by (cases "vs = []") (simp_all add: joinCookies_snoc)
    have "joinCookies (vs @ [rh_value h]) \<noteq> []" using Cons.prems True unfolding j [symmetric] by simp
    then show ?thesis using Cons.IH [of "vs @ [rh_value h]"] Cons.prems(1) True j by simp
  next
    case False
    then show ?thesis using Cons by simp
  qed
qed

lemma strcaseeq_other: "strcaseeq n a \<Longrightarrow> \<not> strcaseeq a b \<Longrightarrow> \<not> strcaseeq n b"
  using strcaseeq_sym strcaseeq_trans by blast

text \<open>The lines emitted: the plain fields in order, and the first host.\<close>

lemma emitted_plain:
  "filter (\<lambda>f. \<not> ownName (fst f)) (emitted hs b)
     = map (\<lambda>h. (rh_name h, rh_value h)) (filter (\<lambda>h. \<not> rh_isPseudo h \<and> \<not> ownName (rh_name h)) hs)"
proof (induction hs arbitrary: b)
  case (Cons h hs)
  have "ownName ''Host''" by code_simp
  moreover have "isCookie h \<Longrightarrow> ownName (rh_name h)" by (simp add: isCookie_def ownName_def)
  ultimately show ?case using Cons by auto
qed simp

lemma emitted_host:
  "length (filter isHost hs) \<le> 1 \<Longrightarrow> (b \<longrightarrow> filter isHost hs = []) \<Longrightarrow>
     valuesOf ''host'' (emitted hs b) = map rh_value (filter isHost hs)"
proof (induction hs arbitrary: b)
  case (Cons h hs)
  have n: "strcaseeq ''Host'' ''host''" by code_simp
  have c: "isCookie h \<Longrightarrow> \<not> isHost h" using cookie_no_host by (auto simp: isCookie_def isHost_def)
  have hn: "strcaseeq (rh_name h) ''host'' \<longleftrightarrow> isHost h" if "\<not> rh_isPseudo h" using that by (simp add: isHost_def)
  show ?case
  proof (cases "isHost h")
    case True
    then have "filter isHost hs = []" "\<not> b" "\<not> isCookie h" using Cons.prems c by auto
    then show ?thesis using Cons.IH [of True] True n by (auto simp: valuesOf_def hn)
  next
    case False
    then show ?thesis using Cons.IH [of b] Cons.prems by (auto simp: valuesOf_def hn)
  qed
qed (simp add: valuesOf_def)

lemma emitted_none:
  assumes "list_all (\<lambda>h. \<not> rh_isPseudo h \<and> \<not> isCookie h \<longrightarrow> \<not> strcaseeq (rh_name h) n) hs" "\<not> strcaseeq ''Host'' n"
  shows "valuesOf n (emitted hs b) = []"
  using assms(1) by (induction hs arbitrary: b) (auto simp: valuesOf_def assms(2))

lemma emitted_ok:
  "list_all (\<lambda>h. CHR 0x0D \<notin> set (rh_value h) \<and> (rh_isPseudo h \<or> fieldOk (rh_name h, rh_value h))) hs \<Longrightarrow> list_all fieldOk (emitted hs b)"
  by (induction hs arbitrary: b) (auto simp: fieldOk_def)


lemma valuesOf_simps [simp]:
  "valuesOf n [] = []" "valuesOf n (f # fs) = (if strcaseeq (fst f) n then snd f # valuesOf n fs else valuesOf n fs)"
  "valuesOf n (fs @ gs) = valuesOf n fs @ valuesOf n gs"
  by (simp_all add: valuesOf_def)

definition hostFields :: "string \<Rightarrow> reqHeader list \<Rightarrow> fields" where
  "hostFields authority hs = (if \<exists>h\<in>set hs. isHost h then [] else [(''Host'', authority)])"

definition cookieFields :: "string \<Rightarrow> fields" where
  "cookieFields c = (if c = [] then [] else [(''Cookie'', c)])"

definition proxyFields :: "http11Request \<Rightarrow> fields" where
  "proxyFields req = (if \<not> hq_plainProxy req \<or> hq_authorization req = [] then [] else [(''Proxy-Authorization'', hq_authorization req)])"

lemma buildHttp11Request_text:
  fixes req :: http11Request and ipv4 :: "string \<Rightarrow> bool" and ipv6 :: "string \<Rightarrow> bool"
  assumes "\<forall>n. alloc n" "length (hq_method req) + length (requestTarget req) < 4596"
  defines "authority \<equiv> getHeaderAuthority ipv4 ipv6 (uc_host (hq_url req)) (uc_port (hq_url req))"
  shows "buildHttp11Request alloc ipv4 ipv6 req = Some (Some (hq_method req @ '' '' @ requestTarget req @ '' HTTP/1.1'' @ CRLF
    @ fieldLines (emitted (hq_headers req) False @ hostFields authority (hq_headers req) @ cookieFields (mergeCookies [] (hq_headers req)) @ proxyFields req)
    @ CRLF @ (case hq_payload req of None \<Rightarrow> [] | Some p \<Rightarrow> p)))"
proof -
  note app = bufHolds_append [OF assms(1)]
  let ?line = "hq_method req @ '' '' @ requestTarget req @ '' HTTP/1.1'' @ CRLF"
  obtain sb where sb: "appendRequestLine alloc (hq_method req) (requestTarget req) emptyBuf = Some sb" "bufHolds ?line sb"
    using app [OF bufHolds_empty, of ?line] assms(2) by (simp add: appendRequestLine_def CRLF_def)
  obtain sb1 ck b where h: "appendHeaders alloc (hq_headers req) sb emptyBuf False = (sb1, ck, b)" using prod_cases3 by blast
  let ?t1 = "?line @ fieldLines (emitted (hq_headers req) False)" and ?c = "mergeCookies [] (hq_headers req)"
  have h1: "bufHolds ?t1 sb1" "bufHolds ?c ck" "b = (\<exists>h\<in>set (hq_headers req). isHost h)"
    using appendHeaders_lines [OF assms(1) sb(2) bufHolds_empty h] by simp_all
  have fallback: "appendHostFallback alloc ipv4 ipv6 (hq_url req) sb1
      = sbAppendStr alloc CRLF (sbAppendStr alloc authority (sbAppendStr alloc ''Host: '' sb1))"
    using spec [OF assms(1), of "authoritySize ipv4 ipv6 (uc_host (hq_url req)) (uc_port (hq_url req))"]
    by (simp add: appendHostFallback_def authority_def)
  let ?sb2 = "if b then sb1 else appendHostFallback alloc ipv4 ipv6 (hq_url req) sb1"
  have h2: "bufHolds (?t1 @ fieldLines (hostFields authority (hq_headers req))) ?sb2"
    using h1(1,3) app [OF app [OF app [OF h1(1)]], of "''Host: ''" authority CRLF]
    by (simp add: hostFields_def fallback fieldLine_def)
  let ?sb3 = "appendCookieHeader alloc ck ?sb2"
  have h3: "bufHolds ((?t1 @ fieldLines (hostFields authority (hq_headers req))) @ fieldLines (cookieFields ?c)) ?sb3"
    using h2 app [OF app [OF app [OF h2]], of "''Cookie: ''" ?c CRLF] bufHolds_data [OF h1(2)]
    by (simp add: cookieFields_def appendCookieHeader_def fieldLine_def)
  let ?sb4 = "appendProxyAuthorization alloc req ?sb3"
  have h4: "bufHolds (((?t1 @ fieldLines (hostFields authority (hq_headers req))) @ fieldLines (cookieFields ?c)) @ fieldLines (proxyFields req)) ?sb4"
    using h3 app [OF app [OF app [OF h3]], of "''Proxy-Authorization: ''" "hq_authorization req" CRLF]
    by (simp add: proxyFields_def appendProxyAuthorization_def fieldLine_def)
  note h5 = app [OF h4, of CRLF]
  let ?sb6 = "case hq_payload req of None \<Rightarrow> sbAppendStr alloc CRLF ?sb4 | Some p \<Rightarrow> sbAppendStr alloc p (sbAppendStr alloc CRLF ?sb4)"
  have h6: "bufHolds (?line @ fieldLines (emitted (hq_headers req) False @ hostFields authority (hq_headers req) @ cookieFields ?c @ proxyFields req)
      @ CRLF @ (case hq_payload req of None \<Rightarrow> [] | Some p \<Rightarrow> p)) ?sb6"
    using h5 app [OF h5] by (cases "hq_payload req") (simp_all split del: if_split)
  have "buildHttp11Request alloc ipv4 ipv6 req = Some (if sb_failed ?sb6 then None else Some (sb_data ?sb6))"
    unfolding buildHttp11Request_def sb(1) option.case Let_def h prod.case authority_def [symmetric] ..
  then show ?thesis using h6 by (simp add: bufHolds_def)
qed




definition sampleHttp11 :: http11Request where
  "sampleHttp11 = \<lparr>hq_method = ''POST'',
     hq_url = \<lparr>uc_scheme = ''http'', uc_host = ''h'', uc_port = ''80'', uc_path = ''/p'', uc_query = [], uc_fragment = []\<rparr>,
     hq_headers = [\<lparr>rh_name = '':authority'', rh_value = ''h'', rh_isPseudo = True\<rparr>,
       \<lparr>rh_name = ''cookie'', rh_value = ''a=1'', rh_isPseudo = False\<rparr>, \<lparr>rh_name = ''Content-Length'', rh_value = ''2'', rh_isPseudo = False\<rparr>,
       \<lparr>rh_name = ''Cookie'', rh_value = ''b=2'', rh_isPseudo = False\<rparr>],
     hq_payload = Some ''ok'', hq_plainProxy = True, hq_authorization = ''Basic eA==''\<rparr>"


section \<open>Writing\<close>

text \<open>The write loops report success exactly when the whole buffer is out; else what is out is a prefix of it.\<close>

lemma plainWriteAll_out:
  "plainWriteAll nonBlocking buf script = (written, rc) \<Longrightarrow> (rc = 1 \<and> written = buf) \<or> (rc = -1 \<and> (\<exists>rest. buf = written @ rest))"
proof (induction nonBlocking buf script arbitrary: written rc rule: plainWriteAll.induct)
  case (3 nonBlocking b bs r ready script)
  show ?case
  proof (cases "0 < sr_rc r")
    case sent: True
    let ?n = "nat (sr_rc r)"
    obtain w c where w: "plainWriteAll nonBlocking (drop ?n (b # bs)) script = (w, c)" by fastforce
    then have e: "written = take ?n (b # bs) @ w" "rc = c" using 3(3) sent by auto
    have "(c = 1 \<and> w = drop ?n (b # bs)) \<or> (c = -1 \<and> (\<exists>rest. drop ?n (b # bs) = w @ rest))" using 3(1) [OF sent w] .
    then show ?thesis using append_take_drop_id [of ?n "b # bs"] unfolding e by (metis append.assoc)
  next
    case False
    then show ?thesis using 3(2) [OF False] 3(3) by (auto split: if_splits)
  qed
qed auto

lemma sslWriteAllEx_out:
  "sslWriteAllEx nonBlocking buf script = (written, rc) \<Longrightarrow> (rc = 1 \<and> written = buf) \<or> (rc = -1 \<and> (\<exists>rest. buf = written @ rest))"
proof (induction nonBlocking buf script arbitrary: written rc rule: sslWriteAllEx.induct)
  case (3 nonBlocking b bs r ready script)
  then show ?case
  proof (cases r)
    case (SslSent n)
    obtain w c where w: "sslWriteAllEx nonBlocking (drop n (b # bs)) script = (w, c)" by fastforce
    then have e: "written = take n (b # bs) @ w" "rc = c" using 3 SslSent by auto
    have "(c = 1 \<and> w = drop n (b # bs)) \<or> (c = -1 \<and> (\<exists>rest. drop n (b # bs) = w @ rest))" using 3(1) [OF SslSent w] .
    then show ?thesis using append_take_drop_id [of n "b # bs"] unfolding e by (metis append.assoc)
  qed (auto split: if_splits)
qed auto

lemma sessionWriteAll_out:
  "sessionWriteAll t nonBlocking buf = (written, rc) \<Longrightarrow> (rc = 1 \<and> written = buf) \<or> (rc = -1 \<and> (\<exists>rest. buf = written @ rest))"
  using plainWriteAll_out sslWriteAllEx_out by (auto simp: sessionWriteAll_def split: transport.splits)

section \<open>Behaviours at odds with the comments\<close>

text \<open>A header value may end its line and begin another header.\<close>

lemma value_injects_header: "fieldLines [(''X'', ''a'' @ CRLF @ ''Evil: y'')] = fieldLines [(''X'', ''a''), (''Evil'', ''y'')]"
  by (simp add: fieldLine_def CRLF_def)

text \<open>When the cookie buffer cannot be allocated the request is built without its cookies, and no error is set.\<close>

lemma failed_cookies_unreported:
  assumes "length v \<ge> 1024" "length v < 2048" "length m + length p < 900" "CHR 0x0D \<notin> set v"
  shows "buildHttp11Request (\<lambda>n. n \<le> 1024) ipv4 ipv6 \<lparr>hq_method = m, hq_url = noComponents\<lparr>uc_path := p\<rparr>,
      hq_headers = [\<lparr>rh_name = ''host'', rh_value = ''h'', rh_isPseudo = False\<rparr>, \<lparr>rh_name = ''cookie'', rh_value = v, rh_isPseudo = False\<rparr>],
      hq_payload = None, hq_plainProxy = False, hq_authorization = []\<rparr>
    = Some (Some (m @ '' '' @ p @ '' HTTP/1.1'' @ CRLF @ ''host: h'' @ CRLF @ CRLF))"
proof -
  have g: "growCapacity 1024 (Suc (length v)) = 2048" using assms(1,2) by (subst growCapacity.simps, subst growCapacity.simps) simp
  have g': "growCapacity 1024 n = 1024" if "n \<le> 1024" for n using that by (subst growCapacity.simps) simp
  have n: "strcaseeq ''host'' ''cookie'' = False" "strcaseeq ''cookie'' ''cookie'' = True" "strcaseeq ''host'' ''host'' = True" by code_simp+
  show ?thesis using assms(3)
    by (simp add: buildHttp11Request_def appendRequestLine_def requestTarget_def emptyBuf_def sbAppendStr_def sbReserve_def Let_def
        g g' n CRLF_def appendCookieHeader_def appendProxyAuthorization_def)
qed

end
