(* ===== verification/BrowserHandler.thy ===== *)
theory BrowserHandler
  imports Frames HpackTable Http2Response
begin

text \<open>
  The browser profiles of \<open>src/BrowserHandler.c\<close>: the wire fingerprints, the browser a user agent
  names, and the profile a client hello id selects.
\<close>

section \<open>Profiles\<close>

datatype browserType = BROWSER_UNKNOWN | BROWSER_CHROME | BROWSER_CHROME_IOS | BROWSER_FIREFOX | BROWSER_SAFARI
  | BROWSER_EDGE | BROWSER_OPERA | BROWSER_IE

datatype pseudoHeaderType = PSEUDO_METHOD | PSEUDO_AUTHORITY | PSEUDO_SCHEME | PSEUDO_PATH

record browserFingerprint =
  fp_clientHelloId :: string
  fp_settingsFrame :: bytes
  fp_windowUpdateFrame :: bytes
  fp_headerValueMaxLength :: nat
  fp_headerTableSize :: nat
  fp_alpn :: bytes
  fp_cipherList :: string
  fp_groups :: string
  fp_sigAlgs :: "16 word list"
  fp_enableGrease :: bool
  fp_enableGreaseSigalgs :: bool
  fp_enablePermuteExtensions :: bool
  fp_enableEchGrease :: bool
  fp_enableAlps :: bool
  fp_enableTrustAnchors :: bool
  fp_certCompressionAlg :: nat
  fp_enableSessionTicket :: bool
  fp_enablePreSharedKey :: bool
  fp_enableHeadersPriority :: bool
  fp_pseudoHeaderOrder :: "pseudoHeaderType list"

definition CHROME_SETTINGS_FRAME :: bytes where
  "CHROME_SETTINGS_FRAME =
    [0x00, 0x00, 0x18, 0x04, 0x00, 0x00, 0x00, 0x00, 0x00, 0x00, 0x01, 0x00, 0x01, 0x00, 0x00, 0x00, 0x02, 0x00,
     0x00, 0x00, 0x00, 0x00, 0x04, 0x00, 0x60, 0x00, 0x00, 0x00, 0x06, 0x00, 0x04, 0x00, 0x00]"

definition CHROME_WINDOW_UPDATE_FRAME :: bytes where
  "CHROME_WINDOW_UPDATE_FRAME = [0x00, 0x00, 0x04, 0x08, 0x00, 0x00, 0x00, 0x00, 0x00, 0x00, 0xef, 0x00, 0x01]"

definition CHROME_ALPN :: bytes where
  "CHROME_ALPN = [0x02, 0x68, 0x32, 0x08, 0x68, 0x74, 0x74, 0x70, 0x2f, 0x31, 0x2e, 0x31]"

definition CHROME_CIPHERS :: string where
  "CHROME_CIPHERS =
    ''TLS_AES_128_GCM_SHA256:TLS_AES_256_GCM_SHA384:TLS_CHACHA20_POLY1305_SHA256:'' @
    ''ECDHE-ECDSA-AES128-GCM-SHA256:ECDHE-RSA-AES128-GCM-SHA256:ECDHE-ECDSA-AES256-GCM-SHA384:'' @
    ''ECDHE-RSA-AES256-GCM-SHA384:ECDHE-ECDSA-CHACHA20-POLY1305:ECDHE-RSA-CHACHA20-POLY1305:'' @
    ''ECDHE-RSA-AES128-SHA:ECDHE-RSA-AES256-SHA:AES128-GCM-SHA256:AES256-GCM-SHA384:AES128-SHA:AES256-SHA:''"

definition CHROME_GROUPS :: string where
  "CHROME_GROUPS = ''X25519MLKEM768:X25519:P-256:P-384''"

definition CHROME_SIGALGS :: "16 word list" where
  "CHROME_SIGALGS = [0x0904, 0x0905, 0x0906, 0x0403, 0x0804, 0x0401, 0x0503, 0x0805, 0x0501, 0x0806, 0x0601]"

definition CHROME_PSEUDO_ORDER :: "pseudoHeaderType list" where
  "CHROME_PSEUDO_ORDER = [PSEUDO_METHOD, PSEUDO_AUTHORITY, PSEUDO_SCHEME, PSEUDO_PATH]"

definition CRIOS_SETTINGS_FRAME :: bytes where
  "CRIOS_SETTINGS_FRAME =
    [0x00, 0x00, 0x18, 0x04, 0x00, 0x00, 0x00, 0x00, 0x00, 0x00, 0x02, 0x00, 0x00, 0x00, 0x00, 0x00, 0x03, 0x00,
     0x00, 0x00, 0x64, 0x00, 0x04, 0x00, 0x20, 0x00, 0x00, 0x00, 0x09, 0x00, 0x00, 0x00, 0x01]"

definition CRIOS_WINDOW_UPDATE_FRAME :: bytes where
  "CRIOS_WINDOW_UPDATE_FRAME = [0x00, 0x00, 0x04, 0x08, 0x00, 0x00, 0x00, 0x00, 0x00, 0x00, 0x9f, 0x00, 0x01]"

definition CRIOS_ALPN :: bytes where
  "CRIOS_ALPN = [0x02, 0x68, 0x32, 0x08, 0x68, 0x74, 0x74, 0x70, 0x2f, 0x31, 0x2e, 0x31]"

definition CRIOS_CIPHERS :: string where
  "CRIOS_CIPHERS =
    ''TLS_AES_256_GCM_SHA384:TLS_CHACHA20_POLY1305_SHA256:TLS_AES_128_GCM_SHA256:'' @
    ''ECDHE-ECDSA-AES256-GCM-SHA384:ECDHE-ECDSA-AES128-GCM-SHA256:ECDHE-ECDSA-CHACHA20-POLY1305:'' @
    ''ECDHE-RSA-AES256-GCM-SHA384:ECDHE-RSA-AES128-GCM-SHA256:ECDHE-RSA-CHACHA20-POLY1305:'' @
    ''ECDHE-ECDSA-AES256-SHA:ECDHE-ECDSA-AES128-SHA:ECDHE-RSA-AES256-SHA:ECDHE-RSA-AES128-SHA:'' @
    ''AES256-GCM-SHA384:AES128-GCM-SHA256:AES256-SHA:AES128-SHA:ECDHE-ECDSA-DES-CBC3-SHA:'' @
    ''ECDHE-RSA-DES-CBC3-SHA:DES-CBC3-SHA''"

definition CRIOS_GROUPS :: string where
  "CRIOS_GROUPS = ''X25519MLKEM768:X25519:P-256:P-384:P-521''"

definition CRIOS_SIGALGS :: "16 word list" where
  "CRIOS_SIGALGS = [0x0403, 0x0804, 0x0401, 0x0503, 0x0805, 0x0805, 0x0501, 0x0806, 0x0601, 0x0201]"

definition CRIOS_PSEUDO_ORDER :: "pseudoHeaderType list" where
  "CRIOS_PSEUDO_ORDER = [PSEUDO_METHOD, PSEUDO_SCHEME, PSEUDO_AUTHORITY, PSEUDO_PATH]"

definition CHROME_FINGERPRINT_COMMON :: "string \<Rightarrow> bool \<Rightarrow> bool \<Rightarrow> browserFingerprint" where
  "CHROME_FINGERPRINT_COMMON clientHelloId greaseSigalgs trustAnchors =
     \<lparr>fp_clientHelloId = clientHelloId, fp_settingsFrame = CHROME_SETTINGS_FRAME,
      fp_windowUpdateFrame = CHROME_WINDOW_UPDATE_FRAME, fp_headerValueMaxLength = 4096, fp_headerTableSize = 65536,
      fp_alpn = CHROME_ALPN, fp_cipherList = CHROME_CIPHERS, fp_groups = CHROME_GROUPS, fp_sigAlgs = CHROME_SIGALGS,
      fp_enableGrease = True, fp_enableGreaseSigalgs = greaseSigalgs, fp_enablePermuteExtensions = True,
      fp_enableEchGrease = True, fp_enableAlps = True, fp_enableTrustAnchors = trustAnchors, fp_certCompressionAlg = 2,
      fp_enableSessionTicket = True, fp_enablePreSharedKey = True, fp_enableHeadersPriority = True,
      fp_pseudoHeaderOrder = CHROME_PSEUDO_ORDER\<rparr>"

definition CHROME_FINGERPRINT_150 :: browserFingerprint where
  "CHROME_FINGERPRINT_150 = CHROME_FINGERPRINT_COMMON ''hellochrome_150'' False False"

definition CHROME_FINGERPRINT_151 :: browserFingerprint where
  "CHROME_FINGERPRINT_151 = CHROME_FINGERPRINT_COMMON ''hellochrome_151'' False False"

definition CHROME_FINGERPRINT_152 :: browserFingerprint where
  "CHROME_FINGERPRINT_152 = CHROME_FINGERPRINT_COMMON ''hellochrome_152'' True True"

definition CRIOS_FINGERPRINT_150 :: browserFingerprint where
  "CRIOS_FINGERPRINT_150 =
     \<lparr>fp_clientHelloId = ''hellocrios_150'', fp_settingsFrame = CRIOS_SETTINGS_FRAME,
      fp_windowUpdateFrame = CRIOS_WINDOW_UPDATE_FRAME, fp_headerValueMaxLength = 4096, fp_headerTableSize = 4096,
      fp_alpn = CRIOS_ALPN, fp_cipherList = CRIOS_CIPHERS, fp_groups = CRIOS_GROUPS, fp_sigAlgs = CRIOS_SIGALGS,
      fp_enableGrease = True, fp_enableGreaseSigalgs = False, fp_enablePermuteExtensions = False,
      fp_enableEchGrease = False, fp_enableAlps = False, fp_enableTrustAnchors = False, fp_certCompressionAlg = 1,
      fp_enableSessionTicket = False, fp_enablePreSharedKey = False, fp_enableHeadersPriority = False,
      fp_pseudoHeaderOrder = CRIOS_PSEUDO_ORDER\<rparr>"

section \<open>The user agent\<close>

definition occursIn :: "string \<Rightarrow> string \<Rightarrow> bool" where
  "occursIn pat s \<longleftrightarrow> strstr s pat \<noteq> None"

definition detectBrowseType :: "string \<Rightarrow> browserType" where
  "detectBrowseType ua =
     (if occursIn ''Opr/'' ua \<or> occursIn ''Opera'' ua then BROWSER_OPERA
      else if occursIn ''Edg'' ua then BROWSER_EDGE
      else if occursIn ''CriOS'' ua then BROWSER_CHROME_IOS
      else if occursIn ''Chrome'' ua then BROWSER_CHROME
      else if occursIn ''Firefox'' ua then BROWSER_FIREFOX
      else if occursIn ''Safari'' ua then BROWSER_SAFARI
      else BROWSER_UNKNOWN)"

definition isChromeUA :: "string \<Rightarrow> bool" where
  "isChromeUA ua \<longleftrightarrow> occursIn ''Chrome'' ua \<and> \<not> (occursIn ''Edge'' ua \<or> occursIn ''OPR'' ua)"

definition uaMajorVersion :: "string option \<Rightarrow> string \<Rightarrow> int" where
  "uaMajorVersion ua marker =
     (case ua of
        None \<Rightarrow> -1
      | Some ua \<Rightarrow>
          (case strstr ua marker of
             None \<Rightarrow> -1
           | Some r \<Rightarrow>
               (let version = drop (length marker) r; (major, rest) = strtol 10 version
                in if rest = version then -1 else major)))"

section \<open>Profile lookup\<close>

record browserProfileFamily =
  bf_autoId :: string
  bf_uaVersionMarker :: string
  bf_profiles :: "browserFingerprint list"
  bf_defaultProfile :: browserFingerprint

definition CHROME_FAMILY :: browserProfileFamily where
  "CHROME_FAMILY =
     \<lparr>bf_autoId = ''hellochrome_auto'', bf_uaVersionMarker = ''Chrome/'',
      bf_profiles = [CHROME_FINGERPRINT_150, CHROME_FINGERPRINT_151, CHROME_FINGERPRINT_152],
      bf_defaultProfile = CHROME_FINGERPRINT_152\<rparr>"

definition CRIOS_FAMILY :: browserProfileFamily where
  "CRIOS_FAMILY =
     \<lparr>bf_autoId = ''hellocrios_auto'', bf_uaVersionMarker = ''CriOS/'', bf_profiles = [CRIOS_FINGERPRINT_150],
      bf_defaultProfile = CRIOS_FINGERPRINT_150\<rparr>"

definition BROWSER_FAMILIES :: "browserProfileFamily list" where
  "BROWSER_FAMILIES = [CHROME_FAMILY, CRIOS_FAMILY]"

text \<open>What follows the last underscore is the version.\<close>

definition profileVersion :: "browserFingerprint \<Rightarrow> int" where
  "profileVersion profile =
     (let name = fp_clientHelloId profile
      in if CHR ''_'' \<notin> set name then -1
         else (let version = rev (takeWhile (\<lambda>c. c \<noteq> CHR ''_'') (rev name)); (major, rest) = strtol 10 version
               in if rest = version \<or> rest \<noteq> [] then -1 else major))"

definition findProfileByVersion :: "browserProfileFamily \<Rightarrow> int \<Rightarrow> browserFingerprint option" where
  "findProfileByVersion family version =
     (if version < 0 then None else find (\<lambda>p. profileVersion p = version) (bf_profiles family))"

definition findProfileById :: "browserProfileFamily \<Rightarrow> string \<Rightarrow> browserFingerprint option" where
  "findProfileById family clientHelloId = find (\<lambda>p. strcaseeq clientHelloId (fp_clientHelloId p)) (bf_profiles family)"

fun lookupFamilies :: "browserProfileFamily list \<Rightarrow> string \<Rightarrow> string option \<Rightarrow> browserFingerprint option" where
  "lookupFamilies [] clientHelloId ua = None"
| "lookupFamilies (family # families) clientHelloId ua =
     (if strcaseeq clientHelloId (bf_autoId family) then
        (case findProfileByVersion family (uaMajorVersion ua (bf_uaVersionMarker family)) of
           Some matched \<Rightarrow> Some matched
         | None \<Rightarrow> Some (bf_defaultProfile family))
      else (case findProfileById family clientHelloId of
              Some pinned \<Rightarrow> Some pinned
            | None \<Rightarrow> lookupFamilies families clientHelloId ua))"

definition getBrowserFingerprintById :: "string \<Rightarrow> string option \<Rightarrow> browserFingerprint option" where
  "getBrowserFingerprintById clientHelloId ua =
     (if clientHelloId = [] then None else lookupFamilies BROWSER_FAMILIES clientHelloId ua)"

definition browserTypeFromClientHelloId :: "string \<Rightarrow> browserType" where
  "browserTypeFromClientHelloId clientHelloId =
     (if getBrowserFingerprintById clientHelloId None = None then BROWSER_UNKNOWN
      else if strcaseeq (take 11 clientHelloId) ''hellochrome'' then BROWSER_CHROME
      else if strcaseeq (take 10 clientHelloId) ''hellocrios'' then BROWSER_CHROME_IOS
      else BROWSER_UNKNOWN)"

definition getBrowserFingerprint :: "browserType \<Rightarrow> browserFingerprint" where
  "getBrowserFingerprint type =
     (case type of BROWSER_CHROME \<Rightarrow> CHROME_FINGERPRINT_152 | BROWSER_CHROME_IOS \<Rightarrow> CRIOS_FINGERPRINT_150 | _ \<Rightarrow> CHROME_FINGERPRINT_152)"

section \<open>What a profile advertises\<close>

text \<open>The connection preamble in bytes: what \<open>establishTransport\<close> writes.\<close>

definition HTTP2_PREFACE :: bytes where
  "HTTP2_PREFACE = strBytes (''PRI * HTTP/2.0'' @ [CHR 0x0D, CHR 0x0A, CHR 0x0D, CHR 0x0A] @ ''SM'' @ [CHR 0x0D, CHR 0x0A, CHR 0x0D, CHR 0x0A])"

text \<open>\<open>write\<close> is \<open>sslWriteAll\<close> on the session; the result is what was given to it, and the error.\<close>

definition establishTransport :: "(bytes \<Rightarrow> bool) \<Rightarrow> browserFingerprint option \<Rightarrow> bytes list \<times> error" where
  "establishTransport write fp =
     (if \<not> write HTTP2_PREFACE then ([HTTP2_PREFACE], ERR_REQUEST_SENDING_HTTP2_PREFACE_FRAME_FAILED)
      else (case fp of
              None \<Rightarrow> ([HTTP2_PREFACE], ERR_REQUEST_UNSUPPORTED_USERAGENT)
            | Some fp \<Rightarrow>
                if \<not> write (fp_settingsFrame fp) then ([HTTP2_PREFACE, fp_settingsFrame fp], ERR_REQUEST_SENDING_HTTP2_SETTINGS_FRAME_FAILED)
                else if \<not> write (fp_windowUpdateFrame fp)
                then ([HTTP2_PREFACE, fp_settingsFrame fp, fp_windowUpdateFrame fp], ERR_REQUEST_SENDING_HTTP2_WINDOW_UPDATE_FRAME_FAILED)
                else ([HTTP2_PREFACE, fp_settingsFrame fp, fp_windowUpdateFrame fp], ERR_NONE)))"

end
