(* ===== verification/ProfileProps.thy ===== *)
theory ProfileProps
  imports BrowserHandler SessionPool
begin

text \<open>
  What the browser profiles promise the peer, and what the client does: the preamble of every
  profile is well formed, and the header compression it advertises is the one the decoder uses.
\<close>

section \<open>Lookup\<close>

definition allProfiles :: "browserFingerprint list" where
  "allProfiles = concat (map bf_profiles BROWSER_FAMILIES)"

lemma family_profiles:
  "family \<in> set BROWSER_FAMILIES \<Longrightarrow> set (bf_profiles family) \<subseteq> set allProfiles \<and> bf_defaultProfile family \<in> set allProfiles"
  by (auto simp: allProfiles_def BROWSER_FAMILIES_def CHROME_FAMILY_def CRIOS_FAMILY_def)

lemma find_in: "find P xs = Some x \<Longrightarrow> x \<in> set xs \<and> P x"
  by (auto simp: find_Some_iff)

lemma lookupFamilies_profile:
  "lookupFamilies families i ua = Some fp \<Longrightarrow> set families \<subseteq> set BROWSER_FAMILIES \<Longrightarrow> fp \<in> set allProfiles"
proof (induction families)
  case (Cons family families)
  then have "set (bf_profiles family) \<subseteq> set allProfiles \<and> bf_defaultProfile family \<in> set allProfiles" using family_profiles by simp
  then show ?case
    using Cons by (auto simp: findProfileByVersion_def findProfileById_def dest!: find_in split: if_splits option.splits)
qed simp

lemma selected_profile:
  "getBrowserFingerprintById i ua = Some fp \<or> fp = getBrowserFingerprint type \<Longrightarrow> fp \<in> set allProfiles"
proof (elim disjE)
  assume "getBrowserFingerprintById i ua = Some fp"
  then show ?thesis using lookupFamilies_profile [of BROWSER_FAMILIES i ua fp] by (simp add: getBrowserFingerprintById_def split: if_splits)
next
  assume "fp = getBrowserFingerprint type"
  then show ?thesis
    by (simp add: getBrowserFingerprint_def allProfiles_def BROWSER_FAMILIES_def CHROME_FAMILY_def CRIOS_FAMILY_def split: browserType.split)
qed

section \<open>The preamble\<close>

definition settingOf :: "16 word \<Rightarrow> bytes \<Rightarrow> 32 word option" where
  "settingOf i payload = map_of (map (\<lambda>(j, v, _). (j, v)) (handleSettingsFrame payload 0)) i"

definition settingsFrameOf :: "bytes \<Rightarrow> frame" where
  "settingsFrameOf payload = \<lparr>fr_type = 0x4, fr_flags = 0, fr_streamId = 0, fr_payload = payload\<rparr>"

definition preambleOk :: "browserFingerprint \<Rightarrow> bytes \<Rightarrow> 32 word \<Rightarrow> bool" where
  "preambleOk fp settings increment \<longleftrightarrow>
     fp_settingsFrame fp = wireFrame (settingsFrameOf settings) \<and> fp_windowUpdateFrame fp = fillWindowUpdateFrame 0 increment
     \<and> length settings < 2 ^ 24 \<and> 65535 + unat increment < 2 ^ 31
     \<and> 0 < fp_headerTableSize fp \<and> fp_headerTableSize fp = (case settingOf 1 settings of None \<Rightarrow> 4096 | Some v \<Rightarrow> unat v) \<and> settingOf 2 settings = Some 0
     \<and> distinct (fp_pseudoHeaderOrder fp) \<and> set (fp_pseudoHeaderOrder fp) = {PSEUDO_METHOD, PSEUDO_AUTHORITY, PSEUDO_SCHEME, PSEUDO_PATH}"

lemma chrome_settings:
  "handleSettingsFrame (drop 9 CHROME_SETTINGS_FRAME) 0
    = [(1, 65536, Some ''SETTINGS_HEADER_TABLE_SIZE''), (2, 0, Some ''SETTINGS_ENABLE_PUSH''),
       (4, 6291456, Some ''SETTINGS_INITIAL_WINDOW_SIZE''), (6, 262144, Some ''SETTINGS_MAX_HEADER_LIST_SIZE'')]"
  by (simp add: handleSettingsFrame.simps CHROME_SETTINGS_FRAME_def be32_def getSettingsName_def http2SettingsFrame_def)

lemma crios_settings:
  "handleSettingsFrame (drop 9 CRIOS_SETTINGS_FRAME) 0
    = [(2, 0, Some ''SETTINGS_ENABLE_PUSH''), (3, 100, Some ''SETTINGS_MAX_CONCURRENT_STREAMS''),
       (4, 2097152, Some ''SETTINGS_INITIAL_WINDOW_SIZE''), (9, 1, None)]"
  by (simp add: handleSettingsFrame.simps CRIOS_SETTINGS_FRAME_def be32_def getSettingsName_def http2SettingsFrame_def)


lemma chrome_preamble: "preambleOk (CHROME_FINGERPRINT_COMMON i g t) (drop 9 CHROME_SETTINGS_FRAME) 15663105"
proof -
  have "CHROME_SETTINGS_FRAME = wireFrame (settingsFrameOf (drop 9 CHROME_SETTINGS_FRAME))"
    by (simp add: wireFrame_def settingsFrameOf_def CHROME_SETTINGS_FRAME_def streamIdBytes_def Let_def)
  moreover have "CHROME_WINDOW_UPDATE_FRAME = fillWindowUpdateFrame 0 15663105"
    by (simp add: fillWindowUpdateFrame_def CHROME_WINDOW_UPDATE_FRAME_def streamIdBytes_def)
  moreover have "set CHROME_PSEUDO_ORDER = {PSEUDO_METHOD, PSEUDO_AUTHORITY, PSEUDO_SCHEME, PSEUDO_PATH}" "distinct CHROME_PSEUDO_ORDER"
    by (auto simp: CHROME_PSEUDO_ORDER_def)
  moreover have "length (drop 9 CHROME_SETTINGS_FRAME) < 2 ^ 24" by (simp add: CHROME_SETTINGS_FRAME_def)
  ultimately show ?thesis
    by (simp add: preambleOk_def CHROME_FINGERPRINT_COMMON_def settingOf_def chrome_settings)
qed

lemma crios_preamble: "preambleOk CRIOS_FINGERPRINT_150 (drop 9 CRIOS_SETTINGS_FRAME) 10420225"
proof -
  have "CRIOS_SETTINGS_FRAME = wireFrame (settingsFrameOf (drop 9 CRIOS_SETTINGS_FRAME))"
    by (simp add: wireFrame_def settingsFrameOf_def CRIOS_SETTINGS_FRAME_def streamIdBytes_def Let_def)
  moreover have "CRIOS_WINDOW_UPDATE_FRAME = fillWindowUpdateFrame 0 10420225"
    by (simp add: fillWindowUpdateFrame_def CRIOS_WINDOW_UPDATE_FRAME_def streamIdBytes_def)
  moreover have "set CRIOS_PSEUDO_ORDER = {PSEUDO_METHOD, PSEUDO_AUTHORITY, PSEUDO_SCHEME, PSEUDO_PATH}" "distinct CRIOS_PSEUDO_ORDER"
    by (auto simp: CRIOS_PSEUDO_ORDER_def)
  moreover have "length (drop 9 CRIOS_SETTINGS_FRAME) < 2 ^ 24" by (simp add: CRIOS_SETTINGS_FRAME_def)
  ultimately show ?thesis
    by (simp add: preambleOk_def CRIOS_FINGERPRINT_150_def settingOf_def crios_settings)
qed

lemma allProfiles_ok: "fp \<in> set allProfiles \<Longrightarrow> \<exists>settings increment. preambleOk fp settings increment"
  using chrome_preamble crios_preamble
  by (auto simp: allProfiles_def BROWSER_FAMILIES_def CHROME_FAMILY_def CRIOS_FAMILY_def CHROME_FINGERPRINT_150_def
      CHROME_FINGERPRINT_151_def CHROME_FINGERPRINT_152_def) blast+

lemma establish_sent:
  "establishTransport write (Some fp) = (sent, ERR_NONE) \<Longrightarrow> sent = [HTTP2_PREFACE, fp_settingsFrame fp, fp_windowUpdateFrame fp]"
  by (auto simp: establishTransport_def ERR_NONE_def ERR_REQUEST_SENDING_HTTP2_PREFACE_FRAME_FAILED_def
      ERR_REQUEST_SENDING_HTTP2_SETTINGS_FRAME_FAILED_def ERR_REQUEST_SENDING_HTTP2_WINDOW_UPDATE_FRAME_FAILED_def split: if_splits)

text \<open>C33. The preamble of a connection matches the client behind it, for every profile a request can
  select: after the HTTP/2 preface the server reads exactly two frames, SETTINGS and WINDOW_UPDATE
  of stream 0; push is disabled; the connection window stays below 2^31; the table size the
  SETTINGS announce (or the default of RFC 7541) is the limit the header decoder of the session
  enforces; and the profile orders all four pseudo headers.\<close>

theorem profile_preamble_consistent:
  assumes "getBrowserFingerprintById i ua = Some fp \<or> fp = getBrowserFingerprint type"
    and "establishTransport write (Some fp) = (sent, ERR_NONE)" and "bk_headerTableSize basket = fp_headerTableSize fp"
  shows "\<exists>settings increment.
      framesFrom (concat sent) (length HTTP2_PREFACE) =
        ([\<lparr>fr_type = 0x4, fr_flags = 0, fr_streamId = 0, fr_payload = settings\<rparr>,
          \<lparr>fr_type = 0x8, fr_flags = 0, fr_streamId = 0, fr_payload = drop 9 (fillWindowUpdateFrame 0 increment)\<rparr>], length (concat sent))
      \<and> settingOf 2 settings = Some 0 \<and> 65535 + unat increment < 2 ^ 31
      \<and> dynamicTableMaxSize (initHpackContext basket) = (case settingOf 1 settings of None \<Rightarrow> 4096 | Some v \<Rightarrow> unat v)
      \<and> distinct (fp_pseudoHeaderOrder fp) \<and> set (fp_pseudoHeaderOrder fp) = {PSEUDO_METHOD, PSEUDO_AUTHORITY, PSEUDO_SCHEME, PSEUDO_PATH}"
proof -
  obtain settings increment where p: "preambleOk fp settings increment" using allProfiles_ok selected_profile [OF assms(1)] by blast
  let ?w = "\<lparr>fr_type = 0x8, fr_flags = 0, fr_streamId = 0, fr_payload = drop 9 (fillWindowUpdateFrame 0 increment)\<rparr>"
  have w: "fillWindowUpdateFrame 0 increment = wireFrame ?w"
    by (simp add: fillWindowUpdateFrame_def wireFrame_def streamIdBytes_def Let_def)
  have sent: "concat sent = HTTP2_PREFACE @ concat (map wireFrame [settingsFrameOf settings, ?w]) @ []"
    using establish_sent [OF assms(2)] p by (simp add: preambleOk_def w [symmetric])
  have "list_all frameOk [settingsFrameOf settings, ?w]"
    using p by (simp add: preambleOk_def frameOk_def settingsFrameOf_def fillWindowUpdateFrame_def)
  from framesFrom_wire [OF this, of HTTP2_PREFACE "[]"]
  have "framesFrom (concat sent) (length HTTP2_PREFACE)
      = (case framesFrom (concat sent) (length (concat sent)) of (gs, e) \<Rightarrow> ([settingsFrameOf settings, ?w] @ gs, e))"
    by (simp only: sent append_Nil2)
  moreover have "framesFrom (concat sent) (length (concat sent)) = ([], length (concat sent))" by (subst framesFrom.simps) simp
  ultimately have "framesFrom (concat sent) (length HTTP2_PREFACE) = ([settingsFrameOf settings, ?w], length (concat sent))"
    by simp
  moreover have "dynamicTableMaxSize (initHpackContext basket) = (case settingOf 1 settings of None \<Rightarrow> 4096 | Some v \<Rightarrow> unat v)"
    using p assms(3) by (auto simp: preambleOk_def initHpackContext_def HPACK_DEFAULT_HEADER_TABLE_SIZE_def)
  ultimately show ?thesis using p by (auto simp: preambleOk_def settingsFrameOf_def)
qed

lemma profile_preamble_consistent_witness:
  "\<exists>settings increment. framesFrom (HTTP2_PREFACE @ CRIOS_SETTINGS_FRAME @ CRIOS_WINDOW_UPDATE_FRAME) (length HTTP2_PREFACE) =
        ([\<lparr>fr_type = 0x4, fr_flags = 0, fr_streamId = 0, fr_payload = settings\<rparr>,
          \<lparr>fr_type = 0x8, fr_flags = 0, fr_streamId = 0, fr_payload = drop 9 (fillWindowUpdateFrame 0 increment)\<rparr>], 70)
     \<and> (case settingOf 1 settings of None \<Rightarrow> 4096 | Some v \<Rightarrow> unat v) = (4096 :: nat)"
proof -
  define basket :: basket where "basket = \<lparr>bk_scheme = ''https'', bk_host = ''h'', bk_port = ''443'',
     bk_proxy = \<lparr>px_scheme = [], px_host = [], px_port = [], px_authorization = [], px_response = []\<rparr>,
     bk_nonBlocking = False, bk_forceHttp11 = False, bk_sessionExpiration = 60000, bk_clientHelloId = ''hellocrios_150'',
     bk_headerTableSize = fp_headerTableSize (getBrowserFingerprint BROWSER_CHROME_IOS), bk_error = ERR_NONE, bk_session = None\<rparr>"
  have s: "establishTransport (\<lambda>_. True) (Some (getBrowserFingerprint BROWSER_CHROME_IOS))
      = ([HTTP2_PREFACE, CRIOS_SETTINGS_FRAME, CRIOS_WINDOW_UPDATE_FRAME], ERR_NONE)"
    by (simp add: establishTransport_def getBrowserFingerprint_def CRIOS_FINGERPRINT_150_def)
  have l: "length (concat [HTTP2_PREFACE, CRIOS_SETTINGS_FRAME, CRIOS_WINDOW_UPDATE_FRAME]) = 70"
    by (simp add: HTTP2_PREFACE_def CRIOS_SETTINGS_FRAME_def CRIOS_WINDOW_UPDATE_FRAME_def)
  have "dynamicTableMaxSize (initHpackContext basket) = 4096" "bk_headerTableSize basket = fp_headerTableSize (getBrowserFingerprint BROWSER_CHROME_IOS)"
    by (simp_all add: initHpackContext_def basket_def getBrowserFingerprint_def CRIOS_FINGERPRINT_150_def)
  then show ?thesis
    using profile_preamble_consistent [OF disjI2 [OF refl] s, of basket] unfolding l by simp metis
qed

section \<open>Behaviours at odds with the comments\<close>

text \<open>Opera's user agent says \<open>OPR/\<close>: it is taken for Chrome.\<close>

lemma opera_seen_as_chrome:
  "detectBrowseType ''Mozilla/5.0 AppleWebKit/537.36 Chrome/152.0 Safari/537.36 OPR/120.0'' = BROWSER_CHROME
   \<and> \<not> isChromeUA ''Mozilla/5.0 AppleWebKit/537.36 Chrome/152.0 Safari/537.36 OPR/120.0''"
  by code_simp

text \<open>An unsupported browser has a profile all the same: Chrome's.\<close>

lemma unsupported_browser_gets_chrome: "getBrowserFingerprint BROWSER_FIREFOX = CHROME_FINGERPRINT_152"
  by (simp add: getBrowserFingerprint_def)

end
