(* ===== verification/RequestBasket.thy ===== *)
theory RequestBasket
  imports BrowserHandler SessionPool UrlParser HpackEncode
begin

text \<open>
  Parsing a request, \<open>src/Basket.c\<close>: from the JSON text of a request to the basket that holds its
  URL, method, profile, header list, payload and options. JSON itself is jansson's: the record
  \<open>jansson\<close> holds the functions of that library the file calls. Where the code hands a null string
  to a string function, or writes past its header array, the result is \<open>None\<close>.
\<close>

section \<open>State\<close>

text \<open>
  \<open>js_loads\<close> is \<open>json_loads\<close>; \<open>js_get\<close> \<open>json_object_get\<close>; \<open>js_members\<close> what iteration visits, in
  order; \<open>js_string\<close> \<open>json_string_value\<close> (null unless a string); \<open>js_integer\<close>
  \<open>json_integer_value\<close> (0 unless an integer); \<open>js_dumps\<close> and \<open>js_dumpsAny\<close> \<open>json_dumps\<close> without and
  with \<open>JSON_ENCODE_ANY\<close>.
\<close>

record 'j jansson =
  js_loads :: "string \<Rightarrow> 'j option"
  js_get :: "'j \<Rightarrow> string \<Rightarrow> 'j option"
  js_members :: "'j \<Rightarrow> (string \<times> 'j) list"
  js_string :: "'j \<Rightarrow> string option"
  js_integer :: "'j \<Rightarrow> int"
  js_isInteger :: "'j \<Rightarrow> bool"
  js_isReal :: "'j \<Rightarrow> bool"
  js_isBoolean :: "'j \<Rightarrow> bool"
  js_isTrue :: "'j \<Rightarrow> bool"
  js_isObject :: "'j \<Rightarrow> bool"
  js_dumps :: "'j \<Rightarrow> string option"
  js_dumpsAny :: "'j \<Rightarrow> string option"

record requestBasket =
  rb_url :: "string option"
  rb_method :: "string option"
  rb_browserType :: browserType
  rb_fingerprint :: "browserFingerprint option"
  rb_clientHelloId :: string
  rb_components :: urlComponents
  rb_headers :: "reqHeader list"
  rb_containsContentLength :: bool
  rb_payload :: "string option"
  rb_proxy :: proxy
  rb_sessionExpiration :: int
  rb_connectTimeout :: int
  rb_responseReadingTimeout :: int
  rb_decompress :: int
  rb_nonBlocking :: bool
  rb_forceHttp11 :: bool
  rb_error :: error

definition noProxy :: proxy where
  "noProxy = \<lparr>px_scheme = [], px_host = [], px_port = [], px_authorization = [], px_response = []\<rparr>"

definition initBasket :: requestBasket where
  "initBasket =
     \<lparr>rb_url = None, rb_method = None, rb_browserType = BROWSER_UNKNOWN, rb_fingerprint = None, rb_clientHelloId = [],
      rb_components = noComponents, rb_headers = [], rb_containsContentLength = False, rb_payload = None, rb_proxy = noProxy,
      rb_sessionExpiration = 15000, rb_connectTimeout = 5000, rb_responseReadingTimeout = 20000, rb_decompress = 1,
      rb_nonBlocking = True, rb_forceHttp11 = False, rb_error = ERR_NONE\<rparr>"

text \<open>Storing a \<open>json_int_t\<close> in an \<open>int\<close>.\<close>

definition toInt32 :: "int \<Rightarrow> int" where
  "toInt32 i = sint (word_of_int i :: 32 word)"

section \<open>Cookies\<close>

text \<open>The tokens between semicolons; the scan stops at the end of the text.\<close>

function cookieTokens :: "string \<Rightarrow> string list" where
  "cookieTokens p =
     (if p = [] then []
      else (case strchr p (CHR '';'') of None \<Rightarrow> [p] | Some (token, r) \<Rightarrow> token # cookieTokens (drop 1 r)))"
  by pat_completeness auto
termination
proof (relation "measure length", goal_cases)
  case (2 p x token r)
  then have "p = token @ r" using strchr_Some [of p "CHR '';''" token r] by auto
  then show ?case using 2 by (cases p; cases r) auto
qed simp

declare cookieTokens.simps [simp del]

definition trimSpaces :: "string \<Rightarrow> string" where
  "trimSpaces s = (let s = dropWhile (\<lambda>c. c = CHR '' '') s in rev (dropWhile (\<lambda>c. c = CHR '' '') (rev s)))"

text \<open>The loop that cuts a long value; the profiles' limit is 4096.\<close>

function cookieChunks :: "nat \<Rightarrow> string \<Rightarrow> string list" where
  "cookieChunks maxLength v =
     (if v = [] \<or> maxLength = 0 then [] else take maxLength v # cookieChunks maxLength (drop maxLength v))"
  by pat_completeness auto
termination by (relation "measure (length \<circ> snd)") auto

declare cookieChunks.simps [simp del]

definition cookieCrumbs :: "nat \<Rightarrow> string \<Rightarrow> string list" where
  "cookieCrumbs maxLength token =
     (let t = trimSpaces token
      in case strchr t (CHR ''='') of
           None \<Rightarrow> []
         | Some (name, r) \<Rightarrow>
             (let v = drop 1 r
              in if length v \<le> maxLength then [name @ ''='' @ v]
                 else map (\<lambda>c. name @ ''='' @ c) (cookieChunks maxLength v)))"

text \<open>\<open>processCookies\<close> in its two modes: the headers it stores, and how many it counts.\<close>

definition processCookies :: "nat \<Rightarrow> string \<Rightarrow> reqHeader list" where
  "processCookies maxLength cookie =
     map (\<lambda>kv. \<lparr>rh_name = ''cookie'', rh_value = kv, rh_isPseudo = False\<rparr>)
       (concat (map (cookieCrumbs maxLength) (cookieTokens cookie)))"

definition countCookies :: "nat \<Rightarrow> string option \<Rightarrow> nat" where
  "countCookies maxLength cookie = (case cookie of None \<Rightarrow> 0 | Some c \<Rightarrow> length (processCookies maxLength c))"

section \<open>Header lists\<close>

definition jsonHeaderGet :: "'j jansson \<Rightarrow> 'j \<Rightarrow> string \<Rightarrow> 'j option" where
  "jsonHeaderGet J jsonHeaders name =
     (if \<not> js_isObject J jsonHeaders then None
      else map_option snd (find (\<lambda>(key, v). strcaseeq key name) (js_members J jsonHeaders)))"

definition headerValueToString :: "'j jansson \<Rightarrow> 'j \<Rightarrow> string option" where
  "headerValueToString J v =
     (if js_string J v \<noteq> None then js_string J v
      else if js_isInteger J v then Some (take 63 (intToDec (js_integer J v)))
      else if js_isReal J v then map_option (take 63) (js_dumpsAny J v)
      else if js_isBoolean J v then Some (if js_isTrue J v then ''true'' else ''false'')
      else None)"

definition pseudoNames :: "string list" where
  "pseudoNames = ['':method'', '':authority'', '':scheme'', '':path'']"

definition isPseudoName :: "string \<Rightarrow> bool" where
  "isPseudoName key \<longleftrightarrow> list_ex (strcaseeq key) pseudoNames"

definition pseudoHeader :: "string \<Rightarrow> string \<Rightarrow> urlComponents \<Rightarrow> pseudoHeaderType \<Rightarrow> reqHeader" where
  "pseudoHeader authority meth url t =
     (case t of
        PSEUDO_METHOD \<Rightarrow> \<lparr>rh_name = '':method'', rh_value = meth, rh_isPseudo = True\<rparr>
      | PSEUDO_AUTHORITY \<Rightarrow> \<lparr>rh_name = '':authority'', rh_value = authority, rh_isPseudo = True\<rparr>
      | PSEUDO_SCHEME \<Rightarrow> \<lparr>rh_name = '':scheme'', rh_value = uc_scheme url, rh_isPseudo = True\<rparr>
      | PSEUDO_PATH \<Rightarrow> \<lparr>rh_name = '':path'', rh_value = uc_path url, rh_isPseudo = True\<rparr>)"

definition realHeader :: "string \<Rightarrow> string \<Rightarrow> reqHeader" where
  "realHeader key v = \<lparr>rh_name = key, rh_value = v, rh_isPseudo = False\<rparr>"

text \<open>One member of the JSON headers, as the loop of \<open>buildHttp2Headers\<close> stores it.\<close>

definition http2Member :: "'j jansson \<Rightarrow> nat \<Rightarrow> bool \<Rightarrow> string \<times> 'j \<Rightarrow> reqHeader list" where
  "http2Member J maxLength containPseudoHeaders m =
     (let (key, jsonValue) = m
      in case headerValueToString J jsonValue of
           None \<Rightarrow> []
         | Some v \<Rightarrow>
             if containPseudoHeaders then [\<lparr>rh_name = key, rh_value = v, rh_isPseudo = isPseudoName key\<rparr>]
             else if isPseudoName key \<or> strcaseeq ''host'' key then []
             else if strcaseeq ''cookie'' key then processCookies maxLength v
             else [realHeader key v])"

definition headerLimit :: "browserFingerprint option \<Rightarrow> nat" where
  "headerLimit fp = (case fp of None \<Rightarrow> 4096 | Some fp \<Rightarrow> fp_headerValueMaxLength fp)"

definition cookieCountOf :: "'j jansson \<Rightarrow> nat \<Rightarrow> 'j \<Rightarrow> nat" where
  "cookieCountOf J maxLength jsonHeaders =
     (case jsonHeaderGet J jsonHeaders ''cookie'' of None \<Rightarrow> 0 | Some v \<Rightarrow> countCookies maxLength (js_string J v))"

text \<open>
  The headers and whether a content length is among them; the array has room for
  \<open>members + 1 + 4 + cookieCount\<close> headers. \<open>authority\<close> is \<open>getHeaderAuthority\<close> of the URL.
\<close>

definition buildHttp2Headers :: "'j jansson \<Rightarrow> browserFingerprint option \<Rightarrow> string \<Rightarrow> string \<Rightarrow> urlComponents \<Rightarrow> 'j \<Rightarrow> (reqHeader list \<times> bool) option" where
  "buildHttp2Headers J fp authority meth url jsonHeaders =
     (let maxLength = headerLimit fp; members = js_members J jsonHeaders;
          capacity = length members + 1 + 4 + cookieCountOf J maxLength jsonHeaders;
          containPseudoHeaders = list_all (\<lambda>n. jsonHeaderGet J jsonHeaders n \<noteq> None) pseudoNames;
          order = (case fp of None \<Rightarrow> [PSEUDO_METHOD, PSEUDO_AUTHORITY, PSEUDO_SCHEME, PSEUDO_PATH] | Some fp \<Rightarrow> fp_pseudoHeaderOrder fp);
          pseudo = (if containPseudoHeaders then [] else map (pseudoHeader authority meth url) order);
          headers = pseudo @ concat (map (http2Member J maxLength containPseudoHeaders) members)
      in if length headers \<le> capacity
         then Some (headers, list_ex (\<lambda>(key, v). strcaseeq ''content-length'' key) members) else None)"

definition http11Member :: "'j jansson \<Rightarrow> nat \<Rightarrow> bool \<Rightarrow> string \<times> 'j \<Rightarrow> reqHeader list" where
  "http11Member J maxLength hasAuthority m =
     (let (key, jsonValue) = m
      in if strcaseeq '':method'' key \<or> strcaseeq '':scheme'' key \<or> strcaseeq '':path'' key then []
         else (case headerValueToString J jsonValue of
                 None \<Rightarrow> []
               | Some v \<Rightarrow>
                   if strcaseeq '':authority'' key then [\<lparr>rh_name = key, rh_value = v, rh_isPseudo = True\<rparr>]
                   else if strcaseeq ''host'' key \<and> hasAuthority then []
                   else if strcaseeq ''cookie'' key then processCookies maxLength v
                   else [realHeader key v]))"

definition buildHttp11Headers :: "'j jansson \<Rightarrow> browserFingerprint option \<Rightarrow> 'j \<Rightarrow> (reqHeader list \<times> bool) option" where
  "buildHttp11Headers J fp jsonHeaders =
     (let maxLength = headerLimit fp; members = js_members J jsonHeaders;
          capacity = length members + 1 + cookieCountOf J maxLength jsonHeaders;
          headers = concat (map (http11Member J maxLength (jsonHeaderGet J jsonHeaders '':authority'' \<noteq> None)) members)
      in if length headers \<le> capacity
         then Some (headers, list_ex (\<lambda>(key, v). strcaseeq ''content-length'' key) members) else None)"

section \<open>The order of the headers\<close>

function orderTokens :: "string \<Rightarrow> string list" where
  "orderTokens raw =
     (case strchr raw (CHR '','') of None \<Rightarrow> [raw] | Some (token, r) \<Rightarrow> token # orderTokens (drop 1 r))"
  by pat_completeness auto
termination
proof (relation "measure length", goal_cases)
  case (2 p x token r)
  then have "p = token @ r \<and> r \<noteq> []" using strchr_Some [of p "CHR '',''" token r] by auto
  then show ?case by (cases r) auto
qed simp

declare orderTokens.simps [simp del]

definition trimSpace :: "string \<Rightarrow> string" where
  "trimSpace s = (let s = dropWhile isSpace s in rev (dropWhile isSpace (rev s)))"

definition orderKeys :: "string \<Rightarrow> string list" where
  "orderKeys raw = filter (\<lambda>k. k \<noteq> []) (map trimSpace (orderTokens raw))"

definition isOrderKey :: "reqHeader \<Rightarrow> bool" where
  "isOrderKey h \<longleftrightarrow> \<not> rh_isPseudo h \<and> strcaseeq (rh_name h) ''X-HeaderOrderKey''"

text \<open>One key of the order: the headers of that name not taken yet follow, and are marked.\<close>

definition takeKey :: "reqHeader list \<Rightarrow> nat \<Rightarrow> string \<Rightarrow> reqHeader list \<times> nat list \<Rightarrow> reqHeader list \<times> nat list" where
  "takeKey hs orderIdx key st =
     (let (out, matched) = st;
          found = filter (\<lambda>i. \<not> rh_isPseudo (hs ! i) \<and> i \<noteq> orderIdx \<and> i \<notin> set matched \<and> strcaseeq (rh_name (hs ! i)) key) [0..<length hs]
      in (out @ map (\<lambda>i. hs ! i) found, matched @ found))"

definition reorderHeadersByOrderKey :: "reqHeader list \<Rightarrow> error + reqHeader list" where
  "reorderHeadersByOrderKey hs =
     (case findIndex isOrderKey hs of
        None \<Rightarrow> Inr hs
      | Some orderIdx \<Rightarrow>
          (let keys = orderKeys (rh_value (hs ! orderIdx));
               missing = list_ex (\<lambda>i. \<not> (rh_isPseudo (hs ! i) \<or> i = orderIdx \<or> strcaseeq (rh_name (hs ! i)) ''connection'')
                   \<and> \<not> list_ex (strcaseeq (rh_name (hs ! i))) keys) [0..<length hs]
           in if missing then Inl ERR_REQUEST_HEADER_ORDER_KEY_MISSING_HEADER
              else (let (out, matched) = fold (takeKey hs orderIdx) keys (filter rh_isPseudo hs, []);
                        rest = filter (\<lambda>i. \<not> (rh_isPseudo (hs ! i) \<or> i = orderIdx \<or> i \<in> set matched)
                            \<and> strcaseeq (rh_name (hs ! i)) ''connection'') [0..<length hs]
                    in Inr (out @ map (\<lambda>i. hs ! i) rest))))"

section \<open>The fields of a request\<close>

text \<open>\<open>jgetq\<close> and \<open>jstrq\<close>: the jansson functions on a pointer that may be null.\<close>

definition jgetq :: "'j jansson \<Rightarrow> 'j option \<Rightarrow> string \<Rightarrow> 'j option" where
  "jgetq J v key = (case v of None \<Rightarrow> None | Some v \<Rightarrow> js_get J v key)"

definition jstrq :: "'j jansson \<Rightarrow> 'j option \<Rightarrow> string option" where
  "jstrq J v = (case v of None \<Rightarrow> None | Some v \<Rightarrow> js_string J v)"

definition jintq :: "'j jansson \<Rightarrow> 'j option \<Rightarrow> int" where
  "jintq J v = (case v of None \<Rightarrow> 0 | Some v \<Rightarrow> js_integer J v)"

definition fail :: "error \<Rightarrow> requestBasket \<Rightarrow> requestBasket" where
  "fail e basket = basket\<lparr>rb_error := e\<rparr>"

text \<open>Per-request logging: the flag of the thread.\<close>

definition parseLog :: "'j jansson \<Rightarrow> 'j option \<Rightarrow> bool" where
  "parseLog J jsonRequest =
     (let log = jgetq J jsonRequest ''log'' in log \<noteq> None \<and> jintq J log = 1)"

definition parseUrlField :: "'j jansson \<Rightarrow> 'j option \<Rightarrow> requestBasket \<Rightarrow> requestBasket option" where
  "parseUrlField J jsonRequest basket =
     (case jstrq J (jgetq J jsonRequest ''url'') of
        None \<Rightarrow> None
      | Some url \<Rightarrow>
          (let basket = basket\<lparr>rb_url := Some url\<rparr>
           in case parseUrl (Some url) of
                None \<Rightarrow> None
              | Some (Inl rc) \<Rightarrow> Some (fail ERR_REQUEST_PARSING_URL_FAILED basket)
              | Some (Inr components) \<Rightarrow> Some (basket\<lparr>rb_components := components\<rparr>)))"

definition httpMethods :: "string list" where
  "httpMethods = [''POST'', ''GET'', ''PUT'', ''PATCH'', ''DELETE'']"

definition parseMethod :: "'j jansson \<Rightarrow> 'j option \<Rightarrow> requestBasket \<Rightarrow> requestBasket option" where
  "parseMethod J jsonRequest basket =
     (case jgetq J jsonRequest ''method'' of
        None \<Rightarrow> Some (fail ERR_REQUEST_PARSING_METHOD_FAILED basket)
      | Some jsonMethod \<Rightarrow>
          (case js_string J jsonMethod of
             None \<Rightarrow> None
           | Some meth \<Rightarrow>
               (case find (strcaseeq meth) httpMethods of
                  None \<Rightarrow> Some (fail ERR_REQUEST_UNSUPPORTED_METHOD basket)
                | Some m \<Rightarrow> Some (basket\<lparr>rb_method := Some m\<rparr>))))"

definition parseSession :: "'j jansson \<Rightarrow> 'j option \<Rightarrow> requestBasket \<Rightarrow> requestBasket" where
  "parseSession J jsonRequest basket =
     (case jgetq J jsonRequest ''session'' of
        None \<Rightarrow> basket
      | Some jsonSession \<Rightarrow>
          (let expiration = js_get J jsonSession ''expirationInMilliseconds'';
               basket = (if expiration \<noteq> None then basket\<lparr>rb_sessionExpiration := toInt32 (jintq J expiration)\<rparr> else basket)
           in case js_get J jsonSession ''protocol'' of
                None \<Rightarrow> basket
              | Some protocol \<Rightarrow>
                  (case js_string J protocol of
                     None \<Rightarrow> fail ERR_REQUEST_UNSUPPORTED_PROTOCOL basket
                   | Some protocolStr \<Rightarrow>
                       if list_ex (strcaseeq protocolStr) [''http/1.1'', ''http1.1'', ''http11''] then basket\<lparr>rb_forceHttp11 := True\<rparr>
                       else if list_ex (strcaseeq protocolStr) [''h2'', ''http2'', ''http/2''] then basket\<lparr>rb_forceHttp11 := False\<rparr>
                       else fail ERR_REQUEST_UNSUPPORTED_PROTOCOL basket)))"

text \<open>The profile a request selects: pinned by the client hello id, else by the user agent.\<close>

definition selectProfile :: "string option \<Rightarrow> string \<Rightarrow> requestBasket \<Rightarrow> requestBasket" where
  "selectProfile clientHelloId ua basket =
     (let basket = basket\<lparr>rb_browserType := detectBrowseType ua\<rparr>;
          basket = (case clientHelloId of
                      Some i \<Rightarrow>
                        (case getBrowserFingerprintById i (Some ua) of
                           None \<Rightarrow> fail ERR_REQUEST_UNSUPPORTED_CLIENTHELLOID basket
                         | Some pinned \<Rightarrow> basket\<lparr>rb_fingerprint := Some pinned, rb_browserType := browserTypeFromClientHelloId i\<rparr>)
                    | None \<Rightarrow> basket\<lparr>rb_fingerprint := Some (getBrowserFingerprint (rb_browserType basket))\<rparr>)
      in if failed (rb_error basket) then basket
         else (case rb_fingerprint basket of
                 None \<Rightarrow> basket
               | Some fp \<Rightarrow> basket\<lparr>rb_clientHelloId := strncpyField 64 (fp_clientHelloId fp)\<rparr>))"

definition buildHeaders :: "'j jansson \<Rightarrow> (string \<Rightarrow> bool) \<Rightarrow> (string \<Rightarrow> bool) \<Rightarrow> 'j \<Rightarrow> requestBasket \<Rightarrow> requestBasket option" where
  "buildHeaders J ipv4 ipv6 jsonHeaders basket =
     (let url = rb_components basket; authority = getHeaderAuthority ipv4 ipv6 (uc_host url) (uc_port url);
          built = (if rb_forceHttp11 basket then buildHttp11Headers J (rb_fingerprint basket) jsonHeaders
                   else buildHttp2Headers J (rb_fingerprint basket) authority (case rb_method basket of None \<Rightarrow> [] | Some m \<Rightarrow> m) url jsonHeaders)
      in case built of
           None \<Rightarrow> None
         | Some (headers, contentLength) \<Rightarrow>
             (case reorderHeadersByOrderKey headers of
                Inl e \<Rightarrow> Some (basket\<lparr>rb_headers := headers, rb_containsContentLength := contentLength, rb_error := e\<rparr>)
              | Inr ordered \<Rightarrow> Some (basket\<lparr>rb_headers := ordered, rb_containsContentLength := contentLength\<rparr>)))"

definition parseHeaders :: "'j jansson \<Rightarrow> (string \<Rightarrow> bool) \<Rightarrow> (string \<Rightarrow> bool) \<Rightarrow> 'j option \<Rightarrow> requestBasket \<Rightarrow> requestBasket option" where
  "parseHeaders J ipv4 ipv6 jsonRequest basket =
     (case jgetq J jsonRequest ''headers'' of
        None \<Rightarrow> Some (fail ERR_REQUEST_MISSING_HEADERS basket)
      | Some jsonHeaders \<Rightarrow>
          (case jsonHeaderGet J jsonHeaders ''user-agent'' of
             None \<Rightarrow> Some (fail ERR_REQUEST_PARSING_USERAGENT_FAILED basket)
           | Some jsonUA \<Rightarrow>
               (case js_string J jsonUA of
                  None \<Rightarrow> None
                | Some ua \<Rightarrow>
                    (let clientHelloId = jstrq J (jgetq J (jgetq J jsonRequest ''session'') ''clientHelloId'');
                         basket = selectProfile clientHelloId ua basket
                     in if failed (rb_error basket) then Some basket else buildHeaders J ipv4 ipv6 jsonHeaders basket))))"

definition parsePayload :: "'j jansson \<Rightarrow> 'j option \<Rightarrow> requestBasket \<Rightarrow> requestBasket option" where
  "parsePayload J jsonRequest basket =
     (case jgetq J jsonRequest ''payload'' of
        None \<Rightarrow> Some (basket\<lparr>rb_payload := None\<rparr>)
      | Some jsonPayload \<Rightarrow>
          (case (if js_string J jsonPayload \<noteq> None then js_string J jsonPayload else js_dumps J jsonPayload) of
             None \<Rightarrow> None
           | Some payload \<Rightarrow>
               (let basket = basket\<lparr>rb_payload := Some payload\<rparr>
                in if \<not> rb_containsContentLength basket then Some (fail ERR_REQUEST_PARSING_CONTENTLENGTH_FAILED basket)
                   else (case jgetq J jsonRequest ''headers'' of
                           None \<Rightarrow> Some basket
                         | Some jsonHeaders \<Rightarrow>
                             (case jstrq J (jsonHeaderGet J jsonHeaders ''content-length'') of
                                None \<Rightarrow> Some basket
                              | Some expectedLen \<Rightarrow>
                                  (let expected = fst (strtol 10 expectedLen)
                                   in if expected < 0 \<or> nat expected \<noteq> length payload
                                      then Some (fail ERR_REQUEST_INCORRECT_CONTENTLENGTH_MISMATCH basket) else Some basket))))))"

definition parseOptions :: "'j jansson \<Rightarrow> 'j option \<Rightarrow> requestBasket \<Rightarrow> requestBasket" where
  "parseOptions J jsonRequest basket =
     (let connectTimeout = jgetq J jsonRequest ''connectTimeoutInMilliseconds'';
          basket = (if connectTimeout \<noteq> None then basket\<lparr>rb_connectTimeout := toInt32 (jintq J connectTimeout)\<rparr> else basket);
          responseTimeout = jgetq J jsonRequest ''responseReadingTimeoutInMilliseconds'';
          basket = (if connectTimeout \<noteq> None then basket\<lparr>rb_responseReadingTimeout := toInt32 (jintq J responseTimeout)\<rparr> else basket);
          decompress = jgetq J jsonRequest ''decompress'';
          basket = (if decompress \<noteq> None then basket\<lparr>rb_decompress := toInt32 (jintq J decompress)\<rparr> else basket);
          nonBlocking = jgetq J jsonRequest ''non-blocking''
      in basket\<lparr>rb_nonBlocking := (if nonBlocking \<noteq> None then jintq J nonBlocking \<noteq> 0 else True)\<rparr>)"

definition parseProxy :: "'j jansson \<Rightarrow> 'j option \<Rightarrow> requestBasket \<Rightarrow> requestBasket option" where
  "parseProxy J jsonRequest basket =
     (case jgetq J jsonRequest ''proxy'' of
        None \<Rightarrow> Some basket
      | Some jsonProxy \<Rightarrow>
          (let str = (\<lambda>key. jstrq J (js_get J jsonProxy key))
           in case (str ''scheme'', str ''host'', str ''port'') of
                (Some scheme, Some host, Some port) \<Rightarrow>
                  (let p = (rb_proxy basket)\<lparr>px_scheme := strncpyField 16 scheme, px_host := strncpyField 256 host, px_port := strncpyField 8 port\<rparr>
                   in if js_get J jsonProxy ''authorization'' = None then Some (basket\<lparr>rb_proxy := p\<rparr>)
                      else (case str ''authorization'' of
                              None \<Rightarrow> None
                            | Some a \<Rightarrow> Some (basket\<lparr>rb_proxy := p\<lparr>px_authorization := strncpyField 1024 a\<rparr>\<rparr>)))
              | _ \<Rightarrow> None))"

definition whenOk :: "(requestBasket \<Rightarrow> requestBasket option) \<Rightarrow> requestBasket \<Rightarrow> requestBasket option" where
  "whenOk f basket = (if failed (rb_error basket) then Some basket else f basket)"

definition buildBasket :: "'j jansson \<Rightarrow> (string \<Rightarrow> bool) \<Rightarrow> (string \<Rightarrow> bool) \<Rightarrow> string \<Rightarrow> requestBasket option" where
  "buildBasket J ipv4 ipv6 requestString =
     (let jsonRequest = js_loads J requestString;
          basket = (if jsonRequest = None then fail ERR_REQUEST_PARSING_STRING_TO_JSON_FAILED initBasket else initBasket)
      in case Option.bind (whenOk (parseUrlField J jsonRequest) basket) (\<lambda>basket.
                Option.bind (whenOk (parseMethod J jsonRequest) basket) (\<lambda>basket.
                  Option.bind (whenOk (\<lambda>b. Some (parseSession J jsonRequest b)) basket) (\<lambda>basket.
                    Option.bind (whenOk (parseHeaders J ipv4 ipv6 jsonRequest) basket) (whenOk (parsePayload J jsonRequest))))) of
           None \<Rightarrow> None
         | Some basket \<Rightarrow> whenOk (parseProxy J jsonRequest) (parseOptions J jsonRequest basket))"

text \<open>The basket's user agent, for a proxy's CONNECT request.\<close>

definition getUserAgent :: "reqHeader list \<Rightarrow> string" where
  "getUserAgent hs =
     (case find (\<lambda>h. strcaseeq (rh_name h) ''user-agent'') hs of
        Some h \<Rightarrow> rh_value h
      | None \<Rightarrow> ''Mozilla/5.0 (Windows NT 10.0; Win64; x64) AppleWebKit/537.36 (KHTML, like Gecko) Chrome/144.0.0.0 Safari/537.36'')"

end
