(* ===== verification/HeaderOrder.thy ===== *)
theory HeaderOrder
  imports RequestBasket "HOL-Library.Multiset"
begin

text \<open>
  The order of the headers: \<open>reorderHeadersByOrderKey\<close> of \<open>src/Basket.c\<close> is the stable sort by the position
  of a name in the list of the request, or reports a name no header has.
\<close>

section \<open>Sorting by rank\<close>

definition byRank :: "('a \<Rightarrow> nat) \<Rightarrow> 'a list \<Rightarrow> nat \<Rightarrow> 'a list" where
  "byRank f xs m = concat (map (\<lambda>j. filter (\<lambda>x. f x = j) xs) [0..<m])"

lemma byRank_Suc: "byRank f xs (Suc m) = byRank f xs m @ filter (\<lambda>x. f x = m) xs"
  by (simp add: byRank_def)

lemma mset_byRank: "mset (byRank f xs m) = mset (filter (\<lambda>x. f x < m) xs)"
proof (induction m)
  case 0
  then show ?case by (simp add: byRank_def)
next
  case (Suc m)
  have "mset (filter (\<lambda>x. f x < Suc m) xs) = mset (filter (\<lambda>x. f x < m) xs) + mset (filter (\<lambda>x. f x = m) xs)"
    by (induction xs) auto
  then show ?case using Suc by (simp add: byRank_Suc)
qed

lemma filter_byRank: "filter (\<lambda>x. f x = k) (byRank f xs m) = (if k < m then filter (\<lambda>x. f x = k) xs else [])"
proof (induction m)
  case 0
  then show ?case by (simp add: byRank_def)
next
  case (Suc m)
  have "filter (\<lambda>x. f x = k) (filter (\<lambda>x. f x = m) xs) = (if k = m then filter (\<lambda>x. f x = k) xs else [])"
    by (auto simp: filter_empty_conv intro: filter_cong)
  then show ?case using Suc by (simp add: byRank_Suc)
qed

lemma sorted_byRank: "sorted (map f (byRank f xs m))"
proof (induction m)
  case 0
  then show ?case by (simp add: byRank_def)
next
  case (Suc m)
  have "\<forall>x\<in>set (byRank f xs m). f x < m" by (auto simp: byRank_def)
  moreover have "sorted (map f (filter (\<lambda>x. f x = m) xs))" by (induction xs) auto
  ultimately show ?case using Suc by (fastforce simp: byRank_Suc sorted_append)
qed

lemma sort_key_byRank:
  assumes "\<forall>x\<in>set xs. f x < m"
  shows "sort_key f xs = byRank f xs m"
proof (rule properties_for_sort_key)
  have "filter (\<lambda>x. f x < m) xs = xs" using assms by simp
  then show "mset (byRank f xs m) = mset xs" by (simp add: mset_byRank)
  show "filter (\<lambda>x. f k = f x) (byRank f xs m) = filter (\<lambda>x. f k = f x) xs" if "k \<in> set (byRank f xs m)" for k
  proof -
    have "f k < m" using that by (auto simp: byRank_def)
    then show ?thesis using filter_byRank [of f "f k" xs m] by (simp add: eq_commute)
  qed
  show "sorted (map f (byRank f xs m))" by (rule sorted_byRank)
qed

section \<open>The order of the headers\<close>

text \<open>The reference: a stable sort of the real headers by the first key that names them.\<close>

definition keyRank :: "string list \<Rightarrow> reqHeader \<Rightarrow> nat" where
  "keyRank keys h = (case findIndex (strcaseeq (rh_name h)) keys of None \<Rightarrow> length keys | Some k \<Rightarrow> k)"

definition orderSpec :: "reqHeader list \<Rightarrow> error + reqHeader list" where
  "orderSpec hs =
     (case findIndex isOrderKey hs of
        None \<Rightarrow> Inr hs
      | Some i \<Rightarrow>
          (let keys = orderKeys (rh_value (hs ! i)); real = filter (\<lambda>h. \<not> rh_isPseudo h) (take i hs @ drop (Suc i) hs)
           in if \<exists>h\<in>set real. \<not> strcaseeq (rh_name h) ''connection'' \<and> (\<forall>k\<in>set keys. \<not> strcaseeq (rh_name h) k)
              then Inl ERR_REQUEST_HEADER_ORDER_KEY_MISSING_HEADER
              else Inr (filter rh_isPseudo hs @ sort_key (keyRank keys) real)))"

lemma keyRank_le: "keyRank keys h \<le> length keys"
  using findIndex_SomeD [of "strcaseeq (rh_name h)" keys] by (fastforce simp: keyRank_def split: option.split)

lemma keyRank_eq:
  "k < length keys \<Longrightarrow> keyRank keys h = k \<longleftrightarrow> strcaseeq (rh_name h) (keys ! k) \<and> (\<forall>j<k. \<not> strcaseeq (rh_name h) (keys ! j))"
  using findIndex_iff [of "strcaseeq (rh_name h)" keys k] by (auto simp: keyRank_def split: option.split)

lemma keyRank_match: "j < length keys \<Longrightarrow> strcaseeq (rh_name h) (keys ! j) \<Longrightarrow> keyRank keys h \<le> j"
  using findIndex_SomeD [of "strcaseeq (rh_name h)" keys] findIndex_None [of "strcaseeq (rh_name h)" keys]
  by (cases "findIndex (strcaseeq (rh_name h)) keys") (auto simp: keyRank_def not_less [symmetric])

lemma keyRank_less: "k \<le> length keys \<Longrightarrow> keyRank keys h < k \<longleftrightarrow> (\<exists>j<k. strcaseeq (rh_name h) (keys ! j))"
  using keyRank_eq [of "keyRank keys h" keys h] keyRank_match [of _ keys h] by (meson le_less_trans less_le_trans)

lemma keyRank_none: "keyRank keys h = length keys \<longleftrightarrow> (\<forall>k\<in>set keys. \<not> strcaseeq (rh_name h) k)"
  using findIndex_SomeD [of "strcaseeq (rh_name h)" keys] findIndex_None [of "strcaseeq (rh_name h)" keys]
  by (fastforce simp: keyRank_def split: option.split)

definition realIdx :: "reqHeader list \<Rightarrow> nat \<Rightarrow> nat list" where
  "realIdx hs i = filter (\<lambda>j. \<not> rh_isPseudo (hs ! j) \<and> j \<noteq> i) [0..<length hs]"

lemma map_realIdx:
  assumes "i < length hs"
  shows "map (\<lambda>j. hs ! j) (realIdx hs i) = filter (\<lambda>h. \<not> rh_isPseudo h) (take i hs @ drop (Suc i) hs)"
proof -
  have "[0..<length hs] = [0..<i] @ i # [Suc i..<length hs]"
    using assms upt_add_eq_append [of 0 i "length hs - i"] by (simp add: upt_conv_Cons)
  moreover have "filter (\<lambda>j. \<not> rh_isPseudo (hs ! j) \<and> j \<noteq> i) [0..<i] = filter (\<lambda>j. \<not> rh_isPseudo (hs ! j)) [0..<i]"
    "filter (\<lambda>j. \<not> rh_isPseudo (hs ! j) \<and> j \<noteq> i) [Suc i..<length hs] = filter (\<lambda>j. \<not> rh_isPseudo (hs ! j)) [Suc i..<length hs]"
    by (auto intro!: filter_cong)
  ultimately have e: "realIdx hs i = filter (\<lambda>j. \<not> rh_isPseudo (hs ! j)) ([0..<i] @ [Suc i..<length hs])"
    by (simp add: realIdx_def)
  have "map (\<lambda>j. hs ! j) (filter (\<lambda>j. \<not> rh_isPseudo (hs ! j)) js) = filter (\<lambda>h. \<not> rh_isPseudo h) (map (\<lambda>j. hs ! j) js)" for js
    by (simp add: filter_map comp_def)
  then have "map (\<lambda>j. hs ! j) (realIdx hs i) = filter (\<lambda>h. \<not> rh_isPseudo h) (map (\<lambda>j. hs ! j) [0..<i] @ map (\<lambda>j. hs ! j) [Suc i..<length hs])"
    unfolding e map_append [symmetric] .
  moreover have "map (\<lambda>j. hs ! j) [0..<i] = take i hs" using assms by (intro nth_equalityI) simp_all
  moreover have "map (\<lambda>j. hs ! j) [Suc i..<length hs] = drop (Suc i) hs" by (intro nth_equalityI) simp_all
  ultimately show ?thesis by simp
qed

text \<open>After the first \<open>k\<close> keys the headers of rank below \<open>k\<close> are out and marked.\<close>

lemma takeKey_fold:
  assumes "k \<le> length keys"
  shows "fst (fold (takeKey hs i) (take k keys) (pre, [])) = pre @ map (\<lambda>j. hs ! j) (byRank (\<lambda>j. keyRank keys (hs ! j)) (realIdx hs i) k)
    \<and> set (snd (fold (takeKey hs i) (take k keys) (pre, []))) = {j \<in> set (realIdx hs i). keyRank keys (hs ! j) < k}"
  using assms
proof (induction k)
  case 0
  then show ?case by (simp add: byRank_def)
next
  case (Suc k)
  then have k: "k < length keys" by simp
  obtain out matched where st: "fold (takeKey hs i) (take k keys) (pre, []) = (out, matched)" by fastforce
  then have ih: "out = pre @ map (\<lambda>j. hs ! j) (byRank (\<lambda>j. keyRank keys (hs ! j)) (realIdx hs i) k)"
    "set matched = {j \<in> set (realIdx hs i). keyRank keys (hs ! j) < k}" using Suc by simp_all
  have lt: "keyRank keys h < k \<longleftrightarrow> (\<exists>j<k. strcaseeq (rh_name h) (keys ! j))" for h
    using k by (intro keyRank_less) simp
  have found: "filter (\<lambda>j. \<not> rh_isPseudo (hs ! j) \<and> j \<noteq> i \<and> j \<notin> set matched \<and> strcaseeq (rh_name (hs ! j)) (keys ! k)) [0..<length hs]
     = filter (\<lambda>j. keyRank keys (hs ! j) = k) (realIdx hs i)"
    unfolding realIdx_def filter_filter
  proof (rule filter_cong [OF refl], goal_cases)
    case (1 j)
    then have "j \<in> set matched \<longleftrightarrow> \<not> rh_isPseudo (hs ! j) \<and> j \<noteq> i \<and> keyRank keys (hs ! j) < k" by (auto simp: ih(2) realIdx_def)
    then show ?case using lt [of "hs ! j"] keyRank_eq [OF k, of "hs ! j"] by blast
  qed
  have "fold (takeKey hs i) (take (Suc k) keys) (pre, []) = takeKey hs i (keys ! k) (out, matched)"
    using st by (simp add: take_Suc_conv_app_nth [OF k])
  then have r: "fold (takeKey hs i) (take (Suc k) keys) (pre, [])
     = (out @ map (\<lambda>j. hs ! j) (filter (\<lambda>j. keyRank keys (hs ! j) = k) (realIdx hs i)), matched @ filter (\<lambda>j. keyRank keys (hs ! j) = k) (realIdx hs i))"
    unfolding takeKey_def prod.case Let_def found .
  have "set (matched @ filter (\<lambda>j. keyRank keys (hs ! j) = k) (realIdx hs i)) = {j \<in> set (realIdx hs i). keyRank keys (hs ! j) < Suc k}"
    by (simp only: set_append set_filter ih(2) less_Suc_eq) blast
  then show ?case unfolding r fst_conv snd_conv byRank_Suc map_append ih(1) append_assoc by blast
qed

lemma header_order_spec: "reorderHeadersByOrderKey hs = orderSpec hs"
proof (cases "findIndex isOrderKey hs")
  case None
  then show ?thesis by (simp add: reorderHeadersByOrderKey_def orderSpec_def)
next
  case (Some i)
  then have i: "i < length hs" "isOrderKey (hs ! i)" using findIndex_SomeD by auto
  define keys where "keys = orderKeys (rh_value (hs ! i))"
  define real where "real = filter (\<lambda>h. \<not> rh_isPseudo h) (take i hs @ drop (Suc i) hs)"
  have real: "map (\<lambda>j. hs ! j) (realIdx hs i) = real" using map_realIdx [OF i(1)] by (simp add: real_def)
  define missing where "missing = (\<exists>h\<in>set real. \<not> strcaseeq (rh_name h) ''connection'' \<and> (\<forall>k\<in>set keys. \<not> strcaseeq (rh_name h) k))"
  have m: "list_ex (\<lambda>j. \<not> (rh_isPseudo (hs ! j) \<or> j = i \<or> strcaseeq (rh_name (hs ! j)) ''connection'')
      \<and> \<not> list_ex (strcaseeq (rh_name (hs ! j))) keys) [0..<length hs] = missing"
    unfolding missing_def real [symmetric] by (auto simp: list_ex_iff realIdx_def)
  show ?thesis
  proof (cases missing)
    case True
    then show ?thesis using Some m by (simp add: reorderHeadersByOrderKey_def orderSpec_def Let_def keys_def real_def missing_def)
  next
    case False
    obtain out matched where f: "fold (takeKey hs i) keys (filter rh_isPseudo hs, []) = (out, matched)" by fastforce
    have o: "out = filter rh_isPseudo hs @ map (\<lambda>j. hs ! j) (byRank (\<lambda>j. keyRank keys (hs ! j)) (realIdx hs i) (length keys))"
      "set matched = {j \<in> set (realIdx hs i). keyRank keys (hs ! j) < length keys}"
      using takeKey_fold [of "length keys" keys hs i "filter rh_isPseudo hs"] f by simp_all
    have rest: "filter (\<lambda>j. \<not> (rh_isPseudo (hs ! j) \<or> j = i \<or> j \<in> set matched) \<and> strcaseeq (rh_name (hs ! j)) ''connection'') [0..<length hs]
      = filter (\<lambda>j. keyRank keys (hs ! j) = length keys) (realIdx hs i)"
      unfolding realIdx_def filter_filter
    proof (rule filter_cong [OF refl], goal_cases)
      case (1 j)
      show ?case
      proof (cases "\<not> rh_isPseudo (hs ! j) \<and> j \<noteq> i")
        case True
        then have j: "j \<in> set (realIdx hs i)" using 1 by (simp add: realIdx_def)
        then have "hs ! j \<in> set real" unfolding real [symmetric] by simp
        then have "keyRank keys (hs ! j) = length keys \<longrightarrow> strcaseeq (rh_name (hs ! j)) ''connection''"
          using False keyRank_none by (auto simp: missing_def)
        then show ?thesis using True j o(2) keyRank_le [of keys "hs ! j"] by auto
      qed auto
    qed
    have "map (\<lambda>j. hs ! j) (byRank (\<lambda>j. keyRank keys (hs ! j)) (realIdx hs i) (Suc (length keys))) = byRank (keyRank keys) real (Suc (length keys))"
      by (simp add: byRank_def real [symmetric] map_concat filter_map comp_def)
    then have "out @ map (\<lambda>j. hs ! j) (filter (\<lambda>j. keyRank keys (hs ! j) = length keys) (realIdx hs i))
      = filter rh_isPseudo hs @ byRank (keyRank keys) real (Suc (length keys))"
      by (simp add: o(1) byRank_Suc)
    moreover have "sort_key (keyRank keys) real = byRank (keyRank keys) real (Suc (length keys))"
      using keyRank_le by (intro sort_key_byRank) (simp add: less_Suc_eq_le)
    ultimately show ?thesis
      unfolding reorderHeadersByOrderKey_def orderSpec_def Some option.case Let_def keys_def [symmetric] real_def [symmetric]
        missing_def [symmetric] m f prod.case rest using False by simp
  qed
qed

text \<open>C20. Reordering by X-HeaderOrderKey is a stable sort: the pseudo headers come first in their order,
  then every other header (the order key itself excepted) sorted by the first listed name that
  matches its own, headers of one name in their original order and an unlisted \<open>connection\<close> last;
  nothing is lost or doubled, and it fails exactly when another header is not listed.\<close>

theorem header_order_correct:
  "reorderHeadersByOrderKey hs =
     (case findIndex isOrderKey hs of
        None \<Rightarrow> Inr hs
      | Some i \<Rightarrow>
          (let keys = orderKeys (rh_value (hs ! i)); real = filter (\<lambda>h. \<not> rh_isPseudo h) (take i hs @ drop (Suc i) hs)
           in if \<exists>h\<in>set real. \<not> strcaseeq (rh_name h) ''connection'' \<and> \<not> (\<exists>k\<in>set keys. strcaseeq (rh_name h) k)
              then Inl ERR_REQUEST_HEADER_ORDER_KEY_MISSING_HEADER
              else Inr (filter rh_isPseudo hs @ sort_key (keyRank keys) real)))"
  unfolding header_order_spec orderSpec_def bex_simps ball_simps by simp

end
