(* ===== verification/CookieProps.thy ===== *)
theory CookieProps
  imports HeaderOrder Http11RequestProps
begin

text \<open>
  What becomes of a \<open>Cookie\<close> header: \<open>processCookies\<close> of \<open>src/Basket.c\<close> splits it into crumbs, one header
  each over HTTP/2; the name and value pairs survive while no value is longer than the profile allows.
\<close>

section \<open>Cookies\<close>

definition cookiePair :: "string \<Rightarrow> (string \<times> string) option" where
  "cookiePair token = map_option (\<lambda>(name, r). (name, drop 1 r)) (strchr (trimSpaces token) (CHR ''=''))"

lemma cookieChunks_concat: "0 < m \<Longrightarrow> concat (cookieChunks m v) = v \<and> (\<forall>c\<in>set (cookieChunks m v). length c \<le> m)"
proof (induction m v rule: cookieChunks.induct)
  case (1 m v)
  have e: "cookieChunks m v = (if v = [] then [] else take m v # cookieChunks m (drop m v))"
    using 1(2) by (subst cookieChunks.simps) simp
  show ?case using 1 unfolding e by (cases "v = []") auto
qed

lemma cookieCrumbs_pair:
  assumes "0 < m" "cookiePair token = Some (name, v)"
  shows "\<exists>cs. cookieCrumbs m token = map (\<lambda>c. name @ ''='' @ c) cs \<and> concat cs = v \<and> (\<forall>c\<in>set cs. length c \<le> m)"
proof -
  obtain r where r: "strchr (trimSpaces token) (CHR ''='') = Some (name, r)" "v = drop 1 r"
    using assms(2) by (auto simp: cookiePair_def)
  show ?thesis
  proof (cases "length v \<le> m")
    case True
    then show ?thesis using r by (intro exI [of _ "[v]"]) (simp add: cookieCrumbs_def Let_def)
  next
    case False
    then show ?thesis using r cookieChunks_concat [OF assms(1), of v]
      by (intro exI [of _ "cookieChunks m v"]) (simp add: cookieCrumbs_def Let_def)
  qed
qed

lemma cookieCrumbs_short:
  "cookiePair token = Some (name, v) \<Longrightarrow> length v \<le> m \<Longrightarrow> cookieCrumbs m token = [name @ ''='' @ v]"
  by (auto simp: cookiePair_def cookieCrumbs_def Let_def)

text \<open>A cookie as a browser writes it: no semicolon, no space at its ends, a name and an equals sign.\<close>

definition cookieOk :: "nat \<Rightarrow> string \<times> string \<Rightarrow> bool" where
  "cookieOk m kv \<longleftrightarrow> CHR '';'' \<notin> set (fst kv) \<and> CHR '';'' \<notin> set (snd kv) \<and> CHR ''='' \<notin> set (fst kv)
     \<and> fst kv \<noteq> [] \<and> hd (fst kv) \<noteq> CHR '' '' \<and> (snd kv \<noteq> [] \<longrightarrow> last (snd kv) \<noteq> CHR '' '') \<and> length (snd kv) \<le> m"

definition cookieText :: "string \<times> string \<Rightarrow> string" where
  "cookieText kv = fst kv @ ''='' @ snd kv"

lemma trimSpaces_cookie:
  assumes "cookieOk m kv"
  shows "trimSpaces (cookieText kv) = cookieText kv" "trimSpaces (CHR '' '' # cookieText kv) = cookieText kv"
proof -
  obtain c cs where n: "fst kv = c # cs" "c \<noteq> CHR '' ''" using assms by (cases "fst kv") (auto simp: cookieOk_def)
  have "last (cookieText kv) \<noteq> CHR '' ''" using assms by (auto simp: cookieText_def cookieOk_def n(1))
  then have "dropWhile (\<lambda>c. c = CHR '' '') (rev (cookieText kv)) = rev (cookieText kv)"
    by (cases "rev (cookieText kv)") (simp_all add: hd_rev [symmetric])
  moreover have "dropWhile (\<lambda>c. c = CHR '' '') (cookieText kv) = cookieText kv" using n by (simp add: cookieText_def)
  ultimately show "trimSpaces (cookieText kv) = cookieText kv" "trimSpaces (CHR '' '' # cookieText kv) = cookieText kv"
    by (simp_all add: trimSpaces_def Let_def)
qed

lemma cookiePair_ok:
  assumes "cookieOk m kv"
  shows "cookiePair (cookieText kv) = Some kv" "cookiePair (CHR '' '' # cookieText kv) = Some kv"
proof -
  have "CHR ''='' \<notin> set (fst kv)" using assms by (simp add: cookieOk_def)
  from strchr_append [OF this, of "snd kv"] have "strchr (cookieText kv) (CHR ''='') = Some (fst kv, CHR ''='' # snd kv)"
    by (simp add: cookieText_def)
  then show "cookiePair (cookieText kv) = Some kv" "cookiePair (CHR '' '' # cookieText kv) = Some kv"
    by (simp_all add: cookiePair_def trimSpaces_cookie [OF assms])
qed

lemma cookieCrumbs_ok:
  "cookieOk m kv \<Longrightarrow> cookieCrumbs m (cookieText kv) = [cookieText kv] \<and> cookieCrumbs m (CHR '' '' # cookieText kv) = [cookieText kv]"
  using cookieCrumbs_short [of _ "fst kv" "snd kv" m] cookiePair_ok [of m kv] by (auto simp: cookieOk_def cookieText_def)

lemma cookieTokens_join:
  assumes "list_all (\<lambda>s. CHR '';'' \<notin> set s) ss" "ss \<noteq> []" "hd ss \<noteq> []"
  shows "cookieTokens (joinCookies ss) = hd ss # map (\<lambda>s. CHR '' '' # s) (tl ss)"
  using assms
proof (induction ss rule: joinCookies.induct)
  case (2 v)
  then show ?case by (subst cookieTokens.simps) (simp add: strchr_None [THEN iffD2])
next
  case (3 v w vs)
  have t: "cookieTokens (CHR '' '' # joinCookies (w # vs)) = map (\<lambda>s. CHR '' '' # s) (w # vs)" using 3(2)
  proof (induction vs arbitrary: w)
    case Nil
    then have "CHR '';'' \<notin> set (CHR '' '' # w)" by simp
    then show ?case by (subst cookieTokens.simps) (simp add: strchr_None [THEN iffD2])
  next
    case (Cons u us)
    have "CHR '';'' \<notin> set (CHR '' '' # w)" using Cons.prems by simp
    from strchr_append [OF this] show ?case
      using Cons by (subst cookieTokens.simps) simp
  qed
  have v: "CHR '';'' \<notin> set v" "v \<noteq> []" using 3(2,4) by simp_all
  have "strchr (v @ CHR '';'' # CHR '' '' # joinCookies (w # vs)) (CHR '';'') = Some (v, CHR '';'' # CHR '' '' # joinCookies (w # vs))"
    by (rule strchr_append [OF v(1)])
  then show ?case using t v(2) by (subst cookieTokens.simps) simp
qed simp

text \<open>Cookies survive: a Cookie text of name-value pairs, none longer than the limit, is taken apart
  into one header per pair, in order, with the name and value unchanged; and putting them together
  again, as the HTTP/1.1 request does, gives the text the caller passed.\<close>

theorem cookies_roundtrip:
  assumes "list_all (cookieOk m) kvs"
  shows "map rh_value (processCookies m (joinCookies (map cookieText kvs))) = map cookieText kvs
    \<and> countCookies m (Some (joinCookies (map cookieText kvs))) = length kvs
    \<and> mergeCookies [] (processCookies m (joinCookies (map cookieText kvs))) = joinCookies (map cookieText kvs)"
proof -
  have crumbs: "concat (map (cookieCrumbs m) (cookieTokens (joinCookies (map cookieText kvs)))) = map cookieText kvs"
  proof (cases kvs)
    case Nil
    then show ?thesis by (simp add: cookieTokens.simps)
  next
    case (Cons kv rest)
    have "list_all (\<lambda>s. CHR '';'' \<notin> set s) (map cookieText kvs)"
      using assms by (auto simp: list_all_iff cookieText_def cookieOk_def)
    then have t: "cookieTokens (joinCookies (map cookieText kvs)) = cookieText kv # map (\<lambda>s. CHR '' '' # s) (map cookieText rest)"
      using cookieTokens_join [of "map cookieText kvs"] Cons by (simp add: cookieText_def)
    have "concat (map (cookieCrumbs m) (map (\<lambda>s. CHR '' '' # s) (map cookieText rest))) = map cookieText rest"
      using assms unfolding Cons by (induction rest) (auto simp: cookieCrumbs_ok)
    then show ?thesis using assms unfolding t by (simp add: Cons cookieCrumbs_ok)
  qed
  have vs: "map rh_value (processCookies m (joinCookies (map cookieText kvs))) = map cookieText kvs"
    by (simp add: processCookies_def comp_def crumbs)
  have all: "list_all isCookie (processCookies m c)" for c by (simp add: processCookies_def list_all_iff isCookie_def)
  then have f: "filter isCookie (processCookies m (joinCookies (map cookieText kvs))) = processCookies m (joinCookies (map cookieText kvs))"
    by (auto simp: list_all_iff)
  have "list_all (\<lambda>h. isCookie h \<longrightarrow> rh_value h \<noteq> []) (processCookies m (joinCookies (map cookieText kvs)))"
    using crumbs by (auto simp: processCookies_def list_all_iff cookieText_def)
  from mergeCookies_join [OF this, of "[]"] have "mergeCookies [] (processCookies m (joinCookies (map cookieText kvs))) = joinCookies (map cookieText kvs)"
    using vs f by simp
  then show ?thesis using vs crumbs by (simp add: countCookies_def processCookies_def)
qed

lemma cookies_roundtrip_witness:
  "map rh_value (processCookies 4096 ''sid=1a2b; theme=; x=a=b'') = [''sid=1a2b'', ''theme='', ''x=a=b'']
    \<and> mergeCookies [] (processCookies 4096 ''sid=1a2b; theme=; x=a=b'') = ''sid=1a2b; theme=; x=a=b''"
proof -
  have "list_all (cookieOk 4096) [(''sid'', ''1a2b''), (''theme'', []), (''x'', ''a=b'')]" by (simp add: cookieOk_def)
  from cookies_roundtrip [OF this] show ?thesis by (simp add: cookieText_def)
qed

text \<open>A value above the limit becomes two cookies of the same name.\<close>

lemma long_cookie_corrupted:
  "map rh_value (processCookies 4 ''a=12345'') = [''a=1234'', ''a=5'']"
  by code_simp

end
