(* ===== verification/BasketProps.thy ===== *)
theory BasketProps
  imports CookieProps ProfileProps
begin

text \<open>
  What holds of every parsed request: the header array allocated by \<open>src/Basket.c\<close> suffices while at most
  one member is a cookie, and a basket without error holds a request that can be sent.
\<close>

section \<open>Room in the header array\<close>

text \<open>What jansson documents of scalars: a number printed holds no equals sign.\<close>

definition numbersPlain :: "'j jansson \<Rightarrow> bool" where
  "numbersPlain J \<longleftrightarrow> (\<forall>v s. js_isReal J v \<longrightarrow> js_dumpsAny J v = Some s \<longrightarrow> CHR ''='' \<notin> set s)"

lemma natToDec_chars: "c \<in> set (natToDec n) \<Longrightarrow> \<exists>d<10. c = char_of (48 + d :: nat)"
proof (induction n rule: natToDec.induct)
  case (1 n)
  show ?case
  proof (cases "n < 10")
    case True
    then show ?thesis using 1(2) by (subst (asm) natToDec.simps) auto
  next
    case False
    then have "c \<in> set (natToDec (n div 10)) \<or> c = char_of (48 + n mod 10)" using 1(2) by (subst (asm) natToDec.simps) auto
    then show ?thesis using 1(1) [OF False] by (metis mod_less_divisor zero_less_numeral)
  qed
qed

lemma intToDec_plain: "CHR ''='' \<notin> set (intToDec i)"
proof -
  have "char_of (48 + d :: nat) \<noteq> CHR ''=''" if "d < 10" for d
  proof -
    have "of_char (char_of (48 + d :: nat)) = 48 + d" using that by (simp add: of_char_of)
    then show ?thesis using that by force
  qed
  then have "CHR ''='' \<notin> set (natToDec n)" for n using natToDec_chars by metis
  then show ?thesis by (simp add: intToDec_def)
qed

lemma cookiePair_plain: "CHR ''='' \<notin> set token \<Longrightarrow> cookieCrumbs m token = []"
proof -
  assume "CHR ''='' \<notin> set token"
  moreover have "set (trimSpaces token) \<subseteq> set token"
    by (auto simp: trimSpaces_def Let_def dest!: set_dropWhileD)
  ultimately have "strchr (trimSpaces token) (CHR ''='') = None" by (auto simp: strchr_None)
  then show ?thesis by (simp add: cookieCrumbs_def Let_def)
qed

lemma cookieTokens_set: "t \<in> set (cookieTokens p) \<Longrightarrow> set t \<subseteq> set p"
proof (induction p rule: cookieTokens.induct)
  case (1 p)
  show ?case
  proof (cases "p = []")
    case True
    then show ?thesis using 1(2) by (simp add: cookieTokens.simps)
  next
    case False
    show ?thesis
    proof (cases "strchr p (CHR '';'')")
      case None
      then show ?thesis using 1(2) False by (subst (asm) cookieTokens.simps) simp
    next
      case (Some x)
      obtain token r where x: "x = (token, r)" by fastforce
      then have p: "p = token @ r" using Some strchr_Some [of p "CHR '';''" token r] by auto
      have "t = token \<or> t \<in> set (cookieTokens (drop 1 r))" using 1(2) False Some x by (subst (asm) cookieTokens.simps) simp
      then show ?thesis using 1(1) [OF False Some x [symmetric]] set_drop_subset [of 1 r] by (auto simp: p)
    qed
  qed
qed

lemma processCookies_plain: "CHR ''='' \<notin> set s \<Longrightarrow> processCookies m s = []"
  using cookieTokens_set [of _ s] cookiePair_plain by (fastforce simp: processCookies_def)

lemma cookie_member_count:
  assumes "numbersPlain J" "headerValueToString J v = Some s"
  shows "length (processCookies m s) \<le> countCookies m (js_string J v)"
proof (cases "js_string J v")
  case None
  have p: "CHR ''='' \<notin> set (take 63 t)" if "CHR ''='' \<notin> set t" for t using that by (auto dest: in_set_takeD)
  have "CHR ''='' \<notin> set s"
    using assms None p [OF intToDec_plain] p by (auto simp: headerValueToString_def numbersPlain_def split: if_splits)
  then show ?thesis by (simp add: processCookies_plain)
next
  case (Some t)
  then show ?thesis using assms(2) by (simp add: headerValueToString_def countCookies_def)
qed

definition isCookieKey :: "string \<times> 'j \<Rightarrow> bool" where
  "isCookieKey m \<longleftrightarrow> strcaseeq ''cookie'' (fst m)"

lemma members_room:
  assumes "\<forall>m\<in>set ms. length (f m) \<le> (if isCookieKey m then c m else 1)" "length (filter isCookieKey ms) \<le> 1"
  shows "length (concat (map f ms)) \<le> length ms + (case find isCookieKey ms of None \<Rightarrow> 0 | Some m \<Rightarrow> c m)"
  using assms
proof (induction ms)
  case (Cons m ms)
  have "\<forall>x\<in>set ms. \<not> isCookieKey x \<Longrightarrow> find isCookieKey ms = None" by (simp add: find_None_iff)
  then show ?case using Cons by (cases "isCookieKey m") (fastforce simp: filter_empty_conv)+
qed simp

lemma cookieCount_first:
  "js_isObject J h \<Longrightarrow> (case find isCookieKey (js_members J h) of None \<Rightarrow> 0 | Some m \<Rightarrow> countCookies n (js_string J (snd m))) = cookieCountOf J n h"
proof -
  assume o: "js_isObject J h"
  have p: "(\<lambda>(key, v). strcaseeq key ''cookie'') = (isCookieKey :: string \<times> 'a \<Rightarrow> bool)"
    by (auto simp: isCookieKey_def fun_eq_iff intro: strcaseeq_sym)
  show ?thesis using o by (simp add: cookieCountOf_def jsonHeaderGet_def p split: option.split)
qed

lemma http2Member_room:
  "numbersPlain J \<Longrightarrow> length (http2Member J n False m) \<le> (if isCookieKey m then countCookies n (js_string J (snd m)) else 1)"
  using cookie_member_count [of J "snd m"] by (auto simp: http2Member_def isCookieKey_def Let_def split: prod.splits option.splits)

lemma http2Member_given: "length (http2Member J n True m) \<le> 1"
  by (auto simp: http2Member_def Let_def split: prod.splits option.splits)

lemma http11Member_room:
  assumes "numbersPlain J"
  shows "length (http11Member J n b m) \<le> (if isCookieKey m then countCookies n (js_string J (snd m)) else 1)"
proof -
  have n: "strcaseeq a (fst m) \<Longrightarrow> isCookieKey m \<Longrightarrow> strcaseeq a ''cookie''" for a
    unfolding isCookieKey_def using strcaseeq_sym strcaseeq_trans by blast
  have "\<not> strcaseeq '':authority'' ''cookie''" "\<not> strcaseeq ''host'' ''cookie''" by code_simp+
  then show ?thesis using n cookie_member_count [OF assms, of "snd m"]
    by (auto simp: http11Member_def isCookieKey_def Let_def split: prod.splits option.splits)
qed

text \<open>C32. The header arrays are large enough: with at most one member named \<open>cookie\<close>, in any case,
  neither header builder writes past the array it allocated, whatever the members are.\<close>

theorem header_array_suffices:
  assumes "js_isObject J h" "numbersPlain J" "length (filter isCookieKey (js_members J h)) \<le> 1"
    and "case fp of None \<Rightarrow> True | Some fp \<Rightarrow> length (fp_pseudoHeaderOrder fp) = 4"
  shows "buildHttp2Headers J fp authority meth url h \<noteq> None \<and> buildHttp11Headers J fp h \<noteq> None"
proof -
  let ?n = "headerLimit fp" and ?ms = "js_members J h"
  have count: "(case find isCookieKey ?ms of None \<Rightarrow> 0 | Some m \<Rightarrow> countCookies ?n (js_string J (snd m))) = cookieCountOf J ?n h"
    by (rule cookieCount_first [OF assms(1)])
  have given: "length (concat (map (http2Member J ?n True) ms)) \<le> length ms" for ms
  proof (induction ms)
    case (Cons m ms)
    then show ?case using http2Member_given [of J ?n m] by simp
  qed simp
  have two: "length (concat (map (http2Member J ?n False) ?ms)) \<le> length ?ms + cookieCountOf J ?n h"
    unfolding count [symmetric] by (intro members_room ballI http2Member_room assms(2,3))
  have one: "length (concat (map (http11Member J ?n b) ?ms)) \<le> length ?ms + cookieCountOf J ?n h" for b
    unfolding count [symmetric] by (intro members_room ballI http11Member_room assms(2,3))
  have "length (case fp of None \<Rightarrow> [PSEUDO_METHOD, PSEUDO_AUTHORITY, PSEUDO_SCHEME, PSEUDO_PATH] | Some fp \<Rightarrow> fp_pseudoHeaderOrder fp) = 4"
    using assms(4) by (cases fp) simp_all
  then have "buildHttp2Headers J fp authority meth url h \<noteq> None"
    using given [of ?ms] two by (auto simp: buildHttp2Headers_def Let_def)
  moreover have "buildHttp11Headers J fp h \<noteq> None"
    using one [of "jsonHeaderGet J h '':authority'' \<noteq> None"] by (simp add: buildHttp11Headers_def Let_def)
  ultimately show ?thesis ..
qed


section \<open>A sample of jansson\<close>

datatype json = JNull | JTrue | JFalse | JInt int | JStr string | JObj "(string \<times> json) list"

definition members :: "json \<Rightarrow> (string \<times> json) list" where
  "members v = (case v of JObj ms \<Rightarrow> ms | _ \<Rightarrow> [])"

definition sampleJansson :: "(string \<Rightarrow> json option) \<Rightarrow> json jansson" where
  "sampleJansson loads =
     \<lparr>js_loads = loads, js_get = (\<lambda>v. map_of (members v)), js_members = members,
      js_string = (\<lambda>v. case v of JStr s \<Rightarrow> Some s | _ \<Rightarrow> None), js_integer = (\<lambda>v. case v of JInt i \<Rightarrow> i | _ \<Rightarrow> 0),
      js_isInteger = (\<lambda>v. case v of JInt i \<Rightarrow> True | _ \<Rightarrow> False), js_isReal = (\<lambda>v. False),
      js_isBoolean = (\<lambda>v. v = JTrue \<or> v = JFalse), js_isTrue = (\<lambda>v. v = JTrue),
      js_isObject = (\<lambda>v. case v of JObj ms \<Rightarrow> True | _ \<Rightarrow> False), js_dumps = (\<lambda>v. None), js_dumpsAny = (\<lambda>v. None)\<rparr>"

lemma sampleJansson_plain: "numbersPlain (sampleJansson loads)"
  by (simp add: numbersPlain_def sampleJansson_def)

lemma header_array_suffices_witness:
  "buildHttp2Headers (sampleJansson Map.empty) None ''h'' ''GET'' noComponents (JObj [(''User-Agent'', JStr ''x''), (''Cookie'', JStr ''a=1; b=2; c=3'')]) \<noteq> None"
proof -
  let ?h = "JObj [(''User-Agent'', JStr ''x''), (''Cookie'', JStr ''a=1; b=2; c=3'')]"
  have "js_isObject (sampleJansson Map.empty) ?h" "length (filter isCookieKey (js_members (sampleJansson Map.empty) ?h)) \<le> 1"
    by code_simp+
  then show ?thesis using header_array_suffices [OF _ sampleJansson_plain, of Map.empty ?h None "''h''" "''GET''" noComponents] by simp
qed

text \<open>With two members named cookie the cookies of the second are not counted: the array overflows.\<close>

lemma second_cookie_overflows:
  "buildHttp2Headers (sampleJansson Map.empty) None ''h'' ''GET'' noComponents
     (JObj [(''cookie'', JStr []), (''Cookie'', JStr ''a=1;b=2;c=3;d=4'')]) = None"
  by code_simp

section \<open>Baskets without error\<close>

lemma whenOk_ok: "whenOk f b = Some b' \<Longrightarrow> \<not> failed (rb_error b') \<Longrightarrow> \<not> failed (rb_error b) \<and> f b = Some b'"
  by (auto simp: whenOk_def split: if_splits)

lemma parseUrlField_ok:
  "parseUrlField J j b = Some b' \<Longrightarrow> \<not> failed (rb_error b') \<Longrightarrow>
     \<exists>url c. b' = b\<lparr>rb_url := Some url, rb_components := c\<rparr> \<and> parseUrl (Some url) = Some (Inr c)"
  by (auto simp: parseUrlField_def fail_def Let_def split: option.splits sum.splits)

lemma parseMethod_ok:
  "parseMethod J j b = Some b' \<Longrightarrow> \<not> failed (rb_error b') \<Longrightarrow> \<exists>m\<in>set httpMethods. b' = b\<lparr>rb_method := Some m\<rparr>"
  by (auto simp: parseMethod_def fail_def split: option.splits dest: find_in)

lemma not_failed_choice:
  "\<not> failed (rb_error (if P then a else if Q then c else e)) \<Longrightarrow> failed (rb_error e) \<Longrightarrow>
     (if P then a else if Q then c else e) = a \<or> (if P then a else if Q then c else e) = c"
  by (simp split: if_splits)

lemma parseSession_ok:
  assumes "\<not> failed (rb_error (parseSession J j b))"
  shows "\<exists>x f. parseSession J j b = b\<lparr>rb_sessionExpiration := x, rb_forceHttp11 := f\<rparr>"
proof (cases "jgetq J j ''session''")
  case None
  then show ?thesis by (intro exI [of _ "rb_sessionExpiration b"] exI [of _ "rb_forceHttp11 b"]) (simp add: parseSession_def)
next
  case (Some s)
  define x where "x = (if js_get J s ''expirationInMilliseconds'' \<noteq> None
     then toInt32 (jintq J (js_get J s ''expirationInMilliseconds'')) else rb_sessionExpiration b)"
  have x: "(if js_get J s ''expirationInMilliseconds'' \<noteq> None
     then b\<lparr>rb_sessionExpiration := toInt32 (jintq J (js_get J s ''expirationInMilliseconds''))\<rparr> else b) = b\<lparr>rb_sessionExpiration := x\<rparr>"
    by (simp add: x_def)
  let ?b = "b\<lparr>rb_sessionExpiration := x\<rparr>"
  have "parseSession J j b = ?b \<or> parseSession J j b = ?b\<lparr>rb_forceHttp11 := True\<rparr> \<or> parseSession J j b = ?b\<lparr>rb_forceHttp11 := False\<rparr>"
  proof (cases "js_get J s ''protocol''")
    case None
    then show ?thesis unfolding parseSession_def Some option.case Let_def x by simp
  next
    case (Some protocol)
    note unfolded = assms [unfolded parseSession_def \<open>jgetq J j ''session'' = Some s\<close> option.case Let_def x fail_def Some]
    show ?thesis
    proof (cases "js_string J protocol")
      case None
      then show ?thesis using unfolded by simp
    next
      case (Some str)
      show ?thesis unfolding parseSession_def \<open>jgetq J j ''session'' = Some s\<close> option.case Let_def x fail_def
          \<open>js_get J s ''protocol'' = Some protocol\<close> Some
        by (rule disjI2, rule not_failed_choice, use unfolded in \<open>simp only: Some option.case\<close>) simp_all
    qed
  qed
  moreover have "?b = b\<lparr>rb_sessionExpiration := x, rb_forceHttp11 := rb_forceHttp11 b\<rparr>" by simp
  ultimately show ?thesis by metis
qed

lemma profile_ids: "fp \<in> set allProfiles \<Longrightarrow> strncpyField 64 (fp_clientHelloId fp) = fp_clientHelloId fp"
  by (auto simp: allProfiles_def BROWSER_FAMILIES_def CHROME_FAMILY_def CRIOS_FAMILY_def CHROME_FINGERPRINT_150_def
      CHROME_FINGERPRINT_151_def CHROME_FINGERPRINT_152_def CHROME_FINGERPRINT_COMMON_def CRIOS_FINGERPRINT_150_def strncpyField_def)

lemma selectProfile_ok:
  assumes "\<not> failed (rb_error (selectProfile i ua b))"
  shows "\<exists>t. \<exists>fp\<in>set allProfiles. selectProfile i ua b = b\<lparr>rb_browserType := t, rb_fingerprint := Some fp, rb_clientHelloId := fp_clientHelloId fp\<rparr>"
proof (cases i)
  case None
  have "getBrowserFingerprint (detectBrowseType ua) \<in> set allProfiles" by (rule selected_profile [OF disjI2 [OF refl]])
  then show ?thesis using assms None profile_ids
    by (auto simp: selectProfile_def Let_def split: if_splits intro!: exI [of _ "detectBrowseType ua"] bexI [of _ "getBrowserFingerprint (detectBrowseType ua)"])
next
  case (Some c)
  then obtain fp where fp: "getBrowserFingerprintById c (Some ua) = Some fp"
    using assms by (auto simp: selectProfile_def Let_def fail_def split: if_splits option.splits)
  then have "fp \<in> set allProfiles" by (intro selected_profile [OF disjI1])
  then show ?thesis using assms Some fp profile_ids
    by (auto simp: selectProfile_def Let_def split: if_splits intro!: exI [of _ "browserTypeFromClientHelloId c"] bexI [of _ fp])
qed


lemma reorder_pseudo: "reorderHeadersByOrderKey hs = Inr hs' \<Longrightarrow> filter rh_isPseudo hs' = filter rh_isPseudo hs"
proof -
  have "filter rh_isPseudo (sort_key f (filter (\<lambda>h. \<not> rh_isPseudo h) xs)) = []" for f :: "reqHeader \<Rightarrow> nat" and xs
    by (auto simp: filter_empty_conv)
  then show "reorderHeadersByOrderKey hs = Inr hs' \<Longrightarrow> filter rh_isPseudo hs' = filter rh_isPseudo hs"
    unfolding header_order_spec by (auto simp: orderSpec_def Let_def filter_empty_conv split: option.splits if_splits)
qed

lemma http2Member_real: "filter rh_isPseudo (http2Member J n False m) = []"
  by (auto simp: http2Member_def processCookies_def realHeader_def filter_empty_conv Let_def split: prod.splits option.splits)

lemma buildHttp2Headers_pseudo:
  assumes "buildHttp2Headers J (Some fp) authority meth url h = Some (hs, cl)" "\<exists>n\<in>set pseudoNames. jsonHeaderGet J h n = None"
  shows "filter rh_isPseudo hs = map (pseudoHeader authority meth url) (fp_pseudoHeaderOrder fp)"
proof -
  have "list_all (\<lambda>n. jsonHeaderGet J h n \<noteq> None) pseudoNames = False" using assms(2) by (auto simp: list_all_iff)
  then have "hs = map (pseudoHeader authority meth url) (fp_pseudoHeaderOrder fp) @ concat (map (http2Member J (headerLimit (Some fp)) False) (js_members J h))"
    using assms(1) by (simp add: buildHttp2Headers_def Let_def split: if_splits)
  moreover have "filter rh_isPseudo (concat (map (http2Member J n False) ms)) = []" for n ms
    using http2Member_real [of J n] by (induction ms) auto
  moreover have "rh_isPseudo (pseudoHeader authority meth url t)" for t by (simp add: pseudoHeader_def split: pseudoHeaderType.split)
  ultimately show ?thesis by simp
qed

definition pseudoReady :: "'j jansson \<Rightarrow> (string \<Rightarrow> bool) \<Rightarrow> (string \<Rightarrow> bool) \<Rightarrow> 'j \<Rightarrow> requestBasket \<Rightarrow> bool" where
  "pseudoReady J ipv4 ipv6 h b \<longleftrightarrow>
     (\<forall>fp. rb_fingerprint b = Some fp \<longrightarrow> \<not> rb_forceHttp11 b \<longrightarrow> (\<exists>n\<in>set pseudoNames. jsonHeaderGet J h n = None) \<longrightarrow>
        filter rh_isPseudo (rb_headers b) = map (pseudoHeader (getHeaderAuthority ipv4 ipv6 (uc_host (rb_components b)) (uc_port (rb_components b)))
          (case rb_method b of None \<Rightarrow> [] | Some m \<Rightarrow> m) (rb_components b)) (fp_pseudoHeaderOrder fp))"

lemma buildHeaders_ok:
  assumes "buildHeaders J ipv4 ipv6 h b = Some b'" "\<not> failed (rb_error b')"
  shows "\<exists>hs cl. b' = b\<lparr>rb_headers := hs, rb_containsContentLength := cl\<rparr> \<and> pseudoReady J ipv4 ipv6 h b'"
proof -
  let ?authority = "getHeaderAuthority ipv4 ipv6 (uc_host (rb_components b)) (uc_port (rb_components b))"
  let ?built = "if rb_forceHttp11 b then buildHttp11Headers J (rb_fingerprint b) h
    else buildHttp2Headers J (rb_fingerprint b) ?authority (case rb_method b of None \<Rightarrow> [] | Some m \<Rightarrow> m) (rb_components b) h"
  have no: "failed ERR_REQUEST_HEADER_ORDER_KEY_MISSING_HEADER" by simp
  obtain hs cl where built: "?built = Some (hs, cl)" using assms(1) by (auto simp: buildHeaders_def Let_def split: option.splits)
  show ?thesis
  proof (cases "reorderHeadersByOrderKey hs")
    case (Inl e)
    then have "e = ERR_REQUEST_HEADER_ORDER_KEY_MISSING_HEADER"
      by (auto simp: header_order_spec orderSpec_def Let_def split: option.splits if_splits)
    then show ?thesis using assms Inl built no unfolding buildHeaders_def Let_def by auto
  next
    case (Inr ordered)
    then have b': "b' = b\<lparr>rb_headers := ordered, rb_containsContentLength := cl\<rparr>"
      using assms(1) built unfolding buildHeaders_def Let_def by auto
    moreover have "pseudoReady J ipv4 ipv6 h b'"
      unfolding pseudoReady_def
    proof (intro allI impI)
      fix fp
      assume a: "rb_fingerprint b' = Some fp" "\<not> rb_forceHttp11 b'" "\<exists>n\<in>set pseudoNames. jsonHeaderGet J h n = None"
      then have "buildHttp2Headers J (Some fp) ?authority (case rb_method b of None \<Rightarrow> [] | Some m \<Rightarrow> m) (rb_components b) h = Some (hs, cl)"
        using built by (simp add: b')
      from buildHttp2Headers_pseudo [OF this a(3)] show "filter rh_isPseudo (rb_headers b') = map (pseudoHeader (getHeaderAuthority ipv4 ipv6
          (uc_host (rb_components b')) (uc_port (rb_components b'))) (case rb_method b' of None \<Rightarrow> [] | Some m \<Rightarrow> m) (rb_components b')) (fp_pseudoHeaderOrder fp)"
        using reorder_pseudo [OF Inr] by (simp add: b')
    qed
    ultimately show ?thesis by blast
  qed
qed

definition payloadReady :: "'j jansson \<Rightarrow> 'j \<Rightarrow> requestBasket \<Rightarrow> bool" where
  "payloadReady J h b \<longleftrightarrow> (\<forall>p. rb_payload b = Some p \<longrightarrow> rb_containsContentLength b
     \<and> (\<forall>l. jstrq J (jsonHeaderGet J h ''content-length'') = Some l \<longrightarrow> fst (strtol 10 l) = int (length p)))"

lemma parsePayload_ok:
  assumes "parsePayload J j b = Some b'" "\<not> failed (rb_error b')" "jgetq J j ''headers'' = Some h"
  shows "\<exists>p. b' = b\<lparr>rb_payload := p\<rparr> \<and> payloadReady J h b'"
proof (cases "jgetq J j ''payload''")
  case None
  then show ?thesis using assms(1) by (auto simp: parsePayload_def payloadReady_def)
next
  case (Some v)
  then obtain p where p: "(if js_string J v \<noteq> None then js_string J v else js_dumps J v) = Some p"
    using assms(1) by (auto simp: parsePayload_def split: option.splits)
  then have "b' = b\<lparr>rb_payload := Some p\<rparr> \<and> rb_containsContentLength b
    \<and> (\<forall>l. jstrq J (jsonHeaderGet J h ''content-length'') = Some l \<longrightarrow> fst (strtol 10 l) \<ge> 0 \<and> nat (fst (strtol 10 l)) = length p)"
    using assms unfolding parsePayload_def Some option.case p Let_def assms(3) fail_def
    by (auto split: if_splits option.splits)
  then show ?thesis by (auto simp: payloadReady_def)
qed

lemma parseHeaders_ok:
  assumes "parseHeaders J ipv4 ipv6 j b = Some b'" "\<not> failed (rb_error b')"
  shows "\<exists>h t hs cl. \<exists>fp\<in>set allProfiles. jgetq J j ''headers'' = Some h \<and> pseudoReady J ipv4 ipv6 h b'
    \<and> b' = b\<lparr>rb_browserType := t, rb_fingerprint := Some fp, rb_clientHelloId := fp_clientHelloId fp, rb_headers := hs, rb_containsContentLength := cl\<rparr>"
proof -
  obtain h ua where h: "jgetq J j ''headers'' = Some h"
    "(let b = selectProfile (jstrq J (jgetq J (jgetq J j ''session'') ''clientHelloId'')) ua b
      in if failed (rb_error b) then Some b else buildHeaders J ipv4 ipv6 h b) = Some b'"
    using assms by (auto simp: parseHeaders_def fail_def split: option.splits)
  let ?b = "selectProfile (jstrq J (jgetq J (jgetq J j ''session'') ''clientHelloId'')) ua b"
  have ok: "\<not> failed (rb_error ?b)" "buildHeaders J ipv4 ipv6 h ?b = Some b'" using h(2) assms(2) by (auto simp: Let_def split: if_splits)
  from selectProfile_ok [OF ok(1)] obtain t fp where fp: "fp \<in> set allProfiles"
    "?b = b\<lparr>rb_browserType := t, rb_fingerprint := Some fp, rb_clientHelloId := fp_clientHelloId fp\<rparr>" by blast
  from buildHeaders_ok [OF ok(2) assms(2)] obtain hs cl where "b' = ?b\<lparr>rb_headers := hs, rb_containsContentLength := cl\<rparr>" "pseudoReady J ipv4 ipv6 h b'"
    by blast
  then show ?thesis using h(1) fp by auto
qed

lemma parseOptions_frame:
  "\<exists>c r d n. parseOptions J j b = b\<lparr>rb_connectTimeout := c, rb_responseReadingTimeout := r, rb_decompress := d, rb_nonBlocking := n\<rparr>"
proof -
  have "parseOptions J j b = b\<lparr>rb_connectTimeout := rb_connectTimeout (parseOptions J j b), rb_responseReadingTimeout := rb_responseReadingTimeout (parseOptions J j b),
     rb_decompress := rb_decompress (parseOptions J j b), rb_nonBlocking := rb_nonBlocking (parseOptions J j b)\<rparr>"
    by (simp add: parseOptions_def Let_def)
  then show ?thesis by metis
qed

lemma parseOptions_proxy: "rb_proxy (parseOptions J j b) = rb_proxy b"
  by (simp add: parseOptions_def Let_def)

definition proxyFits :: "proxy \<Rightarrow> bool" where
  "proxyFits p \<longleftrightarrow> length (px_scheme p) < 16 \<and> length (px_host p) < 256 \<and> length (px_port p) < 8 \<and> length (px_authorization p) < 1024"

lemma parseProxy_ok: "parseProxy J j b = Some b' \<Longrightarrow> proxyFits (rb_proxy b) \<Longrightarrow> \<exists>p. b' = b\<lparr>rb_proxy := p\<rparr> \<and> proxyFits p"
  using length_strncpyField [of 16] length_strncpyField [of 256] length_strncpyField [of 8] length_strncpyField [of 1024]
  by (auto simp: parseProxy_def proxyFits_def Let_def split: option.splits if_splits intro: exI [of _ "rb_proxy b"])

text \<open>C19. A basket without an error is a request that can be sent: its URL parsed into the components it
  holds, its method is one of the five, it has a profile and the profile's identifier, a payload
  only with a content length header, whose value (where it is a string) is the payload's length, a
  proxy that fits its buffers, and, for HTTP/2, exactly the four pseudo headers of URL and method in
  the profile's order unless the caller gave all four.\<close>

theorem parsed_request_ready:
  assumes "buildBasket J ipv4 ipv6 text = Some b" "\<not> failed (rb_error b)"
  shows "\<exists>j h url m. \<exists>fp\<in>set allProfiles. js_loads J text = Some j \<and> js_get J j ''headers'' = Some h
    \<and> rb_url b = Some url \<and> parseUrl (Some url) = Some (Inr (rb_components b))
    \<and> rb_method b = Some m \<and> m \<in> {''POST'', ''GET'', ''PUT'', ''PATCH'', ''DELETE''}
    \<and> rb_fingerprint b = Some fp \<and> rb_clientHelloId b = fp_clientHelloId fp
    \<and> (\<forall>p. rb_payload b = Some p \<longrightarrow> rb_containsContentLength b
         \<and> (\<forall>l. jstrq J (jsonHeaderGet J h ''content-length'') = Some l \<longrightarrow> fst (strtol 10 l) = int (length p)))
    \<and> proxyFits (rb_proxy b)
    \<and> (\<not> rb_forceHttp11 b \<and> (\<exists>n\<in>set pseudoNames. jsonHeaderGet J h n = None) \<longrightarrow>
        filter rh_isPseudo (rb_headers b) = map (pseudoHeader (getHeaderAuthority ipv4 ipv6 (uc_host (rb_components b)) (uc_port (rb_components b)))
          m (rb_components b)) (fp_pseudoHeaderOrder fp))"
proof -
  let ?j = "js_loads J text"
  let ?b0 = "if ?j = None then fail ERR_REQUEST_PARSING_STRING_TO_JSON_FAILED initBasket else initBasket"
  obtain b1 b2 b4 b5 where s: "whenOk (parseUrlField J ?j) ?b0 = Some b1" "whenOk (parseMethod J ?j) b1 = Some b2"
    "whenOk (\<lambda>b. Some (parseSession J ?j b)) b2 \<noteq> None"
    "whenOk (parseHeaders J ipv4 ipv6 ?j) (the (whenOk (\<lambda>b. Some (parseSession J ?j b)) b2)) = Some b4"
    "whenOk (parsePayload J ?j) b4 = Some b5" "whenOk (parseProxy J ?j) (parseOptions J ?j b5) = Some b"
    using assms(1) by (auto simp: buildBasket_def Let_def bind_eq_Some_conv split: option.splits)
  obtain b3 where b3: "whenOk (\<lambda>b. Some (parseSession J ?j b)) b2 = Some b3" using s(3) by auto
  obtain c r d n where o: "parseOptions J ?j b5 = b5\<lparr>rb_connectTimeout := c, rb_responseReadingTimeout := r, rb_decompress := d, rb_nonBlocking := n\<rparr>"
    using parseOptions_frame by blast
  from whenOk_ok [OF s(6) assms(2)] have f6: "\<not> failed (rb_error b5)" "parseProxy J ?j (parseOptions J ?j b5) = Some b" by (simp_all add: o)
  from whenOk_ok [OF s(5) f6(1)] have f5: "\<not> failed (rb_error b4)" "parsePayload J ?j b4 = Some b5" by simp_all
  have "whenOk (parseHeaders J ipv4 ipv6 ?j) b3 = Some b4" using s(4) b3 by simp
  from whenOk_ok [OF this f5(1)] have f4: "\<not> failed (rb_error b3)" "parseHeaders J ipv4 ipv6 ?j b3 = Some b4" by simp_all
  from whenOk_ok [OF b3 f4(1)] have f3: "\<not> failed (rb_error b2)" "parseSession J ?j b2 = b3" by simp_all
  from whenOk_ok [OF s(2) f3(1)] have f2: "\<not> failed (rb_error b1)" "parseMethod J ?j b1 = Some b2" by simp_all
  from whenOk_ok [OF s(1) f2(1)] have f1: "\<not> failed (rb_error ?b0)" "parseUrlField J ?j ?b0 = Some b1" by simp_all
  obtain j where j: "?j = Some j" using f1(1) by (cases ?j) (simp_all add: fail_def)
  from parseUrlField_ok [OF f1(2) f2(1)] obtain url uc where b1: "b1 = initBasket\<lparr>rb_url := Some url, rb_components := uc\<rparr>"
    "parseUrl (Some url) = Some (Inr uc)" using j by auto
  from parseMethod_ok [OF f2(2) f3(1)] obtain m where b2: "m \<in> set httpMethods" "b2 = b1\<lparr>rb_method := Some m\<rparr>" by blast
  obtain x f where b3': "b3 = b2\<lparr>rb_sessionExpiration := x, rb_forceHttp11 := f\<rparr>" using parseSession_ok [of J ?j b2] f3 f4(1) by auto
  from parseHeaders_ok [OF f4(2) f5(1)] obtain h t hs cl fp where h: "fp \<in> set allProfiles" "jgetq J ?j ''headers'' = Some h" "pseudoReady J ipv4 ipv6 h b4"
    "b4 = b3\<lparr>rb_browserType := t, rb_fingerprint := Some fp, rb_clientHelloId := fp_clientHelloId fp, rb_headers := hs, rb_containsContentLength := cl\<rparr>"
    by blast
  from parsePayload_ok [OF f5(2) f6(1) h(2)] obtain p where b5: "b5 = b4\<lparr>rb_payload := p\<rparr>" "payloadReady J h b5" by blast
  have "proxyFits (rb_proxy (parseOptions J ?j b5))"
    by (simp add: parseOptions_proxy b5(1) h(4) b3' b2(2) b1(1) initBasket_def noProxy_def proxyFits_def)
  from parseProxy_ok [OF f6(2) this] obtain px where b: "b = (parseOptions J ?j b5)\<lparr>rb_proxy := px\<rparr>" "proxyFits px" by blast
  have b4: "b4 = initBasket\<lparr>rb_url := Some url, rb_components := uc, rb_method := Some m, rb_sessionExpiration := x, rb_forceHttp11 := f,
      rb_browserType := t, rb_fingerprint := Some fp, rb_clientHelloId := fp_clientHelloId fp, rb_headers := hs, rb_containsContentLength := cl\<rparr>"
    by (simp add: h(4) b3' b2(2) b1(1))
  have eqs: "b = b4\<lparr>rb_payload := p, rb_connectTimeout := c, rb_responseReadingTimeout := r, rb_decompress := d, rb_nonBlocking := n, rb_proxy := px\<rparr>"
    unfolding b(1) o unfolding b5(1) by simp
  note eqs = eqs [unfolded b4]
  have "payloadReady J h b" "pseudoReady J ipv4 ipv6 h b" using b5(2) h(3) unfolding b5(1) b4 eqs by (simp_all add: payloadReady_def pseudoReady_def)
  then show ?thesis
    using h(1,2) j b1(2) b2(1) b(2)
    by (intro exI [of _ j] exI [of _ h] exI [of _ url] exI [of _ m] bexI [of _ fp])
      (simp_all add: eqs payloadReady_def pseudoReady_def jgetq_def httpMethods_def)
qed


definition sampleJsonRequest :: json where
  "sampleJsonRequest = JObj [(''url'', JStr ''https://h/p''), (''method'', JStr ''post''),
     (''headers'', JObj [(''User-Agent'', JStr ''Chrome/151.0''), (''content-length'', JStr ''2'')]), (''payload'', JStr ''hi'')]"


definition sampleHeaders :: json where
  "sampleHeaders = JObj [(''User-Agent'', JStr ''Chrome/151.0''), (''content-length'', JStr ''2'')]"

definition sampleComponents :: urlComponents where
  "sampleComponents = \<lparr>uc_scheme = ''https'', uc_host = ''h'', uc_port = ''443'', uc_path = ''/p'', uc_query = [], uc_fragment = []\<rparr>"

definition sampleParsed :: requestBasket where
  "sampleParsed = initBasket\<lparr>rb_url := Some ''https://h/p'', rb_components := sampleComponents, rb_method := Some ''POST''\<rparr>"

definition sampleList :: "reqHeader list" where
  "sampleList = map (pseudoHeader ''h'' ''POST'' sampleComponents) [PSEUDO_METHOD, PSEUDO_AUTHORITY, PSEUDO_SCHEME, PSEUDO_PATH]
     @ [realHeader ''User-Agent'' ''Chrome/151.0'', realHeader ''content-length'' ''2'']"

lemma sample_stages:
  fixes loads defines "J \<equiv> sampleJansson loads"
  shows "parseUrlField J (Some sampleJsonRequest) initBasket = Some (initBasket\<lparr>rb_url := Some ''https://h/p'', rb_components := sampleComponents\<rparr>)"
    and "parseMethod J (Some sampleJsonRequest) (initBasket\<lparr>rb_url := Some ''https://h/p'', rb_components := sampleComponents\<rparr>) = Some sampleParsed"
    and "parseSession J (Some sampleJsonRequest) sampleParsed = sampleParsed"
    and "jgetq J (Some sampleJsonRequest) ''headers'' = Some sampleHeaders"
    and "jgetq J (Some sampleJsonRequest) ''session'' = None"
    and "jsonHeaderGet J sampleHeaders ''user-agent'' = Some (JStr ''Chrome/151.0'')"
    and "buildHttp2Headers J None ''h'' ''POST'' sampleComponents sampleHeaders = Some (sampleList, True)"
    and "jgetq J (Some sampleJsonRequest) ''payload'' = Some (JStr ''hi'')"
    and "jstrq J (jsonHeaderGet J sampleHeaders ''content-length'') = Some ''2''"
    and "jgetq J (Some sampleJsonRequest) ''proxy'' = None"
  unfolding J_def by code_simp+

lemma sample_order: "reorderHeadersByOrderKey sampleList = Inr sampleList"
  "getHeaderAuthority (\<lambda>h. False) (\<lambda>h. False) ''h'' ''443'' = ''h''" "detectBrowseType ''Chrome/151.0'' = BROWSER_CHROME" "fst (strtol 10 ''2'') = 2"
  by code_simp+

lemma missing_json: "jgetq J None k = None" "jstrq J None = None"
  by (simp_all add: jgetq_def jstrq_def)

lemma sample_string: "js_string (sampleJansson loads) (JStr s) = Some s" "js_loads (sampleJansson loads) = loads"
  by (simp_all add: sampleJansson_def)

lemma default_as_profile: "buildHttp2Headers J (Some CHROME_FINGERPRINT_152) = buildHttp2Headers J None"
  by (simp add: fun_eq_iff buildHttp2Headers_def headerLimit_def CHROME_FINGERPRINT_152_def CHROME_FINGERPRINT_COMMON_def CHROME_PSEUDO_ORDER_def)

definition sampleReady :: requestBasket where
  "sampleReady = sampleParsed\<lparr>rb_browserType := BROWSER_CHROME, rb_fingerprint := Some CHROME_FINGERPRINT_152, rb_clientHelloId := ''hellochrome_152'',
     rb_headers := sampleList, rb_containsContentLength := True\<rparr>"

lemma sample_parts: "rb_components sampleParsed = sampleComponents" "rb_method sampleParsed = Some ''POST''" "\<not> rb_forceHttp11 sampleParsed"
  "rb_error sampleParsed = ERR_NONE" "uc_host sampleComponents = ''h''" "uc_port sampleComponents = ''443''"
  by (simp_all add: sampleParsed_def initBasket_def sampleComponents_def)

lemma sample_headers:
  "parseHeaders (sampleJansson loads) (\<lambda>h. False) (\<lambda>h. False) (Some sampleJsonRequest) sampleParsed = Some sampleReady"
proof -
  have "failed ERR_NONE = False" by simp
  then have "selectProfile None ''Chrome/151.0'' sampleParsed = sampleParsed\<lparr>rb_browserType := BROWSER_CHROME,
      rb_fingerprint := Some CHROME_FINGERPRINT_152, rb_clientHelloId := ''hellochrome_152''\<rparr>"
    by (simp add: selectProfile_def Let_def sample_order getBrowserFingerprint_def sampleParsed_def initBasket_def
        CHROME_FINGERPRINT_152_def CHROME_FINGERPRINT_COMMON_def strncpyField_def)
  then show ?thesis
    by (simp add: parseHeaders_def sample_stages missing_json sample_string buildHeaders_def default_as_profile sample_order Let_def sampleReady_def sample_parts)
qed

lemma parsed_request_ready_witness:
  "\<exists>b fp. buildBasket (sampleJansson (\<lambda>t. Some sampleJsonRequest)) (\<lambda>h. False) (\<lambda>h. False) [] = Some b \<and> rb_payload b = Some ''hi''
    \<and> rb_fingerprint b = Some fp \<and> fp \<in> set allProfiles \<and> rb_containsContentLength b"
proof -
  let ?run = "buildBasket (sampleJansson (\<lambda>t. Some sampleJsonRequest)) (\<lambda>h. False) (\<lambda>h. False) []"
  let ?J = "sampleJansson (\<lambda>t. Some sampleJsonRequest)"
  let ?b = "sampleReady\<lparr>rb_payload := Some ''hi''\<rparr>"
  have ok: "\<not> failed (rb_error initBasket)" "\<not> failed (rb_error sampleParsed)" "\<not> failed (rb_error sampleReady)" "rb_containsContentLength sampleReady"
    by (simp_all add: sampleReady_def sampleParsed_def initBasket_def)
  have "parsePayload ?J (Some sampleJsonRequest) sampleReady = Some ?b"
    by (simp add: parsePayload_def sample_stages sample_string sample_order ok Let_def)
  moreover have "parseProxy ?J (Some sampleJsonRequest) b = Some b" for b by (simp add: parseProxy_def sample_stages)
  moreover obtain c r d n where "parseOptions ?J (Some sampleJsonRequest) ?b =
      ?b\<lparr>rb_connectTimeout := c, rb_responseReadingTimeout := r, rb_decompress := d, rb_nonBlocking := n\<rparr>"
    using parseOptions_frame by blast
  ultimately have "?run = Some (?b\<lparr>rb_connectTimeout := c, rb_responseReadingTimeout := r, rb_decompress := d, rb_nonBlocking := n\<rparr>)"
    using ok by (simp add: buildBasket_def whenOk_def sample_string sample_stages sample_headers)
  then have "case ?run of None \<Rightarrow> False | Some b \<Rightarrow> \<not> failed (rb_error b) \<and> rb_payload b = Some ''hi''" using ok by simp
  then obtain b where b: "?run = Some b" "\<not> failed (rb_error b)" "rb_payload b = Some ''hi''" by (auto split: option.splits)
  from parsed_request_ready [OF b(1,2)] b show ?thesis by (auto simp del: ex_simps)
qed

end
