(* ===== verification/TlsCache.thy ===== *)
theory TlsCache
  imports Slots Errors
begin

text \<open>
  The cache of TLS sessions for resumption, \<open>src/Session.c\<close>, with the callback of
  \<open>src/SSLHandler.c\<close> that fills it. A TLS session is an object of the TLS library with a reference
  count: \<open>tc_refs\<close> counts the references per session (a number), a session is freed when its count
  reaches zero. Every function holds the cache's mutex for all it does, so it is one step.
\<close>

section \<open>State\<close>

definition MAX_TLS_SESSION_CACHE :: nat where
  "MAX_TLS_SESSION_CACHE = 256"

text \<open>The key: host and port, and the proxy the connection runs through.\<close>

record tlsTarget =
  tt_host :: string
  tt_port :: string
  tt_proxyScheme :: string
  tt_proxyHost :: string
  tt_proxyPort :: string
  tt_proxyAuthorization :: string

record tlsSlot =
  tl_target :: tlsTarget
  tl_session :: "nat option"
  tl_createdAt :: int

record tlsCache =
  tc_slots :: "tlsSlot list"
  tc_refs :: "nat \<Rightarrow> nat"

definition noTarget :: tlsTarget where
  "noTarget = \<lparr>tt_host = [], tt_port = [], tt_proxyScheme = [], tt_proxyHost = [], tt_proxyPort = [], tt_proxyAuthorization = []\<rparr>"

definition truncTarget :: "tlsTarget \<Rightarrow> tlsTarget" where
  "truncTarget t =
     \<lparr>tt_host = strncpyField 256 (tt_host t), tt_port = strncpyField 8 (tt_port t),
      tt_proxyScheme = strncpyField 16 (tt_proxyScheme t), tt_proxyHost = strncpyField 256 (tt_proxyHost t),
      tt_proxyPort = strncpyField 8 (tt_proxyPort t), tt_proxyAuthorization = strncpyField 1024 (tt_proxyAuthorization t)\<rparr>"

definition slotFor :: "tlsTarget \<Rightarrow> tlsSlot \<Rightarrow> bool" where
  "slotFor t s \<longleftrightarrow> tl_session s \<noteq> None \<and> tl_target s = t"

definition sessionUpRef :: "nat \<Rightarrow> tlsCache \<Rightarrow> tlsCache" where
  "sessionUpRef p c = c\<lparr>tc_refs := (tc_refs c)(p := tc_refs c p + 1)\<rparr>"

definition sessionFree :: "nat \<Rightarrow> tlsCache \<Rightarrow> tlsCache" where
  "sessionFree p c = c\<lparr>tc_refs := (tc_refs c)(p := tc_refs c p - 1)\<rparr>"

section \<open>Operations\<close>

definition initTLSSessionCache :: tlsCache where
  "initTLSSessionCache =
     \<lparr>tc_slots = replicate MAX_TLS_SESSION_CACHE \<lparr>tl_target = noTarget, tl_session = None, tl_createdAt = 0\<rparr>, tc_refs = (\<lambda>_. 0)\<rparr>"

definition cleanupTLSSessionCache :: "tlsCache \<Rightarrow> tlsCache" where
  "cleanupTLSSessionCache c =
     fold (\<lambda>i c. case tl_session (tc_slots c ! i) of
                   None \<Rightarrow> c
                 | Some p \<Rightarrow> (sessionFree p c)\<lparr>tc_slots := (tc_slots c)[i := (tc_slots c ! i)\<lparr>tl_session := None\<rparr>]\<rparr>)
       [0..<MAX_TLS_SESSION_CACHE] c"

definition lookupTLSSession :: "tlsTarget \<Rightarrow> tlsCache \<Rightarrow> nat option \<times> tlsCache" where
  "lookupTLSSession t c =
     (case findIndex (slotFor t) (tc_slots c) of
        None \<Rightarrow> (None, c)
      | Some i \<Rightarrow>
          (case tl_session (tc_slots c ! i) of None \<Rightarrow> (None, c) | Some p \<Rightarrow> (Some p, sessionUpRef p c)))"

definition cacheTLSSessionFillSlot :: "int \<Rightarrow> nat \<Rightarrow> tlsTarget \<Rightarrow> nat \<Rightarrow> tlsCache \<Rightarrow> tlsCache" where
  "cacheTLSSessionFillSlot now i t p c =
     sessionUpRef p (c\<lparr>tc_slots := (tc_slots c)[i := \<lparr>tl_target = truncTarget t, tl_session = Some p, tl_createdAt = now\<rparr>]\<rparr>)"

definition oldestSlot :: "tlsSlot list \<Rightarrow> nat" where
  "oldestSlot slots =
     fold (\<lambda>i best. if tl_createdAt (slots ! i) < tl_createdAt (slots ! best) then i else best) [1..<MAX_TLS_SESSION_CACHE] 0"

text \<open>A slot of the same key is refreshed, else a free one is taken, else the oldest replaced.\<close>

definition cacheTLSSession :: "int \<Rightarrow> tlsTarget \<Rightarrow> nat \<Rightarrow> tlsCache \<Rightarrow> tlsCache" where
  "cacheTLSSession now t p c =
     (case findIndex (slotFor t) (tc_slots c) of
        Some i \<Rightarrow>
          cacheTLSSessionFillSlot now i t p
            (case tl_session (tc_slots c ! i) of None \<Rightarrow> c | Some old \<Rightarrow> sessionFree old c)
      | None \<Rightarrow>
          (case findIndex (\<lambda>s. tl_session s = None) (tc_slots c) of
             Some i \<Rightarrow> cacheTLSSessionFillSlot now i t p c
           | None \<Rightarrow> cacheTLSSessionFillSlot now (oldestSlot (tc_slots c)) t p c))"

text \<open>
  The library calls back with a new session and a reference of its own to it, which passes to the
  client when the result is 1. \<open>connInfo\<close> is the connection's, null once it is closed.
\<close>

definition newSessionCallback :: "int \<Rightarrow> tlsTarget option \<Rightarrow> nat \<Rightarrow> tlsCache \<Rightarrow> tlsCache \<times> int" where
  "newSessionCallback now connInfo p c =
     (case connInfo of None \<Rightarrow> (c, 0) | Some t \<Rightarrow> (cacheTLSSession now t p c, 1))"

section \<open>What is cached\<close>

definition cached :: "tlsSlot list \<Rightarrow> tlsTarget \<Rightarrow> nat option" where
  "cached slots t = (case findIndex (slotFor t) slots of None \<Rightarrow> None | Some i \<Rightarrow> tl_session (slots ! i))"

definition oneSlotEach :: "tlsSlot list \<Rightarrow> bool" where
  "oneSlotEach slots \<longleftrightarrow> length slots = MAX_TLS_SESSION_CACHE
     \<and> (\<forall>i<length slots. \<forall>j<length slots. \<forall>t. slotFor t (slots ! i) \<longrightarrow> slotFor t (slots ! j) \<longrightarrow> i = j)"

lemma fst_lookup: "fst (lookupTLSSession t c) = cached (tc_slots c) t"
  by (simp add: lookupTLSSession_def cached_def split: option.split)

lemma lookup_slots: "tc_slots (snd (lookupTLSSession t c)) = tc_slots c"
  by (simp add: lookupTLSSession_def sessionUpRef_def split: option.split)

lemma oneSlot:
  "oneSlotEach slots \<Longrightarrow> slotFor t (slots ! i) \<Longrightarrow> slotFor t (slots ! j) \<Longrightarrow> i < length slots \<Longrightarrow> j < length slots \<Longrightarrow> i = j"
  unfolding oneSlotEach_def by blast

lemma cached_iff:
  "oneSlotEach slots \<Longrightarrow> cached slots t = Some p \<longleftrightarrow> (\<exists>i<length slots. slotFor t (slots ! i) \<and> tl_session (slots ! i) = Some p)"
proof -
  assume one: "oneSlotEach slots"
  show ?thesis
  proof (cases "findIndex (slotFor t) slots")
    case None
    then have "\<forall>i<length slots. \<not> slotFor t (slots ! i)" by (simp add: findIndex_None)
    then show ?thesis by (auto simp: cached_def None)
  next
    case (Some i)
    then show ?thesis using oneSlot [OF one, of t i] findIndex_SomeD [OF Some] unfolding cached_def by auto
  qed
qed

lemma cached_None: "cached slots t = None \<longleftrightarrow> (\<forall>i<length slots. \<not> slotFor t (slots ! i))"
proof (cases "findIndex (slotFor t) slots")
  case None
  then have "\<forall>i<length slots. \<not> slotFor t (slots ! i)" by (simp add: findIndex_None)
  then show ?thesis by (simp add: cached_def None)
next
  case (Some i)
  then show ?thesis using findIndex_SomeD [OF Some] by (auto simp: cached_def slotFor_def)
qed

text \<open>Filling a slot: the key takes its new session, the key the slot held (if another) is gone.\<close>

abbreviation filled :: "int \<Rightarrow> tlsTarget \<Rightarrow> nat \<Rightarrow> tlsSlot" where
  "filled now t p \<equiv> \<lparr>tl_target = t, tl_session = Some p, tl_createdAt = now\<rparr>"

lemma fill_slot:
  assumes "oneSlotEach slots" "i < length slots" "\<forall>j<length slots. slotFor t (slots ! j) \<longrightarrow> j = i"
  shows "oneSlotEach (slots[i := filled now t p])"
    and "cached (slots[i := filled now t p]) t' = (if t' = t then Some p else if slotFor t' (slots ! i) then None else cached slots t')"
proof -
  let ?s = "slots[i := filled now t p]"
  show one: "oneSlotEach ?s"
    unfolding oneSlotEach_def
  proof (intro conjI allI impI)
    show "length ?s = MAX_TLS_SESSION_CACHE" using assms(1) by (simp add: oneSlotEach_def)
    fix k j u
    assume a: "k < length ?s" "j < length ?s" "slotFor u (?s ! k)" "slotFor u (?s ! j)"
    have new: "slotFor u (?s ! i) \<longleftrightarrow> u = t" using assms(2) by (auto simp: slotFor_def)
    consider "k \<noteq> i" "j \<noteq> i" | "k = i" | "j = i" by blast
    then show "k = j"
    proof cases
      case 1
      then show ?thesis using a oneSlot [OF assms(1), of u k j] by simp
    next
      case 2
      then have u: "u = t" using a(3) new by blast
      show ?thesis
      proof (rule ccontr)
        assume "k \<noteq> j"
        then show False using 2 a(2,4) u assms(3) by simp
      qed
    next
      case 3
      then have u: "u = t" using a(4) new by blast
      show ?thesis
      proof (rule ccontr)
        assume "k \<noteq> j"
        then show False using 3 a(1,3) u assms(3) by simp
      qed
    qed
  qed
  have new: "slotFor u (filled now t p) \<longleftrightarrow> u = t" for u by (auto simp: slotFor_def)
  show "cached ?s t' = (if t' = t then Some p else if slotFor t' (slots ! i) then None else cached slots t')"
  proof (cases "t' = t")
    case True
    then show ?thesis using assms(2) new by (auto simp: cached_iff [OF one])
  next
    case False
    have "cached ?s t' = (if slotFor t' (slots ! i) then None else cached slots t')"
    proof (cases "slotFor t' (slots ! i)")
      case True
      then have "\<forall>j<length slots. j \<noteq> i \<longrightarrow> \<not> slotFor t' (slots ! j)" using oneSlot [OF assms(1)] assms(2) by blast
      moreover have "slotFor t' (?s ! j) \<longleftrightarrow> (if j = i then t' = t else slotFor t' (slots ! j))" if "j < length slots" for j
        using that new by (cases "j = i") simp_all
      ultimately show ?thesis using True False by (simp add: cached_None)
    next
      case no: False
      have "cached ?s t' = Some q \<longleftrightarrow> cached slots t' = Some q" for q
      proof -
        have "(slotFor t' (?s ! j) \<and> tl_session (?s ! j) = Some q) = (slotFor t' (slots ! j) \<and> tl_session (slots ! j) = Some q)"
          if "j < length slots" for j using that no False new by (cases "j = i") simp_all
        then show ?thesis unfolding cached_iff [OF one] cached_iff [OF assms(1)] by auto
      qed
      then show ?thesis using no by (metis option.exhaust)
    qed
    then show ?thesis using False by simp
  qed
qed

lemma oldestSlot_bound: "oldestSlot slots < MAX_TLS_SESSION_CACHE"
proof -
  have "fold (\<lambda>i best. if f i best then i else best) xs b < n" if "b < n" "\<forall>x\<in>set xs. x < n" for f xs b and n :: nat
    using that by (induction xs arbitrary: b) auto
  then show ?thesis by (simp add: oldestSlot_def MAX_TLS_SESSION_CACHE_def)
qed

lemma oldestSlot_least:
  assumes "j < MAX_TLS_SESSION_CACHE" shows "tl_createdAt (slots ! oldestSlot slots) \<le> tl_createdAt (slots ! j)"
proof -
  define f where "f = (\<lambda>i best. if tl_createdAt (slots ! i) < tl_createdAt (slots ! best) then i else best)"
  have step: "tl_createdAt (slots ! f x b) \<le> tl_createdAt (slots ! b)" "tl_createdAt (slots ! f x b) \<le> tl_createdAt (slots ! x)" for x b
    by (simp_all add: f_def)
  have "tl_createdAt (slots ! fold f xs b) \<le> tl_createdAt (slots ! k)" if "k = b \<or> k \<in> set xs" for k xs b
    using that
  proof (induction xs arbitrary: b k)
    case (Cons x xs)
    have first: "tl_createdAt (slots ! fold f xs (f x b)) \<le> tl_createdAt (slots ! f x b)" by (rule Cons.IH) simp
    consider "k = b" | "k = x" | "k \<in> set xs" using Cons.prems by auto
    then show ?case
    proof cases
      case 1
      then show ?thesis using order_trans [OF first step(1)] by simp
    next
      case 2
      then show ?thesis using order_trans [OF first step(2)] by simp
    next
      case 3
      then show ?thesis using Cons.IH [of k "f x b"] by simp
    qed
  qed simp
  moreover have "j = 0 \<or> j \<in> set [1..<MAX_TLS_SESSION_CACHE]" using assms by auto
  ultimately show ?thesis unfolding oldestSlot_def f_def [symmetric] by blast
qed


section \<open>Runs of the cache\<close>

text \<open>A ticket arriving for a connection (the library hands over a reference), and a connection asking for a session.\<close>

datatype tlsOp = Ticket int tlsTarget nat | Resume tlsTarget

definition tlsStep :: "tlsOp \<Rightarrow> tlsCache \<Rightarrow> tlsCache" where
  "tlsStep op c =
     (case op of
        Ticket now t p \<Rightarrow> fst (newSessionCallback now (Some t) p (sessionUpRef p c))
      | Resume t \<Rightarrow> snd (lookupTLSSession t c))"

lemma tlsStep_simps:
  "tlsStep (Ticket now t p) c = cacheTLSSession now t p (sessionUpRef p c)"
  "tlsStep (Resume t) c = snd (lookupTLSSession t c)"
  by (simp_all add: tlsStep_def newSessionCallback_def)

abbreviation tlsRun :: "tlsOp list \<Rightarrow> tlsCache" where
  "tlsRun ops \<equiv> fold tlsStep ops initTLSSessionCache"

fun ticketTarget :: "tlsOp \<Rightarrow> tlsTarget option" where
  "ticketTarget (Ticket now t p) = Some t"
| "ticketTarget (Resume t) = None"

definition ticketTargets :: "tlsOp list \<Rightarrow> tlsTarget set" where
  "ticketTargets ops = {t. Some t \<in> ticketTarget ` set ops}"

text \<open>The session of the latest ticket for a target.\<close>

fun latestTicket :: "tlsTarget \<Rightarrow> tlsOp list \<Rightarrow> nat option" where
  "latestTicket t [] = None"
| "latestTicket t (op # ops) =
     (case latestTicket t ops of
        Some p \<Rightarrow> Some p
      | None \<Rightarrow> (case op of Ticket now t' p \<Rightarrow> if t' = t then Some p else None | Resume _ \<Rightarrow> None))"

definition holds :: "tlsSlot list \<Rightarrow> nat \<Rightarrow> nat" where
  "holds slots p = length (filter (\<lambda>s. tl_session s = Some p) slots)"

lemma latestTicket_snoc:
  "latestTicket t (ops @ [op]) = (case op of Ticket now t' p \<Rightarrow> if t' = t then Some p else latestTicket t ops | Resume _ \<Rightarrow> latestTicket t ops)"
  by (induction ops) (auto split: option.splits tlsOp.splits)

lemma latestTicket_issued: "latestTicket t ops = Some p \<Longrightarrow> \<exists>now. Ticket now t p \<in> set ops"
  by (induction ops) (auto split: option.splits tlsOp.splits if_splits)

lemma ticketTargets_snoc: "ticketTargets (ops @ [op]) = ticketTargets ops \<union> (case op of Ticket now t p \<Rightarrow> {t} | Resume _ \<Rightarrow> {})"
  by (auto simp: ticketTargets_def image_iff split: tlsOp.splits)

lemma finite_targets: "finite (ticketTargets ops)"
proof -
  have "ticketTargets ops \<subseteq> (the \<circ> ticketTarget) ` set ops" by (auto simp: ticketTargets_def image_iff) (metis option.sel)
  then show ?thesis using finite_subset by blast
qed

text \<open>A full cache holds 256 different targets.\<close>

lemma full_targets:
  assumes "oneSlotEach slots" "\<forall>s\<in>set slots. tl_session s \<noteq> None"
  shows "card {t. cached slots t \<noteq> None} = MAX_TLS_SESSION_CACHE"
proof -
  have active: "slotFor (tl_target (slots ! i)) (slots ! i)" if "i < length slots" for i using assms(2) that by (simp add: slotFor_def)
  have "inj_on (\<lambda>i. tl_target (slots ! i)) {..<length slots}"
  proof (rule inj_onI)
    fix i j
    assume "i \<in> {..<length slots}" "j \<in> {..<length slots}" "tl_target (slots ! i) = tl_target (slots ! j)"
    then show "i = j" using oneSlot [OF assms(1), of "tl_target (slots ! i)" i j] active [of i] active [of j] by simp
  qed
  moreover have "{t. cached slots t \<noteq> None} = (\<lambda>i. tl_target (slots ! i)) ` {..<length slots}"
    using active by (auto simp: cached_None slotFor_def)
  ultimately show ?thesis using assms(1) by (simp add: card_image oneSlotEach_def)
qed

text \<open>One ticket: where the session goes, what it replaces, and the references.\<close>

lemma cacheTLSSession_split:
  assumes "oneSlotEach (tc_slots c)" "truncTarget t = t"
  obtains i where "i < MAX_TLS_SESSION_CACHE"
    "tc_slots (cacheTLSSession now t p c) = (tc_slots c)[i := filled now t p]"
    "\<forall>j<length (tc_slots c). slotFor t (tc_slots c ! j) \<longrightarrow> j = i"
    "slotFor t (tc_slots c ! i) \<or> tl_session (tc_slots c ! i) = None \<or> (\<forall>s\<in>set (tc_slots c). tl_session s \<noteq> None) \<and> cached (tc_slots c) t = None"
    "tc_refs (cacheTLSSession now t p c) = (\<lambda>q. tc_refs c q
       - (if slotFor t (tc_slots c ! i) \<and> tl_session (tc_slots c ! i) = Some q then 1 else 0) + (if q = p then 1 else 0))"
proof (cases "findIndex (slotFor t) (tc_slots c)")
  case (Some i)
  note i = findIndex_SomeD [OF Some]
  then obtain old where old: "tl_session (tc_slots c ! i) = Some old" by (auto simp: slotFor_def)
  show ?thesis
    by (rule that [of i]) (use i assms old oneSlot [OF assms(1), of t _ i] in
      \<open>auto simp: cacheTLSSession_def Some cacheTLSSessionFillSlot_def sessionUpRef_def sessionFree_def oneSlotEach_def\<close>)
next
  case None
  then have no: "\<forall>j<length (tc_slots c). \<not> slotFor t (tc_slots c ! j)" by (simp add: findIndex_None)
  show ?thesis
  proof (cases "findIndex (\<lambda>s. tl_session s = None) (tc_slots c)")
    case (Some i)
    note i = findIndex_SomeD [OF Some]
    show ?thesis
      by (rule that [of i]) (use i assms no in
        \<open>auto simp: cacheTLSSession_def None Some cacheTLSSessionFillSlot_def sessionUpRef_def oneSlotEach_def\<close>)
  next
    case full: None
    then have "\<forall>s\<in>set (tc_slots c). tl_session s \<noteq> None" by (simp add: findIndex_None)
    then show ?thesis
      by (intro that [of "oldestSlot (tc_slots c)"]) (use oldestSlot_bound [of "tc_slots c"] assms no in
        \<open>auto simp: cacheTLSSession_def None full cacheTLSSessionFillSlot_def sessionUpRef_def oneSlotEach_def cached_None\<close>)
  qed
qed


lemma holds_update:
  "i < length slots \<Longrightarrow> holds (slots[i := x]) q + (if tl_session (slots ! i) = Some q then 1 else 0)
     = holds slots q + (if tl_session x = Some q then 1 else 0)"
proof (induction slots arbitrary: i)
  case (Cons s slots)
  then show ?case by (cases i) (auto simp: holds_def split: if_splits)
qed simp

definition refsOk :: "tlsCache \<Rightarrow> bool" where
  "refsOk c \<longleftrightarrow> (\<forall>q. holds (tc_slots c) q \<le> tc_refs c q)"

lemma lookup_refsOk: "refsOk c \<Longrightarrow> refsOk (snd (lookupTLSSession t c))"
  by (auto simp: refsOk_def lookupTLSSession_def sessionUpRef_def le_SucI split: option.split)

lemma ticket_refsOk:
  assumes "oneSlotEach (tc_slots c)" "truncTarget t = t" "refsOk c"
  shows "refsOk (cacheTLSSession now t p c)"
proof -
  obtain i where i: "i < MAX_TLS_SESSION_CACHE" "tc_slots (cacheTLSSession now t p c) = (tc_slots c)[i := filled now t p]"
    "\<forall>j<length (tc_slots c). slotFor t (tc_slots c ! j) \<longrightarrow> j = i"
    "slotFor t (tc_slots c ! i) \<or> tl_session (tc_slots c ! i) = None \<or> (\<forall>s\<in>set (tc_slots c). tl_session s \<noteq> None) \<and> cached (tc_slots c) t = None"
    "tc_refs (cacheTLSSession now t p c) = (\<lambda>q. tc_refs c q
       - (if slotFor t (tc_slots c ! i) \<and> tl_session (tc_slots c ! i) = Some q then 1 else 0) + (if q = p then 1 else 0))"
    by (rule cacheTLSSession_split [OF assms(1,2), where now = now and p = p])
  have len: "i < length (tc_slots c)" using i(1) assms(1) by (simp add: oneSlotEach_def)
  have "holds ((tc_slots c)[i := filled now t p]) q \<le> tc_refs c q
       - (if slotFor t (tc_slots c ! i) \<and> tl_session (tc_slots c ! i) = Some q then 1 else 0) + (if q = p then 1 else 0)" for q
    using holds_update [OF len, of "filled now t p" q] assms(3) [unfolded refsOk_def, rule_format, of q] by (auto split: if_splits)
  then show ?thesis by (simp add: refsOk_def i(2,5))
qed


text \<open>What a run of the cache keeps: every cached session is the latest ticket of its target, and is alive.\<close>

definition cacheOk :: "tlsOp list \<Rightarrow> tlsCache \<Rightarrow> bool" where
  "cacheOk ops c \<longleftrightarrow> oneSlotEach (tc_slots c) \<and> refsOk c
     \<and> (\<forall>t. cached (tc_slots c) t \<noteq> None \<longrightarrow> cached (tc_slots c) t = latestTicket t ops)
     \<and> (card (ticketTargets ops) \<le> MAX_TLS_SESSION_CACHE \<longrightarrow> (\<forall>t. cached (tc_slots c) t = latestTicket t ops))"

lemma init_cacheOk: "cacheOk [] initTLSSessionCache"
proof -
  have "\<not> slotFor t (replicate n \<lparr>tl_target = u, tl_session = None, tl_createdAt = 0\<rparr> ! i)" if "i < n" for t n u i
    using that by (simp add: slotFor_def)
  then show ?thesis
    by (auto simp: cacheOk_def initTLSSessionCache_def oneSlotEach_def refsOk_def holds_def cached_None)
qed

lemma latest_target: "latestTicket t ops \<noteq> None \<Longrightarrow> t \<in> ticketTargets ops"
  using latestTicket_issued [of t ops] by (auto simp: ticketTargets_def image_iff) (metis ticketTarget.simps(1))

lemma ticket_cacheOk:
  assumes "cacheOk ops c" "truncTarget t = t"
  shows "cacheOk (ops @ [Ticket now t p]) (cacheTLSSession now t p (sessionUpRef p c))"
proof -
  let ?c = "sessionUpRef p c" and ?ops = "ops @ [Ticket now t p]"
  have slots: "tc_slots ?c = tc_slots c" and refs: "refsOk ?c"
    using assms(1) by (auto simp: sessionUpRef_def cacheOk_def refsOk_def le_SucI)
  have one: "oneSlotEach (tc_slots ?c)" using assms(1) by (simp add: slots cacheOk_def)
  have latest: "cached (tc_slots c) u \<noteq> None \<Longrightarrow> cached (tc_slots c) u = latestTicket u ops" for u using assms(1) by (simp add: cacheOk_def)
  obtain i where i: "i < MAX_TLS_SESSION_CACHE"
    "tc_slots (cacheTLSSession now t p ?c) = (tc_slots ?c)[i := filled now t p]"
    "\<forall>j<length (tc_slots ?c). slotFor t (tc_slots ?c ! j) \<longrightarrow> j = i"
    "slotFor t (tc_slots ?c ! i) \<or> tl_session (tc_slots ?c ! i) = None \<or> (\<forall>s\<in>set (tc_slots ?c). tl_session s \<noteq> None) \<and> cached (tc_slots ?c) t = None"
    "tc_refs (cacheTLSSession now t p ?c) = (\<lambda>q. tc_refs ?c q
       - (if slotFor t (tc_slots ?c ! i) \<and> tl_session (tc_slots ?c ! i) = Some q then 1 else 0) + (if q = p then 1 else 0))"
    by (rule cacheTLSSession_split [OF one assms(2), where now = now and p = p])
  have len: "i < length (tc_slots ?c)" using i(1) one by (simp add: oneSlotEach_def)
  note fill = fill_slot [OF one len i(3), where now = now and p = p, folded i(2), unfolded slots]
  have keeps: "cached (tc_slots (cacheTLSSession now t p ?c)) u = latestTicket u ?ops"
    if "cached (tc_slots (cacheTLSSession now t p ?c)) u \<noteq> None" for u
    using that latest [of u] by (auto simp: fill(2) latestTicket_snoc split: if_splits)
  have all: "cached (tc_slots (cacheTLSSession now t p ?c)) u = latestTicket u ?ops" if few: "card (ticketTargets ?ops) \<le> MAX_TLS_SESSION_CACHE" for u
  proof -
    have sub: "ticketTargets ?ops = insert t (ticketTargets ops)" by (simp add: ticketTargets_snoc)
    then have "card (ticketTargets ops) \<le> MAX_TLS_SESSION_CACHE" using few finite_targets [of ops] by (simp add: card_insert_if split: if_splits)
    then have was: "cached (tc_slots c) v = latestTicket v ops" for v using assms(1) by (simp add: cacheOk_def)
    have "\<not> slotFor u (tc_slots c ! i)" if "u \<noteq> t"
    proof
      assume u: "slotFor u (tc_slots c ! i)"
      then have full: "\<forall>s\<in>set (tc_slots c). tl_session s \<noteq> None" "cached (tc_slots c) t = None"
        using i(4) that by (auto simp: slots slotFor_def)
      have "{v. cached (tc_slots c) v \<noteq> None} \<subseteq> ticketTargets ops - {t}" using full(2) was latest_target by auto
      then have "MAX_TLS_SESSION_CACHE \<le> card (ticketTargets ops - {t})"
        using full_targets [OF one [unfolded slots] full(1)] finite_targets [of ops] by (metis card_mono finite_Diff)
      moreover have "card (insert t (ticketTargets ops)) = Suc (card (ticketTargets ops - {t}))" using finite_targets [of ops] by (simp add: card.insert_remove)
      ultimately show False using few sub by simp
    qed
    then show ?thesis by (auto simp: fill(2) latestTicket_snoc was)
  qed
  show ?thesis
    unfolding cacheOk_def using fill(1) ticket_refsOk [OF one assms(2) refs, where now = now and p = p] keeps all by blast
qed

lemma resume_cacheOk: "cacheOk ops c \<Longrightarrow> cacheOk (ops @ [Resume t]) (snd (lookupTLSSession t c))"
  using lookup_refsOk [of c t] by (simp add: cacheOk_def lookup_slots latestTicket_snoc ticketTargets_snoc)

lemma tlsRun_cacheOk: "\<forall>t\<in>ticketTargets ops. truncTarget t = t \<Longrightarrow> cacheOk ops (tlsRun ops)"
proof (induction ops rule: rev_induct)
  case (snoc op ops)
  then have "cacheOk ops (tlsRun ops)" by (simp add: ticketTargets_snoc)
  then show ?case
    using snoc.prems ticket_cacheOk resume_cacheOk by (cases op) (simp_all add: tlsStep_simps ticketTargets_snoc)
qed (simp add: init_cacheOk)

text \<open>C23. Whatever tickets arrive and connections resume, in any order: the session a connection is offered
  is the latest that was issued for its own host, port and proxy; with at most 256 targets it is
  offered whenever there was one; and no cached session has been freed (its count covers the slots
  that hold it).\<close>

theorem tls_cache_resumes:
  assumes "\<forall>t\<in>ticketTargets ops. truncTarget t = t"
  shows "fst (lookupTLSSession t (fold tlsStep ops initTLSSessionCache)) \<in> {None, latestTicket t ops}
    \<and> (card (ticketTargets ops) \<le> 256 \<longrightarrow> fst (lookupTLSSession t (fold tlsStep ops initTLSSessionCache)) = latestTicket t ops)
    \<and> holds (tc_slots (fold tlsStep ops initTLSSessionCache)) q \<le> tc_refs (fold tlsStep ops initTLSSessionCache) q"
  using tlsRun_cacheOk [OF assms] by (auto simp: cacheOk_def fst_lookup refsOk_def MAX_TLS_SESSION_CACHE_def)

definition sampleTarget :: "string \<Rightarrow> tlsTarget" where
  "sampleTarget proxy = \<lparr>tt_host = ''h'', tt_port = ''443'', tt_proxyScheme = ''http'', tt_proxyHost = proxy, tt_proxyPort = ''80'', tt_proxyAuthorization = []\<rparr>"

lemma tls_cache_resumes_witness:
  "fst (lookupTLSSession (sampleTarget ''p'') (fold tlsStep [Ticket 1 (sampleTarget ''p'') 7, Ticket 2 (sampleTarget ''q'') 8,
      Resume (sampleTarget ''q''), Ticket 3 (sampleTarget ''p'') 9] initTLSSessionCache)) = Some 9"
proof -
  let ?ops = "[Ticket 1 (sampleTarget ''p'') 7, Ticket 2 (sampleTarget ''q'') 8, Resume (sampleTarget ''q''), Ticket 3 (sampleTarget ''p'') 9]"
  have t: "ticketTargets ?ops = {sampleTarget ''p'', sampleTarget ''q''}" by (auto simp: ticketTargets_def)
  have "truncTarget (sampleTarget x) = sampleTarget x" if "length x < 256" for x
    using that by (simp add: truncTarget_def sampleTarget_def strncpyField_def)
  then have "\<forall>t\<in>ticketTargets ?ops. truncTarget t = t" unfolding t by simp
  from tls_cache_resumes [OF this, of "sampleTarget ''p''"] show ?thesis unfolding t by (simp add: card_insert_if)
qed

section \<open>References that are never given back\<close>

text \<open>
  The callback takes over the library's reference and adds one of its own, and the cache gives back
  one: after the cache is emptied a reference to every session is left. The replaced oldest entry
  and every successful lookup leave one more.
\<close>

lemma ticket_reference_leaks:
  "tc_refs (cleanupTLSSessionCache (tlsStep (Ticket now t p) initTLSSessionCache)) p = 1"
proof -
  let ?s = "\<lparr>tl_target = truncTarget t, tl_session = Some p, tl_createdAt = now\<rparr>" and ?e = "\<lparr>tl_target = noTarget, tl_session = None, tl_createdAt = 0\<rparr>"
  have find: "findIndex (slotFor t) (replicate n ?e) = None" for n by (simp add: findIndex_None slotFor_def)
  have free: "findIndex (\<lambda>s. tl_session s = None) (replicate MAX_TLS_SESSION_CACHE ?e) = Some 0"
    by (simp add: MAX_TLS_SESSION_CACHE_def findIndex_iff)
  define c where "c = tlsStep (Ticket now t p) initTLSSessionCache"
  have c: "tc_slots c = (replicate MAX_TLS_SESSION_CACHE ?e)[0 := ?s]" "tc_refs c p = 2"
    using find free by (simp_all add: c_def tlsStep_def newSessionCallback_def cacheTLSSession_def initTLSSessionCache_def
        sessionUpRef_def cacheTLSSessionFillSlot_def)
  define f where "f = (\<lambda>i c. case tl_session (tc_slots c ! i) of
                   None \<Rightarrow> c
                 | Some p \<Rightarrow> (sessionFree p c)\<lparr>tc_slots := (tc_slots c)[i := (tc_slots c ! i)\<lparr>tl_session := None\<rparr>]\<rparr>)"
  have idle: "fold f xs d = d" if "\<forall>i\<in>set xs. tl_session (tc_slots d ! i) = None" for xs d
    using that by (induction xs) (simp_all add: f_def)
  have "[0..<MAX_TLS_SESSION_CACHE] = 0 # [1..<MAX_TLS_SESSION_CACHE]" by (simp add: upt_conv_Cons MAX_TLS_SESSION_CACHE_def)
  moreover have "f 0 c = (sessionFree p c)\<lparr>tc_slots := (tc_slots c)[0 := ?s\<lparr>tl_session := None\<rparr>]\<rparr>"
    by (simp add: f_def c MAX_TLS_SESSION_CACHE_def)
  moreover have "tl_session (tc_slots (f 0 c) ! i) = None" if "i \<in> set [1..<MAX_TLS_SESSION_CACHE]" for i
    using that calculation(2) by (simp add: c)
  ultimately have "cleanupTLSSessionCache c = f 0 c" using idle [of "[1..<MAX_TLS_SESSION_CACHE]" "f 0 c"] by (simp add: cleanupTLSSessionCache_def f_def)
  moreover have "tc_refs (f 0 c) p = 1" by (simp add: f_def c sessionFree_def MAX_TLS_SESSION_CACHE_def)
  ultimately show ?thesis by (simp add: c_def)
qed

lemma lookup_reference_leaks: "fst (lookupTLSSession t c) = Some p \<Longrightarrow> tc_refs (snd (lookupTLSSession t c)) p = tc_refs c p + 1"
  by (auto simp: lookupTLSSession_def sessionUpRef_def split: option.splits)

end
