(* ===== verification/SocketHandler.thy ===== *)
theory SocketHandler
  imports RequestBasket Http11Response
begin

text \<open>
  Opening connections, \<open>src/SocketHandler.c\<close>: trying the addresses of a host, a connect bounded in
  time, and the CONNECT exchange with a proxy. What the operating system answers is a script:
  per address of the host one \<open>addressTry\<close>. A socket is its descriptor.
\<close>

section \<open>What the system answers\<close>

datatype connectOutcome = Connected | InProgress | ConnectFailed

text \<open>
  \<open>ad_socket\<close> is \<open>socket()\<close> (\<open>None\<close> for -1), \<open>ad_nonBlocking\<close> whether the non-blocking mode could
  be set, \<open>ad_connect\<close> \<open>connect()\<close> with the error it left, \<open>ad_select\<close> \<open>select()\<close>, and \<open>ad_soError\<close>
  what \<open>getsockopt\<close> reports (\<open>None\<close> when it fails, 0 for no error).
\<close>

record addressTry =
  ad_socket :: "nat option"
  ad_nonBlocking :: bool
  ad_connect :: connectOutcome
  ad_select :: selectResult
  ad_soError :: "nat option"

definition FD_SETSIZE :: nat where "FD_SETSIZE = 1024"
definition ECONNREFUSED :: nat where "ECONNREFUSED = 111"

section \<open>One address\<close>

definition byPeer :: "bool \<Rightarrow> error \<Rightarrow> error \<Rightarrow> error" where
  "byPeer isProxy proxyError sessionError = (if isProxy then proxyError else sessionError)"

text \<open>The result: 0 when connected, and the basket's error (kept when connected).\<close>

definition connectWithTimeout :: "bool \<Rightarrow> nat \<Rightarrow> addressTry \<Rightarrow> error \<Rightarrow> error \<times> int" where
  "connectWithTimeout isProxy sockfd t e =
     (if \<not> ad_nonBlocking t
      then (byPeer isProxy ERR_PROXY_SOCKET_NONBLOCK_SETTING_FAILED ERR_SESSION_SOCKET_NONBLOCK_SETTING_FAILED, -1)
      else (case ad_connect t of
              Connected \<Rightarrow> (e, 0)
            | ConnectFailed \<Rightarrow> (byPeer isProxy ERR_PROXY_SOCKET_CONNECTING_FAILED ERR_SESSION_SOCKET_CONNECTING_FAILED, -1)
            | InProgress \<Rightarrow>
                if sockfd \<ge> FD_SETSIZE
                then (byPeer isProxy ERR_PROXY_SOCKET_INVALID_FILE_DESCRIPTOR ERR_SESSION_SOCKET_INVALID_FILE_DESCRIPTOR, -1)
                else if ad_select t = SelTimeout
                then (byPeer isProxy ERR_PROXY_SOCKET_CONNECTING_TIMEOUT ERR_SESSION_SOCKET_CONNECTING_TIMEOUT, -1)
                else if ad_select t \<noteq> SelReady
                then (byPeer isProxy ERR_PROXY_SOCKET_CONNECTING_UNKNOWN_ERROR ERR_SESSION_SOCKET_CONNECTING_UNKNOWN_ERROR, -1)
                else (case ad_soError t of
                        None \<Rightarrow> (byPeer isProxy ERR_PROXY_SOCKET_CONNECTING_UNKNOWN_ERROR ERR_SESSION_SOCKET_CONNECTING_UNKNOWN_ERROR, -1)
                      | Some err \<Rightarrow>
                          if err = ECONNREFUSED
                          then (byPeer isProxy ERR_PROXY_SOCKET_CONNECTING_REFUSED ERR_SESSION_SOCKET_CONNECTING_REFUSED, -1)
                          else if err \<noteq> 0
                          then (byPeer isProxy ERR_PROXY_SOCKET_CONNECTING_UNKNOWN_ERROR ERR_SESSION_SOCKET_CONNECTING_UNKNOWN_ERROR, -1)
                          else (e, 0))))"

section \<open>All addresses of a host\<close>

text \<open>What is acquired and released on the way to a session.\<close>

datatype resource = RSocket nat | RSslCtx | RSsl | RConnInfo | RSession | RHpack

datatype resourceEvent = Acquire resource | Release resource

fun tryAddresses :: "bool \<Rightarrow> addressTry list \<Rightarrow> error \<Rightarrow> nat option \<times> error \<times> resourceEvent list" where
  "tryAddresses isProxy [] e = (None, e, [])"
| "tryAddresses isProxy (t # ts) e =
     (case ad_socket t of
        None \<Rightarrow> tryAddresses isProxy ts (byPeer isProxy ERR_PROXY_SOCKET_CREATION_FAILED ERR_SESSION_SOCKET_CREATION_FAILED)
      | Some sockfd \<Rightarrow>
          (case connectWithTimeout isProxy sockfd t e of
             (e, rc) \<Rightarrow>
               if rc = 0 then (Some sockfd, e, [Acquire (RSocket sockfd)])
               else (case tryAddresses isProxy ts e of
                       (fd, e, evs) \<Rightarrow> (fd, e, Acquire (RSocket sockfd) # Release (RSocket sockfd) # evs))))"

text \<open>\<open>addresses\<close> is the result of \<open>getaddrinfo\<close>, \<open>None\<close> when it fails.\<close>

definition createSocket :: "bool \<Rightarrow> addressTry list option \<Rightarrow> error \<Rightarrow> nat option \<times> error \<times> resourceEvent list" where
  "createSocket isProxy addresses e =
     (case addresses of
        None \<Rightarrow> (None, byPeer isProxy ERR_PROXY_HOST_RESOLVE_FAILED ERR_SESSION_HOST_RESOLVE_FAILED, [])
      | Some ts \<Rightarrow>
          (case tryAddresses isProxy ts e of
             (Some sockfd, e, evs) \<Rightarrow> (Some sockfd, e, evs)
           | (None, e, evs) \<Rightarrow> (None, if failed e then e else ERR_SESSION_SOCKET_NO_AVAILABLE_ADDRESS, evs)))"

section \<open>The proxy\<close>

datatype recvOutcome = Received bytes | PeerClosed | RecvTimedOut | RecvFailed

text \<open>
  \<open>ct_sendTimeout\<close> and \<open>ct_recvTimeout\<close> say whether the timeouts could be set, \<open>ct_sent\<close> is what
  \<open>send()\<close> returns, \<open>ct_recv\<close> what the single \<open>recv()\<close> of at most 1023 bytes does.
\<close>

record connectExchange =
  ct_sendTimeout :: bool
  ct_recvTimeout :: bool
  ct_sent :: int
  ct_recv :: recvOutcome

definition connectRequest :: "requestBasket \<Rightarrow> string" where
  "connectRequest basket =
     (let url = rb_components basket; target = uc_host url @ '':'' @ uc_port url; nl = [CHR 0x0D, CHR 0x0A];
          auth = px_authorization (rb_proxy basket)
      in ''CONNECT '' @ target @ '' HTTP/1.1'' @ nl @ ''Host: '' @ target @ nl
         @ (if length auth > 0 then ''Proxy-Authorization: '' @ auth @ nl else [])
         @ ''User-Agent: '' @ getUserAgent (rb_headers basket) @ nl @ ''Connection: keep-alive'' @ nl @ nl)"

text \<open>
  The request is printed into an array of 1024 bytes, but its full length is sent: beyond the array
  the result is \<open>None\<close>. Else the basket and what the function returns.
\<close>

definition connectToProxy :: "connectExchange \<Rightarrow> requestBasket \<Rightarrow> (requestBasket \<times> int) option" where
  "connectToProxy ct basket =
     (let requestLen = length (connectRequest basket)
      in if \<not> ct_sendTimeout ct then Some (basket\<lparr>rb_error := ERR_PROXY_SOCKET_NONBLOCK_SETTING_FAILED\<rparr>, -1)
         else if \<not> ct_recvTimeout ct then Some (basket\<lparr>rb_error := ERR_PROXY_SOCKET_NONBLOCK_SETTING_FAILED\<rparr>, -1)
         else if requestLen > 1024 then None
         else if ct_sent ct \<noteq> int requestLen then Some (basket\<lparr>rb_error := ERR_PROXY_SEND_CONNECT_REQUEST_FAILED\<rparr>, -1)
         else (case ct_recv ct of
                 PeerClosed \<Rightarrow> Some (basket\<lparr>rb_error := ERR_PROXY_EMPTY_RESPONSE\<rparr>, -1)
               | RecvTimedOut \<Rightarrow> Some (basket\<lparr>rb_error := ERR_PROXY_SOCKET_CONNECTING_TIMEOUT\<rparr>, -1)
               | RecvFailed \<Rightarrow> Some (basket\<lparr>rb_error := ERR_PROXY_SEND_CONNECT_REQUEST_FAILED\<rparr>, -1)
               | Received bs \<Rightarrow>
                   (let proxyResponse = cstr (take 1023 bs);
                        basket = basket\<lparr>rb_proxy := (rb_proxy basket)\<lparr>px_response := strncpyField 1024 proxyResponse\<rparr>\<rparr>
                    in if occursIn ''HTTP/1.0 407'' proxyResponse \<or> occursIn ''HTTP/1.1 407'' proxyResponse
                       then Some (basket\<lparr>rb_error := ERR_PROXY_AUTHORIZATION_FAILED\<rparr>, -1)
                       else if \<not> occursIn ''HTTP/1.0 200'' proxyResponse \<and> \<not> occursIn ''HTTP/1.1 200'' proxyResponse
                       then Some (basket\<lparr>rb_error := ERR_PROXY_UNEXPECTED_RESPONSE\<rparr>, -1)
                       else Some (basket, 1))))"

definition createSocketThroughProxy ::
    "addressTry list option \<Rightarrow> connectExchange \<Rightarrow> requestBasket \<Rightarrow> (nat option \<times> requestBasket \<times> resourceEvent list) option" where
  "createSocketThroughProxy addresses ct basket =
     (case createSocket True addresses (rb_error basket) of
        (None, e, evs) \<Rightarrow> Some (None, basket\<lparr>rb_error := e\<rparr>, evs)
      | (Some sockfd, e, evs) \<Rightarrow>
          (case connectToProxy ct (basket\<lparr>rb_error := e\<rparr>) of
             None \<Rightarrow> None
           | Some (basket, connected) \<Rightarrow>
               if connected < 0 then Some (None, basket, evs @ [Release (RSocket sockfd)])
               else Some (Some sockfd, basket, evs)))"

end
