(* ===== verification/CreateSession.thy ===== *)
theory CreateSession
  imports SocketHandler TlsCache
begin

text \<open>
  Opening a session, \<open>createSession\<close> and \<open>createPlainHttp11Session\<close> of \<open>src/Session.c\<close> with the
  SSL objects of \<open>src/SSLHandler.c\<close>. Beside the session the model keeps the trace of what is
  acquired and released: socket, SSL context, SSL object, connection info, session object, HPACK
  context. What the TLS library and the system answer is the record \<open>createEnv\<close>.
\<close>

section \<open>What the library and the system answer\<close>

text \<open>
  \<open>ve_sslNew\<close>: \<open>SSL_new\<close>, \<open>ve_sslFd\<close>: \<open>SSL_set_fd\<close>, \<open>ve_setTimeouts\<close> and \<open>ve_clearTimeouts\<close>: both
  socket timeouts before and after the handshake, \<open>ve_connect\<close>: \<open>SSL_connect\<close>, \<open>ve_alpn\<close>: the
  protocol selected, \<open>ve_write\<close>: \<open>sslWriteAll\<close>, \<open>ve_sessionOk\<close> and \<open>ve_hpackOk\<close>: the allocations of
  \<open>initSession\<close>, \<open>ve_reader\<close>: \<open>pthread_create\<close>.
\<close>

record createEnv =
  ve_addresses :: "addressTry list option"
  ve_exchange :: connectExchange
  ve_ctx :: bool
  ve_sslNew :: bool
  ve_sslFd :: bool
  ve_setTimeouts :: bool
  ve_connect :: bool
  ve_alpn :: bytes
  ve_clearTimeouts :: bool
  ve_nonBlocking :: bool
  ve_write :: "bytes \<Rightarrow> bool"
  ve_sessionOk :: bool
  ve_hpackOk :: bool
  ve_reader :: bool

text \<open>The view of a request's basket the session pool works on.\<close>

definition sessionView :: "nat option \<Rightarrow> requestBasket \<Rightarrow> basket" where
  "sessionView session b =
     \<lparr>bk_scheme = uc_scheme (rb_components b), bk_host = uc_host (rb_components b), bk_port = uc_port (rb_components b),
      bk_proxy = rb_proxy b, bk_nonBlocking = rb_nonBlocking b, bk_forceHttp11 = rb_forceHttp11 b,
      bk_sessionExpiration = rb_sessionExpiration b, bk_clientHelloId = rb_clientHelloId b,
      bk_headerTableSize = (case rb_fingerprint b of None \<Rightarrow> 0 | Some fp \<Rightarrow> fp_headerTableSize fp),
      bk_error = rb_error b, bk_session = session\<rparr>"

section \<open>SSL objects\<close>

definition createSSLContext :: "createEnv \<Rightarrow> requestBasket \<Rightarrow> requestBasket \<times> bool" where
  "createSSLContext env b = (if ve_ctx env then (b, True) else (fail ERR_SESSION_SSL_CTX_CREATION_FAILED b, False))"

text \<open>An SSL object that cannot be tied to the socket is freed at once.\<close>

definition createSSL :: "createEnv \<Rightarrow> requestBasket \<Rightarrow> requestBasket \<times> bool \<times> resourceEvent list" where
  "createSSL env b =
     (if \<not> ve_sslNew env then (fail ERR_SESSION_SSL_OBJECT_CREATION_FAILED b, False, [])
      else if \<not> ve_sslFd env then (fail ERR_SESSION_SSL_FAILED_TO_ASSOCIATE_SOCKET b, False, [Acquire RSsl, Release RSsl])
      else (b, True, [Acquire RSsl]))"

definition configureSSLSettings :: "requestBasket \<Rightarrow> requestBasket \<times> int" where
  "configureSSLSettings b = (if rb_fingerprint b = None then (fail ERR_REQUEST_UNSUPPORTED_USERAGENT b, -1) else (b, 1))"

definition alpnSelectedHttp2 :: "bytes \<Rightarrow> bool" where
  "alpnSelectedHttp2 alpn \<longleftrightarrow> alpn = strBytes ''h2''"

definition alpnSelectedHttp11 :: "bytes \<Rightarrow> bool" where
  "alpnSelectedHttp11 alpn \<longleftrightarrow> alpn = strBytes ''http/1.1''"

text \<open>The protocol of the connection, \<open>None\<close> when the server selected another one.\<close>

definition negotiated :: "createEnv \<Rightarrow> requestBasket \<Rightarrow> httpProtocol option" where
  "negotiated env b =
     (if \<not> rb_forceHttp11 b \<and> alpnSelectedHttp2 (ve_alpn env) then Some HTTP_PROTOCOL_2
      else if rb_forceHttp11 b \<or> alpnSelectedHttp11 (ve_alpn env) \<or> ve_alpn env = [] then Some HTTP_PROTOCOL_1_1
      else None)"

section \<open>Releasing\<close>

definition freeSession :: "bool \<Rightarrow> bool \<Rightarrow> nat \<Rightarrow> resourceEvent list" where
  "freeSession ssl ctx sockfd = (if ssl then [Release RSsl] else []) @ (if ctx then [Release RSslCtx] else []) @ [Release (RSocket sockfd)]"

text \<open>
  \<open>initSession\<close> may fail for want of memory (no session object) or leave a session without HPACK
  context and the error set, which \<open>sessionInitFailed\<close> takes for a failure.
\<close>

definition newSession :: "createEnv \<Rightarrow> httpProtocol \<Rightarrow> requestBasket \<Rightarrow> requestBasket \<times> 'z session option \<times> resourceEvent list" where
  "newSession env protocol b =
     (if \<not> ve_sessionOk env then (fail ERR_SYSTEM_MEMORY_ALLOCATION_FAILED b, None, [])
      else (let hpackOk = (protocol \<noteq> HTTP_PROTOCOL_2 \<or> ve_hpackOk env);
                b = (if hpackOk then b else fail ERR_SYSTEM_MEMORY_ALLOCATION_FAILED b)
            in (b, Some (initSession (sessionView None b) protocol (ve_hpackOk env)),
                Acquire RSession # (if protocol = HTTP_PROTOCOL_2 \<and> hpackOk then [Acquire RHpack] else []))))"

definition sessionInitFailed :: "'z session option \<Rightarrow> requestBasket \<Rightarrow> bool" where
  "sessionInitFailed session b \<longleftrightarrow> session = None \<or> failed (rb_error b)"

section \<open>Plain HTTP\<close>

definition createPlainHttp11Session :: "createEnv \<Rightarrow> requestBasket \<Rightarrow> requestBasket \<times> 'z session option \<times> resourceEvent list" where
  "createPlainHttp11Session env b =
     (let plainProxy = (length (px_host (rb_proxy b)) > 0)
      in case createSocket plainProxy (ve_addresses env) (rb_error b) of
           (None, e, evs) \<Rightarrow> (fail e b, None, evs)
         | (Some sockfd, e, evs) \<Rightarrow>
             (let b = fail e b
              in if rb_nonBlocking b \<and> \<not> ve_nonBlocking env
                 then (fail ERR_SESSION_SOCKET_NONBLOCK_SETTING_FAILED b, None, evs @ [Release (RSocket sockfd)])
                 else (let b = (if plainProxy then b\<lparr>rb_proxy := (rb_proxy b)\<lparr>px_response := ''HTTP/1.1 absolute-form (no CONNECT)''\<rparr>\<rparr> else b);
                           (b, session, evs') = newSession env HTTP_PROTOCOL_1_1 b
                       in if sessionInitFailed session b then (b, None, evs @ evs' @ freeSession False False sockfd)
                          else (b, map_option (\<lambda>s. s\<lparr>ss_plainProxy := plainProxy\<rparr>) session, evs @ evs'))))"

section \<open>TLS\<close>

text \<open>After the handshake: preface and reader thread for HTTP/2, nothing more for HTTP/1.1.\<close>

definition establishSession :: "createEnv \<Rightarrow> httpProtocol \<Rightarrow> nat \<Rightarrow> requestBasket \<Rightarrow> requestBasket \<times> 'z session option \<times> resourceEvent list" where
  "establishSession env protocol sockfd b =
     (let undo = Release RConnInfo # freeSession True True sockfd;
          transport = (if protocol = HTTP_PROTOCOL_2 then snd (establishTransport (ve_write env) (rb_fingerprint b)) else ERR_NONE)
      in if failed transport then (fail transport b, None, undo)
         else (let (b, session, evs) = newSession env protocol b
               in if sessionInitFailed session b then (b, None, evs @ undo)
                  else if protocol = HTTP_PROTOCOL_2 \<and> \<not> ve_reader env
                  then (fail ERR_RESPONSE_READING_CONNECTION_ERROR b, None,
                        evs @ [Release RConnInfo] @ freeSession True True sockfd @ [Release RHpack, Release RSession])
                  else (b, session, evs)))"

text \<open>The TLS connection over an open socket.\<close>

definition tlsSession :: "createEnv \<Rightarrow> nat \<Rightarrow> requestBasket \<Rightarrow> requestBasket \<times> 'z session option \<times> resourceEvent list" where
  "tlsSession env sockfd b =
     (let (b, ctx) = createSSLContext env b
      in if \<not> ctx then (b, None, freeSession False False sockfd)
         else (let (b, ssl, evs) = createSSL env b; evs = Acquire RSslCtx # evs
               in if \<not> ssl then (b, None, evs @ freeSession False True sockfd)
                  else (let (b, configured) = configureSSLSettings b
                        in if configured = -1 then (b, None, evs @ freeSession True True sockfd)
                           else (let evs = evs @ [Acquire RConnInfo]; undo = evs @ Release RConnInfo # freeSession True True sockfd
                                 in if \<not> ve_setTimeouts env then (fail ERR_SESSION_SSL_CONNECT_FAILED b, None, undo)
                                    else if \<not> ve_connect env then (fail ERR_SESSION_SSL_CONNECT_FAILED b, None, undo)
                                    else (case negotiated env b of
                                            None \<Rightarrow> (fail ERR_SESSION_SSL_ALPN_HTTP2_NOT_SELECTED b, None, undo)
                                          | Some protocol \<Rightarrow>
                                              if \<not> ve_clearTimeouts env then (fail ERR_SESSION_SSL_CONNECT_FAILED b, None, undo)
                                              else if rb_nonBlocking b \<and> \<not> ve_nonBlocking env
                                              then (fail ERR_SESSION_SOCKET_NONBLOCK_SETTING_FAILED b, None, undo)
                                              else (let (b, session, evs') = establishSession env protocol sockfd b
                                                    in (b, session, evs @ evs')))))))"

text \<open>\<open>None\<close> when the CONNECT request overruns its array.\<close>

definition createSession :: "createEnv \<Rightarrow> requestBasket \<Rightarrow> (requestBasket \<times> 'z session option \<times> resourceEvent list) option" where
  "createSession env b =
     (if strcaseeq (uc_scheme (rb_components b)) ''http'' then Some (createPlainHttp11Session env b)
      else (case (if length (px_host (rb_proxy b)) > 0 then createSocketThroughProxy (ve_addresses env) (ve_exchange env) b
                  else (case createSocket False (ve_addresses env) (rb_error b) of (fd, e, evs) \<Rightarrow> Some (fd, fail e b, evs))) of
              None \<Rightarrow> None
            | Some (None, b, evs) \<Rightarrow> Some (b, None, evs)
            | Some (Some sockfd, b, evs) \<Rightarrow>
                (case tlsSession env sockfd b of (b, session, evs') \<Rightarrow> Some (b, session, evs @ evs'))))"


section \<open>Who owns what\<close>

text \<open>Running the trace: acquiring twice or releasing what is not held is an error.\<close>

fun heldAfter :: "resource set \<Rightarrow> resourceEvent list \<Rightarrow> resource set option" where
  "heldAfter held [] = Some held"
| "heldAfter held (Acquire r # evs) = (if r \<in> held then None else heldAfter (insert r held) evs)"
| "heldAfter held (Release r # evs) = (if r \<in> held then heldAfter (held - {r}) evs else None)"

lemma heldAfter_append: "heldAfter held (xs @ ys) = Option.bind (heldAfter held xs) (\<lambda>held. heldAfter held ys)"
  by (induction held xs rule: heldAfter.induct) auto

text \<open>What a session owns: over TLS also context, SSL object and connection info, for HTTP/2 the HPACK context.\<close>

definition sessionOwns :: "bool \<Rightarrow> nat \<Rightarrow> 'z session \<Rightarrow> resource set" where
  "sessionOwns tls sockfd s = {RSocket sockfd, RSession} \<union> (if tls then {RSslCtx, RSsl, RConnInfo} else {})
     \<union> (if ss_protocol s = HTTP_PROTOCOL_2 then {RHpack} else {})"

definition createdOk :: "bool \<Rightarrow> requestBasket \<times> 'z session option \<times> resourceEvent list \<Rightarrow> resource set \<Rightarrow> bool" where
  "createdOk tls result held \<longleftrightarrow>
     (case result of
        (b, None, evs) \<Rightarrow> failed (rb_error b) \<and> (\<exists>live. heldAfter held evs = Some live \<and> live \<subseteq> {RSession, RHpack})
      | (b, Some s, evs) \<Rightarrow> \<not> failed (rb_error b) \<and> (\<exists>sockfd. heldAfter held evs = Some (sessionOwns tls sockfd s)))"

lemma tryAddresses_held:
  "(\<forall>n. RSocket n \<notin> held) \<Longrightarrow> tryAddresses isProxy ts e = (fd, e', evs) \<Longrightarrow>
     heldAfter held evs = Some (case fd of None \<Rightarrow> held | Some sockfd \<Rightarrow> insert (RSocket sockfd) held)"
proof (induction isProxy ts e arbitrary: e' evs rule: tryAddresses.induct)
  case (2 isProxy t ts e)
  show ?case
  proof (cases "ad_socket t")
    case None
    then show ?thesis using 2 by simp
  next
    case (Some a)
    obtain e1 rc where c: "connectWithTimeout isProxy a t e = (e1, rc)" by fastforce
    show ?thesis
    proof (cases "rc = 0")
      case True
      have "fd = Some a \<and> evs = [Acquire (RSocket a)]" using 2(4) by (simp add: Some c True)
      then show ?thesis using 2(3) by simp
    next
      case False
      obtain fd1 e2 evs1 where "tryAddresses isProxy ts e1 = (fd1, e2, evs1)" by (metis prod_cases3)
      then show ?thesis using 2(2) [OF Some] 2(3,4) Some c False by auto
    qed
  qed
qed simp

lemma createSocket_held:
  assumes "createSocket isProxy addresses e = (fd, e', evs)"
  shows "heldAfter {} evs = Some (case fd of None \<Rightarrow> {} | Some sockfd \<Rightarrow> {RSocket sockfd})" "fd = None \<Longrightarrow> failed e'"
proof -
  show "heldAfter {} evs = Some (case fd of None \<Rightarrow> {} | Some sockfd \<Rightarrow> {RSocket sockfd})"
    using assms tryAddresses_held [of "{}" isProxy _ e] by (auto simp: createSocket_def split: option.splits prod.splits)
  show "fd = None \<Longrightarrow> failed e'"
    using assms by (auto simp: createSocket_def byPeer_def split: option.splits prod.splits if_splits)
qed

lemma throughProxy_held:
  assumes "createSocketThroughProxy addresses ct b = Some (fd, b', evs)"
  shows "heldAfter {} evs = Some (case fd of None \<Rightarrow> {} | Some sockfd \<Rightarrow> {RSocket sockfd})" "fd = None \<Longrightarrow> failed (rb_error b')"
proof -
  obtain fd0 e evs0 where c: "createSocket True addresses (rb_error b) = (fd0, e, evs0)" by (metis prod_cases3)
  note held = createSocket_held [OF c]
  have "connectToProxy ct b0 = Some (b1, rc) \<Longrightarrow> rc < 0 \<Longrightarrow> failed (rb_error b1)" for b0 b1 rc
    by (auto simp: connectToProxy_def Let_def split: if_splits recvOutcome.splits)
  then show "heldAfter {} evs = Some (case fd of None \<Rightarrow> {} | Some sockfd \<Rightarrow> {RSocket sockfd})" "fd = None \<Longrightarrow> failed (rb_error b')"
    using assms held by (auto simp: createSocketThroughProxy_def c heldAfter_append split: option.splits if_splits prod.splits)
qed

lemma establishTransport_error: "failed (snd (establishTransport write fp)) \<or> snd (establishTransport write fp) = ERR_NONE"
  by (auto simp: establishTransport_def split: option.split)

lemma fail_error [simp]: "rb_error (fail e b) = e"
  by (simp add: fail_def)

lemma initSession_protocol [simp]: "ss_protocol (initSession bk protocol ok) = protocol"
  by (simp add: initSession_def)

lemma newSession_held:
  assumes "newSession env protocol b = (b', s, evs)" "RSession \<notin> held" "RHpack \<notin> held"
  shows "heldAfter held evs = Some (held \<union> (if s = None then {} else insert RSession (if protocol = HTTP_PROTOCOL_2 \<and> ve_hpackOk env then {RHpack} else {})))"
    "s = None \<Longrightarrow> failed (rb_error b')" "\<not> failed (rb_error b') \<Longrightarrow> protocol = HTTP_PROTOCOL_2 \<Longrightarrow> ve_hpackOk env"
    "\<And>x. s = Some x \<Longrightarrow> ss_protocol x = protocol"
  using assms by (auto simp: newSession_def Let_def split: if_splits)


lemma establishSession_held:
  fixes s :: "'z session option"
  assumes "establishSession env protocol sockfd b = (b', s, evs)"
  shows "createdOk True (b', s, evs) {RSocket sockfd, RSslCtx, RSsl, RConnInfo}"
proof -
  let ?held = "{RSocket sockfd, RSslCtx, RSsl, RConnInfo}"
  let ?transport = "if protocol = HTTP_PROTOCOL_2 then snd (establishTransport (ve_write env) (rb_fingerprint b)) else ERR_NONE"
  show ?thesis
  proof (cases "failed ?transport")
    case True
    then show ?thesis using assms by (auto simp: establishSession_def createdOk_def freeSession_def Let_def split: if_splits)
  next
    case False
    obtain b1 evs1 and s1 :: "'z session option" where n: "newSession env protocol b = (b1, s1, evs1)" by (metis prod_cases3)
    note held = newSession_held [OF n, of ?held]
    show ?thesis
      using assms False held
      by (auto simp: establishSession_def n createdOk_def sessionInitFailed_def freeSession_def heldAfter_append Let_def
          sessionOwns_def split: if_splits option.splits)
  qed
qed

lemma tlsSession_held:
  fixes s :: "'z session option"
  assumes "tlsSession env sockfd b = (b', s, evs)"
  shows "createdOk True (b', s, evs) {RSocket sockfd}"
proof (cases "ve_ctx env \<and> ve_sslNew env \<and> ve_sslFd env \<and> rb_fingerprint b \<noteq> None \<and> ve_setTimeouts env \<and> ve_connect env
    \<and> negotiated env b \<noteq> None \<and> ve_clearTimeouts env \<and> \<not> (rb_nonBlocking b \<and> \<not> ve_nonBlocking env)")
  case False
  then show ?thesis
    using assms by (auto simp: tlsSession_def createSSLContext_def createSSL_def configureSSLSettings_def createdOk_def freeSession_def
        Let_def heldAfter_append split: if_splits option.splits prod.splits)
next
  case True
  then obtain protocol where p: "negotiated env b = Some protocol" by auto
  obtain b1 evs1 and s1 :: "'z session option" where e: "establishSession env protocol sockfd b = (b1, s1, evs1)" by (metis prod_cases3)
  have "evs = [Acquire RSslCtx, Acquire RSsl, Acquire RConnInfo] @ evs1" "b' = b1" "s = s1"
    using assms True by (auto simp: tlsSession_def createSSLContext_def createSSL_def configureSSLSettings_def Let_def p e)
  moreover have "{RConnInfo, RSsl, RSslCtx, RSocket sockfd} = {RSocket sockfd, RSslCtx, RSsl, RConnInfo}" by auto
  ultimately show ?thesis using establishSession_held [OF e] by (simp add: createdOk_def split: option.splits)
qed

lemma createPlain_held: "createdOk False (createPlainHttp11Session env b :: requestBasket \<times> 'z session option \<times> resourceEvent list) {}"
proof -
  obtain fd e evs where c: "createSocket (px_host (rb_proxy b) \<noteq> []) (ve_addresses env) (rb_error b) = (fd, e, evs)" by (metis prod_cases3)
  note held = createSocket_held [OF c]
  show ?thesis
  proof (cases fd)
    case None
    then show ?thesis using held by (simp add: createPlainHttp11Session_def c createdOk_def)
  next
    case (Some sockfd)
    define b0 where "b0 = (if px_host (rb_proxy b) \<noteq> []
      then (fail e b)\<lparr>rb_proxy := (rb_proxy (fail e b))\<lparr>px_response := ''HTTP/1.1 absolute-form (no CONNECT)''\<rparr>\<rparr> else fail e b)"
    obtain b1 evs1 and s1 :: "'z session option" where n: "newSession env HTTP_PROTOCOL_1_1 b0 = (b1, s1, evs1)" by (metis prod_cases3)
    note new = newSession_held [OF n, of "{RSocket sockfd}"]
    have r: "createPlainHttp11Session env b =
        (if rb_nonBlocking b \<and> \<not> ve_nonBlocking env
         then (fail ERR_SESSION_SOCKET_NONBLOCK_SETTING_FAILED (fail e b), None, evs @ [Release (RSocket sockfd)])
         else if sessionInitFailed s1 b1 then (b1, None, evs @ evs1 @ freeSession False False sockfd)
         else (b1, map_option (\<lambda>s. s\<lparr>ss_plainProxy := px_host (rb_proxy b) \<noteq> []\<rparr>) s1, evs @ evs1))"
      using n c by (cases "px_host (rb_proxy b) = []") (simp_all add: createPlainHttp11Session_def Some Let_def b0_def fail_def)
    have evs: "heldAfter {} evs = Some {RSocket sockfd}" using held(1) Some by simp
    show ?thesis
    proof (cases "rb_nonBlocking b \<and> \<not> ve_nonBlocking env")
      case True
      then show ?thesis using evs by (simp add: r createdOk_def heldAfter_append)
    next
      case False
      show ?thesis
        using evs new by (cases s1) (auto simp: r False createdOk_def heldAfter_append freeSession_def sessionInitFailed_def sessionOwns_def)
    qed
  qed
qed

text \<open>C24. Opening a session never releases anything twice nor uses what is gone, and either ends with a
  session, no error, and exactly the session's own resources held (over TLS socket, context, SSL
  object and connection info, for HTTP/2 the HPACK context), or with an error and at most the
  session object and its HPACK context left behind.\<close>

theorem create_session_resources:
  fixes session :: "'z session option"
  assumes "createSession env b = Some (b', session, evs)"
  shows "case session of
      None \<Rightarrow> failed (rb_error b') \<and> (\<exists>live. heldAfter {} evs = Some live \<and> live \<subseteq> {RSession, RHpack})
    | Some s \<Rightarrow> \<not> failed (rb_error b') \<and> (\<exists>sockfd. heldAfter {} evs =
        Some (sessionOwns (\<not> strcaseeq (uc_scheme (rb_components b)) ''http'') sockfd s))"
proof (cases "strcaseeq (uc_scheme (rb_components b)) ''http''")
  case True
  then have "createPlainHttp11Session env b = (b', session, evs)" using assms by (simp add: createSession_def)
  then show ?thesis using createPlain_held [of env b, where ?'z = 'z] True by (simp add: createdOk_def split: option.splits)
next
  case False
  obtain fd b1 evs1 where sock: "(if length (px_host (rb_proxy b)) > 0 then createSocketThroughProxy (ve_addresses env) (ve_exchange env) b
      else (case createSocket False (ve_addresses env) (rb_error b) of (fd, e, evs) \<Rightarrow> Some (fd, fail e b, evs))) = Some (fd, b1, evs1)"
    using assms False by (auto simp: createSession_def split: option.splits if_splits prod.splits)
  have held: "heldAfter {} evs1 = Some (case fd of None \<Rightarrow> {} | Some sockfd \<Rightarrow> {RSocket sockfd})" "fd = None \<Longrightarrow> failed (rb_error b1)"
    using sock throughProxy_held [of "ve_addresses env" "ve_exchange env" b fd b1 evs1] createSocket_held [of False "ve_addresses env" "rb_error b"]
    by (auto split: if_splits prod.splits)
  show ?thesis
  proof (cases fd)
    case None
    have "b' = b1 \<and> session = None \<and> evs = evs1" using assms False unfolding createSession_def sock None by simp
    then show ?thesis using held None by simp
  next
    case (Some sockfd)
    obtain b2 evs2 and s2 :: "'z session option" where t: "tlsSession env sockfd b1 = (b2, s2, evs2)" by (metis prod_cases3)
    have "b' = b2" "session = s2" "evs = evs1 @ evs2" using assms False unfolding createSession_def sock Some by (simp_all add: t)
    then show ?thesis using tlsSession_held [OF t] held(1) False by (simp add: Some createdOk_def heldAfter_append split: option.splits)
  qed
qed


definition goodAddress :: "nat \<Rightarrow> addressTry" where
  "goodAddress fd = \<lparr>ad_socket = Some fd, ad_nonBlocking = True, ad_connect = InProgress, ad_select = SelReady, ad_soError = Some 0\<rparr>"

definition refusedAddress :: "nat \<Rightarrow> addressTry" where
  "refusedAddress fd = (goodAddress fd)\<lparr>ad_soError := Some ECONNREFUSED\<rparr>"

definition sampleEnv :: "addressTry list \<Rightarrow> createEnv" where
  "sampleEnv addresses =
     \<lparr>ve_addresses = Some addresses, ve_exchange = \<lparr>ct_sendTimeout = True, ct_recvTimeout = True, ct_sent = 0, ct_recv = PeerClosed\<rparr>,
      ve_ctx = True, ve_sslNew = True, ve_sslFd = True, ve_setTimeouts = True, ve_connect = True, ve_alpn = strBytes ''h2'',
      ve_clearTimeouts = True, ve_nonBlocking = True, ve_write = (\<lambda>_. True), ve_sessionOk = True, ve_hpackOk = True, ve_reader = True\<rparr>"

definition secureRequest :: requestBasket where
  "secureRequest = initBasket\<lparr>rb_components := noComponents\<lparr>uc_scheme := ''https'', uc_host := ''h'', uc_port := ''443''\<rparr>,
     rb_fingerprint := Some CHROME_FINGERPRINT_152\<rparr>"

lemma secure_parts:
  "uc_scheme (rb_components secureRequest) = ''https''" "px_host (rb_proxy secureRequest) = []" "rb_error secureRequest = ERR_NONE"
  "rb_fingerprint secureRequest = Some CHROME_FINGERPRINT_152" "\<not> rb_forceHttp11 secureRequest" "rb_nonBlocking secureRequest"
  "\<not> strcaseeq ''https'' ''http''"
  by (simp_all add: secureRequest_def initBasket_def noProxy_def) code_simp

lemma good_connect: "fd < FD_SETSIZE \<Longrightarrow> connectWithTimeout isProxy fd (goodAddress fd) e = (e, 0)"
  by (simp add: connectWithTimeout_def goodAddress_def ECONNREFUSED_def)

lemma secure_sample:
  assumes "tryAddresses False addresses ERR_NONE = (Some 3, e, evs)"
  shows "createSession (sampleEnv addresses) secureRequest =
    (let b = fail e secureRequest
     in if failed e then Some (b, None :: 'z session option, evs @ [Acquire RSslCtx, Acquire RSsl, Acquire RConnInfo, Acquire RSession, Acquire RHpack,
          Release RConnInfo, Release RSsl, Release RSslCtx, Release (RSocket 3)])
        else Some (b, Some (initSession (sessionView None b) HTTP_PROTOCOL_2 True),
          evs @ [Acquire RSslCtx, Acquire RSsl, Acquire RConnInfo, Acquire RSession, Acquire RHpack]))"
  using assms by (simp add: createSession_def createSocket_def sampleEnv_def secure_parts tlsSession_def createSSLContext_def createSSL_def
      configureSSLSettings_def negotiated_def alpnSelectedHttp2_def establishSession_def establishTransport_def newSession_def sessionInitFailed_def
      freeSession_def fail_def Let_def)

lemma create_session_resources_witness:
  "\<exists>s :: nat session. \<exists>b evs sockfd. createSession (sampleEnv [goodAddress 3]) secureRequest = Some (b, Some s, evs)
     \<and> heldAfter {} evs = Some (sessionOwns True sockfd s)"
proof -
  have t: "tryAddresses False [goodAddress 3] ERR_NONE = (Some 3, ERR_NONE, [Acquire (RSocket 3)])"
    using good_connect [of 3 False ERR_NONE] by (simp add: goodAddress_def FD_SETSIZE_def)
  obtain b s evs where c: "createSession (sampleEnv [goodAddress 3]) secureRequest = Some (b, Some (s :: nat session), evs)"
    using secure_sample [OF t, where ?'z = nat] by (simp add: Let_def)
  from create_session_resources [OF c] show ?thesis using c by (auto simp: secure_parts)
qed

text \<open>
  The error of an address that failed stays in the basket when a later address connects:
  \<open>sessionInitFailed\<close> then gives up the session after the whole handshake, and the session object
  with its HPACK context is leaked. Only the first address of a host can ever be used.
\<close>

lemma second_address_useless:
  "createSession (sampleEnv [refusedAddress 3, goodAddress 3]) secureRequest = Some (b, session :: nat session option, evs) \<Longrightarrow>
     session = None \<and> rb_error b = ERR_SESSION_SOCKET_CONNECTING_REFUSED \<and> heldAfter {} evs = Some {RSession, RHpack}"
proof -
  have t: "tryAddresses False [refusedAddress 3, goodAddress 3] ERR_NONE
      = (Some 3, ERR_SESSION_SOCKET_CONNECTING_REFUSED, [Acquire (RSocket 3), Release (RSocket 3), Acquire (RSocket 3)])"
    using good_connect [of 3 False ERR_SESSION_SOCKET_CONNECTING_REFUSED]
    by (simp add: refusedAddress_def goodAddress_def connectWithTimeout_def byPeer_def FD_SETSIZE_def)
  show "createSession (sampleEnv [refusedAddress 3, goodAddress 3]) secureRequest = Some (b, session, evs) \<Longrightarrow>
     session = None \<and> rb_error b = ERR_SESSION_SOCKET_CONNECTING_REFUSED \<and> heldAfter {} evs = Some {RSession, RHpack}"
    using secure_sample [OF t, where ?'z = nat] by (auto simp: Let_def)
qed

text \<open>With a long authorization the CONNECT request is longer than its array, and the bytes behind it are sent.\<close>

lemma long_authorization_overreads:
  "ct_sendTimeout ct \<Longrightarrow> ct_recvTimeout ct \<Longrightarrow> length (px_authorization (rb_proxy b)) \<ge> 1000 \<Longrightarrow> connectToProxy ct b = None"
proof -
  assume a: "ct_sendTimeout ct" "ct_recvTimeout ct" "length (px_authorization (rb_proxy b)) \<ge> 1000"
  then have "px_authorization (rb_proxy b) \<noteq> []" by auto
  then have "length (connectRequest b) > 1024" using a(3) by (simp add: connectRequest_def Let_def)
  then show "connectToProxy ct b = None" using a by (simp add: connectToProxy_def)
qed

end
