(* ===== verification/ClientResult.thy ===== *)
theory ClientResult
  imports CreateSession Http11Request
begin

text \<open>
  What a finished request hands back: moving the response out of its stream
  (\<open>finalizeStreamIntoBasket\<close> of \<open>src/Http2ResponseHandler.c\<close>), and the JSON text of a basket
  (\<open>basketToString\<close> of \<open>src/Basket.c\<close>), copied into the caller's buffer by \<open>copyBasketResult\<close> of
  \<open>src/HttpClient.c\<close>.
\<close>

section \<open>A request under way\<close>

text \<open>The basket of a request together with its response, sink, session and cached result.\<close>

record 'z exchange = requestBasket +
  ex_headers :: "header list option"
  ex_payload :: "bytes option"
  ex_payloadSize :: nat
  ex_sink :: "'z responseSink option"
  ex_session :: "nat option"
  ex_streamId :: "32 word"
  ex_requestId :: nat
  ex_serializedResult :: "string option"

section \<open>The response\<close>

text \<open>\<open>base64\<close> is \<open>EVP_EncodeBlock\<close>. A result of \<open>None\<close> is a decoder that does not end or overruns its buffer.\<close>

definition base64Encode :: "(nat \<Rightarrow> bool) \<Rightarrow> (bytes \<Rightarrow> bytes) \<Rightarrow> bytes \<Rightarrow> bytes option" where
  "base64Encode alloc base64 data =
     (if data = [] then None
      else if \<not> alloc (((length data + 2) div 3) * 4 + 1) then None else Some (base64 data))"

definition decompressAs :: "(nat \<Rightarrow> bool) \<Rightarrow> 'z decoderLib \<Rightarrow> contentEncoding \<Rightarrow> bytes \<Rightarrow> decompressedObj option" where
  "decompressAs alloc lib encoding payload =
     (case encoding of
        ENCODING_GZIP \<Rightarrow> decompress_GZip alloc lib payload
      | ENCODING_BROTLI \<Rightarrow> decompress_Brotli alloc lib payload
      | ENCODING_DEFLATE \<Rightarrow> decompress_Deflate alloc lib payload
      | ENCODING_ZSTD \<Rightarrow> decompress_Zstd alloc lib payload
      | ENCODING_IDENTITY \<Rightarrow> Some DecompNull)"

definition finalizeResponsePayload ::
    "(nat \<Rightarrow> bool) \<Rightarrow> 'z decoderLib \<Rightarrow> (bytes \<Rightarrow> bytes) \<Rightarrow> bytes \<Rightarrow> bool \<Rightarrow> 'z exchange \<Rightarrow> 'z exchange option" where
  "finalizeResponsePayload alloc lib base64 combinedPayload payloadDecoded basket =
     (if length combinedPayload = 0 then Some (basket\<lparr>ex_payload := None\<rparr>)
      else (let encoding = (if payloadDecoded then ENCODING_IDENTITY
                            else detectContentEncoding (case ex_headers basket of None \<Rightarrow> [] | Some hs \<Rightarrow> hs))
            in if encoding = ENCODING_IDENTITY then
                 (if \<not> alloc (length combinedPayload + 1) then Some (basket\<lparr>rb_error := ERR_SYSTEM_MEMORY_ALLOCATION_FAILED\<rparr>)
                  else Some (basket\<lparr>ex_payload := Some combinedPayload, ex_payloadSize := length combinedPayload\<rparr>))
               else if word_of_int (rb_decompress basket) AND encodingBit encoding = 0 then
                 Some (basket\<lparr>ex_payload := base64Encode alloc base64 combinedPayload, ex_payloadSize := length combinedPayload\<rparr>)
               else (case decompressAs alloc lib encoding combinedPayload of
                       None \<Rightarrow> None
                     | Some DecompOverflow \<Rightarrow> None
                     | Some (DecompOk out) \<Rightarrow> Some (basket\<lparr>ex_payload := Some out\<rparr>)
                     | Some _ \<Rightarrow> Some (basket\<lparr>rb_error := ERR_RESPONSE_INFLATE_UNKNOWN_ERROR\<rparr>))))"

definition finalizeStreamIntoBasket ::
    "(nat \<Rightarrow> bool) \<Rightarrow> 'z decoderLib \<Rightarrow> (bytes \<Rightarrow> bytes) \<Rightarrow> 'z exchange \<Rightarrow> 'z hstream \<Rightarrow> ('z exchange \<times> 'z hstream) option" where
  "finalizeStreamIntoBasket alloc lib base64 basket stream =
     (if failed (st_error stream) then Some (basket\<lparr>rb_error := st_error stream\<rparr>, stream)
      else (let basket = basket\<lparr>ex_headers := st_headers stream\<rparr>;
                combinedPayload = st_combinedPayload stream; payloadDecoded = st_payloadDecoded stream;
                stream = stream\<lparr>st_headers := None, st_combinedPayload := []\<rparr>
            in map_option (\<lambda>basket. (basket, stream)) (finalizeResponsePayload alloc lib base64 combinedPayload payloadDecoded basket)))"

section \<open>The result as JSON\<close>

text \<open>
  The functions of jansson that build a value. \<open>jb_string\<close> is \<open>json_string\<close>: null for text that is
  not UTF-8; \<open>jb_set\<close> is \<open>json_object_set_new\<close>: storing null fails and changes nothing;
  \<open>jb_append\<close> is \<open>json_array_append_new\<close>. \<open>jb_text\<close> is \<open>json_string_value\<close> and \<open>jb_dumps\<close> \<open>json_dumps\<close>.
\<close>

record 'j jsonBuilder =
  jb_object :: 'j
  jb_array :: 'j
  jb_string :: "string \<Rightarrow> 'j option"
  jb_integer :: "int \<Rightarrow> 'j"
  jb_set :: "'j \<Rightarrow> string \<Rightarrow> 'j option \<Rightarrow> 'j"
  jb_append :: "'j \<Rightarrow> 'j option \<Rightarrow> 'j"
  jb_get :: "'j \<Rightarrow> string \<Rightarrow> 'j option"
  jb_text :: "'j \<Rightarrow> string option"
  jb_dumps :: "'j \<Rightarrow> string option"

text \<open>
  One response header. The array of the cookies is appended to in place, inside the object. A
  repeated header is joined with a comma; its earlier value is a string, or absent.
\<close>

definition addResponseHeader :: "'j jsonBuilder \<Rightarrow> header \<Rightarrow> 'j \<Rightarrow> 'j" where
  "addResponseHeader J h responseHeaders =
     (let (name, v) = h
      in if strcaseeq name ''set-cookie'' then
           (let (cookies, responseHeaders) =
                  (case jb_get J responseHeaders ''set-cookie'' of
                     Some c \<Rightarrow> (c, responseHeaders)
                   | None \<Rightarrow> (jb_array J, jb_set J responseHeaders ''set-cookie'' (Some (jb_array J))))
            in jb_set J responseHeaders ''set-cookie'' (Some (jb_append J cookies (jb_string J v))))
         else (case jb_get J responseHeaders name of
                 Some existing \<Rightarrow>
                   (let old = (case jb_text J existing of None \<Rightarrow> [] | Some t \<Rightarrow> t)
                    in jb_set J responseHeaders name (jb_string J (old @ '', '' @ v)))
               | None \<Rightarrow> jb_set J responseHeaders name (jb_string J v)))"

definition responseHeadersJson :: "'j jsonBuilder \<Rightarrow> header list \<Rightarrow> 'j" where
  "responseHeadersJson J hs = fold (addResponseHeader J) hs (jb_object J)"

definition requestHeadersJson :: "'j jsonBuilder \<Rightarrow> reqHeader list \<Rightarrow> 'j" where
  "requestHeadersJson J hs = fold (\<lambda>h a. jb_append J a (jb_string J (rh_name h @ '': '' @ rh_value h))) hs (jb_array J)"

text \<open>A string pointer that may be null.\<close>

definition textq :: "'j jsonBuilder \<Rightarrow> string option \<Rightarrow> 'j option" where
  "textq J s = (case s of None \<Rightarrow> None | Some s \<Rightarrow> jb_string J s)"

definition sessionJson :: "'j jsonBuilder \<Rightarrow> (int \<times> int) option \<Rightarrow> 'z exchange \<Rightarrow> 'j" where
  "sessionJson J session basket =
     (let o' = jb_set J (jb_object J) ''clientHelloId'' (jb_string J (rb_clientHelloId basket))
      in case session of
           None \<Rightarrow> o'
         | Some (creationTime, expiration) \<Rightarrow>
             jb_set J (jb_set J (jb_set J o' ''creationTime'' (Some (jb_integer J creationTime)))
               ''streamId'' (Some (jb_integer J (uint (ex_streamId basket))))) ''expirationInMilliseconds'' (Some (jb_integer J expiration)))"

definition proxyJson :: "'j jsonBuilder \<Rightarrow> proxy \<Rightarrow> 'j" where
  "proxyJson J p =
     (let o' = jb_set J (jb_set J (jb_set J (jb_set J (jb_object J) ''scheme'' (jb_string J (px_scheme p))) ''host'' (jb_string J (px_host p)))
                 ''port'' (jb_string J (px_port p))) ''authorization'' (jb_string J (px_authorization p))
      in if length (px_response p) > 0 then jb_set J o' ''response'' (jb_string J (px_response p)) else o')"

definition responseJson :: "'j jsonBuilder \<Rightarrow> 'z exchange \<Rightarrow> 'j" where
  "responseJson J basket =
     (let o' = jb_set J (jb_object J) ''headers'' (Some (responseHeadersJson J (case ex_headers basket of None \<Rightarrow> [] | Some hs \<Rightarrow> hs)));
          o' = jb_set J o' ''streamed'' (Some (jb_integer J (if isContractStreamed (ex_sink basket) then 1 else 0)))
      in jb_set J o' ''payload'' (case ex_payload basket of None \<Rightarrow> jb_string J [] | Some p \<Rightarrow> jb_string J (cstr p)))"

definition errorJson :: "'j jsonBuilder \<Rightarrow> error \<Rightarrow> 'j" where
  "errorJson J e =
     (if failed e then jb_set J (jb_set J (jb_object J) ''code'' (textq J (fst e))) ''message'' (textq J (snd e)) else jb_object J)"

text \<open>
  \<open>session\<close> is what the code reads of the basket's session, its creation time and expiration. A
  proxy that answered nothing is an error of the basket.
\<close>

definition proxyChecked :: "'z exchange \<Rightarrow> 'z exchange" where
  "proxyChecked basket =
     (if length (px_host (rb_proxy basket)) > 0 \<and> length (px_response (rb_proxy basket)) = 0
      then basket\<lparr>rb_error := ERR_PROXY_EMPTY_RESPONSE\<rparr> else basket)"

definition basketJson :: "'j jsonBuilder \<Rightarrow> (int \<times> int) option \<Rightarrow> 'z exchange \<Rightarrow> 'j" where
  "basketJson J session basket =
     (let int' = (\<lambda>i. Some (jb_integer J i));
          root = jb_set J (jb_set J (jb_object J) ''url'' (textq J (rb_url basket))) ''method'' (textq J (rb_method basket));
          root = jb_set J root ''connectTimeoutInMilliseconds'' (int' (rb_connectTimeout basket));
          root = jb_set J root ''responseReadingTimeoutInMilliseconds'' (int' (rb_responseReadingTimeout basket));
          root = jb_set J root ''decompress'' (int' (rb_decompress basket));
          root = jb_set J root ''non-blocking'' (int' (if rb_nonBlocking basket then 1 else 0));
          root = jb_set J root ''session'' (Some (sessionJson J session basket));
          root = (if length (px_host (rb_proxy basket)) > 0 then jb_set J root ''proxy'' (Some (proxyJson J (rb_proxy basket))) else root);
          request = jb_set J (jb_object J) ''headers'' (Some (requestHeadersJson J (rb_headers basket)));
          request = (case rb_payload basket of None \<Rightarrow> request | Some p \<Rightarrow> jb_set J request ''payload'' (jb_string J p));
          root = jb_set J root ''request'' (Some request);
          root = jb_set J root ''response'' (Some (responseJson J basket))
      in jb_set J root ''error'' (Some (errorJson J (rb_error (proxyChecked basket)))))"

definition basketToString :: "'j jsonBuilder \<Rightarrow> (int \<times> int) option \<Rightarrow> 'z exchange \<Rightarrow> 'z exchange \<times> string option" where
  "basketToString J session basket = (proxyChecked basket, jb_dumps J (basketJson J session basket))"

section \<open>Copying it out\<close>

text \<open>
  The status, the length reported, and what was written to the caller's buffer. A length is an
  \<open>int\<close>: \<open>None\<close> when a longer text makes it negative.
\<close>

definition copyBasketResult ::
    "'j jsonBuilder \<Rightarrow> (int \<times> int) option \<Rightarrow> int \<Rightarrow> 'z exchange \<Rightarrow> ('z exchange \<times> int \<times> int \<times> string option) option" where
  "copyBasketResult J session capacity basket =
     (case (if ex_serializedResult basket \<noteq> None then (basket, ex_serializedResult basket) else basketToString J session basket) of
        (basket, None) \<Rightarrow> Some (basket, -1, 0, None)
      | (basket, Some result) \<Rightarrow>
          (let basket = basket\<lparr>ex_serializedResult := Some result\<rparr>; len = toInt32 (int (length result))
           in if len < 0 then None
              else if len \<ge> capacity then Some (basket, 2, len, None)
              else Some (basket, 1, len, Some result)))"

section \<open>Where the result is wrong\<close>

text \<open>
  Whatever went wrong on the way to a proxy, the error in the result is that the proxy gave no answer.
\<close>

lemma proxy_error_masked:
  assumes "px_host (rb_proxy b) \<noteq> []" "px_response (rb_proxy b) = []"
  shows "rb_error (fst (basketToString J session b)) = ERR_PROXY_EMPTY_RESPONSE"
  using assms by (simp add: basketToString_def proxyChecked_def)

text \<open>
  A poll with too small a buffer leaves the basket registered, and the next poll moves the response
  out of its stream once more: the headers already moved are dropped.
\<close>

lemma finalize_keeps_headers:
  "finalizeResponsePayload alloc lib base64 payload plain b = Some b' \<Longrightarrow> ex_headers b' = ex_headers b"
  by (auto simp: finalizeResponsePayload_def Let_def split: if_splits option.splits decompressedObj.splits)

lemma second_finalize_drops_headers:
  assumes "finalizeStreamIntoBasket alloc lib base64 b st = Some (b1, st1)" "\<not> failed (st_error st)"
    and "finalizeStreamIntoBasket alloc lib base64 b1 st1 = Some (b2, st2)"
  shows "ex_headers b1 = st_headers st \<and> ex_headers b2 = None"
  using assms by (auto simp: finalizeStreamIntoBasket_def Let_def dest!: finalize_keeps_headers split: if_splits)

end
