(* ===== verification/AsyncClient.thy ===== *)
theory AsyncClient
  imports ClientResult
begin

text \<open>
  The request registry and the collection of responses, \<open>src/HttpClient.c\<close>: a non-blocking request
  is published in a table of 1024 entries under the address of its basket, the handle; polling it
  looks the entry up, decides whether the request is over, moves the response out of its stream,
  copies the result, and at last frees entry, stream and basket. The heap of baskets is
  \<open>cl_baskets\<close>; streams live in the connections of the session pool. A result of \<open>None\<close> is an access
  to freed memory.
\<close>

section \<open>State\<close>

definition MAX_ASYNC_REQUESTS :: nat where
  "MAX_ASYNC_REQUESTS = 1024"

record asyncEntry =
  ae_requestId :: nat
  ae_inUse :: bool
  ae_basket :: "nat option"
  ae_stream :: "nat option"
  ae_startTime :: int

record 'z client =
  cl_entries :: "asyncEntry list"
  cl_nextRequestId :: nat
  cl_baskets :: "nat \<Rightarrow> 'z exchange option"
  cl_pool :: "'z sessionPool"

definition initClient :: "'z client" where
  "initClient =
     \<lparr>cl_entries = replicate MAX_ASYNC_REQUESTS \<lparr>ae_requestId = 0, ae_inUse = False, ae_basket = None, ae_stream = None, ae_startTime = 0\<rparr>,
      cl_nextRequestId = 1, cl_baskets = (\<lambda>_. None), cl_pool = initSharedSessionPool\<rparr>"

section \<open>The registry\<close>

definition asyncFindSlot :: "nat \<Rightarrow> 'z client \<Rightarrow> nat option" where
  "asyncFindSlot requestId cl = findIndex (\<lambda>e. ae_inUse e \<and> ae_requestId e = requestId) (cl_entries cl)"

definition asyncFindSlotByBasket :: "nat \<Rightarrow> 'z client \<Rightarrow> nat option" where
  "asyncFindSlotByBasket basket cl = findIndex (\<lambda>e. ae_inUse e \<and> ae_basket e = Some basket) (cl_entries cl)"

definition asyncAllocSlot :: "int \<Rightarrow> 'z client \<Rightarrow> 'z client \<times> nat" where
  "asyncAllocSlot now cl =
     (case findIndex (\<lambda>e. \<not> ae_inUse e) (cl_entries cl) of
        None \<Rightarrow> (cl, 0)
      | Some i \<Rightarrow>
          (cl\<lparr>cl_entries := (cl_entries cl)[i := \<lparr>ae_requestId = cl_nextRequestId cl, ae_inUse = True, ae_basket = None,
                ae_stream = None, ae_startTime = now\<rparr>],
              cl_nextRequestId := cl_nextRequestId cl + 1\<rparr>, cl_nextRequestId cl))"

definition asyncAllocEntry :: "int \<Rightarrow> 'z client \<Rightarrow> 'z client \<times> nat option" where
  "asyncAllocEntry now cl =
     (let (cl, requestId) = asyncAllocSlot now cl
      in (cl, if requestId \<noteq> 0 then asyncFindSlot requestId cl else None))"

definition asyncDetachSlot :: "nat \<Rightarrow> 'z client \<Rightarrow> 'z client \<times> nat option \<times> nat option" where
  "asyncDetachSlot i cl =
     (let e = cl_entries cl ! i
      in (cl\<lparr>cl_entries := (cl_entries cl)[i := e\<lparr>ae_basket := None, ae_stream := None, ae_inUse := False\<rparr>]\<rparr>,
          ae_basket e, ae_stream e))"

text \<open>Publishing the basket and its stream in an entry.\<close>

definition asyncPublish :: "int \<Rightarrow> nat \<Rightarrow> nat \<Rightarrow> nat option \<Rightarrow> 'z client \<Rightarrow> 'z client" where
  "asyncPublish now i basket stream cl =
     cl\<lparr>cl_entries := (cl_entries cl)[i := (cl_entries cl ! i)\<lparr>ae_basket := Some basket, ae_stream := stream, ae_startTime := now\<rparr>]\<rparr>"

section \<open>Baskets, sessions and streams\<close>

definition freeBasket :: "nat \<Rightarrow> 'z client \<Rightarrow> 'z client" where
  "freeBasket h cl = cl\<lparr>cl_baskets := (cl_baskets cl)(h := None)\<rparr>"

definition storeBasket :: "nat \<Rightarrow> 'z exchange \<Rightarrow> 'z client \<Rightarrow> 'z client" where
  "storeBasket h b cl = cl\<lparr>cl_baskets := (cl_baskets cl)(h \<mapsto> b)\<rparr>"

definition sessionOf :: "'z client \<Rightarrow> 'z exchange \<Rightarrow> (nat \<times> 'z session) option" where
  "sessionOf cl b = (case ex_session b of None \<Rightarrow> None | Some p \<Rightarrow> map_option (Pair p) (sp_store (cl_pool cl) p))"

definition streamOf :: "'z client \<Rightarrow> 'z exchange \<Rightarrow> nat \<Rightarrow> 'z hstream option" where
  "streamOf cl b stream = (case sessionOf cl b of None \<Rightarrow> None | Some (p, s) \<Rightarrow> cn_store (ss_conn s) stream)"

definition onConn :: "nat \<Rightarrow> 'z session \<Rightarrow> ('z conn \<Rightarrow> 'z conn) \<Rightarrow> 'z client \<Rightarrow> 'z client" where
  "onConn p s f cl = cl\<lparr>cl_pool := (cl_pool cl)\<lparr>sp_store := (sp_store (cl_pool cl))(p \<mapsto> s\<lparr>ss_conn := f (ss_conn s)\<rparr>)\<rparr>\<rparr>"

definition putStream :: "'z exchange \<Rightarrow> nat \<Rightarrow> 'z hstream \<Rightarrow> 'z client \<Rightarrow> 'z client" where
  "putStream b stream st cl =
     (case sessionOf cl b of
        None \<Rightarrow> cl | Some (p, s) \<Rightarrow> onConn p s (\<lambda>cn. cn\<lparr>cn_store := (cn_store cn)(stream \<mapsto> st)\<rparr>) cl)"

definition releaseStream :: "'z exchange \<Rightarrow> nat \<Rightarrow> 'z client \<Rightarrow> 'z client option" where
  "releaseStream b stream cl =
     (case sessionOf cl b of None \<Rightarrow> None | Some (p, s) \<Rightarrow> Some (onConn p s (unregisterStream stream) cl))"

text \<open>What the JSON text tells of the basket's session; reading a freed session is \<open>None\<close>.\<close>

definition sessionInfo :: "(nat \<Rightarrow> int) \<Rightarrow> 'z client \<Rightarrow> 'z exchange \<Rightarrow> (int \<times> int) option option" where
  "sessionInfo creationTime cl b =
     (case ex_session b of
        None \<Rightarrow> Some None
      | Some p \<Rightarrow> (case sp_store (cl_pool cl) p of None \<Rightarrow> None | Some s \<Rightarrow> Some (Some (creationTime p, ss_expirationInMilliseconds s))))"

section \<open>Collecting a response\<close>

text \<open>The result of a call: the client, the status, the length, and what the buffer holds.\<close>

record 'j collectEnv =
  ce_json :: "'j jsonBuilder"
  ce_base64 :: "bytes \<Rightarrow> bytes"
  ce_creationTime :: "nat \<Rightarrow> int"

definition copyResult ::
    "'j collectEnv \<Rightarrow> int \<Rightarrow> nat \<Rightarrow> 'z exchange \<Rightarrow> 'z client \<Rightarrow> ('z client \<times> int \<times> int \<times> string option) option" where
  "copyResult C capacity h b cl =
     (case (if ex_serializedResult b \<noteq> None then Some None else sessionInfo (ce_creationTime C) cl b) of
        None \<Rightarrow> None
      | Some session \<Rightarrow>
          map_option (\<lambda>(b, code, len, dest). (storeBasket h b cl, code, len, dest)) (copyBasketResult (ce_json C) session capacity b))"

definition handleResponseSync ::
    "'j collectEnv \<Rightarrow> int \<Rightarrow> nat \<Rightarrow> 'z exchange \<Rightarrow> 'z client \<Rightarrow> ('z client \<times> int \<times> int \<times> string option) option" where
  "handleResponseSync C capacity h b cl =
     map_option (\<lambda>(cl, code, len, dest). (if code = 1 then freeBasket h cl else cl, code, len, dest)) (copyResult C capacity h b cl)"

text \<open>Whether a request is over, whether it failed, and the basket: the reading timeout is its error.\<close>

definition pollOutcome :: "int \<Rightarrow> 'z exchange \<Rightarrow> 'z hstream option \<Rightarrow> int \<Rightarrow> bool \<times> bool \<times> 'z exchange" where
  "pollOutcome now b stream startTime =
     (case stream of
        None \<Rightarrow> if failed (rb_error b) then (True, True, b) else (False, False, b)
      | Some st \<Rightarrow>
          (let lastActivity = (if isResponseStreaming st \<and> st_lastActivityTime st > startTime then st_lastActivityTime st else startTime)
           in if st_isEnded st then (True, False, b)
              else (let timeoutMs = rb_responseReadingTimeout b; elapsedMs = (now - lastActivity) * 1000
                    in if timeoutMs > 0 \<and> elapsedMs > timeoutMs
                       then (True, True, b\<lparr>rb_error := ERR_RESPONSE_NO_CONTENT_AFTER_READING_TIMEOUT\<rparr>)
                       else (False, False, b))))"

text \<open>
  What a detached entry held is freed: the stream is removed through the basket's session, then the
  basket goes.
\<close>

definition releaseClaim :: "nat option \<times> nat option \<Rightarrow> 'z client \<Rightarrow> 'z client option" where
  "releaseClaim c cl =
     (case c of
        (Some basket, stream) \<Rightarrow>
          (case cl_baskets cl basket of
             None \<Rightarrow> None
           | Some b \<Rightarrow> map_option (freeBasket basket) (case stream of None \<Rightarrow> Some cl | Some stream \<Rightarrow> releaseStream b stream cl))
      | (None, stream) \<Rightarrow> (if stream = None then Some cl else None))"

text \<open>The claim at the end, a no-op if another poll was faster.\<close>

definition claimResult :: "nat \<Rightarrow> 'z client \<Rightarrow> 'z client option" where
  "claimResult h cl =
     (case asyncFindSlotByBasket h cl of
        None \<Rightarrow> Some cl
      | Some i \<Rightarrow> (case asyncDetachSlot i cl of (cl, c) \<Rightarrow> releaseClaim c cl))"

definition collectFinished ::
    "'z clientEnv \<Rightarrow> 'j collectEnv \<Rightarrow> int \<Rightarrow> nat \<Rightarrow> (nat \<times> 'z hstream) option \<Rightarrow> bool \<Rightarrow> 'z exchange \<Rightarrow> 'z client
      \<Rightarrow> ('z client \<times> int \<times> int \<times> string option) option" where
  "collectFinished env C capacity h stream timedOut b cl =
     (case (case stream of
              None \<Rightarrow> Some (b, cl)
            | Some (p, st) \<Rightarrow>
                if failed (rb_error b) then Some (b, cl)
                else map_option (\<lambda>(b', st). (b', putStream b p st cl))
                       (finalizeStreamIntoBasket (ev_alloc env) (ev_lib env) (ce_base64 C) b st)) of
        None \<Rightarrow> None
      | Some (b, cl) \<Rightarrow>
          (case copyResult C capacity h b cl of
             None \<Rightarrow> None
           | Some (cl, code, len, dest) \<Rightarrow>
               map_option (\<lambda>cl. (cl, if timedOut then -1 else code, len, dest)) (if code = 1 then claimResult h cl else Some cl)))"

definition handleResponseAsync ::
    "'z clientEnv \<Rightarrow> 'j collectEnv \<Rightarrow> int \<Rightarrow> nat \<Rightarrow> 'z exchange \<Rightarrow> 'z client \<Rightarrow> ('z client \<times> int \<times> int \<times> string option) option" where
  "handleResponseAsync env C capacity h b cl =
     (case asyncFindSlotByBasket h cl of
        None \<Rightarrow> Some (cl, -1, 0, None)
      | Some i \<Rightarrow>
          (let e = cl_entries cl ! i
           in case (case ae_stream e of None \<Rightarrow> Some None | Some p \<Rightarrow> map_option (\<lambda>st. Some (p, st)) (streamOf cl b p)) of
                None \<Rightarrow> None
              | Some stream \<Rightarrow>
                  (let (done', timedOut, b) = pollOutcome (ev_now env) b (map_option snd stream) (ae_startTime e)
                   in if \<not> done' then Some (cl, 0, 0, None)
                      else collectFinished env C capacity h stream timedOut b (storeBasket h b cl))))"

text \<open>The handle is dereferenced before anything tells whether it is still valid.\<close>

definition handleResponse ::
    "'z clientEnv \<Rightarrow> 'j collectEnv \<Rightarrow> nat option \<Rightarrow> bool \<Rightarrow> int \<Rightarrow> 'z client \<Rightarrow> ('z client \<times> int \<times> int \<times> string option) option" where
  "handleResponse env C handle dest capacity cl =
     (case handle of
        None \<Rightarrow> Some (cl, -1, 0, None)
      | Some h \<Rightarrow>
          if \<not> dest \<or> capacity \<le> 0 then Some (cl, -1, 0, None)
          else (case cl_baskets cl h of
                  None \<Rightarrow> None
                | Some b \<Rightarrow>
                    if rb_nonBlocking b then handleResponseAsync env C capacity h b cl
                    else handleResponseSync C capacity h b cl))"

section \<open>Shutdown\<close>

text \<open>All entries in use are detached first, then freed.\<close>

definition detachAll :: "nat \<Rightarrow> 'z client \<times> (nat option \<times> nat option) list \<Rightarrow> 'z client \<times> (nat option \<times> nat option) list" where
  "detachAll i st =
     (if ae_inUse (cl_entries (fst st) ! i)
      then (case asyncDetachSlot i (fst st) of (cl, c) \<Rightarrow> (cl, snd st @ [c])) else st)"

definition cleanupAsyncRequests :: "'z client \<Rightarrow> 'z client option" where
  "cleanupAsyncRequests cl =
     (let (cl, detached) = fold detachAll [0..<MAX_ASYNC_REQUESTS] (cl, [])
      in fold (\<lambda>c cl. Option.bind cl (releaseClaim c)) detached (Some cl))"

end
