(* ===== verification/RequestFlow.thy ===== *)
theory RequestFlow
  imports AsyncClient
begin

text \<open>
  Running a request, \<open>src/HttpClient.c\<close> with \<open>awaitStream\<close> of \<open>src/Session.c\<close> and \<open>sendHeadersFrame\<close> of
  \<open>src/Http2RequestHandler.c\<close>: a session is found or opened, a stream registered on it, the request
  sent and, for a blocking request, the response awaited and moved into the basket; a failure of
  the connection is retried once on another session. What the world does in one attempt is a
  record \<open>attemptEnv\<close>. A result of \<open>None\<close> is an access to freed memory or past a buffer.
\<close>

section \<open>One attempt's world\<close>

text \<open>
  \<open>at_alive\<close>: \<open>isConnecting\<close> of every session; \<open>at_create\<close>: the answers \<open>createSession\<close> gets;
  \<open>at_session\<close> and \<open>at_stream\<close>: the pointers a new session and stream get; \<open>at_write\<close>: \<open>sslWriteAll\<close>;
  \<open>at_transport\<close> and \<open>at_net\<close>: the writes and reads of an HTTP/1.1 exchange; \<open>at_waits\<close>: what happens
  while a blocking request waits.
\<close>

record 'z attemptEnv =
  at_alive :: "nat \<Rightarrow> bool"
  at_create :: createEnv
  at_session :: nat
  at_stream :: "nat option"
  at_headersOk :: bool
  at_write :: "bytes \<Rightarrow> bool"
  at_transport :: transport
  at_net :: "attempt list"
  at_ipv4 :: "string \<Rightarrow> bool"
  at_ipv6 :: "string \<Rightarrow> bool"
  at_clock :: "int \<times> int"
  at_exchangeOk :: bool
  at_threadOk :: bool
  at_waits :: "(('z conn \<Rightarrow> 'z conn) \<times> bool \<times> int) list"

section \<open>Obtaining a session\<close>

text \<open>\<open>handleSession\<close> with \<open>createSession\<close> in it; the pool sees the view of the basket.\<close>

definition createFor :: "createEnv \<Rightarrow> nat \<Rightarrow> requestBasket \<Rightarrow> basket \<Rightarrow> basket \<times> (nat \<times> 'z session) option" where
  "createFor env p b bk =
     (case createSession env b of
        None \<Rightarrow> (bk, None)
      | Some (b, session, evs) \<Rightarrow> (bk\<lparr>bk_error := rb_error b, bk_proxy := rb_proxy b\<rparr>, map_option (Pair p) session))"

definition obtainSession :: "'z attemptEnv \<Rightarrow> int \<Rightarrow> 'z exchange \<Rightarrow> 'z client \<Rightarrow> ('z client \<times> 'z exchange) option" where
  "obtainSession A now b cl =
     (let rb = requestBasket.truncate b; view = sessionView (ex_session b) rb;
          found = bk_session (snd (getSessionInfo (at_alive A) now view (cleanupSessions (at_alive A) now False (cl_pool cl))))
      in if found = None \<and> (createSession (at_create A) rb :: (requestBasket \<times> 'z session option \<times> resourceEvent list) option) = None
         then None
         else (let (pool, bk) = handleSession (at_alive A) now (createFor (at_create A) (at_session A) rb) view (cl_pool cl)
               in Some (cl\<lparr>cl_pool := pool\<rparr>, b\<lparr>rb_error := bk_error bk, rb_proxy := bk_proxy bk, ex_session := bk_session bk\<rparr>)))"

section \<open>Sending\<close>

text \<open>The error of the basket afterwards; the block that overruns its buffer is \<open>None\<close>.\<close>

definition sendHeadersFrame :: "(bytes \<Rightarrow> bool) \<Rightarrow> 'z exchange \<Rightarrow> 'z exchange option" where
  "sendHeadersFrame write b =
     (case buildHttp2HeadersFrame 32768 (rb_headers b) (rb_payload b \<noteq> None) (ex_streamId b)
             (case rb_fingerprint b of None \<Rightarrow> False | Some fp \<Rightarrow> fp_enableHeadersPriority fp) of
        None \<Rightarrow> None
      | Some (headersFrame, headersFrameLen, e) \<Rightarrow>
          if failed e then Some (b\<lparr>rb_error := e\<rparr>)
          else if write (take (unat headersFrameLen) headersFrame) then Some b
          else Some (b\<lparr>rb_error := ERR_REQUEST_SENDING_HTTP2_HEADERS_FRAME_FAILED\<rparr>))"

definition handleHttp2Request :: "(nat \<Rightarrow> bool) \<Rightarrow> (bytes \<Rightarrow> bool) \<Rightarrow> 'z exchange \<Rightarrow> 'z exchange option" where
  "handleHttp2Request alloc write b =
     (case sendHeadersFrame write b of
        None \<Rightarrow> None
      | Some b \<Rightarrow>
          (case (if failed (rb_error b) then None else rb_payload b) of
             None \<Rightarrow> Some b
           | Some payload \<Rightarrow>
               (case sendDataFrame alloc write (ex_streamId b) (strBytes payload) of
                  (sent, e) \<Rightarrow> Some (if failed e then b\<lparr>rb_error := e\<rparr> else b))))"

section \<open>Waiting\<close>

text \<open>
  One element per return of \<open>pthread_cond_timedwait\<close>: what the reader thread did to the connection
  meanwhile, whether the wait timed out, and the time. A used-up list is a deadline that passes
  without being renewed.
\<close>

fun awaitLoop :: "int \<Rightarrow> nat \<Rightarrow> int \<times> int \<Rightarrow> (('z conn \<Rightarrow> 'z conn) \<times> bool \<times> int) list \<Rightarrow> 'z conn \<Rightarrow> 'z conn option" where
  "awaitLoop ms p deadline [] cn = (case cn_store cn p of None \<Rightarrow> None | Some stream \<Rightarrow> Some cn)"
| "awaitLoop ms p deadline ((reader, timedOut, now) # waits) cn =
     (case cn_store cn p of
        None \<Rightarrow> None
      | Some stream \<Rightarrow>
          if st_isEnded stream then Some cn
          else (let cn = reader cn
                in case cn_store cn p of
                     None \<Rightarrow> None
                   | Some stream \<Rightarrow>
                       if \<not> timedOut then awaitLoop ms p deadline waits cn
                       else (let (deadline, renewed) = renewStreamDeadline now stream ms deadline
                             in if renewed then awaitLoop ms p deadline waits cn else Some cn)))"

definition awaitStream :: "'z attemptEnv \<Rightarrow> 'z exchange \<Rightarrow> nat \<Rightarrow> 'z conn \<Rightarrow> ('z conn \<times> 'z exchange \<times> int) option" where
  "awaitStream A b p cn =
     (let ms = rb_responseReadingTimeout b
      in case awaitLoop ms p (buildResponseDeadline (at_clock A) ms) (at_waits A) cn of
           None \<Rightarrow> None
         | Some cn \<Rightarrow>
             (case cn_store cn p of
                None \<Rightarrow> None
              | Some stream \<Rightarrow>
                  (let received = (numHeaders stream > 0 \<or> length (st_combinedPayload stream) > 0)
                   in if st_isEnded stream then Some (cn, b, 0)
                      else Some (cn, b\<lparr>rb_error := (if received then ERR_RESPONSE_NO_CONTENT_AFTER_READING_TIMEOUT
                                                   else ERR_RESPONSE_PARTIAL_CONTENT_AFTER_READING_TIMEOUT)\<rparr>, -1))))"

section \<open>One attempt\<close>

definition http11RequestOf :: "'z exchange \<Rightarrow> 'z session \<Rightarrow> string \<Rightarrow> http11Request" where
  "http11RequestOf b s method =
     \<lparr>hq_method = method, hq_url = rb_components b, hq_headers = rb_headers b, hq_payload = rb_payload b,
      hq_plainProxy = ss_plainProxy s, hq_authorization = px_authorization (rb_proxy b)\<rparr>"

text \<open>The exchange over HTTP/1.1: the basket, the stream and whether the session is given up.\<close>

definition dispatchHttp11 ::
    "'z clientEnv \<Rightarrow> 'z attemptEnv \<Rightarrow> bool \<Rightarrow> 'z exchange \<Rightarrow> 'z session \<Rightarrow> 'z hstream \<Rightarrow> ('z exchange \<times> 'z hstream \<times> bool) option" where
  "dispatchHttp11 env A async b s stream =
     (case rb_method b of
        None \<Rightarrow> None
      | Some method \<Rightarrow>
          if async then
            (case handleHttp11RequestAsync (at_exchangeOk A) (at_threadOk A) (rb_error b) stream of
               (e, stream, running) \<Rightarrow> Some (b\<lparr>rb_error := e\<rparr>, stream, goingAway s))
          else map_option (\<lambda>(written, stream, (goingAway, net), e). (b\<lparr>rb_error := e\<rparr>, stream, goingAway))
                 (handleHttp11RequestSync env (at_ipv4 A) (at_ipv6 A) (at_transport A) (rb_nonBlocking b) (at_clock A)
                    (rb_responseReadingTimeout b) (http11RequestOf b s method) (rb_error b) stream (goingAway s, at_net A)))"

definition putSession :: "nat \<Rightarrow> 'z session \<Rightarrow> 'z client \<Rightarrow> 'z client" where
  "putSession p s cl = cl\<lparr>cl_pool := (cl_pool cl)\<lparr>sp_store := (sp_store (cl_pool cl))(p \<mapsto> s)\<rparr>\<rparr>"

definition dispatchRequest ::
    "'z clientEnv \<Rightarrow> 'z attemptEnv \<Rightarrow> bool \<Rightarrow> 'z exchange \<Rightarrow> 'z session \<Rightarrow> nat \<Rightarrow> ('z exchange \<times> 'z session) option" where
  "dispatchRequest env A waitForResponse b s stream =
     (if ss_protocol s = HTTP_PROTOCOL_1_1 then
        (case cn_store (ss_conn s) stream of
           None \<Rightarrow> None
         | Some st \<Rightarrow>
             map_option (\<lambda>(b, st, goingAway).
                 (b, s\<lparr>ss_conn := (ss_conn s)\<lparr>cn_store := (cn_store (ss_conn s))(stream \<mapsto> st), cn_goingAway := goingAway\<rparr>\<rparr>))
               (dispatchHttp11 env A (\<not> waitForResponse) b s st))
      else map_option (\<lambda>b. (b, s)) (handleHttp2Request (ev_alloc env) (at_write A) b))"

text \<open>The sink belongs to the basket: the stream's view of it goes back when the stream goes.\<close>

definition dropStream :: "nat \<Rightarrow> 'z session \<Rightarrow> 'z exchange \<Rightarrow> 'z session \<times> 'z exchange" where
  "dropStream p s b =
     (s\<lparr>ss_conn := unregisterStream p (ss_conn s)\<rparr>,
      case cn_store (ss_conn s) p of None \<Rightarrow> b | Some stream \<Rightarrow> b\<lparr>ex_sink := st_sink stream\<rparr>)"

definition awaitResponse ::
    "'z clientEnv \<Rightarrow> (bytes \<Rightarrow> bytes) \<Rightarrow> 'z attemptEnv \<Rightarrow> 'z exchange \<Rightarrow> 'z session \<Rightarrow> nat \<Rightarrow> ('z exchange \<times> 'z session) option" where
  "awaitResponse env base64 A b s p =
     (case awaitStream A b p (ss_conn s) of
        None \<Rightarrow> None
      | Some (cn, b, rc) \<Rightarrow>
          if failed (rb_error b) then Some (b, s\<lparr>ss_conn := cn\<rparr>)
          else (case cn_store cn p of
                  None \<Rightarrow> None
                | Some stream \<Rightarrow>
                    map_option (\<lambda>(b, stream). (b, s\<lparr>ss_conn := cn\<lparr>cn_store := (cn_store cn)(p \<mapsto> stream)\<rparr>\<rparr>))
                      (finalizeStreamIntoBasket (ev_alloc env) (ev_lib env) base64 b stream)))"

text \<open>The request on its registered stream: a request that could not be sent ends its stream.\<close>

definition runOnStream ::
    "'z clientEnv \<Rightarrow> (bytes \<Rightarrow> bytes) \<Rightarrow> 'z attemptEnv \<Rightarrow> bool \<Rightarrow> 'z exchange \<Rightarrow> nat \<Rightarrow> 'z session \<Rightarrow> nat \<Rightarrow> 'z client
      \<Rightarrow> ('z client \<times> 'z exchange \<times> nat option) option" where
  "runOnStream env base64 A waitForResponse b p s stream cl =
     (case dispatchRequest env A waitForResponse b s stream of
        None \<Rightarrow> None
      | Some (b, s) \<Rightarrow>
          if failed (rb_error b) then
            (let s = s\<lparr>ss_conn := (ss_conn s)\<lparr>cn_store := (cn_store (ss_conn s))
                       (stream := map_option completeResponseSink (cn_store (ss_conn s) stream))\<rparr>\<rparr>;
                 (s, b) = dropStream stream s b
             in Some (putSession p s cl, b, None))
          else if waitForResponse then
            map_option (\<lambda>(b, s). (putSession p s cl, b, Some stream)) (awaitResponse env base64 A b s stream)
          else Some (putSession p s cl, b, Some stream))"

text \<open>The client, the basket, and the registered stream.\<close>

definition executeRequest ::
    "'z clientEnv \<Rightarrow> (bytes \<Rightarrow> bytes) \<Rightarrow> 'z attemptEnv \<Rightarrow> bool \<Rightarrow> 'z exchange \<Rightarrow> 'z client \<Rightarrow> ('z client \<times> 'z exchange \<times> nat option) option" where
  "executeRequest env base64 A waitForResponse b cl =
     (case obtainSession A (ev_now env) b cl of
        None \<Rightarrow> None
      | Some (cl, b) \<Rightarrow>
          if ex_session b = None \<or> failed (rb_error b) then Some (cl, b, None)
          else (case sessionOf cl b of
                  None \<Rightarrow> None
                | Some (p, s) \<Rightarrow>
                    (let (cn, result) = registerStream (at_stream A) (at_headersOk A) (ev_now env) (ex_sink b) (ss_conn s);
                         b = b\<lparr>ex_streamId := (if at_stream A = None \<or> \<not> at_headersOk A then ex_streamId b else cn_streamId (ss_conn s))\<rparr>;
                         s = s\<lparr>ss_conn := cn\<rparr>
                     in case result of
                          Inl e \<Rightarrow> Some (putSession p s cl, b\<lparr>rb_error := e\<rparr>, None)
                        | Inr stream \<Rightarrow> runOnStream env base64 A waitForResponse b p s stream cl)))"

section \<open>Retrying\<close>

definition isRetryableError :: "error \<Rightarrow> bool" where
  "isRetryableError e \<longleftrightarrow> failed e \<and>
     (fst e = fst ERR_SESSION_SETTINGS_TIMEOUT \<or> fst e = fst ERR_SESSION_GO_AWAY \<or> fst e = fst ERR_SESSION_HTTP_1_1_REQUIRED)"

definition requiresHttp11Downgrade :: "error \<Rightarrow> bool" where
  "requiresHttp11Downgrade e \<longleftrightarrow> failed e \<and> fst e = fst ERR_SESSION_HTTP_1_1_REQUIRED"

definition isProxyFailureError :: "error \<Rightarrow> bool" where
  "isProxyFailureError e \<longleftrightarrow> failed e \<and> fst e \<in> set (map fst
     [ERR_PROXY_AUTHORIZATION_FAILED, ERR_PROXY_SOCKET_NONBLOCK_SETTING_FAILED, ERR_PROXY_SOCKET_CONNECTING_FAILED,
      ERR_PROXY_SEND_CONNECT_REQUEST_FAILED, ERR_PROXY_UNEXPECTED_RESPONSE, ERR_PROXY_SOCKET_CONNECTING_TIMEOUT,
      ERR_PROXY_SOCKET_CONNECTING_UNKNOWN_ERROR, ERR_PROXY_SOCKET_CONNECTING_REFUSED])"

text \<open>The session pointer is written through, whatever became of the session.\<close>

definition prepareRetry :: "'z exchange \<Rightarrow> 'z client \<Rightarrow> ('z client \<times> 'z exchange) option" where
  "prepareRetry b cl =
     (let b = (if requiresHttp11Downgrade (rb_error b) then b\<lparr>rb_forceHttp11 := True\<rparr> else b);
          b = b\<lparr>ex_sink := map_option prepareStreamRetry (ex_sink b)\<rparr>
      in case sessionOf cl b of
           None \<Rightarrow> None
         | Some (p, s) \<Rightarrow> Some (putSession p (setGoingAway s) cl, b\<lparr>ex_session := None, rb_error := ERR_NONE\<rparr>))"

section \<open>Blocking requests\<close>

text \<open>One attempt with its stream removed again.\<close>

definition attemptOnce ::
    "'z clientEnv \<Rightarrow> (bytes \<Rightarrow> bytes) \<Rightarrow> 'z attemptEnv \<Rightarrow> 'z exchange \<Rightarrow> 'z client \<Rightarrow> ('z client \<times> 'z exchange) option" where
  "attemptOnce env base64 A b cl =
     (case executeRequest env base64 A True b cl of
        None \<Rightarrow> None
      | Some (cl, b, None) \<Rightarrow> Some (cl, b)
      | Some (cl, b, Some stream) \<Rightarrow>
          (case sessionOf cl b of
             None \<Rightarrow> None
           | Some (p, s) \<Rightarrow> (case dropStream stream s b of (s, b) \<Rightarrow> Some (putSession p s cl, b))))"

text \<open>\<open>A\<close> and \<open>A'\<close> are the worlds of the first attempt and of the retry.\<close>

definition handleRequestSync ::
    "'z clientEnv \<Rightarrow> (bytes \<Rightarrow> bytes) \<Rightarrow> 'z attemptEnv \<Rightarrow> 'z attemptEnv \<Rightarrow> nat \<Rightarrow> 'z exchange \<Rightarrow> 'z client \<Rightarrow> ('z client \<times> nat) option" where
  "handleRequestSync env base64 A A' h b cl =
     map_option (\<lambda>(cl, b). (storeBasket h b cl, h))
       (if failed (rb_error b) then Some (cl, b)
        else (case attemptOnce env base64 A b cl of
                None \<Rightarrow> None
              | Some (cl, b) \<Rightarrow>
                  if isRetryableError (rb_error b)
                  then Option.bind (prepareRetry b cl) (\<lambda>(cl, b). attemptOnce env base64 A' b cl)
                  else Some (cl, b)))"

section \<open>Non-blocking requests\<close>

text \<open>The first attempt, and the retry with a stream the first left behind removed.\<close>

definition startRequest ::
    "'z clientEnv \<Rightarrow> (bytes \<Rightarrow> bytes) \<Rightarrow> 'z attemptEnv \<Rightarrow> 'z attemptEnv \<Rightarrow> 'z exchange \<Rightarrow> 'z client \<Rightarrow> ('z client \<times> 'z exchange \<times> nat option) option" where
  "startRequest env base64 A A' b cl =
     (case executeRequest env base64 A False b cl of
        None \<Rightarrow> None
      | Some (cl, b, stream) \<Rightarrow>
          if \<not> isRetryableError (rb_error b) then Some (cl, b, stream)
          else (case (case stream of
                        None \<Rightarrow> Some (cl, b)
                      | Some stream \<Rightarrow>
                          map_option (\<lambda>(p, s). case dropStream stream s b of (s, b) \<Rightarrow> (putSession p s cl, b)) (sessionOf cl b)) of
                  None \<Rightarrow> None
                | Some (cl, b) \<Rightarrow> Option.bind (prepareRetry b cl) (\<lambda>(cl, b). executeRequest env base64 A' False b cl)))"

text \<open>The result is the handle, 0 when the registry is full.\<close>

definition handleRequestAsync ::
    "'z clientEnv \<Rightarrow> (bytes \<Rightarrow> bytes) \<Rightarrow> 'z attemptEnv \<Rightarrow> 'z attemptEnv \<Rightarrow> nat \<Rightarrow> 'z exchange \<Rightarrow> 'z client \<Rightarrow> ('z client \<times> nat option) option" where
  "handleRequestAsync env base64 A A' h b cl =
     (case asyncAllocEntry (ev_now env) cl of
        (cl, None) \<Rightarrow> Some (freeBasket h cl, None)
      | (cl, Some i) \<Rightarrow>
          (let b = b\<lparr>ex_requestId := ae_requestId (cl_entries cl ! i)\<rparr>
           in map_option (\<lambda>(cl, b, stream). (asyncPublish (ev_now env) i h (if failed (rb_error b) then None else stream) (storeBasket h b cl), Some h))
                (if failed (rb_error b) then Some (cl, b, None) else startRequest env base64 A A' b cl)))"

section \<open>The entry point\<close>

text \<open>
  \<open>h\<close> is the address of the basket, \<open>built\<close> is \<open>None\<close> when there was no memory for it, \<open>sinkOk\<close> is
  whether the sink could be allocated. A contract is all or nothing.
\<close>

definition newExchange :: "requestBasket \<Rightarrow> 'z exchange" where
  "newExchange b = requestBasket.extend b
     \<lparr>ex_headers = None, ex_payload = None, ex_payloadSize = 0, ex_sink = None, ex_session = None, ex_streamId = 0,
      ex_requestId = 0, ex_serializedResult = None\<rparr>"

definition acceptContract :: "responseContract option \<Rightarrow> 'z exchange \<Rightarrow> responseContract option \<times> 'z exchange" where
  "acceptContract stream b =
     (case stream of
        None \<Rightarrow> (None, b)
      | Some c \<Rightarrow>
          if isCompleteResponseStream c then (Some c, b)
          else (None, if failed (rb_error b) then b else b\<lparr>rb_error := ERR_RESPONSE_STREAM_INCOMPLETE_CONTRACT\<rparr>))"

definition handleRequest ::
    "'z clientEnv \<Rightarrow> (bytes \<Rightarrow> bytes) \<Rightarrow> 'z attemptEnv \<Rightarrow> 'z attemptEnv \<Rightarrow> bool \<Rightarrow> nat \<Rightarrow> requestBasket option
      \<Rightarrow> responseContract option \<Rightarrow> 'z client \<Rightarrow> ('z client \<times> nat option) option" where
  "handleRequest env base64 A A' sinkOk h built stream cl =
     (case built of
        None \<Rightarrow> Some (cl, None)
      | Some built \<Rightarrow>
          (let (contract, b) = acceptContract stream (newExchange built);
               b = (if sinkOk then b\<lparr>ex_sink := Some (buildResponseSink (word_of_int (rb_decompress b)) contract)\<rparr>
                    else b\<lparr>rb_error := ERR_SYSTEM_MEMORY_ALLOCATION_FAILED\<rparr>)
           in if rb_nonBlocking b then handleRequestAsync env base64 A A' h b (storeBasket h b cl)
              else map_option (\<lambda>(cl, h). (cl, Some h)) (handleRequestSync env base64 A A' h b (storeBasket h b cl))))"

end
