(* ===== verification/ClientProps.thy ===== *)
theory ClientProps
  imports RequestFlow SessionPoolProps ReaderProps
begin

text \<open>
  What holds of the client as a whole, over every interleaving of requests, polls and the threads
  of the connections: the registry of requests, the heap of baskets and the streams registered in
  the sessions of the pool stay in step, so a pending request's session is never reaped and
  polling it never touches freed memory.
\<close>

section \<open>Streams registered on the sessions of the pool\<close>

definition registrations :: "'z sessionPool \<Rightarrow> (nat \<times> nat) set" where
  "registrations pool = {(p, q). \<exists>s. sp_store pool p = Some s \<and> q \<in> registered (ss_conn s)}"

definition poolSound :: "'z sessionPool \<Rightarrow> bool" where
  "poolSound pool \<longleftrightarrow> poolOk pool \<and> (\<forall>p s. sp_store pool p = Some s \<longrightarrow> registryOk (ss_conn s))"

lemma registryOk_idle: "registryOk cn \<Longrightarrow> cn_inflightCount cn = 0 \<longleftrightarrow> registered cn = {}"
  by (auto simp: registryOk_def registered_def)

text \<open>An update of one session.\<close>

lemma putSession_pool:
  assumes "poolSound pool" "sp_store pool p = Some s" "registryOk (ss_conn s')" "ss_magic s' = ss_magic s"
  shows "poolSound (pool\<lparr>sp_store := (sp_store pool)(p \<mapsto> s')\<rparr>)"
    "registrations (pool\<lparr>sp_store := (sp_store pool)(p \<mapsto> s')\<rparr>)
      = (registrations pool - {p} \<times> registered (ss_conn s)) \<union> {p} \<times> registered (ss_conn s')"
proof -
  have "poolOk (pool\<lparr>sp_store := (sp_store pool)(p \<mapsto> s')\<rparr>)"
    using assms by (intro poolOk_store) (auto simp: poolSound_def poolOk_def)
  then show "poolSound (pool\<lparr>sp_store := (sp_store pool)(p \<mapsto> s')\<rparr>)" using assms(1,3) by (auto simp: poolSound_def)
  show "registrations (pool\<lparr>sp_store := (sp_store pool)(p \<mapsto> s')\<rparr>)
      = (registrations pool - {p} \<times> registered (ss_conn s)) \<union> {p} \<times> registered (ss_conn s')"
    using assms(2) by (auto simp: registrations_def split: if_splits)
qed

lemma registrations_at: "sp_store pool p = Some s \<Longrightarrow> (p, q) \<in> registrations pool \<longleftrightarrow> q \<in> registered (ss_conn s)"
  by (simp add: registrations_def)

section \<open>What the session operations keep\<close>

text \<open>The reaper closes only sessions without streams.\<close>

lemma cleanup_sound:
  assumes "poolSound pool"
  shows "poolSound (cleanupSessions alive now False pool)" "registrations (cleanupSessions alive now False pool) = registrations pool"
    "dom (sp_store (cleanupSessions alive now False pool)) \<subseteq> dom (sp_store pool)"
proof -
  have "poolOk pool" using assms by (simp add: poolSound_def)
  from cleanup_effect [OF this, of alive now False] obtain dead where
    d: "set dead = {p \<in> pooled pool. doomed alive now False (sp_store pool) p}" "poolOk (cleanupSessions alive now False pool)"
      "sp_store (cleanupSessions alive now False pool) = (\<lambda>p. if p \<in> set dead then None else sp_store pool p)" by blast
  have idle: "registered (ss_conn s) = {}" if "p \<in> set dead" "sp_store pool p = Some s" for p s
  proof -
    have "shouldReap alive now False p s" using that d(1) by (simp add: doomed_def)
    moreover have "registryOk (ss_conn s)" using that(2) assms by (auto simp: poolSound_def)
    ultimately show ?thesis using registryOk_idle by (auto simp: shouldReap_def inflight_def)
  qed
  show "poolSound (cleanupSessions alive now False pool)" using assms d(2,3) by (simp add: poolSound_def)
  show "registrations (cleanupSessions alive now False pool) = registrations pool"
    using idle by (auto simp: registrations_def d(3) split: if_splits)
  show "dom (sp_store (cleanupSessions alive now False pool)) \<subseteq> dom (sp_store pool)" by (auto simp: d(3) split: if_splits)
qed

lemma cleanup_store:
  assumes "poolSound pool" "sp_store (cleanupSessions alive now isAll pool) p = Some s"
  shows "sp_store pool p = Some s"
  using cleanup_effect [of pool alive now isAll] assms by (auto simp: poolSound_def split: if_splits)

lemma getSession_sound:
  assumes "poolSound pool" "getSessionInfo alive now bk pool = (pool', bk')"
  shows "poolSound pool'" "registrations pool' = registrations pool" "dom (sp_store pool') = dom (sp_store pool)"
    "bk_session bk' = bk_session bk \<or> (\<exists>p s. bk_session bk' = Some p \<and> sp_store pool p = Some s \<and> reusable alive bk p s
        \<and> sp_store pool' p = Some (s\<lparr>ss_lastUsedTime := now\<rparr>))"
    "bk_forceHttp11 bk' = bk_forceHttp11 bk" "bk_error bk' = bk_error bk"
proof -
  have ok: "poolOk pool" using assms(1) by (simp add: poolSound_def)
  show "bk_forceHttp11 bk' = bk_forceHttp11 bk" "bk_error bk' = bk_error bk"
    using assms(2) by (auto simp: getSessionInfo_def split: option.splits prod.splits)
  have "pool' = pool \<and> bk' = bk \<or> (\<exists>p s. bk_session bk' = Some p \<and> sp_store pool p = Some s \<and> reusable alive bk p s
    \<and> pool' = pool\<lparr>sp_store := (sp_store pool)(p \<mapsto> s\<lparr>ss_lastUsedTime := now\<rparr>)\<rparr>)"
  proof (cases "findIndex (\<lambda>i. case slotSession pool i of None \<Rightarrow> False | Some (p, s) \<Rightarrow> reusable alive bk p s) [0..<MAX_SESSIONS]")
    case None
    then show ?thesis using assms(2) by (simp add: getSessionInfo_def)
  next
    case (Some i)
    from findSlot_Some [OF Some] obtain p s where slot: "slotSession pool i = Some (p, s)" "reusable alive bk p s" by (auto split: option.splits)
    then have "sp_store pool p = Some s" using slotSession_Some [OF ok] by blast
    then show ?thesis using assms(2) Some slot by (auto simp: getSessionInfo_def)
  qed
  then have "poolSound pool' \<and> registrations pool' = registrations pool \<and> dom (sp_store pool') = dom (sp_store pool)
    \<and> (bk_session bk' = bk_session bk \<or> (\<exists>p s. bk_session bk' = Some p \<and> sp_store pool p = Some s \<and> reusable alive bk p s
        \<and> sp_store pool' p = Some (s\<lparr>ss_lastUsedTime := now\<rparr>)))"
  proof (elim disjE exE conjE)
    fix p s assume a: "bk_session bk' = Some p" "sp_store pool p = Some s" "reusable alive bk p s"
      "pool' = pool\<lparr>sp_store := (sp_store pool)(p \<mapsto> s\<lparr>ss_lastUsedTime := now\<rparr>)\<rparr>"
    have "registryOk (ss_conn s)" using assms(1) a(2) by (simp add: poolSound_def)
    then have "poolSound pool'" "registrations pool' = registrations pool"
      using putSession_pool [OF assms(1) a(2), of "s\<lparr>ss_lastUsedTime := now\<rparr>"] registrations_at [OF a(2)] unfolding a(4) by auto
    moreover have "dom (sp_store pool') = dom (sp_store pool)" "sp_store pool' p = Some (s\<lparr>ss_lastUsedTime := now\<rparr>)"
      using a(2) by (auto simp: a(4))
    ultimately show ?thesis using a(1-3) by blast
  qed (simp add: assms(1))
  then show "poolSound pool'" "registrations pool' = registrations pool" "dom (sp_store pool') = dom (sp_store pool)"
    "bk_session bk' = bk_session bk \<or> (\<exists>p s. bk_session bk' = Some p \<and> sp_store pool p = Some s \<and> reusable alive bk p s
        \<and> sp_store pool' p = Some (s\<lparr>ss_lastUsedTime := now\<rparr>))" by blast+
qed

lemma register_sound:
  fixes now :: int
  assumes "poolSound pool" "sp_store pool p = None" "registryOk (ss_conn s)" "registered (ss_conn s) = {}" "ss_magic s = SESSION_MAGIC"
  defines "pool' \<equiv> registerSession now p (pool\<lparr>sp_store := (sp_store pool)(p \<mapsto> s)\<rparr>)"
  shows "poolSound pool'" "registrations pool' = registrations pool" "dom (sp_store pool') = insert p (dom (sp_store pool))"
    "\<exists>t. sp_store pool' p = Some (s\<lparr>ss_lastUsedTime := t\<rparr>)"
proof -
  have ok: "poolOk pool" "p \<notin> pooled pool" using assms(1,2) by (auto simp: poolSound_def poolOk_def)
  let ?pool = "pool\<lparr>sp_store := (sp_store pool)(p \<mapsto> s)\<rparr>"
  have ok1: "poolOk ?pool" using ok by (intro poolOk_store) (auto simp: poolOk_def)
  obtain t where st: "sp_store pool' = (sp_store pool)(p \<mapsto> s\<lparr>ss_lastUsedTime := t\<rparr>)" "poolOk pool'"
  proof (cases "enterSlot p (sp_sessions pool)")
    case None
    then have "pool' = ?pool" using registerSession_full [OF ok1, of p now] by (simp add: pool'_def)
    then show ?thesis using that [of "ss_lastUsedTime s"] ok1 by simp
  next
    case (Some slots)
    then have "enterSession now s p pool = Some pool'" by (simp add: enterSession_def pool'_def)
    from enterSession_ok [OF ok this assms(5)] have "poolOk pool'" by simp
    moreover have "sp_store pool' = (sp_store pool)(p \<mapsto> s\<lparr>ss_lastUsedTime := now\<rparr>)"
      using registerSession_slots [OF ok1, of p slots now] Some by (simp add: pool'_def)
    ultimately show ?thesis using that by simp
  qed
  show "poolSound pool'" using assms(1,3) st by (auto simp: poolSound_def)
  show "registrations pool' = registrations pool" using assms(2,4) by (auto simp: registrations_def st(1) split: if_splits)
  show "dom (sp_store pool') = insert p (dom (sp_store pool))" by (simp add: st(1))
  show "\<exists>t. sp_store pool' p = Some (s\<lparr>ss_lastUsedTime := t\<rparr>)" by (auto simp: st(1))
qed

lemma mark_sound:
  assumes "poolSound pool"
  shows "poolSound (markProxySessionsGoingAway bk pool)" "registrations (markProxySessionsGoingAway bk pool) = registrations pool"
    "dom (sp_store (markProxySessionsGoingAway bk pool)) = dom (sp_store pool)"
proof -
  let ?st = "sp_store (markProxySessionsGoingAway bk pool)"
  have st: "?st p = sp_store pool p \<or> ?st p = map_option setGoingAway (sp_store pool p)" for p
    by (cases "sp_store pool p") (auto simp: markProxySessionsGoingAway_def)
  have going: "ss_magic (setGoingAway s) = ss_magic s" "registered (ss_conn (setGoingAway s)) = registered (ss_conn s)"
    "registryOk (ss_conn (setGoingAway s)) \<longleftrightarrow> registryOk (ss_conn s)" for s :: "'b session"
    by (simp_all add: setGoingAway_def registered_def registryOk_def)
  have eq: "markProxySessionsGoingAway bk pool = pool\<lparr>sp_store := ?st\<rparr>" by (simp add: markProxySessionsGoingAway_def)
  have "poolOk (pool\<lparr>sp_store := ?st\<rparr>)"
  proof (rule poolOk_store)
    show "\<forall>p\<in>pooled pool. \<exists>s. ?st p = Some s \<and> ss_magic s = SESSION_MAGIC"
    proof
      fix p assume "p \<in> pooled pool"
      then obtain s where "sp_store pool p = Some s" "ss_magic s = SESSION_MAGIC" using assms by (auto simp: poolSound_def poolOk_def)
      then show "\<exists>s. ?st p = Some s \<and> ss_magic s = SESSION_MAGIC" using st [of p] by (auto simp: going)
    qed
  qed (use assms in \<open>simp add: poolSound_def\<close>)
  moreover have "registryOk (ss_conn s)" if "?st p = Some s" for p s
    using that st [of p] assms by (cases "sp_store pool p") (auto simp: poolSound_def going)
  ultimately show "poolSound (markProxySessionsGoingAway bk pool)" using eq by (simp add: poolSound_def)
  have "(\<exists>s. ?st p = Some s \<and> q \<in> registered (ss_conn s)) \<longleftrightarrow> (\<exists>s. sp_store pool p = Some s \<and> q \<in> registered (ss_conn s))" for p q
    using st [of p] by (cases "sp_store pool p") (auto simp: going)
  then show "registrations (markProxySessionsGoingAway bk pool) = registrations pool" by (simp add: registrations_def)
  show "dom ?st = dom (sp_store pool)" using st by (auto simp: dom_def) (metis map_option_is_None not_None_eq option.distinct(1))+
qed


section \<open>A session for a request\<close>

text \<open>A session object as \<open>createSession\<close> hands it out.\<close>

definition freshSession :: "bool \<Rightarrow> 'z session \<Rightarrow> bool" where
  "freshSession http11 s \<longleftrightarrow> registryOk (ss_conn s) \<and> registered (ss_conn s) = {} \<and> ss_magic s = SESSION_MAGIC
     \<and> (http11 \<longrightarrow> ss_protocol s = HTTP_PROTOCOL_1_1)"

lemma newSession_fresh:
  "newSession env protocol b = (b', Some s, evs) \<Longrightarrow> (http11 \<Longrightarrow> protocol = HTTP_PROTOCOL_1_1) \<Longrightarrow> freshSession http11 s"
  using initConn_ok(1) by (auto simp: newSession_def freshSession_def initSession_def Let_def registered_def initConn_def split: if_splits)

lemma fail_force [simp]: "rb_forceHttp11 (fail e b) = rb_forceHttp11 b"
  by (simp add: fail_def)

lemma tlsSession_fresh:
  fixes s :: "'z session"
  assumes "tlsSession env fd b = (b', Some s, evs)"
  shows "freshSession (rb_forceHttp11 b) s"
proof -
  have est: "freshSession (rb_forceHttp11 b) s"
    if "establishSession env protocol fd b0 = (b', Some s, evs0)" "rb_forceHttp11 b \<longrightarrow> protocol = HTTP_PROTOCOL_1_1" for protocol b0 evs0
  proof -
    obtain b1 evs1 and s1 :: "'z session option" where n: "newSession env protocol b0 = (b1, s1, evs1)" by (metis prod_cases3)
    have "s1 = Some s" using that(1) n by (auto simp: establishSession_def Let_def split: if_splits)
    then show ?thesis using newSession_fresh n that(2) by blast
  qed
  have force: "rb_forceHttp11 (fst (createSSLContext env b)) = rb_forceHttp11 b" "rb_forceHttp11 (fst (createSSL env b1)) = rb_forceHttp11 b1"
    "rb_forceHttp11 (fst (configureSSLSettings b1)) = rb_forceHttp11 b1" for b1
    by (simp_all add: createSSLContext_def createSSL_def configureSSLSettings_def)
  have neg: "rb_forceHttp11 b1 \<Longrightarrow> negotiated env b1 = Some protocol \<Longrightarrow> protocol = HTTP_PROTOCOL_1_1" for b1 protocol
    by (simp add: negotiated_def split: if_splits)
  obtain b1 ctx where c1: "createSSLContext env b = (b1, ctx)" by fastforce
  obtain b2 ssl evs2 where c2: "createSSL env b1 = (b2, ssl, evs2)" by (metis prod_cases3)
  obtain b3 conf where c3: "configureSSLSettings b2 = (b3, conf)" by fastforce
  have f3: "rb_forceHttp11 b3 = rb_forceHttp11 b" using force(1) force(2) [of b1] force(3) [of b2] by (simp add: c1 c2 c3)
  obtain protocol where n: "negotiated env b3 = Some protocol" "\<exists>evs'. establishSession env protocol fd b3 = (b', Some s, evs')"
    using assms by (auto simp: tlsSession_def c1 c2 c3 Let_def split: if_splits option.splits prod.splits)
  then show ?thesis using est neg f3 by blast
qed

lemma createPlain_fresh:
  assumes "createPlainHttp11Session env b = (b', Some s, evs)"
  shows "freshSession True s"
proof -
  have "\<exists>s0 b1 b2 evs1. newSession env HTTP_PROTOCOL_1_1 b1 = (b2, Some s0, evs1) \<and> (\<exists>x. s = s0\<lparr>ss_plainProxy := x\<rparr>)"
    using assms by (simp add: createPlainHttp11Session_def Let_def split: if_splits option.splits prod.splits) blast+
  then obtain s0 b1 b2 evs1 where n: "newSession env HTTP_PROTOCOL_1_1 b1 = (b2, Some s0, evs1)" "\<exists>x. s = s0\<lparr>ss_plainProxy := x\<rparr>" by blast
  then show ?thesis using newSession_fresh [OF n(1), of True] by (auto simp: freshSession_def)
qed

lemma createSession_fresh:
  assumes "createSession env b = Some (b', Some s, evs)"
  shows "freshSession (rb_forceHttp11 b) s"
proof (cases "strcaseeq (uc_scheme (rb_components b)) ''http''")
  case True
  then show ?thesis using assms createPlain_fresh by (fastforce simp: createSession_def freshSession_def)
next
  case False
  have force: "rb_forceHttp11 b1 = rb_forceHttp11 b0" if "createSocketThroughProxy addrs ct b0 = Some (fd, b1, evs1)" for addrs ct b0 fd b1 evs1
    using that by (auto simp: createSocketThroughProxy_def connectToProxy_def Let_def split: option.splits prod.splits if_splits recvOutcome.splits)
  obtain fd b1 evs1 evs2 where t: "tlsSession env fd b1 = (b', Some s, evs2)" "rb_forceHttp11 b1 = rb_forceHttp11 b"
    using assms False force by (fastforce simp: createSession_def split: option.splits prod.splits if_splits)
  from tlsSession_fresh [OF t(1)] show ?thesis by (simp add: t(2))
qed

text \<open>Obtaining a session keeps every stream of every session, and hands out a live one.\<close>

lemma obtainSession_sound:
  fixes cl :: "'z client"
  assumes "obtainSession A now b cl = Some (cl', b')" "poolSound (cl_pool cl)" "sp_store (cl_pool cl) (at_session A) = None"
    "ex_session b = None"
  shows "poolSound (cl_pool cl')" "registrations (cl_pool cl') = registrations (cl_pool cl)"
    "dom (sp_store (cl_pool cl')) \<subseteq> insert (at_session A) (dom (sp_store (cl_pool cl)))"
    "ex_session b' = Some p \<Longrightarrow> \<exists>s. sp_store (cl_pool cl') p = Some s \<and> (rb_forceHttp11 b \<longrightarrow> ss_protocol s = HTTP_PROTOCOL_1_1)
        \<and> (p = at_session A \<or> (\<exists>s. sp_store (cl_pool cl) p = Some s \<and> \<not> goingAway s))"
    "cl' = cl\<lparr>cl_pool := cl_pool cl'\<rparr>" "\<exists>e px session. b' = b\<lparr>rb_error := e, rb_proxy := px, ex_session := session\<rparr>"
proof -
  define rb where "rb = requestBasket.truncate b"
  define view where "view = sessionView (ex_session b) rb"
  define pool0 where "pool0 = cleanupSessions (at_alive A) now False (cl_pool cl)"
  define create where "create = (createFor (at_create A) (at_session A) rb :: basket \<Rightarrow> basket \<times> (nat \<times> 'z session) option)"
  note c = cleanup_sound [OF assms(2), of "at_alive A" now, folded pool0_def]
  obtain pool1 bk1 where g: "getSessionInfo (at_alive A) now view pool0 = (pool1, bk1)" by fastforce
  note s = getSession_sound [OF c(1) g]
  have view: "bk_session view = None" "bk_forceHttp11 view = rb_forceHttp11 b"
    by (simp_all add: view_def sessionView_def rb_def assms(4) requestBasket.defs)
  obtain pool bk where h: "handleSession (at_alive A) now create view (cl_pool cl) = (pool, bk)" by fastforce
  have res: "cl' = cl\<lparr>cl_pool := pool\<rparr>" "b' = b\<lparr>rb_error := bk_error bk, rb_proxy := bk_proxy bk, ex_session := bk_session bk\<rparr>"
    using assms(1) h by (auto simp: obtainSession_def Let_def rb_def view_def create_def split: if_splits)
  have free: "sp_store pool1 (at_session A) = None" using s(3) c(3) assms(3) by blast
  have "poolSound pool \<and> registrations pool = registrations (cl_pool cl) \<and> dom (sp_store pool) \<subseteq> insert (at_session A) (dom (sp_store (cl_pool cl)))
    \<and> (\<forall>p. bk_session bk = Some p \<longrightarrow> (\<exists>s. sp_store pool p = Some s \<and> (rb_forceHttp11 b \<longrightarrow> ss_protocol s = HTTP_PROTOCOL_1_1)
        \<and> (p = at_session A \<or> (\<exists>s. sp_store (cl_pool cl) p = Some s \<and> \<not> goingAway s))))"
  proof (cases "bk_session bk1")
    case (Some p)
    then have r: "pool = pool1" "bk = bk1" using h g by (simp_all add: handleSession_def pool0_def)
    obtain s where sp: "sp_store pool0 p = Some s" "reusable (at_alive A) view p s" "sp_store pool1 p = Some (s\<lparr>ss_lastUsedTime := now\<rparr>)"
      using s(4) Some view(1) by auto
    have s0: "sp_store (cl_pool cl) p = Some s"
      using cleanup_store [OF assms(2), of "at_alive A" now False p s] sp(1) by (simp add: pool0_def)
    have use: "\<not> goingAway s" "rb_forceHttp11 b \<longrightarrow> ss_protocol s = HTTP_PROTOCOL_1_1"
      using sp(2) view(2) by (auto simp: reusable_def sessionProtocolUsable_def Let_def)
    have "poolSound pool" "registrations pool = registrations (cl_pool cl)" "dom (sp_store pool) \<subseteq> insert (at_session A) (dom (sp_store (cl_pool cl)))"
      using c s(1-3) r(1) by auto
    moreover have "bk_session bk = Some p" using r(2) Some by simp
    ultimately show ?thesis using use sp(3) s0 unfolding r(1) by simp
  next
    case None
    show ?thesis
    proof (cases "create bk1")
      case (Pair bk2 session)
      show ?thesis
      proof (cases session)
        case n: None
        then have "pool = (if isProxyError bk2 then markProxySessionsGoingAway bk2 pool1 else pool1)" "bk = bk2"
          using h g None Pair by (auto simp: handleSession_def pool0_def)
        moreover have "bk_session bk2 = bk_session bk1" using Pair by (auto simp: create_def createFor_def split: option.splits prod.splits)
        ultimately show ?thesis using mark_sound [OF s(1), of bk2] c(2,3) s(1-3) None by auto
      next
        case (Some ps)
        obtain p' b1 s' evs where cs: "createSession (at_create A) rb = Some (b1, Some s', evs)" "ps = (at_session A, s')"
          using Pair Some by (auto simp: create_def createFor_def split: option.splits prod.splits)
        have "pool = registerSession now (at_session A) (pool1\<lparr>sp_store := (sp_store pool1)(at_session A \<mapsto> s')\<rparr>)" "bk_session bk = Some (at_session A)"
          using h g None Pair Some cs(2) by (auto simp: handleSession_def pool0_def)
        moreover have f: "freshSession (rb_forceHttp11 b) s'" using createSession_fresh [OF cs(1)] by (simp add: rb_def requestBasket.defs)
        ultimately show ?thesis using register_sound [OF s(1) free, of s' now] c(2,3) s(2,3) by (auto simp: freshSession_def)
      qed
    qed
  qed
  then show "poolSound (cl_pool cl')" "registrations (cl_pool cl') = registrations (cl_pool cl)"
    "dom (sp_store (cl_pool cl')) \<subseteq> insert (at_session A) (dom (sp_store (cl_pool cl)))"
    "ex_session b' = Some p \<Longrightarrow> \<exists>s. sp_store (cl_pool cl') p = Some s \<and> (rb_forceHttp11 b \<longrightarrow> ss_protocol s = HTTP_PROTOCOL_1_1)
        \<and> (p = at_session A \<or> (\<exists>s. sp_store (cl_pool cl) p = Some s \<and> \<not> goingAway s))"
    "cl' = cl\<lparr>cl_pool := cl_pool cl'\<rparr>"
    by (auto simp: res)
  show "\<exists>e px session. b' = b\<lparr>rb_error := e, rb_proxy := px, ex_session := session\<rparr>" unfolding res(2) by blast
qed


section \<open>What happens on one connection\<close>

text \<open>A step of a connection that neither registers nor removes a stream.\<close>

definition connKeeps :: "'z conn \<Rightarrow> 'z conn \<Rightarrow> bool" where
  "connKeeps cn cn' \<longleftrightarrow> cn_streams cn' = cn_streams cn \<and> cn_inflightCount cn' = cn_inflightCount cn
     \<and> (\<forall>q. cn_store cn' q = None \<longleftrightarrow> cn_store cn q = None)"

lemma connKeeps_refl [simp, intro]: "connKeeps cn cn"
  by (simp add: connKeeps_def)

lemma connKeeps_trans: "connKeeps a b \<Longrightarrow> connKeeps b c \<Longrightarrow> connKeeps a c"
  by (simp add: connKeeps_def)

lemma connKeeps_registered: "connKeeps cn cn' \<Longrightarrow> registered cn' = registered cn"
  by (simp add: connKeeps_def registered_def)

lemma connKeeps_ok: "connKeeps cn cn' \<Longrightarrow> registryOk cn \<Longrightarrow> registryOk cn'"
  by (simp add: connKeeps_def registryOk_def registered_def)

lemma connKeeps_stream: "cn_store cn q \<noteq> None \<Longrightarrow> connKeeps cn (cn\<lparr>cn_store := (cn_store cn)(q \<mapsto> st), cn_goingAway := g\<rparr>)"
  "cn_store cn q \<noteq> None \<Longrightarrow> connKeeps cn (cn\<lparr>cn_store := (cn_store cn)(q \<mapsto> st)\<rparr>)"
  "connKeeps cn (cn\<lparr>cn_store := (cn_store cn)(q := map_option f (cn_store cn q))\<rparr>)"
  by (auto simp: connKeeps_def)

lemma registered_stream: "registryOk cn \<Longrightarrow> q \<in> registered cn \<Longrightarrow> \<exists>st. cn_store cn q = Some st"
  by (auto simp: registryOk_def)

text \<open>The reader thread: a batch of frames, and the loss of the connection.\<close>

lemma goAway_count [simp]: "cn_inflightCount (handleGoAwayFrame payload cn) = cn_inflightCount cn"
  by (simp add: handleGoAwayFrame_def Let_def)

lemma rst_count: "handleRST_STREAMFrame payload cn s = (cn', s') \<Longrightarrow> cn_inflightCount cn' = cn_inflightCount cn"
  by (auto simp: handleRST_STREAMFrame_def Let_def split: if_splits)

lemma handleStreamFrame_count:
  "handleStreamFrame env f cn s = Some (cn', s') \<Longrightarrow> cn_inflightCount cn' = cn_inflightCount cn"
  by (auto simp: handleStreamFrame_def handleFrameBody_def finishFrame_def Let_def dest!: rst_count split: if_splits option.splits prod.splits)

lemma null_keeps: "connKeeps cn (handleNullStreamFrame env f cn)"
  by (simp add: connKeeps_def) (auto simp: handleNullStreamFrame_def Let_def handleFrameBody_def dest!: rst_count split: option.splits prod.splits if_splits)

lemma failAll_keeps: "connKeeps cn (failAllStreams onlyPending cn)"
  by (auto simp: connKeeps_def failAllStreams_store)

lemma onFlow_keeps: "connKeeps cn (onFlow g cn)"
  by (simp add: connKeeps_def onFlow_def)

lemma dispatch_keeps:
  assumes "readerDispatch env f cn = Some cn'"
  shows "connKeeps cn cn'"
proof (cases "isStreamFrame f")
  case False
  then show ?thesis using assms connKeeps_trans [OF null_keeps onFlow_keeps] connKeeps_trans [OF null_keeps failAll_keeps] null_keeps
    by (auto simp: readerDispatch_def Let_def split: if_splits)
next
  case True
  show ?thesis
  proof (cases "findStream cn (fr_streamId f)")
    case None
    then show ?thesis using assms True null_keeps by (auto simp: readerDispatch_def Let_def)
  next
    case (Some q)
    obtain st where st: "cn_store cn q = Some st" using findStream_SomeD [OF Some] by blast
    obtain c s where h: "handleStreamFrame env f cn (the (cn_store cn q)) = Some (c, s)"
      using assms True Some by (auto simp: readerDispatch_def Let_def split: option.splits)
    then show ?thesis using assms True Some st handleStreamFrame_frame [OF h] handleStreamFrame_count [OF h]
      by (auto simp: readerDispatch_def Let_def connKeeps_def onFlow_def split: prod.splits if_splits)
  qed
qed

lemma batch_keeps: "readerBatch env acc buf cn = Some (cn', rest) \<Longrightarrow> connKeeps cn cn'"
proof -
  have all: "dispatchAll env fs cn = Some cn' \<Longrightarrow> connKeeps cn cn'" for fs cn cn'
    by (induction fs arbitrary: cn) (auto split: option.splits intro: connKeeps_trans dispatch_keeps)
  show "readerBatch env acc buf cn = Some (cn', rest) \<Longrightarrow> connKeeps cn cn'"
    using all by (fastforce simp: readerBatch_def onFlow_def connKeeps_def split: prod.splits)
qed

lemma lost_keeps: "connKeeps cn (readerLost e cn)"
  by (auto simp: readerLost_def failAllStreams_store connKeeps_def)


section \<open>One attempt\<close>

text \<open>What of the basket stays as it was while the request runs on its session.\<close>

definition sameRequest :: "'z exchange \<Rightarrow> 'z exchange \<Rightarrow> bool" where
  "sameRequest b b' \<longleftrightarrow> rb_nonBlocking b' = rb_nonBlocking b \<and> ex_session b' = ex_session b \<and> rb_forceHttp11 b' = rb_forceHttp11 b"

lemma sameRequest_refl [simp]: "sameRequest b b"
  by (simp add: sameRequest_def)

lemma sameRequest_trans: "sameRequest a b \<Longrightarrow> sameRequest b c \<Longrightarrow> sameRequest a c"
  by (simp add: sameRequest_def)

lemma sameRequest_error: "sameRequest b (b\<lparr>rb_error := e\<rparr>)"
  by (simp add: sameRequest_def)

text \<open>A session whose streams stay registered.\<close>

definition sessionKeeps :: "'z session \<Rightarrow> 'z session \<Rightarrow> bool" where
  "sessionKeeps s s' \<longleftrightarrow> connKeeps (ss_conn s) (ss_conn s') \<and> ss_magic s' = ss_magic s"

lemma sessionKeeps_registry:
  "sessionKeeps s s' \<Longrightarrow> registryOk (ss_conn s) \<Longrightarrow> registryOk (ss_conn s')"
  "sessionKeeps s s' \<Longrightarrow> registered (ss_conn s') = registered (ss_conn s)" "sessionKeeps s s' \<Longrightarrow> ss_magic s' = ss_magic s"
  by (auto simp: sessionKeeps_def intro: connKeeps_ok dest: connKeeps_registered)

lemma http2_same: "handleHttp2Request alloc write b = Some b' \<Longrightarrow> sameRequest b b'"
  by (auto simp: handleHttp2Request_def sendHeadersFrame_def sameRequest_def split: option.splits prod.splits if_splits)

lemma http11_same: "dispatchHttp11 env A async b s stream = Some (b', stream', g) \<Longrightarrow> sameRequest b b'"
  by (auto simp: dispatchHttp11_def sameRequest_def split: option.splits prod.splits if_splits)

lemma dispatch_sound:
  assumes "dispatchRequest env A w b s stream = Some (b', s')"
  shows "sameRequest b b'" "sessionKeeps s s'"
  using assms http2_same connKeeps_stream(1) [of "ss_conn s" stream]
  by (auto simp: dispatchRequest_def sessionKeeps_def split: option.splits if_splits dest: http11_same)

lemma finalize_same:
  "finalizeStreamIntoBasket alloc lib base64 b st = Some (b', st') \<Longrightarrow> sameRequest b b'"
  by (auto simp: finalizeStreamIntoBasket_def finalizeResponsePayload_def sameRequest_def Let_def
      split: if_splits option.splits decompressedObj.splits)

lemma awaitLoop_keeps:
  assumes "\<forall>(reader, rest)\<in>set waits. \<forall>cn. connKeeps cn (reader cn)" "awaitLoop ms q deadline waits cn = Some cn'"
  shows "connKeeps cn cn'"
  using assms
proof (induction waits arbitrary: deadline cn)
  case (Cons w waits)
  obtain reader timedOut now where w: "w = (reader, timedOut, now)" by (metis prod_cases3)
  have k: "connKeeps cn (reader cn)" using Cons.prems(1) w by auto
  have "cn' = cn \<or> cn' = reader cn \<or> (\<exists>deadline. awaitLoop ms q deadline waits (reader cn) = Some cn')"
    using Cons.prems(2) by (cases deadline) (auto simp: w Let_def split: option.splits if_splits prod.splits)
  then show ?case using k Cons.IH [of _ "reader cn"] Cons.prems(1) connKeeps_trans [OF k] by auto
qed (simp split: option.splits)

lemma await_sound:
  assumes "\<forall>(reader, rest)\<in>set (at_waits A). \<forall>cn. connKeeps cn (reader cn)" "awaitResponse env base64 A b s q = Some (b', s')"
  shows "sameRequest b b'" "sessionKeeps s s'"
proof -
  obtain cn b1 rc where a: "awaitStream A b q (ss_conn s) = Some (cn, b1, rc)" using assms(2) by (auto simp: awaitResponse_def split: option.splits)
  then have k: "connKeeps (ss_conn s) cn" "sameRequest b b1"
    using awaitLoop_keeps [OF assms(1)] by (auto simp: awaitStream_def sameRequest_def Let_def split: option.splits if_splits)
  then show "sameRequest b b'" "sessionKeeps s s'"
    using assms(2) a connKeeps_stream(2) [of cn q]
    by (auto simp: awaitResponse_def sessionKeeps_def split: option.splits if_splits dest!: finalize_same intro: sameRequest_trans connKeeps_trans)
qed

text \<open>The pool after a session changed: streams stay, one is added, or one is removed.\<close>

lemma putSession_keeps:
  assumes "poolSound (cl_pool cl)" "sp_store (cl_pool cl) p = Some s" "sessionKeeps s s'"
  shows "poolSound (cl_pool (putSession p s' cl))" "registrations (cl_pool (putSession p s' cl)) = registrations (cl_pool cl)"
    "dom (sp_store (cl_pool (putSession p s' cl))) = dom (sp_store (cl_pool cl))"
proof -
  have "registryOk (ss_conn s)" using assms(1,2) by (simp add: poolSound_def)
  then have "registryOk (ss_conn s')" "ss_magic s' = ss_magic s" "registered (ss_conn s') = registered (ss_conn s)"
    using sessionKeeps_registry [OF assms(3)] by simp_all
  from putSession_pool [OF assms(1,2) this(1,2)] this(3) show "poolSound (cl_pool (putSession p s' cl))"
    "registrations (cl_pool (putSession p s' cl)) = registrations (cl_pool cl)"
    using registrations_at [OF assms(2)] by (auto simp: putSession_def)
  show "dom (sp_store (cl_pool (putSession p s' cl))) = dom (sp_store (cl_pool cl))" using assms(2) by (auto simp: putSession_def)
qed

lemma putSession_register:
  assumes "poolSound (cl_pool cl)" "sp_store (cl_pool cl) p = Some s" "q \<notin> registered (ss_conn s)"
    "registryOk (ss_conn s')" "ss_magic s' = ss_magic s" "registered (ss_conn s') = insert q (registered (ss_conn s))"
  shows "poolSound (cl_pool (putSession p s' cl))"
    "registrations (cl_pool (putSession p s' cl)) = insert (p, q) (registrations (cl_pool cl))"
    "dom (sp_store (cl_pool (putSession p s' cl))) = dom (sp_store (cl_pool cl))"
  using putSession_pool [OF assms(1,2,4,5)] registrations_at [OF assms(2)] assms(2,6) by (auto simp: putSession_def)

lemma putSession_drop:
  assumes "poolSound (cl_pool cl)" "sp_store (cl_pool cl) p = Some s" "sessionKeeps s s'" "q \<in> registered (ss_conn s)"
  shows "poolSound (cl_pool (putSession p (fst (dropStream q s' b)) cl))"
    "registrations (cl_pool (putSession p (fst (dropStream q s' b)) cl)) = registrations (cl_pool cl) - {(p, q)}"
    "dom (sp_store (cl_pool (putSession p (fst (dropStream q s' b)) cl))) = dom (sp_store (cl_pool cl))"
proof -
  have k: "registryOk (ss_conn s')" "registered (ss_conn s') = registered (ss_conn s)" "ss_magic s' = ss_magic s"
    using assms(1,2) sessionKeeps_registry [OF assms(3)] by (simp_all add: poolSound_def)
  have "registryOk (unregisterStream q (ss_conn s')) \<and> registered (unregisterStream q (ss_conn s')) = registered (ss_conn s) - {q}"
    using streams.leave_member [OF k(1)] assms(4) k(2) by simp
  then have d: "registryOk (ss_conn (fst (dropStream q s' b)))" "ss_magic (fst (dropStream q s' b)) = ss_magic s"
    "registered (ss_conn (fst (dropStream q s' b))) = registered (ss_conn s) - {q}"
    by (simp_all add: dropStream_def k(3))
  from putSession_pool [OF assms(1,2) d(1,2)] d(3) show "poolSound (cl_pool (putSession p (fst (dropStream q s' b)) cl))"
    "registrations (cl_pool (putSession p (fst (dropStream q s' b)) cl)) = registrations (cl_pool cl) - {(p, q)}"
    "dom (sp_store (cl_pool (putSession p (fst (dropStream q s' b)) cl))) = dom (sp_store (cl_pool cl))"
    using registrations_at [OF assms(2)] assms(2) by (auto simp: putSession_def)
qed


lemma registerStream_sound:
  assumes "registerStream fresh headersOk now sink cn = (cn', result)" "registryOk cn"
  shows "result = Inl e \<Longrightarrow> connKeeps cn cn'"
    "result = Inr q \<Longrightarrow> fresh = Some q"
    "result = Inr q \<Longrightarrow> q \<notin> registered cn \<Longrightarrow> registryOk cn' \<and> registered cn' = insert q (registered cn)"
proof -
  show "result = Inl e \<Longrightarrow> connKeeps cn cn'" "result = Inr q \<Longrightarrow> fresh = Some q"
    using assms(1) by (auto simp: registerStream_def connKeeps_def Let_def split: option.splits if_splits)
  assume r: "result = Inr q" "q \<notin> registered cn"
  then have "enterStream now sink q cn = Some cn'"
    using assms(1) by (auto simp: registerStream_def enterStream_def Let_def split: option.splits if_splits)
  from streams.enter_some [OF assms(2) r(2) this] show "registryOk cn' \<and> registered cn' = insert q (registered cn)" .
qed

text \<open>The pointers an attempt gets are new, and the readers keep the streams.\<close>

definition worldOk :: "'z attemptEnv \<Rightarrow> 'z client \<Rightarrow> bool" where
  "worldOk A cl \<longleftrightarrow> sp_store (cl_pool cl) (at_session A) = None
     \<and> (\<forall>p q. at_stream A = Some q \<longrightarrow> (p, q) \<notin> registrations (cl_pool cl))
     \<and> (\<forall>(reader, rest)\<in>set (at_waits A). \<forall>cn. connKeeps cn (reader cn))"

text \<open>What an attempt leaves of the pool: the streams it found, and its own if it returns one.\<close>

definition attemptLeaves :: "nat set \<Rightarrow> 'z exchange \<Rightarrow> 'z client \<Rightarrow> 'z client \<times> 'z exchange \<times> nat option \<Rightarrow> bool" where
  "attemptLeaves sessions b cl result \<longleftrightarrow>
     (case result of (cl', b', r) \<Rightarrow>
        poolSound (cl_pool cl') \<and> cl' = cl\<lparr>cl_pool := cl_pool cl'\<rparr> \<and> rb_nonBlocking b' = rb_nonBlocking b
        \<and> dom (sp_store (cl_pool cl')) \<subseteq> sessions \<union> dom (sp_store (cl_pool cl))
        \<and> (case r of
              None \<Rightarrow> registrations (cl_pool cl') = registrations (cl_pool cl)
            | Some q \<Rightarrow> (\<exists>p. ex_session b' = Some p
                \<and> registrations (cl_pool cl') = insert (p, q) (registrations (cl_pool cl)) \<and> (p, q) \<notin> registrations (cl_pool cl))))"

lemma putSession_client: "cl = cl0\<lparr>cl_pool := cl_pool cl\<rparr> \<Longrightarrow> putSession p s cl = cl0\<lparr>cl_pool := cl_pool (putSession p s cl)\<rparr>"
  by (cases cl, cases cl0) (simp add: putSession_def)

text \<open>The part on the registered stream, from the client in which the stream is registered.\<close>

lemma runOnStream_sound:
  fixes cl :: "'z client"
  assumes run: "runOnStream env base64 A w b p s q cl = Some (cl', b', r)"
    and ok: "poolSound (cl_pool cl1)" "sp_store (cl_pool cl1) p = Some s" "q \<in> registered (ss_conn s)" "cl1 = putSession p s cl"
    and readers: "\<forall>(reader, rest)\<in>set (at_waits A). \<forall>cn. connKeeps cn (reader cn)"
  shows "poolSound (cl_pool cl') \<and> cl' = cl1\<lparr>cl_pool := cl_pool cl'\<rparr> \<and> rb_nonBlocking b' = rb_nonBlocking b
    \<and> dom (sp_store (cl_pool cl')) = dom (sp_store (cl_pool cl1))
    \<and> (case r of None \<Rightarrow> registrations (cl_pool cl') = registrations (cl_pool cl1) - {(p, q)}
      | Some q' \<Rightarrow> q' = q \<and> registrations (cl_pool cl') = registrations (cl_pool cl1) \<and> sameRequest b b')"
proof -
  have twice: "putSession p x cl = putSession p x cl1" for x by (simp add: ok(4) putSession_def)
  have cl1: "cl1 = cl1\<lparr>cl_pool := cl_pool cl1\<rparr>" by simp
  obtain b1 s1 where d: "dispatchRequest env A w b s q = Some (b1, s1)" using run by (auto simp: runOnStream_def split: option.splits)
  note ds = dispatch_sound [OF d]
  show ?thesis
  proof (cases "failed (rb_error b1)")
    case True
    let ?s = "s1\<lparr>ss_conn := (ss_conn s1)\<lparr>cn_store := (cn_store (ss_conn s1))
                          (q := map_option completeResponseSink (cn_store (ss_conn s1) q))\<rparr>\<rparr>"
    have k: "sessionKeeps s ?s"
      using ds(2) connKeeps_stream(3) [of "ss_conn s1" q completeResponseSink] by (auto simp: sessionKeeps_def intro: connKeeps_trans)
    have "r = None" "cl' = putSession p (fst (dropStream q ?s b1)) cl1" "b' = snd (dropStream q ?s b1)"
      using run d True unfolding runOnStream_def twice by (simp_all add: Let_def split: prod.splits)
    moreover have "rb_nonBlocking (snd (dropStream q ?s b1)) = rb_nonBlocking b"
      using ds(1) by (auto simp: dropStream_def sameRequest_def split: option.splits)
    ultimately show ?thesis using putSession_drop [OF ok(1,2) k ok(3), of b1] putSession_client [OF cl1] by simp
  next
    case False
    have "\<exists>s2. sessionKeeps s s2 \<and> sameRequest b b' \<and> cl' = putSession p s2 cl1 \<and> r = Some q"
    proof (cases w)
      case True
      then obtain s2 where a: "awaitResponse env base64 A b1 s1 q = Some (b', s2)" "cl' = putSession p s2 cl1" "r = Some q"
        using run d False unfolding runOnStream_def twice by auto
      from await_sound [OF readers a(1)] ds a(2,3) show ?thesis
        by (auto simp: sessionKeeps_def intro!: exI [of _ s2] intro: sameRequest_trans connKeeps_trans)
    next
      case f: False
      then show ?thesis using run d False ds unfolding runOnStream_def twice by auto
    qed
    then obtain s2 where "sessionKeeps s s2" "sameRequest b b'" "cl' = putSession p s2 cl1" "r = Some q" by blast
    then show ?thesis using putSession_keeps [OF ok(1,2), of s2] putSession_client [OF cl1] by (simp add: sameRequest_def)
  qed
qed

lemma executeRequest_leaves:
  fixes cl :: "'z client"
  assumes run: "executeRequest env base64 A w b cl = Some (cl', b', r)"
    and ok: "poolSound (cl_pool cl)" "worldOk A cl" "ex_session b = None"
  shows "attemptLeaves {at_session A} b cl (cl', b', r)"
proof -
  obtain cl1 b1 where o1: "obtainSession A (ev_now env) b cl = Some (cl1, b1)"
    using run by (auto simp: executeRequest_def split: option.splits)
  have fresh: "sp_store (cl_pool cl) (at_session A) = None" using ok(2) by (simp add: worldOk_def)
  note o = obtainSession_sound [OF o1 ok(1) fresh ok(3)]
  obtain e px session where b1: "b1 = b\<lparr>rb_error := e, rb_proxy := px, ex_session := session\<rparr>" using o(6) by blast
  show ?thesis
  proof (cases "ex_session b1 = None \<or> failed (rb_error b1)")
    case True
    then have "r = None" "cl' = cl1" "b' = b1" using run o1 by (auto simp: executeRequest_def)
    then show ?thesis using o(1-3,5) b1 by (simp add: attemptLeaves_def)
  next
    case False
    then obtain p where p: "ex_session b1 = Some p" by auto
    obtain s where s: "sp_store (cl_pool cl1) p = Some s" using o(4) [OF p] by blast
    have ses: "sessionOf cl1 b1 = Some (p, s)" using p s by (simp add: sessionOf_def)
    obtain cn result where reg: "registerStream (at_stream A) (at_headersOk A) (ev_now env) (ex_sink b1) (ss_conn s) = (cn, result)" by fastforce
    define b2 where "b2 = b1\<lparr>ex_streamId := (if at_stream A = None \<or> \<not> at_headersOk A then ex_streamId b1 else cn_streamId (ss_conn s))\<rparr>"
    define s1 where "s1 = s\<lparr>ss_conn := cn\<rparr>"
    have b2: "rb_nonBlocking b2 = rb_nonBlocking b" "ex_session b2 = Some p" using p by (simp_all add: b2_def b1)
    have rok: "registryOk (ss_conn s)" using o(1) s by (simp add: poolSound_def)
    note rs = registerStream_sound [OF reg rok]
    have ex: "executeRequest env base64 A w b cl =
       (case result of Inl e \<Rightarrow> Some (putSession p s1 cl1, b2\<lparr>rb_error := e\<rparr>, None)
        | Inr stream \<Rightarrow> runOnStream env base64 A w b2 p s1 stream cl1)"
      using False p unfolding executeRequest_def o1 option.case prod.case ses reg Let_def b2_def s1_def by simp
    show ?thesis
    proof (cases result)
      case (Inl e)
      have k: "sessionKeeps s s1" using rs(1) [OF Inl] by (simp add: sessionKeeps_def s1_def)
      have "r = None" "cl' = putSession p s1 cl1" "b' = b2\<lparr>rb_error := e\<rparr>" using run ex Inl by simp_all
      then show ?thesis using putSession_keeps [OF o(1) s k] o(2,3) putSession_client [OF o(5)] b2(1) by (simp add: attemptLeaves_def)
    next
      case (Inr q)
      have q: "at_stream A = Some q" "q \<notin> registered (ss_conn s)"
        using rs(2) [OF Inr] ok(2) o(2) registrations_at [OF s, of q] by (simp_all add: worldOk_def)
      have reg1: "registryOk (ss_conn s1)" "ss_magic s1 = ss_magic s" "registered (ss_conn s1) = insert q (registered (ss_conn s))"
        using rs(3) [OF Inr q(2)] by (simp_all add: s1_def)
      define cl2 where "cl2 = putSession p s1 cl1"
      note r2 = putSession_register [OF o(1) s q(2) reg1, folded cl2_def]
      have s2: "sp_store (cl_pool cl2) p = Some s1" "q \<in> registered (ss_conn s1)" by (simp_all add: cl2_def putSession_def reg1(3))
      have cl2: "cl2 = cl\<lparr>cl_pool := cl_pool cl2\<rparr>" unfolding cl2_def by (rule putSession_client [OF o(5)])
      have readers: "\<forall>(reader, rest)\<in>set (at_waits A). \<forall>cn. connKeeps cn (reader cn)" using ok(2) by (simp add: worldOk_def)
      have "runOnStream env base64 A w b2 p s1 q cl1 = Some (cl', b', r)" using run ex Inr by simp
      from runOnStream_sound [OF this r2(1) s2 cl2_def readers]
      have f: "poolSound (cl_pool cl')" "cl' = cl2\<lparr>cl_pool := cl_pool cl'\<rparr>" "rb_nonBlocking b' = rb_nonBlocking b"
        "dom (sp_store (cl_pool cl')) = dom (sp_store (cl_pool cl2))"
        "case r of None \<Rightarrow> registrations (cl_pool cl') = registrations (cl_pool cl2) - {(p, q)}
         | Some q' \<Rightarrow> q' = q \<and> registrations (cl_pool cl') = registrations (cl_pool cl2) \<and> sameRequest b2 b'"
        by (simp_all add: b2)
      have "cl' = cl\<lparr>cl_pool := cl_pool cl'\<rparr>" using f(2) cl2 by (cases cl, cases cl2, cases cl') simp
      moreover have "(p, q) \<notin> registrations (cl_pool cl)" using q(2) registrations_at [OF s, of q] o(2) by simp
      ultimately show ?thesis using f(1,3-5) r2(2,3) o(2,3) q(1) b2(2) by (auto simp: attemptLeaves_def sameRequest_def split: option.splits)
    qed
  qed
qed


lemma putSession_same: "sp_store (cl_pool cl) p = Some s \<Longrightarrow> putSession p s' (putSession p s cl) = putSession p s' cl"
  by (simp add: putSession_def)

lemma attempt_pool:
  "attemptLeaves S b cl (cl', b', r) \<Longrightarrow> poolSound (cl_pool cl')"
  "attemptLeaves S b cl (cl', b', r) \<Longrightarrow> cl' = cl\<lparr>cl_pool := cl_pool cl'\<rparr>"
  "attemptLeaves S b cl (cl', b', r) \<Longrightarrow> rb_nonBlocking b' = rb_nonBlocking b"
  by (simp_all add: attemptLeaves_def)

text \<open>Removing the stream an attempt left.\<close>

lemma attempt_drop:
  assumes "attemptLeaves S b cl (cl', b', Some q)" "sessionOf cl' b' = Some (p, s)" "dropStream q s b' = (s', b'')"
  shows "attemptLeaves S b cl (putSession p s' cl', b'', None)"
proof -
  have ses: "ex_session b' = Some p" "sp_store (cl_pool cl') p = Some s" using assms(2) by (auto simp: sessionOf_def split: option.splits)
  then have r: "registrations (cl_pool cl') = insert (p, q) (registrations (cl_pool cl))" "(p, q) \<notin> registrations (cl_pool cl)"
    using assms(1) by (auto simp: attemptLeaves_def)
  then have q: "q \<in> registered (ss_conn s)" using registrations_at [OF ses(2)] by auto
  have k: "sessionKeeps s s" by (simp add: sessionKeeps_def)
  have s': "s' = fst (dropStream q s b')" "rb_nonBlocking b'' = rb_nonBlocking b'" using assms(3) by (auto simp: dropStream_def split: option.splits)
  show ?thesis
    using putSession_drop [OF attempt_pool(1) [OF assms(1)] ses(2) k q, of b'] r assms(1) putSession_client [OF attempt_pool(2) [OF assms(1)]]
    by (simp add: attemptLeaves_def s')
qed

lemma attemptOnce_leaves:
  assumes "attemptOnce env base64 A b cl = Some (cl', b')" "poolSound (cl_pool cl)" "worldOk A cl" "ex_session b = None"
  shows "attemptLeaves {at_session A} b cl (cl', b', None)"
proof -
  obtain cl1 b1 r where e: "executeRequest env base64 A True b cl = Some (cl1, b1, r)"
    using assms(1) by (auto simp: attemptOnce_def split: option.splits)
  note x = executeRequest_leaves [OF e assms(2-4)]
  show ?thesis
  proof (cases r)
    case None
    then show ?thesis using x assms(1) e by (simp add: attemptOnce_def)
  next
    case (Some q)
    then obtain p s where "sessionOf cl1 b1 = Some (p, s)" using assms(1) e by (auto simp: attemptOnce_def split: option.splits)
    then show ?thesis using attempt_drop [OF x [unfolded Some], of p s] assms(1) e Some by (auto simp: attemptOnce_def split: prod.splits)
  qed
qed

lemma retry_leaves:
  assumes "prepareRetry b' cl' = Some (cl'', b'')" "attemptLeaves S b cl (cl', b', None)"
  shows "attemptLeaves S b cl (cl'', b'', None)" "ex_session b'' = None"
proof -
  obtain p s where ses: "sessionOf cl' b' = Some (p, s)" using assms(1) by (auto simp: prepareRetry_def Let_def sessionOf_def split: option.splits if_splits)
  then have st: "sp_store (cl_pool cl') p = Some s" by (auto simp: sessionOf_def split: option.splits)
  have k: "sessionKeeps s (setGoingAway s)" by (simp add: sessionKeeps_def setGoingAway_def connKeeps_def)
  have r: "cl'' = putSession p (setGoingAway s) cl'" "ex_session b'' = None" "rb_nonBlocking b'' = rb_nonBlocking b'"
    using assms(1) ses by (auto simp: prepareRetry_def Let_def sessionOf_def split: option.splits if_splits)
  show "ex_session b'' = None" by (rule r(2))
  show "attemptLeaves S b cl (cl'', b'', None)"
    using putSession_keeps [OF attempt_pool(1) [OF assms(2)] st k] assms(2) putSession_client [OF attempt_pool(2) [OF assms(2)]] r
    by (simp add: attemptLeaves_def)
qed

text \<open>An attempt behind one that left no stream.\<close>

lemma attempt_again:
  assumes "attemptLeaves {p} b cl (cl1, b1, None)" "attemptLeaves S b1 cl1 (cl2, b2, r)"
  shows "attemptLeaves (insert p S) b cl (cl2, b2, r)"
proof -
  have "cl2 = cl\<lparr>cl_pool := cl_pool cl2\<rparr>"
    using attempt_pool(2) [OF assms(1)] attempt_pool(2) [OF assms(2)] by (cases cl, cases cl1, cases cl2) simp
  moreover have "dom (sp_store (cl_pool cl1)) \<subseteq> {p} \<union> dom (sp_store (cl_pool cl))" "dom (sp_store (cl_pool cl2)) \<subseteq> S \<union> dom (sp_store (cl_pool cl1))"
    using assms by (simp_all add: attemptLeaves_def)
  then have "dom (sp_store (cl_pool cl2)) \<subseteq> insert p S \<union> dom (sp_store (cl_pool cl))" by blast
  ultimately show ?thesis using assms by (cases r) (simp_all add: attemptLeaves_def)
qed

definition worldsOk :: "'z attemptEnv \<Rightarrow> 'z attemptEnv \<Rightarrow> 'z client \<Rightarrow> bool" where
  "worldsOk A A' cl \<longleftrightarrow> worldOk A cl \<and> worldOk A' cl \<and> at_session A' \<noteq> at_session A"

lemma world_again: "worldsOk A A' cl \<Longrightarrow> attemptLeaves {at_session A} b cl (cl1, b1, None) \<Longrightarrow> worldOk A' cl1"
  by (auto simp: worldsOk_def worldOk_def attemptLeaves_def)

lemma sync_leaves:
  assumes "handleRequestSync env base64 A A' h b cl = Some (cl', h')" "poolSound (cl_pool cl)" "worldsOk A A' cl" "ex_session b = None"
  shows "\<exists>cl1 b1 S. attemptLeaves S b cl (cl1, b1, None) \<and> cl' = storeBasket h b1 cl1 \<and> h' = h"
proof (cases "failed (rb_error b)")
  case True
  have "attemptLeaves {} b cl (cl, b, None)" using assms(2) by (simp add: attemptLeaves_def)
  then show ?thesis using assms(1) True by (auto simp: handleRequestSync_def)
next
  case False
  have w: "worldOk A cl" using assms(3) by (simp add: worldsOk_def)
  obtain cl1 b1 where o: "attemptOnce env base64 A b cl = Some (cl1, b1)" using assms(1) False by (auto simp: handleRequestSync_def split: option.splits)
  note l = attemptOnce_leaves [OF o assms(2) w assms(4)]
  show ?thesis
  proof (cases "isRetryableError (rb_error b1)")
    case False
    then show ?thesis using assms(1) o l \<open>\<not> failed (rb_error b)\<close> by (auto simp: handleRequestSync_def)
  next
    case True
    then obtain cl2 b2 cl3 b3 where r: "prepareRetry b1 cl1 = Some (cl2, b2)" "attemptOnce env base64 A' b2 cl2 = Some (cl3, b3)"
      "cl' = storeBasket h b3 cl3" "h' = h"
      using assms(1) o False by (auto simp: handleRequestSync_def bind_eq_Some_conv)
    note p = retry_leaves [OF r(1) l]
    note again = attemptOnce_leaves [OF r(2) attempt_pool(1) [OF p(1)] world_again [OF assms(3) p(1)] p(2)]
    show ?thesis using attempt_again [OF p(1) again] r(3,4) by blast
  qed
qed

lemma start_leaves:
  assumes "startRequest env base64 A A' b cl = Some (cl', b', r)" "poolSound (cl_pool cl)" "worldsOk A A' cl" "ex_session b = None"
  shows "\<exists>S. attemptLeaves S b cl (cl', b', r)"
proof -
  have w: "worldOk A cl" using assms(3) by (simp add: worldsOk_def)
  obtain cl1 b1 r1 where o: "executeRequest env base64 A False b cl = Some (cl1, b1, r1)" using assms(1) by (auto simp: startRequest_def split: option.splits)
  note l = executeRequest_leaves [OF o assms(2) w assms(4)]
  show ?thesis
  proof (cases "isRetryableError (rb_error b1)")
    case False
    then show ?thesis using assms(1) o l by (auto simp: startRequest_def)
  next
    case True
    obtain cl2 b2 where d: "(case r1 of None \<Rightarrow> Some (cl1, b1)
        | Some stream \<Rightarrow> map_option (\<lambda>(p, s). case dropStream stream s b1 of (s, b) \<Rightarrow> (putSession p s cl1, b)) (sessionOf cl1 b1)) = Some (cl2, b2)"
      using assms(1) o True by (auto simp: startRequest_def split: option.splits)
    have l2: "attemptLeaves {at_session A} b cl (cl2, b2, None)"
    proof (cases r1)
      case None
      then show ?thesis using d l by simp
    next
      case (Some q)
      then obtain p s where ses: "sessionOf cl1 b1 = Some (p, s)" using d by (auto split: option.splits)
      obtain s2 b3 where "dropStream q s b1 = (s2, b3)" by fastforce
      from attempt_drop [OF l [unfolded Some] ses this] this show ?thesis using d Some ses by simp
    qed
    obtain cl3 b3 where r: "prepareRetry b2 cl2 = Some (cl3, b3)" "executeRequest env base64 A' False b3 cl3 = Some (cl', b', r)"
      using assms(1) True unfolding startRequest_def o option.case prod.case if_not_P d by (auto simp: d bind_eq_Some_conv)
    note p = retry_leaves [OF r(1) l2]
    note again = executeRequest_leaves [OF r(2) attempt_pool(1) [OF p(1)] world_again [OF assms(3) p(1)] p(2)]
    show ?thesis using attempt_again [OF p(1) again] by blast
  qed
qed

end
