(* ===== verification/ClientInvariant.thy ===== *)
theory ClientInvariant
  imports ClientProps "HOL-Library.Multiset"
begin

text \<open>
  The invariant of the client: the entries of the request registry, the baskets in memory and the
  streams registered on sessions correspond, over every run of requests, polls and reader threads.
\<close>

section \<open>Claims\<close>

text \<open>An entry in use claims a basket, and a stream once its request has been sent.\<close>

definition claimOf :: "asyncEntry \<Rightarrow> nat option \<times> nat option" where
  "claimOf e = (ae_basket e, ae_stream e)"

definition claims :: "'z client \<Rightarrow> (nat option \<times> nat option) multiset" where
  "claims cl = image_mset claimOf (filter_mset ae_inUse (mset (cl_entries cl)))"

text \<open>
  Every claim is on a live non-blocking basket, and its stream is registered on the basket's
  session; every such basket is claimed once; no two claims share a stream.
\<close>

definition claimOk :: "'z client \<Rightarrow> nat option \<times> nat option \<Rightarrow> bool" where
  "claimOk cl c \<longleftrightarrow> (\<exists>h b. fst c = Some h \<and> cl_baskets cl h = Some b \<and> rb_nonBlocking b
     \<and> (\<forall>q. snd c = Some q \<longrightarrow> (\<exists>p. ex_session b = Some p \<and> (p, q) \<in> registrations (cl_pool cl))))"

definition claimSession :: "'z client \<Rightarrow> nat option \<times> nat option \<Rightarrow> nat option" where
  "claimSession cl c = Option.bind (fst c) (\<lambda>h. Option.bind (cl_baskets cl h) ex_session)"

definition sharesStream :: "'z client \<Rightarrow> nat option \<times> nat option \<Rightarrow> nat option \<times> nat option \<Rightarrow> bool" where
  "sharesStream cl c d \<longleftrightarrow> snd c \<noteq> None \<and> snd c = snd d \<and> claimSession cl c = claimSession cl d"

definition claimsOk :: "(nat option \<times> nat option) multiset \<Rightarrow> 'z client \<Rightarrow> bool" where
  "claimsOk M cl \<longleftrightarrow> (\<forall>c\<in>#M. claimOk cl c)
     \<and> (\<forall>h b. cl_baskets cl h = Some b \<and> rb_nonBlocking b \<longrightarrow> count (image_mset fst M) (Some h) = 1)
     \<and> (\<forall>c\<in>#M. \<forall>d\<in>#M. sharesStream cl c d \<longrightarrow> fst c = fst d)"

definition clientOk :: "'z client \<Rightarrow> bool" where
  "clientOk cl \<longleftrightarrow> poolSound (cl_pool cl) \<and> length (cl_entries cl) = MAX_ASYNC_REQUESTS \<and> 0 < cl_nextRequestId cl
     \<and> (\<forall>e\<in>set (cl_entries cl). ae_inUse e \<longrightarrow> ae_requestId e < cl_nextRequestId cl) \<and> claimsOk (claims cl) cl"

lemma init_ok: "clientOk (initClient :: 'z client)"
proof -
  have "poolSound (initSharedSessionPool :: 'z sessionPool)" using initPool_ok(1) by (simp add: poolSound_def initSharedSessionPool_def)
  moreover have "claims (initClient :: 'z client) = {#}" by (simp add: claims_def initClient_def flip: mset_filter)
  ultimately show ?thesis by (simp add: clientOk_def initClient_def claimsOk_def)
qed

text \<open>Claims as entries change.\<close>

lemma claims_update:
  assumes "i < length (cl_entries cl)"
  shows "claims (cl\<lparr>cl_entries := (cl_entries cl)[i := e]\<rparr>)
    = image_mset claimOf (filter_mset ae_inUse (add_mset e (mset (cl_entries cl) - {#cl_entries cl ! i#})))"
  by (simp add: claims_def mset_update assms)

lemma claims_enter:
  assumes "i < length (cl_entries cl)" "\<not> ae_inUse (cl_entries cl ! i)" "ae_inUse e"
  shows "claims (cl\<lparr>cl_entries := (cl_entries cl)[i := e]\<rparr>) = add_mset (claimOf e) (claims cl)"
  using assms by (simp add: claims_update) (simp add: claims_def)

lemma claims_leave:
  assumes "i < length (cl_entries cl)" "ae_inUse (cl_entries cl ! i)" "\<not> ae_inUse e"
  shows "claims cl = add_mset (claimOf (cl_entries cl ! i)) (claims (cl\<lparr>cl_entries := (cl_entries cl)[i := e]\<rparr>))"
proof -
  define rest where "rest = mset (cl_entries cl) - {#cl_entries cl ! i#}"
  have m: "mset (cl_entries cl) = add_mset (cl_entries cl ! i) rest" using assms(1) by (simp add: rest_def)
  show ?thesis using assms(2,3) unfolding claims_update [OF assms(1)] rest_def [symmetric] by (simp add: claims_def m)
qed

text \<open>A change of the pool that keeps the streams, of a claimed basket that keeps its session, and of blocking baskets.\<close>

lemma claimsOk_pool:
  assumes "claimsOk M cl" "registrations (cl_pool cl) \<subseteq> registrations pool"
  shows "claimsOk M (cl\<lparr>cl_pool := pool\<rparr>)"
proof -
  have "claimOk (cl\<lparr>cl_pool := pool\<rparr>) c" if "claimOk cl c" for c
    using that assms(2) by (fastforce simp: claimOk_def)
  moreover have "sharesStream (cl\<lparr>cl_pool := pool\<rparr>) c d \<longleftrightarrow> sharesStream cl c d" for c d
    by (simp add: sharesStream_def claimSession_def)
  ultimately show ?thesis using assms(1) by (simp add: claimsOk_def)
qed

lemma clientOk_pool:
  "clientOk cl \<Longrightarrow> poolSound pool \<Longrightarrow> registrations (cl_pool cl) \<subseteq> registrations pool \<Longrightarrow> clientOk (cl\<lparr>cl_pool := pool\<rparr>)"
  using claimsOk_pool [of "claims cl" cl pool] by (simp add: clientOk_def claims_def)

lemma clientOk_basket:
  assumes "clientOk cl" "cl_baskets cl h = Some b" "sameRequest b b'"
  shows "clientOk (storeBasket h b' cl)"
proof -
  have c: "claims (storeBasket h b' cl) = claims cl" by (simp add: claims_def storeBasket_def)
  have was: "\<exists>y. cl_baskets cl k = Some y \<and> rb_nonBlocking y = rb_nonBlocking x \<and> ex_session y = ex_session x"
    if "cl_baskets (storeBasket h b' cl) k = Some x" for k x
    using that assms(2,3) by (auto simp: storeBasket_def sameRequest_def split: if_splits)
  have ok: "claimOk (storeBasket h b' cl) c" if "claimOk cl c" for c
    using that assms(2,3) by (fastforce simp: claimOk_def storeBasket_def sameRequest_def)
  have share: "sharesStream (storeBasket h b' cl) c d \<longleftrightarrow> sharesStream cl c d" for c d
  proof -
    have "Option.bind (cl_baskets (storeBasket h b' cl) k) ex_session = Option.bind (cl_baskets cl k) ex_session" for k
      using assms(2,3) by (simp add: storeBasket_def sameRequest_def)
    then show ?thesis by (simp add: sharesStream_def claimSession_def)
  qed
  have "claimsOk (claims cl) (storeBasket h b' cl)"
    unfolding claimsOk_def
  proof (intro conjI allI impI ballI)
    fix k x assume "cl_baskets (storeBasket h b' cl) k = Some x \<and> rb_nonBlocking x"
    then have "\<exists>y. cl_baskets cl k = Some y \<and> rb_nonBlocking y" using was by blast
    then show "count (image_mset fst (claims cl)) (Some k) = 1" using assms(1) by (auto simp: clientOk_def claimsOk_def)
  qed (use assms(1) ok share in \<open>simp_all add: clientOk_def claimsOk_def\<close>)
  then show ?thesis using assms(1) c by (simp add: clientOk_def storeBasket_def)
qed

lemma claimed:
  assumes "claimsOk M cl" "(Some h, q) \<in># M"
  obtains b where "cl_baskets cl h = Some b" "rb_nonBlocking b"
  using assms by (force simp: claimsOk_def claimOk_def)

lemma clientOk_blocking:
  assumes "clientOk cl" "\<forall>b. cl_baskets cl h = Some b \<longrightarrow> \<not> rb_nonBlocking b" "\<forall>b. x = Some b \<longrightarrow> \<not> rb_nonBlocking b"
  shows "clientOk (cl\<lparr>cl_baskets := (cl_baskets cl)(h := x)\<rparr>)"
proof -
  let ?cl = "cl\<lparr>cl_baskets := (cl_baskets cl)(h := x)\<rparr>"
  have ok: "claimsOk (claims cl) cl" using assms(1) by (simp add: clientOk_def)
  have other: "fst c \<noteq> Some h" if "c \<in># claims cl" for c
    using that claimed [OF ok, of h "snd c"] assms(2) by (metis prod.collapse)
  have "claimOk ?cl c" if "c \<in># claims cl" for c using that other [OF that] ok by (fastforce simp: claimsOk_def claimOk_def)
  moreover have "claimSession ?cl c = claimSession cl c" if "c \<in># claims cl" for c
    using other [OF that] by (cases "fst c") (auto simp: claimSession_def)
  then have "sharesStream ?cl c d \<longleftrightarrow> sharesStream cl c d" if "c \<in># claims cl" "d \<in># claims cl" for c d
    using that by (simp add: sharesStream_def)
  ultimately have "claimsOk (claims cl) ?cl" using ok assms(3) unfolding claimsOk_def by (auto split: if_splits)
  then show ?thesis using assms(1) by (simp add: clientOk_def claims_def)
qed


section \<open>Claims made and released\<close>

lemma claim_session: "cl_baskets cl h = Some b \<Longrightarrow> claimSession cl (Some h, r) = ex_session b"
  by (simp add: claimSession_def)

lemma claimsOk_other:
  assumes "claimsOk M cl" "c \<in># M" "\<forall>b. cl_baskets cl h = Some b \<longrightarrow> \<not> rb_nonBlocking b"
  shows "fst c \<noteq> Some h"
  using claimed [OF assms(1), of h "snd c"] assms(2,3) by (metis prod.collapse)

lemma claims_stream:
  assumes "claimsOk M cl" "c \<in># M" "snd c = Some q"
  obtains p where "claimSession cl c = Some p" "(p, q) \<in> registrations (cl_pool cl)"
  using assms by (fastforce simp: claimsOk_def claimOk_def claimSession_def)

lemma share_eq:
  "claimSession cl' c = claimSession cl c \<Longrightarrow> claimSession cl' d = claimSession cl d \<Longrightarrow> sharesStream cl' c d \<longleftrightarrow> sharesStream cl c d"
  by (simp only: sharesStream_def)

text \<open>A new claim, on a basket nobody knew, with a stream that was not registered.\<close>

lemma claim_add:
  assumes ok: "claimsOk M cl" "cl_baskets cl h = None" "cl_baskets cl' = (cl_baskets cl)(h \<mapsto> b)" "rb_nonBlocking b"
    and r: "registrations (cl_pool cl) \<subseteq> registrations (cl_pool cl')"
      "\<forall>q. r = Some q \<longrightarrow> (\<exists>p. ex_session b = Some p \<and> (p, q) \<in> registrations (cl_pool cl') - registrations (cl_pool cl))"
  shows "claimsOk (add_mset (Some h, r) M) cl'"
proof -
  have other: "fst c \<noteq> Some h" if "c \<in># M" for c using claimsOk_other [OF ok(1) that] ok(2) by simp
  have old: "claimOk cl' c" "claimSession cl' c = claimSession cl c" if m: "c \<in># M" for c
  proof -
    obtain k x where k: "fst c = Some k" "k \<noteq> h" "cl_baskets cl k = Some x" "rb_nonBlocking x"
        "\<forall>q. snd c = Some q \<longrightarrow> (\<exists>p. ex_session x = Some p \<and> (p, q) \<in> registrations (cl_pool cl))"
      using ok(1) m other [OF m] unfolding claimsOk_def claimOk_def by fastforce
    then show "claimOk cl' c" "claimSession cl' c = claimSession cl c" using r(1) by (auto simp: claimOk_def claimSession_def ok(3))
  qed
  have new: "claimOk cl' (Some h, r)" "claimSession cl' (Some h, r) = ex_session b" using r(2) ok(4) by (auto simp: claimOk_def claimSession_def ok(3))
  have apart: "\<not> sharesStream cl' (Some h, r) c \<and> \<not> sharesStream cl' c (Some h, r)" if m: "c \<in># M" for c
  proof (rule ccontr)
    assume "\<not> ?thesis"
    then have s: "snd c = r" "r \<noteq> None" "claimSession cl c = ex_session b" using new(2) old(2) [OF m] by (auto simp: sharesStream_def)
    then obtain q where q: "r = Some q" by blast
    obtain p where p: "claimSession cl c = Some p" "(p, q) \<in> registrations (cl_pool cl)"
      by (rule claims_stream [OF ok(1) m s(1) [unfolded q]])
    obtain p' where "ex_session b = Some p'" "(p', q) \<notin> registrations (cl_pool cl)" using r(2) q by blast
    then show False using p s(3) by simp
  qed
  show ?thesis unfolding claimsOk_def
  proof (intro conjI allI impI ballI)
    fix k x assume "cl_baskets cl' k = Some x \<and> rb_nonBlocking x"
    then show "count (image_mset fst (add_mset (Some h, r) M)) (Some k) = 1"
    proof (cases "k = h")
      case True
      have "Some h \<notin># image_mset fst M" using other by force
      then have "count (image_mset fst M) (Some h) = 0" unfolding not_in_iff .
      then show ?thesis using True by simp
    next
      case False
      then show ?thesis using ok(1,3) \<open>cl_baskets cl' k = Some x \<and> rb_nonBlocking x\<close> by (simp add: claimsOk_def)
    qed
  next
    fix c d assume m: "c \<in># add_mset (Some h, r) M" "d \<in># add_mset (Some h, r) M" "sharesStream cl' c d"
    show "fst c = fst d"
    proof (cases "c \<in># M \<and> d \<in># M")
      case True
      then have "sharesStream cl c d" using share_eq [OF old(2) [of c] old(2) [of d]] m(3) by simp
      then show ?thesis using True ok(1) unfolding claimsOk_def by simp
    next
      case False
      then show ?thesis using m apart [of c] apart [of d] by auto
    qed
  qed (use old(1) new(1) in auto)
qed

text \<open>A claim given up, its basket freed and its stream removed.\<close>

lemma claim_remove:
  assumes ok: "claimsOk (add_mset (Some h, r) M) cl" "cl_baskets cl h = Some b" "cl_baskets cl' = (cl_baskets cl)(h := None)"
    and r: "registrations (cl_pool cl') = registrations (cl_pool cl) - {(p, q). r = Some q \<and> ex_session b = Some p}"
  shows "claimsOk M cl'"
proof -
  have nb: "rb_nonBlocking b" using ok(1,2) by (simp add: claimsOk_def claimOk_def)
  then have "count (image_mset fst (add_mset (Some h, r) M)) (Some h) = 1" using ok(1,2) unfolding claimsOk_def by blast
  then have "count (image_mset fst M) (Some h) = 0" by simp
  then have "Some h \<notin># image_mset fst M" unfolding not_in_iff .
  then have other: "fst c \<noteq> Some h" if "c \<in># M" for c using that by force
  have old: "claimOk cl' c" "claimSession cl' c = claimSession cl c" if m: "c \<in># M" for c
  proof -
    obtain k x where k: "fst c = Some k" "k \<noteq> h" "cl_baskets cl k = Some x" "rb_nonBlocking x"
        "\<forall>q. snd c = Some q \<longrightarrow> (\<exists>p. ex_session x = Some p \<and> (p, q) \<in> registrations (cl_pool cl))"
      using ok(1) m other [OF m] unfolding claimsOk_def claimOk_def by fastforce
    have "sharesStream cl (Some h, r) c \<Longrightarrow> fst (Some h, r) = fst c" using ok(1) m unfolding claimsOk_def by simp
    then have "\<not> sharesStream cl (Some h, r) c" using other [OF m] by auto
    then have "\<not> (r \<noteq> None \<and> r = snd c \<and> ex_session b = ex_session x)"
      using k(1,3) by (simp add: sharesStream_def claimSession_def ok(2))
    then show "claimOk cl' c" "claimSession cl' c = claimSession cl c" using k r by (auto simp: claimOk_def claimSession_def ok(3))
  qed
  show ?thesis unfolding claimsOk_def
  proof (intro conjI allI impI ballI)
    fix k x assume "cl_baskets cl' k = Some x \<and> rb_nonBlocking x"
    then have k: "k \<noteq> h" "cl_baskets cl k = Some x \<and> rb_nonBlocking x" using ok(3) by (auto split: if_splits)
    then have "count (image_mset fst (add_mset (Some h, r) M)) (Some k) = 1" using ok(1) unfolding claimsOk_def by blast
    then show "count (image_mset fst M) (Some k) = 1" using k(1) by simp
  next
    fix c d assume m: "c \<in># M" "d \<in># M" "sharesStream cl' c d"
    then have "sharesStream cl c d" using share_eq [OF old(2) [OF m(1)] old(2) [OF m(2)]] by simp
    then show "fst c = fst d" using m(1,2) ok(1) unfolding claimsOk_def by simp
  qed (use old(1) in auto)
qed


section \<open>Starting a request\<close>

lemma alloc_cases:
  assumes "clientOk cl0" "cl_entries cl = cl_entries cl0" "cl_nextRequestId cl = cl_nextRequestId cl0" "asyncAllocEntry now cl = (cl', r)"
  shows "r = None \<and> cl' = cl \<or> (\<exists>i e. r = Some i \<and> i < MAX_ASYNC_REQUESTS \<and> \<not> ae_inUse (cl_entries cl ! i)
     \<and> ae_inUse e \<and> ae_requestId e = cl_nextRequestId cl
     \<and> cl' = cl\<lparr>cl_entries := (cl_entries cl)[i := e], cl_nextRequestId := cl_nextRequestId cl + 1\<rparr>)"
proof (cases "findIndex (\<lambda>e. \<not> ae_inUse e) (cl_entries cl)")
  case None
  then show ?thesis using assms(4) by (simp add: asyncAllocEntry_def asyncAllocSlot_def)
next
  case (Some i)
  have i: "i < length (cl_entries cl)" "\<not> ae_inUse (cl_entries cl ! i)" using findIndex_SomeD [OF Some] by simp_all
  define e where "e = \<lparr>ae_requestId = cl_nextRequestId cl, ae_inUse = True, ae_basket = None, ae_stream = None, ae_startTime = now\<rparr>"
  define cl1 where "cl1 = cl\<lparr>cl_entries := (cl_entries cl)[i := e], cl_nextRequestId := cl_nextRequestId cl + 1\<rparr>"
  have e: "ae_inUse e" "ae_requestId e = cl_nextRequestId cl" by (simp_all add: e_def)
  have "\<not> (ae_inUse ((cl_entries cl)[i := e] ! j) \<and> ae_requestId ((cl_entries cl)[i := e] ! j) = cl_nextRequestId cl)" if "j < i" for j
    using that i(1) assms(1-3) nth_mem [of j "cl_entries cl"] by (fastforce simp: clientOk_def)
  then have "asyncFindSlot (cl_nextRequestId cl) cl1 = Some i"
    using i(1) e unfolding asyncFindSlot_def findIndex_iff by (simp add: cl1_def)
  moreover have "asyncAllocSlot now cl = (cl1, cl_nextRequestId cl)" using Some by (simp add: asyncAllocSlot_def cl1_def e_def)
  moreover have "cl_nextRequestId cl \<noteq> 0" using assms(1,3) by (simp add: clientOk_def)
  ultimately have "cl' = cl1" "r = Some i" using assms(4) by (simp_all add: asyncAllocEntry_def)
  then show ?thesis using i e assms(1,2) by (auto simp: cl1_def clientOk_def)
qed

lemma requestAsync_ok:
  fixes cl :: "'z client"
  assumes ok: "clientOk cl" "cl_baskets cl h = None" "worldsOk A A' cl" "rb_nonBlocking b" "ex_session b = None"
    and run: "handleRequestAsync env base64 A A' h b (storeBasket h b cl) = Some (cl', r)"
  shows "clientOk cl'"
proof -
  obtain cl1 slot where al: "asyncAllocEntry (ev_now env) (storeBasket h b cl) = (cl1, slot)" by fastforce
  have same: "cl_entries (storeBasket h b cl) = cl_entries cl" "cl_nextRequestId (storeBasket h b cl) = cl_nextRequestId cl"
    by (simp_all add: storeBasket_def)
  from alloc_cases [OF ok(1) same al] show ?thesis
  proof (elim disjE conjE exE)
    assume "slot = None" "cl1 = storeBasket h b cl"
    then have "cl' = cl" using run al ok(2) by (cases cl) (auto simp: handleRequestAsync_def freeBasket_def storeBasket_def fun_upd_idem_iff)
    then show ?thesis using ok(1) by simp
  next
    fix i e assume a: "slot = Some i" "i < MAX_ASYNC_REQUESTS" "\<not> ae_inUse (cl_entries (storeBasket h b cl) ! i)" "ae_inUse e"
      "ae_requestId e = cl_nextRequestId (storeBasket h b cl)"
      "cl1 = (storeBasket h b cl)\<lparr>cl_entries := (cl_entries (storeBasket h b cl))[i := e], cl_nextRequestId := cl_nextRequestId (storeBasket h b cl) + 1\<rparr>"
    define b0 where "b0 = b\<lparr>ex_requestId := ae_requestId (cl_entries cl1 ! i)\<rparr>"
    obtain cl2 b2 r2 where s: "(if failed (rb_error b0) then Some (cl1, b0, None) else startRequest env base64 A A' b0 cl1) = Some (cl2, b2, r2)"
      "cl' = asyncPublish (ev_now env) i h (if failed (rb_error b2) then None else r2) (storeBasket h b2 cl2)"
      using run unfolding handleRequestAsync_def al a(1) Let_def prod.case option.case b0_def [symmetric]
      by (cases "if failed (rb_error b0) then Some (cl1, b0, None) else startRequest env base64 A A' b0 cl1") auto
    have pool1: "cl_pool cl1 = cl_pool cl" by (simp add: a(6) storeBasket_def)
    have w: "worldsOk A A' cl1" using ok(3) pool1 by (simp add: worldsOk_def worldOk_def)
    have sound: "poolSound (cl_pool cl1)" using ok(1) pool1 by (simp add: clientOk_def)
    have b0: "ex_session b0 = None" "rb_nonBlocking b0" using ok(4,5) by (simp_all add: b0_def)
    obtain S where l: "attemptLeaves S b0 cl1 (cl2, b2, r2)"
    proof (cases "failed (rb_error b0)")
      case True
      then have "attemptLeaves {} b0 cl1 (cl2, b2, r2)" using s(1) sound by (auto simp: attemptLeaves_def)
      then show ?thesis using that by blast
    next
      case False
      then have "startRequest env base64 A A' b0 cl1 = Some (cl2, b2, r2)" using s(1) by simp
      from start_leaves [OF this sound w b0(1)] that show ?thesis by blast
    qed
    define r3 where "r3 = (if failed (rb_error b2) then None else r2)"
    define e2 where "e2 = (cl_entries cl2 ! i)\<lparr>ae_basket := Some h, ae_stream := r3, ae_startTime := ev_now env\<rparr>"
    have cl2: "cl_entries cl2 = (cl_entries cl)[i := e]" "cl_nextRequestId cl2 = cl_nextRequestId cl + 1" "cl_baskets cl2 = (cl_baskets cl)(h \<mapsto> b)"
      using attempt_pool(2) [OF l] a(6) by (cases cl2, simp add: storeBasket_def)+
    have len: "i < length (cl_entries cl)" using ok(1) a(2) by (simp add: clientOk_def)
    have e2: "ae_inUse e2" "ae_requestId e2 = cl_nextRequestId cl" "claimOf e2 = (Some h, r3)"
      using a(4,5) len by (simp_all add: e2_def cl2 claimOf_def storeBasket_def)
    have cl': "cl_entries cl' = (cl_entries cl)[i := e2]" "cl_nextRequestId cl' = cl_nextRequestId cl + 1"
      "cl_baskets cl' = (cl_baskets cl)(h \<mapsto> b2)" "cl_pool cl' = cl_pool cl2"
      using s(2) by (simp_all add: asyncPublish_def storeBasket_def cl2 e2_def r3_def)
    have "claims cl' = claims (cl\<lparr>cl_entries := (cl_entries cl)[i := e2]\<rparr>)" by (simp add: claims_def cl')
    also have "\<dots> = add_mset (Some h, r3) (claims cl)" using claims_enter [OF len _ e2(1)] a(3) same e2(3) by simp
    finally have c: "claims cl' = add_mset (Some h, r3) (claims cl)" .
    have reg: "registrations (cl_pool cl) \<subseteq> registrations (cl_pool cl')"
      "\<forall>q. r3 = Some q \<longrightarrow> (\<exists>p. ex_session b2 = Some p \<and> (p, q) \<in> registrations (cl_pool cl') - registrations (cl_pool cl))"
      using l by (auto simp: attemptLeaves_def cl'(4) pool1 r3_def split: option.splits if_splits)
    have "claimsOk (add_mset (Some h, r3) (claims cl)) cl'"
      using claim_add [OF _ ok(2) cl'(3) _ reg] ok(1) attempt_pool(3) [OF l] b0(2) by (simp add: clientOk_def)
    moreover have "\<forall>x\<in>set (cl_entries cl'). ae_inUse x \<longrightarrow> ae_requestId x < cl_nextRequestId cl'"
      using ok(1) e2(2) set_update_subset_insert [of "cl_entries cl" i e2] by (fastforce simp: clientOk_def cl')
    ultimately show ?thesis using ok(1) attempt_pool(1) [OF l] by (simp add: clientOk_def c cl')
  qed
qed


text \<open>The basket \<open>handleRequest\<close> runs with.\<close>

lemma request_runs:
  fixes cl :: "'z client"
  assumes run: "handleRequest env base64 A A' sinkOk h (Some built') stream cl = Some (cl', r)"
  obtains b where "ex_session b = None"
    "(if rb_nonBlocking b then handleRequestAsync env base64 A A' h b (storeBasket h b cl)
      else map_option (\<lambda>(cl, h). (cl, Some h)) (handleRequestSync env base64 A A' h b (storeBasket h b cl))) = Some (cl', r)"
proof -
  obtain c b0 where a: "acceptContract stream (newExchange built' :: 'z exchange) = (c, b0)" by fastforce
  have b0: "ex_session b0 = None"
    using a by (auto simp: acceptContract_def newExchange_def requestBasket.defs split: option.splits if_splits)
  define b where "b = (if sinkOk then b0\<lparr>ex_sink := Some (buildResponseSink (word_of_int (rb_decompress b0)) c)\<rparr>
               else b0\<lparr>rb_error := ERR_SYSTEM_MEMORY_ALLOCATION_FAILED\<rparr>)"
  have b: "ex_session b = None" using b0 by (simp add: b_def)
  have run: "(if rb_nonBlocking b then handleRequestAsync env base64 A A' h b (storeBasket h b cl)
     else map_option (\<lambda>(cl, h). (cl, Some h)) (handleRequestSync env base64 A A' h b (storeBasket h b cl))) = Some (cl', r)"
    using run unfolding handleRequest_def option.case a Let_def prod.case b_def .
  show ?thesis by (rule that [OF b run])
qed

lemma request_ok:
  assumes "clientOk cl" "cl_baskets cl h = None" "worldsOk A A' cl"
    and run: "handleRequest env base64 A A' sinkOk h built stream cl = Some (cl', r)"
  shows "clientOk cl'"
proof (cases built)
  case None
  then show ?thesis using run assms(1) by (simp add: handleRequest_def)
next
  case (Some built')
  from request_runs [OF run [unfolded Some]] obtain b where b: "ex_session b = None" and run:
    "(if rb_nonBlocking b then handleRequestAsync env base64 A A' h b (storeBasket h b cl)
      else map_option (\<lambda>(cl, h). (cl, Some h)) (handleRequestSync env base64 A A' h b (storeBasket h b cl))) = Some (cl', r)" .
  show ?thesis
  proof (cases "rb_nonBlocking b")
    case True
    then show ?thesis using run requestAsync_ok [OF assms(1-3) True b] by simp
  next
    case False
    then obtain h' where s: "handleRequestSync env base64 A A' h b (storeBasket h b cl) = Some (cl', h')" using run by auto
    have same: "cl_pool (storeBasket h b cl) = cl_pool cl" "cl_baskets (storeBasket h b cl) = (cl_baskets cl)(h \<mapsto> b)" by (simp_all add: storeBasket_def)
    have "poolSound (cl_pool (storeBasket h b cl))" "worldsOk A A' (storeBasket h b cl)"
      using assms(1,3) same by (simp_all add: clientOk_def worldsOk_def worldOk_def)
    from sync_leaves [OF s this b] obtain cl1 b1 S where
      l: "attemptLeaves S b (storeBasket h b cl) (cl1, b1, None)" "cl' = storeBasket h b1 cl1" by blast
    have "cl' = (cl\<lparr>cl_pool := cl_pool cl1\<rparr>)\<lparr>cl_baskets := (cl_baskets cl)(h := Some b1)\<rparr>"
      using attempt_pool(2) [OF l(1)] by (cases cl1) (simp add: l(2) storeBasket_def)
    moreover have "clientOk (cl\<lparr>cl_pool := cl_pool cl1\<rparr>)"
      using clientOk_pool [OF assms(1) attempt_pool(1) [OF l(1)]] l(1) same by (simp add: attemptLeaves_def)
    ultimately show ?thesis
      using clientOk_blocking [of "cl\<lparr>cl_pool := cl_pool cl1\<rparr>" h "Some b1"] assms(2) attempt_pool(3) [OF l(1)] False by simp
  qed
qed

section \<open>Collecting a response\<close>

lemma sameRequest_serialized: "sameRequest b (b\<lparr>ex_serializedResult := x\<rparr>)"
  by (simp add: sameRequest_def)

lemma copyBasket_same: "copyBasketResult J session capacity b = Some (b', code, len, dest) \<Longrightarrow> sameRequest b b'"
  by (auto simp: copyBasketResult_def basketToString_def proxyChecked_def sameRequest_def Let_def split: option.splits if_splits prod.splits)

lemma copyResult_store:
  assumes "copyResult C capacity h b cl = Some (cl', code, len, dest)"
  obtains b' where "cl' = storeBasket h b' cl" "sameRequest b b'"
  using assms copyBasket_same unfolding copyResult_def by (fastforce split: option.splits)

lemma storeBasket_twice: "storeBasket h b (storeBasket h b' cl) = storeBasket h b cl"
  by (simp add: storeBasket_def)

lemma copyResult_ok:
  assumes "clientOk cl" "cl_baskets cl h = Some b0" "sameRequest b0 b" "copyResult C capacity h b cl = Some (cl', code, len, dest)"
  shows "clientOk cl'" "\<exists>b'. cl_baskets cl' h = Some b' \<and> sameRequest b0 b'"
proof -
  obtain b' where b': "cl' = storeBasket h b' cl" "sameRequest b b'" using assms(4) by (rule copyResult_store)
  have same: "sameRequest b0 b'" using assms(3) b'(2) by (rule sameRequest_trans)
  show "clientOk cl'" using clientOk_basket [OF assms(1,2) same] b'(1) by simp
  show "\<exists>b'. cl_baskets cl' h = Some b' \<and> sameRequest b0 b'" using same b'(1) by (simp add: storeBasket_def)
qed

text \<open>Writing a stream back keeps every session's streams.\<close>

lemma putStream_ok:
  assumes "clientOk cl" "streamOf cl b q = Some st0"
  shows "clientOk (putStream b q st cl)" "cl_baskets (putStream b q st cl) = cl_baskets cl"
proof -
  obtain p s where ses: "sessionOf cl b = Some (p, s)" "cn_store (ss_conn s) q = Some st0"
    using assms(2) by (auto simp: streamOf_def split: option.splits)
  then have st: "sp_store (cl_pool cl) p = Some s" by (auto simp: sessionOf_def split: option.splits)
  let ?s = "s\<lparr>ss_conn := (ss_conn s)\<lparr>cn_store := (cn_store (ss_conn s))(q \<mapsto> st)\<rparr>\<rparr>"
  have k: "sessionKeeps s ?s" using connKeeps_stream(2) [of "ss_conn s" q st] ses(2) by (simp add: sessionKeeps_def)
  have eq: "putStream b q st cl = putSession p ?s cl" using ses(1) by (simp add: putStream_def onConn_def putSession_def)
  have sound: "poolSound (cl_pool cl)" using assms(1) by (simp add: clientOk_def)
  have "clientOk (cl\<lparr>cl_pool := cl_pool (putSession p ?s cl)\<rparr>)"
    using clientOk_pool [OF assms(1) putSession_keeps(1) [OF sound st k]] putSession_keeps(2) [OF sound st k] by simp
  then show "clientOk (putStream b q st cl)" using putSession_client [of cl cl p ?s] by (simp add: eq)
  show "cl_baskets (putStream b q st cl) = cl_baskets cl" by (simp add: eq putSession_def)
qed

text \<open>The claim at the end.\<close>

lemma release_reg:
  assumes "poolSound (cl_pool cl)" "releaseStream b q cl = Some cl'" "ex_session b = Some p" "(p, q) \<in> registrations (cl_pool cl)"
  shows "poolSound (cl_pool cl')" "registrations (cl_pool cl') = registrations (cl_pool cl) - {(p, q)}" "cl' = cl\<lparr>cl_pool := cl_pool cl'\<rparr>"
proof -
  obtain s where s: "sp_store (cl_pool cl) p = Some s" "cl' = onConn p s (unregisterStream q) cl"
    using assms(2,3) by (auto simp: releaseStream_def sessionOf_def split: option.splits)
  have q: "q \<in> registered (ss_conn s)" using assms(4) registrations_at [OF s(1)] by simp
  have k: "sessionKeeps s s" by (simp add: sessionKeeps_def)
  have eq: "cl' = putSession p (fst (dropStream q s b)) cl" by (simp add: s(2) onConn_def putSession_def dropStream_def)
  show "poolSound (cl_pool cl')" "registrations (cl_pool cl') = registrations (cl_pool cl) - {(p, q)}"
    using putSession_drop(1,2) [OF assms(1) s(1) k q, of b] by (simp_all add: eq)
  show "cl' = cl\<lparr>cl_pool := cl_pool cl'\<rparr>" by (simp add: s(2) onConn_def)
qed


lemma detach_claim:
  assumes "i < length (cl_entries cl)" "ae_inUse (cl_entries cl ! i)" "asyncDetachSlot i cl = (cl1, basket, stream)"
  shows "claims cl = add_mset (basket, stream) (claims cl1)" "cl_pool cl1 = cl_pool cl" "cl_baskets cl1 = cl_baskets cl"
    "cl_nextRequestId cl1 = cl_nextRequestId cl" "length (cl_entries cl1) = length (cl_entries cl)"
    "cl_entries cl1 = (cl_entries cl)[i := (cl_entries cl ! i)\<lparr>ae_basket := None, ae_stream := None, ae_inUse := False\<rparr>]"
  using claims_leave [OF assms(1,2), of "(cl_entries cl ! i)\<lparr>ae_basket := None, ae_stream := None, ae_inUse := False\<rparr>"] assms(3)
  by (auto simp: asyncDetachSlot_def Let_def claimOf_def)

lemma claimsOk_same: "cl_pool cl' = cl_pool cl \<Longrightarrow> cl_baskets cl' = cl_baskets cl \<Longrightarrow> claimsOk M cl' \<longleftrightarrow> claimsOk M cl"
  by (simp add: claimsOk_def claimOk_def sharesStream_def claimSession_def)

text \<open>Removing the stream of a detached entry and freeing its basket.\<close>

lemma release_claim:
  assumes "claimsOk (add_mset c M) cl" "poolSound (cl_pool cl)" "releaseClaim c cl = Some cl'"
  shows "claimsOk M cl'" "poolSound (cl_pool cl')" "cl_entries cl' = cl_entries cl" "cl_nextRequestId cl' = cl_nextRequestId cl"
proof -
  obtain h r where c: "c = (Some h, r)" using assms(1) by (cases c) (auto simp: claimsOk_def claimOk_def)
  obtain b where b: "cl_baskets cl h = Some b" using assms(3) c by (auto simp: releaseClaim_def split: option.splits)
  have "claimsOk M cl' \<and> poolSound (cl_pool cl') \<and> cl_entries cl' = cl_entries cl \<and> cl_nextRequestId cl' = cl_nextRequestId cl"
  proof (cases r)
    case None
    then have cl': "cl' = freeBasket h cl" using assms(3) b c by (simp add: releaseClaim_def)
    then show ?thesis using claim_remove [OF assms(1) [unfolded c] b] assms(2) None by (simp add: freeBasket_def)
  next
    case (Some q)
    obtain p where p: "ex_session b = Some p" "(p, q) \<in> registrations (cl_pool cl)"
      using assms(1) b Some c by (auto simp: claimsOk_def claimOk_def)
    obtain cl1 where cl1: "releaseStream b q cl = Some cl1" "cl' = freeBasket h cl1" using assms(3) b Some c by (auto simp: releaseClaim_def)
    note r = release_reg [OF assms(2) cl1(1) p]
    have bs: "cl_baskets cl1 = cl_baskets cl" "cl_entries cl1 = cl_entries cl" "cl_nextRequestId cl1 = cl_nextRequestId cl"
      using r(3) by (cases cl1, simp)+
    have "registrations (cl_pool cl') = registrations (cl_pool cl) - {(p', q'). r = Some q' \<and> ex_session b = Some p'}"
      using r(2) p(1) Some by (auto simp: cl1(2) freeBasket_def)
    then show ?thesis using claim_remove [OF assms(1) [unfolded c] b] r(1) bs by (simp add: cl1(2) freeBasket_def)
  qed
  then show "claimsOk M cl'" "poolSound (cl_pool cl')" "cl_entries cl' = cl_entries cl" "cl_nextRequestId cl' = cl_nextRequestId cl" by simp_all
qed

text \<open>Claiming a finished request is detaching its entry and releasing the claim.\<close>

lemma claimResult_cases:
  assumes "clientOk cl" "claimResult h cl = Some cl'"
  shows "cl' = cl \<and> asyncFindSlotByBasket h cl = None
    \<or> (\<exists>i cl1 r. asyncFindSlotByBasket h cl = Some i \<and> asyncDetachSlot i cl = (cl1, Some h, r) \<and> releaseClaim (Some h, r) cl1 = Some cl')"
proof (cases "asyncFindSlotByBasket h cl")
  case None
  then show ?thesis using assms(2) by (simp add: claimResult_def)
next
  case (Some i)
  have "ae_basket (cl_entries cl ! i) = Some h" using findIndex_SomeD [OF Some [unfolded asyncFindSlotByBasket_def]] by simp
  then obtain cl1 r where d: "asyncDetachSlot i cl = (cl1, Some h, r)" by (simp add: asyncDetachSlot_def Let_def)
  then show ?thesis using assms(2) Some by (simp add: claimResult_def releaseClaim_def)
qed

lemma claimResult_ok:
  assumes "clientOk cl" "claimResult h cl = Some cl'"
  shows "clientOk cl'"
  using claimResult_cases [OF assms]
proof (elim disjE exE conjE)
  fix i cl1 r assume a: "asyncFindSlotByBasket h cl = Some i" "asyncDetachSlot i cl = (cl1, Some h, r)" "releaseClaim (Some h, r) cl1 = Some cl'"
  have i: "i < length (cl_entries cl)" "ae_inUse (cl_entries cl ! i)"
    using findIndex_SomeD [OF a(1) [unfolded asyncFindSlotByBasket_def]] by simp_all
  note d = detach_claim [OF i a(2)]
  have "claimsOk (add_mset (Some h, r) (claims cl1)) cl1" using assms(1) d(1) claimsOk_same [OF d(2,3)] by (simp add: clientOk_def)
  from release_claim [OF this _ a(3)] assms(1) d(2)
  have r: "claimsOk (claims cl1) cl'" "poolSound (cl_pool cl')" "cl_entries cl' = cl_entries cl1" "cl_nextRequestId cl' = cl_nextRequestId cl1"
    by (simp_all add: clientOk_def)
  have "claims cl' = claims cl1" using r(3) by (simp add: claims_def)
  moreover have "\<forall>e\<in>set (cl_entries cl'). ae_inUse e \<longrightarrow> ae_requestId e < cl_nextRequestId cl'"
    using assms(1) d(4,6) r(3,4) set_update_subset_insert [of "cl_entries cl" i] by (fastforce simp: clientOk_def)
  ultimately show ?thesis using assms(1) r d(4,5) by (simp add: clientOk_def)
qed (simp add: assms(1))

lemma pollOutcome_same: "pollOutcome now b stream startTime = (done', timedOut, b') \<Longrightarrow> sameRequest b b'"
  by (auto simp: pollOutcome_def sameRequest_def Let_def split: option.splits if_splits)

lemma collect_ok:
  assumes "clientOk cl" "cl_baskets cl h = Some b0" "sameRequest b0 b"
    and "\<forall>q st. stream = Some (q, st) \<longrightarrow> streamOf cl b q = Some st"
    and run: "collectFinished env C capacity h stream timedOut b cl = Some (cl', code, len, dest)"
  shows "clientOk cl'"
proof -
  obtain b1 cl1 where s: "(case stream of None \<Rightarrow> Some (b, cl)
            | Some (p, st) \<Rightarrow>
                if failed (rb_error b) then Some (b, cl)
                else map_option (\<lambda>(b', st). (b', putStream b p st cl)) (finalizeStreamIntoBasket (ev_alloc env) (ev_lib env) (ce_base64 C) b st)) = Some (b1, cl1)"
    using run by (auto simp: collectFinished_def split: option.splits)
  have one: "clientOk cl1 \<and> cl_baskets cl1 = cl_baskets cl \<and> sameRequest b b1"
  proof (cases "stream = None \<or> failed (rb_error b)")
    case True
    then show ?thesis using s assms(1) by (auto split: option.splits prod.splits)
  next
    case False
    then obtain q st st' where f: "stream = Some (q, st)" "finalizeStreamIntoBasket (ev_alloc env) (ev_lib env) (ce_base64 C) b st = Some (b1, st')"
      "cl1 = putStream b q st' cl" using s by (auto split: option.splits prod.splits)
    have "streamOf cl b q = Some st" using assms(4) f(1) by simp
    from putStream_ok [OF assms(1) this, of st'] finalize_same [OF f(2)] show ?thesis by (simp add: f(3))
  qed
  obtain cl2 code2 where c: "copyResult C capacity h b1 cl1 = Some (cl2, code2, len, dest)" "(if code2 = 1 then claimResult h cl2 else Some cl2) = Some cl'"
    using run s by (auto simp: collectFinished_def split: option.splits)
  have b1: "sameRequest b0 b1" using assms(3) one sameRequest_trans by blast
  have "clientOk cl2" using copyResult_ok(1) [of cl1 h b0 b1] one assms(2) b1 c(1) by simp
  then show ?thesis using c(2) claimResult_ok by (auto split: if_splits)
qed

lemma response_ok:
  assumes "clientOk cl" "handleResponse env C handle dest capacity cl = Some (cl', code, len, out)"
  shows "clientOk cl'"
proof (cases "handle = None \<or> \<not> dest \<or> capacity \<le> 0")
  case True
  then show ?thesis using assms by (auto simp: handleResponse_def split: option.splits)
next
  case False
  then obtain h b where h: "handle = Some h" "cl_baskets cl h = Some b" using assms(2) by (auto simp: handleResponse_def split: option.splits)
  show ?thesis
  proof (cases "rb_nonBlocking b")
    case f: False
    then obtain cl1 code1 where c: "copyResult C capacity h b cl = Some (cl1, code1, len, out)" "cl' = (if code1 = 1 then freeBasket h cl1 else cl1)"
      using assms(2) h False by (auto simp: handleResponse_def handleResponseSync_def)
    obtain b1 where b1: "cl1 = storeBasket h b1 cl" "sameRequest b b1" using c(1) by (rule copyResult_store)
    have "\<forall>x. cl_baskets cl h = Some x \<longrightarrow> \<not> rb_nonBlocking x" using f h(2) by simp
    from clientOk_blocking [OF assms(1) this, of "Some b1"] clientOk_blocking [OF assms(1) this, of None] b1(2) f
    show ?thesis by (auto simp: c(2) b1(1) storeBasket_def freeBasket_def sameRequest_def)
  next
    case True
    then have run: "handleResponseAsync env C capacity h b cl = Some (cl', code, len, out)" using assms(2) h False by (simp add: handleResponse_def)
    show ?thesis
    proof (cases "asyncFindSlotByBasket h cl")
      case None
      then show ?thesis using run assms(1) by (simp add: handleResponseAsync_def)
    next
      case (Some i)
      define e where "e = cl_entries cl ! i"
      obtain stream where st: "(case ae_stream e of None \<Rightarrow> Some None | Some p \<Rightarrow> map_option (\<lambda>st. Some (p, st)) (streamOf cl b p)) = Some stream"
        using run Some by (auto simp: handleResponseAsync_def Let_def e_def split: option.splits)
      obtain done' timedOut b' where p: "pollOutcome (ev_now env) b (map_option snd stream) (ae_startTime e) = (done', timedOut, b')" by (metis prod_cases3)
      have run': "(if \<not> done' then Some (cl, 0, 0, None) else collectFinished env C capacity h stream timedOut b' (storeBasket h b' cl)) = Some (cl', code, len, out)"
        using run unfolding handleResponseAsync_def Some option.case Let_def e_def [symmetric] st p prod.case .
      have same: "sameRequest b b'" using p by (rule pollOutcome_same)
      show ?thesis
      proof (cases done')
        case True
        have ok: "clientOk (storeBasket h b' cl)" "cl_baskets (storeBasket h b' cl) h = Some b'"
          using clientOk_basket [OF assms(1) h(2) same] by (simp_all add: storeBasket_def)
        have "\<forall>q s. stream = Some (q, s) \<longrightarrow> streamOf (storeBasket h b' cl) b' q = Some s"
          using st same by (auto simp: streamOf_def sessionOf_def storeBasket_def sameRequest_def split: option.splits)
        from collect_ok [OF ok _ this] run' True show ?thesis by simp
      qed (use run' assms(1) in simp)
    qed
  qed
qed


section \<open>Shutdown\<close>

lemma detachAll_fold:
  assumes "n \<le> length (cl_entries cl)" "fold detachAll [0..<n] (cl, []) = (cl', ds)"
  shows "claims cl = mset ds + claims cl'" "cl_pool cl' = cl_pool cl" "cl_baskets cl' = cl_baskets cl" "cl_nextRequestId cl' = cl_nextRequestId cl"
    "length (cl_entries cl') = length (cl_entries cl)" "\<forall>i<n. \<not> ae_inUse (cl_entries cl' ! i)"
proof -
  have "claims cl = mset ds + claims cl' \<and> cl_pool cl' = cl_pool cl \<and> cl_baskets cl' = cl_baskets cl \<and> cl_nextRequestId cl' = cl_nextRequestId cl
    \<and> length (cl_entries cl') = length (cl_entries cl) \<and> (\<forall>i<n. \<not> ae_inUse (cl_entries cl' ! i))"
    using assms
  proof (induction n arbitrary: cl' ds)
    case (Suc n)
    obtain cl1 ds1 where f: "fold detachAll [0..<n] (cl, []) = (cl1, ds1)" by fastforce
    have step: "detachAll n (cl1, ds1) = (cl', ds)" using Suc.prems(2) f by simp
    from Suc.IH [OF _ f] Suc.prems(1) have ih: "claims cl = mset ds1 + claims cl1" "cl_pool cl1 = cl_pool cl" "cl_baskets cl1 = cl_baskets cl"
      "cl_nextRequestId cl1 = cl_nextRequestId cl" "length (cl_entries cl1) = length (cl_entries cl)" "\<forall>i<n. \<not> ae_inUse (cl_entries cl1 ! i)" by simp_all
    show ?case
    proof (cases "ae_inUse (cl_entries cl1 ! n)")
      case True
      obtain cl2 basket stream where d: "asyncDetachSlot n cl1 = (cl2, basket, stream)" by (metis prod_cases3)
      have n: "n < length (cl_entries cl1)" using Suc.prems(1) ih(5) by simp
      have "cl' = cl2" "ds = ds1 @ [(basket, stream)]" using step True d by (simp_all add: detachAll_def)
      then show ?thesis using detach_claim [OF n True d] ih n by (simp add: less_Suc_eq nth_list_update)
    next
      case False
      then have "cl' = cl1" "ds = ds1" using step by (simp_all add: detachAll_def)
      then show ?thesis using ih False by (simp add: less_Suc_eq)
    qed
  qed simp
  then show "claims cl = mset ds + claims cl'" "cl_pool cl' = cl_pool cl" "cl_baskets cl' = cl_baskets cl" "cl_nextRequestId cl' = cl_nextRequestId cl"
    "length (cl_entries cl') = length (cl_entries cl)" "\<forall>i<n. \<not> ae_inUse (cl_entries cl' ! i)" by simp_all
qed

lemma bind_None_fold: "fold (\<lambda>c cl. Option.bind cl (releaseClaim c)) ds None = None"
  by (induction ds) simp_all

lemma release_fold:
  assumes "claimsOk (mset ds) cl" "poolSound (cl_pool cl)" "fold (\<lambda>c cl. Option.bind cl (releaseClaim c)) ds (Some cl) = Some cl'"
  shows "claimsOk {#} cl' \<and> poolSound (cl_pool cl') \<and> cl_entries cl' = cl_entries cl \<and> cl_nextRequestId cl' = cl_nextRequestId cl"
  using assms
proof (induction ds arbitrary: cl)
  case (Cons c ds)
  then obtain cl1 where cl1: "releaseClaim c cl = Some cl1" by (cases "releaseClaim c cl") (auto simp: bind_None_fold)
  have "claimsOk (add_mset c (mset ds)) cl" using Cons.prems(1) by simp
  note r = release_claim [OF this Cons.prems(2) cl1]
  from Cons.IH [OF r(1,2)] Cons.prems(3) cl1 r(3,4) show ?case by simp
qed simp

text \<open>After the shutdown no entry is in use and no non-blocking basket is left.\<close>

lemma cleanup_ok:
  assumes "clientOk cl" "cleanupAsyncRequests cl = Some cl'"
  shows "clientOk cl'" "claims cl' = {#}"
proof -
  obtain cl1 ds where f: "fold detachAll [0..<MAX_ASYNC_REQUESTS] (cl, []) = (cl1, ds)" by fastforce
  have len: "length (cl_entries cl) = MAX_ASYNC_REQUESTS" using assms(1) by (simp add: clientOk_def)
  note d = detachAll_fold [OF _ f, unfolded len, OF order_refl]
  have idle: "\<not> ae_inUse e" if "e \<in> set (cl_entries cl1)" for e using that d(5,6) by (auto simp: in_set_conv_nth)
  then have none: "claims cl1 = {#}" by (auto simp: claims_def simp flip: mset_filter)
  then have "claimsOk (mset ds) cl1" using assms(1) d(1) claimsOk_same [OF d(2,3)] by (simp add: clientOk_def)
  from release_fold [OF this, of cl'] assms d(2) f
  have r: "claimsOk {#} cl'" "poolSound (cl_pool cl')" "cl_entries cl' = cl_entries cl1" "cl_nextRequestId cl' = cl_nextRequestId cl1"
    by (simp_all add: clientOk_def cleanupAsyncRequests_def)
  show c: "claims cl' = {#}" using none r(3) by (simp add: claims_def)
  show "clientOk cl'" using assms(1) r d(4,5) idle len by (simp add: clientOk_def c)
qed

end
