(* ===== verification/ClientRun.thy ===== *)
theory ClientRun
  imports ClientInvariant
begin

text \<open>
  The runs of the client and what holds in them: the registry of requests stays sound, polling a
  pending request touches live memory only, and a finished response is handed over once, in full.
\<close>

section \<open>Connection threads\<close>

text \<open>
  What a thread of a connection may do to it: whatever it does to the streams, it registers and
  removes none. The reader thread and the exchange over HTTP/1.1 keep to that.
\<close>

locale connection_thread =
  fixes step :: "'z conn \<Rightarrow> 'z conn \<Rightarrow> bool"
  assumes keeps: "step cn cn' \<Longrightarrow> connKeeps cn cn'"
begin

lemma client_ok:
  assumes "clientOk cl" "sp_store (cl_pool cl) p = Some s" "step (ss_conn s) cn"
  shows "clientOk (putSession p (s\<lparr>ss_conn := cn\<rparr>) cl)"
proof -
  have k: "sessionKeeps s (s\<lparr>ss_conn := cn\<rparr>)" using keeps [OF assms(3)] by (simp add: sessionKeeps_def)
  have sound: "poolSound (cl_pool cl)" using assms(1) by (simp add: clientOk_def)
  note r = putSession_keeps [OF sound assms(2) k]
  have "clientOk (cl\<lparr>cl_pool := cl_pool (putSession p (s\<lparr>ss_conn := cn\<rparr>) cl)\<rparr>)"
    using clientOk_pool [OF assms(1) r(1)] r(2) by simp
  then show ?thesis using putSession_client [of cl cl p "s\<lparr>ss_conn := cn\<rparr>"] by simp
qed

end

interpretation batch: connection_thread "\<lambda>cn cn'. \<exists>env acc buf rest. readerBatch env acc buf cn = Some (cn', rest)"
  by unfold_locales (auto intro: batch_keeps)

interpretation lost: connection_thread "\<lambda>cn cn'. \<exists>e. cn' = readerLost e cn"
  by unfold_locales (auto intro: lost_keeps)

text \<open>The thread of an asynchronous request over HTTP/1.1 leaves its stream and the session's state.\<close>

interpretation exchange: connection_thread
  "\<lambda>cn cn'. \<exists>q st' g. cn_store cn q \<noteq> None \<and> cn' = cn\<lparr>cn_store := (cn_store cn)(q \<mapsto> st'), cn_goingAway := g\<rparr>"
  by unfold_locales (auto intro!: connKeeps_stream)

section \<open>Runs\<close>

text \<open>
  \<open>C\<close> is the JSON library and \<open>EVP_EncodeBlock\<close>. A poll is one step: two polls of one handle at the same
  time are not allowed for. A request is one step too: between the finding of its session, the registering of
  its stream and the sending, no reap or reader of another thread comes in. The exchange thread
  of HTTP/1.1 writes the basket's error at its end.
\<close>

inductive clientStep :: "'j collectEnv \<Rightarrow> 'z client \<Rightarrow> 'z client \<Rightarrow> bool" for C where
  Request: "cl_baskets cl h = None \<Longrightarrow> worldsOk A A' cl \<Longrightarrow>
    handleRequest env (ce_base64 C) A A' sinkOk h built stream cl = Some (cl', handle) \<Longrightarrow> clientStep C cl cl'"
| Response: "handleResponse env C handle dest capacity cl = Some (cl', status, len, out) \<Longrightarrow> clientStep C cl cl'"
| Frames: "sp_store (cl_pool cl) p = Some s \<Longrightarrow> readerBatch env acc buf (ss_conn s) = Some (cn, rest) \<Longrightarrow>
    clientStep C cl (putSession p (s\<lparr>ss_conn := cn\<rparr>) cl)"
| Lost: "sp_store (cl_pool cl) p = Some s \<Longrightarrow> clientStep C cl (putSession p (s\<lparr>ss_conn := readerLost e (ss_conn s)\<rparr>) cl)"
| Exchange: "cl_baskets cl h = Some b \<Longrightarrow> sessionOf cl b = Some (p, s) \<Longrightarrow> cn_store (ss_conn s) q = Some st \<Longrightarrow>
    dispatchHttp11 env A False b s st = Some (b', st', g) \<Longrightarrow>
    clientStep C cl (storeBasket h b' (putSession p (s\<lparr>ss_conn := (ss_conn s)\<lparr>cn_store := (cn_store (ss_conn s))(q \<mapsto> st'), cn_goingAway := g\<rparr>\<rparr>) cl))"
| Shutdown: "cleanupAsyncRequests cl = Some cl' \<Longrightarrow> clientStep C cl cl'"

lemma step_ok: "clientStep C cl cl' \<Longrightarrow> clientOk cl \<Longrightarrow> clientOk cl'"
proof (induction rule: clientStep.induct)
  case (Request cl h A A' env sinkOk built stream cl' handle)
  then show ?case using request_ok by blast
next
  case (Response env handle dest capacity cl cl' status len out)
  then show ?case using response_ok by blast
next
  case (Frames cl p s env acc buf cn rest)
  then show ?case using batch.client_ok [of cl p s cn] by blast
next
  case (Lost cl p s e)
  then show ?case using lost.client_ok [of cl p s "readerLost e (ss_conn s)"] by blast
next
  case (Exchange cl h b p s q st env A b' st' g)
  let ?cn = "(ss_conn s)\<lparr>cn_store := (cn_store (ss_conn s))(q \<mapsto> st'), cn_goingAway := g\<rparr>"
  have "sp_store (cl_pool cl) p = Some s" using Exchange(2) by (auto simp: sessionOf_def split: option.splits)
  then have ok: "clientOk (putSession p (s\<lparr>ss_conn := ?cn\<rparr>) cl)" using exchange.client_ok [of cl p s ?cn] Exchange(3,5) by blast
  have "cl_baskets (putSession p (s\<lparr>ss_conn := ?cn\<rparr>) cl) h = Some b" using Exchange(1) by (simp add: putSession_def)
  then show ?case using clientOk_basket [OF ok _ http11_same [OF Exchange(4)]] by simp
next
  case (Shutdown cl cl')
  then show ?case using cleanup_ok(1) by blast
qed

lemma client_run_ok: "(clientStep C)\<^sup>*\<^sup>* initClient cl \<Longrightarrow> clientOk cl"
  by (induction rule: rtranclp_induct) (auto intro: init_ok step_ok)

section \<open>The registry\<close>

lemma entry_claim: "i < length (cl_entries cl) \<Longrightarrow> ae_inUse (cl_entries cl ! i) \<Longrightarrow> claimOf (cl_entries cl ! i) \<in># claims cl"
  by (auto simp: claims_def)

lemma entry_of_claim:
  assumes "(Some h, r) \<in># claims cl"
  obtains i where "i < length (cl_entries cl)" "ae_inUse (cl_entries cl ! i)" "ae_basket (cl_entries cl ! i) = Some h"
    "ae_stream (cl_entries cl ! i) = r"
  using assms by (auto simp: claims_def claimOf_def in_set_conv_nth)

text \<open>A live non-blocking basket has exactly one entry.\<close>

lemma entry_unique:
  assumes "clientOk cl" "cl_baskets cl h = Some b" "rb_nonBlocking b"
    and i: "i < length (cl_entries cl)" "ae_inUse (cl_entries cl ! i)" "ae_basket (cl_entries cl ! i) = Some h"
    and j: "j < length (cl_entries cl)" "ae_inUse (cl_entries cl ! j)" "ae_basket (cl_entries cl ! j) = Some h"
  shows "i = j"
proof (rule ccontr)
  assume "i \<noteq> j"
  obtain cl1 r where d: "asyncDetachSlot i cl = (cl1, Some h, r)" using i(3) by (simp add: asyncDetachSlot_def Let_def)
  note x = detach_claim [OF i(1,2) d]
  have "(Some h, ae_stream (cl_entries cl ! j)) \<in># claims cl1"
    using entry_claim [of j cl1] x(5,6) j \<open>i \<noteq> j\<close> by (simp add: claimOf_def)
  then have "Some h \<in># image_mset fst (claims cl1)" by force
  then have "count (image_mset fst (claims cl1)) (Some h) > 0" by (simp only: count_greater_zero_iff)
  moreover have "count (image_mset fst (claims cl)) (Some h) = 1" using assms(1-3) unfolding clientOk_def claimsOk_def by blast
  moreover have "count (image_mset fst (claims cl)) (Some h) = Suc (count (image_mset fst (claims cl1)) (Some h))" by (simp add: x(1))
  ultimately show False by linarith
qed

lemma entry_exists:
  assumes "clientOk cl" "cl_baskets cl h = Some b" "rb_nonBlocking b"
  obtains i where "i < MAX_ASYNC_REQUESTS" "ae_inUse (cl_entries cl ! i)" "ae_basket (cl_entries cl ! i) = Some h"
proof -
  have "count (image_mset fst (claims cl)) (Some h) = 1" using assms unfolding clientOk_def claimsOk_def by blast
  then have "Some h \<in># image_mset fst (claims cl)" by (metis count_eq_zero_iff zero_neq_one)
  then obtain r where "(Some h, r) \<in># claims cl" by force
  then show ?thesis using entry_of_claim that assms(1) unfolding clientOk_def by metis
qed

lemma entry_stream:
  assumes "clientOk cl" "i < MAX_ASYNC_REQUESTS" "ae_inUse (cl_entries cl ! i)"
  obtains h b where "ae_basket (cl_entries cl ! i) = Some h" "cl_baskets cl h = Some b" "rb_nonBlocking b"
    "\<And>q. ae_stream (cl_entries cl ! i) = Some q \<Longrightarrow> \<exists>p s. ex_session b = Some p \<and> sp_store (cl_pool cl) p = Some s \<and> q \<in> registered (ss_conn s)"
proof -
  have "i < length (cl_entries cl)" using assms(1,2) by (simp add: clientOk_def)
  from entry_claim [OF this assms(3)] have "claimOk cl (claimOf (cl_entries cl ! i))" using assms(1) by (simp add: clientOk_def claimsOk_def)
  then show ?thesis using that unfolding claimOk_def claimOf_def registrations_def by auto
qed

text \<open>A session with a registered stream is not reaped.\<close>

lemma busy_not_reaped:
  assumes "poolSound pool" "sp_store pool p = Some s" "q \<in> registered (ss_conn s)"
  shows "sp_store (cleanupSessions alive now False pool) p = Some s"
proof -
  have "(p, q) \<in> registrations (cleanupSessions alive now False pool)"
    using cleanup_sound(2) [OF assms(1)] assms(2,3) by (auto simp: registrations_def)
  then obtain s' where "sp_store (cleanupSessions alive now False pool) p = Some s'" by (auto simp: registrations_def)
  then show ?thesis using cleanup_store [OF assms(1)] assms(2) by metis
qed

text \<open>C2. The registry of non-blocking requests is sound in every run of requests, polls, reader threads and
  exchanges: a handle is live exactly while one of the 1024 entries holds it, never two; the session
  of a pending request is alive, has its stream registered, and survives every reaping.\<close>

theorem async_registry_sound:
  assumes "(clientStep C)\<^sup>*\<^sup>* initClient cl"
  shows "length (cl_entries cl) = 1024
    \<and> (\<forall>h b. cl_baskets cl h = Some b \<and> rb_nonBlocking b \<longrightarrow>
         (\<exists>!i. i < 1024 \<and> ae_inUse (cl_entries cl ! i) \<and> ae_basket (cl_entries cl ! i) = Some h))
    \<and> (\<forall>i<1024. ae_inUse (cl_entries cl ! i) \<longrightarrow>
         (\<exists>h b. ae_basket (cl_entries cl ! i) = Some h \<and> cl_baskets cl h = Some b \<and> rb_nonBlocking b
            \<and> (\<forall>q. ae_stream (cl_entries cl ! i) = Some q \<longrightarrow>
                 (\<exists>p s. ex_session b = Some p \<and> sp_store (cl_pool cl) p = Some s \<and> q \<in> registered (ss_conn s)
                    \<and> sp_store (cleanupSessions alive now False (cl_pool cl)) p = Some s))))"
proof -
  have ok: "clientOk cl" using assms by (rule client_run_ok)
  then have len: "length (cl_entries cl) = 1024" and sound: "poolSound (cl_pool cl)" by (simp_all add: clientOk_def MAX_ASYNC_REQUESTS_def)
  have one: "\<exists>!i. i < 1024 \<and> ae_inUse (cl_entries cl ! i) \<and> ae_basket (cl_entries cl ! i) = Some h"
    if "cl_baskets cl h = Some b" "rb_nonBlocking b" for h b
    using entry_exists [OF ok that] entry_unique [OF ok that] len by (metis MAX_ASYNC_REQUESTS_def)
  have all: "\<exists>h b. ae_basket (cl_entries cl ! i) = Some h \<and> cl_baskets cl h = Some b \<and> rb_nonBlocking b
       \<and> (\<forall>q. ae_stream (cl_entries cl ! i) = Some q \<longrightarrow>
            (\<exists>p s. ex_session b = Some p \<and> sp_store (cl_pool cl) p = Some s \<and> q \<in> registered (ss_conn s)
               \<and> sp_store (cleanupSessions alive now False (cl_pool cl)) p = Some s))"
    if i: "i < 1024" "ae_inUse (cl_entries cl ! i)" for i
  proof -
    have "i < MAX_ASYNC_REQUESTS" using i(1) by (simp add: MAX_ASYNC_REQUESTS_def)
    then obtain h b where hb: "ae_basket (cl_entries cl ! i) = Some h" "cl_baskets cl h = Some b" "rb_nonBlocking b"
      "\<And>q. ae_stream (cl_entries cl ! i) = Some q \<Longrightarrow> \<exists>p s. ex_session b = Some p \<and> sp_store (cl_pool cl) p = Some s \<and> q \<in> registered (ss_conn s)"
      using entry_stream [OF ok _ i(2)] by metis
    then show ?thesis using busy_not_reaped [OF sound] by blast
  qed
  show ?thesis using len one all by blast
qed


section \<open>Handing over a response\<close>

text \<open>The entry of a handle, as a poll finds it.\<close>

definition pendingAt :: "'z client \<Rightarrow> nat \<Rightarrow> 'z exchange \<Rightarrow> nat \<Rightarrow> nat \<Rightarrow> bool" where
  "pendingAt cl h b i q \<longleftrightarrow> cl_baskets cl h = Some b \<and> rb_nonBlocking b \<and> i < MAX_ASYNC_REQUESTS \<and> ae_inUse (cl_entries cl ! i)
     \<and> ae_basket (cl_entries cl ! i) = Some h \<and> ae_stream (cl_entries cl ! i) = Some q"

lemma pending_slot:
  assumes "clientOk cl" "pendingAt cl h b i q"
  shows "asyncFindSlotByBasket h cl = Some i"
proof -
  have len: "length (cl_entries cl) = MAX_ASYNC_REQUESTS" using assms(1) by (simp add: clientOk_def)
  have b: "cl_baskets cl h = Some b" "rb_nonBlocking b" using assms(2) by (simp_all add: pendingAt_def)
  have "\<not> (ae_inUse (cl_entries cl ! j) \<and> ae_basket (cl_entries cl ! j) = Some h)" if "j < i" for j
    using entry_unique [OF assms(1) b, of i j] that assms(2) len by (auto simp: pendingAt_def)
  then show ?thesis using assms(2) len by (simp add: asyncFindSlotByBasket_def findIndex_iff pendingAt_def)
qed

lemma pending_stream:
  assumes "clientOk cl" "pendingAt cl h b i q"
  obtains p s where "ex_session b = Some p" "sp_store (cl_pool cl) p = Some s" "q \<in> registered (ss_conn s)"
  using entry_stream [OF assms(1), of i] assms(2) unfolding pendingAt_def by (metis option.inject)

text \<open>The claim frees the entry, the stream and the basket, and nothing else.\<close>

definition handedOver :: "'z client \<Rightarrow> nat \<Rightarrow> nat \<Rightarrow> nat \<Rightarrow> 'z client \<Rightarrow> bool" where
  "handedOver cl h i q cl' \<longleftrightarrow> cl_baskets cl' = (cl_baskets cl)(h := None)
     \<and> \<not> ae_inUse (cl_entries cl' ! i) \<and> (\<forall>j. j \<noteq> i \<longrightarrow> cl_entries cl' ! j = cl_entries cl ! j)
     \<and> (\<exists>p. (p, q) \<in> registrations (cl_pool cl) \<and> registrations (cl_pool cl') = registrations (cl_pool cl) - {(p, q)})"

lemma claim_done:
  assumes "clientOk cl" "pendingAt cl h b i q"
  obtains cl' where "claimResult h cl = Some cl'" "handedOver cl h i q cl'"
proof -
  obtain p s where s: "ex_session b = Some p" "sp_store (cl_pool cl) p = Some s" "q \<in> registered (ss_conn s)"
    using pending_stream [OF assms] .
  have len: "i < length (cl_entries cl)" using assms by (simp add: clientOk_def pendingAt_def)
  have use: "ae_inUse (cl_entries cl ! i)" using assms(2) by (simp add: pendingAt_def)
  obtain cl1 where d: "asyncDetachSlot i cl = (cl1, Some h, Some q)" using assms(2) by (simp add: asyncDetachSlot_def Let_def pendingAt_def)
  note x = detach_claim [OF len use d]
  have b: "cl_baskets cl1 h = Some b" using x(3) assms(2) by (simp add: pendingAt_def)
  have ses: "sessionOf cl1 b = Some (p, s)" using s x(2) by (simp add: sessionOf_def)
  obtain cl2 where rel: "releaseStream b q cl1 = Some cl2" using ses by (simp add: releaseStream_def)
  have reg: "(p, q) \<in> registrations (cl_pool cl1)" using registrations_at [OF s(2)] s(3) x(2) by simp
  have sound: "poolSound (cl_pool cl1)" using assms(1) x(2) by (simp add: clientOk_def)
  note r = release_reg [OF sound rel s(1) reg]
  have e: "cl_entries cl2 = cl_entries cl1" "cl_baskets cl2 = cl_baskets cl1" using r(3) by (cases cl2, simp)+
  have "claimResult h cl = Some (freeBasket h cl2)"
    using pending_slot [OF assms] d b rel by (simp add: claimResult_def releaseClaim_def)
  moreover have "handedOver cl h i q (freeBasket h cl2)"
    using r(2) reg len by (auto simp: handedOver_def freeBasket_def e x(2,3,6) intro: exI [of _ p])
  ultimately show ?thesis using that by blast
qed

lemma store_same: "cl_baskets cl h = Some b \<Longrightarrow> storeBasket h b cl = cl"
  by (cases cl) (simp add: storeBasket_def fun_upd_idem_iff)

text \<open>A poll of a request whose stream has ended goes straight to collecting it.\<close>

lemma poll_ended:
  assumes "clientOk cl" "pendingAt cl h b i q" "streamOf cl b q = Some st" "st_isEnded st" "capacity > 0"
  shows "handleResponse env C (Some h) True capacity cl = collectFinished env C capacity h (Some (q, st)) False b cl"
proof -
  have p: "cl_baskets cl h = Some b" "rb_nonBlocking b" "ae_stream (cl_entries cl ! i) = Some q" using assms(2) by (simp_all add: pendingAt_def)
  have "pollOutcome (ev_now env) b (Some st) t = (True, False, b)" for t using assms(4) by (simp add: pollOutcome_def Let_def)
  then show ?thesis using assms(3,5) p pending_slot [OF assms(1,2)]
    by (simp add: handleResponse_def handleResponseAsync_def store_same)
qed

lemma toInt32_id: "0 \<le> n \<Longrightarrow> n < 2 ^ 31 \<Longrightarrow> toInt32 n = n"
  by (simp add: toInt32_def signed_take_bit_int_eq_self sint_uint uint_word_of_int take_bit_int_eq_self)

text \<open>Copying a text that is cached, or printed now.\<close>

definition resultText :: "'j collectEnv \<Rightarrow> 'z client \<Rightarrow> 'z exchange \<Rightarrow> string \<Rightarrow> bool" where
  "resultText C cl b text \<longleftrightarrow> ex_serializedResult b = Some text \<or> ex_serializedResult b = None \<and>
     (\<exists>info. sessionInfo (ce_creationTime C) cl b = Some info \<and> jb_dumps (ce_json C) (basketJson (ce_json C) info b) = Some text)"

definition copied :: "int \<Rightarrow> string \<Rightarrow> int \<times> int \<times> string option" where
  "copied capacity text = (if int (length text) < capacity then (1, int (length text), Some text) else (2, int (length text), None))"

lemma copyBasket_text:
  assumes "(if ex_serializedResult b \<noteq> None then (b, ex_serializedResult b) else basketToString J session b) = (b', Some text)"
    "length text < 2 ^ 31"
  shows "copyBasketResult J session capacity b = Some (b'\<lparr>ex_serializedResult := Some text\<rparr>, copied capacity text)"
proof -
  have "toInt32 (int (length text)) = int (length text)" using assms(2) by (simp add: toInt32_id)
  then show ?thesis unfolding copyBasketResult_def assms(1) prod.case option.case Let_def copied_def by simp
qed

lemma proxyChecked_same:
  "sameRequest b (proxyChecked b)" "rb_error (proxyChecked b) = rb_error b \<or> failed (rb_error (proxyChecked b))"
  by (simp_all add: proxyChecked_def sameRequest_def)

lemma copy_text:
  assumes "resultText C cl b text" "length text < 2 ^ 31"
  obtains b' where "sameRequest b b'" "ex_serializedResult b' = Some text" "rb_error b' = rb_error b \<or> failed (rb_error b')"
    "copyResult C capacity h b cl = Some (storeBasket h b' cl, copied capacity text)"
proof (cases "ex_serializedResult b")
  case (Some t)
  then have t: "t = text" using assms(1) by (simp add: resultText_def)
  have "copyBasketResult (ce_json C) None capacity b = Some (b\<lparr>ex_serializedResult := Some text\<rparr>, copied capacity text)"
    by (rule copyBasket_text [OF _ assms(2)]) (simp add: Some t)
  then show ?thesis using that [of "b\<lparr>ex_serializedResult := Some text\<rparr>"] Some
    by (cases "copied capacity text") (simp add: copyResult_def sameRequest_def)
next
  case None
  then obtain info where i: "sessionInfo (ce_creationTime C) cl b = Some info" "jb_dumps (ce_json C) (basketJson (ce_json C) info b) = Some text"
    using assms(1) by (auto simp: resultText_def)
  have "copyBasketResult (ce_json C) info capacity b = Some ((proxyChecked b)\<lparr>ex_serializedResult := Some text\<rparr>, copied capacity text)"
    by (rule copyBasket_text [OF _ assms(2)]) (simp add: None basketToString_def i(2))
  then show ?thesis using that [of "(proxyChecked b)\<lparr>ex_serializedResult := Some text\<rparr>"] None i(1) proxyChecked_same [of b]
    by (cases "copied capacity text") (simp add: copyResult_def sameRequest_def)
qed

lemma handedOver_cong:
  "cl_baskets cl' = (cl_baskets cl)(h \<mapsto> b) \<Longrightarrow> cl_entries cl' = cl_entries cl \<Longrightarrow> registrations (cl_pool cl') = registrations (cl_pool cl)
    \<Longrightarrow> handedOver cl' h i q cl'' \<longleftrightarrow> handedOver cl h i q cl''"
  by (simp add: handedOver_def)

text \<open>Copying and claiming, from a client in which the request is pending.\<close>

lemma copy_and_claim:
  assumes "clientOk cl" "pendingAt cl h b0 i q" "sameRequest b0 b" "resultText C cl b text" "length text < 2 ^ 31"
  obtains b' cl' where "copyResult C capacity h b cl = Some (storeBasket h b' cl, copied capacity text)"
    "ex_serializedResult b' = Some text" "rb_error b' = rb_error b \<or> failed (rb_error b')" "sameRequest b0 b'"
    "clientOk (storeBasket h b' cl)" "pendingAt (storeBasket h b' cl) h b' i q"
    "claimResult h (storeBasket h b' cl) = Some cl'" "handedOver cl h i q cl'"
proof -
  obtain b' where c: "sameRequest b b'" "ex_serializedResult b' = Some text" "rb_error b' = rb_error b \<or> failed (rb_error b')"
    "copyResult C capacity h b cl = Some (storeBasket h b' cl, copied capacity text)"
    by (rule copy_text [OF assms(4,5)])
  have same: "sameRequest b0 b'" using assms(3) c(1) by (rule sameRequest_trans)
  have b0: "cl_baskets cl h = Some b0" using assms(2) by (simp add: pendingAt_def)
  have ok: "clientOk (storeBasket h b' cl)" by (rule clientOk_basket [OF assms(1) b0 same])
  have p: "pendingAt (storeBasket h b' cl) h b' i q" using assms(2) same by (simp add: pendingAt_def storeBasket_def sameRequest_def)
  obtain cl' where cl': "claimResult h (storeBasket h b' cl) = Some cl'" "handedOver (storeBasket h b' cl) h i q cl'"
    by (rule claim_done [OF ok p])
  have "handedOver cl h i q cl'" using cl'(2) handedOver_cong [of "storeBasket h b' cl" cl h b' i q cl'] by (simp add: storeBasket_def)
  then show ?thesis using that [OF c(4,2,3) same ok p cl'(1)] by blast
qed

text \<open>A stream whose response was moved out is moved out again without effect on the cached text.\<close>

lemma finalize_again:
  assumes "finalizeStreamIntoBasket alloc lib base64 b st = Some (b1, st1)" "rb_error b' = rb_error b1 \<or> failed (rb_error b')"
  shows "st_isEnded st1 = st_isEnded st"
    "failed (rb_error b') \<or> finalizeStreamIntoBasket alloc' lib' base64' b' st1 = Some (b'\<lparr>ex_headers := None, ex_payload := None\<rparr>, st1)"
proof -
  have "st_isEnded st1 = st_isEnded st \<and> (failed (rb_error b1) \<or> \<not> failed (st_error st1) \<and> st_headers st1 = None \<and> st_combinedPayload st1 = [])"
  proof (cases "failed (st_error st)")
    case True
    then have "b1 = b\<lparr>rb_error := st_error st\<rparr>" "st1 = st" using assms(1) by (auto simp: finalizeStreamIntoBasket_def)
    then show ?thesis using True by simp
  next
    case False
    then have "st1 = st\<lparr>st_headers := None, st_combinedPayload := []\<rparr>" using assms(1) by (auto simp: finalizeStreamIntoBasket_def Let_def)
    then show ?thesis using False by simp
  qed
  then have e: "st_isEnded st1 = st_isEnded st"
    "failed (rb_error b') \<or> \<not> failed (st_error st1) \<and> st_headers st1 = None \<and> st_combinedPayload st1 = []" using assms(2) by auto
  show "st_isEnded st1 = st_isEnded st" by (rule e(1))
  show "failed (rb_error b') \<or> finalizeStreamIntoBasket alloc' lib' base64' b' st1 = Some (b'\<lparr>ex_headers := None, ex_payload := None\<rparr>, st1)"
    using e(2) by (auto simp: finalizeStreamIntoBasket_def finalizeResponsePayload_def)
qed

text \<open>What collecting does first: the response moves into the basket, unless the request has failed.\<close>

definition movedOut :: "'z clientEnv \<Rightarrow> 'j collectEnv \<Rightarrow> 'z exchange \<Rightarrow> 'z hstream \<Rightarrow> 'z exchange \<Rightarrow> 'z hstream \<Rightarrow> bool" where
  "movedOut env C b st b1 st1 \<longleftrightarrow>
     (if failed (rb_error b) then b1 = b \<and> st1 = st
      else finalizeStreamIntoBasket (ev_alloc env) (ev_lib env) (ce_base64 C) b st = Some (b1, st1))"

lemma movedOut_same: "movedOut env C b st b1 st1 \<Longrightarrow> sameRequest b b1"
  by (auto simp: movedOut_def dest: finalize_same split: if_splits)

lemma movedOut_again:
  assumes "movedOut env C b st b1 st1" "rb_error b' = rb_error b1 \<or> failed (rb_error b')" "ex_serializedResult b' = Some text"
  obtains b2 where "movedOut env' C b' st1 b2 st1" "ex_serializedResult b2 = Some text"
proof (cases "failed (rb_error b')")
  case True
  then have "movedOut env' C b' st1 b' st1" by (simp add: movedOut_def)
  then show ?thesis using that assms(3) by blast
next
  case False
  then have f: "finalizeStreamIntoBasket (ev_alloc env) (ev_lib env) (ce_base64 C) b st = Some (b1, st1)"
    using assms(1,2) by (auto simp: movedOut_def split: if_splits)
  have "movedOut env' C b' st1 (b'\<lparr>ex_headers := None, ex_payload := None\<rparr>) st1"
    using finalize_again(2) [OF f assms(2)] False by (simp add: movedOut_def)
  then show ?thesis using that assms(3) by simp
qed

lemma movedOut_ended: "movedOut env C b st b1 st1 \<Longrightarrow> st_isEnded st1 = st_isEnded st"
  unfolding movedOut_def using finalize_again(1) [of "ev_alloc env" "ev_lib env" "ce_base64 C" b st b1 st1 b1] by (auto split: if_splits)

lemma collect_unfold:
  "collectFinished env C capacity h stream False b cl =
     (case (case stream of
              None \<Rightarrow> Some (b, cl)
            | Some (p, st) \<Rightarrow>
                if failed (rb_error b) then Some (b, cl)
                else map_option (\<lambda>(b', st). (b', putStream b p st cl))
                       (finalizeStreamIntoBasket (ev_alloc env) (ev_lib env) (ce_base64 C) b st)) of
        None \<Rightarrow> None
      | Some (b, cl) \<Rightarrow>
          (case copyResult C capacity h b cl of
             None \<Rightarrow> None
           | Some (cl, code, len, dest) \<Rightarrow> map_option (\<lambda>cl. (cl, code, len, dest)) (if code = 1 then claimResult h cl else Some cl)))"
  unfolding collectFinished_def if_False by (rule refl)

text \<open>Collecting: the client behind the move, the text copied, and the claim when it fitted.\<close>

lemma collect_moved:
  assumes ok: "clientOk cl" "pendingAt cl h b i q" "streamOf cl b q = Some st" and m: "movedOut env C b st b1 st1"
  obtains cl1 where "clientOk cl1" "pendingAt cl1 h b i q" "streamOf cl1 b1 q = Some st1" "sessionInfo ct cl1 b1 = sessionInfo ct cl b1"
    "cl_baskets cl1 = cl_baskets cl" "cl_entries cl1 = cl_entries cl" "registrations (cl_pool cl1) = registrations (cl_pool cl)"
    "\<forall>capacity. collectFinished env C capacity h (Some (q, st)) False b cl =
       (case copyResult C capacity h b1 cl1 of None \<Rightarrow> None
        | Some (cl2, code, len, dest) \<Rightarrow> map_option (\<lambda>cl3. (cl3, code, len, dest)) (if code = 1 then claimResult h cl2 else Some cl2))"
proof (cases "failed (rb_error b)")
  case True
  then have "b1 = b" "st1 = st" using m by (simp_all add: movedOut_def)
  then show ?thesis using that [of cl] ok True by (simp add: collect_unfold)
next
  case False
  then have f: "finalizeStreamIntoBasket (ev_alloc env) (ev_lib env) (ce_base64 C) b st = Some (b1, st1)" using m by (simp add: movedOut_def)
  have ses1: "ex_session b1 = ex_session b" using finalize_same [OF f] by (simp add: sameRequest_def)
  obtain p s where ses: "sessionOf cl b = Some (p, s)" "cn_store (ss_conn s) q = Some st" using ok(3) by (auto simp: streamOf_def split: option.splits)
  then have p: "ex_session b = Some p" "sp_store (cl_pool cl) p = Some s" by (auto simp: sessionOf_def split: option.splits)
  let ?s = "s\<lparr>ss_conn := (ss_conn s)\<lparr>cn_store := (cn_store (ss_conn s))(q \<mapsto> st1)\<rparr>\<rparr>"
  define cl1 where "cl1 = putStream b q st1 cl"
  have eq: "cl1 = putSession p ?s cl" using ses(1) by (simp add: cl1_def putStream_def onConn_def putSession_def)
  have k: "sessionKeeps s ?s" using connKeeps_stream(2) [of "ss_conn s" q st1] ses(2) by (simp add: sessionKeeps_def)
  have sound: "poolSound (cl_pool cl)" using ok(1) by (simp add: clientOk_def)
  have b: "cl_baskets cl1 = cl_baskets cl" "cl_entries cl1 = cl_entries cl" by (simp_all add: eq putSession_def)
  have "sessionInfo ct cl1 b1 = sessionInfo ct cl b1" using p ses1 by (simp add: eq putSession_def sessionInfo_def)
  moreover have "streamOf cl1 b1 q = Some st1" using p ses1 by (simp add: eq putSession_def streamOf_def sessionOf_def)
  moreover have "pendingAt cl1 h b i q" using ok(2) by (simp add: pendingAt_def b)
  moreover have "clientOk cl1" unfolding cl1_def by (rule putStream_ok(1) [OF ok(1,3)])
  moreover have "registrations (cl_pool cl1) = registrations (cl_pool cl)" unfolding eq by (rule putSession_keeps(2) [OF sound p(2) k])
  ultimately show ?thesis using that [of cl1] b False f by (simp add: collect_unfold cl1_def)
qed


text \<open>One poll of a pending request whose stream has ended.\<close>

lemma poll_collects:
  assumes ok: "clientOk cl" "pendingAt cl h b i q" "streamOf cl b q = Some st" "st_isEnded st"
    and m: "movedOut env C b st b1 st1" and res: "resultText C cl b1 text" "length text < 2 ^ 31" and "capacity > 0"
  obtains b' cl1 cl' where "handleResponse env C (Some h) True capacity cl =
      Some (if int (length text) < capacity then (cl', 1, int (length text), Some text) else (storeBasket h b' cl1, 2, int (length text), None))"
    "handedOver cl h i q cl'" "clientOk (storeBasket h b' cl1)" "pendingAt (storeBasket h b' cl1) h b' i q"
    "streamOf (storeBasket h b' cl1) b' q = Some st1" "ex_serializedResult b' = Some text" "rb_error b' = rb_error b1 \<or> failed (rb_error b')"
    "\<forall>cl''. handedOver (storeBasket h b' cl1) h i q cl'' = handedOver cl h i q cl''"
proof -
  obtain cl1 where c: "clientOk cl1" "pendingAt cl1 h b i q" "streamOf cl1 b1 q = Some st1"
      "sessionInfo (ce_creationTime C) cl1 b1 = sessionInfo (ce_creationTime C) cl b1"
      "cl_baskets cl1 = cl_baskets cl" "cl_entries cl1 = cl_entries cl" "registrations (cl_pool cl1) = registrations (cl_pool cl)"
      "\<forall>capacity. collectFinished env C capacity h (Some (q, st)) False b cl =
         (case copyResult C capacity h b1 cl1 of None \<Rightarrow> None
          | Some (cl2, code, len, dest) \<Rightarrow> map_option (\<lambda>cl3. (cl3, code, len, dest)) (if code = 1 then claimResult h cl2 else Some cl2))"
    by (rule collect_moved [OF ok(1-3) m, of "ce_creationTime C"])
  have "resultText C cl1 b1 text" using res(1) by (simp add: resultText_def c(4))
  from copy_and_claim [OF c(1,2) movedOut_same [OF m] this res(2), of capacity] obtain b' cl' where
    f: "copyResult C capacity h b1 cl1 = Some (storeBasket h b' cl1, copied capacity text)"
      "ex_serializedResult b' = Some text" "rb_error b' = rb_error b1 \<or> failed (rb_error b')" "sameRequest b b'"
      "clientOk (storeBasket h b' cl1)" "pendingAt (storeBasket h b' cl1) h b' i q"
      "claimResult h (storeBasket h b' cl1) = Some cl'" "handedOver cl1 h i q cl'" by blast
  have ho: "handedOver cl1 h i q x = handedOver cl h i q x" for x by (simp add: handedOver_def c(5-7))
  have "handleResponse env C (Some h) True capacity cl =
      Some (if int (length text) < capacity then (cl', 1, int (length text), Some text) else (storeBasket h b' cl1, 2, int (length text), None))"
    unfolding poll_ended [OF ok assms(8)] c(8) [rule_format] f(1) copied_def using f(7) by simp
  moreover have "streamOf (storeBasket h b' cl1) b' q = Some st1"
    using c(3) f(4) movedOut_same [OF m] by (simp add: streamOf_def sessionOf_def storeBasket_def sameRequest_def cong: option.case_cong)
  moreover have "handedOver (storeBasket h b' cl1) h i q x = handedOver cl h i q x" for x
    using ho handedOver_cong [of "storeBasket h b' cl1" cl1 h b' i q x] by (simp add: storeBasket_def)
  ultimately show ?thesis using that f(2,3,5,6,8) ho by blast
qed

text \<open>The polls of such a request, until one has room for the text.\<close>

lemma poll_twice:
  assumes "clientOk cl" "pendingAt cl h b i q" "streamOf cl b q = Some st" "st_isEnded st"
    and "movedOut env C b st b1 st1" "resultText C cl b1 text" "length text < 2 ^ 31" "capacity > 0"
  shows "if int (length text) < capacity
     then \<exists>cl'. handleResponse env C (Some h) True capacity cl = Some (cl', 1, int (length text), Some text) \<and> handedOver cl h i q cl'
     else \<exists>cl'. handleResponse env C (Some h) True capacity cl = Some (cl', 2, int (length text), None)
       \<and> (\<forall>env' capacity'. int (length text) < capacity' \<longrightarrow>
            (\<exists>cl''. handleResponse env' C (Some h) True capacity' cl' = Some (cl'', 1, int (length text), Some text) \<and> handedOver cl h i q cl''))"
proof -
  obtain b' cl1 cl' where p: "handleResponse env C (Some h) True capacity cl =
      Some (if int (length text) < capacity then (cl', 1, int (length text), Some text) else (storeBasket h b' cl1, 2, int (length text), None))"
    "handedOver cl h i q cl'" "clientOk (storeBasket h b' cl1)" "pendingAt (storeBasket h b' cl1) h b' i q"
    "streamOf (storeBasket h b' cl1) b' q = Some st1" "ex_serializedResult b' = Some text" "rb_error b' = rb_error b1 \<or> failed (rb_error b')"
    "\<forall>cl''. handedOver (storeBasket h b' cl1) h i q cl'' = handedOver cl h i q cl''"
    by (rule poll_collects [OF assms])
  have again: "\<exists>cl''. handleResponse env' C (Some h) True capacity' (storeBasket h b' cl1) = Some (cl'', 1, int (length text), Some text)
      \<and> handedOver cl h i q cl''" if c: "int (length text) < capacity'" for env' capacity'
  proof -
    obtain b2 where b2: "movedOut env' C b' st1 b2 st1" "ex_serializedResult b2 = Some text"
      by (rule movedOut_again [OF assms(5) p(7,6)])
    have t: "resultText C (storeBasket h b' cl1) b2 text" using b2(2) by (simp add: resultText_def)
    have e: "st_isEnded st1" using movedOut_ended [OF assms(5)] assms(4) by simp
    have cap: "capacity' > 0" using c by linarith
    show ?thesis by (rule poll_collects [OF p(3-5) e b2(1) t assms(7) cap]) (use c p(8) in auto)
  qed
  show ?thesis using p(1,2) again by auto
qed

text \<open>C4. A finished response is handed over in full and once: when the caller's buffer holds the text, the
  poll delivers it and frees the request's entry, stream and basket and nothing else; when it does
  not, the poll reports the length, and any later poll with a buffer that is large enough delivers
  the same text and then frees them.\<close>

theorem response_collected:
  assumes "clientOk cl" "pendingAt cl h b i q" "streamOf cl b q = Some st" "st_isEnded st"
    and "movedOut env C b st b1 st1" "resultText C cl b1 text" "length text < 2 ^ 31" "capacity > 0"
  shows "if int (length text) < capacity
     then \<exists>cl'. handleResponse env C (Some h) True capacity cl = Some (cl', 1, int (length text), Some text) \<and> handedOver cl h i q cl'
     else \<exists>cl'. handleResponse env C (Some h) True capacity cl = Some (cl', 2, int (length text), None)
       \<and> (\<forall>env' capacity'. int (length text) < capacity' \<longrightarrow>
            (\<exists>cl''. handleResponse env' C (Some h) True capacity' cl' = Some (cl'', 1, int (length text), Some text) \<and> handedOver cl h i q cl''))"
  by (rule poll_twice [OF assms])

section \<open>Tickets\<close>

text \<open>
  The connection info of a session points into the basket the session was opened for: what the
  callback reads when a ticket arrives, \<open>None\<close> once that basket is freed.
\<close>

definition ticketTarget :: "nat \<Rightarrow> 'z client \<Rightarrow> tlsTarget option" where
  "ticketTarget basket cl = map_option (\<lambda>b.
     \<lparr>tt_host = uc_host (rb_components b), tt_port = uc_port (rb_components b), tt_proxyScheme = px_scheme (rb_proxy b),
      tt_proxyHost = px_host (rb_proxy b), tt_proxyPort = px_port (rb_proxy b), tt_proxyAuthorization = px_authorization (rb_proxy b)\<rparr>)
     (cl_baskets cl basket)"

lemma ticket_behind_collection: "handedOver cl h i q cl' \<Longrightarrow> ticketTarget h cl' = None"
  by (simp add: handedOver_def ticketTarget_def)

section \<open>Retrying\<close>

text \<open>C12. A retry does not go back to the connection that failed: whatever session the second attempt
  finds or opens is alive and another one, over HTTP/1.1 if the server asked for that, and the error
  of the first attempt is forgotten.\<close>

theorem retry_avoids_failed_session:
  assumes "clientOk cl" "ex_session b = Some p0" "isRetryableError (rb_error b)"
    and "prepareRetry b cl = Some (cl1, b1)" "sp_store (cl_pool cl) (at_session A) = None"
    and "obtainSession A now b1 cl1 = Some (cl2, b2)"
  shows "rb_error b1 = ERR_NONE \<and> ex_session b1 = None
    \<and> (\<forall>p. ex_session b2 = Some p \<longrightarrow> p \<noteq> p0
         \<and> (\<exists>s. sp_store (cl_pool cl2) p = Some s \<and> (requiresHttp11Downgrade (rb_error b) \<longrightarrow> ss_protocol s = HTTP_PROTOCOL_1_1)))"
proof -
  have sound: "poolSound (cl_pool cl)" using assms(1) by (simp add: clientOk_def)
  obtain s0 where s0: "sp_store (cl_pool cl) p0 = Some s0"
    using assms(2,4) by (auto simp: prepareRetry_def Let_def sessionOf_def split: option.splits if_splits)
  then have r: "cl1 = putSession p0 (setGoingAway s0) cl" "rb_error b1 = ERR_NONE" "ex_session b1 = None"
      "requiresHttp11Downgrade (rb_error b) \<Longrightarrow> rb_forceHttp11 b1"
    using assms(2,4) by (auto simp: prepareRetry_def Let_def sessionOf_def split: if_splits)
  have k: "sessionKeeps s0 (setGoingAway s0)" by (simp add: sessionKeeps_def setGoingAway_def connKeeps_def)
  have store: "sp_store (cl_pool cl1) p0 = Some (setGoingAway s0)" "sp_store (cl_pool cl1) (at_session A) = None"
    using assms(5) s0 by (auto simp: r(1) putSession_def)
  note found = obtainSession_sound(4) [OF assms(6) putSession_keeps(1) [OF sound s0 k, folded r(1)] store(2) r(3)]
  have "p \<noteq> p0 \<and> (\<exists>s. sp_store (cl_pool cl2) p = Some s \<and> (requiresHttp11Downgrade (rb_error b) \<longrightarrow> ss_protocol s = HTTP_PROTOCOL_1_1))"
    if "ex_session b2 = Some p" for p
    using found [OF that] store r(4) by (auto simp: setGoingAway_def goingAway_def)
  then show ?thesis using r(2,3) by blast
qed

section \<open>A client at work\<close>

text \<open>One session, with one stream on it whose response has ended, and the request's entry.\<close>

definition sampleSession :: "(bytes \<times> nat) session" where
  "sampleSession = (initSession sampleBasket HTTP_PROTOCOL_2 True)\<lparr>ss_lastUsedTime := 5\<rparr>"

definition sampleConn :: "(bytes \<times> nat) conn" where
  "sampleConn = (let cn = fst (registerStream (Some 7) True 5 None (ss_conn sampleSession))
                 in cn\<lparr>cn_store := (cn_store cn)(7 \<mapsto> (newStream 1 5 None)\<lparr>st_isEnded := True\<rparr>)\<rparr>)"

definition sampleExchange :: "(bytes \<times> nat) exchange" where
  "sampleExchange = (newExchange initBasket)\<lparr>ex_session := Some 3\<rparr>"

definition sampleClient :: "(bytes \<times> nat) client" where
  "sampleClient = initClient
     \<lparr>cl_entries := (cl_entries (initClient :: (bytes \<times> nat) client))
        [0 := \<lparr>ae_requestId = 1, ae_inUse = True, ae_basket = Some 9, ae_stream = Some 7, ae_startTime = 5\<rparr>],
      cl_nextRequestId := 2, cl_baskets := [9 \<mapsto> sampleExchange],
      cl_pool := samplePool\<lparr>sp_store := (sp_store samplePool)(3 \<mapsto> sampleSession\<lparr>ss_conn := sampleConn\<rparr>)\<rparr>\<rparr>"

definition sampleCollect :: "unit collectEnv" where
  "sampleCollect =
     \<lparr>ce_json = \<lparr>jb_object = (), jb_array = (), jb_string = \<lambda>_. Some (), jb_integer = \<lambda>_. (), jb_set = \<lambda>_ _ _. (),
        jb_append = \<lambda>_ _. (), jb_get = \<lambda>_ _. None, jb_text = \<lambda>_. None, jb_dumps = \<lambda>_. Some ''{}''\<rparr>,
      ce_base64 = id, ce_creationTime = \<lambda>_. 0\<rparr>"

lemma sampleConn_ok: "registryOk sampleConn" "registered sampleConn = {7}"
  "cn_store sampleConn 7 = Some ((newStream 1 5 None)\<lparr>st_isEnded := True\<rparr>)"
proof -
  have cn0: "registryOk (ss_conn sampleSession)" "registered (ss_conn sampleSession) = {}"
    using initConn_ok(1) by (simp_all add: sampleSession_def initSession_def registered_def initConn_def)
  obtain cn r where g: "registerStream (Some 7) True 5 None (ss_conn sampleSession) = (cn, r)" by fastforce
  have "enterSlot 7 (cn_streams (ss_conn sampleSession)) \<noteq> None"
    by (simp add: sampleSession_def initSession_def initConn_def enterSlot_def findIndex_None MAX_CONCURRENT_STREAMS_PER_SESSION_def)
  then have r: "r = Inr 7" "cn_store cn 7 \<noteq> None" using g by (auto simp: registerStream_def Let_def)
  have k: "registryOk cn \<and> registered cn = {7}" using registerStream_sound(3) [OF g cn0(1), of 7] r cn0(2) by simp
  have "connKeeps cn sampleConn" using connKeeps_stream(2) [OF r(2)] by (simp add: sampleConn_def g)
  then show "registryOk sampleConn" "registered sampleConn = {7}" using k connKeeps_ok [of cn sampleConn] connKeeps_registered [of cn sampleConn] by simp_all
  show "cn_store sampleConn 7 = Some ((newStream 1 5 None)\<lparr>st_isEnded := True\<rparr>)" by (simp add: sampleConn_def Let_def)
qed

lemma sampleClient_ok: "clientOk sampleClient" "pendingAt sampleClient 9 sampleExchange 0 7"
  "streamOf sampleClient sampleExchange 7 = Some ((newStream 1 5 None)\<lparr>st_isEnded := True\<rparr>)"
proof -
  have st: "sp_store samplePool 3 = Some sampleSession" by (simp add: samplePool_ok(3) sampleSession_def)
  have only: "sp_store samplePool p = Some s \<Longrightarrow> p = 3" for p s
    by (auto simp: samplePool_def registerSession_def initSharedSessionPool_def Let_def split: option.splits if_splits)
  have cn0: "registryOk (ss_conn sampleSession)" "registered (ss_conn sampleSession) = {}"
    using initConn_ok(1) by (simp_all add: sampleSession_def initSession_def registered_def initConn_def)
  have sound: "poolSound samplePool" using samplePool_ok(1) only st cn0(1) by (auto simp: poolSound_def)
  have none: "registrations samplePool = {}" using only st cn0(2) by (fastforce simp: registrations_def)
  have pool: "poolSound (cl_pool sampleClient)" "registrations (cl_pool sampleClient) = {(3, 7)}"
    using putSession_pool [OF sound st, of "sampleSession\<lparr>ss_conn := sampleConn\<rparr>"] none sampleConn_ok by (simp_all add: sampleClient_def)
  let ?e = "\<lparr>ae_requestId = 1, ae_inUse = True, ae_basket = Some 9, ae_stream = Some 7, ae_startTime = 5\<rparr>"
  have init: "clientOk (initClient :: (bytes \<times> nat) client)" "claims (initClient :: (bytes \<times> nat) client) = {#}"
    by (rule init_ok) (simp add: claims_def initClient_def flip: mset_filter)
  have "claims sampleClient = add_mset (Some 9, Some 7) {#}"
    using claims_enter [of 0 "initClient :: (bytes \<times> nat) client" ?e] init(2)
    by (simp add: claims_def sampleClient_def claimOf_def) (simp add: initClient_def MAX_ASYNC_REQUESTS_def)
  moreover have "claimsOk (add_mset (Some 9, Some 7) {#}) sampleClient"
  proof (rule claim_add [of "{#}" initClient 9 sampleClient sampleExchange "Some 7"])
    show "claimsOk {#} (initClient :: (bytes \<times> nat) client)" using init by (simp add: clientOk_def)
  qed (auto simp: pool none sampleConn_ok(2) initClient_def sampleClient_def sampleExchange_def newExchange_def initBasket_def requestBasket.defs registrations_def initSharedSessionPool_def)
  moreover have "ae_inUse x \<longrightarrow> ae_requestId x < 2" if "x \<in> set (cl_entries sampleClient)" for x
    using that set_update_subset_insert [of "cl_entries (initClient :: (bytes \<times> nat) client)" 0 ?e]
    by (auto simp: sampleClient_def initClient_def)
  moreover have "length (cl_entries sampleClient) = MAX_ASYNC_REQUESTS" "cl_nextRequestId sampleClient = 2"
    by (simp_all add: sampleClient_def initClient_def)
  ultimately show "clientOk sampleClient" using pool(1) by (simp add: clientOk_def)
  show "pendingAt sampleClient 9 sampleExchange 0 7"
    by (simp add: pendingAt_def sampleClient_def initClient_def MAX_ASYNC_REQUESTS_def sampleExchange_def newExchange_def initBasket_def requestBasket.defs)
  show "streamOf sampleClient sampleExchange 7 = Some ((newStream 1 5 None)\<lparr>st_isEnded := True\<rparr>)"
    by (simp add: streamOf_def sessionOf_def sampleClient_def sampleExchange_def sampleConn_ok(3))
qed

text \<open>A request that could not be parsed takes an entry of the registry like any other.\<close>

lemma async_registry_sound_witness:
  "\<exists>cl. (clientStep sampleCollect)\<^sup>*\<^sup>* initClient (cl :: (bytes \<times> nat) client)
     \<and> (\<exists>!i. i < 1024 \<and> ae_inUse (cl_entries cl ! i) \<and> ae_basket (cl_entries cl ! i) = Some 9)"
proof -
  let ?A = "undefined\<lparr>at_session := 1, at_stream := None, at_waits := []\<rparr> :: (bytes \<times> nat) attemptEnv"
  have w: "worldsOk ?A (?A\<lparr>at_session := 2\<rparr>) initClient" by (simp add: worldsOk_def worldOk_def initClient_def initSharedSessionPool_def)
  define built where "built = fail ERR_REQUEST_PARSING_STRING_TO_JSON_FAILED initBasket"
  define b where "b = (snd (acceptContract None (newExchange built :: (bytes \<times> nat) exchange)))
    \<lparr>ex_sink := Some (buildResponseSink (word_of_int (rb_decompress (newExchange built :: (bytes \<times> nat) exchange))) None)\<rparr>"
  have b: "rb_nonBlocking b" "failed (rb_error b)"
    by (simp_all add: b_def built_def acceptContract_def newExchange_def fail_def initBasket_def requestBasket.defs failed_def
        ERR_REQUEST_PARSING_STRING_TO_JSON_FAILED_def)
  obtain cl1 where a: "asyncAllocEntry 0 (storeBasket 9 b initClient) = (cl1, Some 0)" "cl_baskets cl1 9 = Some b"
  proof -
    obtain cl1 slot where al: "asyncAllocEntry 0 (storeBasket 9 b initClient) = (cl1, slot)" by fastforce
    have f: "findIndex (\<lambda>e. \<not> ae_inUse e) (cl_entries (storeBasket 9 b initClient)) = Some 0"
      by (simp add: findIndex_iff storeBasket_def initClient_def MAX_ASYNC_REQUESTS_def)
    have slot: "findIndex (\<lambda>e. ae_inUse e \<and> ae_requestId e = Suc 0) ((cl_entries (storeBasket 9 b initClient))[0 := e]) = Some 0"
      if "ae_inUse e" "ae_requestId e = Suc 0" for e
      using that by (simp add: findIndex_iff storeBasket_def initClient_def MAX_ASYNC_REQUESTS_def)
    have n: "cl_nextRequestId (storeBasket 9 b initClient) = 1" "cl_baskets (storeBasket 9 b initClient) = [9 \<mapsto> b]"
      by (simp_all add: storeBasket_def initClient_def)
    have "slot = Some 0" "cl_baskets cl1 9 = Some b"
      using al by (auto simp: asyncAllocEntry_def asyncAllocSlot_def f asyncFindSlot_def n slot)
    then show ?thesis using that al by simp
  qed
  obtain cl' where r: "handleRequestAsync (undefined\<lparr>ev_now := 0\<rparr>) id ?A (?A\<lparr>at_session := 2\<rparr>) 9 b (storeBasket 9 b initClient) = Some (cl', Some 9)"
      "cl_baskets cl' 9 = Some (b\<lparr>ex_requestId := ae_requestId (cl_entries cl1 ! 0)\<rparr>)"
    using a b by (simp add: handleRequestAsync_def asyncPublish_def storeBasket_def)
  have "handleRequest (undefined\<lparr>ev_now := 0\<rparr>) id ?A (?A\<lparr>at_session := 2\<rparr>) True 9 (Some built) None initClient = Some (cl', Some 9)"
    using r(1) b by (simp add: handleRequest_def b_def acceptContract_def)
  then have "clientStep sampleCollect initClient cl'"
    using clientStep.Request [of initClient 9 ?A "?A\<lparr>at_session := 2\<rparr>" _ sampleCollect True "Some built" None cl' "Some 9"] w
    by (simp add: sampleCollect_def initClient_def)
  then have run: "(clientStep sampleCollect)\<^sup>*\<^sup>* initClient cl'" by blast
  have "\<exists>b. cl_baskets cl' 9 = Some b \<and> rb_nonBlocking b" using r(2) b(1) by simp
  then have "\<exists>!i. i < 1024 \<and> ae_inUse (cl_entries cl' ! i) \<and> ae_basket (cl_entries cl' ! i) = Some 9"
    using async_registry_sound [OF run] by blast
  then show ?thesis using run by blast
qed

lemma sample_moved: "movedOut env sampleCollect sampleExchange ((newStream 1 5 None)\<lparr>st_isEnded := True\<rparr>)
   (sampleExchange\<lparr>ex_headers := Some [], ex_payload := None\<rparr>)
   ((newStream 1 5 None)\<lparr>st_isEnded := True, st_headers := None, st_combinedPayload := []\<rparr>)"
  by (simp add: movedOut_def finalizeStreamIntoBasket_def finalizeResponsePayload_def newStream_def sampleExchange_def newExchange_def
      initBasket_def requestBasket.defs failed_def ERR_NONE_def)

lemma sample_text: "resultText sampleCollect sampleClient (sampleExchange\<lparr>ex_headers := Some [], ex_payload := None\<rparr>) ''{}''"
  by (simp add: resultText_def sampleExchange_def newExchange_def requestBasket.defs sampleCollect_def sessionInfo_def sampleClient_def)

text \<open>The empty response of the sample client, polled with too small a buffer and then with one that fits.\<close>

lemma response_collected_witness:
  "\<forall>env env'. \<exists>cl'. handleResponse env sampleCollect (Some 9) True 2 sampleClient = Some (cl', 2, 2, None)
     \<and> (\<exists>cl''. handleResponse env' sampleCollect (Some 9) True 3 cl' = Some (cl'', 1, 2, Some ''{}'') \<and> handedOver sampleClient 9 0 7 cl'')"
proof (intro allI)
  fix env env' :: "(bytes \<times> nat) clientEnv"
  show "\<exists>cl'. handleResponse env sampleCollect (Some 9) True 2 sampleClient = Some (cl', 2, 2, None)
     \<and> (\<exists>cl''. handleResponse env' sampleCollect (Some 9) True 3 cl' = Some (cl'', 1, 2, Some ''{}'') \<and> handedOver sampleClient 9 0 7 cl'')"
    using response_collected [OF sampleClient_ok _ sample_moved sample_text, of 2 env] by (fastforce simp: newStream_def)
qed

text \<open>The server of the sample client sends GOAWAY: the retry opens a session of its own.\<close>

definition sampleAttempt :: "(bytes \<times> nat) attemptEnv" where
  "sampleAttempt = undefined\<lparr>at_alive := \<lambda>_. False, at_create := sampleEnv [goodAddress 3], at_session := 4\<rparr>"

lemma retry_avoids_failed_session_witness:
  "\<exists>cl1 b1 cl2 b2. prepareRetry ((newExchange secureRequest)\<lparr>ex_session := Some 3, rb_error := ERR_SESSION_GO_AWAY\<rparr>) sampleClient = Some (cl1, b1)
     \<and> obtainSession sampleAttempt 8 b1 cl1 = Some (cl2, b2) \<and> ex_session b2 = Some 4 \<and> sp_store (cl_pool cl2) 4 \<noteq> None"
proof -
  let ?b = "(newExchange secureRequest)\<lparr>ex_session := Some 3, rb_error := ERR_SESSION_GO_AWAY\<rparr> :: (bytes \<times> nat) exchange"
  have e: "isRetryableError (rb_error ?b)" "\<not> requiresHttp11Downgrade (rb_error ?b)"
    by (simp_all add: isRetryableError_def requiresHttp11Downgrade_def failed_def ERR_SESSION_GO_AWAY_def ERR_SESSION_HTTP_1_1_REQUIRED_def)
  obtain cl1 b1 where p: "prepareRetry ?b sampleClient = Some (cl1, b1)" "requestBasket.truncate b1 = secureRequest" "ex_session b1 = None"
    using e(2) by (auto simp: prepareRetry_def Let_def sessionOf_def sampleClient_def newExchange_def requestBasket.defs secure_parts(3) [symmetric])
  have t: "tryAddresses False [goodAddress 3] ERR_NONE = (Some 3, ERR_NONE, [Acquire (RSocket 3)])"
    using good_connect [of 3 False ERR_NONE] by (simp add: goodAddress_def FD_SETSIZE_def)
  obtain bk s evs where c: "createSession (sampleEnv [goodAddress 3]) secureRequest = Some (bk, Some (s :: (bytes \<times> nat) session), evs)"
    using secure_sample [OF t, where ?'z = "bytes \<times> nat"] by (simp add: Let_def)
  obtain cl2 b2 where o: "obtainSession sampleAttempt 8 b1 cl1 = Some (cl2, b2)" "ex_session b2 = Some 4"
    by (auto simp: obtainSession_def sampleAttempt_def p(2,3) Let_def c handleSession_def getSessionInfo_dead createFor_def sessionView_def)
  have "sp_store (cl_pool sampleClient) (at_session sampleAttempt) = None"
    using samplePool_ok(2) by (simp add: sampleClient_def sampleAttempt_def samplePool_def registerSession_def initSharedSessionPool_def split: option.splits)
  from retry_avoids_failed_session [OF sampleClient_ok(1) _ e(1) p(1) this o(1), of 3] p(1) o show ?thesis by auto
qed

end
