(* ===== verification/TlsFingerprint.thy ===== *)
theory TlsFingerprint
  imports BrowserHandler "HOL-Library.Multiset"
begin

text \<open>
  The TLS side of a browser profile, \<open>src/SSLHandler.c\<close>: the settings \<open>createSSLContext\<close> and
  \<open>applyTlsFingerprint\<close> make, in their order, the shuffled trust anchors, and the callbacks that
  compress certificates. The TLS library is not modelled; a setting is the call that makes it.
\<close>

section \<open>Trust anchors\<close>

definition chromeTrustAnchorIds :: bytes where
  "chromeTrustAnchorIds =
    [0x05, 0x82, 0xdf, 0x13, 0x02, 0x12,
     0x08, 0x83, 0x9a, 0x64, 0x8c, 0x9b, 0x2d, 0x01, 0x0a,
     0x04, 0xd6, 0x79, 0x09, 0x06,
     0x08, 0x83, 0x9a, 0x64, 0x8c, 0x9b, 0x2d, 0x01, 0x07,
     0x04, 0xd6, 0x79, 0x09, 0x04,
     0x04, 0xd6, 0x79, 0x09, 0x01,
     0x08, 0x83, 0x9a, 0x64, 0x8c, 0x9b, 0x2d, 0x01, 0x0c,
     0x04, 0xd6, 0x79, 0x09, 0x0f,
     0x04, 0xd6, 0x79, 0x09, 0x0a,
     0x04, 0xd6, 0x79, 0x09, 0x0d,
     0x05, 0x82, 0xdf, 0x13, 0x02, 0x13,
     0x05, 0x82, 0xdf, 0x13, 0x02, 0x06,
     0x05, 0x82, 0xdf, 0x13, 0x02, 0x14,
     0x08, 0x83, 0x9a, 0x64, 0x8c, 0x9b, 0x2d, 0x01, 0x13,
     0x08, 0x83, 0x9a, 0x64, 0x8c, 0x9b, 0x2d, 0x01, 0x09,
     0x04, 0xd6, 0x79, 0x09, 0x07,
     0x05, 0x82, 0xdf, 0x13, 0x02, 0x0d,
     0x08, 0x83, 0x9a, 0x64, 0x8c, 0x9b, 0x2d, 0x01, 0x12,
     0x04, 0xd6, 0x79, 0x09, 0x08,
     0x08, 0x83, 0x9a, 0x64, 0x8c, 0x9b, 0x2d, 0x01, 0x08,
     0x04, 0xd6, 0x79, 0x09, 0x05,
     0x08, 0x83, 0x9a, 0x64, 0x8c, 0x9b, 0x2d, 0x01, 0x0b,
     0x05, 0x82, 0xdf, 0x13, 0x02, 0x01,
     0x05, 0x82, 0xdf, 0x13, 0x02, 0x0e,
     0x04, 0xd6, 0x79, 0x09, 0x0b,
     0x08, 0x83, 0x9a, 0x64, 0x8c, 0x9b, 0x2d, 0x01, 0x0d,
     0x05, 0x82, 0xdf, 0x13, 0x02, 0x0f,
     0x04, 0xd6, 0x79, 0x09, 0x0c]"

text \<open>
  The entries, each its length byte and what it counts. The length of an entry is a \<open>uint8_t\<close>, the
  offset is not. An entry that ends behind the text is cut off here and read past it in the code;
  the array has room for 28.
\<close>

function anchorEntries :: "bytes \<Rightarrow> bytes list" where
  "anchorEntries [] = []"
| "anchorEntries (len # rest) = take (unat (1 + len)) (len # rest) # anchorEntries (drop (unat len) rest)"
  by pat_completeness auto
termination by (relation "measure length") auto

text \<open>The shuffle from the last position down; \<open>rand i\<close> is what \<open>rand()\<close> returns at position \<open>i\<close>.\<close>

definition swapAt :: "nat \<Rightarrow> nat \<Rightarrow> 'a list \<Rightarrow> 'a list" where
  "swapAt i j xs = xs[i := xs ! j, j := xs ! i]"

fun shuffleDown :: "(nat \<Rightarrow> nat) \<Rightarrow> nat \<Rightarrow> 'a list \<Rightarrow> 'a list" where
  "shuffleDown rand 0 xs = xs"
| "shuffleDown rand (Suc i) xs = shuffleDown rand i (swapAt (Suc i) (rand (Suc i) mod (Suc i + 1)) xs)"

text \<open>\<open>rand\<close> gives what the C function returns at each turn of the loop; its seeding by the time is not modelled.\<close>

definition prepareTrustAnchors :: "(nat \<Rightarrow> nat) \<Rightarrow> bytes" where
  "prepareTrustAnchors rand =
     (let entries = anchorEntries chromeTrustAnchorIds
      in concat (shuffleDown rand (length entries - 1) entries))"

section \<open>Settings\<close>

datatype tlsSetting =
    PermuteExtensions
  | NoTicket
  | AlpnProtos bytes
  | StrictCipherList string
  | Tls13CipherPrefs string
  | EnableEchGrease
  | EcdhAuto
  | HostName string
  | OcspStapling
  | SignedCertTimestamps
  | SignedCertTimestampList bytes
  | ApplicationSettings bytes
  | RequestedTrustAnchors bytes
  | GroupsList string
  | VerifyAlgorithmPrefs "16 word list"
  | CertCompression nat

datatype contextSetting = MinVersion nat | MaxVersion nat | Grease | GreaseSigalgs | ClientSessionCache | NewSessionCallback

definition emptySCTRequest :: bytes where
  "emptySCTRequest = [0x00, 0x00]"

definition alpsSettings :: bytes where
  "alpsSettings = [0x68, 0x32]"

text \<open>What \<open>createSSLContext\<close> sets on a context; the versions are those of TLS 1.2 and 1.3.\<close>

definition contextSettings :: "browserFingerprint option \<Rightarrow> contextSetting list" where
  "contextSettings fp =
     [MinVersion 0x0303, MaxVersion 0x0304]
     @ (if fp \<noteq> None \<and> fp_enableGrease (the fp) then [Grease] else [])
     @ (if fp \<noteq> None \<and> fp_enableGreaseSigalgs (the fp) then [GreaseSigalgs] else [])
     @ [ClientSessionCache, NewSessionCallback]"

definition applyTlsFingerprint :: "(nat \<Rightarrow> nat) \<Rightarrow> string \<Rightarrow> browserFingerprint \<Rightarrow> tlsSetting list" where
  "applyTlsFingerprint rand hostname fp =
     (if fp_enablePermuteExtensions fp then [PermuteExtensions] else [])
     @ (if \<not> fp_enableSessionTicket fp then [NoTicket] else [])
     @ [AlpnProtos (fp_alpn fp), StrictCipherList (fp_cipherList fp), Tls13CipherPrefs (fp_cipherList fp)]
     @ (if fp_enableEchGrease fp then [EnableEchGrease] else [])
     @ [EcdhAuto, HostName hostname, OcspStapling, SignedCertTimestamps, SignedCertTimestampList emptySCTRequest]
     @ (if fp_enableAlps fp then [ApplicationSettings alpsSettings] else [])
     @ (if fp_enableTrustAnchors fp then [RequestedTrustAnchors (prepareTrustAnchors rand)] else [])
     @ [GroupsList (fp_groups fp), VerifyAlgorithmPrefs (fp_sigAlgs fp)]
     @ (if fp_certCompressionAlg fp = 2 then [CertCompression 2]
        else if fp_certCompressionAlg fp = 1 then [CertCompression 1] else [])"

section \<open>Compressed certificates\<close>

text \<open>
  \<open>compress\<close>, \<open>uncompress\<close> and their Brotli counterparts are parameters: the decoders get the room
  for their output. \<open>bound\<close> is the size of the output buffer, \<open>add\<close> is \<open>CBB_add_bytes\<close>, \<open>buffer\<close> is
  \<open>CRYPTO_BUFFER_new\<close>. The result is what the TLS library gets, \<open>None\<close> on a failure.
\<close>

definition zlibCompressCb :: "(nat \<Rightarrow> bool) \<Rightarrow> (nat \<Rightarrow> nat) \<Rightarrow> (bytes \<Rightarrow> bytes option) \<Rightarrow> (bytes \<Rightarrow> bool) \<Rightarrow> bytes \<Rightarrow> bytes option" where
  "zlibCompressCb alloc bound compress add inp =
     (if \<not> alloc (bound (length inp)) then None
      else (case compress inp of None \<Rightarrow> None | Some compressed \<Rightarrow> if add compressed then Some compressed else None))"

definition zlibDecompressCb :: "(nat \<Rightarrow> bool) \<Rightarrow> (nat \<Rightarrow> bytes \<Rightarrow> bytes option) \<Rightarrow> (bytes \<Rightarrow> bool) \<Rightarrow> nat \<Rightarrow> bytes \<Rightarrow> bytes option" where
  "zlibDecompressCb alloc uncompress buffer uncompressedLen inp =
     (if \<not> alloc uncompressedLen then None
      else (case uncompress uncompressedLen inp of
              None \<Rightarrow> None
            | Some decompressed \<Rightarrow>
                if length decompressed \<noteq> uncompressedLen then None
                else if buffer decompressed then Some decompressed else None))"

definition brotliCompressCb :: "(nat \<Rightarrow> bool) \<Rightarrow> (nat \<Rightarrow> nat) \<Rightarrow> (bytes \<Rightarrow> bytes option) \<Rightarrow> (bytes \<Rightarrow> bool) \<Rightarrow> bytes \<Rightarrow> bytes option" where
  "brotliCompressCb alloc bound compress add inp =
     (if bound (length inp) = 0 then None
      else if \<not> alloc (bound (length inp)) then None
      else (case compress inp of None \<Rightarrow> None | Some compressed \<Rightarrow> if add compressed then Some compressed else None))"

definition brotliDecompressCb :: "(nat \<Rightarrow> bool) \<Rightarrow> (nat \<Rightarrow> bytes \<Rightarrow> bytes option) \<Rightarrow> (bytes \<Rightarrow> bool) \<Rightarrow> nat \<Rightarrow> bytes \<Rightarrow> bytes option" where
  "brotliDecompressCb alloc decode buffer uncompressedLen inp =
     (if \<not> alloc uncompressedLen then None
      else (case decode uncompressedLen inp of
              None \<Rightarrow> None
            | Some decompressed \<Rightarrow>
                if length decompressed \<noteq> uncompressedLen then None
                else if buffer decompressed then Some decompressed else None))"

text \<open>A certificate that was compressed is accepted again, and nothing of another length is.\<close>

lemma zlib_certificate:
  assumes "\<And>x c. compress x = Some c \<Longrightarrow> uncompress (length x) c = Some x" "zlibCompressCb alloc bound compress add cert = Some c"
    "alloc (length cert)" "buffer cert"
  shows "zlibDecompressCb alloc uncompress buffer (length cert) c = Some cert"
  using assms by (auto simp: zlibCompressCb_def zlibDecompressCb_def split: if_splits option.splits)

lemma brotli_certificate:
  assumes "\<And>x c. compress x = Some c \<Longrightarrow> decode (length x) c = Some x" "brotliCompressCb alloc bound compress add cert = Some c"
    "alloc (length cert)" "buffer cert"
  shows "brotliDecompressCb alloc decode buffer (length cert) c = Some cert"
  using assms by (auto simp: brotliCompressCb_def brotliDecompressCb_def split: if_splits option.splits)

lemma certificate_length:
  "zlibDecompressCb alloc uncompress buffer n c = Some cert \<Longrightarrow> length cert = n"
  "brotliDecompressCb alloc decode buffer n c = Some cert \<Longrightarrow> length cert = n"
  by (auto simp: zlibDecompressCb_def brotliDecompressCb_def split: if_splits option.splits)

section \<open>The shuffle\<close>

lemma swapAt_simps [simp]: "length (swapAt i j xs) = length xs"
  by (simp add: swapAt_def)

lemma swapAt_mset: "i < length xs \<Longrightarrow> j < length xs \<Longrightarrow> mset (swapAt i j xs) = mset xs"
  unfolding swapAt_def by (rule mset_swap)

lemma shuffle_mset: "i < length xs \<Longrightarrow> mset (shuffleDown rand i xs) = mset xs"
proof (induction i arbitrary: xs)
  case (Suc i)
  have "rand (Suc i) mod (Suc i + 1) < length xs" using Suc.prems mod_less_divisor [of "Suc i + 1" "rand (Suc i)"] by linarith
  then show ?case using Suc by (simp add: swapAt_mset)
qed simp

text \<open>Every order is reached: position by position the wanted element is in front, or already there.\<close>

lemma shuffle_onto:
  assumes "mset xs = mset ys" "drop (Suc i) xs = drop (Suc i) ys" "i < length xs"
  shows "\<exists>rand. shuffleDown rand i xs = ys"
  using assms
proof (induction i arbitrary: xs)
  case 0
  have len: "length xs = length ys" using 0(1) by (rule mset_eq_length)
  obtain x xs' y ys' where c: "xs = x # xs'" "ys = y # ys'" using 0(3) len by (cases xs; cases ys) auto
  then have "xs' = ys'" using 0(2) by simp
  then have "x = y" using 0(1) c by simp
  then show ?case using c \<open>xs' = ys'\<close> by simp
next
  case (Suc i)
  have len: "length xs = length ys" using Suc.prems(1) by (rule mset_eq_length)
  have "mset (take (Suc (Suc i)) xs) + mset (drop (Suc (Suc i)) xs) = mset (take (Suc (Suc i)) ys) + mset (drop (Suc (Suc i)) ys)"
    using Suc.prems(1) by (simp flip: mset_append)
  then have front: "mset (take (Suc (Suc i)) xs) = mset (take (Suc (Suc i)) ys)" using Suc.prems(2) by simp
  have "ys ! Suc i \<in> set (take (Suc (Suc i)) ys)" using Suc.prems(3) len by (auto simp: in_set_conv_nth intro!: exI [of _ "Suc i"])
  then have "ys ! Suc i \<in> set (take (Suc (Suc i)) xs)" using front by (metis mset_eq_setD)
  then obtain j where j: "j < Suc (Suc i)" "xs ! j = ys ! Suc i" by (auto simp: in_set_conv_nth)
  let ?xs = "swapAt (Suc i) j xs"
  have "?xs ! k = ys ! k" if "Suc i \<le> k" "k < length xs" for k
  proof (cases "k = Suc i")
    case True
    then show ?thesis using j that by (cases "j = Suc i") (simp_all add: swapAt_def)
  next
    case False
    then have "Suc (Suc i) \<le> k" using that(1) by simp
    then obtain m where m: "k = Suc (Suc i) + m" using le_Suc_ex by blast
    have "drop (Suc (Suc i)) xs ! m = drop (Suc (Suc i)) ys ! m" using Suc.prems(2) by simp
    then have "xs ! k = ys ! k" using m that(2) len by simp
    then show ?thesis using False j(1) that(1) by (simp add: swapAt_def)
  qed
  then have "drop (Suc i) ?xs = drop (Suc i) ys" using len by (intro nth_equalityI) simp_all
  moreover have "mset ?xs = mset ys" using swapAt_mset [of "Suc i" xs j] Suc.prems j(1) by simp
  ultimately obtain rand where r: "shuffleDown rand i ?xs = ys" using Suc.IH [of ?xs] Suc.prems(3) by auto
  have same: "shuffleDown (rand(Suc i := j)) k zs = shuffleDown rand k zs" if "k \<le> i" for k and zs :: "'a list"
    using that by (induction k arbitrary: zs) simp_all
  have "shuffleDown (rand(Suc i := j)) (Suc i) xs = ys" using r same [of i] j(1) by simp
  then show ?case by blast
qed

lemma anchors_28: "length (anchorEntries chromeTrustAnchorIds) = 28"
  by (simp add: chromeTrustAnchorIds_def)

text \<open>C39. The trust anchors sent are the 28 of the table, each whole and once, and every order of them is
  one that some sequence of random numbers produces.\<close>

theorem trust_anchors_shuffled:
  "(\<exists>rand. w = prepareTrustAnchors rand) \<longleftrightarrow> (\<exists>es. mset es = mset (anchorEntries chromeTrustAnchorIds) \<and> w = concat es)"
proof
  assume "\<exists>rand. w = prepareTrustAnchors rand"
  then obtain rand where "w = prepareTrustAnchors rand" ..
  then show "\<exists>es. mset es = mset (anchorEntries chromeTrustAnchorIds) \<and> w = concat es"
    using shuffle_mset [of "length (anchorEntries chromeTrustAnchorIds) - 1" "anchorEntries chromeTrustAnchorIds" rand]
    by (auto simp: prepareTrustAnchors_def Let_def anchors_28)
next
  assume "\<exists>es. mset es = mset (anchorEntries chromeTrustAnchorIds) \<and> w = concat es"
  then obtain es where es: "mset es = mset (anchorEntries chromeTrustAnchorIds)" "w = concat es" by blast
  then have "\<exists>rand. shuffleDown rand 27 (anchorEntries chromeTrustAnchorIds) = es"
    by (intro shuffle_onto) (simp_all add: anchors_28 mset_eq_length [OF es(1)])
  then show "\<exists>rand. w = prepareTrustAnchors rand" using es(2) by (auto simp: prepareTrustAnchors_def anchors_28)
qed

end
