(* ===== verification/FileReader.thy ===== *)
theory FileReader
  imports FlowControl
begin

text \<open>
  Reading a request from a file, \<open>src/utils/File.c\<close>: its lines without the blank ones and the
  comments. The file is the characters \<open>fgetc\<close> returns; both buffers grow by doubling.
\<close>

section \<open>Lines\<close>

definition isSpaceChar :: "char \<Rightarrow> bool" where
  "isSpaceChar c \<longleftrightarrow> c \<in> {CHR 0x20, CHR 0x09, CHR 0x0A, CHR 0x0B, CHR 0x0C, CHR 0x0D}"

definition shouldRemoveLine :: "string \<Rightarrow> bool" where
  "shouldRemoveLine line =
     (case dropWhile isSpaceChar line of
        [] \<Rightarrow> True
      | [c] \<Rightarrow> False
      | c # d # cs \<Rightarrow> c = CHR ''/'' \<and> d = CHR ''/'')"

definition isLineEnd :: "char \<Rightarrow> bool" where
  "isLineEnd c \<longleftrightarrow> c = CHR 0x0A \<or> c = CHR 0x0D"

text \<open>
  The loop of \<open>readLine\<close>: the characters read, the one that ended the line, the rest of the file;
  \<open>None\<close> when the buffer could not be enlarged.
\<close>

fun scanLine :: "(nat \<Rightarrow> bool) \<Rightarrow> nat \<Rightarrow> string \<Rightarrow> string \<Rightarrow> (string \<times> char option \<times> string) option" where
  "scanLine alloc cap buf [] = Some (buf, None, [])"
| "scanLine alloc cap buf (ch # cs) =
     (if isLineEnd ch then Some (buf, Some ch, cs)
      else if length buf + 1 \<ge> cap then
        (if \<not> alloc (cap * 2) then None else scanLine alloc (cap * 2) (buf @ [ch]) cs)
      else scanLine alloc cap (buf @ [ch]) cs)"

text \<open>The line and the rest; no line at the end of the file, and none without memory.\<close>

definition readLine :: "(nat \<Rightarrow> bool) \<Rightarrow> string \<Rightarrow> (string \<times> string) option" where
  "readLine alloc fp =
     (if \<not> alloc 128 then None
      else (case scanLine alloc 128 [] fp of
              None \<Rightarrow> None
            | Some (buf, ch, fp) \<Rightarrow>
                (let fp = (if ch = Some (CHR 0x0D) \<and> fp \<noteq> [] \<and> hd fp = CHR 0x0A then tl fp else fp)
                 in if buf = [] \<and> ch = None then None else Some (buf, fp))))"

lemma scanLine_rest: "scanLine alloc cap buf fp = Some (buf', ch, rest) \<Longrightarrow>
  length rest \<le> length fp \<and> (ch = None \<longrightarrow> length buf' = length buf + length fp) \<and> (ch \<noteq> None \<longrightarrow> length rest < length fp)"
  by (induction alloc cap buf fp rule: scanLine.induct) (auto split: if_splits)

lemma readLine_shorter:
  assumes "readLine alloc fp = Some (line, rest)"
  shows "length rest < length fp"
proof -
  obtain ch r where s: "scanLine alloc 128 [] fp = Some (line, ch, r)" "\<not> (line = [] \<and> ch = None)" "rest = r \<or> rest = tl r"
    using assms by (auto simp: readLine_def Let_def split: if_splits option.splits)
  have "length r < length fp"
  proof (cases ch)
    case None
    have "scanLine alloc cap buf xs = Some (buf', None, r) \<Longrightarrow> r = []" for cap buf buf' and xs
      by (induction alloc cap buf xs rule: scanLine.induct) (auto split: if_splits)
    then have "r = []" using s(1) [unfolded None] by simp
    then show ?thesis using scanLine_rest [OF s(1)] s(2) None by auto
  next
    case (Some c)
    then show ?thesis using scanLine_rest [OF s(1)] by simp
  qed
  then show ?thesis using s(3) by auto
qed

section \<open>The file\<close>

text \<open>A line with a NUL in it counts as the text before that.\<close>

function (sequential) collectLines :: "(nat \<Rightarrow> bool) \<Rightarrow> nat \<Rightarrow> string \<Rightarrow> string \<Rightarrow> string option" where
  "collectLines alloc capacity result fp =
     (case readLine alloc fp of
        None \<Rightarrow> Some result
      | Some (line, fp) \<Rightarrow>
          (let line = takeWhile (\<lambda>c. c \<noteq> CHR 0x00) line
           in if shouldRemoveLine line then collectLines alloc capacity result fp
              else if length result + length line + 2 > capacity then
                (let capacity = growCapacity capacity (length result + length line + 2)
                 in if \<not> alloc capacity then None else collectLines alloc capacity (result @ line @ [CHR 0x0A]) fp)
              else collectLines alloc capacity (result @ line @ [CHR 0x0A]) fp))"
  by pat_completeness auto
termination by (relation "measure (\<lambda>(_, _, _, fp). length fp)") (auto dest: readLine_shorter)

declare collectLines.simps [simp del]

definition readFromFile :: "(nat \<Rightarrow> bool) \<Rightarrow> string option \<Rightarrow> string option" where
  "readFromFile alloc file =
     (case file of None \<Rightarrow> None | Some fp \<Rightarrow> if \<not> alloc 1024 then None else collectLines alloc 1024 [] fp)"

section \<open>What it reads\<close>

text \<open>The lines of a text, ended by LF, CR or CR LF; the last one may be unended.\<close>

function fileLines :: "string \<Rightarrow> string list" where
  "fileLines s =
     (if s = [] then []
      else takeWhile (\<lambda>c. \<not> isLineEnd c) s #
        fileLines (case dropWhile (\<lambda>c. \<not> isLineEnd c) s of
                     [] \<Rightarrow> []
                   | c # cs \<Rightarrow> if c = CHR 0x0D \<and> cs \<noteq> [] \<and> hd cs = CHR 0x0A then tl cs else cs))"
  by pat_completeness auto
termination
proof (relation "measure length", goal_cases)
  case (2 s)
  have "length (dropWhile (\<lambda>c. \<not> isLineEnd c) s) \<le> length s" by (rule length_dropWhile_le)
  then show ?case using 2 by (auto split: list.splits)
qed simp

declare fileLines.simps [simp del]

definition requestText :: "string \<Rightarrow> string" where
  "requestText s = concat (map (\<lambda>l. l @ [CHR 0x0A])
     (filter (\<lambda>l. \<not> shouldRemoveLine l) (map (takeWhile (\<lambda>c. c \<noteq> CHR 0x00)) (fileLines s))))"

lemma scanLine_ok:
  "scanLine (\<lambda>_. True) cap buf fp = Some (buf @ takeWhile (\<lambda>c. \<not> isLineEnd c) fp,
     (case dropWhile (\<lambda>c. \<not> isLineEnd c) fp of [] \<Rightarrow> None | c # cs \<Rightarrow> Some c), tl (dropWhile (\<lambda>c. \<not> isLineEnd c) fp))"
  by (induction fp arbitrary: cap buf) (auto split: list.splits)

lemma file_line_ok:
  "readLine (\<lambda>_. True) fp = (if fp = [] then None else Some (takeWhile (\<lambda>c. \<not> isLineEnd c) fp,
     case dropWhile (\<lambda>c. \<not> isLineEnd c) fp of
       [] \<Rightarrow> [] | c # cs \<Rightarrow> if c = CHR 0x0D \<and> cs \<noteq> [] \<and> hd cs = CHR 0x0A then tl cs else cs))"
proof (cases "dropWhile (\<lambda>c. \<not> isLineEnd c) fp")
  case Nil
  then have "takeWhile (\<lambda>c. \<not> isLineEnd c) fp = fp" by (metis append.right_neutral takeWhile_dropWhile_id)
  then show ?thesis unfolding readLine_def scanLine_ok Nil by (cases fp) auto
next
  case (Cons c cs)
  then have "fp \<noteq> []" by auto
  then show ?thesis unfolding readLine_def scanLine_ok Cons by (simp add: Let_def)
qed

lemma collectLines_ok:
  "collectLines (\<lambda>_. True) capacity result fp = Some (result @ requestText fp)"
proof (induction fp arbitrary: capacity result rule: fileLines.induct)
  case (1 s)
  show ?case
  proof (cases "s = []")
    case True
    then show ?thesis by (simp add: collectLines.simps file_line_ok requestText_def fileLines.simps)
  next
    case False
    note IH = 1 [OF False]
    show ?thesis using False
      by (subst collectLines.simps) (simp add: file_line_ok IH Let_def requestText_def fileLines.simps [of s])
  qed
qed

text \<open>A file is read as its lines, however they are ended, less blank lines and lines that begin with
  two slashes, each ended by one LF, when there is memory for it.\<close>

theorem file_read_correct: "readFromFile (\<lambda>_. True) (Some s) = Some (requestText s)"
  by (simp add: readFromFile_def collectLines_ok)

text \<open>A line there is no memory for is taken for the end of the file: what was read so far is returned.\<close>

lemma short_memory_ends_file: "scanLine alloc 128 [] fp = None \<Longrightarrow> collectLines alloc capacity result fp = Some result"
  by (simp add: collectLines.simps readLine_def)

end
