(* ===== verification/RequestLog.thy ===== *)
theory RequestLog
  imports Http11Request RequestBasket ClientResult
begin

text \<open>
  Two texts made from a request: the log of an HTTP/2 request (\<open>src/Http2RequestHandler.c\<close>), and the
  JSON request with its mode pinned, which the language bindings send (\<open>setNonBlocking\<close> of
  \<open>src/Basket.c\<close>).
\<close>

section \<open>The log of an HTTP/2 request\<close>

text \<open>The last pseudo header of a name counts. A longer request line is read past its array.\<close>

definition pseudoValue :: "string \<Rightarrow> reqHeader list \<Rightarrow> string" where
  "pseudoValue name hs = fold (\<lambda>h v. if rh_isPseudo h \<and> strcaseeq (rh_name h) name then rh_value h else v) hs []"

definition appendHttp2DebugRequestLine :: "(nat \<Rightarrow> bool) \<Rightarrow> reqHeader list \<Rightarrow> strBuf \<Rightarrow> strBuf option" where
  "appendHttp2DebugRequestLine alloc hs sb =
     (let requestLine = pseudoValue '':method'' hs @ '' '' @ pseudoValue '':path'' hs @ '' HTTP/2'' @ [CHR 0x0A]
      in if length requestLine < 4608 then Some (sbAppendStr alloc requestLine sb) else None)"

definition appendHttp2DebugHeader :: "(nat \<Rightarrow> bool) \<Rightarrow> reqHeader \<Rightarrow> strBuf \<Rightarrow> strBuf" where
  "appendHttp2DebugHeader alloc h sb =
     (if \<not> rh_isPseudo h \<and> strcaseeq (rh_name h) ''connection'' then sb
      else sbAppendStr alloc [CHR 0x0A] (sbAppendStr alloc (rh_value h) (sbAppendStr alloc '': '' (sbAppendStr alloc (rh_name h) sb))))"

definition appendHttp2DebugHeaders :: "(nat \<Rightarrow> bool) \<Rightarrow> reqHeader list \<Rightarrow> strBuf \<Rightarrow> strBuf" where
  "appendHttp2DebugHeaders alloc hs sb = fold (appendHttp2DebugHeader alloc) hs sb"

definition buildHttp2RequestDebug :: "(nat \<Rightarrow> bool) \<Rightarrow> reqHeader list \<Rightarrow> string option option" where
  "buildHttp2RequestDebug alloc hs =
     (case appendHttp2DebugRequestLine alloc hs emptyBuf of
        None \<Rightarrow> None
      | Some sb \<Rightarrow> (let sb = appendHttp2DebugHeaders alloc hs sb in Some (if sb_failed sb then None else Some (sb_data sb))))"

text \<open>What is logged, if anything.\<close>

definition logHttp2Request :: "bool \<Rightarrow> (nat \<Rightarrow> bool) \<Rightarrow> reqHeader list \<Rightarrow> string option option" where
  "logHttp2Request enabled alloc hs = (if \<not> enabled then Some None else buildHttp2RequestDebug alloc hs)"

lemma appendStr_true [simp]:
  "\<not> sb_failed sb \<Longrightarrow> sb_data (sbAppendStr (\<lambda>_. True) s sb) = sb_data sb @ s"
  "\<not> sb_failed sb \<Longrightarrow> \<not> sb_failed (sbAppendStr (\<lambda>_. True) s sb)"
  by (simp_all add: sbAppendStr_def sbReserve_def Let_def)

text \<open>
  The headers of the log are those of the HEADERS frame, in their order: the encoder treats the list
  without the regular \<open>connection\<close> headers as it treats the whole.
\<close>

definition wireHeaders :: "reqHeader list \<Rightarrow> reqHeader list" where
  "wireHeaders hs = filter (\<lambda>h. rh_isPseudo h \<or> \<not> strcaseeq (rh_name h) ''connection'') hs"

lemma hpack_wireHeaders: "hpackAll (wireHeaders hs) = hpackAll hs"
  by (induction hs) (auto simp: wireHeaders_def split: option.splits prod.splits)

lemma debugHeaders_data:
  "\<not> sb_failed sb \<Longrightarrow> \<not> sb_failed (appendHttp2DebugHeaders (\<lambda>_. True) hs sb)
    \<and> sb_data (appendHttp2DebugHeaders (\<lambda>_. True) hs sb)
      = sb_data sb @ concat (map (\<lambda>h. rh_name h @ '': '' @ rh_value h @ [CHR 0x0A]) (wireHeaders hs))"
  by (induction hs arbitrary: sb) (auto simp: appendHttp2DebugHeaders_def appendHttp2DebugHeader_def wireHeaders_def)

lemma request_log_text:
  assumes "length (pseudoValue '':method'' hs) + length (pseudoValue '':path'' hs) < 4599"
  shows "logHttp2Request True (\<lambda>_. True) hs = Some (Some (pseudoValue '':method'' hs @ '' '' @ pseudoValue '':path'' hs @ '' HTTP/2'' @ [CHR 0x0A]
    @ concat (map (\<lambda>h. rh_name h @ '': '' @ rh_value h @ [CHR 0x0A]) (wireHeaders hs))))"
proof -
  let ?line = "pseudoValue '':method'' hs @ '' '' @ pseudoValue '':path'' hs @ '' HTTP/2'' @ [CHR 0x0A]"
  let ?sb = "sbAppendStr (\<lambda>_. True) ?line emptyBuf"
  have e: "\<not> sb_failed emptyBuf" "sb_data emptyBuf = []" by (simp_all add: emptyBuf_def)
  then have "\<not> sb_failed ?sb" "sb_data ?sb = ?line" by simp_all
  moreover have "appendHttp2DebugRequestLine (\<lambda>_. True) hs emptyBuf = Some ?sb"
    using assms by (simp add: appendHttp2DebugRequestLine_def)
  ultimately show ?thesis using debugHeaders_data [of ?sb hs]
    unfolding logHttp2Request_def buildHttp2RequestDebug_def by (simp add: Let_def)
qed

text \<open>A request that brings its own long path overruns the array of the line once the log is on.\<close>

lemma debug_line_overreads:
  "length (pseudoValue '':path'' hs) \<ge> 4608 \<Longrightarrow> logHttp2Request True alloc hs = None"
  by (simp add: logHttp2Request_def buildHttp2RequestDebug_def appendHttp2DebugRequestLine_def)

section \<open>Pinning the mode\<close>

text \<open>\<open>compact\<close> is \<open>json_dumps\<close> with \<open>JSON_COMPACT\<close>.\<close>

definition setNonBlocking :: "'j jansson \<Rightarrow> 'j jsonBuilder \<Rightarrow> ('j \<Rightarrow> string option) \<Rightarrow> string \<Rightarrow> int \<Rightarrow> string option" where
  "setNonBlocking J B compact requestJSONString nonBlocking =
     (case js_loads J requestJSONString of
        None \<Rightarrow> None
      | Some jsonRequest \<Rightarrow> compact (jb_set B jsonRequest ''non-blocking'' (Some (jb_integer B (if nonBlocking \<noteq> 0 then 1 else 0)))))"

lemma whenOk_cases: "whenOk f b = Some b' \<Longrightarrow> b' = b \<or> f b = Some b'"
  by (auto simp: whenOk_def split: if_splits)

lemma parseProxy_mode: "parseProxy J j b = Some b' \<Longrightarrow> rb_nonBlocking b' = rb_nonBlocking b"
  by (auto simp: parseProxy_def Let_def split: option.splits if_splits)

text \<open>
  Whatever mode the caller's JSON asks for, the request runs in the pinned one. The laws are
  jansson's: text that was printed parses to the object, the member that was set is found with its
  integer.
\<close>

lemma pinned_mode:
  assumes "setNonBlocking J B compact s n = Some t" "buildBasket J ipv4 ipv6 t = Some b"
    and laws: "\<And>j t. compact j = Some t \<Longrightarrow> js_loads J t = Some j"
      "\<And>j i. js_get J (jb_set B j ''non-blocking'' (Some (jb_integer B i))) ''non-blocking'' = Some (jb_integer B i)"
      "\<And>i. js_integer J (jb_integer B i) = i"
  shows "rb_nonBlocking b \<longleftrightarrow> n \<noteq> 0"
proof -
  obtain j where "compact (jb_set B j ''non-blocking'' (Some (jb_integer B (if n \<noteq> 0 then 1 else 0)))) = Some t"
    using assms(1) by (auto simp: setNonBlocking_def split: option.splits)
  then have l: "js_loads J t = Some (jb_set B j ''non-blocking'' (Some (jb_integer B (if n \<noteq> 0 then 1 else 0))))" by (rule laws(1))
  have opts: "rb_nonBlocking (parseOptions J (js_loads J t) b0) \<longleftrightarrow> n \<noteq> 0" for b0
    by (simp add: parseOptions_def Let_def l jgetq_def jintq_def laws(2,3))
  obtain b0 where "whenOk (parseProxy J (js_loads J t)) (parseOptions J (js_loads J t) b0) = Some b"
    using assms(2) by (auto simp: buildBasket_def Let_def split: option.splits)
  then show ?thesis using opts whenOk_cases parseProxy_mode by metis
qed

end
