(* ===== verification/JavaBridge.thy ===== *)
theory JavaBridge
  imports ClientRun RequestLog
begin

text \<open>
  The bridge to Java, \<open>java/HttpClient.c\<close>: running blocking and non-blocking requests, collecting
  responses of any size through a buffer of 1 MB, and the listeners of streamed responses, which
  have to outlive their requests. The calls into the Java machine are parameters; a listener is the
  address of its context.
\<close>

section \<open>Collecting a response\<close>

definition BRIDGE_BUFFER_SIZE :: int where
  "BRIDGE_BUFFER_SIZE = 1024 * 1024"

text \<open>What a buffer holds: nothing to hand back, a text, or memory nobody wrote.\<close>

datatype bridgeText = BridgeNothing | BridgeText string | BridgeUninitialised

definition handBack :: "int \<Rightarrow> int \<Rightarrow> string option \<Rightarrow> bridgeText" where
  "handBack status outLen buffer =
     (if status = 0 \<or> outLen \<le> 0 then BridgeNothing
      else case buffer of None \<Rightarrow> BridgeUninitialised | Some t \<Rightarrow> BridgeText t)"

text \<open>
  \<open>env\<close> and \<open>env'\<close> are the environments of the two calls. The status and the text; \<open>None\<close> is an access
  to freed memory or a capacity that overflows.
\<close>

definition collectResponse ::
    "'z clientEnv \<Rightarrow> 'z clientEnv \<Rightarrow> 'j collectEnv \<Rightarrow> bool \<Rightarrow> bool \<Rightarrow> nat option \<Rightarrow> 'z client \<Rightarrow> ('z client \<times> int \<times> bridgeText) option" where
  "collectResponse env env' C mallocOk reallocOk handle cl =
     (if \<not> mallocOk then Some (cl, 0, BridgeNothing)
      else (case handleResponse env C handle True BRIDGE_BUFFER_SIZE cl of
              None \<Rightarrow> None
            | Some (cl, status, outLen, buffer) \<Rightarrow>
                if status = 2 then
                  (if \<not> reallocOk then Some (cl, 0, BridgeNothing)
                   else if outLen + 1 \<ge> 2 ^ 31 then None
                   else map_option (\<lambda>(cl, status, outLen, buffer). (cl, status, handBack status outLen buffer))
                          (handleResponse env' C handle True (outLen + 1) cl))
                else Some (cl, status, handBack status outLen buffer)))"

section \<open>Listeners\<close>

text \<open>
  \<open>streamContexts\<close> as the list of what waits for a poll, the newest first, and the contexts freed so
  far, in their order.
\<close>

record jniBridge =
  br_contexts :: "(nat \<times> nat) list"
  br_freed :: "nat list"

definition freeStreamContext :: "nat option \<Rightarrow> jniBridge \<Rightarrow> jniBridge" where
  "freeStreamContext ctx br = (case ctx of None \<Rightarrow> br | Some c \<Rightarrow> br\<lparr>br_freed := br_freed br @ [c]\<rparr>)"

definition registerStreamContext :: "bool \<Rightarrow> nat \<Rightarrow> nat \<Rightarrow> jniBridge \<Rightarrow> jniBridge" where
  "registerStreamContext entryOk requestId ctx br =
     (if \<not> entryOk then br else br\<lparr>br_contexts := (requestId, ctx) # br_contexts br\<rparr>)"

definition takeStreamContext :: "nat \<Rightarrow> jniBridge \<Rightarrow> jniBridge \<times> nat option" where
  "takeStreamContext requestId br =
     (case findIndex (\<lambda>e. fst e = requestId) (br_contexts br) of
        None \<Rightarrow> (br, None)
      | Some i \<Rightarrow> (br\<lparr>br_contexts := take i (br_contexts br) @ drop (Suc i) (br_contexts br)\<rparr>, Some (snd (br_contexts br ! i))))"

definition clearStreamContexts :: "jniBridge \<Rightarrow> jniBridge" where
  "clearStreamContexts br = fold (\<lambda>e. freeStreamContext (Some (snd e))) (br_contexts br) (br\<lparr>br_contexts := []\<rparr>)"

text \<open>A listener is taken whole or refused with an exception; \<open>c\<close> is the address of its context.\<close>

definition createStreamContext :: "bool \<Rightarrow> bool \<Rightarrow> bool \<Rightarrow> bool \<Rightarrow> bool \<Rightarrow> nat \<Rightarrow> bool \<Rightarrow> nat option \<times> string option" where
  "createStreamContext listener classOk ctxOk methodsOk vmOk c refOk =
     (if \<not> listener \<or> \<not> classOk then (None, None)
      else if \<not> ctxOk \<or> \<not> methodsOk then (None, Some ''listener must implement onHeaders, onData and onComplete'')
      else if \<not> vmOk then (None, Some ''cannot reach the JVM from the response callbacks'')
      else if \<not> refOk then (None, Some ''cannot keep the listener alive for the response'')
      else (Some c, None))"

section \<open>Callbacks\<close>

text \<open>
  The map the listener gets: a repeated name keeps its place and takes the last value. The verdict
  of the listener counts unless it cannot be reached or has thrown.
\<close>

definition mapPut :: "string \<times> string \<Rightarrow> (string \<times> string) list \<Rightarrow> (string \<times> string) list" where
  "mapPut e m = (case findIndex (\<lambda>x. fst x = fst e) m of None \<Rightarrow> m @ [e] | Some i \<Rightarrow> m[i := e])"

definition onStreamHeaders :: "header list \<Rightarrow> (string \<times> string) list" where
  "onStreamHeaders headers = fold mapPut headers []"

definition onStreamData :: "bool \<Rightarrow> bool \<Rightarrow> bool \<Rightarrow> bool \<Rightarrow> bool" where
  "onStreamData attached chunkOk verdict thrown = (if \<not> attached then True else if thrown then True else chunkOk \<and> verdict)"

text \<open>\<open>verdict\<close> is what the listener answers to a chunk, by the callbacks made before.\<close>

definition buildStreamContract :: "(nat \<Rightarrow> event list \<Rightarrow> bytes \<Rightarrow> bool) \<Rightarrow> nat option \<Rightarrow> responseContract" where
  "buildStreamContract verdict ctx =
     (case ctx of
        None \<Rightarrow> \<lparr>rc_onHeaders = False, rc_onData = None, rc_onComplete = False\<rparr>
      | Some c \<Rightarrow> \<lparr>rc_onHeaders = True, rc_onData = Some (verdict c), rc_onComplete = True\<rparr>)"

section \<open>Requests\<close>

text \<open>
  What one call of the bridge gets: the text of the Java string, the address of the basket, the
  worlds of the two attempts, and whether allocations succeed.
\<close>

record ('z, 'j) bridgeCall =
  bc_text :: "string option"
  bc_basket :: nat
  bc_env :: "'z clientEnv"
  bc_env' :: "'z clientEnv"
  bc_world :: "'z attemptEnv"
  bc_world' :: "'z attemptEnv"
  bc_basketOk :: bool
  bc_sinkOk :: bool
  bc_entryOk :: bool
  bc_mallocOk :: bool
  bc_reallocOk :: bool

record 'j bridgeLib =
  bl_json :: "'j jansson"
  bl_builder :: "'j jsonBuilder"
  bl_compact :: "'j \<Rightarrow> string option"
  bl_ipv4 :: "string \<Rightarrow> bool"
  bl_ipv6 :: "string \<Rightarrow> bool"
  bl_collect :: "'j collectEnv"
  bl_verdict :: "nat \<Rightarrow> event list \<Rightarrow> bytes \<Rightarrow> bool"

text \<open>
  The part every kind of request shares: the mode is pinned and the request handed to the
  library. The handle is \<open>None\<close> when it was refused.
\<close>

definition sendPinned :: "'j bridgeLib \<Rightarrow> ('z, 'j) bridgeCall \<Rightarrow> int \<Rightarrow> responseContract option \<Rightarrow> 'z client \<Rightarrow> ('z client \<times> nat option) option" where
  "sendPinned L call nonBlocking contract cl =
     (case Option.bind (bc_text call) (\<lambda>s. setNonBlocking (bl_json L) (bl_builder L) (bl_compact L) s nonBlocking) of
        None \<Rightarrow> Some (cl, None)
      | Some json \<Rightarrow>
          (case buildBasket (bl_json L) (bl_ipv4 L) (bl_ipv6 L) json of
             None \<Rightarrow> None
           | Some b \<Rightarrow>
               handleRequest (bc_env call) (ce_base64 (bl_collect L)) (bc_world call) (bc_world' call) (bc_sinkOk call) (bc_basket call)
                 (if bc_basketOk call then Some b else None) contract cl))"

definition sendRequest :: "'j bridgeLib \<Rightarrow> ('z, 'j) bridgeCall \<Rightarrow> int \<Rightarrow> nat option \<Rightarrow> 'z client \<Rightarrow> ('z client \<times> nat option) option" where
  "sendRequest L call nonBlocking ctx cl =
     sendPinned L call nonBlocking (if ctx \<noteq> None then Some (buildStreamContract (bl_verdict L) ctx) else None) cl"

definition runBlockingRequest :: "'j bridgeLib \<Rightarrow> ('z, 'j) bridgeCall \<Rightarrow> nat option \<Rightarrow> 'z client \<times> jniBridge
      \<Rightarrow> ('z client \<times> jniBridge \<times> bridgeText) option" where
  "runBlockingRequest L call ctx st =
     (case sendRequest L call 0 ctx (fst st) of
        None \<Rightarrow> None
      | Some (cl, None) \<Rightarrow> Some (cl, freeStreamContext ctx (snd st), BridgeNothing)
      | Some (cl, Some handle) \<Rightarrow>
          map_option (\<lambda>(cl, status, json). (cl, freeStreamContext ctx (snd st), json))
            (collectResponse (bc_env call) (bc_env' call) (bl_collect L) (bc_mallocOk call) (bc_reallocOk call) (Some handle) cl))"

definition startAsyncRequest :: "'j bridgeLib \<Rightarrow> ('z, 'j) bridgeCall \<Rightarrow> nat option \<Rightarrow> 'z client \<times> jniBridge
      \<Rightarrow> ('z client \<times> jniBridge \<times> nat option) option" where
  "startAsyncRequest L call ctx st =
     (case sendRequest L call 1 ctx (fst st) of
        None \<Rightarrow> None
      | Some (cl, None) \<Rightarrow> Some (cl, freeStreamContext ctx (snd st), None)
      | Some (cl, Some handle) \<Rightarrow>
          Some (cl, case ctx of None \<Rightarrow> snd st | Some c \<Rightarrow> registerStreamContext (bc_entryOk call) handle c (snd st), Some handle))"

text \<open>A poll frees the listener once the request is over.\<close>

definition nativePollRequest :: "'j bridgeLib \<Rightarrow> ('z, 'j) bridgeCall \<Rightarrow> nat \<Rightarrow> 'z client \<times> jniBridge
      \<Rightarrow> ('z client \<times> jniBridge \<times> int \<times> bridgeText) option" where
  "nativePollRequest L call handle st =
     map_option (\<lambda>(cl, status, json).
         (cl, if status = 1 \<or> status = -1 then (case takeStreamContext handle (snd st) of (br, ctx) \<Rightarrow> freeStreamContext ctx br) else snd st,
          status, json))
       (collectResponse (bc_env call) (bc_env' call) (bl_collect L) (bc_mallocOk call) (bc_reallocOk call) (Some handle) (fst st))"

text \<open>\<open>cleanupEnv\<close> of \<open>src/HttpClient.c\<close>, without the cache of TLS sessions, and the contexts left.\<close>

definition cleanupEnv :: "(nat \<Rightarrow> bool) \<Rightarrow> int \<Rightarrow> 'z client \<Rightarrow> 'z client option" where
  "cleanupEnv alive now cl = map_option (\<lambda>cl. cl\<lparr>cl_pool := cleanupSessions alive now True (cl_pool cl)\<rparr>) (cleanupAsyncRequests cl)"

definition nativeCleanup :: "(nat \<Rightarrow> bool) \<Rightarrow> int \<Rightarrow> 'z client \<times> jniBridge \<Rightarrow> ('z client \<times> jniBridge) option" where
  "nativeCleanup alive now st = map_option (\<lambda>cl. (cl, clearStreamContexts (snd st))) (cleanupEnv alive now (fst st))"

end
