(* ===== verification/JavaBridgeProps.thy ===== *)
theory JavaBridgeProps
  imports JavaBridge
begin

text \<open>
  What the Java bridge promises: a finished response reaches Java whole, whatever its size, and a
  listener is freed once and not while it waits for its request.
\<close>

section \<open>Responses\<close>

text \<open>C34. Polling a request whose response has ended hands Java the whole text, also when it is longer than
  the buffer of the bridge, frees the request, and releases its listener.\<close>

theorem bridge_collects_response:
  assumes "clientOk cl" "pendingAt cl h b i q" "streamOf cl b q = Some st" "st_isEnded st"
    and "movedOut (bc_env call) (bl_collect L) b st b1 st1" "resultText (bl_collect L) cl b1 s" "s \<noteq> []" "length s + 1 < 2 ^ 31"
    and "bc_mallocOk call" "bc_reallocOk call"
  shows "\<exists>cl'. nativePollRequest L call h (cl, br)
      = Some (cl', (case takeStreamContext h br of (br, ctx) \<Rightarrow> freeStreamContext ctx br), 1, BridgeText s) \<and> handedOver cl h i q cl'"
proof -
  have "length s < 2 ^ 31" "(0::int) < BRIDGE_BUFFER_SIZE" using assms(8) by (simp_all add: BRIDGE_BUFFER_SIZE_def)
  note p = poll_twice [OF assms(1-6) this]
  have hb: "handBack 1 (int (length s)) (Some s) = BridgeText s" using assms(7) by (simp add: handBack_def)
  have "\<exists>cl'. collectResponse (bc_env call) (bc_env' call) (bl_collect L) True True (Some h) cl = Some (cl', 1, BridgeText s) \<and> handedOver cl h i q cl'"
  proof (cases "int (length s) < BRIDGE_BUFFER_SIZE")
    case True
    then show ?thesis using p hb by (auto simp: collectResponse_def)
  next
    case False
    then obtain cl1 where one: "handleResponse (bc_env call) (bl_collect L) (Some h) True BRIDGE_BUFFER_SIZE cl = Some (cl1, 2, int (length s), None)"
      "\<forall>env' capacity'. int (length s) < capacity' \<longrightarrow> (\<exists>cl''. handleResponse env' (bl_collect L) (Some h) True capacity' cl1
          = Some (cl'', 1, int (length s), Some s) \<and> handedOver cl h i q cl'')" using p by auto
    then obtain cl2 where "handleResponse (bc_env' call) (bl_collect L) (Some h) True (int (length s) + 1) cl1 = Some (cl2, 1, int (length s), Some s)"
      "handedOver cl h i q cl2" by (metis less_add_one)
    moreover have "\<not> int (length s) + 1 \<ge> 2 ^ 31" using assms(8) by simp
    ultimately show ?thesis using one(1) hb by (simp add: collectResponse_def)
  qed
  then show ?thesis using assms(9,10) by (auto simp: nativePollRequest_def)
qed

definition sampleCall :: "(bytes \<times> nat, unit) bridgeCall" where
  "sampleCall = undefined\<lparr>bc_mallocOk := True, bc_reallocOk := True\<rparr>"

definition sampleLib :: "unit bridgeLib" where
  "sampleLib = undefined\<lparr>bl_collect := sampleCollect\<rparr>"

lemma bridge_collects_response_witness:
  "\<exists>cl'. nativePollRequest sampleLib sampleCall 9 (sampleClient, \<lparr>br_contexts = [(9, 4)], br_freed = []\<rparr>)
     = Some (cl', \<lparr>br_contexts = [], br_freed = [4]\<rparr>, 1, BridgeText ''{}'')"
proof -
  have L: "bl_collect sampleLib = sampleCollect" "bc_mallocOk sampleCall" "bc_reallocOk sampleCall" by (simp_all add: sampleLib_def sampleCall_def)
  have "\<exists>cl'. nativePollRequest sampleLib sampleCall 9 (sampleClient, \<lparr>br_contexts = [(9, 4)], br_freed = []\<rparr>)
      = Some (cl', (case takeStreamContext 9 \<lparr>br_contexts = [(9, 4)], br_freed = []\<rparr> of (br, ctx) \<Rightarrow> freeStreamContext ctx br), 1, BridgeText ''{}'')
      \<and> handedOver sampleClient 9 0 7 cl'"
    by (rule bridge_collects_response [where L = sampleLib, unfolded L, OF sampleClient_ok _ sample_moved sample_text]) (simp_all add: L)
  then show ?thesis by (auto simp: takeStreamContext_def freeStreamContext_def)
qed

section \<open>What the library does to the baskets\<close>

lemma claim_baskets: "claimResult h cl = Some cl' \<Longrightarrow> \<exists>x. cl_baskets cl' = (cl_baskets cl)(h := x)"
proof -
  assume run: "claimResult h cl = Some cl'"
  show ?thesis
  proof (cases "asyncFindSlotByBasket h cl")
    case None
    then show ?thesis using run by (auto simp: claimResult_def intro: exI [of _ "cl_baskets cl h"])
  next
    case (Some i)
    have "ae_basket (cl_entries cl ! i) = Some h" using findIndex_SomeD [OF Some [unfolded asyncFindSlotByBasket_def]] by simp
    then show ?thesis using run Some
      by (auto simp: claimResult_def releaseClaim_def asyncDetachSlot_def Let_def releaseStream_def onConn_def freeBasket_def split: option.splits)
  qed
qed

lemma copy_baskets: "copyResult C capacity h b cl = Some (cl', code, len, out) \<Longrightarrow> \<exists>b'. cl_baskets cl' = (cl_baskets cl)(h \<mapsto> b')"
  by (erule copyResult_store) (auto simp: storeBasket_def)

lemma collect_baskets:
  assumes "collectFinished env C capacity h stream timedOut b cl = Some (cl', code, len, out)"
  shows "\<exists>x. cl_baskets cl' = (cl_baskets cl)(h := x) \<and> (x = None \<longrightarrow> code = 1 \<or> code = -1)"
proof -
  obtain b1 cl1 where s: "(case stream of None \<Rightarrow> Some (b, cl)
            | Some (p, st) \<Rightarrow>
                if failed (rb_error b) then Some (b, cl)
                else map_option (\<lambda>(b', st). (b', putStream b p st cl)) (finalizeStreamIntoBasket (ev_alloc env) (ev_lib env) (ce_base64 C) b st)) = Some (b1, cl1)"
    using assms by (auto simp: collectFinished_def split: option.splits)
  have one: "cl_baskets cl1 = cl_baskets cl"
    using s by (auto simp: putStream_def onConn_def split: option.splits if_splits prod.splits)
  obtain cl2 code2 where c: "copyResult C capacity h b1 cl1 = Some (cl2, code2, len, out)" "(if code2 = 1 then claimResult h cl2 else Some cl2) = Some cl'"
      "code = (if timedOut then -1 else code2)"
    using assms s by (auto simp: collectFinished_def split: option.splits)
  obtain b' where b': "cl_baskets cl2 = (cl_baskets cl)(h \<mapsto> b')" using copy_baskets [OF c(1)] one by auto
  show ?thesis
  proof (cases "code2 = 1")
    case True
    then obtain x where "cl_baskets cl' = (cl_baskets cl2)(h := x)" using c(2) claim_baskets [of h cl2 cl'] by auto
    then show ?thesis using b' c(3) True by auto
  next
    case False
    then show ?thesis using b' c(2) by auto
  qed
qed

lemma response_baskets:
  assumes "handleResponse env C (Some h) dest capacity cl = Some (cl', code, len, out)"
  shows "\<exists>x. cl_baskets cl' = (cl_baskets cl)(h := x) \<and> (cl_baskets cl h \<noteq> None \<and> x = None \<longrightarrow> code = 1 \<or> code = -1)"
proof (cases "\<not> dest \<or> capacity \<le> 0")
  case True
  then show ?thesis using assms by (auto simp: handleResponse_def intro: exI [of _ "cl_baskets cl h"])
next
  case f: False
  then obtain b where b: "cl_baskets cl h = Some b" using assms by (auto simp: handleResponse_def split: option.splits)
  have same: "\<exists>x. cl_baskets cl = (cl_baskets cl)(h := x) \<and> x \<noteq> None" using b by (intro exI [of _ "Some b"]) auto
  show ?thesis
  proof (cases "rb_nonBlocking b")
    case False
    then obtain cl1 where c: "copyResult C capacity h b cl = Some (cl1, code, len, out)" "cl' = (if code = 1 then freeBasket h cl1 else cl1)"
      using assms b f by (auto simp: handleResponse_def handleResponseSync_def)
    then show ?thesis using copy_baskets [OF c(1)] by (auto simp: freeBasket_def)
  next
    case True
    then have run: "handleResponseAsync env C capacity h b cl = Some (cl', code, len, out)" using assms b f by (simp add: handleResponse_def)
    show ?thesis
    proof (cases "asyncFindSlotByBasket h cl")
      case None
      then show ?thesis using run same by (auto simp: handleResponseAsync_def)
    next
      case (Some i)
      define e where "e = cl_entries cl ! i"
      obtain stream where st: "(case ae_stream e of None \<Rightarrow> Some None | Some p \<Rightarrow> map_option (\<lambda>st. Some (p, st)) (streamOf cl b p)) = Some stream"
        using run Some by (auto simp: handleResponseAsync_def Let_def e_def split: option.splits)
      obtain done' timedOut b' where p: "pollOutcome (ev_now env) b (map_option snd stream) (ae_startTime e) = (done', timedOut, b')" by (metis prod_cases3)
      have run': "(if \<not> done' then Some (cl, 0, 0, None) else collectFinished env C capacity h stream timedOut b' (storeBasket h b' cl)) = Some (cl', code, len, out)"
        using run unfolding handleResponseAsync_def Some option.case Let_def e_def [symmetric] st p prod.case .
      then show ?thesis using same collect_baskets [of env C capacity h stream timedOut b' "storeBasket h b' cl" cl' code len out]
        by (auto simp: storeBasket_def split: if_splits)
    qed
  qed
qed

lemma alloc_baskets: "asyncAllocEntry now cl = (cl', r) \<Longrightarrow> cl_baskets cl' = cl_baskets cl \<and> cl_pool cl' = cl_pool cl"
  by (auto simp: asyncAllocEntry_def asyncAllocSlot_def Let_def split: option.splits)

lemma async_baskets:
  assumes "poolSound (cl_pool cl)" "worldsOk A A' cl" "ex_session b = None"
    and run: "handleRequestAsync env base64 A A' h b (storeBasket h b cl) = Some (cl', r)"
  shows "\<exists>x. cl_baskets cl' = (cl_baskets cl)(h := x) \<and> (\<forall>k. r = Some k \<longrightarrow> k = h \<and> x \<noteq> None)"
proof -
  obtain cl1 slot where al: "asyncAllocEntry (ev_now env) (storeBasket h b cl) = (cl1, slot)" by fastforce
  note same = alloc_baskets [OF al]
  show ?thesis
  proof (cases slot)
    case None
    then show ?thesis using run al same by (auto simp: handleRequestAsync_def freeBasket_def storeBasket_def)
  next
    case (Some i)
    define b0 where "b0 = b\<lparr>ex_requestId := ae_requestId (cl_entries cl1 ! i)\<rparr>"
    obtain cl2 b2 r2 where s: "(if failed (rb_error b0) then Some (cl1, b0, None) else startRequest env base64 A A' b0 cl1) = Some (cl2, b2, r2)"
      "cl' = asyncPublish (ev_now env) i h (if failed (rb_error b2) then None else r2) (storeBasket h b2 cl2)" "r = Some h"
      using run unfolding handleRequestAsync_def al Some Let_def prod.case option.case b0_def [symmetric]
      by (cases "if failed (rb_error b0) then Some (cl1, b0, None) else startRequest env base64 A A' b0 cl1") auto
    have ok: "poolSound (cl_pool cl1)" "worldsOk A A' cl1" "ex_session b0 = None"
      using assms(1-3) same by (simp_all add: storeBasket_def worldsOk_def worldOk_def b0_def)
    have "cl_baskets cl2 = cl_baskets cl1"
    proof (cases "failed (rb_error b0)")
      case True
      then show ?thesis using s(1) by simp
    next
      case False
      then have "startRequest env base64 A A' b0 cl1 = Some (cl2, b2, r2)" using s(1) by simp
      from start_leaves [OF this ok] obtain S where l: "attemptLeaves S b0 cl1 (cl2, b2, r2)" by blast
      show ?thesis using attempt_pool(2) [OF l] by (cases cl2) simp
    qed
    then show ?thesis using s(2,3) same by (auto simp: asyncPublish_def storeBasket_def)
  qed
qed

lemma request_baskets:
  assumes "clientOk cl" "worldsOk A A' cl" "handleRequest env base64 A A' sinkOk h built stream cl = Some (cl', r)"
  shows "\<exists>x. cl_baskets cl' = (cl_baskets cl)(h := x) \<and> (\<forall>k. r = Some k \<longrightarrow> k = h \<and> x \<noteq> None)"
proof (cases built)
  case None
  then show ?thesis using assms(3) by (auto simp: handleRequest_def intro: exI [of _ "cl_baskets cl h"])
next
  case (Some built')
  obtain b where b: "ex_session b = None" and run:
    "(if rb_nonBlocking b then handleRequestAsync env base64 A A' h b (storeBasket h b cl)
      else map_option (\<lambda>(cl, h). (cl, Some h)) (handleRequestSync env base64 A A' h b (storeBasket h b cl))) = Some (cl', r)"
    by (rule request_runs [OF assms(3) [unfolded Some]])
  have sound: "poolSound (cl_pool cl)" using assms(1) by (simp add: clientOk_def)
  show ?thesis
  proof (cases "rb_nonBlocking b")
    case True
    then show ?thesis using run async_baskets [OF sound assms(2) b] by simp
  next
    case False
    then obtain k where s: "handleRequestSync env base64 A A' h b (storeBasket h b cl) = Some (cl', k)" "r = Some k" using run by auto
    have "poolSound (cl_pool (storeBasket h b cl))" "worldsOk A A' (storeBasket h b cl)"
      using sound assms(2) by (simp_all add: storeBasket_def worldsOk_def worldOk_def)
    from sync_leaves [OF s(1) this b] obtain cl1 b1 S where
      l: "attemptLeaves S b (storeBasket h b cl) (cl1, b1, None)" "cl' = storeBasket h b1 cl1" "k = h" by blast
    have "cl_baskets cl1 = (cl_baskets cl)(h \<mapsto> b)" using attempt_pool(2) [OF l(1)] by (cases cl1) (simp add: storeBasket_def)
    then show ?thesis using l(2,3) s(2) by (auto simp: storeBasket_def)
  qed
qed

text \<open>What is claimed is gone: the slot of a claimed basket is found again, and its claim frees the basket.\<close>

lemma release_frees: "releaseClaim (Some h, r) cl = Some cl' \<Longrightarrow> cl_baskets cl' h = None"
  by (auto simp: releaseClaim_def freeBasket_def split: option.splits)

lemma claim_frees: "claimResult h cl = Some cl' \<Longrightarrow> asyncFindSlotByBasket h cl \<noteq> None \<Longrightarrow> cl_baskets cl' h = None"
proof -
  assume run: "claimResult h cl = Some cl'" and "asyncFindSlotByBasket h cl \<noteq> None"
  then obtain i where i: "asyncFindSlotByBasket h cl = Some i" by blast
  have "ae_basket (cl_entries cl ! i) = Some h" using findIndex_SomeD [OF i [unfolded asyncFindSlotByBasket_def]] by simp
  then show ?thesis using run i release_frees by (fastforce simp: claimResult_def asyncDetachSlot_def Let_def)
qed

lemma copyBasket_code: "copyBasketResult J session capacity b = Some (b', code, len, out) \<Longrightarrow> (code = 1) = (out \<noteq> None)"
  by (cases "ex_serializedResult b"; cases out) (auto simp: copyBasketResult_def Let_def split: option.splits if_splits prod.splits)

lemma copyResult_code: "copyResult C capacity h b cl = Some (cl', code, len, out) \<Longrightarrow> (code = 1) = (out \<noteq> None) \<and> cl_entries cl' = cl_entries cl"
  by (auto simp: copyResult_def storeBasket_def dest: copyBasket_code split: option.splits if_splits)

lemma find_cong: "cl_entries cl' = cl_entries cl \<Longrightarrow> asyncFindSlotByBasket h cl' = asyncFindSlotByBasket h cl"
  by (simp add: asyncFindSlotByBasket_def)

lemma collect_frees:
  assumes "collectFinished env C capacity h stream timedOut b cl = Some (cl', code, len, out)" "code = 1 \<or> out \<noteq> None"
    and "asyncFindSlotByBasket h cl \<noteq> None"
  shows "cl_baskets cl' h = None"
proof -
  obtain b1 cl1 where s: "(case stream of None \<Rightarrow> Some (b, cl)
            | Some (p, st) \<Rightarrow>
                if failed (rb_error b) then Some (b, cl)
                else map_option (\<lambda>(b', st). (b', putStream b p st cl)) (finalizeStreamIntoBasket (ev_alloc env) (ev_lib env) (ce_base64 C) b st)) = Some (b1, cl1)"
    using assms(1) by (auto simp: collectFinished_def split: option.splits)
  have e: "cl_entries cl1 = cl_entries cl"
    using s by (auto simp: putStream_def onConn_def split: option.splits if_splits prod.splits)
  obtain cl2 code2 where c: "copyResult C capacity h b1 cl1 = Some (cl2, code2, len, out)" "(if code2 = 1 then claimResult h cl2 else Some cl2) = Some cl'"
      "code = (if timedOut then -1 else code2)"
    using assms(1) s by (auto simp: collectFinished_def split: option.splits)
  have k: "(code2 = 1) = (out \<noteq> None)" "cl_entries cl2 = cl_entries cl" using copyResult_code [OF c(1)] e by simp_all
  have one: "code2 = 1" using assms(2) k(1) c(3) by (auto split: if_splits)
  show ?thesis
  proof (rule claim_frees)
    show "claimResult h cl2 = Some cl'" using c(2) one by simp
    show "asyncFindSlotByBasket h cl2 \<noteq> None" using find_cong [OF k(2)] assms(3) by simp
  qed
qed

lemma response_frees:
  assumes "handleResponse env C (Some h) dest capacity cl = Some (cl', code, len, out)" "code = 1 \<or> out \<noteq> None"
  shows "cl_baskets cl' h = None"
proof (cases "\<not> dest \<or> capacity \<le> 0")
  case True
  then show ?thesis using assms by (auto simp: handleResponse_def)
next
  case f: False
  then obtain b where b: "cl_baskets cl h = Some b" using assms by (auto simp: handleResponse_def split: option.splits)
  show ?thesis
  proof (cases "rb_nonBlocking b")
    case False
    then obtain cl1 where c: "copyResult C capacity h b cl = Some (cl1, code, len, out)" "cl' = (if code = 1 then freeBasket h cl1 else cl1)"
      using assms(1) b f by (auto simp: handleResponse_def handleResponseSync_def)
    then show ?thesis using copyResult_code [OF c(1)] assms(2) by (simp add: freeBasket_def)
  next
    case True
    then have run: "handleResponseAsync env C capacity h b cl = Some (cl', code, len, out)" using assms(1) b f by (simp add: handleResponse_def)
    show ?thesis
    proof (cases "asyncFindSlotByBasket h cl")
      case None
      then show ?thesis using run assms(2) by (auto simp: handleResponseAsync_def)
    next
      case (Some i)
      define e where "e = cl_entries cl ! i"
      obtain stream where st: "(case ae_stream e of None \<Rightarrow> Some None | Some p \<Rightarrow> map_option (\<lambda>st. Some (p, st)) (streamOf cl b p)) = Some stream"
        using run Some by (auto simp: handleResponseAsync_def Let_def e_def split: option.splits)
      obtain done' timedOut b' where p: "pollOutcome (ev_now env) b (map_option snd stream) (ae_startTime e) = (done', timedOut, b')" by (metis prod_cases3)
      have run': "(if \<not> done' then Some (cl, 0, 0, None) else collectFinished env C capacity h stream timedOut b' (storeBasket h b' cl)) = Some (cl', code, len, out)"
        using run unfolding handleResponseAsync_def Some option.case Let_def e_def [symmetric] st p prod.case .
      have "asyncFindSlotByBasket h (storeBasket h b' cl) \<noteq> None" using Some find_cong [of "storeBasket h b' cl" cl] by (simp add: storeBasket_def)
      then show ?thesis using run' assms(2) collect_frees [of env C capacity h stream timedOut b' "storeBasket h b' cl" cl' code len out]
        by (auto split: if_splits)
    qed
  qed
qed

text \<open>A poll that tells Java the request succeeded, or hands it a text, has freed the request.\<close>

lemma collect_response_frees:
  assumes "collectResponse env env' C m re (Some h) cl = Some (cl', status, json)" "status = 1 \<or> (\<exists>s. json = BridgeText s)"
  shows "cl_baskets cl' h = None"
proof -
  have m using assms by (cases m) (auto simp: collectResponse_def)
  then obtain cl1 st1 len1 out1 where one: "handleResponse env C (Some h) True BRIDGE_BUFFER_SIZE cl = Some (cl1, st1, len1, out1)"
    using assms(1) by (auto simp: collectResponse_def split: option.splits)
  have hb: "handBack s l o' = BridgeText t \<Longrightarrow> o' \<noteq> None" for s l o' t by (auto simp: handBack_def split: if_splits option.splits)
  show ?thesis
  proof (cases "st1 = 2")
    case True
    then obtain len2 out2 where two: "handleResponse env' C (Some h) True (len1 + 1) cl1 = Some (cl', status, len2, out2)" "json = handBack status len2 out2"
      using assms one \<open>m\<close> by (auto simp: collectResponse_def split: if_splits)
    show ?thesis by (rule response_frees [OF two(1)]) (use assms(2) two(2) hb in auto)
  next
    case False
    then have "cl' = cl1" "status = st1" "json = handBack st1 len1 out1" using assms(1) one \<open>m\<close> by (auto simp: collectResponse_def)
    then show ?thesis using response_frees [OF one] assms(2) hb by auto
  qed
qed

text \<open>Shutting down returns, and leaves no non-blocking request.\<close>

lemma release_returns:
  assumes "claimsOk (add_mset c M) cl"
  shows "\<exists>cl'. releaseClaim c cl = Some cl'"
proof -
  obtain h r b where c: "c = (Some h, r)" "cl_baskets cl h = Some b"
    "\<forall>q. r = Some q \<longrightarrow> (\<exists>p. ex_session b = Some p \<and> (p, q) \<in> registrations (cl_pool cl))"
    using assms by (cases c) (auto simp: claimsOk_def claimOk_def)
  then show ?thesis by (cases r) (auto simp: releaseClaim_def releaseStream_def sessionOf_def registrations_def)
qed

lemma cleanupEnv_returns:
  assumes "clientOk cl"
  shows "\<exists>cl'. cleanupEnv alive now cl = Some cl'"
proof -
  obtain cl1 ds where f: "fold detachAll [0..<MAX_ASYNC_REQUESTS] (cl, []) = (cl1, ds)" by fastforce
  have len: "length (cl_entries cl) = MAX_ASYNC_REQUESTS" using assms by (simp add: clientOk_def)
  note d = detachAll_fold [OF _ f, unfolded len, OF order_refl]
  have "claims cl1 = {#}" using d(5,6) by (auto simp: claims_def filter_empty_conv in_set_conv_nth simp flip: mset_filter)
  then have "claimsOk (mset ds) cl1" "poolSound (cl_pool cl1)" using assms d(1,2) claimsOk_same [OF d(2,3)] by (simp_all add: clientOk_def)
  then have "\<exists>cl'. fold (\<lambda>c cl. Option.bind cl (releaseClaim c)) ds (Some cl1) = Some cl'"
  proof (induction ds arbitrary: cl1)
    case (Cons c ds)
    then obtain cl2 where cl2: "releaseClaim c cl1 = Some cl2" using release_returns [of c "mset ds" cl1] by auto
    have "claimsOk (add_mset c (mset ds)) cl1" using Cons.prems(1) by simp
    from release_claim [OF this Cons.prems(2) cl2] Cons.IH [of cl2] cl2 show ?case by simp
  qed simp
  then show ?thesis using f by (auto simp: cleanupEnv_def cleanupAsyncRequests_def)
qed

lemma poolSound_cleanup: "poolSound pool \<Longrightarrow> poolSound (cleanupSessions alive now isAll pool)"
proof -
  assume s: "poolSound pool"
  then have "poolOk pool" by (simp add: poolSound_def)
  from cleanup_effect [OF this, of alive now isAll] have "poolOk (cleanupSessions alive now isAll pool)" by blast
  moreover have "registryOk (ss_conn x)" if "sp_store (cleanupSessions alive now isAll pool) p = Some x" for p x
    using cleanup_store [OF s that] s by (auto simp: poolSound_def)
  ultimately show ?thesis by (simp add: poolSound_def)
qed

lemma cleanupEnv_ok:
  assumes "clientOk cl" "cleanupEnv alive now cl = Some cl'"
  shows "clientOk cl'" "cl_baskets cl' h = Some b \<Longrightarrow> \<not> rb_nonBlocking b"
proof -
  obtain cl1 where c: "cleanupAsyncRequests cl = Some cl1" "cl' = cl1\<lparr>cl_pool := cleanupSessions alive now True (cl_pool cl1)\<rparr>"
    using assms(2) by (auto simp: cleanupEnv_def)
  note k = cleanup_ok [OF assms(1) c(1)]
  have n: "claims cl' = {#}" "cl_baskets cl' = cl_baskets cl1" using k(2) by (simp_all add: c(2) claims_def)
  have none: "\<not> rb_nonBlocking b" if "cl_baskets cl1 h = Some b" for h b
  proof
    assume "rb_nonBlocking b"
    then have "count (image_mset fst (claims cl1)) (Some h) = 1" using k(1) that by (auto simp: clientOk_def claimsOk_def)
    then show False using k(2) by simp
  qed
  then show "cl_baskets cl' h = Some b \<Longrightarrow> \<not> rb_nonBlocking b" using n(2) by simp
  show "clientOk cl'" using k(1) n none poolSound_cleanup [of "cl_pool cl1" alive now True]
    by (auto simp: clientOk_def claimsOk_def c(2))
qed


section \<open>Listeners\<close>

text \<open>
  Every context is in one place, waiting or freed, each handle has one at most, and the request of
  a context that waits is still in memory.
\<close>

definition bridgeOk :: "'z client \<times> jniBridge \<Rightarrow> bool" where
  "bridgeOk st \<longleftrightarrow> clientOk (fst st)
     \<and> distinct (map snd (br_contexts (snd st)) @ br_freed (snd st)) \<and> distinct (map fst (br_contexts (snd st)))
     \<and> (\<forall>(h, c)\<in>set (br_contexts (snd st)). cl_baskets (fst st) h \<noteq> None)"

definition newContext :: "nat option \<Rightarrow> jniBridge \<Rightarrow> bool" where
  "newContext ctx br \<longleftrightarrow> (\<forall>c. ctx = Some c \<longrightarrow> c \<notin> snd ` set (br_contexts br) \<union> set (br_freed br))"

text \<open>
  What happens to a client that Java uses: the calls of the bridge, and the threads of the library,
  which free no basket. A context is named by the call that made it.
\<close>

inductive bridgeStep :: "'j bridgeLib \<Rightarrow> 'z client \<times> jniBridge \<Rightarrow> 'z client \<times> jniBridge \<Rightarrow> bool" for L where
  Block: "cl_baskets cl (bc_basket call) = None \<Longrightarrow> worldsOk (bc_world call) (bc_world' call) cl \<Longrightarrow> newContext ctx br \<Longrightarrow>
    runBlockingRequest L call ctx (cl, br) = Some (cl', br', json) \<Longrightarrow> bridgeStep L (cl, br) (cl', br')"
| Start: "cl_baskets cl (bc_basket call) = None \<Longrightarrow> worldsOk (bc_world call) (bc_world' call) cl \<Longrightarrow> newContext ctx br \<Longrightarrow>
    startAsyncRequest L call ctx (cl, br) = Some (cl', br', handle) \<Longrightarrow> bridgeStep L (cl, br) (cl', br')"
| Poll: "cl_baskets cl h \<noteq> None \<Longrightarrow> nativePollRequest L call h (cl, br) = Some (cl', br', status, json) \<Longrightarrow> bridgeStep L (cl, br) (cl', br')"
| Cleanup: "nativeCleanup alive now (cl, br) = Some (cl', br') \<Longrightarrow> bridgeStep L (cl, br) (cl', br')"
| Threads: "clientStep (bl_collect L) cl cl' \<Longrightarrow> dom (cl_baskets cl') = dom (cl_baskets cl) \<Longrightarrow> bridgeStep L (cl, br) (cl', br)"

lemma send_baskets:
  assumes "sendRequest L call n ctx cl = Some (cl', r)" "clientOk cl" "cl_baskets cl (bc_basket call) = None"
    "worldsOk (bc_world call) (bc_world' call) cl"
  shows "clientOk cl'" "\<exists>x. cl_baskets cl' = (cl_baskets cl)(bc_basket call := x) \<and> (\<forall>k. r = Some k \<longrightarrow> k = bc_basket call \<and> x \<noteq> None)"
proof -
  have "(cl' = cl \<and> r = None) \<or> (\<exists>built stream. handleRequest (bc_env call) (ce_base64 (bl_collect L)) (bc_world call) (bc_world' call)
      (bc_sinkOk call) (bc_basket call) built stream cl = Some (cl', r))"
    using assms(1) by (auto simp: sendRequest_def sendPinned_def split: option.splits)
  then show "clientOk cl'" "\<exists>x. cl_baskets cl' = (cl_baskets cl)(bc_basket call := x) \<and> (\<forall>k. r = Some k \<longrightarrow> k = bc_basket call \<and> x \<noteq> None)"
    using request_ok [OF assms(2-4)] request_baskets [OF assms(2,4)] assms(2) by (auto intro: exI [of _ "cl_baskets cl (bc_basket call)"])
qed

lemma collect_response_baskets:
  assumes "collectResponse env env' C m re (Some h) cl = Some (cl', status, json)" "clientOk cl" "cl_baskets cl h \<noteq> None"
  shows "clientOk cl'" "\<exists>x. cl_baskets cl' = (cl_baskets cl)(h := x) \<and> (x = None \<longrightarrow> status = 1 \<or> status = -1)"
proof -
  have same: "\<exists>x. cl_baskets cl = (cl_baskets cl)(h := x) \<and> x \<noteq> None" using assms(3) by (intro exI [of _ "cl_baskets cl h"]) auto
  have "clientOk cl' \<and> (\<exists>x. cl_baskets cl' = (cl_baskets cl)(h := x) \<and> (x = None \<longrightarrow> status = 1 \<or> status = -1))"
  proof (cases m)
    case False
    then show ?thesis using assms(1,2) same by (auto simp: collectResponse_def)
  next
    case True
    obtain cl1 st1 len1 out1 where one: "handleResponse env C (Some h) True BRIDGE_BUFFER_SIZE cl = Some (cl1, st1, len1, out1)"
      using assms(1) True by (auto simp: collectResponse_def split: option.splits)
    obtain x where x: "cl_baskets cl1 = (cl_baskets cl)(h := x)" "x = None \<longrightarrow> st1 = 1 \<or> st1 = -1"
      using response_baskets [OF one] assms(3) by blast
    have ok1: "clientOk cl1" by (rule response_ok [OF assms(2) one])
    show ?thesis
    proof (cases "st1 = 2 \<and> re")
      case True
      then obtain len2 out2 where two: "handleResponse env' C (Some h) True (len1 + 1) cl1 = Some (cl', status, len2, out2)"
        using assms(1) one \<open>m\<close> by (auto simp: collectResponse_def split: if_splits)
      have "cl_baskets cl1 h \<noteq> None" using x True by auto
      then show ?thesis using response_ok [OF ok1 two] response_baskets [OF two] x(1) by auto
    next
      case False
      then have "cl' = cl1" "x = None \<longrightarrow> status = 1 \<or> status = -1"
        using assms(1) one x(2) \<open>m\<close> by (auto simp: collectResponse_def split: if_splits)
      then show ?thesis using ok1 x(1) by blast
    qed
  qed
  then show "clientOk cl'" "\<exists>x. cl_baskets cl' = (cl_baskets cl)(h := x) \<and> (x = None \<longrightarrow> status = 1 \<or> status = -1)" by simp_all
qed

text \<open>Taking a context out of the list.\<close>

lemma take_context:
  assumes "takeStreamContext h br = (br', ctx)" "distinct (map fst (br_contexts br))"
  shows "mset (map snd (br_contexts br') @ br_freed (freeStreamContext ctx br')) = mset (map snd (br_contexts br) @ br_freed br)"
    "set (br_contexts br') = {e \<in> set (br_contexts br). fst e \<noteq> h}" "distinct (map fst (br_contexts br'))"
    "br_contexts (freeStreamContext ctx br') = br_contexts br'"
proof -
  have "mset (map snd (br_contexts br') @ br_freed (freeStreamContext ctx br')) = mset (map snd (br_contexts br) @ br_freed br)
    \<and> set (br_contexts br') = {e \<in> set (br_contexts br). fst e \<noteq> h} \<and> distinct (map fst (br_contexts br'))
    \<and> br_contexts (freeStreamContext ctx br') = br_contexts br'"
  proof (cases "findIndex (\<lambda>e. fst e = h) (br_contexts br)")
    case None
    then have "br' = br" "ctx = None" using assms(1) by (simp_all add: takeStreamContext_def)
    moreover have "\<forall>e\<in>set (br_contexts br). fst e \<noteq> h" using None by (simp add: findIndex_None)
    ultimately show ?thesis using assms(2) by (auto simp: freeStreamContext_def)
  next
    case (Some i)
    let ?xs = "br_contexts br"
    have i: "i < length ?xs" "fst (?xs ! i) = h" using findIndex_SomeD [OF Some] by simp_all
    have r: "br' = br\<lparr>br_contexts := take i ?xs @ drop (Suc i) ?xs\<rparr>" "ctx = Some (snd (?xs ! i))"
      using assms(1) Some by (auto simp: takeStreamContext_def)
    have split: "?xs = take i ?xs @ ?xs ! i # drop (Suc i) ?xs" using i(1) by (rule id_take_nth_drop)
    have d: "distinct (map fst (take i ?xs) @ h # map fst (drop (Suc i) ?xs))"
      using assms(2) i(2) by (subst (asm) split) simp
    have "set ?xs = insert (?xs ! i) (set (take i ?xs) \<union> set (drop (Suc i) ?xs))" by (subst split) auto
    moreover have "h \<notin> fst ` (set (take i ?xs) \<union> set (drop (Suc i) ?xs))" using d by (auto simp del: take_map drop_map)
    then have "\<forall>e\<in>set (take i ?xs) \<union> set (drop (Suc i) ?xs). fst e \<noteq> h" by blast
    ultimately have "set (take i ?xs @ drop (Suc i) ?xs) = {e \<in> set ?xs. fst e \<noteq> h}" using i(2) by auto
    moreover have "mset (map snd ?xs) = add_mset (snd (?xs ! i)) (mset (map snd (take i ?xs @ drop (Suc i) ?xs)))" by (subst split) simp
    ultimately show ?thesis using d by (simp add: r freeStreamContext_def)
  qed
  then show "mset (map snd (br_contexts br') @ br_freed (freeStreamContext ctx br')) = mset (map snd (br_contexts br) @ br_freed br)"
    "set (br_contexts br') = {e \<in> set (br_contexts br). fst e \<noteq> h}" "distinct (map fst (br_contexts br'))"
    "br_contexts (freeStreamContext ctx br') = br_contexts br'" by simp_all
qed

lemma clear_contexts: "br_freed (clearStreamContexts br) = br_freed br @ map snd (br_contexts br)" "br_contexts (clearStreamContexts br) = []"
proof -
  have "fold (\<lambda>e. freeStreamContext (Some (snd e))) xs br = br\<lparr>br_freed := br_freed br @ map snd xs\<rparr>" for xs :: "(nat \<times> nat) list" and br
    by (induction xs arbitrary: br) (simp_all add: freeStreamContext_def)
  then show "br_freed (clearStreamContexts br) = br_freed br @ map snd (br_contexts br)" "br_contexts (clearStreamContexts br) = []"
    by (simp_all add: clearStreamContexts_def)
qed

lemma cleanup_bridge:
  assumes "nativeCleanup alive now (cl, br) = Some (cl', br')" "bridgeOk (cl, br)"
  shows "bridgeOk (cl', br')" "br_contexts br' = []" "set (br_freed br') = snd ` set (br_contexts br) \<union> set (br_freed br)"
    "cl_baskets cl' h = Some b \<Longrightarrow> \<not> rb_nonBlocking b"
proof -
  have c: "cleanupEnv alive now cl = Some cl'" "br' = clearStreamContexts br" using assms(1) by (auto simp: nativeCleanup_def)
  have ok: "clientOk cl" using assms(2) by (simp add: bridgeOk_def)
  show "bridgeOk (cl', br')" using cleanupEnv_ok(1) [OF ok c(1)] assms(2) by (auto simp: bridgeOk_def c(2) clear_contexts)
  show "br_contexts br' = []" "set (br_freed br') = snd ` set (br_contexts br) \<union> set (br_freed br)" by (auto simp: c(2) clear_contexts)
  show "cl_baskets cl' h = Some b \<Longrightarrow> \<not> rb_nonBlocking b" by (rule cleanupEnv_ok(2) [OF ok c(1)])
qed

lemma poll_listeners:
  assumes "nativePollRequest L call h (cl, br) = Some (cl', br', status, json)" "distinct (map fst (br_contexts br))"
  shows "if status = 1 \<or> status = -1
      then set (br_contexts br') = {e \<in> set (br_contexts br). fst e \<noteq> h}
        \<and> set (br_freed br') = set (br_freed br) \<union> {c. (h, c) \<in> set (br_contexts br)}
      else br' = br"
proof -
  have br': "br' = (if status = 1 \<or> status = -1 then (case takeStreamContext h br of (br, ctx) \<Rightarrow> freeStreamContext ctx br) else br)"
    using assms(1) by (auto simp: nativePollRequest_def)
  obtain br1 ctx where t: "takeStreamContext h br = (br1, ctx)" by fastforce
  note k = take_context [OF t assms(2)]
  have "set (br_freed (freeStreamContext ctx br1)) = set (br_freed br) \<union> {c. (h, c) \<in> set (br_contexts br)}"
  proof (cases "findIndex (\<lambda>e. fst e = h) (br_contexts br)")
    case None
    then have "br1 = br" "ctx = None" using t by (simp_all add: takeStreamContext_def)
    moreover have "\<forall>e\<in>set (br_contexts br). fst e \<noteq> h" using None by (simp add: findIndex_None)
    ultimately show ?thesis by (auto simp: freeStreamContext_def)
  next
    case (Some i)
    have i: "i < length (br_contexts br)" "fst (br_contexts br ! i) = h" using findIndex_SomeD [OF Some] by simp_all
    have one: "(h, c) \<in> set (br_contexts br) \<longleftrightarrow> c = snd (br_contexts br ! i)" for c
    proof
      assume "(h, c) \<in> set (br_contexts br)"
      then obtain j where j: "j < length (br_contexts br)" "br_contexts br ! j = (h, c)" by (auto simp: in_set_conv_nth)
      then have "map fst (br_contexts br) ! j = map fst (br_contexts br) ! i" using i by simp
      then have "j = i" using nth_eq_iff_index_eq [OF assms(2)] i(1) j(1) by simp
      then show "c = snd (br_contexts br ! i)" using j(2) by simp
    next
      assume "c = snd (br_contexts br ! i)"
      then show "(h, c) \<in> set (br_contexts br)" using i nth_mem [of i "br_contexts br"] by (cases "br_contexts br ! i") auto
    qed
    have "ctx = Some (snd (br_contexts br ! i))" "br_freed br1 = br_freed br" using t Some by (auto simp: takeStreamContext_def)
    moreover have "{c. (h, c) \<in> set (br_contexts br)} = {snd (br_contexts br ! i)}" unfolding one by simp
    ultimately show ?thesis by (simp add: freeStreamContext_def)
  qed
  then show ?thesis using k(2,4) by (simp add: br' t)
qed

lemma bridge_ok: "bridgeStep L st st' \<Longrightarrow> bridgeOk st \<Longrightarrow> bridgeOk st'"
proof (induction rule: bridgeStep.induct)
  case (Block cl call ctx br cl' br' json)
  have ok: "clientOk cl" using Block.prems by (simp add: bridgeOk_def)
  obtain cl1 r where s: "sendRequest L call 0 ctx cl = Some (cl1, r)" "br' = freeStreamContext ctx br"
    "r = None \<and> cl' = cl1 \<or> (\<exists>status. r \<noteq> None \<and> collectResponse (bc_env call) (bc_env' call) (bl_collect L) (bc_mallocOk call) (bc_reallocOk call) r cl1 = Some (cl', status, json))"
    using Block.hyps(4) by (auto simp: runBlockingRequest_def split: option.splits)
  obtain x where x: "clientOk cl1" "cl_baskets cl1 = (cl_baskets cl)(bc_basket call := x)" "\<forall>k. r = Some k \<longrightarrow> k = bc_basket call \<and> x \<noteq> None"
    using send_baskets [OF s(1) ok Block.hyps(1,2)] by metis
  have "clientOk cl' \<and> (\<exists>y. cl_baskets cl' = (cl_baskets cl)(bc_basket call := y))"
  proof (cases r)
    case None
    then show ?thesis using s(3) x by auto
  next
    case (Some k)
    then obtain status where c: "collectResponse (bc_env call) (bc_env' call) (bl_collect L) (bc_mallocOk call) (bc_reallocOk call) (Some (bc_basket call)) cl1 = Some (cl', status, json)"
      using s(3) x(3) by auto
    have "cl_baskets cl1 (bc_basket call) \<noteq> None" using x Some by simp
    then show ?thesis using collect_response_baskets [OF c x(1)] x(2) by auto
  qed
  moreover have "(h, c) \<in> set (br_contexts br) \<Longrightarrow> h \<noteq> bc_basket call" for h c using Block.prems Block.hyps(1) by (auto simp: bridgeOk_def)
  ultimately show ?case using Block.prems Block.hyps(3) s(2)
    by (auto simp: bridgeOk_def freeStreamContext_def newContext_def split: option.splits)
next
  case (Start cl call ctx br cl' br' handle)
  have ok: "clientOk cl" using Start.prems by (simp add: bridgeOk_def)
  obtain s: "sendRequest L call 1 ctx cl = Some (cl', handle)"
    and br': "br' = (if handle = None then freeStreamContext ctx br else case ctx of None \<Rightarrow> br | Some c \<Rightarrow> registerStreamContext (bc_entryOk call) (the handle) c br)"
    using Start.hyps(4) by (auto simp: startAsyncRequest_def split: option.splits)
  obtain x where x: "clientOk cl'" "cl_baskets cl' = (cl_baskets cl)(bc_basket call := x)" "\<forall>k. handle = Some k \<longrightarrow> k = bc_basket call \<and> x \<noteq> None"
    using send_baskets [OF s ok Start.hyps(1,2)] by metis
  have other: "(h, c) \<in> set (br_contexts br) \<Longrightarrow> h \<noteq> bc_basket call" for h c using Start.prems Start.hyps(1) by (auto simp: bridgeOk_def)
  then have apart: "bc_basket call \<notin> fst ` set (br_contexts br)" "\<forall>b. (bc_basket call, b) \<notin> set (br_contexts br)" by force+
  show ?case using Start.prems Start.hyps(3) x apart unfolding br'
    by (auto simp: bridgeOk_def freeStreamContext_def registerStreamContext_def newContext_def split: option.splits)
next
  case (Poll cl h call br cl' br' status json)
  have ok: "clientOk cl" using Poll.prems by (simp add: bridgeOk_def)
  obtain c: "collectResponse (bc_env call) (bc_env' call) (bl_collect L) (bc_mallocOk call) (bc_reallocOk call) (Some h) cl = Some (cl', status, json)"
    and br': "br' = (if status = 1 \<or> status = -1 then (case takeStreamContext h br of (br, ctx) \<Rightarrow> freeStreamContext ctx br) else br)"
    using Poll.hyps(2) by (auto simp: nativePollRequest_def)
  obtain x where x: "clientOk cl'" "cl_baskets cl' = (cl_baskets cl)(h := x)" "x = None \<longrightarrow> status = 1 \<or> status = -1"
    using collect_response_baskets [OF c ok Poll.hyps(1)] by metis
  show ?case
  proof (cases "status = 1 \<or> status = -1")
    case False
    then show ?thesis using Poll.prems x by (auto simp: bridgeOk_def br')
  next
    case True
    obtain br1 ctx where t: "takeStreamContext h br = (br1, ctx)" by fastforce
    have d: "distinct (map fst (br_contexts br))" "distinct (map snd (br_contexts br) @ br_freed br)" using Poll.prems by (simp_all add: bridgeOk_def)
    note k = take_context [OF t d(1)]
    have "distinct (map snd (br_contexts br1) @ br_freed (freeStreamContext ctx br1))"
      using d(2) mset_eq_imp_distinct_iff [OF k(1)] by blast
    then show ?thesis using Poll.prems x k(2-4) True by (auto simp: bridgeOk_def br' t)
  qed
next
  case (Cleanup alive now cl br cl' br')
  then show ?case using cleanup_bridge(1) by blast
next
  case (Threads cl cl' br)
  have "cl_baskets cl' h \<noteq> None" if "cl_baskets cl h \<noteq> None" for h using Threads.hyps(2) that by (metis domIff)
  then show ?case using Threads.prems step_ok [OF Threads.hyps(1)] by (auto simp: bridgeOk_def)
qed

text \<open>C35. The listeners of streamed responses live as long as their requests and are freed once. In every run of
  the bridge's calls and the library's threads, shutdowns included, no context is freed twice, and one
  that waits for its poll has not been freed and its request is in memory. From there on: a request
  that was started keeps its listener; a poll that reports the request in flight or the result
  too long changes no listener, and one that reports it over frees exactly the listener of its
  handle; when it reports success, or hands over a text, the request is gone from the library, so that
  no callback can reach the listener; shutting down returns, frees exactly the listeners left and leaves no
  non-blocking request. A timeout whose text does not fit is the exception (\<open>timeout_text_uninitialised\<close>).\<close>

theorem listeners_freed_once:
  assumes "(bridgeStep L)\<^sup>*\<^sup>* (initClient, \<lparr>br_contexts = [], br_freed = []\<rparr>) (cl, br)"
  shows "distinct (br_freed br) \<and> snd ` set (br_contexts br) \<inter> set (br_freed br) = {}
    \<and> (\<forall>(h, c)\<in>set (br_contexts br). cl_baskets cl h \<noteq> None)
    \<and> (case startAsyncRequest L call ctx (cl, br) of None \<Rightarrow> True
       | Some (cl', br', handle) \<Rightarrow> handle = None \<or> br_freed br' = br_freed br)
    \<and> (case nativePollRequest L call h (cl, br) of None \<Rightarrow> True
       | Some (cl', br', status, json) \<Rightarrow>
           (if status = 1 \<or> status = -1
            then set (br_contexts br') = {e \<in> set (br_contexts br). fst e \<noteq> h}
              \<and> set (br_freed br') = set (br_freed br) \<union> {c. (h, c) \<in> set (br_contexts br)}
            else br' = br)
           \<and> (if status = 1 \<or> (\<exists>s. json = BridgeText s) then cl_baskets cl' h = None else True))
    \<and> (case nativeCleanup alive now (cl, br) of None \<Rightarrow> False
       | Some (cl', br') \<Rightarrow> br_contexts br' = [] \<and> distinct (br_freed br')
           \<and> set (br_freed br') = snd ` set (br_contexts br) \<union> set (br_freed br)
           \<and> {k. \<exists>b. cl_baskets cl' k = Some b \<and> rb_nonBlocking b} = {})"
proof -
  have init: "bridgeOk (initClient, \<lparr>br_contexts = [], br_freed = []\<rparr>)" using init_ok by (simp add: bridgeOk_def)
  have ok: "bridgeOk (cl, br)" using assms by (induction rule: rtranclp_induct) (use init bridge_ok in blast)+
  then have waits: "distinct (br_freed br)" "snd ` set (br_contexts br) \<inter> set (br_freed br) = {}"
    "\<forall>(h, c)\<in>set (br_contexts br). cl_baskets cl h \<noteq> None" "distinct (map fst (br_contexts br))" by (auto simp: bridgeOk_def)
  have "case startAsyncRequest L call ctx (cl, br) of None \<Rightarrow> True
      | Some (cl', br', handle) \<Rightarrow> handle = None \<or> br_freed br' = br_freed br"
    by (auto simp: startAsyncRequest_def registerStreamContext_def split: option.splits if_splits)
  moreover have "case nativePollRequest L call h (cl, br) of None \<Rightarrow> True
      | Some (cl', br', status, json) \<Rightarrow>
          (if status = 1 \<or> status = -1
           then set (br_contexts br') = {e \<in> set (br_contexts br). fst e \<noteq> h}
             \<and> set (br_freed br') = set (br_freed br) \<union> {c. (h, c) \<in> set (br_contexts br)}
           else br' = br)
          \<and> (if status = 1 \<or> (\<exists>s. json = BridgeText s) then cl_baskets cl' h = None else True)"
  proof (cases "nativePollRequest L call h (cl, br)")
    case (Some r)
    obtain cl' br' status json where r: "r = (cl', br', status, json)" by (cases r)
    have gone: "cl_baskets cl' h = None" if "status = 1 \<or> (\<exists>s. json = BridgeText s)"
      by (rule collect_response_frees [OF _ that]) (use Some r in \<open>auto simp: nativePollRequest_def\<close>)
    show ?thesis unfolding Some r option.case prod.case
      by (rule conjI [OF poll_listeners [OF Some [unfolded r] waits(4)]]) (use gone in simp)
  qed simp
  moreover have "case nativeCleanup alive now (cl, br) of None \<Rightarrow> False
      | Some (cl', br') \<Rightarrow> br_contexts br' = [] \<and> distinct (br_freed br')
          \<and> set (br_freed br') = snd ` set (br_contexts br) \<union> set (br_freed br)
          \<and> {k. \<exists>b. cl_baskets cl' k = Some b \<and> rb_nonBlocking b} = {}"
  proof (cases "nativeCleanup alive now (cl, br)")
    case (Some r)
    obtain cl' br' where r: "r = (cl', br')" by (cases r)
    show ?thesis using cleanup_bridge [OF Some [unfolded r] ok] by (simp add: Some r bridgeOk_def)
  next
    case None
    have "clientOk cl" using ok by (simp add: bridgeOk_def)
    then show ?thesis using cleanupEnv_returns [of cl alive now] None by (auto simp: nativeCleanup_def)
  qed
  ultimately show ?thesis using waits by blast
qed

lemma listeners_freed_once_witness:
  "(bridgeStep sampleLib)\<^sup>*\<^sup>* (initClient :: (bytes \<times> nat) client, \<lparr>br_contexts = [], br_freed = []\<rparr>) (initClient, \<lparr>br_contexts = [], br_freed = [4]\<rparr>)
   \<and> distinct (br_freed \<lparr>br_contexts = [], br_freed = [4]\<rparr>)
   \<and> (\<exists>cl' br'. nativePollRequest sampleLib (sampleCall\<lparr>bc_mallocOk := False\<rparr>) 9 (initClient :: (bytes \<times> nat) client, \<lparr>br_contexts = [], br_freed = [4]\<rparr>)
        = Some (cl', br', 0, BridgeNothing) \<and> br_freed br' = [4])"
proof -
  define A :: "(bytes \<times> nat) attemptEnv" where "A = undefined\<lparr>at_session := 1, at_stream := None, at_waits := []\<rparr>"
  have w: "worldsOk A (A\<lparr>at_session := 2\<rparr>) initClient" by (simp add: A_def worldsOk_def worldOk_def initClient_def initSharedSessionPool_def)
  let ?call = "sampleCall\<lparr>bc_text := None, bc_basket := 9, bc_world := A, bc_world' := A\<lparr>at_session := 2\<rparr>\<rparr>"
  let ?br = "\<lparr>br_contexts = [], br_freed = [4]\<rparr>"
  have "bridgeStep sampleLib (initClient :: (bytes \<times> nat) client, \<lparr>br_contexts = [], br_freed = []\<rparr>) (initClient, ?br)"
    using bridgeStep.Start [of initClient ?call "Some 4" "\<lparr>br_contexts = [], br_freed = []\<rparr>" sampleLib initClient ?br None] w
    by (simp add: initClient_def newContext_def startAsyncRequest_def sendRequest_def sendPinned_def freeStreamContext_def)
  then have run: "(bridgeStep sampleLib)\<^sup>*\<^sup>* (initClient :: (bytes \<times> nat) client, \<lparr>br_contexts = [], br_freed = []\<rparr>) (initClient, ?br)" by blast
  have "nativePollRequest sampleLib (sampleCall\<lparr>bc_mallocOk := False\<rparr>) 9 (initClient :: (bytes \<times> nat) client, ?br)
      = Some (initClient, ?br, 0, BridgeNothing)" by (simp add: nativePollRequest_def collectResponse_def)
  then show ?thesis using listeners_freed_once [OF run, of "sampleCall\<lparr>bc_mallocOk := False\<rparr>" None 9] run by auto
qed

section \<open>Where the bridge fails\<close>

text \<open>
  A request that times out reports failure also when its text did not fit: the bridge does not ask
  again, hands Java memory nobody wrote, and frees the listener of a stream that is still registered.
\<close>

lemma timeout_text_uninitialised:
  assumes "clientOk cl" "pendingAt cl h b i q" "streamOf cl b q = Some st" "bc_mallocOk call"
    and "pollOutcome (ev_now (bc_env call)) b (Some st) (ae_startTime (cl_entries cl ! i)) = (True, True, b')" "failed (rb_error b')"
    and "resultText (bl_collect L) (storeBasket h b' cl) b' s" "2 ^ 20 \<le> length s" "length s < 2 ^ 31"
  shows "\<exists>cl' b''. nativePollRequest L call h (cl, br)
      = Some (cl', (case takeStreamContext h br of (br, ctx) \<Rightarrow> freeStreamContext ctx br), -1, BridgeUninitialised) \<and> pendingAt cl' h b'' i q"
proof -
  have p: "cl_baskets cl h = Some b" "rb_nonBlocking b" "ae_stream (cl_entries cl ! i) = Some q" using assms(2) by (simp_all add: pendingAt_def)
  obtain b'' where c: "sameRequest b' b''" "copyResult (bl_collect L) BRIDGE_BUFFER_SIZE h b' (storeBasket h b' cl)
      = Some (storeBasket h b'' (storeBasket h b' cl), copied BRIDGE_BUFFER_SIZE s)"
    by (rule copy_text [OF assms(7,9)])
  have big: "copied BRIDGE_BUFFER_SIZE s = (2, int (length s), None)" using assms(8) by (simp add: copied_def BRIDGE_BUFFER_SIZE_def)
  have "handleResponse (bc_env call) (bl_collect L) (Some h) True BRIDGE_BUFFER_SIZE cl
      = Some (storeBasket h b'' (storeBasket h b' cl), -1, int (length s), None)"
    using p assms(3,5,6) pending_slot [OF assms(1,2)] c(2) big
    by (simp add: handleResponse_def handleResponseAsync_def collectFinished_def BRIDGE_BUFFER_SIZE_def)
  then have "collectResponse (bc_env call) (bc_env' call) (bl_collect L) True (bc_reallocOk call) (Some h) cl
      = Some (storeBasket h b'' (storeBasket h b' cl), -1, BridgeUninitialised)"
    using assms(8) by (auto simp: collectResponse_def handBack_def)
  moreover have "pendingAt (storeBasket h b'' (storeBasket h b' cl)) h b'' i q"
    using assms(2) c(1) pollOutcome_same [OF assms(5)] by (simp add: pendingAt_def storeBasket_def sameRequest_def)
  ultimately show ?thesis using assms(4) by (auto simp: nativePollRequest_def)
qed

text \<open>The listener's map keeps one value of a repeated header, and a null listener is refused in silence.\<close>

lemma repeated_header_lost:
  "onStreamHeaders [(''set-cookie'', ''a=1''), (''set-cookie'', ''b=2'')] = [(''set-cookie'', ''b=2'')]"
  by (simp add: onStreamHeaders_def mapPut_def)

lemma null_listener_silent: "createStreamContext False classOk ctxOk methodsOk vmOk c refOk = (None, None)"
  by (simp add: createStreamContext_def)

end
