(* ===== verification/NodeBridge.thy ===== *)
theory NodeBridge
  imports Complex_Main JavaBridgeProps "HOL-Library.Sublist"
begin

text \<open>
  The bridge to Node.js, \<open>nodejs/http-addon.cc\<close>: collecting responses, and the object through which
  the callbacks of a streamed response travel to the JavaScript thread. It has two owners, the
  request and the threadsafe function, and goes with the last. A result of \<open>None\<close> is an access to a
  bridge that was deleted, or a use of a threadsafe function that was released or destroyed, which
  Node-API leaves undefined.
\<close>

section \<open>Collecting a response\<close>

text \<open>Without memory for a longer buffer the status stays 2, and the buffer unwritten.\<close>

definition nodeCollect ::
    "'z clientEnv \<Rightarrow> 'z clientEnv \<Rightarrow> 'j collectEnv \<Rightarrow> bool \<Rightarrow> nat \<Rightarrow> 'z client \<Rightarrow> ('z client \<times> int \<times> int \<times> string option) option" where
  "nodeCollect env env' C reallocOk handle cl =
     (case handleResponse env C (Some handle) True BRIDGE_BUFFER_SIZE cl of
        None \<Rightarrow> None
      | Some (cl, status, outLen, buffer) \<Rightarrow>
          if status = 2 \<and> reallocOk then
            (if outLen + 1 \<ge> 2 ^ 31 then None else handleResponse env' C (Some handle) True (outLen + 1) cl)
          else Some (cl, status, outLen, buffer))"

text \<open>What \<open>ExecuteRequest\<close> and the synchronous \<open>HandleRequest\<close> keep of a blocking exchange.\<close>

definition blockingResult :: "int \<Rightarrow> int \<Rightarrow> string option \<Rightarrow> bridgeText" where
  "blockingResult status outLen buffer = (if status = 1 then handBack status outLen buffer else BridgeNothing)"

section \<open>The stream bridge\<close>

datatype streamEvent = HeadersEvent "(string \<times> string) list" | DataEvent bytes | CompleteEvent "(string \<times> string) option"

text \<open>
  \<open>nb_threads\<close> is the thread count of the threadsafe function, \<open>nb_queue\<close> its queue, \<open>nb_closing\<close> whether the
  environment is being torn down, \<open>nb_calls\<close> what JavaScript was called with, \<open>nb_finalized\<close> whether the
  finalizer ran, which destroys the function, \<open>nb_deleted\<close> whether the bridge was deleted.
\<close>

record streamBridge =
  nb_onHeaders :: bool
  nb_onData :: bool
  nb_onComplete :: bool
  nb_abortRequested :: bool
  nb_refCount :: int
  nb_tsfnRetired :: bool
  nb_ownerReleased :: bool
  nb_threads :: nat
  nb_queue :: "streamEvent list"
  nb_closing :: bool
  nb_calls :: "streamEvent list"
  nb_finalized :: bool
  nb_deleted :: bool

text \<open>A bridge needs one callback at least.\<close>

definition CreateStreamBridge :: "bool \<Rightarrow> bool \<Rightarrow> bool \<Rightarrow> bool \<Rightarrow> streamBridge option" where
  "CreateStreamBridge onHeaders onData onComplete tsfnOk =
     (if \<not> onHeaders \<and> \<not> onData \<and> \<not> onComplete then None
      else if \<not> tsfnOk then None
      else Some \<lparr>nb_onHeaders = onHeaders, nb_onData = onData, nb_onComplete = onComplete, nb_abortRequested = False,
                 nb_refCount = 2, nb_tsfnRetired = False, nb_ownerReleased = False, nb_threads = 1, nb_queue = [],
                 nb_closing = False, nb_calls = [], nb_finalized = False, nb_deleted = False\<rparr>)"

text \<open>
  What Node-API documents of its two calls. A function that every thread has released may be gone at any
  time, and must not be called; one that is closing takes no event, gives the answer \<open>napi_closing\<close> and
  no longer counts the thread that called.
\<close>

definition napi_call_threadsafe_function :: "streamEvent \<Rightarrow> streamBridge \<Rightarrow> streamBridge option" where
  "napi_call_threadsafe_function event bridge =
     (if nb_finalized bridge \<or> nb_threads bridge = 0 then None
      else if nb_closing bridge then Some (bridge\<lparr>nb_threads := nb_threads bridge - 1\<rparr>)
      else Some (bridge\<lparr>nb_queue := nb_queue bridge @ [event]\<rparr>))"

definition napi_release_threadsafe_function :: "streamBridge \<Rightarrow> streamBridge option" where
  "napi_release_threadsafe_function bridge =
     (if nb_finalized bridge \<or> nb_threads bridge = 0 then None else Some (bridge\<lparr>nb_threads := nb_threads bridge - 1\<rparr>))"

text \<open>An event that was not taken is dropped.\<close>

definition PostStreamEvent :: "streamEvent \<Rightarrow> streamBridge \<Rightarrow> streamBridge option" where
  "PostStreamEvent event bridge = (if nb_deleted bridge then None else napi_call_threadsafe_function event bridge)"

definition headersEvent :: "(string option \<times> string option) list \<Rightarrow> streamEvent" where
  "headersEvent headers = HeadersEvent (concat (map (\<lambda>(name, v). case name of None \<Rightarrow> []
     | Some name \<Rightarrow> [(name, case v of None \<Rightarrow> [] | Some v \<Rightarrow> v)]) headers))"

definition postHeaders :: "(string option \<times> string option) list \<Rightarrow> streamBridge \<Rightarrow> streamBridge option" where
  "postHeaders headers bridge = PostStreamEvent (headersEvent headers) bridge"

text \<open>The verdict is the flag an earlier chunk has set.\<close>

definition postData :: "bytes \<Rightarrow> streamBridge \<Rightarrow> (streamBridge \<times> bool) option" where
  "postData data bridge =
     (if nb_deleted bridge then None
      else if nb_abortRequested bridge then Some (bridge, True)
      else map_option (\<lambda>b. (b, False)) (PostStreamEvent (DataEvent data) bridge))"

definition completeEvent :: "error \<Rightarrow> streamEvent" where
  "completeEvent e = CompleteEvent (case fst e of None \<Rightarrow> None | Some code \<Rightarrow> Some (code, case snd e of None \<Rightarrow> [] | Some m \<Rightarrow> m))"

definition postComplete :: "error \<Rightarrow> streamBridge \<Rightarrow> streamBridge option" where
  "postComplete e bridge = PostStreamEvent (completeEvent e) bridge"

definition RetireStreamBridge :: "streamBridge \<Rightarrow> streamBridge option" where
  "RetireStreamBridge bridge =
     (if nb_deleted bridge then None
      else (let retired = nb_tsfnRetired bridge; bridge = bridge\<lparr>nb_tsfnRetired := True\<rparr>
            in if retired then Some bridge else napi_release_threadsafe_function bridge))"

definition DropStreamBridge :: "bool \<Rightarrow> streamBridge \<Rightarrow> streamBridge option" where
  "DropStreamBridge envOk bridge =
     (if nb_deleted bridge then None
      else (let last = nb_refCount bridge = 1; bridge = bridge\<lparr>nb_refCount := nb_refCount bridge - 1\<rparr>
            in if \<not> last then Some bridge
               else Some (if envOk then bridge\<lparr>nb_onHeaders := False, nb_onData := False, nb_onComplete := False, nb_deleted := True\<rparr>
                          else bridge\<lparr>nb_deleted := True\<rparr>)))"

definition ReleaseStreamBridge :: "bool \<Rightarrow> streamBridge \<Rightarrow> streamBridge option" where
  "ReleaseStreamBridge envOk bridge =
     Option.bind (RetireStreamBridge bridge) (\<lambda>bridge.
       if nb_ownerReleased bridge then Some bridge else DropStreamBridge envOk (bridge\<lparr>nb_ownerReleased := True\<rparr>))"

definition FinalizeStreamBridge :: "bool \<Rightarrow> streamBridge \<Rightarrow> streamBridge option" where
  "FinalizeStreamBridge envOk bridge = DropStreamBridge envOk (bridge\<lparr>nb_finalized := True\<rparr>)"

text \<open>
  What the callback returned: \<open>None\<close> when it threw, else the verdict \<open>VerdictFromJs\<close> reads: a true
  boolean or a number other than zero, which not-a-number, the \<open>None\<close> of \<open>JsNumber\<close>, is too.
\<close>

datatype jsValue = JsBoolean bool | JsNumber "real option" | JsOther

definition VerdictFromJs :: "jsValue \<Rightarrow> bool" where
  "VerdictFromJs result = (case result of JsBoolean b \<Rightarrow> b | JsNumber n \<Rightarrow> n \<noteq> Some 0 | JsOther \<Rightarrow> False)"

definition hasCallback :: "streamEvent \<Rightarrow> streamBridge \<Rightarrow> bool" where
  "hasCallback event bridge = (case event of HeadersEvent hs \<Rightarrow> nb_onHeaders bridge | DataEvent d \<Rightarrow> nb_onData bridge | CompleteEvent e \<Rightarrow> nb_onComplete bridge)"

text \<open>
  The oldest event in the queue, run on the JavaScript thread; \<open>argOk\<close> is whether its argument could be
  built. Without an environment the event is freed, and the bridge not looked at.
\<close>

definition RunStreamEvent :: "bool \<Rightarrow> bool \<Rightarrow> jsValue option \<Rightarrow> streamBridge \<Rightarrow> streamBridge option" where
  "RunStreamEvent envOk argOk result bridge =
     (case nb_queue bridge of
        [] \<Rightarrow> Some bridge
      | event # queue \<Rightarrow>
          (let bridge = bridge\<lparr>nb_queue := queue\<rparr>
           in if \<not> envOk then Some bridge
              else if nb_deleted bridge then None
              else (let bridge = (if hasCallback event bridge \<and> argOk
                           then bridge\<lparr>nb_calls := nb_calls bridge @ [event],
                              nb_abortRequested := (case result of None \<Rightarrow> True
                                | Some r \<Rightarrow> (\<exists>d. event = DataEvent d) \<and> VerdictFromJs r \<or> nb_abortRequested bridge)\<rparr>
                           else bridge)
                    in case event of CompleteEvent e \<Rightarrow> RetireStreamBridge bridge | _ \<Rightarrow> Some bridge)))"

section \<open>Runs\<close>

text \<open>
  The library may call back at any time; a callback that Node-API leaves undefined has no step. The
  threadsafe function runs its events one by one and its finalizer once: when it was released and its
  queue is empty, or when the environment is torn down, which then runs what is left in the queue
  without an environment. The first argument lists the events of the callbacks so far.
\<close>

inductive bridgeReach :: "streamEvent list \<Rightarrow> streamBridge \<Rightarrow> bool" where
  Create: "CreateStreamBridge onHeaders onData onComplete True = Some b \<Longrightarrow> bridgeReach [] b"
| Headers: "bridgeReach es b \<Longrightarrow> postHeaders hs b = Some b' \<Longrightarrow> bridgeReach (es @ [headersEvent hs]) b'"
| Data: "bridgeReach es b \<Longrightarrow> postData d b = Some (b', stop) \<Longrightarrow> bridgeReach (if stop then es else es @ [DataEvent d]) b'"
| Complete: "bridgeReach es b \<Longrightarrow> postComplete e b = Some b' \<Longrightarrow> bridgeReach (es @ [completeEvent e]) b'"
| Run: "bridgeReach es b \<Longrightarrow> \<not> nb_finalized b \<or> \<not> envOk \<Longrightarrow> envOk \<or> nb_closing b
    \<Longrightarrow> RunStreamEvent envOk argOk result b = Some b' \<Longrightarrow> bridgeReach es b'"
| Finalize: "bridgeReach es b \<Longrightarrow> \<not> nb_finalized b \<Longrightarrow> nb_closing b \<or> (nb_threads b = 0 \<and> nb_queue b = [])
    \<Longrightarrow> FinalizeStreamBridge envOk b = Some b' \<Longrightarrow> bridgeReach es b'"
| Release: "bridgeReach es b \<Longrightarrow> ReleaseStreamBridge envOk b = Some b' \<Longrightarrow> bridgeReach es b'"
| Teardown: "bridgeReach es b \<Longrightarrow> bridgeReach es (b\<lparr>nb_closing := True\<rparr>)"

lemmas bridge_ops = postHeaders_def postData_def postComplete_def PostStreamEvent_def napi_call_threadsafe_function_def
  napi_release_threadsafe_function_def RetireStreamBridge_def ReleaseStreamBridge_def DropStreamBridge_def FinalizeStreamBridge_def
  RunStreamEvent_def CreateStreamBridge_def Let_def

text \<open>The count is the number of owners left; the bridge is gone when there is none.\<close>

definition ownersOk :: "streamBridge \<Rightarrow> bool" where
  "ownersOk b \<longleftrightarrow> nb_refCount b = (if nb_finalized b then 0 else 1) + (if nb_ownerReleased b then 0 else 1)
     \<and> (nb_deleted b \<longleftrightarrow> nb_finalized b \<and> nb_ownerReleased b) \<and> (nb_ownerReleased b \<longrightarrow> nb_tsfnRetired b)"

text \<open>While the environment lives, the function is released once, by the retirement.\<close>

definition threadsOk :: "streamBridge \<Rightarrow> bool" where
  "threadsOk b \<longleftrightarrow> nb_closing b \<or> (nb_threads b = (if nb_tsfnRetired b then 0 else 1)
     \<and> (nb_finalized b \<longrightarrow> nb_tsfnRetired b \<and> nb_queue b = []))"

lemma post_keeps:
  "PostStreamEvent event b = Some b' \<Longrightarrow> nb_refCount b' = nb_refCount b \<and> nb_finalized b' = nb_finalized b \<and> nb_deleted b' = nb_deleted b
     \<and> nb_tsfnRetired b' = nb_tsfnRetired b \<and> nb_ownerReleased b' = nb_ownerReleased b \<and> nb_closing b' = nb_closing b
     \<and> \<not> nb_finalized b \<and> (\<not> nb_closing b \<longrightarrow> nb_threads b' = nb_threads b)"
  by (auto simp: bridge_ops split: if_splits)

lemma post_owners: "PostStreamEvent event b = Some b' \<Longrightarrow> ownersOk b \<and> threadsOk b \<Longrightarrow> ownersOk b' \<and> threadsOk b'"
  using post_keeps [of event b b'] by (auto simp: ownersOk_def threadsOk_def)

text \<open>What a retirement and an event do to a bridge, by cases.\<close>

lemma retire_cases:
  assumes "RetireStreamBridge b = Some b'"
  obtains "\<not> nb_deleted b" "nb_tsfnRetired b" "b' = b\<lparr>nb_tsfnRetired := True\<rparr>"
  | "\<not> nb_deleted b" "\<not> nb_tsfnRetired b" "\<not> nb_finalized b" "nb_threads b \<noteq> 0" "b' = b\<lparr>nb_tsfnRetired := True, nb_threads := nb_threads b - 1\<rparr>"
  using assms by (auto simp: RetireStreamBridge_def napi_release_threadsafe_function_def Let_def split: if_splits)

lemma retire_owners: "RetireStreamBridge b = Some b' \<Longrightarrow> ownersOk b \<and> threadsOk b \<Longrightarrow> ownersOk b' \<and> threadsOk b'"
  by (erule retire_cases) (auto simp: ownersOk_def threadsOk_def)

lemma run_cases:
  assumes "RunStreamEvent envOk argOk result b = Some b'"
  obtains "nb_queue b = []" "b' = b"
  | event queue where "nb_queue b = event # queue" "b' = b\<lparr>nb_queue := queue\<rparr>"
  | event queue calls abort where "nb_queue b = event # queue" "envOk" "calls = nb_calls b \<or> calls = nb_calls b @ [event]"
      "b' = b\<lparr>nb_queue := queue, nb_calls := calls, nb_abortRequested := abort\<rparr>"
  | e queue calls abort where "nb_queue b = CompleteEvent e # queue" "envOk" "calls = nb_calls b \<or> calls = nb_calls b @ [CompleteEvent e]"
      "RetireStreamBridge (b\<lparr>nb_queue := queue, nb_calls := calls, nb_abortRequested := abort\<rparr>) = Some b'"
proof (cases "nb_queue b")
  case Nil
  have "b' = b" using assms Nil by (simp add: RunStreamEvent_def)
  then show ?thesis by (rule that(1) [OF Nil])
next
  case (Cons event queue)
  show ?thesis
  proof (cases envOk)
    case False
    have "b' = b\<lparr>nb_queue := queue\<rparr>" using assms False Cons by (simp add: RunStreamEvent_def)
    then show ?thesis by (rule that(2) [OF Cons])
  next
    case True
    let ?called = "\<lambda>calls abort. b\<lparr>nb_queue := queue, nb_calls := calls, nb_abortRequested := abort\<rparr>"
    define calls where "calls = (if hasCallback event (b\<lparr>nb_queue := queue\<rparr>) \<and> argOk then nb_calls b @ [event] else nb_calls b)"
    define abort where "abort = (if hasCallback event (b\<lparr>nb_queue := queue\<rparr>) \<and> argOk then (case result of None \<Rightarrow> True
                | Some r \<Rightarrow> (\<exists>d. event = DataEvent d) \<and> VerdictFromJs r \<or> nb_abortRequested b) else nb_abortRequested b)"
    have "b\<lparr>nb_queue := queue\<rparr> = ?called (nb_calls b) (nb_abortRequested b)" by simp
    then have r: "(case event of CompleteEvent e \<Rightarrow> RetireStreamBridge (?called calls abort) | _ \<Rightarrow> Some (?called calls abort)) = Some b'"
      using assms True Cons unfolding RunStreamEvent_def Let_def calls_def abort_def
      by (cases event; cases "hasCallback event (b\<lparr>nb_queue := queue\<rparr>) \<and> argOk"; cases result) (auto split: if_splits)
    have c: "calls = nb_calls b \<or> calls = nb_calls b @ [event]" by (simp add: calls_def)
    show ?thesis
    proof (cases event)
      case (CompleteEvent e)
      have "RetireStreamBridge (?called calls abort) = Some b'" using r CompleteEvent by simp
      then show ?thesis using that(4) [of e queue calls abort] Cons CompleteEvent True c by blast
    next
      case (HeadersEvent hs)
      then have "b' = ?called calls abort" using r by simp
      then show ?thesis by (rule that(3) [OF Cons True c])
    next
      case (DataEvent d)
      then have "b' = ?called calls abort" using r by simp
      then show ?thesis by (rule that(3) [OF Cons True c])
    qed
  qed
qed

lemma run_owners:
  assumes "RunStreamEvent envOk argOk result b = Some b'" "ownersOk b \<and> threadsOk b"
  shows "ownersOk b' \<and> threadsOk b'"
  using assms(1)
proof (cases rule: run_cases)
  case (4 e queue calls abort)
  show ?thesis by (rule retire_owners [OF 4(4)]) (use assms(2) 4(1) in \<open>auto simp: ownersOk_def threadsOk_def\<close>)
qed (use assms(2) in \<open>auto simp: ownersOk_def threadsOk_def\<close>)

lemma drop_cases:
  assumes "DropStreamBridge envOk b = Some b'"
  shows "\<not> nb_deleted b \<and> nb_refCount b' = nb_refCount b - 1 \<and> nb_deleted b' = (nb_refCount b = 1) \<and> nb_finalized b' = nb_finalized b
    \<and> nb_ownerReleased b' = nb_ownerReleased b \<and> nb_tsfnRetired b' = nb_tsfnRetired b \<and> nb_threads b' = nb_threads b
    \<and> nb_closing b' = nb_closing b \<and> nb_queue b' = nb_queue b \<and> nb_calls b' = nb_calls b"
  using assms by (auto simp: DropStreamBridge_def Let_def split: if_splits)

lemma finalize_owners:
  assumes "FinalizeStreamBridge envOk b = Some b'" "ownersOk b \<and> threadsOk b" "\<not> nb_finalized b" "nb_closing b \<or> (nb_threads b = 0 \<and> nb_queue b = [])"
  shows "ownersOk b' \<and> threadsOk b'"
  using drop_cases [OF assms(1) [unfolded FinalizeStreamBridge_def]] assms(2-4) by (auto simp: ownersOk_def threadsOk_def split: if_splits)

lemma release_owners:
  assumes "ReleaseStreamBridge envOk b = Some b'" "ownersOk b \<and> threadsOk b"
  shows "ownersOk b' \<and> threadsOk b'"
proof -
  obtain b1 where r: "RetireStreamBridge b = Some b1"
    and d: "(if nb_ownerReleased b1 then Some b1 else DropStreamBridge envOk (b1\<lparr>nb_ownerReleased := True\<rparr>)) = Some b'"
    using assms(1) by (cases "RetireStreamBridge b") (simp_all add: ReleaseStreamBridge_def)
  have i: "ownersOk b1 \<and> threadsOk b1" "nb_tsfnRetired b1" using retire_owners [OF r assms(2)] r by (auto elim: retire_cases)
  show ?thesis
  proof (cases "nb_ownerReleased b1")
    case True
    then show ?thesis using d i by simp
  next
    case False
    then show ?thesis using drop_cases [of envOk "b1\<lparr>nb_ownerReleased := True\<rparr>" b'] d i by (auto simp: ownersOk_def threadsOk_def split: if_splits)
  qed
qed

lemma reach_owners: "bridgeReach es b \<Longrightarrow> ownersOk b \<and> threadsOk b"
proof (induction rule: bridgeReach.induct)
  case (Create onHeaders onData onComplete b)
  then show ?case by (auto simp: CreateStreamBridge_def ownersOk_def threadsOk_def split: if_splits)
next
  case (Headers es b hs b')
  then show ?case using post_owners by (auto simp: postHeaders_def)
next
  case (Data es b d b' stop)
  then show ?case using post_owners by (auto simp: postData_def split: if_splits)
next
  case (Complete es b e b')
  then show ?case using post_owners by (auto simp: postComplete_def)
next
  case (Run es b envOk argOk result b')
  then show ?case using run_owners by blast
next
  case (Finalize es b envOk b')
  then show ?case using finalize_owners by blast
next
  case (Release es b envOk b')
  then show ?case using release_owners by blast
next
  case (Teardown es b)
  then show ?case by (simp add: ownersOk_def threadsOk_def)
qed

text \<open>No operation but a post and a run touches the queue and the calls.\<close>

lemma retire_keeps_events: "RetireStreamBridge b = Some b' \<Longrightarrow> nb_queue b' = nb_queue b \<and> nb_calls b' = nb_calls b \<and> nb_ownerReleased b' = nb_ownerReleased b"
  by (erule retire_cases) simp_all

lemma release_keeps_events:
  assumes "ReleaseStreamBridge envOk b = Some b'"
  shows "nb_queue b' = nb_queue b \<and> nb_calls b' = nb_calls b \<and> nb_ownerReleased b'"
proof -
  obtain b1 where r: "RetireStreamBridge b = Some b1"
    and d: "(if nb_ownerReleased b1 then Some b1 else DropStreamBridge envOk (b1\<lparr>nb_ownerReleased := True\<rparr>)) = Some b'"
    using assms by (cases "RetireStreamBridge b") (simp_all add: ReleaseStreamBridge_def)
  show ?thesis using retire_keeps_events [OF r] d drop_cases [of envOk "b1\<lparr>nb_ownerReleased := True\<rparr>" b'] by (auto split: if_splits)
qed

lemma finalize_keeps_events:
  "FinalizeStreamBridge envOk b = Some b' \<Longrightarrow> nb_queue b' = nb_queue b \<and> nb_calls b' = nb_calls b
     \<and> nb_tsfnRetired b' = nb_tsfnRetired b \<and> nb_ownerReleased b' = nb_ownerReleased b"
  unfolding FinalizeStreamBridge_def by (drule drop_cases) simp

lemma post_events:
  assumes "PostStreamEvent event b = Some b'" and "subseq (nb_calls b @ nb_queue b) es"
  shows "subseq (nb_calls b' @ nb_queue b') (es @ [event])"
proof (cases "nb_closing b")
  case True
  then show ?thesis
    using assms by (auto simp: bridge_ops split: if_splits intro: subseq_order.trans)
next
  case False
  then have "nb_calls b' @ nb_queue b' = (nb_calls b @ nb_queue b) @ [event]"
    using assms(1) by (auto simp: bridge_ops split: if_splits)
  then show ?thesis
    using assms(2) list_emb_append_mono [of "(=)" "nb_calls b @ nb_queue b" es "[event]" "[event]"] by simp
qed

lemma subseq_pop: "subseq (calls @ queue) (calls @ event # queue)"
  using list_emb_append_mono [OF subseq_order.refl [of calls] list_emb_Cons [of "(=)", OF subseq_order.refl [of queue]]] .

lemma run_events:
  assumes "RunStreamEvent envOk argOk result b = Some b'"
  shows "subseq (nb_calls b' @ nb_queue b') (nb_calls b @ nb_queue b)"
    and "nb_tsfnRetired b' \<longrightarrow> nb_tsfnRetired b \<or> (\<exists>e. CompleteEvent e \<in> set (nb_queue b))" and "nb_ownerReleased b' = nb_ownerReleased b"
proof -
  have "subseq (nb_calls b' @ nb_queue b') (nb_calls b @ nb_queue b) \<and> nb_ownerReleased b' = nb_ownerReleased b
    \<and> (nb_tsfnRetired b' \<longrightarrow> nb_tsfnRetired b \<or> (\<exists>e. CompleteEvent e \<in> set (nb_queue b)))"
    using assms
  proof (cases rule: run_cases)
    case (4 e queue calls abort)
    then show ?thesis using retire_keeps_events [OF 4(4)] subseq_pop [of "nb_calls b" queue "CompleteEvent e"] by auto
  qed (use subseq_pop in auto)
  then show "subseq (nb_calls b' @ nb_queue b') (nb_calls b @ nb_queue b)" "nb_ownerReleased b' = nb_ownerReleased b"
    "nb_tsfnRetired b' \<longrightarrow> nb_tsfnRetired b \<or> (\<exists>e. CompleteEvent e \<in> set (nb_queue b))" by blast+
qed

definition eventsOk :: "streamEvent list \<Rightarrow> streamBridge \<Rightarrow> bool" where
  "eventsOk es b \<longleftrightarrow> subseq (nb_calls b @ nb_queue b) es \<and> (nb_tsfnRetired b \<longrightarrow> nb_ownerReleased b \<or> (\<exists>e. CompleteEvent e \<in> set es))"

lemma post_eventsOk: "PostStreamEvent event b = Some b' \<Longrightarrow> eventsOk es b \<Longrightarrow> eventsOk (es @ [event]) b'"
  using post_events [of event b b' es] post_keeps [of event b b'] by (auto simp: eventsOk_def)

lemma reach_events: "bridgeReach es b \<Longrightarrow> eventsOk es b"
proof (induction rule: bridgeReach.induct)
  case (Create onHeaders onData onComplete b)
  then show ?case by (auto simp: CreateStreamBridge_def eventsOk_def split: if_splits)
next
  case (Headers es b hs b')
  then show ?case using post_eventsOk by (auto simp: postHeaders_def)
next
  case (Data es b d b' stop)
  then show ?case using post_eventsOk by (auto simp: postData_def split: if_splits)
next
  case (Complete es b e b')
  then show ?case using post_eventsOk by (auto simp: postComplete_def)
next
  case (Run es b envOk argOk result b')
  have "set (nb_calls b @ nb_queue b) \<subseteq> set es" using Run.IH by (auto simp: eventsOk_def dest: list_emb_set)
  then have q: "set (nb_queue b) \<subseteq> set es" by simp
  show ?case using Run.IH run_events [OF Run.hyps(4)] q subseq_order.trans by (auto simp: eventsOk_def)
next
  case (Finalize es b envOk b')
  then show ?case using finalize_keeps_events by (metis eventsOk_def)
next
  case (Release es b envOk b')
  then show ?case using release_keeps_events [OF Release.hyps(2)] by (simp add: eventsOk_def)
next
  case (Teardown es b)
  then show ?case by (simp add: eventsOk_def)
qed

lemma retire_defined: "ownersOk b \<Longrightarrow> threadsOk b \<Longrightarrow> \<not> nb_closing b \<Longrightarrow> \<not> nb_deleted b \<Longrightarrow> RetireStreamBridge b \<noteq> None"
  by (auto simp: RetireStreamBridge_def napi_release_threadsafe_function_def ownersOk_def threadsOk_def Let_def)

lemma release_defined:
  assumes "ownersOk b" "threadsOk b" "\<not> nb_closing b" "\<not> nb_ownerReleased b"
  shows "ReleaseStreamBridge envOk b \<noteq> None"
proof -
  have live: "\<not> nb_deleted b" using assms by (simp add: ownersOk_def)
  then obtain b1 where r: "RetireStreamBridge b = Some b1" using retire_defined [OF assms(1-3)] by blast
  have "nb_deleted b1 = nb_deleted b" "nb_ownerReleased b1 = nb_ownerReleased b" using r by (auto elim: retire_cases)
  then show ?thesis using r live by (auto simp: ReleaseStreamBridge_def DropStreamBridge_def Let_def)
qed

lemma run_defined:
  assumes "ownersOk b" "threadsOk b" "\<not> nb_closing b" "\<not> nb_finalized b"
  shows "RunStreamEvent True argOk result b \<noteq> None"
proof (cases "nb_queue b")
  case Nil
  then show ?thesis by (simp add: RunStreamEvent_def)
next
  case (Cons event queue)
  have live: "\<not> nb_deleted b" using assms by (simp add: ownersOk_def)
  have r: "RetireStreamBridge (b\<lparr>nb_queue := q, nb_calls := c, nb_abortRequested := a\<rparr>) \<noteq> None" for q c a
    by (rule retire_defined) (use assms live in \<open>simp_all add: ownersOk_def threadsOk_def\<close>)
  have r': "RetireStreamBridge (b\<lparr>nb_queue := q\<rparr>) \<noteq> None" for q
    by (rule retire_defined) (use assms live in \<open>simp_all add: ownersOk_def threadsOk_def\<close>)
  show ?thesis using Cons live r r' by (auto simp: RunStreamEvent_def Let_def split: streamEvent.split)
qed

lemma living_bridge:
  assumes "ownersOk b \<and> threadsOk b"
  shows "nb_closing b \<or>
        (nb_threads b = (if nb_tsfnRetired b then 0 else 1)
         \<and> (postHeaders hs b = None) = nb_tsfnRetired b \<and> (postComplete e b = None) = nb_tsfnRetired b
         \<and> (postData d b = None) = (if nb_abortRequested b then nb_deleted b else nb_tsfnRetired b)
         \<and> (nb_ownerReleased b \<or> ReleaseStreamBridge envOk b \<noteq> None)
         \<and> (nb_finalized b \<or> (RunStreamEvent True argOk result b \<noteq> None \<and> FinalizeStreamBridge envOk b \<noteq> None))
         \<and> (nb_queue b = [] \<or> \<not> nb_finalized b))"
proof (cases "nb_closing b")
  case False
  have p: "(PostStreamEvent ev b = None) = nb_tsfnRetired b" for ev
    using assms False by (auto simp: PostStreamEvent_def napi_call_threadsafe_function_def ownersOk_def threadsOk_def)
  have f: "nb_finalized b \<or> FinalizeStreamBridge envOk b \<noteq> None"
    using assms by (auto simp: FinalizeStreamBridge_def DropStreamBridge_def ownersOk_def Let_def)
  have d: "(postData d b = None) = (if nb_abortRequested b then nb_deleted b else nb_tsfnRetired b)"
    using assms p by (auto simp: postData_def ownersOk_def)
  show ?thesis using assms False p f d release_defined [of b envOk] run_defined [of b argOk result]
    by (auto simp: postHeaders_def postComplete_def threadsOk_def)
qed simp

text \<open>C36. The stream bridge of Node.js is deleted once, when the request and the threadsafe function have both
  let go of it, and JavaScript is called with the events of the callbacks in their order, none of them
  twice, whatever the order of callbacks, events, releases and teardown. While the environment lives,
  the threadsafe function is released exactly once, a callback is defined exactly as long as it was not
  released, which happens only when the request was reaped or its completion was posted, and the next
  event of the queue and the release of either owner find the bridge in memory.\<close>

theorem node_bridge_sound:
  assumes "bridgeReach es b"
  shows "nb_deleted b = (nb_finalized b \<and> nb_ownerReleased b)
    \<and> subseq (nb_calls b @ nb_queue b) es
    \<and> (nb_closing b \<or>
        (nb_threads b = (if nb_tsfnRetired b then 0 else 1)
         \<and> (\<not> nb_tsfnRetired b \<or> nb_ownerReleased b \<or> (\<exists>e. CompleteEvent e \<in> set es))
         \<and> (postHeaders hs b = None) = nb_tsfnRetired b \<and> (postComplete e b = None) = nb_tsfnRetired b
         \<and> (postData d b = None) = (if nb_abortRequested b then nb_deleted b else nb_tsfnRetired b)
         \<and> (nb_ownerReleased b \<or> ReleaseStreamBridge envOk b \<noteq> None)
         \<and> (nb_finalized b \<or> (RunStreamEvent True argOk result b \<noteq> None \<and> FinalizeStreamBridge envOk b \<noteq> None))
         \<and> (nb_queue b = [] \<or> \<not> nb_finalized b)))"
  using reach_owners [OF assms] reach_events [OF assms] living_bridge [of b hs e d envOk argOk result]
  by (simp add: ownersOk_def eventsOk_def)

text \<open>A bridge for data only, with one chunk passed on and a second one in the queue.\<close>

definition sampleBridge :: streamBridge where
  "sampleBridge = \<lparr>nb_onHeaders = False, nb_onData = True, nb_onComplete = False, nb_abortRequested = False,
     nb_refCount = 2, nb_tsfnRetired = False, nb_ownerReleased = False, nb_threads = 1, nb_queue = [DataEvent [2]],
     nb_closing = False, nb_calls = [DataEvent [1]], nb_finalized = False, nb_deleted = False\<rparr>"

lemma sample_bridge_reached: "bridgeReach [DataEvent [1], DataEvent [2]] sampleBridge"
proof -
  define b where "b = sampleBridge\<lparr>nb_queue := [], nb_calls := []\<rparr>"
  have "bridgeReach [] b"
    by (rule bridgeReach.Create [of False True False]) (simp add: b_def sampleBridge_def CreateStreamBridge_def)
  then have "bridgeReach [DataEvent [1]] (b\<lparr>nb_queue := [DataEvent [1]]\<rparr>)"
    using bridgeReach.Data [of "[]" b "[1]" _ False] by (simp add: b_def sampleBridge_def bridge_ops)
  then have "bridgeReach [DataEvent [1]] (b\<lparr>nb_calls := [DataEvent [1]]\<rparr>)"
    by (rule bridgeReach.Run [where envOk = True and argOk = True and result = "Some JsOther"])
      (simp_all add: b_def sampleBridge_def bridge_ops hasCallback_def VerdictFromJs_def)
  then have "bridgeReach ([DataEvent [1]] @ [DataEvent [2]]) sampleBridge"
    using bridgeReach.Data [of "[DataEvent [1]]" "b\<lparr>nb_calls := [DataEvent [1]]\<rparr>" "[2]" sampleBridge False]
    by (simp add: b_def sampleBridge_def bridge_ops)
  then show ?thesis by simp
qed

lemma node_bridge_sound_witness:
  "postData [3] sampleBridge \<noteq> None \<and> nb_threads sampleBridge = 1
    \<and> subseq (nb_calls sampleBridge @ nb_queue sampleBridge) [DataEvent [1], DataEvent [2]]"
  using node_bridge_sound [OF sample_bridge_reached, of "[]" "(None, None)" "[3]" True True "Some JsOther"]
  by (simp add: sampleBridge_def)

text \<open>
  Where a callback is undefined. A request that is reaped while its stream is registered, as by the
  poll of \<open>timeout_text_uninitialised\<close>, leaves the next callback a released function; so does a
  completion that ran, when data follows it (\<open>data_behind_completion\<close>). While the environment is torn
  down the first callback gives up the thread, and the second is undefined; so is any after it.
\<close>

lemma reaped_then_callback:
  assumes "bridgeReach es b" "\<not> nb_closing b" "ReleaseStreamBridge envOk b = Some b'" "\<not> nb_closing b'"
  shows "postHeaders hs b' = None"
proof -
  have i: "ownersOk b' \<and> threadsOk b'" by (rule reach_owners [OF bridgeReach.Release [OF assms(1,3)]])
  moreover have "nb_ownerReleased b'" using release_keeps_events [OF assms(3)] by simp
  ultimately show ?thesis using living_bridge [of b' hs] assms(4) by (auto simp: ownersOk_def)
qed

lemma teardown_then_callbacks:
  assumes "nb_closing b" "nb_threads b = 1" "postHeaders hs b = Some b'"
  shows "postHeaders hs b' = None"
  using assms by (auto simp: postHeaders_def PostStreamEvent_def napi_call_threadsafe_function_def split: if_splits)

section \<open>Requests\<close>

text \<open>
  The state of the addon: the bridges in memory and the identifiers whose bridge waits for a poll.
  The verdict of a bridge is what its flag says when the chunk arrives.
\<close>

record 'z nodeAddon =
  nd_client :: "'z client"
  nd_bridges :: "nat \<Rightarrow> streamBridge option"
  nd_pendingStreams :: "nat \<Rightarrow> nat option"

definition nodeContract :: "(nat \<Rightarrow> event list \<Rightarrow> bytes \<Rightarrow> bool) \<Rightarrow> nat option \<Rightarrow> responseContract option" where
  "nodeContract verdict bridge =
     map_option (\<lambda>p. \<lparr>rc_onHeaders = True, rc_onData = Some (verdict p), rc_onComplete = True\<rparr>) bridge"

definition releaseAt :: "bool \<Rightarrow> nat option \<Rightarrow> 'z nodeAddon \<Rightarrow> 'z nodeAddon option" where
  "releaseAt envOk bridge st =
     (case bridge of
        None \<Rightarrow> Some st
      | Some p \<Rightarrow> map_option (\<lambda>b. st\<lparr>nd_bridges := (nd_bridges st)(p \<mapsto> b)\<rparr>) (Option.bind (nd_bridges st p) (ReleaseStreamBridge envOk)))"

text \<open>
  The blocking exchange, on a worker thread or, without callbacks, on the thread of JavaScript.
\<close>

definition ExecuteRequest :: "'j bridgeLib \<Rightarrow> ('z, 'j) bridgeCall \<Rightarrow> nat option \<Rightarrow> 'z nodeAddon \<Rightarrow> ('z nodeAddon \<times> bridgeText) option" where
  "ExecuteRequest L call bridge st =
     (case sendPinned L call 0 (nodeContract (bl_verdict L) bridge) (nd_client st) of
        None \<Rightarrow> None
      | Some (cl, None) \<Rightarrow> Some (st\<lparr>nd_client := cl\<rparr>, BridgeNothing)
      | Some (cl, Some handle) \<Rightarrow>
          if \<not> bc_mallocOk call then Some (st\<lparr>nd_client := cl\<rparr>, BridgeNothing)
          else map_option (\<lambda>(cl, status, outLen, buffer). (st\<lparr>nd_client := cl\<rparr>, blockingResult status outLen buffer))
                 (nodeCollect (bc_env call) (bc_env' call) (bl_collect L) (bc_reallocOk call) handle cl))"

definition CompleteRequest :: "bool \<Rightarrow> nat option \<Rightarrow> 'z nodeAddon \<Rightarrow> 'z nodeAddon option" where
  "CompleteRequest envOk bridge st = releaseAt envOk bridge st"

definition nodeHandleRequest :: "'j bridgeLib \<Rightarrow> ('z, 'j) bridgeCall \<Rightarrow> 'z nodeAddon \<Rightarrow> ('z nodeAddon \<times> bridgeText) option" where
  "nodeHandleRequest L call st = ExecuteRequest L call None st"

definition HandleRequestNonBlocking ::
    "'j bridgeLib \<Rightarrow> ('z, 'j) bridgeCall \<Rightarrow> bool \<Rightarrow> nat option \<Rightarrow> 'z nodeAddon \<Rightarrow> ('z nodeAddon \<times> nat option) option" where
  "HandleRequestNonBlocking L call envOk bridge st =
     (case sendPinned L call 1 (nodeContract (bl_verdict L) bridge) (nd_client st) of
        None \<Rightarrow> None
      | Some (cl, None) \<Rightarrow> map_option (\<lambda>st. (st, None)) (releaseAt envOk bridge (st\<lparr>nd_client := cl\<rparr>))
      | Some (cl, Some i) \<Rightarrow>
          Some (st\<lparr>nd_client := cl, nd_pendingStreams := (case bridge of None \<Rightarrow> nd_pendingStreams st | Some p \<Rightarrow> (nd_pendingStreams st)(i \<mapsto> p))\<rparr>, Some i))"

text \<open>A poll releases the bridge of a request that is over. Without memory it throws.\<close>

definition PollRequest ::
    "'j bridgeLib \<Rightarrow> ('z, 'j) bridgeCall \<Rightarrow> bool \<Rightarrow> nat \<Rightarrow> 'z nodeAddon \<Rightarrow> ('z nodeAddon \<times> (string + int \<times> bridgeText)) option" where
  "PollRequest L call envOk handle st =
     (if \<not> bc_mallocOk call then Some (st, Inl ''Memory allocation failed'')
      else (case nodeCollect (bc_env call) (bc_env' call) (bl_collect L) (bc_reallocOk call) handle (nd_client st) of
              None \<Rightarrow> None
            | Some (cl, status, outLen, buffer) \<Rightarrow>
                map_option (\<lambda>st. (st, Inr (status, handBack status outLen buffer)))
                  (if status \<noteq> 0
                   then map_option (\<lambda>st'. st'\<lparr>nd_pendingStreams := (nd_pendingStreams st)(handle := None)\<rparr>)
                          (releaseAt envOk (nd_pendingStreams st handle) (st\<lparr>nd_client := cl\<rparr>))
                   else Some (st\<lparr>nd_client := cl\<rparr>))))"

text \<open>
  When the longer buffer cannot be had, the poll still hands JavaScript as many characters as the
  response has, out of a buffer that was not written.
\<close>

lemma node_truncated_uninitialised:
  assumes "handleResponse (bc_env call) (bl_collect L) (Some h) True BRIDGE_BUFFER_SIZE (nd_client st) = Some (cl, 2, outLen, None)"
    and "0 < outLen" "nd_pendingStreams st h = None" "bc_mallocOk call" "\<not> bc_reallocOk call"
  shows "\<exists>st'. PollRequest L call envOk h st = Some (st', Inr (2, BridgeUninitialised))"
  using assms by (simp add: PollRequest_def nodeCollect_def releaseAt_def handBack_def)

text \<open>A finished response reaches JavaScript whole, and its bridge is released.\<close>

lemma node_collects_response:
  assumes "clientOk cl" "pendingAt cl h b i q" "streamOf cl b q = Some st" "st_isEnded st"
    and "movedOut (bc_env call) (bl_collect L) b st b1 st1" "resultText (bl_collect L) cl b1 s" "s \<noteq> []" "length s + 1 < 2 ^ 31"
    and "bc_mallocOk call" "bc_reallocOk call" "nd_client nd = cl" "nd_pendingStreams nd h = None"
  shows "\<exists>cl'. PollRequest L call envOk h nd
      = Some (nd\<lparr>nd_client := cl', nd_pendingStreams := (nd_pendingStreams nd)(h := None)\<rparr>, Inr (1, BridgeText s)) \<and> handedOver cl h i q cl'"
proof -
  have "length s < 2 ^ 31" "(0::int) < BRIDGE_BUFFER_SIZE" using assms(8) by (simp_all add: BRIDGE_BUFFER_SIZE_def)
  note p = poll_twice [OF assms(1-6) this]
  have hb: "handBack 1 (int (length s)) (Some s) = BridgeText s" using assms(7) by (simp add: handBack_def)
  have "\<exists>cl'. nodeCollect (bc_env call) (bc_env' call) (bl_collect L) True h cl = Some (cl', 1, int (length s), Some s) \<and> handedOver cl h i q cl'"
  proof (cases "int (length s) < BRIDGE_BUFFER_SIZE")
    case True
    then show ?thesis using p by (auto simp: nodeCollect_def)
  next
    case False
    then obtain cl1 where one: "handleResponse (bc_env call) (bl_collect L) (Some h) True BRIDGE_BUFFER_SIZE cl = Some (cl1, 2, int (length s), None)"
      "\<forall>env' capacity'. int (length s) < capacity' \<longrightarrow> (\<exists>cl''. handleResponse env' (bl_collect L) (Some h) True capacity' cl1
          = Some (cl'', 1, int (length s), Some s) \<and> handedOver cl h i q cl'')" using p by auto
    then obtain cl2 where "handleResponse (bc_env' call) (bl_collect L) (Some h) True (int (length s) + 1) cl1 = Some (cl2, 1, int (length s), Some s)"
      "handedOver cl h i q cl2" by (metis less_add_one)
    moreover have "\<not> int (length s) + 1 \<ge> 2 ^ 31" using assms(8) by simp
    ultimately show ?thesis using one(1) by (simp add: nodeCollect_def)
  qed
  then show ?thesis using assms(9-12) hb by (auto simp: PollRequest_def releaseAt_def)
qed

text \<open>The object a callback gets for the headers has one value for each name, the last one.\<close>

definition BuildHeaderObject :: "(string \<times> string) list \<Rightarrow> string \<Rightarrow> string option" where
  "BuildHeaderObject headers = fold (\<lambda>(name, v) object. object(name \<mapsto> v)) headers Map.empty"

lemma header_object: "BuildHeaderObject headers = map_of (rev headers)"
proof -
  have "fold (\<lambda>(name, v) object. object(name \<mapsto> v)) hs m = m ++ map_of (rev hs)" for hs :: "(string \<times> string) list" and m
    by (induction hs arbitrary: m) (auto simp: map_add_assoc)
  then show ?thesis by (simp add: BuildHeaderObject_def)
qed

end
