(* ===== verification/DecodeReturns.thy ===== *)
theory DecodeReturns
  imports ClientResult
begin

text \<open>
  The one-shot decoders of \<open>src/CompressHandler.c\<close> loop until the library is done. Here: they return on
  every payload, because each turn doubles a buffer and memory is finite. Zstandard also loops
  without growing its buffer; it returns as its library gives up after a number of calls that
  neither consume nor produce.
\<close>

section \<open>Loops that double the buffer\<close>

definition memoryBelow :: "nat \<Rightarrow> (nat \<Rightarrow> bool) \<Rightarrow> bool" where
  "memoryBelow m alloc \<longleftrightarrow> (\<forall>n. alloc n \<longrightarrow> n < m)"

lemma double_closer: "memoryBelow m alloc \<Longrightarrow> alloc (bufSize * 2) \<Longrightarrow> 0 < bufSize \<Longrightarrow> m - bufSize * 2 < m - bufSize"
  unfolding memoryBelow_def by (metis diff_less_mono2 le_less_trans less_add_same_cancel1 mult_2_right nat_le_linear not_le)

lemma startSize_pos: "0 < startSize factor n"
proof -
  have "4096 \<le> startSize factor n" by (simp add: startSize_def)
  then show ?thesis by linarith
qed

lemma gzipLoop_returns:
  assumes "memoryBelow m alloc" "0 < bufSize"
  shows "gzipLoop alloc lib z input out bufSize \<noteq> None"
  using assms(2)
proof (induction "m - bufSize" arbitrary: z input out bufSize rule: less_induct)
  case less
  obtain status n produced z' where l: "lib_inflate lib z input (bufSize - length out) = (status, n, produced, z')" by (metis prod_cases4)
  show ?case
  proof (cases "status = Z_OK \<and> alloc (bufSize * 2)")
    case True
    then have "gzipLoop alloc lib z' (drop n input) (out @ produced) (bufSize * 2) \<noteq> None"
      using less.hyps [OF double_closer [OF assms(1)]] less.prems by simp
    then show ?thesis using True l by (subst gzipLoop.simps) simp
  next
    case False
    then show ?thesis using l by (subst gzipLoop.simps) auto
  qed
qed

lemma brotliLoop_returns:
  assumes "memoryBelow m alloc" "0 < bufSize"
  shows "brotliLoop alloc lib z input out bufSize \<noteq> None"
  using assms(2)
proof (induction "m - bufSize" arbitrary: z input out bufSize rule: less_induct)
  case less
  obtain result n produced z' where l: "lib_brotli lib z input (bufSize - length out) = (result, n, produced, z')" by (metis prod_cases4)
  show ?case
  proof (cases "result = BROTLI_NEEDS_MORE_OUTPUT \<and> alloc (bufSize * 2)")
    case True
    then have "brotliLoop alloc lib z' (drop n input) (out @ produced) (bufSize * 2) \<noteq> None"
      using less.hyps [OF double_closer [OF assms(1)]] less.prems by simp
    then show ?thesis using True l by (subst brotliLoop.simps) simp
  next
    case False
    then show ?thesis using l by (subst brotliLoop.simps) auto
  qed
qed

text \<open>With the zlib wrapper first: there is no second try from there.\<close>

lemma deflateLoop_returns_zlib:
  assumes "memoryBelow m alloc" "0 < bufSize" "windowBits \<noteq> - MAX_WBITS"
  shows "deflateLoop alloc lib payload windowBits z input out bufSize \<noteq> None"
  using assms(2)
proof (induction "m - bufSize" arbitrary: z input out bufSize rule: less_induct)
  case less
  obtain status n produced z' where l: "lib_inflate lib z input (bufSize - length out) = (status, n, produced, z')" by (metis prod_cases4)
  show ?case
  proof (cases "status = Z_OK \<and> alloc (bufSize * 2)")
    case True
    then have "deflateLoop alloc lib payload windowBits z' (drop n input) (out @ produced) (bufSize * 2) \<noteq> None"
      using less.hyps [OF double_closer [OF assms(1)]] less.prems by simp
    then show ?thesis using True l by (subst deflateLoop.simps) simp
  next
    case False
    then show ?thesis using l assms(3) by (subst deflateLoop.simps) auto
  qed
qed

lemma deflateLoop_returns:
  assumes "memoryBelow m alloc" "0 < bufSize"
  shows "deflateLoop alloc lib payload (- MAX_WBITS) z input out bufSize \<noteq> None"
  using assms(2)
proof (induction "m - bufSize" arbitrary: z input out bufSize rule: less_induct)
  case less
  obtain status n produced z' where l: "lib_inflate lib z input (bufSize - length out) = (status, n, produced, z')" by (metis prod_cases4)
  have again: "deflateLoop alloc lib payload MAX_WBITS z2 payload [] (startSize 4 (length payload)) \<noteq> None" for z2
    by (rule deflateLoop_returns_zlib [OF assms(1) startSize_pos]) (simp add: MAX_WBITS_def)
  show ?case
  proof (cases "status = Z_OK \<and> alloc (bufSize * 2)")
    case True
    then have "deflateLoop alloc lib payload (- MAX_WBITS) z' (drop n input) (out @ produced) (bufSize * 2) \<noteq> None"
      using less.hyps [OF double_closer [OF assms(1)]] less.prems by simp
    then show ?thesis using True l by (subst deflateLoop.simps) simp
  next
    case False
    then show ?thesis using l again by (subst deflateLoop.simps) (auto split: option.splits)
  qed
qed

section \<open>Zstandard\<close>

text \<open>
  What \<open>ZSTD_decompressStream\<close> promises of a call that is neither an error nor the last: it stays
  within its input and the room for its output, and a call that does nothing uses up some of the
  patience of the decoder.
\<close>

definition zstdGivesUp :: "'z decoderLib \<Rightarrow> ('z \<Rightarrow> nat) \<Rightarrow> bool" where
  "zstdGivesUp lib patience \<longleftrightarrow>
     (\<forall>z input room ret n produced z'. lib_zstd lib z input room = (Some ret, n, produced, z') \<longrightarrow> ret \<noteq> 0 \<longrightarrow>
        n \<le> length input \<and> length produced \<le> room \<and> (0 < n \<or> produced \<noteq> [] \<or> patience z' < patience z))"

lemma zstdLoop_returns:
  assumes "memoryBelow m alloc" "zstdGivesUp lib patience" "0 < bufSize" "length out \<le> bufSize"
  shows "zstdLoop alloc lib z input out bufSize \<noteq> None"
  using assms(3,4)
proof (induction "(m - bufSize, bufSize - length out, length input, patience z)" arbitrary: z input out bufSize
    rule: wf_induct_rule [OF wf_lex_prod [OF wf_less_than wf_lex_prod [OF wf_less_than wf_lex_prod [OF wf_less_than wf_less_than]]]])
  case 1
  obtain remaining n produced z' where l: "lib_zstd lib z input (bufSize - length out) = (remaining, n, produced, z')" by (metis prod_cases4)
  show ?case
  proof (cases "remaining = None \<or> remaining = Some 0")
    case True
    then show ?thesis using l by (subst zstdLoop.simps) auto
  next
    case False
    then obtain ret where r: "remaining = Some ret" "ret \<noteq> 0" by auto
    then have p: "n \<le> length input" "length produced \<le> bufSize - length out" "0 < n \<or> produced \<noteq> [] \<or> patience z' < patience z"
      using assms(2) l unfolding zstdGivesUp_def by blast+
    show ?thesis
    proof (cases "length (out @ produced) \<ge> bufSize")
      case full: True
      have "zstdLoop alloc lib z' (drop n input) (out @ produced) (bufSize * 2) \<noteq> None" if "alloc (bufSize * 2)"
        using 1(1) double_closer [OF assms(1) that 1(2)] 1(2,3) p(2) by (auto simp: in_lex_prod)
      then show ?thesis using l r full by (subst zstdLoop.simps) auto
    next
      case room: False
      have "zstdLoop alloc lib z' (drop n input) (out @ produced) bufSize \<noteq> None"
      proof -
        have "bufSize - length (out @ produced) < bufSize - length out
            \<or> produced = [] \<and> (length (drop n input) < length input \<or> n = 0 \<and> patience z' < patience z)"
          using p room by (cases produced) auto
        then show ?thesis
          using 1(1) [of bufSize "out @ produced" "drop n input" z'] 1(2,3) p(2) by (auto simp: in_lex_prod)
      qed
      then show ?thesis using l r room by (subst zstdLoop.simps) auto
    qed
  qed
qed

section \<open>Every encoding\<close>

text \<open>C29. Decoding a collected response body returns, whatever the body holds and however the library
  answers: with finite memory the gzip, Brotli and deflate decoders end without any promise of their
  libraries, and Zstandard ends because its decoder does not idle for ever.\<close>

theorem decoding_returns:
  assumes "memoryBelow m alloc" "zstdGivesUp lib patience"
  shows "decompressAs alloc lib encoding payload \<noteq> None"
  using gzipLoop_returns [OF assms(1) startSize_pos] brotliLoop_returns [OF assms(1) startSize_pos]
    deflateLoop_returns [OF assms(1) startSize_pos] zstdLoop_returns [OF assms startSize_pos]
  by (auto simp: decompressAs_def decompress_GZip_def decompress_Brotli_def decompress_Deflate_def decompress_Zstd_def Let_def
      split: option.splits contentEncoding.splits)

text \<open>A library whose Zstandard decoder idles three times and then gives up.\<close>

definition idleLib :: "nat decoderLib" where
  "idleLib = \<lparr>lib_inflateInit = (\<lambda>_. None), lib_inflate = (\<lambda>z input room. (Z_FAILED, 0, [], z)),
     lib_brotliCreate = None, lib_brotli = (\<lambda>z input room. (BROTLI_ERROR, 0, [], z)), lib_zstdCreate = Some 3,
     lib_zstd = (\<lambda>z input room. if z = 0 then (None, 0, [], 0) else (Some 1, 0, [], z - 1)),
     lib_zstdContentSize = (\<lambda>_. None), lib_zstdDecompress = (\<lambda>_ _. None)\<rparr>"

lemma decoding_returns_witness: "decompressAs (\<lambda>n. n < 2 ^ 40) idleLib ENCODING_ZSTD [1, 2, 3] \<noteq> None"
  by (rule decoding_returns [where m = "2 ^ 40" and patience = "\<lambda>z. z"])
    (auto simp: memoryBelow_def zstdGivesUp_def idleLib_def split: if_splits)

end
