(* ===== verification/Spec2Isabelle.thy ===== *)
theory Spec2Isabelle
  imports Prelude Errors Huffman HpackInt HpackTable Rfc7541 HpackDecode HpackEncode Frames Decompress ResponseStream
    FlowControl Slots Http2Response StreamRegistry ReaderProps
    Http11Response Http11Props Http11Ends UrlParser SessionPool SessionPoolProps
    Http11Request Http11RequestProps BrowserHandler ProfileProps RequestBasket HeaderOrder CookieProps BasketProps
    TlsCache SocketHandler CreateSession ClientResult AsyncClient RequestFlow ClientProps ClientInvariant ClientRun
    TlsFingerprint FileReader RequestLog JavaBridge JavaBridgeProps NodeBridge DecodeReturns
begin

text \<open>
  This development models the HTTP client library of this repository: the C code under \<open>src/\<close> and the
  bridges \<open>java/HttpClient.c\<close> and \<open>nodejs/http-addon.cc\<close>. Paths in the theories are relative to the
  root of the repository.

  \<^bold>\<open>The program.\<close> A request arrives as JSON text. \<open>Basket.c\<close> turns it into a basket: URL, method, headers in
  the order asked for, payload, proxy, timeouts and the profile of the browser to look like
  (\<open>BrowserHandler.c\<close>). \<open>HttpClient.c\<close> runs it: it finds a session of the pool for the target or opens one
  (\<open>Session.c\<close>, \<open>SocketHandler.c\<close>, \<open>SSLHandler.c\<close>), registers a stream on it, and sends the request over
  HTTP/2 (\<open>Http2RequestHandler.c\<close>) or HTTP/1.1 (\<open>Http11RequestHandler.c\<close>). Every HTTP/2 session has a reader
  thread that cuts the bytes into frames and routes them to the streams (\<open>Http2ResponseHandler.c\<close>), decodes
  header blocks with the HPACK table of the connection (\<open>CompressHandler.c\<close>), and keeps the windows of flow
  control open. HTTP/1.1 responses are read by the thread of the request (\<open>Http11ResponseHandler.c\<close>). Both
  hand the body to one funnel (\<open>ResponseStream.c\<close>), which decodes it and calls the caller's callbacks or
  collects it. A blocking request waits for its stream; a non-blocking one is published in a
  registry and polled by the address of its basket. The result is JSON text copied into the
  caller's buffer.

  \<^bold>\<open>The theories\<close>, in the order they build on each other.

  \<^item> \<open>Prelude\<close>: bytes, C strings and the C library's string functions, generic facts on lists.
    \<open>Errors\<close>: the error values of \<open>utils/Error.c\<close>. \<open>Slots\<close>: fixed arrays of pointers, and the locale
    \<open>bounded_registry\<close> of what a registry promises its clients.
  \<^item> HPACK. \<open>Huffman\<close>: table, tree, encoder and decoder. \<open>HpackInt\<close>: integers and string literals.
    \<open>HpackTable\<close>: static and dynamic table, refined to RFC 7541. \<open>Rfc7541\<close>: the tables and
    representations of that document, written down independently of the code, and where the code's
    tables agree with them. \<open>HpackDecode\<close>: the header block
    decoder, which computes the header list of RFC 7541 for every well-formed block of up to 64
    fields and Huffman codes of up to 25 bits, and stays in its bounds on every input. \<open>HpackEncode\<close>: the request's header block and its HEADERS frame, and
    that decoding it gives the request back.
  \<^item> The HTTP/2 connection. \<open>Frames\<close>: cutting bytes into frames, independently of how the network cut
    them, and the frames the client writes. \<open>FlowControl\<close>: the ledger of window credits in 32-bit
    words and the queue of control frames; the locale \<open>credit_wire\<close> is the contract of both ways to
    write a frame. \<open>Http2Response\<close>: the handlers and the dispatch of the reader. \<open>StreamRegistry\<close>:
    opening and closing streams, an instance of \<open>bounded_registry\<close>. \<open>ReaderProps\<close>: what the reader
    guarantees, as a refinement of the funnel's runs.
  \<^item> Bodies. \<open>Decompress\<close>, \<open>DecodeReturns\<close>: the one-shot and incremental decoders, and that the
    one-shot ones return. \<open>ResponseStream\<close>: the funnel and the
    discipline of the callbacks over every interleaving of its operations.
  \<^item> HTTP/1.1. \<open>Http11Response\<close> and \<open>Http11Props\<close>: the buffered reader; a well-formed response that is sized,
    chunked or without body arrives whole, the buffer is bounded. \<open>Http11Ends\<close>: an exchange ends at its
    deadline, and what renews it. \<open>Http11Request\<close> and
    \<open>Http11RequestProps\<close>: the request text, read back by a reference parser.
  \<^item> Requests. \<open>UrlParser\<close>, \<open>RequestBasket\<close>, \<open>HeaderOrder\<close>, \<open>CookieProps\<close>, \<open>BasketProps\<close>: from JSON to a basket.
    \<open>BrowserHandler\<close>, \<open>ProfileProps\<close>: profiles, and that each writes a preamble that says what the client
    does. \<open>FileReader\<close>: a request in a file. \<open>RequestLog\<close>: the log text, and the mode the bindings pin.
  \<^item> Sessions. \<open>SessionPool\<close>, \<open>SessionPoolProps\<close>: reuse, reaping, going away and establish locks; the pool
    is an instance of \<open>bounded_registry\<close>. \<open>TlsCache\<close>: TLS sessions for resumption with their reference
    counts. \<open>SocketHandler\<close>, \<open>CreateSession\<close>: opening a connection, with the trace of the resources taken
    and released. \<open>TlsFingerprint\<close>: the settings of the TLS objects.
  \<^item> The client. \<open>ClientResult\<close>: moving a response into its basket and printing it. \<open>AsyncClient\<close>: the registry
    of requests, and polling. \<open>RequestFlow\<close>: one attempt, the retry, blocking and non-blocking requests.
    \<open>ClientProps\<close>, \<open>ClientInvariant\<close>, \<open>ClientRun\<close>: an invariant over the runs of requests, polls,
    reapings and connection threads, each thread an instance of the locale \<open>connection_thread\<close>; what
    follows for a pending and for a finished request.
  \<^item> The bridges. \<open>JavaBridge\<close>, \<open>JavaBridgeProps\<close>: collecting a response of any size, the listeners of
    streamed responses over the runs of the bridge, shutdowns included. \<open>NodeBridge\<close>: the same for
    Node.js, and the life of the object that carries the callbacks to the thread of JavaScript, with
    the undefined uses of its threadsafe function and the teardown of the environment.

  \<^bold>\<open>How state and operations correspond.\<close> Definitions and constructors bear the name of the C function, type or
  field; fields have a prefix per record (\<open>st_\<close> stream, \<open>cn_\<close> connection, \<open>ss_\<close> session, \<open>rb_\<close> and \<open>ex_\<close> basket,
  \<open>sk_\<close> sink). A function that changes state takes and returns it. Streams, sessions and baskets are
  objects of a heap: a number is the pointer, a map of the state the memory, and removing an entry
  is \<open>free\<close>. A section that runs under a mutex is one step, and runs are sequences of steps in any
  order. A result \<open>None\<close> is behaviour C leaves undefined: a write past an array, a read of freed memory,
  a null string handed to a string function, a length that overflows; theorems show where it cannot
  occur, and lemmas where it does. A test of an allocation that grows a buffer is the argument
  \<open>alloc\<close>, and its failure is modelled; the small fixed allocations the code does not test are taken
  to succeed.

  \<^bold>\<open>Parameters.\<close> What is not in the repository is an argument: jansson (\<open>jansson\<close>, \<open>jsonBuilder\<close>), zlib,
  Brotli and Zstandard (\<open>decoderLib\<close>), base64, the TLS library and the operating system (scripts of what
  each call returns: \<open>attempt\<close>, \<open>addressTry\<close>, \<open>createEnv\<close>, \<open>attemptEnv\<close>), the clock (\<open>ev_now\<close>; in the HTTP/1.1 reader \<open>hr_now\<close>, the time of the last attempt),
  random numbers without their seeding,
  \<open>inet_pton\<close>, \<open>getsockopt\<close> (\<open>alive\<close>), the Java machine and the JavaScript engine, and the callbacks, which
  answer by what was delivered before. Theorems that need a law of one of them name it as a
  hypothesis, and their witnesses instantiate it.

  \<^bold>\<open>Bounds and loops.\<close> The bounds are the code's: 64 response headers, 256 streams of a session, 1024
  sessions, 1024 pending requests, 256 TLS sessions, header sections and buffers as in the headers. No definition
  has fuel. Loops over data are recursive functions with a measure: the bytes left, the attempts
  left in a script. The loops that call a decoder may run for ever, as far as the code
  can tell, and are \<open>partial_function (option)\<close>: that the one-shot ones return is \<open>decoding_returns\<close>, that
  the incremental Brotli loop does is part of \<open>brotli_feed_drains\<close>; for zlib and Zstandard fed chunk by
  chunk the safety of the callbacks is shown whether they return or not.

  \<^bold>\<open>What is wrong in the code\<close> is stated by lemmas that say so, beside the theorems they limit: two
  cookies that overflow the header array, a TLS ticket that reads a basket already freed, a second
  address that is never used, a response reported as timed out that hands over unwritten memory,
  a callback that uses a threadsafe function already released, and others.

  \<^bold>\<open>Not modelled.\<close> Logging other than the text of the request log; \<open>printUrlComponents\<close>,
  \<open>getAddressIPPort\<close> only print a line of it. \<open>Version.c\<close> returns constants the build
  generates. \<open>hash\<close> of \<open>utils/Common.c\<close> has no caller. The branches for Windows. Releasing memory field by
  field: freeing an object is removing it. Data races: a poll is one step, a request is one step but
  for its waiting, and writes to flags outside a mutex are atomic. What the TLS library makes of its settings. In the bridges the
  conversion of arguments and results to objects of the other language, attaching threads to the
  Java machine, and references to objects. The Python binding, the JavaScript and Java front ends, the
  tests, the build files and the patches of BoringSSL, which are not C code of the library.
\<close>

end
